(* ===== verification/Odfs_Base.thy ===== *)
theory Odfs_Base
  imports Main "HOL-Library.Word" "HOL-Library.Monad_Syntax"
begin

unbundle bit_operations_syntax

text \<open>
  Shared vocabulary of the development.

  \<^item> the machine integers of the C code (\<open>uint8_t\<close> .. \<open>uint64_t\<close>) as words;
  \<^item> \<open>odfs_err\<close>, the error enum of \<^verbatim>\<open>include/odfs/error.h\<close>, and \<open>odfs_err_str\<close>;
  \<^item> the treatment of memory: a C buffer is a list of bytes, and a read or write outside it is
    undefined behaviour, modelled as \<open>None\<close> in the option monad.  A loop that does not return
    is \<open>None\<close> as well;
  \<^item> C strings: the bytes before the terminating NUL (\<open>cstr\<close>);
  \<^item> the allocator: the outcomes of the coming \<open>odfs_malloc\<close> calls as a sequence of booleans;
  \<^item> generic lemmas on list segments threaded through arrays by index, used for the LRU list,
    the free list and the hash chains of the block cache.
\<close>

section \<open>Machine integers and errors\<close>

type_synonym u8 = "8 word"
type_synonym u16 = "16 word"
type_synonym u32 = "32 word"
type_synonym u64 = "64 word"

datatype odfs_err =
    ODFS_OK
  | ODFS_ERR_NOMEM | ODFS_ERR_IO | ODFS_ERR_INVAL | ODFS_ERR_RANGE | ODFS_ERR_OVERFLOW
  | ODFS_ERR_NO_MEDIA | ODFS_ERR_BAD_SECTOR | ODFS_ERR_MEDIA_CHANGED
  | ODFS_ERR_NOT_FOUND | ODFS_ERR_BAD_FORMAT | ODFS_ERR_UNSUPPORTED | ODFS_ERR_CORRUPT
  | ODFS_ERR_LOOP | ODFS_ERR_NAME_TOO_LONG
  | ODFS_ERR_NOT_DIR | ODFS_ERR_IS_DIR | ODFS_ERR_IS_SYMLINK | ODFS_ERR_READ_ONLY
  | ODFS_ERR_TOO_MANY_OPEN | ODFS_ERR_EOF

text \<open>\<open>error_strings\<close> and \<open>odfs_err_str\<close>; a value outside the enum (the "unknown error"
  branch) has no counterpart in the datatype.\<close>

fun odfs_err_str :: "odfs_err \<Rightarrow> string" where
  "odfs_err_str ODFS_OK = ''OK''"
| "odfs_err_str ODFS_ERR_NOMEM = ''out of memory''"
| "odfs_err_str ODFS_ERR_IO = ''I/O error''"
| "odfs_err_str ODFS_ERR_INVAL = ''invalid argument''"
| "odfs_err_str ODFS_ERR_RANGE = ''value out of range''"
| "odfs_err_str ODFS_ERR_OVERFLOW = ''overflow''"
| "odfs_err_str ODFS_ERR_NO_MEDIA = ''no media''"
| "odfs_err_str ODFS_ERR_BAD_SECTOR = ''bad sector''"
| "odfs_err_str ODFS_ERR_MEDIA_CHANGED = ''media changed''"
| "odfs_err_str ODFS_ERR_NOT_FOUND = ''not found''"
| "odfs_err_str ODFS_ERR_BAD_FORMAT = ''bad format''"
| "odfs_err_str ODFS_ERR_UNSUPPORTED = ''unsupported''"
| "odfs_err_str ODFS_ERR_CORRUPT = ''corrupt''"
| "odfs_err_str ODFS_ERR_LOOP = ''loop detected''"
| "odfs_err_str ODFS_ERR_NAME_TOO_LONG = ''name too long''"
| "odfs_err_str ODFS_ERR_NOT_DIR = ''not a directory''"
| "odfs_err_str ODFS_ERR_IS_DIR = ''is a directory''"
| "odfs_err_str ODFS_ERR_IS_SYMLINK = ''is a symbolic link''"
| "odfs_err_str ODFS_ERR_READ_ONLY = ''read-only filesystem''"
| "odfs_err_str ODFS_ERR_TOO_MANY_OPEN = ''too many open files''"
| "odfs_err_str ODFS_ERR_EOF = ''end of file''"

section \<open>Memory\<close>

text \<open>Reading an element of an array or buffer: \<open>None\<close> outside its bounds.\<close>

definition rd :: "'a list \<Rightarrow> nat \<Rightarrow> 'a option" where
  "rd xs i = (if i < length xs then Some (xs ! i) else None)"

text \<open>The \<open>n\<close> elements starting at index \<open>i\<close> (the source of a \<open>memcpy\<close> or \<open>memcmp\<close>).\<close>

definition rdn :: "'a list \<Rightarrow> nat \<Rightarrow> nat \<Rightarrow> 'a list option" where
  "rdn xs i n = (if n = 0 then Some [] else if i + n \<le> length xs then Some (take n (drop i xs)) else None)"

text \<open>Writing \<open>src\<close> into the buffer at index \<open>i\<close>.\<close>

definition wrn :: "'a list \<Rightarrow> nat \<Rightarrow> 'a list \<Rightarrow> 'a list option" where
  "wrn buf i src =
     (if i + length src \<le> length buf then Some (take i buf @ src @ drop (i + length src) buf)
      else None)"

text \<open>A C string: the bytes of a buffer before the first NUL.\<close>

definition cstr :: "u8 list \<Rightarrow> u8 list" where
  "cstr buf = takeWhile (\<lambda>c. c \<noteq> 0) buf"

text \<open>The character a C string pointer points at; the terminator at the end.\<close>

definition ch :: "u8 list \<Rightarrow> u8" where
  "ch s = (case s of [] \<Rightarrow> 0 | c # _ \<Rightarrow> c)"

definition str_bytes :: "string \<Rightarrow> u8 list" where
  "str_bytes s = map (\<lambda>c. of_nat (of_char c)) s"

lemma rd_Some_iff [simp]: "rd xs i = Some x \<longleftrightarrow> i < length xs \<and> x = xs ! i"
  by (auto simp: rd_def)

lemma rd_in [simp]: "i < length xs \<Longrightarrow> rd xs i = Some (xs ! i)"
  by (simp add: rd_def)

lemma rd_None_iff [simp]: "rd xs i = None \<longleftrightarrow> length xs \<le> i"
  by (auto simp: rd_def)

lemma rdn_in: "i + n \<le> length xs \<Longrightarrow> rdn xs i n = Some (take n (drop i xs))"
  by (auto simp: rdn_def)

lemma rdn_SomeD: "rdn xs i n = Some ys \<Longrightarrow> length ys = n"
  by (auto simp: rdn_def split: if_splits)

lemma wrn_SomeD: "wrn buf i src = Some buf' \<Longrightarrow> length buf' = length buf"
  by (auto simp: wrn_def split: if_splits)

lemma cstr_no_nul [simp]: "0 \<notin> set (cstr buf)"
  by (auto simp: cstr_def dest: set_takeWhileD)

lemma cstr_id: "0 \<notin> set s \<Longrightarrow> cstr s = s"
  by (auto simp: cstr_def takeWhile_eq_all_conv)

lemma cstr_append_nul: "0 \<notin> set s \<Longrightarrow> cstr (s @ 0 # t) = s"
  by (auto simp: cstr_def takeWhile_append)

lemma length_cstr_le: "length (cstr s) \<le> length s"
  by (simp add: cstr_def length_takeWhile_le)

lemma ch_simps [simp]: "ch [] = 0" "ch (c # s) = c"
  by (simp_all add: ch_def)

text \<open>A cleared buffer.\<close>

definition zero_bytes :: "nat \<Rightarrow> u8 list" where
  "zero_bytes n = replicate n 0"

lemma length_zero_bytes [simp]: "length (zero_bytes n) = n"
  by (simp only: zero_bytes_def length_replicate)

lemma set_zero_bytes: "x \<in> set (zero_bytes n) \<Longrightarrow> x = 0"
  unfolding zero_bytes_def set_replicate_conv_if by (simp split: if_splits)

section \<open>Facts about all bytes\<close>

text \<open>A property of one byte is decided by evaluating it on all 256.\<close>

lemma u8_cases_all:
  assumes "list_all (\<lambda>n. P (word_of_int n)) [0..255]"
  shows "P (c :: u8)"
proof -
  have bnd: "0 \<le> uint c \<and> uint c \<le> 255" using uint_lt2p[of c] by simp
  have "\<forall>n. 0 \<le> n \<and> n \<le> 255 \<longrightarrow> P (word_of_int n)"
    using assms by (simp add: list_all_iff)
  then have "0 \<le> uint c \<and> uint c \<le> 255 \<longrightarrow> P (word_of_int (uint c))" by (rule spec)
  with bnd have "P (word_of_int (uint c))" by (rule mp[rotated])
  then show ?thesis by simp
qed

section \<open>Little- and big-endian fields\<close>

definition le16 :: "u8 list \<Rightarrow> nat \<Rightarrow> u16 option" where
  "le16 p i = do { a \<leftarrow> rd p i; b \<leftarrow> rd p (i + 1);
     Some (ucast a OR push_bit 8 (ucast b)) }"

definition le32 :: "u8 list \<Rightarrow> nat \<Rightarrow> u32 option" where
  "le32 p i = do { a \<leftarrow> rd p i; b \<leftarrow> rd p (i + 1); c \<leftarrow> rd p (i + 2); d \<leftarrow> rd p (i + 3);
     Some (ucast a OR push_bit 8 (ucast b) OR push_bit 16 (ucast c) OR push_bit 24 (ucast d)) }"

lemma le16_in: "i + 2 \<le> length p \<Longrightarrow> \<exists>v. le16 p i = Some v"
  by (simp add: le16_def)

lemma le32_in: "i + 4 \<le> length p \<Longrightarrow> \<exists>v. le32 p i = Some v"
  by (simp add: le32_def)

section \<open>Adding offsets to 32-bit values\<close>

lemma unat_u32_lt: "unat (l :: u32) < 2 ^ 32"
  using unsigned_less[of l] by simp
lemma unat_u32_of_nat: "unat (of_nat i :: u32) = i mod 2 ^ 32"
  by (simp only: unat_of_nat) simp
lemma unat_u32_add: "unat (a + b :: u32) = (unat a + unat b) mod 2 ^ 32"
  by (simp only: unat_word_ariths) simp
lemma unat_u32_plus_mod: "unat (l + of_nat i :: u32) = (unat l + i) mod 2 ^ 32"
  by (simp only: unat_u32_add unat_u32_of_nat mod_add_right_eq)
lemma unat_u32_plus: "unat (l :: u32) + i < 2 ^ 32 \<Longrightarrow> unat (l + of_nat i) = unat l + i"
  by (simp only: unat_u32_plus_mod mod_less)

lemma u32_add_inj: "unat (l :: u32) + i < 2 ^ 32 \<Longrightarrow> unat l + j < 2 ^ 32 \<Longrightarrow> l + of_nat i = l + of_nat j \<Longrightarrow> i = j"
  by (metis add_left_cancel unat_u32_plus)

lemma u32_plus_gt: "0 < i \<Longrightarrow> i < 2 ^ 32 \<Longrightarrow> l + of_nat i > l \<longleftrightarrow> unat (l :: u32) + i < 2 ^ 32"
proof
  assume i: "0 < i" "i < 2 ^ 32" and gt: "l + of_nat i > l"
  show "unat l + i < 2 ^ 32"
  proof (rule ccontr)
    assume "\<not> unat l + i < 2 ^ 32"
    then have "unat (l + of_nat i) = unat l + i - 2 ^ 32"
      unfolding unat_u32_plus_mod using i unat_u32_lt[of l] by (simp add: le_mod_geq)
    with gt i show False by (simp add: word_less_nat_alt)
  qed
next
  assume "0 < i" "unat l + i < 2 ^ 32"
  then show "l + of_nat i > l" using unat_u32_plus[of l i] unfolding word_less_nat_alt by linarith
qed

lemma unat_u64_lt: "unat (l :: u64) < 2 ^ 64"
  using unsigned_less[of l] by simp

lemma unat_u64_add: "unat (a + b :: u64) = (unat a + unat b) mod 2 ^ 64"
  by (simp only: unat_word_ariths) simp

lemma unat_u64_mult: "unat (a * b :: u64) = (unat a * unat b) mod 2 ^ 64"
  by (simp only: unat_word_ariths) simp

lemma unat_u64_of_nat: "unat (of_nat i :: u64) = i mod 2 ^ 64"
  by (simp only: unat_of_nat) simp

lemma unat_ucast_u32_u64: "unat (ucast (a :: u32) :: u64) = unat a"
  by (simp add: unsigned_ucast_eq take_bit_nat_eq_self_iff[THEN iffD2] order_less_trans[OF unat_u32_lt])

lemma unat_u64_drop: "unat (drop_bit k (a :: u64)) = unat a div 2 ^ k"
proof -
  have "take_bit 64 (unat a) = unat a" by (simp only: take_bit_eq_mod mod_less unat_u64_lt)
  then have "unat (drop_bit k a) = drop_bit k (unat a)" by (simp add: unsigned_drop_bit_eq)
  then show ?thesis by (simp only: drop_bit_eq_div)
qed

lemma unat_ucast_u64_u32: "unat (ucast (a :: u64) :: u32) = unat a mod 2 ^ 32"
  by (simp add: unsigned_ucast_eq take_bit_eq_mod)

section \<open>The allocator\<close>

text \<open>
  \<open>odfs_malloc\<close> (\<^verbatim>\<open>include/odfs/alloc.h\<close>) may fail.  The outcomes of the coming calls are a
  sequence of booleans, consumed one per call.
\<close>

type_synonym heap = "nat \<Rightarrow> bool"

definition odfs_malloc :: "heap \<Rightarrow> bool \<times> heap" where
  "odfs_malloc h = (h 0, \<lambda>n. h (Suc n))"

definition heap_plenty :: heap where
  "heap_plenty = (\<lambda>_. True)"

lemma heap_plenty_malloc [simp]: "odfs_malloc heap_plenty = (True, heap_plenty)"
  by (simp add: odfs_malloc_def heap_plenty_def)

end
