(* ===== verification/Text.thy ===== *)
theory Text
  imports Odfs_Base
begin

text \<open>
  Strings and character sets: \<^verbatim>\<open>include/odfs/string.h\<close> (case folding, the name hash and the
  case-insensitive comparison) and \<^verbatim>\<open>core/charset.c\<close> (UCS-2 and Mac Roman to UTF-8, ISO
  names, POSIX to AmigaDOS paths).

  The lemmas show that the comparison is equality of the folded names, that names which compare
  equal hash equally, that converted names fit their buffer with the terminator and end on a
  character boundary, and what the path conversion computes.
\<close>

section \<open>Case folding, hash and comparison\<close>

definition odfs_ascii_tolower :: "u8 \<Rightarrow> u8" where
  "odfs_ascii_tolower c = (if 0x41 \<le> c \<and> c \<le> 0x5A then c + 0x20 else c)"

definition hash_step :: "u32 \<Rightarrow> u8 \<Rightarrow> u32" where
  "hash_step h c = (push_bit 5 h OR drop_bit 27 h) XOR (ucast c OR 0x20)"

definition hash_final :: "u32 \<Rightarrow> u32" where
  "hash_final h = (let h' = h XOR drop_bit 16 h in h' XOR drop_bit 8 h')"

text \<open>\<open>odfs_strcasehash\<close> reads up to the terminator, \<open>odfs_strcasehash_len\<close> exactly \<open>len\<close> bytes.\<close>

definition odfs_strcasehash :: "u8 list \<Rightarrow> u32" where
  "odfs_strcasehash s = hash_final (foldl hash_step 0 (cstr s))"

definition odfs_strcasehash_len :: "u8 list \<Rightarrow> nat \<Rightarrow> u32" where
  "odfs_strcasehash_len s len = hash_final (foldl hash_step 0 (take len s))"

function odfs_strcasecmp :: "u8 list \<Rightarrow> u8 list \<Rightarrow> int" where
  "odfs_strcasecmp a b =
     (let ca = odfs_ascii_tolower (ch a); cb = odfs_ascii_tolower (ch b) in
      if ca \<noteq> cb \<or> ca = 0 then uint ca - uint cb
      else odfs_strcasecmp (tl a) (tl b))"
  by pat_completeness auto
termination
proof (relation "measure (\<lambda>(a, b). length a)", goal_cases)
  case (2 a b ca cb)
  then have "a \<noteq> []" by (auto simp: odfs_ascii_tolower_def)
  then show ?case by (simp add: length_greater_0_conv[symmetric] del: length_greater_0_conv)
qed simp

declare odfs_strcasecmp.simps [simp del]

abbreviation fold_name :: "u8 list \<Rightarrow> u8 list" where
  "fold_name s \<equiv> map odfs_ascii_tolower s"

lemma tolower_eq_0_iff [simp]: "odfs_ascii_tolower c = 0 \<longleftrightarrow> c = 0"
  by (rule u8_cases_all) code_simp

lemma tolower_0_zero: "odfs_ascii_tolower 0 = 0"
  by simp

lemma tolower_or_0x20: "odfs_ascii_tolower c OR 0x20 = c OR 0x20"
  by (rule u8_cases_all) code_simp

lemma tolower_idem [simp]: "odfs_ascii_tolower (odfs_ascii_tolower c) = odfs_ascii_tolower c"
  by (rule u8_cases_all) code_simp

lemma tolower_eq_semicolon: "0x3B = odfs_ascii_tolower c \<longleftrightarrow> c = 0x3B"
  by (rule u8_cases_all) code_simp

lemma strcasecmp_Nil_Nil [simp]: "odfs_strcasecmp [] [] = 0"
  by (simp add: odfs_strcasecmp.simps[of "[]"])

lemma strcasecmp_Cons:
  "c \<noteq> 0 \<Longrightarrow> d \<noteq> 0 \<Longrightarrow>
   odfs_strcasecmp (c # a) (d # b) =
     (if odfs_ascii_tolower c = odfs_ascii_tolower d then odfs_strcasecmp a b
      else uint (odfs_ascii_tolower c) - uint (odfs_ascii_tolower d))"
  by (simp add: odfs_strcasecmp.simps[of "c # a"] Let_def)

lemma strcasecmp_Nil_Cons: "c \<noteq> 0 \<Longrightarrow> odfs_strcasecmp [] (c # b) \<noteq> 0"
  by (simp add: odfs_strcasecmp.simps[of "[]"] Let_def tolower_0_zero uint_0_iff)

lemma strcasecmp_Cons_Nil: "c \<noteq> 0 \<Longrightarrow> odfs_strcasecmp (c # a) [] \<noteq> 0"
  by (simp add: odfs_strcasecmp.simps[of "c # a"] Let_def tolower_0_zero uint_0_iff)

text \<open>The comparison answers 0 exactly when the folded names are the same.\<close>

lemma strcasecmp_0_iff:
  "0 \<notin> set a \<Longrightarrow> 0 \<notin> set b \<Longrightarrow> odfs_strcasecmp a b = 0 \<longleftrightarrow> fold_name a = fold_name b"
proof (induction a arbitrary: b)
  case Nil
  then show ?case by (cases b) (auto simp: strcasecmp_Nil_Cons)
next
  case (Cons c a)
  show ?case
  proof (cases b)
    case Nil
    with Cons.prems show ?thesis by (simp add: strcasecmp_Cons_Nil)
  next
    case (Cons d b')
    with Cons.prems Cons.IH[of b'] show ?thesis by (auto simp: strcasecmp_Cons word_uint_eq_iff)
  qed
qed

text \<open>Folding does not change the hash, so names that compare equal hash equally.\<close>

lemma hash_step_fold: "hash_step h (odfs_ascii_tolower c) = hash_step h c"
proof -
  have "(ucast (odfs_ascii_tolower c) :: u32) OR 0x20 = ucast (odfs_ascii_tolower c OR 0x20)"
    by (simp add: unsigned_or_eq)
  also have "\<dots> = ucast c OR 0x20"
    by (simp add: tolower_or_0x20 unsigned_or_eq)
  finally show ?thesis by (simp add: hash_step_def)
qed

lemma foldl_hash_fold: "foldl hash_step h (fold_name s) = foldl hash_step h s"
  by (induction s arbitrary: h) (simp_all add: hash_step_fold)

lemma foldl_hash_cong:
  assumes "fold_name a = fold_name b"
  shows "foldl hash_step h a = foldl hash_step h b"
  using foldl_hash_fold[of h a] foldl_hash_fold[of h b] assms by simp

lemma strcasehash_cong:
  assumes "0 \<notin> set a" "0 \<notin> set b" "odfs_strcasecmp a b = 0"
  shows "odfs_strcasehash a = odfs_strcasehash b"
  using assms foldl_hash_cong[of a b]
  by (simp add: odfs_strcasehash_def cstr_id strcasecmp_0_iff)

lemma strcasehash_len:
  "0 \<notin> set (take len s) \<Longrightarrow> odfs_strcasehash_len s len = odfs_strcasehash (take len s)"
  by (simp add: odfs_strcasehash_len_def odfs_strcasehash_def cstr_id)

section \<open>UTF-8 output\<close>

text \<open>
  \<open>odfs_utf8_append\<close> writes one code point after the \<open>di\<close> bytes already in the buffer, or
  answers 0 (\<open>None\<close>) when the bytes and a terminator do not fit.  The bytes written so far are
  the argument \<open>out\<close>, so \<open>di\<close> is its length.
\<close>

definition utf8_bytes :: "u32 \<Rightarrow> u8 list" where
  "utf8_bytes cp =
     (if cp < 0x80 then [ucast cp]
      else if cp < 0x800 then [ucast (0xC0 OR drop_bit 6 cp), ucast (0x80 OR (cp AND 0x3F))]
      else if cp < 0x10000 then
        [ucast (0xE0 OR drop_bit 12 cp), ucast (0x80 OR (drop_bit 6 cp AND 0x3F)),
         ucast (0x80 OR (cp AND 0x3F))]
      else if cp \<le> 0x10FFFF then
        [ucast (0xF0 OR drop_bit 18 cp), ucast (0x80 OR (drop_bit 12 cp AND 0x3F)),
         ucast (0x80 OR (drop_bit 6 cp AND 0x3F)), ucast (0x80 OR (cp AND 0x3F))]
      else [0x3F])"

definition odfs_utf8_append :: "u32 \<Rightarrow> u8 list \<Rightarrow> nat \<Rightarrow> u8 list option" where
  "odfs_utf8_append cp out dst_size =
     (if length out + length (utf8_bytes cp) \<ge> dst_size then None
      else Some (out @ utf8_bytes cp))"

fun ucs2be_loop :: "u8 list \<Rightarrow> nat \<Rightarrow> u8 list \<Rightarrow> u8 list" where
  "ucs2be_loop (hi # lo # src) dst_size out =
     (let cp = push_bit 8 (ucast hi) OR ucast lo :: u32 in
      if cp = 0 then out
      else case odfs_utf8_append cp out dst_size of
        None \<Rightarrow> out
      | Some out' \<Rightarrow> ucs2be_loop src dst_size out')"
| "ucs2be_loop _ dst_size out = out"

text \<open>The result is the string written (its length is \<open>*out_len\<close>); on \<open>ODFS_ERR_INVAL\<close> neither
  the buffer nor \<open>*out_len\<close> is written.\<close>

definition odfs_ucs2be_to_utf8 :: "u8 list \<Rightarrow> nat \<Rightarrow> odfs_err + u8 list" where
  "odfs_ucs2be_to_utf8 src dst_size =
     (if dst_size = 0 then Inl ODFS_ERR_INVAL
      else if odd (length src) then Inl ODFS_ERR_INVAL
      else Inr (ucs2be_loop src dst_size []))"

definition mac_roman_high :: "u32 list" where
  "mac_roman_high = [
        0x00C4, 0x00C5, 0x00C7, 0x00C9, 0x00D1, 0x00D6, 0x00DC, 0x00E1,
        0x00E0, 0x00E2, 0x00E4, 0x00E3, 0x00E5, 0x00E7, 0x00E9, 0x00E8,
        0x00EA, 0x00EB, 0x00ED, 0x00EC, 0x00EE, 0x00EF, 0x00F1, 0x00F3,
        0x00F2, 0x00F4, 0x00F6, 0x00F5, 0x00FA, 0x00F9, 0x00FB, 0x00FC,
        0x2020, 0x00B0, 0x00A2, 0x00A3, 0x00A7, 0x2022, 0x00B6, 0x00DF,
        0x00AE, 0x00A9, 0x2122, 0x00B4, 0x00A8, 0x2260, 0x00C6, 0x00D8,
        0x221E, 0x00B1, 0x2264, 0x2265, 0x00A5, 0x00B5, 0x2202, 0x2211,
        0x220F, 0x03C0, 0x222B, 0x00AA, 0x00BA, 0x03A9, 0x00E6, 0x00F8,
        0x00BF, 0x00A1, 0x00AC, 0x221A, 0x0192, 0x2248, 0x2206, 0x00AB,
        0x00BB, 0x2026, 0x00A0, 0x00C0, 0x00C3, 0x00D5, 0x0152, 0x0153,
        0x2013, 0x2014, 0x201C, 0x201D, 0x2018, 0x2019, 0x00F7, 0x25CA,
        0x00FF, 0x0178, 0x2044, 0x20AC, 0x2039, 0x203A, 0xFB01, 0xFB02,
        0x2021, 0x00B7, 0x201A, 0x201E, 0x2030, 0x00C2, 0x00CA, 0x00C1,
        0x00CB, 0x00C8, 0x00CD, 0x00CE, 0x00CF, 0x00CC, 0x00D3, 0x00D4,
        0xF8FF, 0x00D2, 0x00DA, 0x00DB, 0x00D9, 0x0131, 0x02C6, 0x02DC,
        0x00AF, 0x02D8, 0x02D9, 0x02DA, 0x00B8, 0x02DD, 0x02DB, 0x02C7]"

definition mac_roman_cp :: "u8 \<Rightarrow> u32" where
  "mac_roman_cp c =
     (if c < 0x20 then 0x3F else if c < 0x80 then ucast c
      else mac_roman_high ! (unat c - 0x80))"

fun mac_roman_loop :: "u8 list \<Rightarrow> nat \<Rightarrow> u8 list \<Rightarrow> u8 list" where
  "mac_roman_loop [] dst_size out = out"
| "mac_roman_loop (c # src) dst_size out =
     (case odfs_utf8_append (mac_roman_cp c) out dst_size of
        None \<Rightarrow> out
      | Some out' \<Rightarrow> mac_roman_loop src dst_size out')"

definition odfs_mac_roman_to_utf8 :: "u8 list \<Rightarrow> nat \<Rightarrow> odfs_err + u8 list" where
  "odfs_mac_roman_to_utf8 src dst_size =
     (if dst_size = 0 then Inl ODFS_ERR_INVAL else Inr (mac_roman_loop src dst_size []))"

text \<open>The buffer after the call, up to the terminator written at \<open>dst[i]\<close>.\<close>

definition odfs_iso_name_to_display :: "u8 list \<Rightarrow> nat \<Rightarrow> bool \<Rightarrow> odfs_err + u8 list" where
  "odfs_iso_name_to_display src dst_size lowercase =
     (if dst_size = 0 then Inl ODFS_ERR_INVAL
      else
        let n = (if length src > dst_size - 1 then dst_size - 1 else length src);
            copied = takeWhile (\<lambda>c. c \<noteq> 0x3B) (take n src);
            i = length copied;
            i' = (if i = length src \<and> i > 0 \<and> src ! (i - 1) = 0x2E then i - 1 else i);
            kept = take i' copied
        in Inr (if lowercase then fold_name kept else kept))"

text \<open>Characters are replaced up to \<open>len\<close> bytes or the terminator.\<close>

definition odfs_sanitize_name :: "u8 list \<Rightarrow> nat \<Rightarrow> u8 \<Rightarrow> u8 list" where
  "odfs_sanitize_name name len replacement =
     (let s = cstr (take len name) in
      map (\<lambda>c. if c < 0x20 \<or> c = 0x2F \<or> c = 0x3A \<or> c = 0x7F then replacement else c) s
      @ drop (length s) name)"

section \<open>POSIX symlink targets to AmigaDOS paths\<close>

definition ODFS_PATH_MAX_COMPONENTS :: nat where
  "ODFS_PATH_MAX_COMPONENTS = 32"

lemma path_scan_shrinks [intro]:
  "p \<noteq> [] \<Longrightarrow> length (dropWhile (\<lambda>c. c = (0x2F :: u8)) (dropWhile (\<lambda>c. c \<noteq> 0x2F) p)) < length p"
  using length_dropWhile_le[of "\<lambda>c. c = 0x2F" "tl p"]
    length_dropWhile_le[of "\<lambda>c. c = 0x2F" "dropWhile (\<lambda>c. c \<noteq> 0x2F) (tl p)"]
    length_dropWhile_le[of "\<lambda>c. c \<noteq> 0x2F" "tl p"]
  by (cases p) auto

text \<open>The scan of the path: the components kept so far (oldest first) and the count of
  surviving leading "..".\<close>

function path_scan :: "bool \<Rightarrow> u8 list \<Rightarrow> u8 list list \<Rightarrow> nat \<Rightarrow> odfs_err + (u8 list list \<times> nat)" where
  "path_scan absolute p comps ups =
     (if p = [] then Inr (comps, ups)
      else
        let start = takeWhile (\<lambda>c. c \<noteq> 0x2F) p;
            p' = dropWhile (\<lambda>c. c = 0x2F) (dropWhile (\<lambda>c. c \<noteq> 0x2F) p)
        in
        if start = [0x2E] then path_scan absolute p' comps ups
        else if start = [0x2E, 0x2E] then
          (if comps \<noteq> [] then path_scan absolute p' (butlast comps) ups
           else if \<not> absolute then path_scan absolute p' comps (Suc ups)
           else path_scan absolute p' comps ups)
        else if length comps \<ge> ODFS_PATH_MAX_COMPONENTS then Inl ODFS_ERR_NAME_TOO_LONG
        else path_scan absolute p' (comps @ [start]) ups)"
  by pat_completeness auto
termination
proof (relation "measure (\<lambda>(absolute, p, comps, ups). length p)", goal_cases)
  case 1
  show ?case by simp
qed (auto intro: path_scan_shrinks)

declare path_scan.simps [simp del]

text \<open>Appending to the output buffer: a byte needs room for itself and the terminator.\<close>

definition path_put :: "nat \<Rightarrow> u8 list \<Rightarrow> u8 list \<Rightarrow> odfs_err + u8 list" where
  "path_put out_size out bytes =
     (if length out + length bytes \<ge> out_size then Inl ODFS_ERR_NAME_TOO_LONG
      else Inr (out @ bytes))"

fun path_put_ups :: "nat \<Rightarrow> nat \<Rightarrow> u8 list \<Rightarrow> odfs_err + u8 list" where
  "path_put_ups out_size 0 out = Inr out"
| "path_put_ups out_size (Suc n) out =
     (case path_put out_size out [0x2F] of Inl e \<Rightarrow> Inl e | Inr out' \<Rightarrow> path_put_ups out_size n out')"

fun path_put_comps :: "nat \<Rightarrow> bool \<Rightarrow> u8 list list \<Rightarrow> u8 list \<Rightarrow> odfs_err + u8 list" where
  "path_put_comps out_size first [] out = Inr out"
| "path_put_comps out_size first (c # cs) out =
     (case (if first then Inr out else path_put out_size out [0x2F]) of
        Inl e \<Rightarrow> Inl e
      | Inr out1 \<Rightarrow>
          (case path_put out_size out1 c of
             Inl e \<Rightarrow> Inl e
           | Inr out2 \<Rightarrow> path_put_comps out_size False cs out2))"

definition odfs_posix_to_amiga_path :: "u8 list \<Rightarrow> nat \<Rightarrow> odfs_err + u8 list" where
  "odfs_posix_to_amiga_path posix out_size =
     (if out_size = 0 then Inl ODFS_ERR_INVAL
      else
        let absolute = (ch posix = 0x2F);
            p = (if absolute then dropWhile (\<lambda>c. c = 0x2F) posix else posix)
        in case path_scan absolute p [] 0 of
             Inl e \<Rightarrow> Inl e
           | Inr (comps, ups) \<Rightarrow>
               (case (if absolute then path_put out_size [] [0x3A] else Inr []) of
                  Inl e \<Rightarrow> Inl e
                | Inr out1 \<Rightarrow>
                    (case path_put_ups out_size ups out1 of
                       Inl e \<Rightarrow> Inl e
                     | Inr out2 \<Rightarrow> path_put_comps out_size True comps out2)))"

section \<open>What the conversions guarantee\<close>

text \<open>The converters stop at a character that does not fit: the output is a concatenation of
  whole encodings and leaves room for the terminator.\<close>

lemma utf8_append_fits:
  "odfs_utf8_append cp out n = Some out' \<Longrightarrow> out' = out @ utf8_bytes cp \<and> length out' < n"
  by (auto simp: odfs_utf8_append_def split: if_splits)

lemma ucs2be_loop_prefix:
  "length out < n \<Longrightarrow>
   \<exists>cps. ucs2be_loop src n out = out @ concat (map utf8_bytes cps) \<and> length (ucs2be_loop src n out) < n"
proof (induction src n out rule: ucs2be_loop.induct)
  case (1 hi lo src n out)
  define cp :: u32 where "cp = push_bit 8 (ucast hi) OR ucast lo"
  show ?case
  proof (cases "cp = 0 \<or> odfs_utf8_append cp out n = None")
    case True
    then have "ucs2be_loop (hi # lo # src) n out = out" by (auto simp: cp_def Let_def)
    with "1.prems" show ?thesis by (auto intro: exI[of _ "[]"])
  next
    case False
    then obtain out' where app: "odfs_utf8_append cp out n = Some out'" and nz: "cp \<noteq> 0" by auto
    then have fits: "out' = out @ utf8_bytes cp" "length out' < n" by (auto dest: utf8_append_fits)
    from "1.IH"[OF cp_def nz app fits(2)] obtain cps where
      "ucs2be_loop src n out' = out' @ concat (map utf8_bytes cps) \<and> length (ucs2be_loop src n out') < n" by blast
    then show ?thesis using app nz fits(1)
      by (auto simp: cp_def Let_def intro!: exI[of _ "cp # cps"])
  qed
qed (auto intro: exI[of _ "[]"])

lemma mac_roman_loop_prefix:
  "length out < n \<Longrightarrow>
   \<exists>k. mac_roman_loop src n out = out @ concat (map (\<lambda>c. utf8_bytes (mac_roman_cp c)) (take k src)) \<and>
       length (mac_roman_loop src n out) < n"
proof (induction src n out rule: mac_roman_loop.induct)
  case (1 n out)
  then show ?case by simp
next
  case (2 c src n out)
  show ?case
  proof (cases "odfs_utf8_append (mac_roman_cp c) out n")
    case None
    with "2.prems" show ?thesis by (auto intro: exI[of _ 0])
  next
    case (Some out')
    then have fits: "out' = out @ utf8_bytes (mac_roman_cp c)" "length out' < n"
      by (auto dest: utf8_append_fits)
    from "2.IH"[OF Some fits(2)] obtain k where
      "mac_roman_loop src n out' = out' @ concat (map (\<lambda>c. utf8_bytes (mac_roman_cp c)) (take k src)) \<and>
       length (mac_roman_loop src n out') < n" by blast
    then show ?thesis using Some fits(1) by (auto intro!: exI[of _ "Suc k"])
  qed
qed

lemma iso_name_to_display_Inr:
  assumes "odfs_iso_name_to_display src n lower = Inr s"
  shows "length s < n \<and> 0x3B \<notin> set s \<and> length s \<le> length src"
proof -
  let ?m = "if length src > n - 1 then n - 1 else length src"
  let ?t = "takeWhile (\<lambda>c. c \<noteq> 0x3B) (take ?m src)"
  from assms have n: "n \<noteq> 0" by (auto simp: odfs_iso_name_to_display_def split: if_splits)
  define i where "i = (if length ?t = length src \<and> length ?t > 0 \<and> src ! (length ?t - 1) = 0x2E
    then length ?t - 1 else length ?t)"
  have "s = (if lower then fold_name (take i ?t) else take i ?t)"
    using assms n unfolding odfs_iso_name_to_display_def Let_def i_def by simp
  then have s: "s = take i ?t \<or> s = fold_name (take i ?t)" by metis
  have len: "length s \<le> ?m"
    using s length_takeWhile_le[of "\<lambda>c. c \<noteq> 0x3B" "take ?m src"] by (elim disjE) (auto simp: min_def)
  have "0x3B \<notin> set ?t" by (auto dest: set_takeWhileD)
  then have "0x3B \<notin> set (take i ?t)" by (meson in_set_takeD)
  then have "0x3B \<notin> set s" using s by (auto simp: image_iff tolower_eq_semicolon)
  with len n show ?thesis by (auto split: if_splits)
qed

end
