(* ===== verification/Text_Facts.thy ===== *)
theory Text_Facts
  imports Text
begin

text \<open>
  What the text conversions compute.  The names the Joliet and UDF backends convert are decoded
  back by a reference UTF-8 decoder, and a converted symlink target is followed by a reference
  AmigaDOS resolver to the directory the POSIX path names.
\<close>

section \<open>Decoding UTF-8\<close>

text \<open>The reference decoder for the one- to three-byte forms.\<close>

fun utf8_decode :: "u8 list \<Rightarrow> u32 list" where
  "utf8_decode [] = []"
| "utf8_decode (a # r) =
     (if a < 0x80 then ucast a # utf8_decode r
      else if a < 0xE0 then
        (case r of b # r' \<Rightarrow> (push_bit 6 (ucast a AND 0x1F) OR (ucast b AND 0x3F)) # utf8_decode r'
         | _ \<Rightarrow> [])
      else
        (case r of b # c # r' \<Rightarrow>
           (push_bit 12 (ucast a AND 0x0F) OR push_bit 6 (ucast b AND 0x3F) OR (ucast c AND 0x3F)) #
           utf8_decode r'
         | _ \<Rightarrow> []))"

lemma u8_low_bits:
  "k \<le> 8 \<Longrightarrow> take_bit k (ucast (ucast (x :: u32) :: u8) :: u32) = take_bit k x"
  by (rule bit_word_eqI) (auto simp: bit_simps)

lemma and_masks: "(x :: u32) AND 0x1F = take_bit 5 x" "x AND 0x0F = take_bit 4 x" "x AND 0x3F = take_bit 6 x"
  by (simp_all add: take_bit_eq_mask mask_numeral)

lemma push_drop_take: "push_bit k (drop_bit k (cp :: u32)) OR take_bit k cp = cp"
  by (rule bit_word_eqI) (auto simp: bit_simps)

lemma take_bit_small: "(x :: u32) < 2 ^ k \<Longrightarrow> k < 32 \<Longrightarrow> take_bit k x = x"
  by (simp add: take_bit_eq_mod word_mod_less_divisor mod_word_less)

lemma drop_bit_small:
  assumes "(cp :: u32) < 2 ^ (k + m)" "k + m < 32"
  shows "take_bit m (drop_bit k cp) = drop_bit k cp"
proof -
  have "drop_bit k (take_bit (k + m) cp) = take_bit m (drop_bit k cp)"
    by (rule bit_word_eqI) (auto simp: bit_simps)
  with take_bit_small[OF assms] show ?thesis by simp
qed

lemma utf8_two:
  assumes "(cp :: u32) < 0x800"
  shows "push_bit 6 (ucast (ucast (0xC0 OR drop_bit 6 cp) :: u8) AND 0x1F) OR
         (ucast (ucast (0x80 OR (cp AND 0x3F)) :: u8) AND 0x3F) = cp"
proof -
  have "take_bit 5 (drop_bit 6 cp) = drop_bit 6 cp"
    using drop_bit_small[of cp 6 5] assms by simp
  then show ?thesis
    by (simp add: and_masks u8_low_bits take_bit_or push_drop_take)
qed

lemma utf8_three:
  assumes "(cp :: u32) < 0x10000"
  shows "push_bit 12 (ucast (ucast (0xE0 OR drop_bit 12 cp) :: u8) AND 0x0F) OR
         push_bit 6 (ucast (ucast (0x80 OR (drop_bit 6 cp AND 0x3F)) :: u8) AND 0x3F) OR
         (ucast (ucast (0x80 OR (cp AND 0x3F)) :: u8) AND 0x3F) = cp"
proof -
  have 1: "take_bit 4 (drop_bit 12 cp) = drop_bit 12 cp"
    using drop_bit_small[of cp 12 4] assms by simp
  have 2: "push_bit 6 (take_bit 6 (drop_bit 6 cp)) OR take_bit 6 cp = take_bit 12 cp"
    by (rule bit_word_eqI) (auto simp: bit_simps)
  show ?thesis
    by (simp add: and_masks u8_low_bits take_bit_or 1 2 push_drop_take)
qed

lemma ucast_or_take:
  "k \<le> 8 \<Longrightarrow> (ucast (a OR take_bit k (y :: u32)) :: u8) = ucast a OR (ucast y AND mask k)"
  by (rule bit_word_eqI) (auto simp: bit_simps)

lemma utf8_lead2:
  assumes "(cp :: u32) < 0x800"
  shows "\<not> (ucast (0xC0 OR drop_bit 6 cp) :: u8) < 0x80 \<and> (ucast (0xC0 OR drop_bit 6 cp) :: u8) < 0xE0"
proof -
  have "ucast (0xC0 OR drop_bit 6 cp) = 0xC0 OR ((ucast (drop_bit 6 cp) :: u8) AND 0x1F)"
    using drop_bit_small[of cp 6 5] ucast_or_take[of 5 "0xC0" "drop_bit 6 cp"] assms
    by (simp add: mask_numeral)
  moreover have "\<not> 0xC0 OR (z AND 0x1F) < (0x80 :: u8) \<and> 0xC0 OR (z AND 0x1F) < (0xE0 :: u8)" for z
    by (rule u8_cases_all) code_simp
  ultimately show ?thesis by simp
qed

lemma utf8_lead3:
  assumes "(cp :: u32) < 0x10000"
  shows "\<not> (ucast (0xE0 OR drop_bit 12 cp) :: u8) < 0x80 \<and> \<not> (ucast (0xE0 OR drop_bit 12 cp) :: u8) < 0xE0"
proof -
  have "ucast (0xE0 OR drop_bit 12 cp) = 0xE0 OR ((ucast (drop_bit 12 cp) :: u8) AND 0xF)"
    using drop_bit_small[of cp 12 4] ucast_or_take[of 4 "0xE0" "drop_bit 12 cp"] assms
    by (simp add: mask_numeral)
  moreover have "\<not> 0xE0 OR (z AND 0xF) < (0x80 :: u8) \<and> \<not> 0xE0 OR (z AND 0xF) < (0xE0 :: u8)" for z
    by (rule u8_cases_all) code_simp
  ultimately show ?thesis by simp
qed

lemma utf8_lead1:
  assumes "(cp :: u32) < 0x80"
  shows "(ucast cp :: u8) < 0x80 \<and> (ucast (ucast cp :: u8) :: u32) = cp"
proof -
  have "take_bit 7 cp = cp" using take_bit_small[of cp 7] assms by simp
  then have 1: "ucast cp = (ucast cp :: u8) AND 0x7F"
    using ucast_or_take[of 7 0 cp] by (simp add: mask_numeral)
  have "z AND 0x7F < (0x80 :: u8)" for z by (rule u8_cases_all) code_simp
  with 1 have "(ucast cp :: u8) < 0x80" by metis
  moreover have "ucast (ucast cp :: u8) = take_bit 8 cp"
    by (rule bit_word_eqI) (auto simp: bit_simps)
  moreover have "take_bit 8 cp = cp"
  proof (rule take_bit_small)
    show "cp < 2 ^ 8" using assms by (simp add: word_less_nat_alt)
  qed simp
  ultimately show ?thesis by simp
qed

lemma utf8_decode_bytes:
  assumes "cp < 0x10000"
  shows "utf8_decode (utf8_bytes cp @ r) = cp # utf8_decode r"
  using assms utf8_lead1[of cp] utf8_lead2[of cp] utf8_lead3[of cp] utf8_two[of cp] utf8_three[of cp]
  by (simp add: utf8_bytes_def)

lemma utf8_decode_concat:
  "\<forall>cp \<in> set cps. cp < 0x10000 \<Longrightarrow> utf8_decode (concat (map utf8_bytes cps)) = cps"
  by (induction cps) (simp_all add: utf8_decode_bytes)

text \<open>The code units of a UCS-2 big-endian string, up to a NUL.\<close>

fun ucs2_units :: "u8 list \<Rightarrow> u32 list" where
  "ucs2_units (hi # lo # src) =
     (let cp = push_bit 8 (ucast hi) OR ucast lo :: u32 in if cp = 0 then [] else cp # ucs2_units src)"
| "ucs2_units _ = []"

lemma ucs2_unit_small: "(push_bit 8 (ucast (hi :: u8)) OR ucast (lo :: u8) :: u32) < 0x10000"
proof -
  have "push_bit 8 (ucast hi) OR ucast lo = take_bit 16 (push_bit 8 (ucast hi) OR ucast lo :: u32)"
    by (rule bit_word_eqI) (auto simp: bit_simps dest: bit_imp_le_length)
  moreover have "take_bit 16 (x :: u32) < 2 ^ 16" for x
    by (simp add: take_bit_eq_mod word_mod_less_divisor)
  moreover have "(2 :: u32) ^ 16 = 0x10000" by simp
  ultimately show ?thesis by metis
qed

lemma ucs2_units_small: "cp \<in> set (ucs2_units src) \<Longrightarrow> cp < 0x10000"
  by (induction src rule: ucs2_units.induct) (auto simp: Let_def ucs2_unit_small split: if_splits)

lemma ucs2be_loop_take:
  "\<exists>k. ucs2be_loop src n out = out @ concat (map utf8_bytes (take k (ucs2_units src)))
     \<and> (length out + 3 * length (ucs2_units src) < n \<longrightarrow> k = length (ucs2_units src))"
proof (induction src n out rule: ucs2be_loop.induct)
  case (1 hi lo src n out)
  define cp :: u32 where "cp = push_bit 8 (ucast hi) OR ucast lo"
  have len: "length (utf8_bytes cp) \<le> 3"
    using ucs2_unit_small[of hi lo] by (simp add: utf8_bytes_def cp_def)
  show ?case
  proof (cases "cp = 0")
    case True
    then show ?thesis by (auto simp: cp_def)
  next
    case nz: False
    show ?thesis
    proof (cases "odfs_utf8_append cp out n")
      case None
      with len have "\<not> length out + 3 < n" by (auto simp: odfs_utf8_append_def split: if_splits)
      with None nz show ?thesis by (auto simp: cp_def Let_def intro!: exI[of _ 0])
    next
      case (Some out')
      then have out': "out' = out @ utf8_bytes cp" by (auto dest: utf8_append_fits)
      from "1.IH"[OF cp_def nz Some] obtain k where k:
        "ucs2be_loop src n out' = out' @ concat (map utf8_bytes (take k (ucs2_units src)))"
        "length out' + 3 * length (ucs2_units src) < n \<longrightarrow> k = length (ucs2_units src)" by blast
      have eq: "ucs2be_loop (hi # lo # src) n out =
          out @ concat (map utf8_bytes (take (Suc k) (ucs2_units (hi # lo # src))))"
        using nz Some out' k(1) by (simp add: cp_def Let_def)
      have "length out + 3 * length (ucs2_units (hi # lo # src)) < n \<Longrightarrow> Suc k = length (ucs2_units (hi # lo # src))"
        using nz len out' k(2) by (auto simp: cp_def Let_def)
      with eq show ?thesis by blast
    qed
  qed
qed auto

lemma utf8_decode_ucs2be_loop:
  "\<exists>k. utf8_decode (ucs2be_loop src n []) = take k (ucs2_units src)
     \<and> (3 * length (ucs2_units src) < n \<longrightarrow> k = length (ucs2_units src))"
proof -
  obtain k where k: "ucs2be_loop src n [] = concat (map utf8_bytes (take k (ucs2_units src)))"
    "3 * length (ucs2_units src) < n \<longrightarrow> k = length (ucs2_units src)"
    using ucs2be_loop_take[of src n "[]"] by auto
  have "\<forall>cp \<in> set (take k (ucs2_units src)). cp < 0x10000"
    using ucs2_units_small by (meson in_set_takeD)
  with k show ?thesis by (metis utf8_decode_concat)
qed

section \<open>What a converted path means\<close>

text \<open>The components of a POSIX path and the directory they lead to: ".." leaves a
  directory (and stays at the root), "." stays.\<close>

function posix_comps :: "u8 list \<Rightarrow> u8 list list" where
  "posix_comps p =
     (if p = [] then []
      else takeWhile (\<lambda>c. c \<noteq> 0x2F) p #
           posix_comps (dropWhile (\<lambda>c. c = 0x2F) (dropWhile (\<lambda>c. c \<noteq> 0x2F) p)))"
  by pat_completeness auto
termination
proof (relation "measure length", goal_cases)
  case 1
  show ?case by simp
qed (auto intro: path_scan_shrinks)

declare posix_comps.simps [simp del]

definition posix_step :: "u8 list list \<Rightarrow> u8 list \<Rightarrow> u8 list list" where
  "posix_step cwd c =
     (if c = [0x2E] then cwd else if c = [0x2E, 0x2E] then butlast cwd else cwd @ [c])"

text \<open>An AmigaDOS path: a leading colon is the volume root, each slash where a name could stand
  is the parent directory, a slash after a name separates it from the next.\<close>

function amiga_walk :: "u8 list list \<Rightarrow> u8 list \<Rightarrow> u8 list list" where
  "amiga_walk cwd s =
     (if s = [] then cwd
      else if hd s = 0x2F then amiga_walk (butlast cwd) (tl s)
      else let rest = dropWhile (\<lambda>c. c \<noteq> 0x2F) s
           in amiga_walk (cwd @ [takeWhile (\<lambda>c. c \<noteq> 0x2F) s]) (tl rest))"
  by pat_completeness auto
termination
proof (relation "measure (\<lambda>(cwd, s). length s)", goal_cases)
  case (3 cwd s rest)
  have "length rest \<le> length s" using 3 by (simp add: length_dropWhile_le)
  moreover have "length s > 0" using 3 by simp
  ultimately have "length (tl rest) < length s" by (cases rest) auto
  then show ?case by simp
qed auto

declare amiga_walk.simps [simp del]

definition amiga_resolve :: "u8 list list \<Rightarrow> u8 list \<Rightarrow> u8 list list" where
  "amiga_resolve cwd s = (if ch s = 0x3A then amiga_walk [] (tl s) else amiga_walk cwd s)"

definition posix_resolve :: "u8 list list \<Rightarrow> u8 list \<Rightarrow> u8 list list" where
  "posix_resolve cwd p =
     (if ch p = 0x2F then foldl posix_step [] (posix_comps (dropWhile (\<lambda>c. c = 0x2F) p))
      else foldl posix_step cwd (posix_comps p))"

lemma path_scan_walk:
  assumes "path_scan absolute p comps ups = Inr (comps', ups')" "absolute \<longrightarrow> cwd = []"
  shows "take (length cwd - ups') cwd @ comps' =
         foldl posix_step (take (length cwd - ups) cwd @ comps) (posix_comps p)"
  using assms
proof (induction absolute p comps ups rule: path_scan.induct)
  case (1 absolute p comps ups)
  show ?case
  proof (cases "p = []")
    case True
    with "1.prems" show ?thesis by (simp add: path_scan.simps[of absolute "[]"] posix_comps.simps[of "[]"])
  next
    case False
    define start where "start = takeWhile (\<lambda>c. c \<noteq> 0x2F) p"
    define p' where "p' = dropWhile (\<lambda>c. c = 0x2F) (dropWhile (\<lambda>c. c \<noteq> 0x2F) p)"
    note IH = "1.IH"[OF False start_def p'_def]
    have pc: "posix_comps p = start # posix_comps p'"
      using False by (simp add: posix_comps.simps[of p] start_def p'_def)
    have scan: "path_scan absolute p comps ups = (
        if start = [0x2E] then path_scan absolute p' comps ups
        else if start = [0x2E, 0x2E] then
          (if comps \<noteq> [] then path_scan absolute p' (butlast comps) ups
           else if \<not> absolute then path_scan absolute p' comps (Suc ups)
           else path_scan absolute p' comps ups)
        else if length comps \<ge> ODFS_PATH_MAX_COMPONENTS then Inl ODFS_ERR_NAME_TOO_LONG
        else path_scan absolute p' (comps @ [start]) ups)"
      using False by (simp add: path_scan.simps[of _ p] start_def p'_def Let_def)
    have climb: "butlast (take (length cwd - ups) cwd) = take (length cwd - Suc ups) cwd"
      by (simp add: butlast_take)
    consider (dot) "start = [0x2E]"
      | (pop) "start = [0x2E, 0x2E]" "comps \<noteq> []"
      | (up) "start = [0x2E, 0x2E]" "comps = []" "\<not> absolute"
      | (root) "start = [0x2E, 0x2E]" "comps = []" "absolute"
      | (name) "start \<noteq> [0x2E]" "start \<noteq> [0x2E, 0x2E]" by blast
    then show ?thesis
    proof cases
      case dot
      with IH(1) scan "1.prems" pc show ?thesis by (simp add: posix_step_def)
    next
      case pop
      with IH(2) scan "1.prems" pc show ?thesis by (simp add: posix_step_def butlast_append)
    next
      case up
      with IH(3) scan "1.prems" pc climb show ?thesis by (simp add: posix_step_def)
    next
      case root
      then have "cwd = []" using "1.prems"(2) by simp
      with root IH(4) scan "1.prems" pc show ?thesis by (simp add: posix_step_def)
    next
      case name
      with IH(5) scan "1.prems" pc show ?thesis by (simp add: posix_step_def split: if_splits)
    qed
  qed
qed

lemma ch_dropWhile_slash: "ch (dropWhile (\<lambda>c. c = 0x2F) p) \<noteq> 0x2F"
  by (induction p) auto

lemma path_scan_comps:
  assumes "path_scan absolute p comps ups = Inr (comps', ups')" "ch p \<noteq> 0x2F" 
    and "\<forall>c \<in> set comps. c \<noteq> [] \<and> 0x2F \<notin> set c \<and> x \<notin> set c" "x \<notin> set p"
  shows "(\<forall>c \<in> set comps'. c \<noteq> [] \<and> 0x2F \<notin> set c \<and> x \<notin> set c) \<and> (absolute \<longrightarrow> ups' = ups)"
  using assms
proof (induction absolute p comps ups rule: path_scan.induct)
  case (1 absolute p comps ups)
  show ?case
  proof (cases "p = []")
    case True
    with "1.prems" show ?thesis by (simp add: path_scan.simps[of absolute "[]"])
  next
    case False
    define start where "start = takeWhile (\<lambda>c. c \<noteq> 0x2F) p"
    define p' where "p' = dropWhile (\<lambda>c. c = 0x2F) (dropWhile (\<lambda>c. c \<noteq> 0x2F) p)"
    have start: "start \<noteq> []" "0x2F \<notin> set start" "x \<notin> set start"
      using "1.prems"(2,4) False unfolding start_def
      by (cases p; auto dest: set_takeWhileD)+
    have p': "ch p' \<noteq> 0x2F" by (simp add: p'_def ch_dropWhile_slash)
    have "set p' \<subseteq> set p" by (auto simp: p'_def dest!: set_dropWhileD)
    with "1.prems"(4) have xp': "x \<notin> set p'" by blast
    note IH = "1.IH"[OF False start_def p'_def]
    have scan: "path_scan absolute p comps ups = (
        if start = [0x2E] then path_scan absolute p' comps ups
        else if start = [0x2E, 0x2E] then
          (if comps \<noteq> [] then path_scan absolute p' (butlast comps) ups
           else if \<not> absolute then path_scan absolute p' comps (Suc ups)
           else path_scan absolute p' comps ups)
        else if length comps \<ge> ODFS_PATH_MAX_COMPONENTS then Inl ODFS_ERR_NAME_TOO_LONG
        else path_scan absolute p' (comps @ [start]) ups)"
      using False by (simp add: path_scan.simps[of _ p] start_def p'_def Let_def)
    have "\<forall>c \<in> set (butlast comps). c \<noteq> [] \<and> 0x2F \<notin> set c \<and> x \<notin> set c"
      using "1.prems"(3) by (meson in_set_butlastD)
    with IH p' xp' start "1.prems" scan show ?thesis by (auto split: if_splits)
  qed
qed

lemma path_put_Inr: "path_put n out bs = Inr out' \<longleftrightarrow> length out + length bs < n \<and> out' = out @ bs"
  by (auto simp: path_put_def)

lemma path_put_ups_Inr: "path_put_ups n k out = Inr out' \<Longrightarrow> out' = out @ replicate k 0x2F"
proof (induction k arbitrary: out)
  case (Suc k)
  then obtain out1 where "path_put n out [0x2F] = Inr out1" "path_put_ups n k out1 = Inr out'"
    by (auto split: sum.splits)
  with Suc.IH[of out1] show ?case by (simp add: path_put_Inr)
qed simp

lemma path_put_comps_Inr:
  "path_put_comps n first cs out = Inr out' \<Longrightarrow>
   out' = out @ (if first then tl (concat (map ((#) 0x2F) cs)) else concat (map ((#) 0x2F) cs))"
proof (induction cs arbitrary: first out)
  case (Cons c cs)
  then obtain out1 out2 where 1: "(if first then Inr out else path_put n out [0x2F]) = Inr out1"
    and 2: "path_put n out1 c = Inr out2" and 3: "path_put_comps n False cs out2 = Inr out'"
    by (auto split: sum.splits)
  from 1 have "out1 = (if first then out else out @ [0x2F])" by (auto simp: path_put_Inr split: if_splits)
  with 2 Cons.IH[OF 3] show ?case by (auto simp: path_put_Inr)
qed simp

lemma path_put_ups_fits: "path_put_ups n k out = Inr out' \<Longrightarrow> length out < n \<Longrightarrow> length out' < n"
proof (induction k arbitrary: out)
  case (Suc k)
  then obtain out1 where "path_put n out [0x2F] = Inr out1" "path_put_ups n k out1 = Inr out'"
    by (auto split: sum.splits)
  with Suc.IH[of out1] show ?case by (simp add: path_put_Inr)
qed simp

lemma path_put_comps_fits:
  "path_put_comps n first cs out = Inr out' \<Longrightarrow> length out < n \<Longrightarrow> length out' < n"
proof (induction cs arbitrary: first out)
  case (Cons c cs)
  then obtain out1 out2 where "path_put n out1 c = Inr out2" "path_put_comps n False cs out2 = Inr out'"
    by (auto split: sum.splits)
  with Cons.IH[of False out2] show ?case by (simp add: path_put_Inr)
qed simp

lemma amiga_walk_ups: "amiga_walk cwd (replicate k 0x2F @ s) = amiga_walk (take (length cwd - k) cwd) s"
proof (induction k arbitrary: cwd)
  case 0
  then show ?case by simp
next
  case (Suc k)
  have "amiga_walk cwd (replicate (Suc k) 0x2F @ s) = amiga_walk (butlast cwd) (replicate k 0x2F @ s)"
    by (simp add: amiga_walk.simps[of cwd])
  then show ?case using Suc[of "butlast cwd"] by (simp add: take_butlast butlast_conv_take min_def)
qed

lemma amiga_walk_names:
  "\<forall>c \<in> set cs. c \<noteq> [] \<and> 0x2F \<notin> set c \<Longrightarrow> amiga_walk cwd (tl (concat (map ((#) 0x2F) cs))) = cwd @ cs"
proof (induction cs arbitrary: cwd)
  case Nil
  then show ?case by (simp add: amiga_walk.simps[of cwd])
next
  case (Cons c cs)
  let ?r = "concat (map ((#) 0x2F) cs)"
  have c: "c \<noteq> []" "0x2F \<notin> set c" using Cons.prems by auto
  have r: "?r = [] \<or> hd ?r = 0x2F" by (cases cs) auto
  have tw: "takeWhile (\<lambda>b. b \<noteq> 0x2F) (c @ ?r) = c" and dw: "dropWhile (\<lambda>b. b \<noteq> 0x2F) (c @ ?r) = ?r"
    using c(2) r by (cases ?r; auto simp: takeWhile_append dropWhile_append)+
  have "amiga_walk cwd (c @ ?r) = amiga_walk (cwd @ [c]) (tl ?r)"
    using c tw dw by (cases c) (auto simp: amiga_walk.simps[of cwd] Let_def)
  then show ?case using Cons by simp
qed

lemma posix_to_amiga_resolve:
  assumes conv: "odfs_posix_to_amiga_path p n = Inr s" and colon: "0x3A \<notin> set p"
  shows "amiga_resolve cwd s = posix_resolve cwd p \<and> length s < n"
proof -
  define absolute where "absolute = (ch p = 0x2F)"
  define q where "q = (if absolute then dropWhile (\<lambda>c. c = 0x2F) p else p)"
  define base where "base = (if absolute then [] else cwd)"
  from conv obtain comps ups out1 out2 where
    scan: "path_scan absolute q [] 0 = Inr (comps, ups)" and
    o1: "(if absolute then path_put n [] [0x3A] else Inr []) = Inr out1" and
    o2: "path_put_ups n ups out1 = Inr out2" and o3: "path_put_comps n True comps out2 = Inr s"
    and n: "n \<noteq> 0"
    by (auto simp: odfs_posix_to_amiga_path_def Let_def absolute_def q_def split: sum.splits if_splits)
  have q: "ch q \<noteq> 0x2F" "0x3A \<notin> set q"
    using colon by (auto simp: q_def absolute_def ch_dropWhile_slash dest: set_dropWhileD)
  from path_scan_comps[OF scan q(1) _ q(2)] have comps:
    "\<forall>c \<in> set comps. c \<noteq> [] \<and> 0x2F \<notin> set c \<and> 0x3A \<notin> set c" and ups: "absolute \<longrightarrow> ups = 0" by auto
  let ?names = "tl (concat (map ((#) 0x2F) comps))"
  have s: "s = (if absolute then [0x3A] else []) @ replicate ups 0x2F @ ?names"
    using path_put_comps_Inr[OF o3] path_put_ups_Inr[OF o2] o1 by (auto simp: path_put_Inr split: if_splits)
  have "amiga_resolve cwd s = amiga_walk base (replicate ups 0x2F @ ?names)"
  proof (cases absolute)
    case False
    have "?names \<noteq> [] \<Longrightarrow> hd ?names \<noteq> 0x3A"
      using comps by (cases comps; auto) (metis hd_append2 hd_in_set)
    then have "ch s \<noteq> 0x3A" using s False by (cases ups; cases ?names) auto
    with s False show ?thesis by (simp add: amiga_resolve_def base_def)
  qed (simp add: s amiga_resolve_def base_def)
  also have "\<dots> = take (length base - ups) base @ comps"
    using comps by (simp add: amiga_walk_ups amiga_walk_names)
  also have "\<dots> = posix_resolve cwd p"
    using path_scan_walk[OF scan, of base] by (simp add: base_def posix_resolve_def absolute_def q_def)
  finally show ?thesis using path_put_comps_fits[OF o3] path_put_ups_fits[OF o2] o1 n
    by (auto simp: path_put_Inr split: if_splits)
qed

section \<open>Properties\<close>

text \<open>
  C26: \<open>odfs_strcasecmp\<close> calls two NUL-free names equal exactly when they agree after folding the
  ASCII letters, and names it calls equal have the same \<open>odfs_strcasehash\<close>, so a hash mismatch
  proves that two names differ.
\<close>

theorem strcasecmp_and_hash:
  assumes "0 \<notin> set a" "0 \<notin> set b"
  shows "(odfs_strcasecmp a b = 0 \<longleftrightarrow> map odfs_ascii_tolower a = map odfs_ascii_tolower b) \<and>
         (odfs_strcasecmp a b = 0 \<longrightarrow> odfs_strcasehash a = odfs_strcasehash b)"
  using assms strcasecmp_0_iff strcasehash_cong by blast

theorem strcasecmp_and_hash_witness:
  "odfs_strcasecmp (str_bytes ''ReadMe'') (str_bytes ''README'') = 0 \<and>
   odfs_strcasehash (str_bytes ''ReadMe'') = odfs_strcasehash (str_bytes ''README'')"
proof -
  have nz: "0 \<notin> set (str_bytes ''ReadMe'')" "0 \<notin> set (str_bytes ''README'')" by code_simp+
  have "map odfs_ascii_tolower (str_bytes ''ReadMe'') = map odfs_ascii_tolower (str_bytes ''README'')"
    by code_simp
  with strcasecmp_and_hash[OF nz] show ?thesis by blast
qed



text \<open>
  C28: a converted symlink target names the directory or file the POSIX target names.  From every
  directory \<open>cwd\<close>, following the AmigaDOS path that \<open>odfs_posix_to_amiga_path\<close> produces leads to
  where following the POSIX path leads (".." of the root being the root), and the result fits
  its buffer.  The path must not hold a colon, which AmigaDOS would take for a volume name and
  which the conversion does not escape.
\<close>

theorem posix_to_amiga_path_correct:
  assumes "odfs_posix_to_amiga_path posix out_size = Inr out" "0x3A \<notin> set posix"
  shows "amiga_resolve cwd out = posix_resolve cwd posix \<and> length out < out_size"
  using assms by (rule posix_to_amiga_resolve)

theorem posix_to_amiga_path_correct_witness:
  "odfs_posix_to_amiga_path (str_bytes ''../x/./y/../z'') 64 = Inr (str_bytes ''/x/z'') \<and>
   amiga_resolve [str_bytes ''a'', str_bytes ''b''] (str_bytes ''/x/z'') =
   posix_resolve [str_bytes ''a'', str_bytes ''b''] (str_bytes ''../x/./y/../z'')"
proof -
  have h: "odfs_posix_to_amiga_path (str_bytes ''../x/./y/../z'') 64 = Inr (str_bytes ''/x/z'')"
    by code_simp
  have c: "0x3A \<notin> set (str_bytes ''../x/./y/../z'')" by code_simp
  from posix_to_amiga_path_correct[OF h c] h show ?thesis by blast
qed

end
