(* ===== verification/Node.thy ===== *)
theory Node
  imports Text
begin

text \<open>
  The node model of \<^verbatim>\<open>include/odfs/node.h\<close> and \<^verbatim>\<open>core/node.c\<close>, and the Mac time
  conversion of \<^verbatim>\<open>core/timestamp.c\<close>.  Every backend produces \<open>odfs_node\<close> values; the core
  identifies objects by \<open>odfs_node_matches_identity\<close>.

  The configuration is the host build of the full profile: \<open>ODFS_NAME_MAX\<close> is 512.
  A name is the C string in the node's buffer: its bytes before the terminator.
\<close>

section \<open>Backend types and node kinds\<close>

datatype odfs_backend_type =
    ODFS_BACKEND_NONE | ODFS_BACKEND_ISO9660 | ODFS_BACKEND_ROCK_RIDGE | ODFS_BACKEND_JOLIET
  | ODFS_BACKEND_UDF | ODFS_BACKEND_HFS | ODFS_BACKEND_HFSPLUS | ODFS_BACKEND_CDDA
  | ODFS_BACKEND__COUNT

text \<open>The C enum is ordered by its values, which the code compares and iterates over.\<close>

fun backend_val :: "odfs_backend_type \<Rightarrow> nat" where
  "backend_val ODFS_BACKEND_NONE = 0"
| "backend_val ODFS_BACKEND_ISO9660 = 1"
| "backend_val ODFS_BACKEND_ROCK_RIDGE = 2"
| "backend_val ODFS_BACKEND_JOLIET = 3"
| "backend_val ODFS_BACKEND_UDF = 4"
| "backend_val ODFS_BACKEND_HFS = 5"
| "backend_val ODFS_BACKEND_HFSPLUS = 6"
| "backend_val ODFS_BACKEND_CDDA = 7"
| "backend_val ODFS_BACKEND__COUNT = 8"

lemma backend_val_inject [simp]: "backend_val a = backend_val b \<longleftrightarrow> a = b"
  by (cases a; cases b) auto

instantiation odfs_backend_type :: linorder
begin

definition less_eq_odfs_backend_type :: "odfs_backend_type \<Rightarrow> odfs_backend_type \<Rightarrow> bool" where
  "less_eq_odfs_backend_type a b \<longleftrightarrow> backend_val a \<le> backend_val b"

definition less_odfs_backend_type :: "odfs_backend_type \<Rightarrow> odfs_backend_type \<Rightarrow> bool" where
  "less_odfs_backend_type a b \<longleftrightarrow> backend_val a < backend_val b"

instance
  by standard (auto simp: less_eq_odfs_backend_type_def less_odfs_backend_type_def)

end

text \<open>The values from \<open>ODFS_BACKEND_NONE + 1\<close> up to \<open>ODFS_BACKEND__COUNT\<close>, in the order of the
  loops over them.\<close>

definition backend_types :: "odfs_backend_type list" where
  "backend_types = [ODFS_BACKEND_ISO9660, ODFS_BACKEND_ROCK_RIDGE, ODFS_BACKEND_JOLIET,
     ODFS_BACKEND_UDF, ODFS_BACKEND_HFS, ODFS_BACKEND_HFSPLUS, ODFS_BACKEND_CDDA]"

lemma set_backend_types:
  "set backend_types = {t. ODFS_BACKEND_NONE < t \<and> t < ODFS_BACKEND__COUNT}"
proof (rule set_eqI)
  fix t
  show "t \<in> set backend_types \<longleftrightarrow> t \<in> {t. ODFS_BACKEND_NONE < t \<and> t < ODFS_BACKEND__COUNT}"
    by (cases t) (simp_all add: backend_types_def less_odfs_backend_type_def)
qed

lemma distinct_backend_types [simp]: "distinct backend_types"
  by (simp add: backend_types_def)

fun odfs_backend_type_name :: "odfs_backend_type \<Rightarrow> string" where
  "odfs_backend_type_name ODFS_BACKEND_NONE = ''none''"
| "odfs_backend_type_name ODFS_BACKEND_ISO9660 = ''iso9660''"
| "odfs_backend_type_name ODFS_BACKEND_ROCK_RIDGE = ''rock_ridge''"
| "odfs_backend_type_name ODFS_BACKEND_JOLIET = ''joliet''"
| "odfs_backend_type_name ODFS_BACKEND_UDF = ''udf''"
| "odfs_backend_type_name ODFS_BACKEND_HFS = ''hfs''"
| "odfs_backend_type_name ODFS_BACKEND_HFSPLUS = ''hfsplus''"
| "odfs_backend_type_name ODFS_BACKEND_CDDA = ''cdda''"
| "odfs_backend_type_name ODFS_BACKEND__COUNT = ''unknown''"

datatype odfs_node_kind =
  ODFS_NODE_FILE | ODFS_NODE_DIR | ODFS_NODE_SYMLINK | ODFS_NODE_VIRTUAL

fun odfs_node_kind_name :: "odfs_node_kind \<Rightarrow> string" where
  "odfs_node_kind_name ODFS_NODE_FILE = ''file''"
| "odfs_node_kind_name ODFS_NODE_DIR = ''dir''"
| "odfs_node_kind_name ODFS_NODE_SYMLINK = ''symlink''"
| "odfs_node_kind_name ODFS_NODE_VIRTUAL = ''virtual''"

section \<open>Nodes\<close>

definition ODFS_NAME_MAX :: nat where "ODFS_NAME_MAX = 512"
definition ODFS_AMIGA_COMMENT_MAX :: nat where "ODFS_AMIGA_COMMENT_MAX = 80"

record odfs_timestamp =
  year :: int
  month :: u8
  day :: u8
  hour :: u8
  minute :: u8
  second :: u8
  tz_offset :: int

record odfs_extent =
  lba :: u32
  extlen :: u32

record odfs_amiga_as =
  has_protection :: bool
  protection :: "u8 list"
  has_comment :: bool
  comment :: "u8 list"

record odfs_node =
  node_id :: u32
  parent_id :: u32
  backend :: odfs_backend_type
  kind :: odfs_node_kind
  name :: "u8 list"
  size :: u64
  mtime :: odfs_timestamp
  ctime :: odfs_timestamp
  mode :: u32
  amiga_as :: odfs_amiga_as
  extent :: odfs_extent

text \<open>A node cleared by \<open>memset\<close>.  The opaque \<open>backend_data\<close> pointer, which no backend
  sets, is not modelled.\<close>

definition zero_timestamp :: odfs_timestamp where
  "zero_timestamp = \<lparr>year = 0, month = 0, day = 0, hour = 0, minute = 0, second = 0, tz_offset = 0\<rparr>"

definition zero_node :: odfs_node where
  "zero_node =
     \<lparr>node_id = 0, parent_id = 0, backend = ODFS_BACKEND_NONE, kind = ODFS_NODE_FILE, name = [],
      size = 0, mtime = zero_timestamp, ctime = zero_timestamp, mode = 0,
      amiga_as = \<lparr>has_protection = False, protection = [0, 0, 0, 0], has_comment = False, comment = []\<rparr>,
      extent = \<lparr>lba = 0, extlen = 0\<rparr>\<rparr>"

definition odfs_node_matches_identity :: "odfs_node \<Rightarrow> odfs_node \<Rightarrow> bool" where
  "odfs_node_matches_identity a b \<longleftrightarrow>
     backend a = backend b \<and> kind a = kind b \<and> size a = size b \<and>
     lba (extent a) = lba (extent b) \<and> extlen (extent a) = extlen (extent b) \<and>
     name a = name b"

lemma matches_identity_refl [simp]: "odfs_node_matches_identity a a"
  by (simp add: odfs_node_matches_identity_def)

lemma matches_identity_sym: "odfs_node_matches_identity a b \<Longrightarrow> odfs_node_matches_identity b a"
  by (simp add: odfs_node_matches_identity_def)

section \<open>Mac time\<close>

definition ODFS_MAC_EPOCH :: nat where "ODFS_MAC_EPOCH = 2082844800"

definition is_leap :: "nat \<Rightarrow> bool" where
  "is_leap y \<longleftrightarrow> y mod 4 = 0 \<and> (y mod 100 \<noteq> 0 \<or> y mod 400 = 0)"

definition year_days :: "nat \<Rightarrow> nat" where
  "year_days y = 365 + (if is_leap y then 1 else 0)"

definition month_days :: "nat \<Rightarrow> nat \<Rightarrow> nat" where
  "month_days y m =
     [31, 28, 31, 30, 31, 30, 31, 31, 30, 31, 30, 31] ! m + (if m = 1 \<and> is_leap y then 1 else 0)"

text \<open>The year loop and the month loop; each returns its counter and the days left.\<close>

function mac_year_loop :: "nat \<Rightarrow> nat \<Rightarrow> nat \<times> nat" where
  "mac_year_loop y days =
     (if days < year_days y then (y, days) else mac_year_loop (Suc y) (days - year_days y))"
  by pat_completeness auto
termination
  by (relation "measure snd") (auto simp: year_days_def)

declare mac_year_loop.simps [simp del]

function mac_month_loop :: "nat \<Rightarrow> nat \<Rightarrow> nat \<Rightarrow> nat \<times> nat" where
  "mac_month_loop y m days =
     (if m < 12 \<and> \<not> days < month_days y m then mac_month_loop y (Suc m) (days - month_days y m)
      else (m, days))"
  by pat_completeness auto
termination
  by (relation "measure (\<lambda>(y, m, days). 12 - m)") auto

declare mac_month_loop.simps [simp del]

definition odfs_timestamp_from_mac_time :: "u32 \<Rightarrow> odfs_timestamp" where
  "odfs_timestamp_from_mac_time mac_secs =
     (if unat mac_secs < ODFS_MAC_EPOCH then zero_timestamp
      else
        let unix_secs = unat mac_secs - ODFS_MAC_EPOCH;
            days = unix_secs div 86400;
            rem = unix_secs mod 86400;
            (y, ydays) = mac_year_loop 1970 days;
            (m, mdays) = mac_month_loop y 0 ydays
        in \<lparr>year = int y, month = of_nat (m + 1), day = of_nat (mdays + 1),
            hour = of_nat (rem div 3600), minute = of_nat (rem mod 3600 div 60),
            second = of_nat (rem mod 60), tz_offset = 0\<rparr>)"

text \<open>The days before a year since 1970, and before a month of a year.\<close>

definition days_before_year :: "nat \<Rightarrow> nat" where
  "days_before_year y = (\<Sum>k = 1970..<y. year_days k)"

definition days_before_month :: "nat \<Rightarrow> nat \<Rightarrow> nat" where
  "days_before_month y m = (\<Sum>k = 0..<m. month_days y k)"

lemma mac_year_loop_correct:
  assumes "mac_year_loop y days = (y', d')"
  shows "y \<le> y' \<and> d' < year_days y' \<and> (\<Sum>k = y..<y'. year_days k) + d' = days"
  using assms
proof (induction y days rule: mac_year_loop.induct)
  case (1 y days)
  show ?case
  proof (cases "days < year_days y")
    case True
    with "1.prems" show ?thesis by (simp add: mac_year_loop.simps[of y])
  next
    case False
    with "1.prems" have "mac_year_loop (Suc y) (days - year_days y) = (y', d')"
      by (simp add: mac_year_loop.simps[of y])
    with "1.IH"[OF False] False show ?thesis
      by (auto simp: sum.atLeast_Suc_lessThan)
  qed
qed

lemma mac_month_loop_correct:
  assumes "mac_month_loop y m days = (m', d')" "m \<le> 12"
  shows "m \<le> m' \<and> m' \<le> 12 \<and> (m' < 12 \<longrightarrow> d' < month_days y m') \<and>
         (\<Sum>k = m..<m'. month_days y k) + d' = days"
  using assms
proof (induction y m days rule: mac_month_loop.induct)
  case (1 y m days)
  show ?case
  proof (cases "m < 12 \<and> \<not> days < month_days y m")
    case True
    with "1.prems" have "mac_month_loop y (Suc m) (days - month_days y m) = (m', d')"
      by (simp add: mac_month_loop.simps[of y m])
    with "1.IH"[OF True] True show ?thesis
      by (auto simp: sum.atLeast_Suc_lessThan)
  next
    case False
    with "1.prems" show ?thesis by (auto simp: mac_month_loop.simps[of y m])
  qed
qed

lemma days_before_month_12: "days_before_month y 12 = year_days y"
  by (simp add: days_before_month_def month_days_def year_days_def numeral_eq_Suc)

lemma month_days_le_31: "m < 12 \<Longrightarrow> month_days y m \<le> 31"
  by (auto simp: month_days_def numeral_eq_Suc less_Suc_eq)

lemma mac_month_loop_in_year:
  assumes "mac_month_loop y 0 days = (m, d)" "days < year_days y"
  shows "m < 12"
proof (rule ccontr)
  assume "\<not> m < 12"
  with mac_month_loop_correct[OF assms(1)] have "m = 12" "(\<Sum>k = 0..<12. month_days y k) + d = days" by auto
  with days_before_month_12[of y] assms(2) show False by (simp add: days_before_month_def)
qed



end
