(* ===== verification/Namefix.thy ===== *)
theory Namefix
  imports Node
begin

text \<open>
  Collision handling for directory names, \<^verbatim>\<open>core/namefix.c\<close>.  A readdir passes every name
  through \<open>odfs_namefix_apply\<close>, which remembers it and renames a duplicate by a "~2", "~3", ...
  suffix.  The state is a hash table of the names given out, with the arena its records are cut
  from (pointers are 8 bytes, the record header 12, as on a 64-bit host).

  The lemmas show that the table answers membership up to case exactly, that the names given out
  over a directory are pairwise distinct up to case, that they fit their buffer, and that a
  suffix is always found below 999998 names.
\<close>

section \<open>State\<close>

definition ODFS_NAMEFIX_BUCKETS :: nat where "ODFS_NAMEFIX_BUCKETS = 64"
definition ODFS_NAMEFIX_INLINE :: nat where "ODFS_NAMEFIX_INLINE = 256"
definition ODFS_NAMEFIX_CHUNK_SIZE :: nat where "ODFS_NAMEFIX_CHUNK_SIZE = 4096"

record odfs_namefix_entry =
  nf_hash :: u32
  nf_name :: "u8 list"

text \<open>A bucket is its chain from \<open>buckets[i]\<close> along \<open>hash_next\<close>; \<open>chunks\<close> lists the sizes of
  the chunks allocated, newest first; \<open>avail\<close> is the room left in the current one.\<close>

record odfs_namefix_state =
  buckets :: "odfs_namefix_entry list list"
  chunks :: "nat list"
  avail :: nat

definition odfs_namefix_init :: odfs_namefix_state where
  "odfs_namefix_init =
     \<lparr>buckets = replicate ODFS_NAMEFIX_BUCKETS [], chunks = [], avail = ODFS_NAMEFIX_INLINE\<rparr>"

text \<open>Freeing the chunks leaves the initial state.\<close>

definition odfs_namefix_destroy :: "odfs_namefix_state \<Rightarrow> odfs_namefix_state" where
  "odfs_namefix_destroy state = odfs_namefix_init"

definition odfs_namefix_alloc :: "odfs_namefix_state \<Rightarrow> heap \<Rightarrow> nat \<Rightarrow> odfs_namefix_state option \<times> heap" where
  "odfs_namefix_alloc state h sz =
     (let size' = (sz + 7) div 8 * 8 in
      if size' > avail state then
        let chunk_size = (if size' > ODFS_NAMEFIX_CHUNK_SIZE then size' else ODFS_NAMEFIX_CHUNK_SIZE);
            (ok, h') = odfs_malloc h
        in if \<not> ok then (None, h')
           else (Some (state\<lparr>chunks := chunk_size # chunks state, avail := chunk_size - size'\<rparr>), h')
      else (Some (state\<lparr>avail := avail state - size'\<rparr>), h))"

definition odfs_namefix_hash :: "u8 list \<Rightarrow> u32 \<times> nat" where
  "odfs_namefix_hash nm = (hash_final (foldl hash_step 0 (cstr nm)), length (cstr nm))"

definition odfs_namefix_contains :: "odfs_namefix_state \<Rightarrow> u8 list \<Rightarrow> u32 \<Rightarrow> bool" where
  "odfs_namefix_contains state nm hash \<longleftrightarrow>
     list_ex (\<lambda>entry. nf_hash entry = hash \<and> odfs_strcasecmp (nf_name entry) nm = 0)
       (buckets state ! (unat hash mod ODFS_NAMEFIX_BUCKETS))"

definition odfs_namefix_remember ::
    "odfs_namefix_state \<Rightarrow> heap \<Rightarrow> u8 list \<Rightarrow> nat \<Rightarrow> u32 \<Rightarrow> odfs_err \<times> odfs_namefix_state \<times> heap" where
  "odfs_namefix_remember state h nm len hash =
     (let bucket = unat hash mod ODFS_NAMEFIX_BUCKETS in
      case odfs_namefix_alloc state h (12 + len + 1) of
        (None, h') \<Rightarrow> (ODFS_ERR_NOMEM, state, h')
      | (Some state', h') \<Rightarrow>
          (ODFS_OK,
           state'\<lparr>buckets := (buckets state')
             [bucket := \<lparr>nf_hash = hash, nf_name = take len nm\<rparr> # buckets state' ! bucket]\<rparr>, h'))"

text \<open>The digits of the ordinal, least significant first; \<open>nd\<close> counts those already stored in
  the ten-byte \<open>digits\<close> buffer.\<close>

function namefix_digits :: "nat \<Rightarrow> nat \<Rightarrow> u8 list" where
  "namefix_digits v nd =
     of_nat (0x30 + v mod 10) #
     (if v div 10 \<noteq> 0 \<and> Suc nd < 10 then namefix_digits (v div 10) (Suc nd) else [])"
  by pat_completeness auto
termination by (relation "measure (\<lambda>(v, nd). 10 - nd)") auto

declare namefix_digits.simps [simp del]

definition namefix_suffix :: "nat \<Rightarrow> u8 list" where
  "namefix_suffix ordinal = 0x7E # rev (namefix_digits ordinal 0)"

text \<open>The name tried for an ordinal: the base cut to leave room for suffix and terminator.\<close>

definition namefix_candidate :: "u8 list \<Rightarrow> nat \<Rightarrow> nat \<Rightarrow> u8 list" where
  "namefix_candidate base name_size ordinal =
     (let suffix = namefix_suffix ordinal;
          keep = (if length base + length suffix \<ge> name_size then name_size - length suffix - 1
                  else length base)
      in take keep base @ suffix)"

function namefix_try ::
    "odfs_namefix_state \<Rightarrow> heap \<Rightarrow> u8 list \<Rightarrow> nat \<Rightarrow> u8 list \<Rightarrow> nat \<Rightarrow>
     odfs_err \<times> u8 list \<times> odfs_namefix_state \<times> heap" where
  "namefix_try state h base name_size nm ordinal =
     (if \<not> ordinal < 1000000 then (ODFS_ERR_OVERFLOW, nm, state, h)
      else if length (namefix_suffix ordinal) \<ge> name_size then (ODFS_ERR_NAME_TOO_LONG, nm, state, h)
      else
        let nm' = namefix_candidate base name_size ordinal;
            (hash, len) = odfs_namefix_hash nm'
        in if \<not> odfs_namefix_contains state nm' hash then
             (case odfs_namefix_remember state h nm' len hash of (err, state', h') \<Rightarrow> (err, nm', state', h'))
           else namefix_try state h base name_size nm' (Suc ordinal))"
  by pat_completeness auto
termination by (relation "measure (\<lambda>(state, h, base, name_size, nm, ordinal). 1000000 - ordinal)") auto

declare namefix_try.simps [simp del]

text \<open>
  The result holds the name buffer after the call.  \<open>base\<close> has \<open>ODFS_NAME_MAX\<close> bytes, so a
  larger \<open>name_size\<close> would overrun it (\<open>None\<close>) when a duplicate is found.
\<close>

definition odfs_namefix_apply ::
    "odfs_namefix_state \<Rightarrow> heap \<Rightarrow> u8 list \<Rightarrow> nat \<Rightarrow>
     (odfs_err \<times> u8 list \<times> odfs_namefix_state \<times> heap) option" where
  "odfs_namefix_apply state h nm name_size =
     (if name_size = 0 then Some (ODFS_ERR_INVAL, nm, state, h)
      else
        let (hash, len) = odfs_namefix_hash nm in
        if \<not> odfs_namefix_contains state nm hash then
          (case odfs_namefix_remember state h nm len hash of (err, state', h') \<Rightarrow> Some (err, nm, state', h'))
        else if name_size > ODFS_NAME_MAX then None
        else Some (namefix_try state h (take (name_size - 1) nm) name_size nm 2))"

section \<open>The table holds the names given out\<close>

definition namefix_names :: "odfs_namefix_state \<Rightarrow> u8 list set" where
  "namefix_names state = nf_name ` \<Union> (set ` set (buckets state))"

definition namefix_entry_ok :: "nat \<Rightarrow> odfs_namefix_entry \<Rightarrow> bool" where
  "namefix_entry_ok b e \<longleftrightarrow>
     0 \<notin> set (nf_name e) \<and> nf_hash e = odfs_strcasehash (nf_name e) \<and>
     unat (nf_hash e) mod ODFS_NAMEFIX_BUCKETS = b"

definition namefix_wf :: "odfs_namefix_state \<Rightarrow> bool" where
  "namefix_wf state \<longleftrightarrow>
     length (buckets state) = ODFS_NAMEFIX_BUCKETS \<and>
     (\<forall>b < ODFS_NAMEFIX_BUCKETS. \<forall>e \<in> set (buckets state ! b). namefix_entry_ok b e)"

lemma namefix_wfD:
  "namefix_wf state \<Longrightarrow> b < ODFS_NAMEFIX_BUCKETS \<Longrightarrow> e \<in> set (buckets state ! b) \<Longrightarrow> namefix_entry_ok b e"
  by (simp add: namefix_wf_def)

lemma namefix_hash_eq: "0 \<notin> set nm \<Longrightarrow> odfs_namefix_hash nm = (odfs_strcasehash nm, length nm)"
  by (simp add: odfs_namefix_hash_def odfs_strcasehash_def cstr_id)

lemma namefix_init_wf: "namefix_wf odfs_namefix_init"
  by (simp add: namefix_wf_def odfs_namefix_init_def)

lemma namefix_init_names: "namefix_names odfs_namefix_init = {}"
  by (auto simp: namefix_names_def odfs_namefix_init_def)

lemma namefix_names_conv:
  "namefix_wf state \<Longrightarrow>
   n \<in> namefix_names state \<longleftrightarrow> (\<exists>b < ODFS_NAMEFIX_BUCKETS. \<exists>e \<in> set (buckets state ! b). nf_name e = n)"
  by (fastforce simp: namefix_wf_def namefix_names_def set_conv_nth[of "buckets state"])

lemma namefix_names_nul: "namefix_wf state \<Longrightarrow> n \<in> namefix_names state \<Longrightarrow> 0 \<notin> set n"
  by (auto simp: namefix_names_conv namefix_entry_ok_def dest: namefix_wfD)

lemma namefix_contains_iff:
  assumes wf: "namefix_wf state" and nm: "0 \<notin> set nm"
  shows "odfs_namefix_contains state nm (odfs_strcasehash nm) \<longleftrightarrow>
         fold_name nm \<in> fold_name ` namefix_names state"
proof
  assume "odfs_namefix_contains state nm (odfs_strcasehash nm)"
  then obtain e where e: "e \<in> set (buckets state ! (unat (odfs_strcasehash nm) mod ODFS_NAMEFIX_BUCKETS))"
    "odfs_strcasecmp (nf_name e) nm = 0" by (auto simp: odfs_namefix_contains_def list_ex_iff)
  let ?b = "unat (odfs_strcasehash nm) mod ODFS_NAMEFIX_BUCKETS"
  have b: "?b < ODFS_NAMEFIX_BUCKETS" by (simp add: ODFS_NAMEFIX_BUCKETS_def)
  from namefix_wfD[OF wf b e(1)] have "0 \<notin> set (nf_name e)" by (simp add: namefix_entry_ok_def)
  with e nm have "fold_name (nf_name e) = fold_name nm" by (simp add: strcasecmp_0_iff)
  moreover have "nf_name e \<in> namefix_names state" using e(1) b wf by (auto simp: namefix_names_conv)
  ultimately show "fold_name nm \<in> fold_name ` namefix_names state" by (metis imageI)
next
  assume "fold_name nm \<in> fold_name ` namefix_names state"
  then obtain e b where e: "b < ODFS_NAMEFIX_BUCKETS" "e \<in> set (buckets state ! b)"
    "fold_name (nf_name e) = fold_name nm" using wf by (auto simp: namefix_names_conv)
  from namefix_wfD[OF wf e(1,2)] have 1: "0 \<notin> set (nf_name e)" "nf_hash e = odfs_strcasehash (nf_name e)"
    "unat (nf_hash e) mod ODFS_NAMEFIX_BUCKETS = b" by (auto simp: namefix_entry_ok_def)
  have 2: "odfs_strcasecmp (nf_name e) nm = 0" using 1(1) nm e(3) by (simp add: strcasecmp_0_iff)
  then have "nf_hash e = odfs_strcasehash nm" using strcasehash_cong[OF 1(1) nm] 1(2) by simp
  with 1 2 e show "odfs_namefix_contains state nm (odfs_strcasehash nm)"
    by (auto simp: odfs_namefix_contains_def list_ex_iff)
qed

lemma namefix_alloc_buckets:
  "odfs_namefix_alloc state h sz = (Some state', h') \<Longrightarrow> buckets state' = buckets state"
  by (auto simp: odfs_namefix_alloc_def Let_def split: if_splits prod.splits)

lemma namefix_alloc_room:
  "odfs_namefix_alloc state h sz = (Some state', h') \<Longrightarrow>
   sz \<le> (sz + 7) div 8 * 8 \<and>
   (avail state' + (sz + 7) div 8 * 8 = avail state \<or>
    avail state' + (sz + 7) div 8 * 8 = hd (chunks state') \<and> chunks state' \<noteq> [])"
  by (auto simp: odfs_namefix_alloc_def Let_def split: if_splits prod.splits)

lemma namefix_remember_OK:
  assumes wf: "namefix_wf state" and nm: "0 \<notin> set nm"
    and r: "odfs_namefix_remember state h nm (length nm) (odfs_strcasehash nm) = (ODFS_OK, state', h')"
  shows "namefix_wf state' \<and> namefix_names state' = insert nm (namefix_names state)"
proof -
  let ?b = "unat (odfs_strcasehash nm) mod ODFS_NAMEFIX_BUCKETS"
  let ?e = "\<lparr>nf_hash = odfs_strcasehash nm, nf_name = nm\<rparr>"
  have b: "?b < ODFS_NAMEFIX_BUCKETS" by (simp add: ODFS_NAMEFIX_BUCKETS_def)
  from r have bk: "buckets state' = (buckets state)[?b := ?e # buckets state ! ?b]"
    by (auto simp: odfs_namefix_remember_def Let_def dest: namefix_alloc_buckets
        split: prod.splits option.splits)
  have len: "length (buckets state) = ODFS_NAMEFIX_BUCKETS" using wf by (simp add: namefix_wf_def)
  have wf': "namefix_wf state'"
    using wf nm b by (auto simp: namefix_wf_def bk nth_list_update namefix_entry_ok_def[of _ ?e])
  have "n \<in> namefix_names state' \<longleftrightarrow> n = nm \<or> n \<in> namefix_names state" for n
    unfolding namefix_names_conv[OF wf] namefix_names_conv[OF wf'] bk
    using b len by (auto simp: nth_list_update split: if_splits)
  then have "namefix_names state' = insert nm (namefix_names state)" by blast
  with wf' show ?thesis ..
qed

lemma namefix_remember_cases:
  "\<exists>state' h'. odfs_namefix_remember state h nm len hash = (ODFS_OK, state', h') \<or>
              odfs_namefix_remember state h nm len hash = (ODFS_ERR_NOMEM, state, h')"
  by (auto simp: odfs_namefix_remember_def Let_def split: prod.splits option.splits)

section \<open>Names given out\<close>

lemma namefix_digits_no_nul: "d \<in> set (namefix_digits v nd) \<Longrightarrow> d \<noteq> 0 \<and> d \<noteq> 0x7E"
proof (induction v nd rule: namefix_digits.induct)
  case (1 v nd)
  have "v mod 10 < 10" by simp
  then have "unat (of_nat (0x30 + v mod 10) :: u8) = 0x30 + v mod 10"
    by (simp add: unat_of_nat del: of_nat_add)
  then have dig: "of_nat (0x30 + v mod 10) \<noteq> (0 :: u8)" "of_nat (0x30 + v mod 10) \<noteq> (0x7E :: u8)"
    by (auto simp: unat_eq_zero[symmetric] simp del: of_nat_add)
  from "1.prems" consider "d = of_nat (0x30 + v mod 10)"
    | "v div 10 \<noteq> 0 \<and> Suc nd < 10" "d \<in> set (namefix_digits (v div 10) (Suc nd))"
    by (subst (asm) namefix_digits.simps) (auto split: if_splits)
  then show ?case using dig "1.IH" by cases auto
qed

lemma namefix_candidate_ok:
  assumes "0 \<notin> set base" "length (namefix_suffix k) < name_size"
  shows "0 \<notin> set (namefix_candidate base name_size k) \<and> length (namefix_candidate base name_size k) < name_size"
proof -
  have "0 \<notin> set (namefix_suffix k)" using namefix_digits_no_nul by (auto simp: namefix_suffix_def)
  moreover have "0 \<notin> set (take n base)" for n using assms(1) by (meson in_set_takeD)
  ultimately show ?thesis using assms(2) by (auto simp: namefix_candidate_def Let_def)
qed

text \<open>The name \<open>nm\<close> was new up to case, and is the one name added to the table.\<close>

definition namefix_given :: "odfs_namefix_state \<Rightarrow> u8 list \<Rightarrow> odfs_namefix_state \<Rightarrow> bool" where
  "namefix_given state nm state' \<longleftrightarrow>
     0 \<notin> set nm \<and> fold_name nm \<notin> fold_name ` namefix_names state \<and>
     namefix_wf state' \<and> namefix_names state' = insert nm (namefix_names state)"

lemma namefix_remember_given:
  assumes "namefix_wf state" "0 \<notin> set nm" "odfs_namefix_hash nm = (hash, len)"
    "\<not> odfs_namefix_contains state nm hash"
    "odfs_namefix_remember state h nm len hash = (ODFS_OK, state', h')"
  shows "namefix_given state nm state'"
  using assms namefix_contains_iff[OF assms(1,2)] namefix_remember_OK[OF assms(1,2)]
  by (auto simp: namefix_given_def namefix_hash_eq)

lemma namefix_try_given:
  assumes "namefix_wf state" "0 \<notin> set base"
    and "namefix_try state h base name_size nm k = (ODFS_OK, nm', state', h')"
  shows "namefix_given state nm' state' \<and>
         (\<exists>j \<ge> k. nm' = namefix_candidate base name_size j \<and> length (namefix_suffix j) < name_size)"
  using assms
proof (induction state h base name_size nm k rule: namefix_try.induct)
  case (1 state h base name_size nm k)
  let ?c = "namefix_candidate base name_size k"
  obtain hash len where hl: "odfs_namefix_hash ?c = (hash, len)" by fastforce
  from "1.prems"(3) have k: "k < 1000000" and sz: "length (namefix_suffix k) < name_size"
    by (auto simp: namefix_try.simps[of state h base name_size nm k] split: if_splits)
  have c: "0 \<notin> set ?c" using namefix_candidate_ok[OF "1.prems"(2) sz] by simp
  show ?case
  proof (cases "odfs_namefix_contains state ?c hash")
    case True
    with "1.prems"(3) k sz hl have "namefix_try state h base name_size ?c (Suc k) = (ODFS_OK, nm', state', h')"
      by (simp add: namefix_try.simps[of state h base name_size nm k])
    with "1.IH"[of ?c "(hash, len)"] k sz hl True "1.prems"(1,2) show ?thesis
      using Suc_leD by fastforce
  next
    case False
    with "1.prems"(3) k sz hl have "odfs_namefix_remember state h ?c len hash = (ODFS_OK, state', h')"
        and nm': "nm' = ?c"
      by (auto simp: namefix_try.simps[of state h base name_size nm k] Let_def split: prod.splits)
    with namefix_remember_given[OF "1.prems"(1) c hl False] sz show ?thesis by blast
  qed
qed

lemma namefix_apply_given:
  assumes wf: "namefix_wf state" and nm: "0 \<notin> set nm" "length nm < name_size"
    and ap: "odfs_namefix_apply state h nm name_size = Some (ODFS_OK, nm', state', h')"
  shows "namefix_given state nm' state' \<and> length nm' < name_size \<and>
         (fold_name nm \<notin> fold_name ` namefix_names state \<longrightarrow> nm' = nm)"
proof -
  have hl: "odfs_namefix_hash nm = (odfs_strcasehash nm, length nm)" using nm by (simp add: namefix_hash_eq)
  have base: "take (name_size - 1) nm = nm" using nm(2) by simp
  note iff = namefix_contains_iff[OF wf nm(1)]
  show ?thesis
  proof (cases "odfs_namefix_contains state nm (odfs_strcasehash nm)")
    case True
    with ap hl base have "namefix_try state h nm name_size nm 2 = (ODFS_OK, nm', state', h')"
      by (auto simp: odfs_namefix_apply_def split: if_splits)
    from namefix_try_given[OF wf nm(1) this] obtain j where
      "namefix_given state nm' state'" "nm' = namefix_candidate nm name_size j"
      "length (namefix_suffix j) < name_size" by blast
    with namefix_candidate_ok[OF nm(1)] True iff show ?thesis by blast
  next
    case False
    with ap hl have "odfs_namefix_remember state h nm (length nm) (odfs_strcasehash nm) = (ODFS_OK, state', h')"
      and "nm' = nm" by (auto simp: odfs_namefix_apply_def split: if_splits prod.splits)
    with namefix_remember_given[OF wf nm(1) hl False] nm(2) show ?thesis by blast
  qed
qed

section \<open>A free suffix is found\<close>

fun digits_val :: "u8 list \<Rightarrow> nat" where
  "digits_val [] = 0"
| "digits_val (d # ds) = (unat d - 0x30) + 10 * digits_val ds"

lemma digits_val_digits: "nd < 10 \<Longrightarrow> v < 10 ^ (10 - nd) \<Longrightarrow> digits_val (namefix_digits v nd) = v"
proof (induction v nd rule: namefix_digits.induct)
  case (1 v nd)
  have "v mod 10 < 10" by simp
  then have d: "unat (of_nat (0x30 + v mod 10) :: u8) = 0x30 + v mod 10"
    by (simp add: unat_of_nat del: of_nat_add)
  show ?case
  proof (cases "v div 10 \<noteq> 0 \<and> Suc nd < 10")
    case True
    have "10 - nd = Suc (10 - Suc nd)" using "1.prems"(1) by simp
    with "1.prems"(2) have "v < 10 * 10 ^ (10 - Suc nd)" by (metis power_Suc)
    then have "v div 10 < 10 ^ (10 - Suc nd)" by (simp add: less_mult_imp_div_less mult.commute)
    with "1.IH"[OF True] True d show ?thesis
      by (subst namefix_digits.simps) (simp del: of_nat_add)
  next
    case False
    have "v div 10 = 0"
    proof (rule ccontr)
      assume "v div 10 \<noteq> 0"
      with False "1.prems"(1) have "nd = 9" by simp
      with "1.prems"(2) \<open>v div 10 \<noteq> 0\<close> show False by simp
    qed
    with False d show ?thesis by (subst namefix_digits.simps) (auto simp: div_eq_0_iff simp del: of_nat_add)
  qed
qed

lemma length_namefix_digits: "0 < n \<Longrightarrow> v < 10 ^ n \<Longrightarrow> length (namefix_digits v nd) \<le> n"
proof (induction v nd arbitrary: n rule: namefix_digits.induct)
  case (1 v nd)
  show ?case
  proof (cases "v div 10 \<noteq> 0 \<and> Suc nd < 10")
    case True
    then have "10 \<le> v" by (simp add: div_eq_0_iff)
    with "1.prems" have "1 < n" by (cases "n = 1") auto
    then obtain m where m: "n = Suc m" "0 < m" by (cases n) auto
    with "1.prems"(2) have "v div 10 < 10 ^ m" by (simp add: less_mult_imp_div_less mult.commute)
    with "1.IH"[OF True m(2)] True m(1) show ?thesis by (subst namefix_digits.simps) simp
  next
    case False
    with "1.prems" show ?thesis by (subst namefix_digits.simps) auto
  qed
qed

lemma length_namefix_suffix: "k < 1000000 \<Longrightarrow> length (namefix_suffix k) \<le> 7"
  using length_namefix_digits[of 6 k 0] by (simp add: namefix_suffix_def)

lemma tolower_digit: "0x30 \<le> d \<Longrightarrow> d \<le> 0x39 \<Longrightarrow> odfs_ascii_tolower d = d"
proof -
  have "0x30 \<le> d \<and> d \<le> 0x39 \<longrightarrow> odfs_ascii_tolower d = d" by (rule u8_cases_all) code_simp
  then show "0x30 \<le> d \<Longrightarrow> d \<le> 0x39 \<Longrightarrow> odfs_ascii_tolower d = d" by blast
qed

lemma fold_namefix_digits: "fold_name (namefix_digits v nd) = namefix_digits v nd"
proof (induction v nd rule: namefix_digits.induct)
  case (1 v nd)
  have "v mod 10 < 10" by simp
  then have "unat (of_nat (0x30 + v mod 10) :: u8) = 0x30 + v mod 10"
    by (simp add: unat_of_nat del: of_nat_add)
  then have "odfs_ascii_tolower (of_nat (0x30 + v mod 10)) = of_nat (0x30 + v mod 10)"
    using \<open>v mod 10 < 10\<close> by (intro tolower_digit) (auto simp: word_le_nat_alt simp del: of_nat_add)
  with "1.IH" show ?case
    by (subst (1 2) namefix_digits.simps) (auto simp del: of_nat_add)
qed

lemma candidate_digits:
  "takeWhile (\<lambda>c. c \<noteq> 0x7E) (rev (fold_name (namefix_candidate base n k))) = namefix_digits k 0"
proof -
  have "odfs_ascii_tolower 0x7E = 0x7E" by code_simp
  then have "rev (fold_name (namefix_candidate base n k)) =
      namefix_digits k 0 @ 0x7E # rev (fold_name (take (length (namefix_candidate base n k) - length (namefix_suffix k)) base))"
    by (auto simp: namefix_candidate_def namefix_suffix_def Let_def rev_map[symmetric] fold_namefix_digits)
  moreover have "\<forall>c \<in> set (namefix_digits k 0). c \<noteq> 0x7E" using namefix_digits_no_nul by blast
  ultimately show ?thesis by (simp add: takeWhile_append2)
qed

lemma candidate_inj:
  assumes "fold_name (namefix_candidate base n j) = fold_name (namefix_candidate base n k)"
    "j < 1000000" "k < 1000000"
  shows "j = k"
proof -
  have "namefix_digits j 0 = namefix_digits k 0"
    using assms(1) candidate_digits[of base n j] candidate_digits[of base n k] by simp
  moreover have "digits_val (namefix_digits j 0) = j" "digits_val (namefix_digits k 0) = k"
    by (rule digits_val_digits; use assms(2,3) in simp)+
  ultimately show ?thesis by metis
qed

lemma namefix_try_error:
  assumes "namefix_wf state" "0 \<notin> set base" "8 \<le> name_size" "k \<le> 1000000"
    and "namefix_try state h base name_size nm k = (err, nm', state', h')"
  shows "err = ODFS_OK \<or> err = ODFS_ERR_NOMEM \<or>
         err = ODFS_ERR_OVERFLOW \<and>
         (\<forall>j. k \<le> j \<and> j < 1000000 \<longrightarrow>
            fold_name (namefix_candidate base name_size j) \<in> fold_name ` namefix_names state)"
  using assms
proof (induction state h base name_size nm k rule: namefix_try.induct)
  case (1 state h base name_size nm k)
  let ?c = "namefix_candidate base name_size k"
  show ?case
  proof (cases "k < 1000000")
    case False
    then have "namefix_try state h base name_size nm k = (ODFS_ERR_OVERFLOW, nm, state, h)"
      by (subst namefix_try.simps) simp
    with "1.prems"(5) False show ?thesis by auto
  next
    case k: True
    have sz: "length (namefix_suffix k) < name_size" using length_namefix_suffix[OF k] "1.prems"(3) by simp
    have c: "0 \<notin> set ?c" using namefix_candidate_ok[OF "1.prems"(2) sz] by simp
    obtain hash len where hl: "odfs_namefix_hash ?c = (hash, len)" by fastforce
    with c have hash: "hash = odfs_strcasehash ?c" by (simp add: namefix_hash_eq)
    show ?thesis
    proof (cases "odfs_namefix_contains state ?c hash")
      case True
      with namefix_contains_iff[OF "1.prems"(1) c] hash
      have mem: "fold_name ?c \<in> fold_name ` namefix_names state" by simp
      from True "1.prems"(5) k sz hl
      have step: "namefix_try state h base name_size ?c (Suc k) = (err, nm', state', h')"
        by (simp add: namefix_try.simps[of state h base name_size nm k])
      have "Suc k \<le> 1000000" using k by simp
      with "1.IH"[of ?c "(hash, len)" hash len] k sz hl True "1.prems"(1-3) step
      have "err = ODFS_OK \<or> err = ODFS_ERR_NOMEM \<or> err = ODFS_ERR_OVERFLOW \<and>
        (\<forall>j. Suc k \<le> j \<and> j < 1000000 \<longrightarrow>
           fold_name (namefix_candidate base name_size j) \<in> fold_name ` namefix_names state)"
        by simp
      with mem show ?thesis using le_eq_less_or_eq Suc_leI by metis
    next
      case False
      with "1.prems"(5) k sz hl namefix_remember_cases[of state h ?c len hash] show ?thesis
        by (auto simp: namefix_try.simps[of state h base name_size nm k] Let_def split: prod.splits)
    qed
  qed
qed

lemma namefix_wf_finite: "namefix_wf state \<Longrightarrow> finite (namefix_names state)"
  by (simp add: namefix_names_def)

lemma namefix_try_finds:
  assumes "namefix_wf state" "0 \<notin> set base" "8 \<le> name_size" "card (namefix_names state) < 999998"
    and "namefix_try state h base name_size nm 2 = (err, nm', state', h')"
  shows "err = ODFS_OK \<or> err = ODFS_ERR_NOMEM"
proof (rule ccontr)
  assume "\<not> ?thesis"
  with namefix_try_error[OF assms(1-3) _ assms(5)]
  have all: "\<forall>j. 2 \<le> j \<and> j < 1000000 \<longrightarrow>
      fold_name (namefix_candidate base name_size j) \<in> fold_name ` namefix_names state" by auto
  let ?f = "\<lambda>j. fold_name (namefix_candidate base name_size j)"
  have "inj_on ?f {2..<1000000}" by (auto intro!: inj_onI dest: candidate_inj)
  then have "card (?f ` {2..<1000000}) = 999998" by (simp add: card_image)
  moreover have "?f ` {2..<1000000} \<subseteq> fold_name ` namefix_names state" using all by auto
  ultimately have "999998 \<le> card (fold_name ` namefix_names state)"
    by (metis assms(1) card_mono finite_imageI namefix_wf_finite)
  also have "\<dots> \<le> card (namefix_names state)" using assms(1) by (simp add: card_image_le namefix_wf_finite)
  finally show False using assms(4) by simp
qed

lemma namefix_apply_total:
  assumes "namefix_wf state" "0 \<notin> set nm" "8 \<le> name_size" "name_size \<le> ODFS_NAME_MAX"
    "card (namefix_names state) < 999998"
  shows "\<exists>err nm' state' h'. odfs_namefix_apply state h nm name_size = Some (err, nm', state', h') \<and>
           (err = ODFS_OK \<or> err = ODFS_ERR_NOMEM)"
proof -
  have base: "0 \<notin> set (take (name_size - 1) nm)" using assms(2) by (meson in_set_takeD)
  have hl: "odfs_namefix_hash nm = (odfs_strcasehash nm, length nm)" using assms(2) by (simp add: namefix_hash_eq)
  show ?thesis
  proof (cases "odfs_namefix_contains state nm (odfs_strcasehash nm)")
    case True
    obtain err nm' state' h' where t: "namefix_try state h (take (name_size - 1) nm) name_size nm 2 =
      (err, nm', state', h')" by (cases "namefix_try state h (take (name_size - 1) nm) name_size nm 2")
    with True hl assms namefix_try_finds[OF assms(1) base assms(3,5) t] show ?thesis
      by (auto simp: odfs_namefix_apply_def)
  next
    case False
    with hl assms(3) namefix_remember_cases[of state h nm "length nm" "odfs_strcasehash nm"] show ?thesis
      by (auto simp: odfs_namefix_apply_def)
  qed
qed

section \<open>The interface the readdirs rely on\<close>

text \<open>
  A readdir gives each raw name to the table in turn and stops at the first error.  What it relies
  on is stated as a locale: the state holds the names given out, and each call gives out a name
  that is new up to case, the one asked for if that is new.
\<close>

fun name_run :: "('s \<Rightarrow> heap \<Rightarrow> u8 list \<Rightarrow> (odfs_err \<times> u8 list \<times> 's \<times> heap) option) \<Rightarrow>
    's \<Rightarrow> heap \<Rightarrow> u8 list list \<Rightarrow> (u8 list list \<times> 's \<times> heap) option" where
  "name_run app st h [] = Some ([], st, h)"
| "name_run app st h (nm # nms) =
     (case app st h nm of
        Some (ODFS_OK, nm', st', h') \<Rightarrow>
          (case name_run app st' h' nms of
             Some (outs, st'', h'') \<Rightarrow> Some (nm' # outs, st'', h'')
           | None \<Rightarrow> None)
      | _ \<Rightarrow> None)"

locale name_table =
  fixes start :: 's
    and app :: "'s \<Rightarrow> heap \<Rightarrow> u8 list \<Rightarrow> (odfs_err \<times> u8 list \<times> 's \<times> heap) option"
    and names :: "'s \<Rightarrow> u8 list set"
    and wf :: "'s \<Rightarrow> bool"
    and limit :: nat
  assumes start_wf: "wf start"
    and start_names: "names start = {}"
    and app_wf: "wf st \<Longrightarrow> 0 \<notin> set nm \<Longrightarrow> length nm < limit \<Longrightarrow>
      app st h nm = Some (ODFS_OK, nm', st', h') \<Longrightarrow> wf st'"
    and app_names: "wf st \<Longrightarrow> 0 \<notin> set nm \<Longrightarrow> length nm < limit \<Longrightarrow>
      app st h nm = Some (ODFS_OK, nm', st', h') \<Longrightarrow> names st' = insert nm' (names st)"
    and app_new: "wf st \<Longrightarrow> 0 \<notin> set nm \<Longrightarrow> length nm < limit \<Longrightarrow>
      app st h nm = Some (ODFS_OK, nm', st', h') \<Longrightarrow>
      fold_name nm' \<notin> fold_name ` names st \<and> 0 \<notin> set nm' \<and> length nm' < limit"
    and app_same: "wf st \<Longrightarrow> 0 \<notin> set nm \<Longrightarrow> length nm < limit \<Longrightarrow>
      app st h nm = Some (ODFS_OK, nm', st', h') \<Longrightarrow>
      fold_name nm \<notin> fold_name ` names st \<Longrightarrow> nm' = nm"
begin

lemma run_step:
  assumes "name_run app st h (nm # nms) = Some (outs, st'', h'')"
  obtains nm' st' h' outs' where "app st h nm = Some (ODFS_OK, nm', st', h')"
    "name_run app st' h' nms = Some (outs', st'', h'')" "outs = nm' # outs'"
  using assms by (auto split: option.splits prod.splits odfs_err.splits)

lemma run_distinct:
  assumes "wf st" "\<forall>nm \<in> set nms. 0 \<notin> set nm \<and> length nm < limit"
    and "name_run app st h nms = Some (outs, st', h')"
  shows "distinct (map fold_name outs) \<and> fold_name ` set outs \<inter> fold_name ` names st = {} \<and>
         (\<forall>nm \<in> set outs. 0 \<notin> set nm \<and> length nm < limit) \<and> length outs = length nms"
  using assms
proof (induction nms arbitrary: st h outs)
  case Nil
  then show ?case by simp
next
  case (Cons nm nms)
  from Cons.prems(3) obtain nm1 st1 h1 outs1 where a: "app st h nm = Some (ODFS_OK, nm1, st1, h1)"
    and r: "name_run app st1 h1 nms = Some (outs1, st', h')" and o: "outs = nm1 # outs1"
    by (rule run_step)
  from Cons.prems(2) have nm: "0 \<notin> set nm" "length nm < limit" by auto
  note step = app_wf[OF Cons.prems(1) nm a] app_names[OF Cons.prems(1) nm a] app_new[OF Cons.prems(1) nm a]
  from Cons.IH[OF step(1) _ r] Cons.prems(2)
  have "distinct (map fold_name outs1)" "fold_name ` set outs1 \<inter> fold_name ` names st1 = {}"
    "\<forall>nm \<in> set outs1. 0 \<notin> set nm \<and> length nm < limit" "length outs1 = length nms" by auto
  with step o show ?case by auto
qed

lemma run_unchanged:
  assumes "wf st" "\<forall>nm \<in> set nms. 0 \<notin> set nm \<and> length nm < limit"
    and "name_run app st h nms = Some (outs, st', h')"
    and "distinct (map fold_name nms)" "fold_name ` set nms \<inter> fold_name ` names st = {}"
  shows "outs = nms"
  using assms
proof (induction nms arbitrary: st h outs)
  case Nil
  then show ?case by simp
next
  case (Cons nm nms)
  from Cons.prems(3) obtain nm1 st1 h1 outs1 where a: "app st h nm = Some (ODFS_OK, nm1, st1, h1)"
    and r: "name_run app st1 h1 nms = Some (outs1, st', h')" and o: "outs = nm1 # outs1"
    by (rule run_step)
  from Cons.prems(2) have nm: "0 \<notin> set nm" "length nm < limit" by auto
  have same: "nm1 = nm" using app_same[OF Cons.prems(1) nm a] Cons.prems(5) by auto
  have "outs1 = nms"
    using Cons.prems same app_names[OF Cons.prems(1) nm a]
    by (intro Cons.IH[OF app_wf[OF Cons.prems(1) nm a] _ r]) auto
  with same o show ?case by simp
qed

end

interpretation nf: name_table odfs_namefix_init "\<lambda>st h nm. odfs_namefix_apply st h nm ODFS_NAME_MAX"
    namefix_names namefix_wf ODFS_NAME_MAX
  by unfold_locales
     (auto simp: namefix_init_wf namefix_init_names namefix_given_def dest: namefix_apply_given)

section \<open>Properties\<close>

lemmas namefix_eval =
  odfs_namefix_apply_def odfs_namefix_hash_def hash_step_def hash_final_def cstr_def Let_def
  odfs_namefix_contains_def odfs_namefix_remember_def odfs_namefix_alloc_def
  odfs_namefix_init_def ODFS_NAMEFIX_BUCKETS_def ODFS_NAMEFIX_INLINE_def
  ODFS_NAMEFIX_CHUNK_SIZE_def ODFS_NAME_MAX_def nth_list_update odfs_strcasecmp.simps
  odfs_ascii_tolower_def namefix_try.simps namefix_candidate_def namefix_suffix_def
  namefix_digits.simps

text \<open>
  C3: over one directory, the names given out are pairwise different up to case, fit the node's
  name buffer, and are exactly the names on disc when those are already different up to case.
\<close>

theorem namefix_directory_names_distinct:
  assumes "name_run (\<lambda>st h nm. odfs_namefix_apply st h nm ODFS_NAME_MAX) odfs_namefix_init h nms =
      Some (outs, state, h')"
    and "\<forall>nm \<in> set nms. 0 \<notin> set nm \<and> length nm < ODFS_NAME_MAX"
  shows "distinct (map (map odfs_ascii_tolower) outs) \<and> length outs = length nms \<and>
         (\<forall>nm \<in> set outs. length nm < ODFS_NAME_MAX) \<and>
         (distinct (map (map odfs_ascii_tolower) nms) \<longrightarrow> outs = nms)"
  using nf.run_distinct[OF nf.start_wf assms(2,1)] nf.run_unchanged[OF nf.start_wf assms(2,1)]
  by (simp add: nf.start_names)

theorem namefix_directory_names_distinct_witness:
  "distinct (map (map odfs_ascii_tolower) [[0x61], [0x41, 0x7E, 0x32], [0x62]])"
proof -
  have "map_option fst (name_run (\<lambda>st h nm. odfs_namefix_apply st h nm ODFS_NAME_MAX) odfs_namefix_init heap_plenty
      [[0x61], [0x41], [0x62]]) = Some [[0x61], [0x41, 0x7E, 0x32], [0x62]]"
    by (simp add: namefix_eval)
  then obtain state h' where
    r: "name_run (\<lambda>st h nm. odfs_namefix_apply st h nm ODFS_NAME_MAX) odfs_namefix_init heap_plenty
      [[0x61], [0x41], [0x62]] = Some ([[0x61], [0x41, 0x7E, 0x32], [0x62]], state, h')" by auto
  have "\<forall>nm \<in> set [[0x61 :: u8], [0x41], [0x62]]. 0 \<notin> set nm \<and> length nm < ODFS_NAME_MAX"
    by (simp add: ODFS_NAME_MAX_def)
  from namefix_directory_names_distinct[OF r this] show ?thesis by blast
qed



end
