(* ===== verification/Media.thy ===== *)
theory Media
  imports Odfs_Base
begin

text \<open>
  The media interface of \<^verbatim>\<open>include/odfs/media.h\<close>: an operations table and a context.  An
  operation takes the context and returns the context after the call, so a device may change
  state between calls.

  \<open>read_sectors\<close> returns with its error code the bytes it stored at the start of the caller's
  buffer, which on a failed read may be any number of them.  What the clients rely on is the
  locale \<open>disc_media\<close>: a successful read delivers the sectors of the disc.
\<close>

section \<open>Table of contents\<close>

record odfs_session =
  sess_number :: u8
  sess_control :: u8
  sess_start_lba :: u32
  sess_length :: u32

record odfs_toc =
  toc_first_session :: u8
  toc_last_session :: u8
  toc_session_count :: u8
  toc_leadout_lba :: u32
  toc_sessions :: "odfs_session list"

section \<open>Operations\<close>

text \<open>Optional operations, NULL in the C table, are \<open>None\<close>.\<close>

record 'm odfs_media_ops =
  read_sectors :: "'m \<Rightarrow> u32 \<Rightarrow> u32 \<Rightarrow> odfs_err \<times> u8 list \<times> 'm"
  sector_size :: "'m \<Rightarrow> u32"
  sector_count :: "'m \<Rightarrow> u32"
  read_toc :: "('m \<Rightarrow> odfs_err \<times> odfs_toc \<times> 'm) option"
  read_last_session_lba :: "('m \<Rightarrow> odfs_err \<times> u32 \<times> 'm) option"
  read_audio :: "('m \<Rightarrow> u32 \<Rightarrow> u32 \<Rightarrow> odfs_err \<times> u8 list \<times> 'm) option"

record 'm odfs_media =
  mops :: "'m odfs_media_ops"
  mctx :: 'm

definition odfs_media_read :: "'m odfs_media \<Rightarrow> u32 \<Rightarrow> u32 \<Rightarrow> odfs_err \<times> u8 list \<times> 'm odfs_media" where
  "odfs_media_read m l count =
     (case read_sectors (mops m) (mctx m) l count of (err, bs, c) \<Rightarrow> (err, bs, m\<lparr>mctx := c\<rparr>))"

definition odfs_media_sector_size :: "'m odfs_media \<Rightarrow> u32" where
  "odfs_media_sector_size m = sector_size (mops m) (mctx m)"

definition odfs_media_sector_count :: "'m odfs_media \<Rightarrow> u32" where
  "odfs_media_sector_count m = sector_count (mops m) (mctx m)"

definition zero_toc :: odfs_toc where
  "zero_toc = \<lparr>toc_first_session = 0, toc_last_session = 0, toc_session_count = 0, toc_leadout_lba = 0,
     toc_sessions = replicate 99 \<lparr>sess_number = 0, sess_control = 0, sess_start_lba = 0, sess_length = 0\<rparr>\<rparr>"

definition odfs_media_read_toc :: "'m odfs_media \<Rightarrow> odfs_err \<times> odfs_toc \<times> 'm odfs_media" where
  "odfs_media_read_toc m =
     (case read_toc (mops m) of
        None \<Rightarrow> (ODFS_ERR_UNSUPPORTED, zero_toc, m)
      | Some f \<Rightarrow> (case f (mctx m) of (err, toc, c) \<Rightarrow> (err, toc, m\<lparr>mctx := c\<rparr>)))"

definition odfs_media_read_last_session_lba :: "'m odfs_media \<Rightarrow> odfs_err \<times> u32 \<times> 'm odfs_media" where
  "odfs_media_read_last_session_lba m =
     (case read_last_session_lba (mops m) of
        None \<Rightarrow> (ODFS_ERR_UNSUPPORTED, 0, m)
      | Some f \<Rightarrow> (case f (mctx m) of (err, l, c) \<Rightarrow> (err, l, m\<lparr>mctx := c\<rparr>)))"

definition odfs_media_read_audio ::
    "'m odfs_media \<Rightarrow> u32 \<Rightarrow> u32 \<Rightarrow> odfs_err \<times> u8 list \<times> 'm odfs_media" where
  "odfs_media_read_audio m l count =
     (case read_audio (mops m) of
        None \<Rightarrow> (ODFS_ERR_UNSUPPORTED, [], m)
      | Some f \<Rightarrow> (case f (mctx m) l count of (err, bs, c) \<Rightarrow> (err, bs, m\<lparr>mctx := c\<rparr>)))"

section \<open>What clients rely on\<close>

text \<open>The sectors \<open>l\<close>, \<open>l + 1\<close>, ... of a disc, \<open>n\<close> of them.\<close>

definition disc_sectors :: "(u32 \<Rightarrow> u8 list) \<Rightarrow> u32 \<Rightarrow> nat \<Rightarrow> u8 list" where
  "disc_sectors disc l n = concat (map (\<lambda>i. disc (l + of_nat i)) [0..<n])"

lemma length_disc_sectors:
  "(\<And>l. length (disc l) = ss) \<Longrightarrow> length (disc_sectors disc l n) = n * ss"
  by (induction n) (simp_all add: disc_sectors_def)

lemma disc_sectors_Suc: "disc_sectors disc l (Suc n) = disc_sectors disc l n @ disc (l + of_nat n)"
  by (simp add: disc_sectors_def)

lemma disc_sectors_0 [simp]: "disc_sectors disc l 0 = []"
  by (simp add: disc_sectors_def)

lemma disc_sectors_1 [simp]: "disc_sectors disc l (Suc 0) = disc l"
  by (simp add: disc_sectors_def)

text \<open>A byte of a run of sectors is a byte of one of them.\<close>

lemma nth_disc_sectors:
  assumes "\<And>l. length (disc l) = ss" "k < n * ss"
  shows "disc_sectors disc l n ! k = disc (l + of_nat (k div ss)) ! (k mod ss)"
  using assms(2)
proof (induction n)
  case 0
  then show ?case by simp
next
  case (Suc n)
  have len: "length (disc_sectors disc l n) = n * ss" by (rule length_disc_sectors) (rule assms(1))
  show ?case
  proof (cases "k < n * ss")
    case True
    with Suc.IH len show ?thesis by (simp add: disc_sectors_Suc nth_append)
  next
    case False
    then have "n * ss \<le> k" "k < Suc n * ss" using Suc.prems by auto
    then have "k div ss = n" by (metis div_nat_eqI mult.commute)
    then have "k mod ss = k - n * ss" by (metis minus_div_mult_eq_mod)
    with False len \<open>k div ss = n\<close> show ?thesis by (simp add: disc_sectors_Suc nth_append)
  qed
qed

text \<open>
  The contract of a medium: as long as the context is \<open>good\<close>, its operations keep it good, a
  read stores at most the sectors asked for, and a successful read stores the sectors of \<open>disc\<close>.
\<close>

locale disc_media =
  fixes ops :: "'m odfs_media_ops" and disc :: "u32 \<Rightarrow> u8 list" and ss :: nat and good :: "'m \<Rightarrow> bool"
  assumes read_good: "good m \<Longrightarrow> read_sectors ops m l n = (e, bs, m') \<Longrightarrow> good m'"
    and read_len: "good m \<Longrightarrow> read_sectors ops m l n = (e, bs, m') \<Longrightarrow> length bs \<le> unat n * ss"
    and read_ok: "good m \<Longrightarrow> read_sectors ops m l n = (ODFS_OK, bs, m') \<Longrightarrow> bs = disc_sectors disc l (unat n)"
    and size_ok: "good m \<Longrightarrow> unat (sector_size ops m) = ss"
    and disc_len: "length (disc l) = ss"
begin

definition good_media :: "'m odfs_media \<Rightarrow> bool" where
  "good_media m \<longleftrightarrow> mops m = ops \<and> good (mctx m)"

text \<open>The medium refuses to read the \<open>n\<close> sectors at \<open>l\<close>, with error \<open>e\<close>.\<close>

definition fails :: "u32 \<Rightarrow> u32 \<Rightarrow> odfs_err \<Rightarrow> bool" where
  "fails l n e \<longleftrightarrow> e \<noteq> ODFS_OK \<and> (\<exists>m bs m'. good m \<and> read_sectors ops m l n = (e, bs, m'))"

lemma fails_err: "fails l n e \<Longrightarrow> e \<noteq> ODFS_OK"
  by (simp add: fails_def)

lemma media_fails:
  assumes "good_media m" "odfs_media_read m l n = (e, bs, m')" "e \<noteq> ODFS_OK"
  shows "fails l n e"
  using assms by (auto simp: fails_def odfs_media_read_def good_media_def split: prod.splits)

lemma media_read:
  assumes "good_media m" "odfs_media_read m l n = (e, bs, m')"
  shows "good_media m' \<and> length bs \<le> unat n * ss \<and> (e = ODFS_OK \<longrightarrow> bs = disc_sectors disc l (unat n))"
proof -
  obtain e' bs' c where r: "read_sectors ops (mctx m) l n = (e', bs', c)" by (metis prod_cases3)
  with assms have eq: "e = e'" "bs = bs'" "m' = m\<lparr>mctx := c\<rparr>"
    by (auto simp: odfs_media_read_def good_media_def)
  from assms(1) have g: "good (mctx m)" by (simp add: good_media_def)
  from read_good[OF g r] read_len[OF g r] read_ok[OF g, of l n bs' c] r assms(1) eq show ?thesis
    by (auto simp: good_media_def)
qed

end

text \<open>A medium on which a failed read of one sector stores nothing.\<close>

locale atomic_media = disc_media +
  assumes read_atomic: "good m \<Longrightarrow> read_sectors ops m l 1 = (e, bs, m') \<Longrightarrow> e \<noteq> ODFS_OK \<Longrightarrow> bs = []"
begin

lemma media_read_atomic:
  assumes "good_media m" "odfs_media_read m l 1 = (e, bs, m')" "e \<noteq> ODFS_OK"
  shows "bs = []"
  using assms read_atomic by (auto simp: odfs_media_read_def good_media_def split: prod.splits)

end

end
