(* ===== verification/Block_Cache.thy ===== *)
theory Block_Cache
  imports Media
begin

text \<open>
  The LRU block cache of \<^verbatim>\<open>core/cache_block.c\<close>.

  The C structure keeps its entries in an array and threads three kinds of list through it by
  index: the LRU list (doubly linked through \<open>lru_prev\<close>/\<open>lru_next\<close>), the free list (through
  \<open>lru_next\<close>) and one collision chain per hash bucket (through \<open>next\<close>).  The model keeps exactly
  these arrays; an index outside an array is undefined behaviour and gives \<open>None\<close>, and the walks
  of the chains are partial functions, so an endless walk is \<open>None\<close> too.

  A pointer to the data of an entry, as \<open>odfs_cache_read\<close> returns it, is the index of the entry:
  the bytes behind it change when the entry is reused (\<open>cache_data\<close>).
\<close>

section \<open>Data\<close>

record odfs_cache_stats =
  st_reads :: u32
  st_hits :: u32
  st_misses :: u32
  st_evictions :: u32
  st_max_used :: u32

record odfs_cache_entry =
  e_lba :: u32
  e_age :: u32
  e_prev :: int
  e_next :: int
  e_valid :: bool
  e_data :: "u8 list"

text \<open>Null pointers: an array that is not allocated is the empty list, a missing buffer or
  medium is \<open>None\<close>.\<close>

record 'm odfs_cache =
  c_entries :: "odfs_cache_entry list"
  c_buckets :: "int list"
  c_next :: "int list"
  c_capacity :: nat
  c_hash_size :: nat
  c_valid_count :: nat
  c_sector_size :: nat
  c_sector_shift :: nat
  c_clock :: u32
  c_free_head :: int
  c_lru_head :: int
  c_lru_tail :: int
  c_stats :: odfs_cache_stats
  c_media :: "'m odfs_media option"
  c_stream_buf :: "u8 list option"
  c_last_miss_lba :: u32
  c_generation :: u32

definition zero_stats :: odfs_cache_stats where
  "zero_stats = \<lparr>st_reads = 0, st_hits = 0, st_misses = 0, st_evictions = 0, st_max_used = 0\<rparr>"

definition zero_cache :: "'m odfs_cache" where
  "zero_cache = \<lparr>c_entries = [], c_buckets = [], c_next = [], c_capacity = 0, c_hash_size = 0,
     c_valid_count = 0, c_sector_size = 0, c_sector_shift = 0, c_clock = 0, c_free_head = 0,
     c_lru_head = 0, c_lru_tail = 0, c_stats = zero_stats, c_media = None, c_stream_buf = None,
     c_last_miss_lba = 0, c_generation = 0\<rparr>"

definition ODFS_CACHE_STREAM_MIN_SECTORS :: nat where "ODFS_CACHE_STREAM_MIN_SECTORS = 2"
definition ODFS_CACHE_READAHEAD :: nat where "ODFS_CACHE_READAHEAD = 8"

text \<open>Access to an array through a C index.\<close>

definition ird :: "'a list \<Rightarrow> int \<Rightarrow> 'a option" where
  "ird xs i = (if 0 \<le> i then rd xs (nat i) else None)"

definition iwr :: "'a list \<Rightarrow> int \<Rightarrow> 'a \<Rightarrow> 'a list option" where
  "iwr xs i v = (if 0 \<le> i \<and> nat i < length xs then Some (xs[nat i := v]) else None)"

definition ent_upd :: "(odfs_cache_entry \<Rightarrow> odfs_cache_entry) \<Rightarrow> int \<Rightarrow> 'm odfs_cache \<Rightarrow> 'm odfs_cache option" where
  "ent_upd f i c = do { e \<leftarrow> ird (c_entries c) i; es \<leftarrow> iwr (c_entries c) i (f e);
     Some (c\<lparr>c_entries := es\<rparr>) }"

definition cache_data :: "'m odfs_cache \<Rightarrow> int \<Rightarrow> u8 list option" where
  "cache_data c i = map_option e_data (ird (c_entries c) i)"

section \<open>Index structures\<close>

definition cache_reset_indices :: "'m odfs_cache \<Rightarrow> 'm odfs_cache" where
  "cache_reset_indices c =
     c\<lparr>c_buckets := replicate (length (c_buckets c)) (-1),
       c_next := replicate (length (c_next c)) (-1),
       c_free_head := (if c_capacity c \<noteq> 0 then 0 else -1),
       c_lru_head := -1, c_lru_tail := -1,
       c_entries := map (\<lambda>i. (c_entries c ! i)\<lparr>e_prev := -1,
           e_next := (if i + 1 < c_capacity c then int (i + 1) else -1)\<rparr>) [0..<length (c_entries c)]\<rparr>"

definition cache_hash_lba :: "'m odfs_cache \<Rightarrow> u32 \<Rightarrow> nat" where
  "cache_hash_lba c l = (if c_hash_size c \<noteq> 0 then unat l mod c_hash_size c else 0)"

partial_function (option) find_walk :: "'m odfs_cache \<Rightarrow> u32 \<Rightarrow> int \<Rightarrow> int option" where
  "find_walk c l idx =
     (if idx \<ge> 0 then do {
        e \<leftarrow> ird (c_entries c) idx;
        if e_valid e \<and> e_lba e = l then Some idx
        else do { n \<leftarrow> ird (c_next c) idx; find_walk c l n } }
      else Some (-1))"

definition cache_find_index :: "'m odfs_cache \<Rightarrow> u32 \<Rightarrow> int option" where
  "cache_find_index c l =
     (if c_buckets c = [] \<or> c_next c = [] \<or> c_hash_size c = 0 then Some (-1)
      else do { idx \<leftarrow> rd (c_buckets c) (cache_hash_lba c l); find_walk c l idx })"

definition cache_insert_index :: "'m odfs_cache \<Rightarrow> int \<Rightarrow> 'm odfs_cache option" where
  "cache_insert_index c idx =
     (if c_buckets c = [] \<or> c_next c = [] \<or> int (c_capacity c) \<le> idx then Some c
      else do {
        e \<leftarrow> ird (c_entries c) idx;
        let bucket = cache_hash_lba c (e_lba e);
        b \<leftarrow> rd (c_buckets c) bucket;
        nx \<leftarrow> iwr (c_next c) idx b;
        bs \<leftarrow> iwr (c_buckets c) (int bucket) idx;
        Some (c\<lparr>c_next := nx, c_buckets := bs\<rparr>) })"

partial_function (option) remove_walk ::
    "'m odfs_cache \<Rightarrow> int \<Rightarrow> nat \<Rightarrow> int \<Rightarrow> int \<Rightarrow> 'm odfs_cache option" where
  "remove_walk c idx bucket prev cur =
     (if cur \<ge> 0 then
        (if cur = idx then do {
           n \<leftarrow> ird (c_next c) cur;
           c' \<leftarrow> (if prev \<ge> 0 then do { nx \<leftarrow> iwr (c_next c) prev n; Some (c\<lparr>c_next := nx\<rparr>) }
                 else do { bs \<leftarrow> iwr (c_buckets c) (int bucket) n; Some (c\<lparr>c_buckets := bs\<rparr>) });
           nx \<leftarrow> iwr (c_next c') cur (-1);
           Some (c'\<lparr>c_next := nx\<rparr>) }
         else do { n \<leftarrow> ird (c_next c) cur; remove_walk c idx bucket cur n })
      else Some c)"

definition cache_remove_index :: "'m odfs_cache \<Rightarrow> int \<Rightarrow> 'm odfs_cache option" where
  "cache_remove_index c idx =
     (if c_buckets c = [] \<or> c_next c = [] \<or> int (c_capacity c) \<le> idx then Some c
      else do {
        e \<leftarrow> ird (c_entries c) idx;
        let bucket = cache_hash_lba c (e_lba e);
        cur \<leftarrow> rd (c_buckets c) bucket;
        remove_walk c idx bucket (-1) cur })"

definition cache_lru_remove :: "'m odfs_cache \<Rightarrow> int \<Rightarrow> 'm odfs_cache option" where
  "cache_lru_remove c idx =
     (if c_entries c = [] \<or> int (c_capacity c) \<le> idx then Some c
      else do {
        e \<leftarrow> ird (c_entries c) idx;
        let prev = e_prev e;
        let next = e_next e;
        c \<leftarrow> (if prev \<ge> 0 then ent_upd (\<lambda>e. e\<lparr>e_next := next\<rparr>) prev c
             else Some (if c_lru_head c = idx then c\<lparr>c_lru_head := next\<rparr> else c));
        c \<leftarrow> (if next \<ge> 0 then ent_upd (\<lambda>e. e\<lparr>e_prev := prev\<rparr>) next c
             else Some (if c_lru_tail c = idx then c\<lparr>c_lru_tail := prev\<rparr> else c));
        ent_upd (\<lambda>e. e\<lparr>e_prev := -1, e_next := -1\<rparr>) idx c })"

definition cache_lru_insert_head :: "'m odfs_cache \<Rightarrow> int \<Rightarrow> 'm odfs_cache option" where
  "cache_lru_insert_head c idx =
     (if c_entries c = [] \<or> int (c_capacity c) \<le> idx then Some c
      else do {
        c \<leftarrow> ent_upd (\<lambda>e. e\<lparr>e_prev := -1, e_next := c_lru_head c\<rparr>) idx c;
        c \<leftarrow> (if c_lru_head c \<ge> 0 then ent_upd (\<lambda>e. e\<lparr>e_prev := idx\<rparr>) (c_lru_head c) c
             else Some (c\<lparr>c_lru_tail := idx\<rparr>));
        Some (c\<lparr>c_lru_head := idx\<rparr>) })"

definition cache_lru_make_mru :: "'m odfs_cache \<Rightarrow> int \<Rightarrow> 'm odfs_cache option" where
  "cache_lru_make_mru c idx =
     (if c_lru_head c = idx then Some c
      else do { c \<leftarrow> cache_lru_remove c idx; cache_lru_insert_head c idx })"

definition cache_pop_free :: "'m odfs_cache \<Rightarrow> (int \<times> 'm odfs_cache) option" where
  "cache_pop_free c =
     (if c_entries c = [] then Some (-1, c)
      else let idx = c_free_head c in
        if idx < 0 then Some (-1, c)
        else do {
          e \<leftarrow> ird (c_entries c) idx;
          c \<leftarrow> ent_upd (\<lambda>e. e\<lparr>e_next := -1, e_prev := -1\<rparr>) idx (c\<lparr>c_free_head := e_next e\<rparr>);
          Some (idx, c) })"

section \<open>Lifecycle\<close>

text \<open>
  \<open>odfs_cache_init\<close>.  The entries, the buckets, the \<open>next\<close> array, one data buffer per entry and
  the staging buffer are allocated in this order; freshly allocated bytes are indeterminate
  (\<open>uninit\<close> gives the contents of allocation \<open>k\<close>).  \<open>size_t\<close> has 64 bits and an entry 32 bytes.
\<close>

definition fresh_buf :: "(nat \<Rightarrow> nat \<Rightarrow> u8) \<Rightarrow> nat \<Rightarrow> nat \<Rightarrow> u8 list" where
  "fresh_buf uninit k n = map (uninit k) [0..<n]"

fun alloc_entries :: "(nat \<Rightarrow> nat \<Rightarrow> u8) \<Rightarrow> nat \<Rightarrow> heap \<Rightarrow> nat \<Rightarrow> nat \<Rightarrow> odfs_cache_entry list option \<times> heap" where
  "alloc_entries uninit ss h i 0 = (Some [], h)"
| "alloc_entries uninit ss h i (Suc n) =
     (case odfs_malloc h of
        (False, h) \<Rightarrow> (None, h)
      | (True, h) \<Rightarrow>
          (case alloc_entries uninit ss h (Suc i) n of
             (es, h) \<Rightarrow> (map_option (\<lambda>es. \<lparr>e_lba = 0, e_age = 0, e_prev = 0, e_next = 0, e_valid = False,
                 e_data = fresh_buf uninit i ss\<rparr> # es) es, h)))"

fun shift_loop :: "nat \<Rightarrow> nat \<Rightarrow> nat" where
  "shift_loop sz k = (if sz > 1 then shift_loop (sz div 2) (k + 1) else k)"

declare shift_loop.simps [simp del]

text \<open>Its second half, once everything is allocated.\<close>

definition cache_init_finish ::
    "(nat \<Rightarrow> nat \<Rightarrow> u8) \<Rightarrow> heap \<Rightarrow> 'm odfs_media \<Rightarrow> u32 \<Rightarrow> u32 \<Rightarrow> odfs_cache_entry list \<Rightarrow>
       odfs_err \<times> 'm odfs_cache \<times> heap" where
  "cache_init_finish uninit h media capacity ss es =
    (let hash_size = capacity * 2 + 1;
         c = zero_cache\<lparr>c_entries := es, c_buckets := replicate (unat hash_size) 0,
               c_next := replicate (unat capacity) 0, c_capacity := unat capacity,
               c_hash_size := unat hash_size, c_sector_size := unat ss\<rparr> in
     if ss AND (ss - 1) \<noteq> 0 then (ODFS_ERR_INVAL, c, h)
     else
       let c = c\<lparr>c_sector_shift := shift_loop (unat ss) 0, c_media := Some media\<rparr> in
       if unat capacity \<ge> 4 * ODFS_CACHE_READAHEAD
       then case odfs_malloc h of (ok, h) \<Rightarrow>
         (ODFS_OK,
          cache_reset_indices (c\<lparr>c_stream_buf :=
            (if ok then Some (fresh_buf uninit (unat capacity) (ODFS_CACHE_READAHEAD * unat ss)) else None)\<rparr>), h)
       else (ODFS_OK, cache_reset_indices c, h))"

definition odfs_cache_init ::
    "(nat \<Rightarrow> nat \<Rightarrow> u8) \<Rightarrow> heap \<Rightarrow> 'm odfs_media \<Rightarrow> u32 \<Rightarrow> odfs_err \<times> 'm odfs_cache \<times> heap" where
  "odfs_cache_init uninit h media capacity =
    (if capacity = 0 then (ODFS_ERR_INVAL, zero_cache, h)
     else if capacity > (0xFFFFFFFF - 1) div 2 then (ODFS_ERR_RANGE, zero_cache, h)
     else let entries_bytes = (ucast capacity :: u64) * 32; next_bytes = (ucast capacity :: u64) * 4 in
     if entries_bytes div 32 \<noteq> ucast capacity \<or> next_bytes div 4 \<noteq> ucast capacity
     then (ODFS_ERR_OVERFLOW, zero_cache, h)
     else let ss = odfs_media_sector_size media in
     if ss = 0 then (ODFS_ERR_INVAL, zero_cache, h)
     else case odfs_malloc h of
       (False, h) \<Rightarrow> (ODFS_ERR_NOMEM, zero_cache, h)
     | (True, h) \<Rightarrow>
       let hash_size = capacity * 2 + 1; bucket_bytes = (ucast hash_size :: u64) * 4 in
       if bucket_bytes div 4 \<noteq> ucast hash_size then (ODFS_ERR_OVERFLOW, zero_cache, h)
       else case odfs_malloc h of (b_ok, h) \<Rightarrow> case odfs_malloc h of (n_ok, h) \<Rightarrow>
       if \<not> b_ok \<or> \<not> n_ok then (ODFS_ERR_NOMEM, zero_cache, h)
       else case alloc_entries uninit (unat ss) h 0 (unat capacity) of
         (None, h) \<Rightarrow> (ODFS_ERR_NOMEM, zero_cache, h)
       | (Some es, h) \<Rightarrow> cache_init_finish uninit h media capacity ss es)"

definition odfs_cache_destroy :: "'m odfs_cache \<Rightarrow> 'm odfs_cache" where
  "odfs_cache_destroy c = (if c_entries c = [] then c else zero_cache)"

definition odfs_cache_flush :: "'m odfs_cache \<Rightarrow> 'm odfs_cache" where
  "odfs_cache_flush c =
     (if c_entries c = [] then c
      else cache_reset_indices
        (c\<lparr>c_entries := map (\<lambda>e. e\<lparr>e_valid := False\<rparr>) (c_entries c),
           c_valid_count := 0, c_generation := c_generation c + 1\<rparr>))"

section \<open>Installing sectors\<close>

definition cache_reserve :: "'m odfs_cache \<Rightarrow> int" where
  "cache_reserve c =
     (let victim = (if c_valid_count c < c_capacity c then c_free_head c else c_lru_tail c) in
      if victim < 0 \<or> int (c_capacity c) \<le> victim then -1 else victim)"

definition cache_commit :: "'m odfs_cache \<Rightarrow> int \<Rightarrow> u32 \<Rightarrow> (int \<times> 'm odfs_cache) option" where
  "cache_commit c victim l = do {
     e \<leftarrow> ird (c_entries c) victim;
     (ok, c) \<leftarrow>
       (if e_valid e then do {
          c \<leftarrow> cache_remove_index c victim;
          c \<leftarrow> cache_lru_remove c victim;
          Some (True, c\<lparr>c_stats := (c_stats c)\<lparr>st_evictions := st_evictions (c_stats c) + 1\<rparr>,
                  c_generation := c_generation c + 1\<rparr>) }
        else do {
          (free_idx, c) \<leftarrow> cache_pop_free c;
          if free_idx \<noteq> victim then Some (False, c)
          else Some (True, c\<lparr>c_valid_count := c_valid_count c + 1\<rparr>) });
     if \<not> ok then Some (-1, c)
     else do {
       c \<leftarrow> ent_upd (\<lambda>e. e\<lparr>e_lba := l, e_age := c_clock c, e_valid := True\<rparr>) victim c;
       c \<leftarrow> cache_insert_index c victim;
       c \<leftarrow> cache_lru_insert_head c victim;
       Some (victim,
         if of_nat (c_valid_count c) > st_max_used (c_stats c)
         then c\<lparr>c_stats := (c_stats c)\<lparr>st_max_used := of_nat (c_valid_count c)\<rparr>\<rparr> else c) } }"

definition cache_install :: "'m odfs_cache \<Rightarrow> u32 \<Rightarrow> u8 list \<Rightarrow> (int \<times> 'm odfs_cache) option" where
  "cache_install c l src =
     (let victim = cache_reserve c in
      if victim < 0 then Some (-1, c)
      else do {
        e \<leftarrow> ird (c_entries c) victim;
        bytes \<leftarrow> rdn src 0 (c_sector_size c);
        d \<leftarrow> wrn (e_data e) 0 bytes;
        c \<leftarrow> ent_upd (\<lambda>e. e\<lparr>e_data := d\<rparr>) victim c;
        cache_commit c victim l })"

definition odfs_cache_contains :: "'m odfs_cache \<Rightarrow> u32 \<Rightarrow> bool option" where
  "odfs_cache_contains c l =
     (if c_entries c = [] then Some False
      else do { i \<leftarrow> cache_find_index c l; Some (i \<ge> 0) })"

definition odfs_cache_retain :: "'m odfs_cache \<Rightarrow> u32 \<Rightarrow> u8 list \<Rightarrow> (odfs_err \<times> 'm odfs_cache) option" where
  "odfs_cache_retain c l data =
     (if c_entries c = [] then Some (ODFS_ERR_INVAL, c)
      else do {
        i \<leftarrow> cache_find_index c l;
        if i \<ge> 0 then Some (ODFS_OK, c)
        else do {
          (i, c) \<leftarrow> cache_install c l data;
          Some (if i \<ge> 0 then ODFS_OK else ODFS_ERR_INVAL, c) } })"

section \<open>Reading\<close>

definition bump_reads :: "'m odfs_cache \<Rightarrow> 'm odfs_cache" where
  "bump_reads c = c\<lparr>c_stats := (c_stats c)\<lparr>st_reads := st_reads (c_stats c) + 1\<rparr>\<rparr>"

definition bump_hits :: "'m odfs_cache \<Rightarrow> 'm odfs_cache" where
  "bump_hits c = c\<lparr>c_stats := (c_stats c)\<lparr>st_hits := st_hits (c_stats c) + 1\<rparr>\<rparr>"

definition bump_misses :: "'m odfs_cache \<Rightarrow> 'm odfs_cache" where
  "bump_misses c = c\<lparr>c_stats := (c_stats c)\<lparr>st_misses := st_misses (c_stats c) + 1\<rparr>\<rparr>"

definition bump_clock :: "'m odfs_cache \<Rightarrow> 'm odfs_cache" where
  "bump_clock c = c\<lparr>c_clock := c_clock c + 1\<rparr>"

text \<open>A null result is \<open>None\<close> inside.\<close>

definition odfs_cache_read_cached :: "'m odfs_cache \<Rightarrow> u32 \<Rightarrow> (int option \<times> 'm odfs_cache) option" where
  "odfs_cache_read_cached c l =
     (if c_entries c = [] then Some (None, c)
      else do {
        hit \<leftarrow> cache_find_index c l;
        if hit < 0 then Some (None, c)
        else do {
          let c = bump_clock (bump_hits (bump_reads c));
          c \<leftarrow> ent_upd (\<lambda>e. e\<lparr>e_age := c_clock c\<rparr>) hit c;
          c \<leftarrow> cache_lru_make_mru c hit;
          Some (Some hit, c) } })"

text \<open>The length of the run of uncached sectors that a clustered miss fetches.\<close>

function readahead_run :: "'m odfs_cache \<Rightarrow> u32 \<Rightarrow> nat \<Rightarrow> nat option" where
  "readahead_run c l run =
     (if run < ODFS_CACHE_READAHEAD \<and> l + of_nat run > l
      then do { i \<leftarrow> cache_find_index c (l + of_nat run);
                if i < 0 then readahead_run c l (run + 1) else Some run }
      else Some run)"
  by auto
termination by (relation "measure (\<lambda>(c, l, run). ODFS_CACHE_READAHEAD - run)") auto

declare readahead_run.simps [simp del]

text \<open>The sectors of the run are installed from the last to the first.\<close>

fun install_run :: "'m odfs_cache \<Rightarrow> u32 \<Rightarrow> u8 list \<Rightarrow> nat \<Rightarrow> int \<Rightarrow> (int \<times> 'm odfs_cache) option" where
  "install_run c l buf 0 idx = Some (idx, c)"
| "install_run c l buf (Suc i) idx = do {
     (idx, c) \<leftarrow> cache_install c (l + of_nat i) (drop (i * c_sector_size c) buf);
     if idx < 0 then Some (idx, c) else install_run c l buf i idx }"

text \<open>A media read into a buffer of the cache.\<close>

definition media_read_into ::
    "'m odfs_cache \<Rightarrow> u32 \<Rightarrow> u32 \<Rightarrow> u8 list \<Rightarrow> nat \<Rightarrow> (odfs_err \<times> u8 list \<times> 'm odfs_cache) option" where
  "media_read_into c l n buf pos = do {
     m \<leftarrow> c_media c;
     let (err, bs, m) = odfs_media_read m l n;
     buf \<leftarrow> wrn buf pos bs;
     Some (err, buf, c\<lparr>c_media := Some m\<rparr>) }"

text \<open>The clustered read: the index of the requested sector, or \<open>None\<close> inside to fall back to a
  single sector.\<close>

definition cluster_read :: "'m odfs_cache \<Rightarrow> u32 \<Rightarrow> u8 list \<Rightarrow> (int option \<times> 'm odfs_cache) option" where
  "cluster_read c l sbuf = do {
     run \<leftarrow> readahead_run c l 1;
     if run > 1 then do {
       (err, sbuf, c) \<leftarrow> media_read_into c l (of_nat run) sbuf 0;
       let c = c\<lparr>c_stream_buf := Some sbuf\<rparr>;
       if err = ODFS_OK then do {
         (idx, c) \<leftarrow> install_run c l sbuf run (-1);
         if idx \<ge> 0 then Some (Some idx, c\<lparr>c_last_miss_lba := l + of_nat run - 1\<rparr>)
         else Some (None, c) }
       else Some (None, c) }
     else Some (None, c) }"

definition single_read :: "'m odfs_cache \<Rightarrow> u32 \<Rightarrow> ((odfs_err + int) \<times> 'm odfs_cache) option" where
  "single_read c l =
     (let c = c\<lparr>c_last_miss_lba := l\<rparr>; victim = cache_reserve c in
      if victim < 0 then Some (Inl ODFS_ERR_CORRUPT, c)
      else do {
        e \<leftarrow> ird (c_entries c) victim;
        (err, d, c) \<leftarrow> media_read_into c l 1 (e_data e) 0;
        c \<leftarrow> ent_upd (\<lambda>e. e\<lparr>e_data := d\<rparr>) victim c;
        if err \<noteq> ODFS_OK then Some (Inl err, c)
        else do {
          (i, c) \<leftarrow> cache_commit c victim l;
          if i < 0 then Some (Inl ODFS_ERR_CORRUPT, c) else Some (Inr victim, c) } })"

definition odfs_cache_read :: "'m odfs_cache \<Rightarrow> u32 \<Rightarrow> ((odfs_err + int) \<times> 'm odfs_cache) option" where
  "odfs_cache_read c l =
     (if c_entries c = [] then Some (Inl ODFS_ERR_INVAL, c)
      else do {
        let c = bump_clock (bump_reads c);
        hit \<leftarrow> cache_find_index c l;
        if hit \<ge> 0 then do {
          c \<leftarrow> ent_upd (\<lambda>e. e\<lparr>e_age := c_clock c\<rparr>) hit c;
          c \<leftarrow> cache_lru_make_mru c hit;
          Some (Inr hit, bump_hits c) }
        else do {
          let c = bump_misses c;
          (r, c) \<leftarrow> (case c_stream_buf c of
             Some sbuf \<Rightarrow> (if l = c_last_miss_lba c + 1 then cluster_read c l sbuf else Some (None, c))
           | None \<Rightarrow> Some (None, c));
          case r of Some idx \<Rightarrow> Some (Inr idx, c) | None \<Rightarrow> single_read c l } })"

text \<open>Copying part of a sector into the caller's buffer at \<open>pos\<close>.\<close>

definition cache_copy_sector ::
    "'m odfs_cache \<Rightarrow> u32 \<Rightarrow> nat \<Rightarrow> u8 list \<Rightarrow> nat \<Rightarrow> nat \<Rightarrow> (odfs_err \<times> u8 list \<times> 'm odfs_cache) option" where
  "cache_copy_sector c l offset buf pos len = do {
     (r, c) \<leftarrow> odfs_cache_read c l;
     case r of
       Inl err \<Rightarrow> Some (err, buf, c)
     | Inr idx \<Rightarrow> do {
         d \<leftarrow> cache_data c idx;
         bytes \<leftarrow> rdn d offset len;
         buf \<leftarrow> wrn buf pos bytes;
         Some (ODFS_OK, buf, c) } }"

text \<open>
  \<open>odfs_cache_read_bytes\<close>, in three parts.  The result is the error code, the caller's buffer,
  the value of \<open>*len\<close> and the cache.  The first loop streams whole sectors from the medium; it
  returns \<open>Inr (lba, done)\<close> when the code goes on after it.
\<close>

type_synonym 'm bytes_result = "odfs_err \<times> u8 list \<times> nat \<times> 'm odfs_cache"

definition stream_count :: "nat \<Rightarrow> nat \<Rightarrow> u32 \<Rightarrow> nat" where
  "stream_count full ss l =
     (let count = (if full < 0xFFFFFFFF then full else 0xFFFFFFFF);
          count = (if count > 0xFFFFFFFFFFFFFFFF div ss then (0xFFFFFFFFFFFFFFFF div ss) mod 2 ^ 32 else count) in
      if count = 0 then 0
      else if count > 0xFFFFFFFF - unat l + 1 then 0xFFFFFFFF - unat l + 1 else count)"

function stream_loop ::
    "'m odfs_cache \<Rightarrow> u32 \<Rightarrow> u8 list \<Rightarrow> nat \<Rightarrow> nat \<Rightarrow>
       ('m bytes_result + (u32 \<times> u8 list \<times> nat \<times> 'm odfs_cache)) option" where
  "stream_loop c l buf done want =
     (let ss = c_sector_size c; full = (want - done) div ss; count = stream_count full ss l in
      if want - done \<ge> ss \<and> full \<ge> ODFS_CACHE_STREAM_MIN_SECTORS then
        (if count = 0 then Some (Inl (ODFS_ERR_OVERFLOW, buf, want, c))
         else do {
           (err, buf, c') \<leftarrow> media_read_into c l (of_nat count) buf done;
           if err \<noteq> ODFS_OK then Some (Inl (err, buf, done, c'))
           else let done' = done + count * ss; next_lba = unat l + count in
             if done' < want \<and> next_lba > 0xFFFFFFFF then Some (Inl (ODFS_ERR_RANGE, buf, done', c'))
             else stream_loop c' (of_nat next_lba) buf done' want })
      else Some (Inr (l, buf, done, c)))"
  by pat_completeness auto
termination
proof (relation "measure (\<lambda>(c, l, buf, done, want). want - done)", goal_cases)
  case 1
  then show ?case by simp
next
  case (2 c l buf don want ss full count x y z w d' n')
  then have "0 < ss" by (cases "ss = 0") (auto simp: ODFS_CACHE_STREAM_MIN_SECTORS_def)
  with 2 have "0 < count * ss" "ss \<le> want - don" by auto
  then have "want - (don + count * ss) < want - don" using \<open>0 < ss\<close> by linarith
  with 2 show ?case by simp
qed

declare stream_loop.simps [simp del]

text \<open>The second loop and the tail go through the cache, sector by sector.\<close>

function sector_loop :: "'m odfs_cache \<Rightarrow> u32 \<Rightarrow> u8 list \<Rightarrow> nat \<Rightarrow> nat \<Rightarrow> nat \<Rightarrow> 'm bytes_result option" where
  "sector_loop c l buf ss done want =
     (if 0 < ss \<and> want - done \<ge> ss then do {
        (err, buf, c) \<leftarrow> cache_copy_sector c l 0 buf done ss;
        if err \<noteq> ODFS_OK then Some (err, buf, done, c)
        else if done + ss < want \<and> l = 0xFFFFFFFF then Some (ODFS_ERR_RANGE, buf, done + ss, c)
        else sector_loop c (l + 1) buf ss (done + ss) want }
      else if done < want then do {
        (err, buf, c) \<leftarrow> cache_copy_sector c l 0 buf done (want - done);
        if err \<noteq> ODFS_OK then Some (err, buf, done, c)
        else Some (ODFS_OK, buf, want, c) }
      else Some (ODFS_OK, buf, done, c))"
  by pat_completeness auto
termination by (relation "measure (\<lambda>(c, l, buf, ss, done, want). want - done)") auto

declare sector_loop.simps [simp del]

definition bytes_rest :: "'m odfs_cache \<Rightarrow> u32 \<Rightarrow> u8 list \<Rightarrow> nat \<Rightarrow> nat \<Rightarrow> 'm bytes_result option" where
  "bytes_rest c l buf done want = do {
     r \<leftarrow> stream_loop c l buf done want;
     case r of
       Inl res \<Rightarrow> Some res
     | Inr (l, buf, done, c) \<Rightarrow> sector_loop c l buf (c_sector_size c) done want }"

definition odfs_cache_read_bytes ::
    "'m odfs_cache \<Rightarrow> u32 \<Rightarrow> u64 \<Rightarrow> u8 list \<Rightarrow> nat \<Rightarrow> 'm bytes_result option" where
  "odfs_cache_read_bytes c start offset buf want =
     (if c_entries c = [] \<or> c_media c = None then Some (ODFS_ERR_INVAL, buf, want, c)
      else let ss = c_sector_size c in
      if ss = 0 then Some (ODFS_ERR_INVAL, buf, want, c)
      else if want = 0 then Some (ODFS_OK, buf, want, c)
      else
        let lba64 = ucast start + drop_bit (c_sector_shift c) offset;
            sector_off = unat (ucast offset AND (of_nat ss - 1 :: u32)) in
        if lba64 > 0xFFFFFFFF then Some (ODFS_ERR_RANGE, buf, want, c)
        else let l = ucast lba64 :: u32 in
        if sector_off \<noteq> 0 then do {
          let chunk = (if ss - sector_off > want then want else ss - sector_off);
          (err, buf, c) \<leftarrow> cache_copy_sector c l sector_off buf 0 chunk;
          if err \<noteq> ODFS_OK then Some (err, buf, 0, c)
          else if chunk < want \<and> l = 0xFFFFFFFF then Some (ODFS_ERR_RANGE, buf, chunk, c)
          else bytes_rest c (l + 1) buf chunk want }
        else bytes_rest c l buf 0 want)"

definition odfs_cache_get_stats :: "'m odfs_cache \<Rightarrow> odfs_cache_stats" where
  "odfs_cache_get_stats c = c_stats c"

end
