(* ===== verification/Cache_Lists.thy ===== *)
theory Cache_Lists
  imports Block_Cache
begin

text \<open>
  The index structures of the block cache: lists threaded through arrays.  \<open>seg f h xs t\<close> says that
  following \<open>f\<close> from \<open>h\<close> visits \<open>xs\<close> and ends at \<open>t\<close>; a doubly linked list is a segment forwards
  and one backwards.  Each list operation of \<^verbatim>\<open>core/cache_block.c\<close> is shown to do to
  the visited list what its name says, and to leave everything else alone.
\<close>

section \<open>Linked segments\<close>

fun seg :: "(nat \<Rightarrow> int) \<Rightarrow> int \<Rightarrow> nat list \<Rightarrow> int \<Rightarrow> bool" where
  "seg f h [] t \<longleftrightarrow> h = t"
| "seg f h (x # xs) t \<longleftrightarrow> h = int x \<and> seg f (f x) xs t"

lemma seg_cong: "(\<And>x. x \<in> set xs \<Longrightarrow> f x = g x) \<Longrightarrow> seg f h xs t = seg g h xs t"
  by (induction xs arbitrary: h) auto

lemma seg_append: "seg f h (xs @ ys) t \<longleftrightarrow> (\<exists>m. seg f h xs m \<and> seg f m ys t)"
  by (induction xs arbitrary: h) auto

lemma seg_head: "seg f h xs t \<Longrightarrow> h = (if xs = [] then t else int (hd xs))"
  by (cases xs) auto

lemma seg_last_ptr: "seg f h xs t \<Longrightarrow> xs \<noteq> [] \<Longrightarrow> f (last xs) = t"
  by (induction xs arbitrary: h) auto

lemma seg_redirect:
  assumes "seg f h xs t" "distinct xs" "\<And>x. x \<in> set xs \<Longrightarrow> x \<noteq> last xs \<Longrightarrow> g x = f x"
    "xs \<noteq> [] \<Longrightarrow> g (last xs) = t'"
  shows "seg g (if xs = [] then t' else h) xs t'"
  using assms
proof (induction xs arbitrary: h)
  case (Cons x xs)
  show ?case
  proof (cases "xs = []")
    case False
    with Cons.prems(2) have "x \<noteq> last xs" by auto
    with Cons.prems(1) Cons.prems(3)[of x] False have "seg f (f x) xs t" "g x = f x" by auto
    moreover have "seg g (if xs = [] then t' else f x) xs t'"
      by (rule Cons.IH) (use Cons.prems False in auto)
    ultimately show ?thesis using False Cons.prems by simp
  next
    case True
    with Cons.prems show ?thesis by simp
  qed
qed simp

lemma seg_remove:
  assumes "seg f h (as @ x # bs) t" "distinct (as @ x # bs)"
    "\<And>y. y \<in> set (as @ bs) \<Longrightarrow> y \<noteq> last as \<or> as = [] \<Longrightarrow> g y = f y"
    "as \<noteq> [] \<Longrightarrow> g (last as) = f x"
  shows "seg g (if as = [] then f x else h) (as @ bs) t"
proof -
  from assms(1) have s: "seg f h as (int x)" "seg f (f x) bs t" by (auto simp: seg_append)
  have 1: "seg g (if as = [] then f x else h) as (f x)"
    by (rule seg_redirect[OF s(1)]) (use assms in auto)
  have "g y = f y" if "y \<in> set bs" for y
  proof (rule assms(3))
    show "y \<in> set (as @ bs)" using that by simp
    show "y \<noteq> last as \<or> as = []" using that assms(2) last_in_set by fastforce
  qed
  then have "seg g (f x) bs t" using s(2) seg_cong by metis
  with 1 show ?thesis by (auto simp: seg_append)
qed

lemma seg_snoc:
  assumes "seg f h xs t" "distinct xs" "x \<notin> set xs"
    "\<And>y. y \<in> set xs \<Longrightarrow> y \<noteq> last xs \<Longrightarrow> g y = f y" "xs \<noteq> [] \<Longrightarrow> g (last xs) = int x" "g x = t'"
  shows "seg g (if xs = [] then int x else h) (xs @ [x]) t'"
  using seg_redirect[OF assms(1,2,4,5)] assms(6) by (auto simp: seg_append)

text \<open>A doubly linked list: forwards from its head and backwards from its tail.\<close>

definition dll :: "(nat \<Rightarrow> int) \<Rightarrow> (nat \<Rightarrow> int) \<Rightarrow> int \<Rightarrow> int \<Rightarrow> nat list \<Rightarrow> bool" where
  "dll nx pv h t xs \<longleftrightarrow> seg nx h xs (-1) \<and> seg pv t (rev xs) (-1)"

lemma dll_links:
  assumes "dll nx pv h t (as @ x # bs)"
  shows "pv x = (if as = [] then -1 else int (last as))" "nx x = (if bs = [] then -1 else int (hd bs))"
  using assms seg_head[of pv "pv x" "rev as"] seg_head[of nx "nx x" bs]
  by (auto simp: dll_def seg_append hd_rev)

lemma dll_ends:
  "dll nx pv h t xs \<Longrightarrow> h = (if xs = [] then -1 else int (hd xs)) \<and> t = (if xs = [] then -1 else int (last xs))"
  using seg_head[of nx h xs] seg_head[of pv t "rev xs"] by (auto simp: dll_def hd_rev)

lemma dll_remove:
  assumes d: "dll nx pv h t (as @ x # bs)" and dist: "distinct (as @ x # bs)"
    and nx: "\<And>y. y \<in> set (as @ bs) \<Longrightarrow> y \<noteq> last as \<or> as = [] \<Longrightarrow> nx' y = nx y"
      "as \<noteq> [] \<Longrightarrow> nx' (last as) = nx x"
    and pv: "\<And>y. y \<in> set (as @ bs) \<Longrightarrow> y \<noteq> hd bs \<or> bs = [] \<Longrightarrow> pv' y = pv y"
      "bs \<noteq> [] \<Longrightarrow> pv' (hd bs) = pv x"
  shows "dll nx' pv' (if as = [] then nx x else h) (if bs = [] then pv x else t) (as @ bs)"
proof -
  have "seg nx' (if as = [] then nx x else h) (as @ bs) (-1)"
    by (rule seg_remove) (use d dist nx in \<open>auto simp: dll_def\<close>)
  moreover have "seg pv' (if rev bs = [] then pv x else t) (rev bs @ rev as) (-1)"
    by (rule seg_remove) (use d dist pv in \<open>auto simp: dll_def last_rev\<close>)
  ultimately show ?thesis by (simp add: dll_def)
qed

lemma dll_insert_head:
  assumes d: "dll nx pv h t xs" and dist: "distinct (x # xs)"
    and nx: "\<And>y. y \<in> set xs \<Longrightarrow> nx' y = nx y" "nx' x = h"
    and pv: "\<And>y. y \<in> set xs \<Longrightarrow> y \<noteq> hd xs \<Longrightarrow> pv' y = pv y" "xs \<noteq> [] \<Longrightarrow> pv' (hd xs) = int x" "pv' x = -1"
  shows "dll nx' pv' (int x) (if xs = [] then int x else t) (x # xs)"
proof -
  have "seg nx' h xs (-1)" using d seg_cong[of xs nx nx'] nx(1) by (simp add: dll_def)
  moreover have "seg pv' (if rev xs = [] then int x else t) (rev xs @ [x]) (-1)"
    by (rule seg_snoc) (use d dist pv in \<open>auto simp: dll_def last_rev\<close>)
  ultimately show ?thesis using nx(2) by (simp add: dll_def)
qed

lemma dll_cong:
  "(\<And>x. x \<in> set xs \<Longrightarrow> nx x = nx' x \<and> pv x = pv' x) \<Longrightarrow> dll nx pv h t xs = dll nx' pv' h t xs"
  using seg_cong[of xs nx nx'] seg_cong[of "rev xs" pv pv'] by (simp add: dll_def)

section \<open>The LRU and free lists\<close>

text \<open>What the list operations leave alone.\<close>

definition payload :: "odfs_cache_entry \<Rightarrow> u32 \<times> u32 \<times> bool \<times> u8 list" where
  "payload e = (e_lba e, e_age e, e_valid e, e_data e)"

abbreviation nxs :: "odfs_cache_entry list \<Rightarrow> nat \<Rightarrow> int" where "nxs es \<equiv> \<lambda>i. e_next (es ! i)"
abbreviation pvs :: "odfs_cache_entry list \<Rightarrow> nat \<Rightarrow> int" where "pvs es \<equiv> \<lambda>i. e_prev (es ! i)"

lemma payload_upd [simp]: "payload (e\<lparr>e_next := n\<rparr>) = payload e" "payload (e\<lparr>e_prev := n\<rparr>) = payload e"
  by (simp_all add: payload_def)

lemma map_payload_upd:
  "i < length es \<Longrightarrow> payload e = payload (es ! i) \<Longrightarrow> map payload (es[i := e]) = map payload es"
  by (simp add: map_update list_update_same_conv)

lemma ird_int [simp]: "ird xs (int i) = rd xs i"
  by (simp add: ird_def)

lemma iwr_int: "i < length xs \<Longrightarrow> iwr xs (int i) v = Some (xs[i := v])"
  by (simp add: iwr_def)

lemma ent_upd_int:
  "i < length (c_entries c) \<Longrightarrow>
     ent_upd f (int i) c = Some (c\<lparr>c_entries := (c_entries c)[i := f (c_entries c ! i)]\<rparr>)"
  by (simp add: ent_upd_def iwr_int)

lemma cache_lru_remove_spec:
  assumes d: "dll (nxs (c_entries c)) (pvs (c_entries c)) (c_lru_head c) (c_lru_tail c) (as @ x # bs)"
    and dist: "distinct (as @ x # bs)" and lt: "\<And>i. i \<in> set (as @ x # bs) \<Longrightarrow> i < length (c_entries c)"
    and cap: "c_capacity c = length (c_entries c)"
  shows "\<exists>es h t. cache_lru_remove c (int x) = Some (c\<lparr>c_entries := es, c_lru_head := h, c_lru_tail := t\<rparr>)
    \<and> dll (nxs es) (pvs es) h t (as @ bs) \<and> map payload es = map payload (c_entries c)
    \<and> (\<forall>i. i \<notin> set (as @ x # bs) \<longrightarrow> es ! i = c_entries c ! i)"
proof -
  let ?E = "c_entries c"
  define n where "n = nxs ?E x"
  define p where "p = pvs ?E x"
  have n: "n = (if bs = [] then -1 else int (hd bs))" and p: "p = (if as = [] then -1 else int (last as))"
    using dll_links[OF d] by (simp_all add: n_def p_def)
  have ends: "c_lru_head c = (if as = [] then int x else int (hd as))"
    "c_lru_tail c = (if bs = [] then int x else int (last bs))"
    using dll_ends[OF d] by auto
  have xl: "x < length ?E" using lt by simp
  have al: "last as < length ?E" if "as \<noteq> []" using that lt last_in_set by auto
  have bl: "hd bs < length ?E" if "bs \<noteq> []" using that lt hd_in_set by auto
  define e1 where "e1 = (if as = [] then ?E else ?E[last as := (?E ! last as)\<lparr>e_next := n\<rparr>])"
  define e2 where "e2 = (if bs = [] then e1 else e1[hd bs := (e1 ! hd bs)\<lparr>e_prev := p\<rparr>])"
  define e3 where "e3 = e2[x := (e2 ! x)\<lparr>e_prev := -1, e_next := -1\<rparr>]"
  have len: "length e1 = length ?E" "length e2 = length ?E" by (auto simp: e1_def e2_def)
  define c1 where "c1 = c\<lparr>c_entries := e1, c_lru_head := (if as = [] then n else c_lru_head c)\<rparr>"
  define c2 where "c2 = c1\<lparr>c_entries := e2, c_lru_tail := (if bs = [] then p else c_lru_tail c)\<rparr>"
  have s1: "(if p \<ge> 0 then ent_upd (\<lambda>e. e\<lparr>e_next := n\<rparr>) p c
      else Some (if c_lru_head c = int x then c\<lparr>c_lru_head := n\<rparr> else c)) = Some c1"
    using al ends by (cases c) (auto simp: p c1_def e1_def ent_upd_int)
  have s2: "(if n \<ge> 0 then ent_upd (\<lambda>e. e\<lparr>e_prev := p\<rparr>) n c1
      else Some (if c_lru_tail c1 = int x then c1\<lparr>c_lru_tail := p\<rparr> else c1)) = Some c2"
    using bl ends len by (cases c) (auto simp: n c2_def c1_def e2_def ent_upd_int)
  have "?E \<noteq> []" "c_entries c2 = e2" using xl by (auto simp: c2_def)
  then have r: "cache_lru_remove c (int x) = Some (c2\<lparr>c_entries := e3\<rparr>)"
    using xl cap len unfolding cache_lru_remove_def
    by (simp add: ent_upd_int n_def[symmetric] p_def[symmetric] e3_def s1 s2)
  have ab: "last as \<noteq> hd bs" if "as \<noteq> []" "bs \<noteq> []"
    using that dist last_in_set hd_in_set by (metis IntI distinct_append emptyE list.set_intros(2))
  have xa: "as \<noteq> [] \<Longrightarrow> last as \<noteq> x" "bs \<noteq> [] \<Longrightarrow> hd bs \<noteq> x" using dist by auto
  have "dll (nxs e3) (pvs e3) (if as = [] then n else c_lru_head c) (if bs = [] then p else c_lru_tail c) (as @ bs)"
    unfolding n_def p_def
    by (rule dll_remove[OF d dist])
      (use dist xl al bl ab xa in \<open>auto simp: e3_def e2_def e1_def n_def p_def nth_list_update\<close>)
  moreover have "map payload e3 = map payload ?E"
    using xl al bl len unfolding e3_def e2_def e1_def by (auto simp: map_payload_upd)
  moreover have "e3 ! i = ?E ! i" if "i \<notin> set (as @ x # bs)" for i
    using that hd_in_set[of bs] last_in_set[of as]
    by (cases "hd bs = i"; cases "last as = i") (auto simp: e3_def e2_def e1_def)
  moreover have "cache_lru_remove c (int x) = Some (c\<lparr>c_entries := e3, c_lru_head := (if as = [] then n else c_lru_head c),
      c_lru_tail := (if bs = [] then p else c_lru_tail c)\<rparr>)" by (simp add: r c2_def c1_def)
  ultimately show ?thesis by blast
qed

lemma cache_lru_insert_head_spec:
  assumes d: "dll (nxs (c_entries c)) (pvs (c_entries c)) (c_lru_head c) (c_lru_tail c) xs"
    and dist: "distinct (x # xs)" and lt: "\<And>i. i \<in> set (x # xs) \<Longrightarrow> i < length (c_entries c)"
    and cap: "c_capacity c = length (c_entries c)"
  shows "\<exists>es h t. cache_lru_insert_head c (int x) = Some (c\<lparr>c_entries := es, c_lru_head := h, c_lru_tail := t\<rparr>)
    \<and> dll (nxs es) (pvs es) h t (x # xs) \<and> map payload es = map payload (c_entries c)
    \<and> (\<forall>i. i \<notin> set (x # xs) \<longrightarrow> es ! i = c_entries c ! i)"
proof -
  let ?E = "c_entries c"
  have hd: "c_lru_head c = (if xs = [] then -1 else int (hd xs))" using dll_ends[OF d] by auto
  have xl: "x < length ?E" using lt by simp
  have hl: "hd xs < length ?E" if "xs \<noteq> []" using that lt hd_in_set by auto
  have xh: "hd xs \<noteq> x" if "xs \<noteq> []" using that dist by auto
  define e1 where "e1 = ?E[x := (?E ! x)\<lparr>e_prev := -1, e_next := c_lru_head c\<rparr>]"
  define e2 where "e2 = (if xs = [] then e1 else e1[hd xs := (e1 ! hd xs)\<lparr>e_prev := int x\<rparr>])"
  define t where "t = (if xs = [] then int x else c_lru_tail c)"
  have len: "length e1 = length ?E" by (simp add: e1_def)
  have ne: "?E \<noteq> []" using xl by auto
  have r: "cache_lru_insert_head c (int x) = Some (c\<lparr>c_entries := e2, c_lru_head := int x, c_lru_tail := t\<rparr>)"
    using xl cap hl hd ne unfolding cache_lru_insert_head_def
    by (cases c) (auto simp: ent_upd_int e1_def e2_def t_def)
  have "dll (nxs e2) (pvs e2) (int x) t (x # xs)"
    unfolding t_def by (rule dll_insert_head[OF d dist])
      (use dist xl hl xh in \<open>auto simp: e2_def e1_def nth_list_update\<close>)
  moreover have "map payload e2 = map payload ?E"
    using xl hl len unfolding e2_def e1_def by (auto simp: map_payload_upd)
  moreover have "e2 ! i = ?E ! i" if "i \<notin> set (x # xs)" for i
    using that hd_in_set[of xs] by (cases "hd xs = i") (auto simp: e2_def e1_def)
  ultimately show ?thesis using r by blast
qed

section \<open>The hash hash_chains\<close>

definition shape :: "'m odfs_cache \<Rightarrow> bool" where
  "shape c \<longleftrightarrow> 0 < c_capacity c \<and> c_hash_size c = 2 * c_capacity c + 1 \<and> length (c_entries c) = c_capacity c
     \<and> length (c_next c) = c_capacity c \<and> length (c_buckets c) = c_hash_size c"

text \<open>The bucket \<open>b\<close> hash_chains exactly the entries of \<open>S\<close> whose sector hashes to \<open>b\<close>.\<close>

definition in_bucket :: "'m odfs_cache \<Rightarrow> nat set \<Rightarrow> nat \<Rightarrow> nat set" where
  "in_bucket c S b = {i \<in> S. cache_hash_lba c (e_lba (c_entries c ! i)) = b}"

definition hash_chains :: "'m odfs_cache \<Rightarrow> nat set \<Rightarrow> bool" where
  "hash_chains c S \<longleftrightarrow> (\<forall>b < c_hash_size c. \<exists>xs. seg (\<lambda>i. c_next c ! i) (c_buckets c ! b) xs (-1) \<and> distinct xs
     \<and> set xs = in_bucket c S b)"

lemma shape_nonempty:
  assumes "shape c"
  shows "c_entries c \<noteq> []" "c_buckets c \<noteq> []" "c_next c \<noteq> []" "c_hash_size c \<noteq> 0"
  using assms by (auto simp: shape_def)

lemma hash_bound: "shape c \<Longrightarrow> cache_hash_lba c l < c_hash_size c"
  by (auto simp: shape_def cache_hash_lba_def)

lemma chain_of:
  assumes "hash_chains c S" "shape c"
  obtains xs where "seg (\<lambda>i. c_next c ! i) (c_buckets c ! cache_hash_lba c l) xs (-1)" "distinct xs"
    "set xs = in_bucket c S (cache_hash_lba c l)"
  using assms hash_bound[of c l] unfolding hash_chains_def by blast

lemma shape_links:
  "shape c \<Longrightarrow> length N = length (c_next c) \<Longrightarrow> length B = length (c_buckets c) \<Longrightarrow>
     shape (c\<lparr>c_next := N, c_buckets := B\<rparr>)"
  by (simp add: shape_def)

lemma chains_links:
  "(\<And>b. b < c_hash_size c \<Longrightarrow> \<exists>ys. seg (\<lambda>i. N ! i) (B ! b) ys (-1) \<and> distinct ys \<and> set ys = in_bucket c S b) \<Longrightarrow>
     hash_chains (c\<lparr>c_next := N, c_buckets := B\<rparr>) S"
  by (simp add: hash_chains_def in_bucket_def cache_hash_lba_def)

lemma find_walk_seg:
  assumes "seg (\<lambda>i. c_next c ! i) h xs (-1)" "\<And>i. i \<in> set xs \<Longrightarrow> i < c_capacity c" "shape c"
  shows "find_walk c l h =
    Some (case find (\<lambda>i. e_valid (c_entries c ! i) \<and> e_lba (c_entries c ! i) = l) xs of None \<Rightarrow> -1 | Some i \<Rightarrow> int i)"
  using assms(1,2)
proof (induction xs arbitrary: h)
  case Nil
  then show ?case by (simp add: find_walk.simps)
next
  case (Cons x xs)
  have "x < length (c_entries c)" "x < length (c_next c)" using Cons.prems(2) assms(3) by (auto simp: shape_def)
  then show ?case using Cons by (subst find_walk.simps) (auto simp: option.case_eq_if)
qed

lemma cache_find_index_cases:
  assumes "hash_chains c S" "shape c" "\<And>i. i \<in> S \<Longrightarrow> i < c_capacity c \<and> e_valid (c_entries c ! i)"
  obtains (hit) i where "cache_find_index c l = Some (int i)" "i \<in> S" "e_lba (c_entries c ! i) = l"
  | (miss) "cache_find_index c l = Some (-1)" "\<And>i. i \<in> S \<Longrightarrow> e_lba (c_entries c ! i) \<noteq> l"
proof -
  let ?P = "\<lambda>i. e_valid (c_entries c ! i) \<and> e_lba (c_entries c ! i) = l"
  obtain xs where xs: "seg (\<lambda>i. c_next c ! i) (c_buckets c ! cache_hash_lba c l) xs (-1)"
    "set xs = in_bucket c S (cache_hash_lba c l)" by (rule chain_of[OF assms(1,2)])
  have b: "cache_hash_lba c l < length (c_buckets c)" using hash_bound[OF assms(2)] assms(2) by (simp add: shape_def)
  have f: "cache_find_index c l = Some (case find ?P xs of None \<Rightarrow> -1 | Some i \<Rightarrow> int i)"
    using find_walk_seg[OF xs(1) _ assms(2)] xs(2) assms(3) b shape_nonempty[OF assms(2)]
    by (simp add: cache_find_index_def in_bucket_def)
  show ?thesis
  proof (cases "find ?P xs")
    case None
    then have "e_lba (c_entries c ! i) \<noteq> l" if "i \<in> S" for i
      using that xs(2) assms(3) by (auto simp: find_None_iff in_bucket_def)
    with f None miss show ?thesis by simp
  next
    case (Some i)
    then have "?P i" "i \<in> set xs" by (auto simp: find_Some_iff)
    with f Some hit xs(2) show ?thesis by (auto simp: in_bucket_def)
  qed
qed

lemma cache_insert_index_spec:
  assumes ch: "hash_chains c S" and sh: "shape c" and x: "x \<notin> S" "x < c_capacity c"
  shows "\<exists>N B. cache_insert_index c (int x) = Some (c\<lparr>c_next := N, c_buckets := B\<rparr>)
    \<and> shape (c\<lparr>c_next := N, c_buckets := B\<rparr>) \<and> hash_chains (c\<lparr>c_next := N, c_buckets := B\<rparr>) (insert x S)"
proof -
  define b where "b = cache_hash_lba c (e_lba (c_entries c ! x))"
  define N where "N = (c_next c)[x := c_buckets c ! b]"
  define B where "B = (c_buckets c)[b := int x]"
  have bl: "b < c_hash_size c" by (simp add: b_def hash_bound sh)
  have r: "cache_insert_index c (int x) = Some (c\<lparr>c_next := N, c_buckets := B\<rparr>)"
    using sh x bl shape_nonempty[OF sh]
    by (simp add: cache_insert_index_def shape_def N_def B_def b_def iwr_int Let_def)
  have "\<exists>ys. seg (\<lambda>i. N ! i) (B ! b') ys (-1) \<and> distinct ys \<and> set ys = in_bucket c (insert x S) b'"
    if b': "b' < c_hash_size c" for b'
  proof -
    obtain xs where xs: "seg (\<lambda>i. c_next c ! i) (c_buckets c ! b') xs (-1)" "distinct xs" "set xs = in_bucket c S b'"
      using ch b' unfolding hash_chains_def by blast
    have "x \<notin> set xs" using xs(3) x by (auto simp: in_bucket_def)
    then have "c_next c ! i = N ! i" if "i \<in> set xs" for i using that by (cases "i = x") (auto simp: N_def)
    with xs(1) have s: "seg (\<lambda>i. N ! i) (c_buckets c ! b') xs (-1)" using seg_cong by (metis (no_types, lifting))
    show ?thesis
    proof (cases "b' = b")
      case True
      with s \<open>x \<notin> set xs\<close> xs x sh bl show ?thesis
        by (intro exI[of _ "x # xs"]) (auto simp: B_def N_def shape_def in_bucket_def b_def)
    next
      case False
      with s xs show ?thesis by (intro exI[of _ xs]) (auto simp: B_def in_bucket_def b_def)
    qed
  qed
  then have "hash_chains (c\<lparr>c_next := N, c_buckets := B\<rparr>) (insert x S)" by (rule chains_links)
  moreover have "shape (c\<lparr>c_next := N, c_buckets := B\<rparr>)" by (rule shape_links[OF sh]) (simp_all add: N_def B_def)
  ultimately show ?thesis using r by blast
qed

lemma remove_walk_skip:
  assumes "seg (\<lambda>i. c_next c ! i) cur (as @ x # bs) (-1)" "x \<notin> set as" "\<And>i. i \<in> set as \<Longrightarrow> i < length (c_next c)"
  shows "remove_walk c (int x) b prev cur = remove_walk c (int x) b (if as = [] then prev else int (last as)) (int x)"
  using assms
proof (induction as arbitrary: cur prev)
  case (Cons a as)
  have "remove_walk c (int x) b prev cur = remove_walk c (int x) b (int a) (c_next c ! a)"
    using Cons.prems by (subst remove_walk.simps) auto
  also have "\<dots> = remove_walk c (int x) b (if as = [] then int a else int (last as)) (int x)"
    using Cons.prems by (intro Cons.IH) auto
  finally show ?case by simp
qed simp

lemma cache_remove_index_spec:
  assumes ch: "hash_chains c S" and sh: "shape c" and x: "x \<in> S" and lt: "\<And>i. i \<in> S \<Longrightarrow> i < c_capacity c"
  shows "\<exists>N B. cache_remove_index c (int x) = Some (c\<lparr>c_next := N, c_buckets := B\<rparr>)
    \<and> shape (c\<lparr>c_next := N, c_buckets := B\<rparr>) \<and> hash_chains (c\<lparr>c_next := N, c_buckets := B\<rparr>) (S - {x})"
proof -
  define b where "b = cache_hash_lba c (e_lba (c_entries c ! x))"
  obtain xs where xs: "seg (\<lambda>i. c_next c ! i) (c_buckets c ! b) xs (-1)" "distinct xs" "set xs = in_bucket c S b"
    using chain_of[OF ch sh, of "e_lba (c_entries c ! x)"] by (auto simp: b_def)
  have "x \<in> set xs" using xs(3) x by (simp add: in_bucket_def b_def)
  then obtain as bs where split: "xs = as @ x # bs" by (meson split_list)
  have xa: "x \<notin> set as" "x \<notin> set bs" using xs(2) split by auto
  have lts: "i < c_capacity c" if "i \<in> set xs" for i using that xs(3) lt by (auto simp: in_bucket_def)
  have bl: "b < length (c_buckets c)" using hash_bound[OF sh] sh by (simp add: b_def shape_def)
  define N1 where "N1 = (if as = [] then c_next c else (c_next c)[last as := c_next c ! x])"
  define B where "B = (if as = [] then (c_buckets c)[b := c_next c ! x] else c_buckets c)"
  define N where "N = N1[x := -1]"
  have la: "last as < c_capacity c" if "as \<noteq> []" using that lts split by simp
  have xl: "x < c_capacity c" using lt x by simp
  have lens: "length (c_next c) = c_capacity c" "length (c_entries c) = c_capacity c" using sh by (auto simp: shape_def)
  have "cache_remove_index c (int x) = remove_walk c (int x) b (-1) (c_buckets c ! b)"
    using shape_nonempty[OF sh] xl lens bl by (simp add: cache_remove_index_def b_def[symmetric])
  also have "\<dots> = remove_walk c (int x) b (if as = [] then -1 else int (last as)) (int x)"
    by (rule remove_walk_skip) (use xs split xa lens lts in auto)
  also have "\<dots> = Some (c\<lparr>c_next := N, c_buckets := B\<rparr>)"
    using xl la lens bl by (subst remove_walk.simps) (cases c, auto simp: iwr_int N_def N1_def B_def)
  finally have r: "cache_remove_index c (int x) = Some (c\<lparr>c_next := N, c_buckets := B\<rparr>)" .
  have "\<exists>ys. seg (\<lambda>i. N ! i) (B ! b') ys (-1) \<and> distinct ys \<and> set ys = in_bucket c (S - {x}) b'"
    if b': "b' < c_hash_size c" for b'
  proof (cases "b' = b")
    case True
    have "seg (\<lambda>i. N ! i) (if as = [] then c_next c ! x else c_buckets c ! b) (as @ bs) (-1)"
      by (rule seg_remove) (use xs split xa xl la lens in \<open>auto simp: N_def N1_def nth_list_update\<close>)
    with True xs split bl show ?thesis
      by (intro exI[of _ "as @ bs"]) (auto simp: B_def in_bucket_def)
  next
    case False
    obtain ys where ys: "seg (\<lambda>i. c_next c ! i) (c_buckets c ! b') ys (-1)" "distinct ys" "set ys = in_bucket c S b'"
      using ch b' unfolding hash_chains_def by blast
    have "set ys \<inter> set xs = {}" using ys(3) xs(3) False by (auto simp: in_bucket_def)
    then have "N ! y = c_next c ! y" if "y \<in> set ys" for y
      using that split last_in_set[of as]
      by (cases "y = x"; cases "y = last as") (auto simp: N_def N1_def)
    with ys(1) have "seg (\<lambda>i. N ! i) (c_buckets c ! b') ys (-1)" using seg_cong by (metis (no_types, lifting))
    with False ys x show ?thesis
      by (intro exI[of _ ys]) (auto simp: B_def in_bucket_def b_def)
  qed
  then have "hash_chains (c\<lparr>c_next := N, c_buckets := B\<rparr>) (S - {x})" by (rule chains_links)
  moreover have "shape (c\<lparr>c_next := N, c_buckets := B\<rparr>)"
    by (rule shape_links[OF sh]) (simp_all add: N_def N1_def B_def)
  ultimately show ?thesis using r by blast
qed

end
