(* ===== verification/Cache_Rep.thy ===== *)
theory Cache_Rep
  imports Cache_Lists
begin

text \<open>
  The representation invariant of the block cache (\<open>rep\<close>): the LRU list, the free list and the
  hash chains agree with each other and with the \<open>valid\<close> flags, no sector is cached twice, and
  every buffer has the size of a sector.  It is preserved by looking up, touching, evicting and
  installing an entry, and each of these does to the list of cached sectors (\<open>contents\<close>, the most
  recently used first) what an LRU cache should do.
\<close>

section \<open>The invariant\<close>

definition env_ok :: "'m odfs_cache \<Rightarrow> bool" where
  "env_ok c \<longleftrightarrow> c_sector_size c = 2 ^ c_sector_shift c \<and> c_sector_size c < 2 ^ 32 \<and> c_capacity c < 2 ^ 31
     \<and> (\<forall>b. c_stream_buf c = Some b \<longrightarrow> length b = ODFS_CACHE_READAHEAD * c_sector_size c)"

text \<open>
  The entries are split into those in the LRU list (valid, indexed), those in the free list, and
  those being moved from one to the other (\<open>D\<close>, at most one, in the middle of an operation).
\<close>

definition rep :: "'m odfs_cache \<Rightarrow> nat list \<Rightarrow> nat list \<Rightarrow> nat list \<Rightarrow> bool" where
  "rep c D lru free \<longleftrightarrow> shape c \<and> env_ok c \<and> distinct (D @ lru @ free) \<and> set (D @ lru @ free) = {..<c_capacity c}
     \<and> c_valid_count c = length lru + length D
     \<and> dll (nxs (c_entries c)) (pvs (c_entries c)) (c_lru_head c) (c_lru_tail c) lru
     \<and> seg (nxs (c_entries c)) (c_free_head c) free (-1)
     \<and> hash_chains c (set lru)
     \<and> (\<forall>i < c_capacity c. i \<notin> set D \<longrightarrow> (e_valid (c_entries c ! i) \<longleftrightarrow> i \<in> set lru))
     \<and> inj_on (\<lambda>i. e_lba (c_entries c ! i)) (set lru)
     \<and> (\<forall>i < c_capacity c. length (e_data (c_entries c ! i)) = c_sector_size c)"

lemma rep_count:
  assumes "rep c [] lru free"
  shows "length lru + length free = c_capacity c"
  using assms distinct_card[of "lru @ free"] by (auto simp: rep_def)

text \<open>The cached sectors, the most recently used first.\<close>

definition contents :: "'m odfs_cache \<Rightarrow> nat list \<Rightarrow> (u32 \<times> u8 list) list" where
  "contents c lru = map (\<lambda>i. (e_lba (c_entries c ! i), e_data (c_entries c ! i))) lru"

lemma contents_fst: "fst ` set (contents c xs) = (\<lambda>i. e_lba (c_entries c ! i)) ` set xs"
  by (simp add: contents_def image_image)

text \<open>What the operations on the index structures leave alone.\<close>

definition same_env :: "'m odfs_cache \<Rightarrow> 'm odfs_cache \<Rightarrow> bool" where
  "same_env c c' \<longleftrightarrow> c_capacity c' = c_capacity c \<and> c_sector_size c' = c_sector_size c
     \<and> c_sector_shift c' = c_sector_shift c \<and> c_media c' = c_media c \<and> c_stream_buf c' = c_stream_buf c
     \<and> c_last_miss_lba c' = c_last_miss_lba c \<and> c_clock c' = c_clock c"

lemma same_env_refl [simp]: "same_env c c"
  by (simp add: same_env_def)

lemma same_env_trans: "same_env a b \<Longrightarrow> same_env b c \<Longrightarrow> same_env a c"
  by (simp add: same_env_def)

lemma payload_nth:
  assumes "map payload es = map payload es'" "i < length es'"
  shows "e_lba (es ! i) = e_lba (es' ! i)" "e_valid (es ! i) = e_valid (es' ! i)"
    "e_data (es ! i) = e_data (es' ! i)"
proof -
  have "length es = length es'" using assms(1) by (rule map_eq_imp_length_eq)
  then have "payload (es ! i) = payload (es' ! i)" using assms by (metis nth_map)
  then show "e_lba (es ! i) = e_lba (es' ! i)" "e_valid (es ! i) = e_valid (es' ! i)"
    "e_data (es ! i) = e_data (es' ! i)" by (simp_all add: payload_def)
qed

lemma chains_cong:
  assumes "hash_chains c S" "c_next c' = c_next c" "c_buckets c' = c_buckets c" "c_hash_size c' = c_hash_size c"
    "\<And>i. i \<in> S \<Longrightarrow> e_lba (c_entries c' ! i) = e_lba (c_entries c ! i)"
  shows "hash_chains c' S"
proof -
  have "in_bucket c' S b = in_bucket c S b" for b
    using assms by (auto simp: in_bucket_def cache_hash_lba_def)
  with assms show ?thesis by (simp add: hash_chains_def)
qed

text \<open>Rearranging the LRU list only.\<close>

lemma rep_relink:
  assumes r: "rep c D lru free" and p: "map payload es = map payload (c_entries c)"
    and d: "dll (nxs es) (pvs es) h t lru'" and m: "set lru' = set lru" "length lru' = length lru" "distinct lru'"
    and fr: "\<And>i. i \<notin> set lru \<Longrightarrow> es ! i = c_entries c ! i"
  shows "rep (c\<lparr>c_entries := es, c_lru_head := h, c_lru_tail := t\<rparr>) D lru' free"
proof -
  let ?c = "c\<lparr>c_entries := es, c_lru_head := h, c_lru_tail := t\<rparr>"
  have len: "length es = length (c_entries c)" using p by (rule map_eq_imp_length_eq)
  have cap: "length (c_entries c) = c_capacity c" using r by (simp add: rep_def shape_def)
  have lt: "i < c_capacity c" if "i \<in> set lru" for i using r that by (auto simp: rep_def)
  note pn = payload_nth[OF p]
  have "hash_chains ?c (set lru)"
    by (rule chains_cong[of c]) (use r pn lt cap in \<open>auto simp: rep_def\<close>)
  moreover have "seg (nxs es) (c_free_head c) free (-1)"
  proof -
    have "es ! i = c_entries c ! i" if "i \<in> set free" for i using that r fr by (auto simp: rep_def)
    then show ?thesis using r seg_cong[of free "nxs es" "nxs (c_entries c)"] by (simp add: rep_def)
  qed
  moreover have "inj_on (\<lambda>i. e_lba (es ! i)) (set lru)"
    using r lt cap pn(1) by (simp add: rep_def inj_on_def)
  ultimately show ?thesis using r d m len cap pn
    by (auto simp: rep_def shape_def env_ok_def)
qed

lemma contents_relink:
  assumes "map payload es = map payload (c_entries c)" "\<And>i. i \<in> set xs \<Longrightarrow> i < length (c_entries c)"
  shows "contents (c\<lparr>c_entries := es, c_lru_head := h, c_lru_tail := t\<rparr>) xs = contents c xs"
  using assms payload_nth[OF assms(1)] by (simp add: contents_def)

lemma rep_lt: "rep c D lru free \<Longrightarrow> i \<in> set D \<union> set lru \<union> set free \<Longrightarrow> i < length (c_entries c)"
  by (auto simp: rep_def shape_def)

lemma make_mru_spec:
  assumes r: "rep c [] (as @ x # bs) free"
  shows "\<exists>c'. cache_lru_make_mru c (int x) = Some c' \<and> rep c' [] (x # as @ bs) free \<and> same_env c c'
    \<and> contents c' (x # as @ bs) = contents c (x # as @ bs)"
proof (cases "as = []")
  case True
  then have "c_lru_head c = int x" using r dll_ends by (force simp: rep_def)
  with True r show ?thesis by (simp add: cache_lru_make_mru_def)
next
  case False
  have dl: "dll (nxs (c_entries c)) (pvs (c_entries c)) (c_lru_head c) (c_lru_tail c) (as @ x # bs)"
    and dist: "distinct (as @ x # bs)" and cap: "c_capacity c = length (c_entries c)"
    using r by (auto simp: rep_def shape_def)
  have lt: "i < length (c_entries c)" if "i \<in> set (as @ x # bs)" for i using rep_lt[OF r] that by auto
  have hd: "c_lru_head c \<noteq> int x" using dll_ends[OF dl] False dist by (cases as) auto
  obtain es h t where 1: "cache_lru_remove c (int x) = Some (c\<lparr>c_entries := es, c_lru_head := h, c_lru_tail := t\<rparr>)"
    "dll (nxs es) (pvs es) h t (as @ bs)" "map payload es = map payload (c_entries c)"
    "\<forall>i. i \<notin> set (as @ x # bs) \<longrightarrow> es ! i = c_entries c ! i"
    using cache_lru_remove_spec[OF dl dist lt cap] by blast
  define c1 where "c1 = c\<lparr>c_entries := es, c_lru_head := h, c_lru_tail := t\<rparr>"
  have len: "length es = length (c_entries c)" using 1(3) by (rule map_eq_imp_length_eq)
  have "\<exists>es h t. cache_lru_insert_head c1 (int x) = Some (c1\<lparr>c_entries := es, c_lru_head := h, c_lru_tail := t\<rparr>)
    \<and> dll (nxs es) (pvs es) h t (x # as @ bs) \<and> map payload es = map payload (c_entries c1)
    \<and> (\<forall>i. i \<notin> set (x # as @ bs) \<longrightarrow> es ! i = c_entries c1 ! i)"
    by (rule cache_lru_insert_head_spec) (use 1 dist lt cap len in \<open>auto simp: c1_def\<close>)
  then obtain es' h' t' where 2: "cache_lru_insert_head c1 (int x) = Some (c1\<lparr>c_entries := es', c_lru_head := h', c_lru_tail := t'\<rparr>)"
    "dll (nxs es') (pvs es') h' t' (x # as @ bs)" "map payload es' = map payload es"
    "\<forall>i. i \<notin> set (x # as @ bs) \<longrightarrow> es' ! i = es ! i"
    unfolding c1_def by auto
  let ?c = "c\<lparr>c_entries := es', c_lru_head := h', c_lru_tail := t'\<rparr>"
  have "cache_lru_make_mru c (int x) = Some ?c"
    using 1(1) 2(1) hd by (simp add: cache_lru_make_mru_def c1_def)
  moreover have "rep ?c [] (x # as @ bs) free"
    by (rule rep_relink[OF r]) (use 1 2 dist in auto)
  moreover have "contents ?c (x # as @ bs) = contents c (x # as @ bs)"
    by (rule contents_relink) (use 1 2 lt in auto)
  ultimately show ?thesis by (auto simp: same_env_def)
qed

section \<open>Installing a sector\<close>

lemma rep_valid: "rep c [] lru free \<Longrightarrow> i \<in> set lru \<Longrightarrow> i < c_capacity c \<and> e_valid (c_entries c ! i)"
  by (auto simp: rep_def)

lemma find_cases:
  assumes "rep c [] lru free"
  obtains (hit) i where "cache_find_index c l = Some (int i)" "i \<in> set lru" "e_lba (c_entries c ! i) = l"
  | (miss) "cache_find_index c l = Some (-1)" "l \<notin> fst ` set (contents c lru)"
proof (rule cache_find_index_cases[of c "set lru" l])
  show "hash_chains c (set lru)" "shape c" using assms by (simp_all add: rep_def)
  show "i < c_capacity c \<and> e_valid (c_entries c ! i)" if "i \<in> set lru" for i using rep_valid[OF assms that] .
qed (use that in \<open>auto simp: contents_def image_iff\<close>)

text \<open>The victim of an install: the first free entry, or the least recently used one.  The lists
  without it are \<open>lru'\<close> and \<open>free'\<close>.\<close>

definition victim :: "nat list \<Rightarrow> nat list \<Rightarrow> nat \<Rightarrow> nat list \<Rightarrow> nat list \<Rightarrow> bool" where
  "victim lru free v lru' free' \<longleftrightarrow> (free = v # free' \<and> lru' = lru) \<or> (free = [] \<and> free' = [] \<and> lru = lru' @ [v])"

lemma reserve_spec:
  assumes r: "rep c [] lru free"
  obtains v lru' free' where "victim lru free v lru' free'" "cache_reserve c = int v" "v < c_capacity c"
proof (cases free)
  case (Cons v free')
  note rep_count[OF r]
  with r Cons have "c_valid_count c < c_capacity c" "c_free_head c = int v" "v < c_capacity c"
    by (auto simp: rep_def)
  with that[of v lru free'] Cons show ?thesis by (simp add: victim_def cache_reserve_def Let_def)
next
  case Nil
  with r have "length lru = c_capacity c" "0 < c_capacity c"
    using distinct_card[of lru] by (auto simp: rep_def shape_def)
  then obtain lru' v where l: "lru = lru' @ [v]" by (metis length_greater_0_conv rev_exhaust)
  have "c_lru_tail c = int v"
    using r dll_ends[of "nxs (c_entries c)" "pvs (c_entries c)" "c_lru_head c" "c_lru_tail c" lru]
    by (simp add: rep_def l)
  moreover have "v < c_capacity c" "\<not> c_valid_count c < c_capacity c"
    using r l \<open>length lru = c_capacity c\<close> by (auto simp: rep_def)
  ultimately show ?thesis using Nil l by (intro that[of v lru' "[]"]) (simp_all add: victim_def cache_reserve_def Let_def)
qed

text \<open>The tail of \<open>cache_commit\<close>, once the victim is detached.\<close>

definition commit_tail :: "'m odfs_cache \<Rightarrow> int \<Rightarrow> u32 \<Rightarrow> (int \<times> 'm odfs_cache) option" where
  "commit_tail c v l = do {
       c \<leftarrow> ent_upd (\<lambda>e. e\<lparr>e_lba := l, e_age := c_clock c, e_valid := True\<rparr>) v c;
       c \<leftarrow> cache_insert_index c v;
       c \<leftarrow> cache_lru_insert_head c v;
       Some (v,
         if of_nat (c_valid_count c) > st_max_used (c_stats c)
         then c\<lparr>c_stats := (c_stats c)\<lparr>st_max_used := of_nat (c_valid_count c)\<rparr>\<rparr> else c) }"

lemma rep_stats [simp]:
  "rep (c\<lparr>c_stats := x\<rparr>) D lru free = rep c D lru free"
  "rep (c\<lparr>c_generation := g\<rparr>) D lru free = rep c D lru free"
  "rep (c\<lparr>c_last_miss_lba := l\<rparr>) D lru free = rep c D lru free"
  "rep (c\<lparr>c_media := m\<rparr>) D lru free = rep c D lru free"
  "rep (c\<lparr>c_clock := k\<rparr>) D lru free = rep c D lru free"
  by (simp_all add: rep_def shape_def env_ok_def hash_chains_def in_bucket_def cache_hash_lba_def)

lemma contents_stats [simp]:
  "contents (c\<lparr>c_stats := x\<rparr>) lru = contents c lru"
  "contents (c\<lparr>c_generation := g\<rparr>) lru = contents c lru"
  "contents (c\<lparr>c_last_miss_lba := l\<rparr>) lru = contents c lru"
  "contents (c\<lparr>c_media := m\<rparr>) lru = contents c lru"
  "contents (c\<lparr>c_stream_buf := b\<rparr>) lru = contents c lru"
  "contents (c\<lparr>c_clock := k\<rparr>) lru = contents c lru"
  by (simp_all add: contents_def)

lemma commit_tail_spec:
  assumes r: "rep c [v] lru free" and l: "l \<notin> fst ` set (contents c lru)"
  shows "\<exists>c'. commit_tail c (int v) l = Some (int v, c') \<and> rep c' [] (v # lru) free \<and> same_env c c'
    \<and> contents c' (v # lru) = (l, e_data (c_entries c ! v)) # contents c lru"
proof -
  have vl: "v < length (c_entries c)" "v < c_capacity c" and dist: "distinct (v # lru @ free)"
    using r by (auto simp: rep_def shape_def)
  have lt: "i < c_capacity c" if "i \<in> set lru" for i using r that by (auto simp: rep_def)
  have cap: "length (c_entries c) = c_capacity c" using r by (auto simp: rep_def shape_def)
  define c1 where "c1 = c\<lparr>c_entries := (c_entries c)[v := (c_entries c ! v)\<lparr>e_lba := l, e_age := c_clock c, e_valid := True\<rparr>]\<rparr>"
  have s1: "ent_upd (\<lambda>e. e\<lparr>e_lba := l, e_age := c_clock c, e_valid := True\<rparr>) (int v) c = Some c1"
    using vl by (simp add: ent_upd_int c1_def)
  have same: "c_entries c1 ! i = c_entries c ! i" if "i \<noteq> v" for i using that by (simp add: c1_def)
  have ch1: "hash_chains c1 (set lru)"
  proof (rule chains_cong[of c])
    show "e_lba (c_entries c1 ! i) = e_lba (c_entries c ! i)" if "i \<in> set lru" for i
      using that same[of i] dist by (cases "i = v") auto
  qed (use r in \<open>simp_all add: rep_def c1_def\<close>)
  have sh1: "shape c1" using r by (auto simp: rep_def shape_def c1_def)
  obtain N B where 2: "cache_insert_index c1 (int v) = Some (c1\<lparr>c_next := N, c_buckets := B\<rparr>)"
    "shape (c1\<lparr>c_next := N, c_buckets := B\<rparr>)" "hash_chains (c1\<lparr>c_next := N, c_buckets := B\<rparr>) (insert v (set lru))"
    using cache_insert_index_spec[OF ch1 sh1, of v] dist vl by (auto simp: c1_def)
  define c2 where "c2 = c1\<lparr>c_next := N, c_buckets := B\<rparr>"
  have e2: "c_entries c2 = c_entries c1" "c_lru_head c2 = c_lru_head c" "c_lru_tail c2 = c_lru_tail c"
    "c_capacity c2 = c_capacity c" "c_free_head c2 = c_free_head c" by (simp_all add: c2_def c1_def)
  have d2: "dll (nxs (c_entries c2)) (pvs (c_entries c2)) (c_lru_head c2) (c_lru_tail c2) lru"
  proof -
    have "dll (nxs (c_entries c)) (pvs (c_entries c)) (c_lru_head c) (c_lru_tail c) lru" using r by (simp add: rep_def)
    moreover have "c_entries c1 ! i = c_entries c ! i" if "i \<in> set lru" for i using that same dist by (cases "i = v") auto
    ultimately show ?thesis
      using dll_cong[of lru "nxs (c_entries c2)" "nxs (c_entries c)" "pvs (c_entries c2)" "pvs (c_entries c)"] e2 by simp
  qed
  have "\<exists>es h t. cache_lru_insert_head c2 (int v) = Some (c2\<lparr>c_entries := es, c_lru_head := h, c_lru_tail := t\<rparr>)
    \<and> dll (nxs es) (pvs es) h t (v # lru) \<and> map payload es = map payload (c_entries c2)
    \<and> (\<forall>i. i \<notin> set (v # lru) \<longrightarrow> es ! i = c_entries c2 ! i)"
    by (rule cache_lru_insert_head_spec[OF d2]) (use dist lt vl cap e2 in \<open>auto simp: c1_def\<close>)
  then obtain es h t where 3: "cache_lru_insert_head c2 (int v) = Some (c2\<lparr>c_entries := es, c_lru_head := h, c_lru_tail := t\<rparr>)"
    "dll (nxs es) (pvs es) h t (v # lru)" "map payload es = map payload (c_entries c1)"
    "\<forall>i. i \<notin> set (v # lru) \<longrightarrow> es ! i = c_entries c1 ! i" unfolding e2 by auto
  define c3 where "c3 = c2\<lparr>c_entries := es, c_lru_head := h, c_lru_tail := t\<rparr>"
  define c4 where "c4 = (if of_nat (c_valid_count c3) > st_max_used (c_stats c3)
    then c3\<lparr>c_stats := (c_stats c3)\<lparr>st_max_used := of_nat (c_valid_count c3)\<rparr>\<rparr> else c3)"
  have res: "commit_tail c (int v) l = Some (int v, c4)"
    using s1 2(1) 3(1) by (simp add: commit_tail_def c2_def[symmetric] c4_def c3_def del: of_nat_less_iff)
  note pn = payload_nth[OF 3(3)]
  have len: "length es = c_capacity c" using map_eq_imp_length_eq[OF 3(3)] cap by (simp add: c1_def)
  have p: "e_lba (es ! i) = (if i = v then l else e_lba (c_entries c ! i))"
    "e_valid (es ! i) = (if i = v then True else e_valid (c_entries c ! i))"
    "e_data (es ! i) = e_data (c_entries c ! i)" if "i < c_capacity c" for i
    using pn[of i] that cap vl by (auto simp: c1_def nth_list_update)
  have ch3: "hash_chains c3 (set (v # lru))"
  proof (rule chains_cong[of c2])
    show "hash_chains c2 (set (v # lru))" using 2(3) by (simp add: c2_def)
    show "e_lba (c_entries c3 ! i) = e_lba (c_entries c2 ! i)" if "i \<in> set (v # lru)" for i
      using that p[of i] lt vl e2 same cap by (auto simp: c3_def c1_def nth_list_update)
  qed (simp_all add: c3_def)
  have sg: "seg (nxs es) (c_free_head c) free (-1)"
  proof -
    have "es ! i = c_entries c ! i" if "i \<in> set free" for i using that 3(4) same dist by (cases "i = v") auto
    then show ?thesis using r seg_cong[of free "nxs es" "nxs (c_entries c)"] by (simp add: rep_def)
  qed
  have "l \<noteq> e_lba (c_entries c ! i)" if "i \<in> set lru" for i using that l by (auto simp: contents_fst)
  then have inj: "inj_on (\<lambda>i. e_lba (es ! i)) (set (v # lru))"
    using r lt vl p dist by (auto simp: rep_def inj_on_def)
  have "rep c3 [] (v # lru) free"
    unfolding rep_def
  proof (intro conjI)
    show "shape c3" using 2(2) len by (simp add: shape_def c3_def c2_def c1_def)
    show "env_ok c3" using r by (simp add: rep_def env_ok_def c3_def c2_def c1_def)
    show "set ([] @ (v # lru) @ free) = {..<c_capacity c3}" using r by (auto simp: rep_def c3_def c2_def c1_def)
    show "c_valid_count c3 = length (v # lru) + length []" using r by (auto simp: rep_def c3_def c2_def c1_def)
    show "dll (nxs (c_entries c3)) (pvs (c_entries c3)) (c_lru_head c3) (c_lru_tail c3) (v # lru)"
      using 3(2) by (simp add: c3_def)
    show "seg (nxs (c_entries c3)) (c_free_head c3) free (-1)" using sg by (simp add: c3_def e2)
    show "\<forall>i<c_capacity c3. i \<notin> set [] \<longrightarrow> e_valid (c_entries c3 ! i) = (i \<in> set (v # lru))"
      using r p vl by (auto simp: rep_def c3_def e2)
    show "\<forall>i<c_capacity c3. length (e_data (c_entries c3 ! i)) = c_sector_size c3"
      using r p by (auto simp: rep_def c3_def c2_def c1_def)
  qed (use dist ch3 inj in \<open>auto simp: c3_def\<close>)
  moreover have "contents c3 (v # lru) = (l, e_data (c_entries c ! v)) # contents c lru"
    using p lt vl dist by (auto simp: contents_def c3_def)
  moreover have "same_env c c4" by (simp add: same_env_def c4_def c3_def c2_def c1_def)
  ultimately show ?thesis using res by (auto simp: c4_def)
qed

text \<open>Taking the first free entry, and unlinking a valid one.\<close>

lemma pop_free_spec:
  assumes r: "rep c [] lru (v # free)"
  shows "\<exists>c'. cache_pop_free c = Some (int v, c') \<and> rep (c'\<lparr>c_valid_count := c_valid_count c' + 1\<rparr>) [v] lru free
    \<and> same_env c c' \<and> contents c' lru = contents c lru \<and> e_data (c_entries c' ! v) = e_data (c_entries c ! v)"
proof -
  have vl: "v < length (c_entries c)" and cap: "length (c_entries c) = c_capacity c" and ne: "c_entries c \<noteq> []"
    and fh: "c_free_head c = int v" and dist: "distinct (v # lru @ free)" and vl': "v < c_capacity c"
    using r by (auto simp: rep_def shape_def)
  define es where "es = (c_entries c)[v := (c_entries c ! v)\<lparr>e_next := -1, e_prev := -1\<rparr>]"
  define c1 where "c1 = c\<lparr>c_free_head := e_next (c_entries c ! v), c_entries := es\<rparr>"
  have pf: "cache_pop_free c = Some (int v, c1)"
    using vl ne fh by (simp add: cache_pop_free_def ent_upd_int c1_def es_def)
  have same: "es ! i = c_entries c ! i" if "i \<in> set lru \<union> set free" for i
    using that dist by (cases "i = v") (auto simp: es_def)
  have mp: "map payload es = map payload (c_entries c)" unfolding es_def by (rule map_payload_upd) (simp_all add: vl)
  have seg: "seg (nxs es) (e_next (c_entries c ! v)) free (-1)"
    using r same seg_cong[of free "nxs es" "nxs (c_entries c)"] by (simp add: rep_def)
  have dll: "dll (nxs es) (pvs es) (c_lru_head c) (c_lru_tail c) lru"
    using r same dll_cong[of lru "nxs es" "nxs (c_entries c)" "pvs es" "pvs (c_entries c)"] by (simp add: rep_def)
  have ch: "hash_chains (c1\<lparr>c_valid_count := c_valid_count c1 + 1\<rparr>) (set lru)"
    by (rule chains_cong[of c]) (use r same in \<open>auto simp: rep_def c1_def\<close>)
  have p: "e_valid (es ! i) = e_valid (c_entries c ! i)" "e_data (es ! i) = e_data (c_entries c ! i)"
    if "i < c_capacity c" for i using payload_nth[OF mp, of i] that cap by auto
  have "length es = c_capacity c" by (simp add: es_def cap)
  then have "rep (c1\<lparr>c_valid_count := c_valid_count c1 + 1\<rparr>) [v] lru free"
    using r seg dll ch p same by (auto simp: rep_def c1_def shape_def env_ok_def inj_on_def)
  moreover have "contents c1 lru = contents c lru" using same by (simp add: contents_def c1_def)
  moreover have "same_env c c1" by (simp add: same_env_def c1_def)
  moreover have "e_data (c_entries c1 ! v) = e_data (c_entries c ! v)" using p(2)[OF vl'] by (simp add: c1_def)
  ultimately show ?thesis using pf by blast
qed

lemma unlink_spec:
  assumes r: "rep c [] (as @ v # bs) free"
  shows "\<exists>c1 c2. cache_remove_index c (int v) = Some c1 \<and> cache_lru_remove c1 (int v) = Some c2
    \<and> rep c2 [v] (as @ bs) free \<and> same_env c c2 \<and> contents c2 (as @ bs) = contents c (as @ bs)
    \<and> e_data (c_entries c2 ! v) = e_data (c_entries c ! v)"
proof -
  let ?lru = "as @ v # bs"
  have dist: "distinct (?lru @ free)" and cap: "length (c_entries c) = c_capacity c" and sh: "shape c"
    and ch: "hash_chains c (set ?lru)" using r by (auto simp: rep_def shape_def)
  have dl: "dll (nxs (c_entries c)) (pvs (c_entries c)) (c_lru_head c) (c_lru_tail c) ?lru"
    using r by (simp add: rep_def)
  have lt: "i < c_capacity c" if "i \<in> set ?lru" for i using r that by (auto simp: rep_def)
  obtain N B where 1: "cache_remove_index c (int v) = Some (c\<lparr>c_next := N, c_buckets := B\<rparr>)"
    "shape (c\<lparr>c_next := N, c_buckets := B\<rparr>)" "hash_chains (c\<lparr>c_next := N, c_buckets := B\<rparr>) (set ?lru - {v})"
    using cache_remove_index_spec[OF ch sh, of v] lt by auto
  define c1 where "c1 = c\<lparr>c_next := N, c_buckets := B\<rparr>"
  have "\<exists>es h t. cache_lru_remove c1 (int v) = Some (c1\<lparr>c_entries := es, c_lru_head := h, c_lru_tail := t\<rparr>)
    \<and> dll (nxs es) (pvs es) h t (as @ bs) \<and> map payload es = map payload (c_entries c1)
    \<and> (\<forall>i. i \<notin> set ?lru \<longrightarrow> es ! i = c_entries c1 ! i)"
    by (rule cache_lru_remove_spec) (use dl dist lt cap in \<open>auto simp: c1_def\<close>)
  then obtain es h t where 2: "cache_lru_remove c1 (int v) = Some (c1\<lparr>c_entries := es, c_lru_head := h, c_lru_tail := t\<rparr>)"
    "dll (nxs es) (pvs es) h t (as @ bs)" "map payload es = map payload (c_entries c)"
    "\<forall>i. i \<notin> set ?lru \<longrightarrow> es ! i = c_entries c ! i" unfolding c1_def by auto
  define c2 where "c2 = c1\<lparr>c_entries := es, c_lru_head := h, c_lru_tail := t\<rparr>"
  have p: "e_lba (es ! i) = e_lba (c_entries c ! i)" "e_valid (es ! i) = e_valid (c_entries c ! i)"
    "e_data (es ! i) = e_data (c_entries c ! i)"
    if "i < c_capacity c" for i using payload_nth[OF 2(3), of i] that cap by auto
  have len: "length es = c_capacity c" using map_eq_imp_length_eq[OF 2(3)] cap by simp
  have seteq: "set ?lru - {v} = set (as @ bs)" using dist by auto
  have ch2: "hash_chains c2 (set (as @ bs))"
    by (rule chains_cong[of c1]) (use 1(3) seteq p lt in \<open>auto simp: c1_def c2_def\<close>)
  have seg: "seg (nxs es) (c_free_head c) free (-1)"
  proof -
    have "es ! i = c_entries c ! i" if "i \<in> set free" for i using that dist 2(4) by auto
    then show ?thesis using r seg_cong[of free "nxs es" "nxs (c_entries c)"] by (simp add: rep_def)
  qed
  have "rep c2 [v] (as @ bs) free"
    unfolding rep_def
  proof (intro conjI)
    show "shape c2" using 1(2) len by (simp add: shape_def c2_def c1_def)
    show "env_ok c2" using r by (simp add: rep_def env_ok_def c2_def c1_def)
    show "inj_on (\<lambda>i. e_lba (c_entries c2 ! i)) (set (as @ bs))"
      using r lt p by (auto simp: rep_def c2_def inj_on_def)
  qed (use r dist 2(2) seg ch2 p in \<open>auto simp: rep_def c2_def c1_def\<close>)
  moreover have "contents c2 (as @ bs) = contents c (as @ bs)" using p lt by (auto simp: contents_def c2_def)
  moreover have "same_env c c2" by (simp add: same_env_def c2_def c1_def)
  moreover have "e_data (c_entries c2 ! v) = e_data (c_entries c ! v)" using p lt by (simp add: c2_def)
  ultimately show ?thesis using 1(1) 2(1) by (auto simp: c1_def[symmetric] c2_def)
qed

lemma contents_append: "contents c (xs @ ys) = contents c xs @ contents c ys"
  by (simp add: contents_def)

lemma commit_spec:
  assumes r: "rep c [] lru free" and v: "victim lru free v lru' free'" and l: "l \<notin> fst ` set (contents c lru')"
  shows "\<exists>c'. cache_commit c (int v) l = Some (int v, c') \<and> rep c' [] (v # lru') free' \<and> same_env c c'
    \<and> contents c' (v # lru') = (l, e_data (c_entries c ! v)) # contents c lru'"
proof -
  have vl: "v < length (c_entries c)" using r v by (auto simp: rep_def shape_def victim_def)
  have "\<exists>c2. rep c2 [v] lru' free' \<and> same_env c c2 \<and> contents c2 lru' = contents c lru'
    \<and> e_data (c_entries c2 ! v) = e_data (c_entries c ! v) \<and> cache_commit c (int v) l = commit_tail c2 (int v) l"
  proof (cases free)
    case (Cons a as)
    then have f: "free = v # free'" "lru' = lru" using v by (auto simp: victim_def)
    then have nv: "\<not> e_valid (c_entries c ! v)" using r by (auto simp: rep_def)
    obtain c1 where 1: "cache_pop_free c = Some (int v, c1)" "rep (c1\<lparr>c_valid_count := c_valid_count c1 + 1\<rparr>) [v] lru free'"
      "same_env c c1" "contents c1 lru = contents c lru" "e_data (c_entries c1 ! v) = e_data (c_entries c ! v)"
      using pop_free_spec r unfolding f by blast
    then show ?thesis using f vl nv
      by (intro exI[of _ "c1\<lparr>c_valid_count := c_valid_count c1 + 1\<rparr>"])
        (simp add: cache_commit_def commit_tail_def same_env_def contents_def)
  next
    case Nil
    then have f: "free' = []" "free = []" "lru = lru' @ [v]" using v by (auto simp: victim_def)
    then have nv: "e_valid (c_entries c ! v)" using r by (auto simp: rep_def)
    obtain c1 c2 where 1: "cache_remove_index c (int v) = Some c1" "cache_lru_remove c1 (int v) = Some c2"
      "rep c2 [v] lru' []" "same_env c c2" "contents c2 lru' = contents c lru'"
      "e_data (c_entries c2 ! v) = e_data (c_entries c ! v)"
      using unlink_spec[of c lru' v "[]" "[]"] r unfolding f by auto
    let ?c = "c2\<lparr>c_stats := (c_stats c2)\<lparr>st_evictions := st_evictions (c_stats c2) + 1\<rparr>, c_generation := c_generation c2 + 1\<rparr>"
    show ?thesis using f vl nv 1 by (intro exI[of _ ?c]) (simp add: cache_commit_def commit_tail_def same_env_def)
  qed
  then obtain c2 where c2: "rep c2 [v] lru' free'" "same_env c c2" "contents c2 lru' = contents c lru'"
    "e_data (c_entries c2 ! v) = e_data (c_entries c ! v)" "cache_commit c (int v) l = commit_tail c2 (int v) l" by blast
  with commit_tail_spec[OF c2(1), of l] l show ?thesis by (auto intro: same_env_trans)
qed

end
