(* ===== verification/Cache_Lru.thy ===== *)
theory Cache_Lru
  imports Cache_Rep
begin

text \<open>
  The block cache refines an LRU cache.  The abstract cache is a list of sectors; \<open>cache_rel\<close> relates
  it to the C structure, and looking up, touching and installing a sector are simulated by
  \<open>map_of\<close>, \<open>lru_touch\<close> and \<open>lru_install\<close>.
\<close>

section \<open>The abstract cache\<close>

text \<open>An LRU cache is the list of its sectors, the most recently used first.\<close>

type_synonym lru_cache = "(u32 \<times> u8 list) list"

definition lru_touch :: "u32 \<Rightarrow> lru_cache \<Rightarrow> lru_cache" where
  "lru_touch l xs = filter (\<lambda>p. fst p = l) xs @ filter (\<lambda>p. fst p \<noteq> l) xs"

definition lru_install :: "nat \<Rightarrow> u32 \<Rightarrow> u8 list \<Rightarrow> lru_cache \<Rightarrow> lru_cache" where
  "lru_install cap l d xs = (l, d) # (if length xs < cap then xs else butlast xs)"

definition cache_rel :: "'m odfs_cache \<Rightarrow> lru_cache \<Rightarrow> bool" where
  "cache_rel c xs \<longleftrightarrow> (\<exists>lru free. rep c [] lru free \<and> xs = contents c lru)"

lemma cache_relE:
  assumes "cache_rel c xs"
  obtains lru free where "rep c [] lru free" "xs = contents c lru"
  using assms unfolding cache_rel_def by blast

lemma cache_rel_simps [simp]:
  "cache_rel (c\<lparr>c_stats := x\<rparr>) xs = cache_rel c xs"
  "cache_rel (c\<lparr>c_generation := g\<rparr>) xs = cache_rel c xs"
  "cache_rel (c\<lparr>c_last_miss_lba := l\<rparr>) xs = cache_rel c xs"
  "cache_rel (c\<lparr>c_media := m\<rparr>) xs = cache_rel c xs"
  "cache_rel (c\<lparr>c_clock := k\<rparr>) xs = cache_rel c xs"
  by (simp_all add: cache_rel_def)

lemma cache_rel_bounds:
  assumes "cache_rel c xs"
  shows "c_entries c \<noteq> []" "env_ok c" "length xs \<le> c_capacity c" "distinct (map fst xs)" "0 < c_sector_size c"
    "\<And>l d. (l, d) \<in> set xs \<Longrightarrow> length d = c_sector_size c"
proof -
  from assms obtain lru free where r: "rep c [] lru free" and xs: "xs = contents c lru" by (rule cache_relE)
  note rep_count[OF r]
  then show "length xs \<le> c_capacity c" by (simp add: xs contents_def)
  show "c_entries c \<noteq> []" "env_ok c" using r by (auto simp: rep_def shape_def)
  then show "0 < c_sector_size c" by (simp add: env_ok_def)
  show "distinct (map fst xs)" using r by (simp add: xs contents_def rep_def distinct_map comp_def)
  show "length d = c_sector_size c" if "(l, d) \<in> set xs" for l d
    using that r rep_valid[OF r] by (auto simp: xs contents_def rep_def)
qed

text \<open>Changing the data or the age of an entry.\<close>

lemma rep_entry:
  assumes r: "rep c D lru free" and v: "v < c_capacity c"
    and e: "e_lba e = e_lba (c_entries c ! v)" "e_prev e = e_prev (c_entries c ! v)"
      "e_next e = e_next (c_entries c ! v)" "e_valid e = e_valid (c_entries c ! v)" "length (e_data e) = c_sector_size c"
  shows "rep (c\<lparr>c_entries := (c_entries c)[v := e]\<rparr>) D lru free"
proof -
  let ?es = "(c_entries c)[v := e]"
  have cap: "length (c_entries c) = c_capacity c" using r by (simp add: rep_def shape_def)
  have f: "nxs ?es i = nxs (c_entries c) i" "pvs ?es i = pvs (c_entries c) i" "e_lba (?es ! i) = e_lba (c_entries c ! i)"
    "e_valid (?es ! i) = e_valid (c_entries c ! i)" for i
    using e v cap by (cases "i = v"; simp)+
  have "hash_chains (c\<lparr>c_entries := ?es\<rparr>) (set lru)"
    by (rule chains_cong[of c]) (use r f in \<open>auto simp: rep_def\<close>)
  then show ?thesis using r f e v cap by (auto simp: rep_def shape_def env_ok_def nth_list_update)
qed

lemma contents_entry:
  assumes "v \<notin> set xs"
  shows "contents (c\<lparr>c_entries := (c_entries c)[v := e]\<rparr>) xs = contents c xs"
proof -
  have "(c_entries c)[v := e] ! x = c_entries c ! x" if "x \<in> set xs" for x
    using that assms by (cases "x = v") auto
  then show ?thesis by (simp add: contents_def)
qed

lemma contents_age:
  "v < length (c_entries c) \<Longrightarrow>
     contents (c\<lparr>c_entries := (c_entries c)[v := (c_entries c ! v)\<lparr>e_age := a\<rparr>]\<rparr>) xs = contents c xs"
  by (auto simp: contents_def nth_list_update)

lemma cache_data_int: "i < length (c_entries c) \<Longrightarrow> cache_data c (int i) = Some (e_data (c_entries c ! i))"
  by (simp add: cache_data_def)

section \<open>Lookup\<close>

lemma find_rel:
  assumes "cache_rel c xs"
  obtains (hit) i d where "cache_find_index c l = Some (int i)" "map_of xs l = Some d" "cache_data c (int i) = Some d"
  | (miss) "cache_find_index c l = Some (-1)" "map_of xs l = None"
proof -
  from assms obtain lru free where r: "rep c [] lru free" and xs: "xs = contents c lru" by (rule cache_relE)
  show thesis
  proof (rule find_cases[OF r, of l])
    fix i assume i: "cache_find_index c l = Some (int i)" "i \<in> set lru" "e_lba (c_entries c ! i) = l"
    have "(l, e_data (c_entries c ! i)) \<in> set xs" using i by (auto simp: xs contents_def)
    then have "map_of xs l = Some (e_data (c_entries c ! i))" using cache_rel_bounds(4)[OF assms] by simp
    moreover have "cache_data c (int i) = Some (e_data (c_entries c ! i))"
      using rep_lt[OF r] i by (simp add: cache_data_int)
    ultimately show thesis using i(1) by (rule hit[rotated])
  next
    assume "cache_find_index c l = Some (-1)" "l \<notin> fst ` set (contents c lru)"
    then show thesis by (intro miss) (simp_all add: xs map_of_eq_None_iff)
  qed
qed

lemma find_rel_miss: "cache_rel c xs \<Longrightarrow> cache_find_index c l = Some i \<Longrightarrow> i < 0 \<longleftrightarrow> map_of xs l = None"
  by (rule find_rel[of c xs l]) auto

section \<open>Hits\<close>

definition touch_entry :: "'m odfs_cache \<Rightarrow> int \<Rightarrow> 'm odfs_cache option" where
  "touch_entry c hit = do {
     c \<leftarrow> ent_upd (\<lambda>e. e\<lparr>e_age := c_clock c\<rparr>) hit c;
     cache_lru_make_mru c hit }"

lemma lru_touch_contents:
  assumes "rep c [] (as @ i # bs) free"
  shows "lru_touch (e_lba (c_entries c ! i)) (contents c (as @ i # bs)) = contents c (i # as @ bs)"
proof -
  let ?l = "\<lambda>i. e_lba (c_entries c ! i)"
  have "?l j \<noteq> ?l i" if "j \<in> set (as @ bs)" for j
    using assms that by (auto simp: rep_def inj_on_def)
  then have "filter (\<lambda>j. ?l j = ?l i) as = []" "filter (\<lambda>j. ?l j = ?l i) bs = []"
    "filter (\<lambda>j. ?l j \<noteq> ?l i) as = as" "filter (\<lambda>j. ?l j \<noteq> ?l i) bs = bs"
    by (auto simp: filter_empty_conv filter_id_conv)
  then show ?thesis by (simp add: lru_touch_def contents_def filter_map comp_def)
qed

lemma touch_rel:
  assumes rel: "cache_rel c xs" and hit: "cache_find_index c l = Some (int i)"
  shows "\<exists>c' d. touch_entry c (int i) = Some c' \<and> cache_rel c' (lru_touch l xs) \<and> same_env c c'
    \<and> map_of xs l = Some d \<and> cache_data c' (int i) = Some d"
proof -
  from rel obtain lru free where r: "rep c [] lru free" and xs: "xs = contents c lru" by (rule cache_relE)
  have i: "i \<in> set lru" "e_lba (c_entries c ! i) = l" by (rule find_cases[OF r, of l]; use hit in simp)+
  then obtain as bs where s: "lru = as @ i # bs" by (meson split_list)
  have il: "i < length (c_entries c)" "i < c_capacity c" using rep_lt[OF r] rep_valid[OF r] i by auto
  define c1 where "c1 = c\<lparr>c_entries := (c_entries c)[i := (c_entries c ! i)\<lparr>e_age := c_clock c\<rparr>]\<rparr>"
  have r1: "rep c1 [] (as @ i # bs) free"
    unfolding c1_def s[symmetric] by (rule rep_entry[OF r]) (use il r in \<open>auto simp: rep_def\<close>)
  obtain c' where c': "cache_lru_make_mru c1 (int i) = Some c'" "rep c' [] (i # as @ bs) free" "same_env c1 c'"
    "contents c' (i # as @ bs) = contents c1 (i # as @ bs)" using make_mru_spec[OF r1] by blast
  have con: "contents c1 ys = contents c ys" for ys unfolding c1_def by (rule contents_age[OF il(1)])
  have "contents c' (i # as @ bs) = lru_touch l xs"
    using c'(4) con lru_touch_contents[of c as i bs free] r i xs s by simp
  with c'(2) have "cache_rel c' (lru_touch l xs)" unfolding cache_rel_def by metis
  moreover have "touch_entry c (int i) = Some c'" using il c'(1) by (simp add: touch_entry_def ent_upd_int c1_def)
  moreover have "same_env c c'" using c'(3) by (simp add: same_env_def c1_def)
  moreover have "cache_data c' (int i) = Some (e_data (c_entries c ! i))"
    using c'(4) con[of "[i]"] rep_lt[OF c'(2), of i] by (simp add: contents_def cache_data_int)
  moreover have "map_of xs l = Some (e_data (c_entries c ! i))"
    using cache_rel_bounds(4)[OF rel] i by (auto simp: xs contents_def image_iff)
  ultimately show ?thesis by blast
qed

section \<open>Installs\<close>

lemma victim_contents:
  assumes r: "rep c [] lru free" and v: "victim lru free v lru' free'"
  shows "contents c lru' = (if length (contents c lru) < c_capacity c then contents c lru else butlast (contents c lru))"
    "v \<notin> set lru'" "set lru' \<subseteq> set lru" "v < c_capacity c"
proof -
  note rep_count[OF r]
  with v show "contents c lru' = (if length (contents c lru) < c_capacity c then contents c lru else butlast (contents c lru))"
    by (auto simp: victim_def contents_def butlast_append)
qed (use r v in \<open>auto simp: victim_def rep_def\<close>)

text \<open>Overwriting the data of the victim and committing it: the core of a miss.\<close>

lemma fill_commit_spec:
  assumes r: "rep c [] lru free" and v: "victim lru free v lru' free'" and d: "length d = c_sector_size c"
    and l: "map_of (contents c lru) l = None"
  shows "\<exists>c'. cache_commit (c\<lparr>c_entries := (c_entries c)[v := (c_entries c ! v)\<lparr>e_data := d\<rparr>]\<rparr>) (int v) l = Some (int v, c')
    \<and> cache_rel c' (lru_install (c_capacity c) l d (contents c lru)) \<and> same_env c c' \<and> cache_data c' (int v) = Some d"
proof -
  define c1 where "c1 = c\<lparr>c_entries := (c_entries c)[v := (c_entries c ! v)\<lparr>e_data := d\<rparr>]\<rparr>"
  note vc = victim_contents[OF r v]
  have cap: "length (c_entries c) = c_capacity c" using r by (simp add: rep_def shape_def)
  have r1: "rep c1 [] lru free" unfolding c1_def by (rule rep_entry[OF r]) (use vc d in auto)
  have con: "contents c1 lru' = contents c lru'" unfolding c1_def by (rule contents_entry[OF vc(2)])
  have "l \<notin> fst ` set (contents c lru')" using l vc(3) by (auto simp: contents_fst map_of_eq_None_iff)
  then obtain c' where c': "cache_commit c1 (int v) l = Some (int v, c')" "rep c' [] (v # lru') free'" "same_env c1 c'"
    "contents c' (v # lru') = (l, e_data (c_entries c1 ! v)) # contents c lru'"
    using commit_spec[OF r1 v, of l] con by auto
  have dv: "e_data (c_entries c1 ! v) = d" using vc(4) cap by (simp add: c1_def)
  have "cache_rel c' (lru_install (c_capacity c) l d (contents c lru))"
    unfolding cache_rel_def lru_install_def
    by (intro exI[of _ "v # lru'"] exI[of _ free'] conjI c'(2)) (simp only: c'(4) dv vc(1))
  moreover have "cache_data c' (int v) = Some d"
    using c'(4) dv rep_lt[OF c'(2), of v] by (simp add: contents_def cache_data_int)
  ultimately show ?thesis using c'(1,3) by (auto simp: c1_def same_env_def)
qed

lemma install_rel:
  assumes rel: "cache_rel c xs" and l: "map_of xs l = None" and src: "c_sector_size c \<le> length src"
  shows "\<exists>v c'. cache_install c l src = Some (int v, c') \<and> same_env c c'
    \<and> cache_rel c' (lru_install (c_capacity c) l (take (c_sector_size c) src) xs)
    \<and> cache_data c' (int v) = Some (take (c_sector_size c) src)"
proof -
  let ?d = "take (c_sector_size c) src"
  from rel obtain lru free where r: "rep c [] lru free" and xs: "xs = contents c lru" by (rule cache_relE)
  obtain v lru' free' where v: "victim lru free v lru' free'" "cache_reserve c = int v" "v < c_capacity c"
    by (rule reserve_spec[OF r])
  have vl: "v < length (c_entries c)" "length (e_data (c_entries c ! v)) = c_sector_size c"
    using r v(3) by (auto simp: rep_def shape_def)
  have "cache_install c l src =
      cache_commit (c\<lparr>c_entries := (c_entries c)[v := (c_entries c ! v)\<lparr>e_data := ?d\<rparr>]\<rparr>) (int v) l"
    using v(2) vl src by (simp add: cache_install_def Let_def ent_upd_int rdn_in wrn_def)
  with fill_commit_spec[OF r v(1), of ?d l] l src xs show ?thesis by auto
qed

end
