(* ===== verification/Cache_Read.thy ===== *)
theory Cache_Read
  imports Cache_Lru
begin

text \<open>
  Reading a sector through the block cache, over any medium that satisfies \<open>disc_media\<close>: the
  returned buffer holds the sector of the disc, on a hit, after a single-sector miss and after a
  clustered read-ahead, and the cache stays coherent with the disc (\<open>good_cache\<close>).
\<close>

section \<open>Read-ahead\<close>

fun lru_install_run :: "nat \<Rightarrow> (u32 \<Rightarrow> u8 list) \<Rightarrow> u32 \<Rightarrow> nat \<Rightarrow> lru_cache \<Rightarrow> lru_cache" where
  "lru_install_run cap disc l 0 xs = xs"
| "lru_install_run cap disc l (Suc i) xs =
     lru_install_run cap disc l i (lru_install cap (l + of_nat i) (disc (l + of_nat i)) xs)"

lemma set_lru_install: "set (lru_install cap l d xs) \<subseteq> insert (l, d) (set xs)"
  using in_set_butlastD[of _ xs] by (auto simp: lru_install_def)

lemma set_lru_install_run:
  "set (lru_install_run cap disc l n xs) \<subseteq> set xs \<union> {(k, disc k) |k. True}"
proof (induction n arbitrary: xs)
  case (Suc i)
  from Suc.IH[of "lru_install cap (l + of_nat i) (disc (l + of_nat i)) xs"]
    set_lru_install[of cap "l + of_nat i" "disc (l + of_nat i)" xs] show ?case by auto
qed simp

lemma map_of_lru_install_None:
  "map_of xs k = None \<Longrightarrow> k \<noteq> l \<Longrightarrow> map_of (lru_install cap l d xs) k = None"
  using set_lru_install[of cap l d xs] by (auto simp: map_of_eq_None_iff)

lemma install_run_rel:
  assumes "cache_rel c xs" "\<And>j. j \<le> n \<Longrightarrow> map_of xs (l + of_nat j) = None" "unat l + n < 2 ^ 32"
    "\<And>j. j \<le> n \<Longrightarrow> take (c_sector_size c) (drop (j * c_sector_size c) buf) = disc (l + of_nat j)"
    "Suc n * c_sector_size c \<le> length buf"
  shows "\<exists>v c'. install_run c l buf (Suc n) idx = Some (int v, c') \<and> same_env c c'
    \<and> cache_rel c' (lru_install_run (c_capacity c) disc l (Suc n) xs) \<and> cache_data c' (int v) = Some (disc l)"
  using assms
proof (induction n arbitrary: c xs idx)
  case 0
  from install_rel[OF 0(1) 0(2), of 0 buf] 0 show ?case by fastforce
next
  case (Suc n)
  let ?l = "l + of_nat (Suc n)"
  have src: "c_sector_size c \<le> length (drop (Suc n * c_sector_size c) buf)" using Suc.prems(5) by simp
  from install_rel[OF Suc.prems(1) Suc.prems(2)[of "Suc n"] src] Suc.prems(4)[of "Suc n"] obtain v c1 where
    c1: "cache_install c ?l (drop (Suc n * c_sector_size c) buf) = Some (int v, c1)" "same_env c c1"
      "cache_rel c1 (lru_install (c_capacity c) ?l (disc ?l) xs)" by auto
  have env: "c_sector_size c1 = c_sector_size c" "c_capacity c1 = c_capacity c" using c1(2) by (auto simp: same_env_def)
  have none: "map_of (lru_install (c_capacity c) ?l (disc ?l) xs) (l + of_nat j) = None" if "j \<le> n" for j
  proof (rule map_of_lru_install_None)
    show "map_of xs (l + of_nat j) = None" using Suc.prems(2)[of j] that by simp
    show "l + of_nat j \<noteq> ?l" using u32_add_inj[of l j "Suc n"] that Suc.prems(3) by auto
  qed
  have "\<exists>v' c'. install_run c1 l buf (Suc n) (int v) = Some (int v', c') \<and> same_env c1 c'
    \<and> cache_rel c' (lru_install_run (c_capacity c1) disc l (Suc n) (lru_install (c_capacity c) ?l (disc ?l) xs))
    \<and> cache_data c' (int v') = Some (disc l)"
    by (rule Suc.IH[OF c1(3) none]) (use Suc.prems env in auto)
  then show ?case using c1(1,2) env by (auto intro: same_env_trans simp: install_run.simps(2)[of c l buf "Suc n"] simp del: install_run.simps)
qed

lemma readahead_run_spec:
  assumes "cache_rel c xs" "1 \<le> run" "run \<le> ODFS_CACHE_READAHEAD" "unat l + (run - 1) < 2 ^ 32"
    "\<And>j. 1 \<le> j \<Longrightarrow> j < run \<Longrightarrow> map_of xs (l + of_nat j) = None"
  shows "\<exists>n. readahead_run c l run = Some n \<and> run \<le> n \<and> n \<le> ODFS_CACHE_READAHEAD \<and> unat l + (n - 1) < 2 ^ 32
      \<and> (\<forall>j. 1 \<le> j \<and> j < n \<longrightarrow> map_of xs (l + of_nat j) = None)"
  using assms
proof (induction c l run rule: readahead_run.induct)
  case (1 c l run)
  show ?case
  proof (cases "run < ODFS_CACHE_READAHEAD \<and> l + of_nat run > l")
    case go: True
    then have nw: "unat l + run < 2 ^ 32"
      using u32_plus_gt[of run l] "1.prems"(2) by (simp add: ODFS_CACHE_READAHEAD_def)
    show ?thesis
    proof (rule find_rel[OF "1.prems"(1), of "l + of_nat run"])
      fix i d assume "cache_find_index c (l + of_nat run) = Some (int i)"
      then have "readahead_run c l run = Some run" using go by (simp add: readahead_run.simps[of c l run])
      with "1.prems" show ?thesis by auto
    next
      assume m: "cache_find_index c (l + of_nat run) = Some (-1)" "map_of xs (l + of_nat run) = None"
      then have "readahead_run c l run = readahead_run c l (run + 1)" using go by (simp add: readahead_run.simps[of c l run])
      moreover have "map_of xs (l + of_nat j) = None" if "1 \<le> j" "j < run + 1" for j
        using that m "1.prems"(5)[of j] by (cases "j = run") auto
      ultimately show ?thesis using "1.IH"[OF go m(1) _ "1.prems"(1)] nw go by fastforce
    qed
  next
    case False
    then have "readahead_run c l run = Some run" by (auto simp: readahead_run.simps[of c l run])
    with "1.prems" show ?thesis by auto
  qed
qed

section \<open>Reading through the cache\<close>

lemma take_drop_disc_sectors:
  assumes len: "\<And>l. length (disc l) = ss" and "j < n"
  shows "take ss (drop (j * ss) (disc_sectors disc l n)) = disc (l + of_nat j)"
  using \<open>j < n\<close>
proof (induction n)
  case (Suc n)
  have ln: "length (disc_sectors disc l n) = n * ss" by (rule length_disc_sectors) (rule len)
  show ?case
  proof (cases "j < n")
    case True
    then have "Suc j * ss \<le> n * ss" by (intro mult_le_mono1) simp
    with True Suc.IH ln show ?thesis by (simp add: disc_sectors_Suc)
  next
    case False
    then have "j = n" using Suc.prems by simp
    then show ?thesis using ln len by (simp add: disc_sectors_Suc)
  qed
qed simp

lemma wrn_prefix: "length bs \<le> length buf \<Longrightarrow> wrn buf 0 bs = Some (bs @ drop (length bs) buf)"
  by (simp add: wrn_def)

lemma cache_rel_stream_buf:
  assumes "cache_rel c xs" "length b = ODFS_CACHE_READAHEAD * c_sector_size c"
  shows "cache_rel (c\<lparr>c_stream_buf := Some b\<rparr>) xs"
proof -
  have "rep (c\<lparr>c_stream_buf := Some b\<rparr>) [] lru free" if "rep c [] lru free" for lru free
    using that assms(2) chains_cong[of c "set lru" "c\<lparr>c_stream_buf := Some b\<rparr>"]
    by (auto simp: rep_def shape_def env_ok_def)
  with assms(1) show ?thesis unfolding cache_rel_def by auto
qed

context disc_media
begin

definition good_cache :: "'m odfs_cache \<Rightarrow> lru_cache \<Rightarrow> bool" where
  "good_cache c xs \<longleftrightarrow> cache_rel c xs \<and> (\<exists>m. c_media c = Some m \<and> good_media m) \<and> c_sector_size c = ss
     \<and> (\<forall>l d. (l, d) \<in> set xs \<longrightarrow> d = disc l)"

lemma media_read_into_spec:
  assumes "c_media c = Some m" "good_media m" "pos + unat n * ss \<le> length buf"
  shows "\<exists>e m' bs. media_read_into c l n buf pos =
      Some (e, take pos buf @ bs @ drop (pos + length bs) buf, c\<lparr>c_media := Some m'\<rparr>)
    \<and> good_media m' \<and> length bs \<le> unat n * ss \<and> (e = ODFS_OK \<longrightarrow> bs = disc_sectors disc l (unat n))
    \<and> odfs_media_read m l n = (e, bs, m')"
proof -
  obtain e bs m' where r: "odfs_media_read m l n = (e, bs, m')" by (metis prod_cases3)
  with media_read[OF assms(2) r] assms(1,3) show ?thesis
    by (auto simp: media_read_into_def wrn_def)
qed

lemma cluster_read_spec:
  assumes g: "good_cache c xs" and sb: "c_stream_buf c = Some sbuf" and none: "map_of xs l = None"
  shows "(\<exists>c'. cluster_read c l sbuf = Some (None, c') \<and> good_cache c' xs \<and> c_capacity c' = c_capacity c)
    \<or> (\<exists>v c' n. cluster_read c l sbuf = Some (Some (int v), c') \<and> 1 < n \<and> n \<le> ODFS_CACHE_READAHEAD
        \<and> good_cache c' (lru_install_run (c_capacity c) disc l n xs) \<and> c_capacity c' = c_capacity c
        \<and> cache_data c' (int v) = Some (disc l))"
proof -
  from g obtain m where rel: "cache_rel c xs" and m: "c_media c = Some m" "good_media m" and ssz: "c_sector_size c = ss"
    by (auto simp: good_cache_def)
  have lb: "length sbuf = ODFS_CACHE_READAHEAD * ss" using cache_rel_bounds(2)[OF rel] sb ssz by (simp add: env_ok_def)
  obtain n where n: "readahead_run c l 1 = Some n" "1 \<le> n" "n \<le> ODFS_CACHE_READAHEAD" "unat l + (n - 1) < 2 ^ 32"
    "\<forall>j. 1 \<le> j \<and> j < n \<longrightarrow> map_of xs (l + of_nat j) = None"
    using readahead_run_spec[OF rel, of 1 l] unat_u32_lt[of l] by (auto simp: ODFS_CACHE_READAHEAD_def)
  show ?thesis
  proof (cases "n > 1")
    case False
    with n(1) g show ?thesis by (auto simp: cluster_read_def)
  next
    case True
    have un: "unat (of_nat n :: u32) = n" using n(3) by (simp add: unat_u32_of_nat ODFS_CACHE_READAHEAD_def)
    have "0 + unat (of_nat n :: u32) * ss \<le> length sbuf" using n(3) by (simp add: un lb)
    from media_read_into_spec[OF m this, of l] obtain e m' bs where
      r: "media_read_into c l (of_nat n) sbuf 0 = Some (e, bs @ drop (length bs) sbuf, c\<lparr>c_media := Some m'\<rparr>)"
      "good_media m'" "length bs \<le> n * ss" "e = ODFS_OK \<longrightarrow> bs = disc_sectors disc l n" unfolding un by auto
    define buf where "buf = bs @ drop (length bs) sbuf"
    define c1 where "c1 = c\<lparr>c_media := Some m', c_stream_buf := Some buf\<rparr>"
    have bl: "length bs \<le> length sbuf" using r(3) mult_le_mono1[OF n(3), of ss] lb by linarith
    then have "length buf = ODFS_CACHE_READAHEAD * ss" by (simp add: buf_def lb)
    then have rel1: "cache_rel c1 xs" unfolding c1_def
      by (intro cache_rel_stream_buf) (simp_all add: rel ssz)
    show ?thesis
    proof (cases "e = ODFS_OK")
      case False
      then have "cluster_read c l sbuf = Some (None, c1)"
        using n(1) True r(1) by (simp add: cluster_read_def c1_def buf_def)
      moreover have "good_cache c1 xs" using g rel1 r(2) by (simp add: good_cache_def c1_def)
      ultimately show ?thesis by (simp add: c1_def)
    next
      case ok: True
      have bs: "bs = disc_sectors disc l n" using r(4) ok by simp
      have lbs: "length bs = n * ss" unfolding bs by (rule length_disc_sectors) (rule disc_len)
      obtain k where k: "n = Suc k" using True by (cases n) auto
      have sec: "take ss (drop (j * ss) buf) = disc (l + of_nat j)" if "j \<le> k" for j
      proof -
        have "Suc j * ss \<le> n * ss" using that k by (intro mult_le_mono1) simp
        then have "take ss (drop (j * ss) buf) = take ss (drop (j * ss) bs)" using lbs by (simp add: buf_def)
        then show ?thesis using take_drop_disc_sectors[of disc ss j n l] disc_len that k bs by simp
      qed
      have "\<exists>v c'. install_run c1 l buf (Suc k) (-1) = Some (int v, c') \<and> same_env c1 c'
        \<and> cache_rel c' (lru_install_run (c_capacity c1) disc l (Suc k) xs) \<and> cache_data c' (int v) = Some (disc l)"
      proof (rule install_run_rel[OF rel1])
        show "map_of xs (l + of_nat j) = None" if "j \<le> k" for j using none n(5) that k by (cases "j = 0") auto
        show "unat l + k < 2 ^ 32" using n(4) k by simp
        show "Suc k * c_sector_size c1 \<le> length buf" using lbs k ssz by (simp add: buf_def c1_def)
      qed (use sec ssz in \<open>auto simp: c1_def\<close>)
      then obtain v c' where c': "install_run c1 l buf n (-1) = Some (int v, c')" "same_env c1 c'"
        "cache_rel c' (lru_install_run (c_capacity c) disc l n xs)" "cache_data c' (int v) = Some (disc l)"
        by (auto simp: k c1_def)
      have "cluster_read c l sbuf = Some (Some (int v), c'\<lparr>c_last_miss_lba := l + of_nat n - 1\<rparr>)"
        using n(1) True r(1) ok c'(1) by (simp add: cluster_read_def c1_def buf_def)
      moreover have "good_cache (c'\<lparr>c_last_miss_lba := l + of_nat n - 1\<rparr>) (lru_install_run (c_capacity c) disc l n xs)"
        using g c' r(2) ssz set_lru_install_run[of "c_capacity c" disc l n xs]
        by (auto simp: good_cache_def same_env_def c1_def)
      ultimately show ?thesis using True n(3) c'(2,4) by (auto simp: same_env_def c1_def cache_data_def)
    qed
  qed
qed

text \<open>
  A miss that reads one sector.  When the read fails after storing bytes and the cache is full, the
  least recently used entry has been overwritten; \<open>quiet\<close> excludes this.
\<close>

definition quiet :: "'m odfs_cache \<Rightarrow> lru_cache \<Rightarrow> u32 \<Rightarrow> bool" where
  "quiet c xs l \<longleftrightarrow> length xs < c_capacity c
     \<or> (\<forall>m e bs m'. good_media m \<longrightarrow> odfs_media_read m l 1 = (e, bs, m') \<longrightarrow> e \<noteq> ODFS_OK \<longrightarrow> bs = [])"

lemma single_read_spec:
  assumes g: "good_cache c xs" and none: "map_of xs l = None" and q: "quiet c xs l"
  shows "\<exists>r c'. single_read c l = Some (r, c') \<and> c_capacity c' = c_capacity c \<and>
    (case r of Inl e \<Rightarrow> fails l 1 e \<and> good_cache c' xs
     | Inr idx \<Rightarrow> good_cache c' (lru_install_run (c_capacity c) disc l 1 xs) \<and> cache_data c' idx = Some (disc l))"
proof -
  from g obtain m where rel: "cache_rel c xs" and m: "c_media c = Some m" "good_media m" and ssz: "c_sector_size c = ss"
    and coh: "\<forall>l d. (l, d) \<in> set xs \<longrightarrow> d = disc l" by (auto simp: good_cache_def)
  from rel obtain lru free where r: "rep c [] lru free" and xs: "xs = contents c lru" by (rule cache_relE)
  obtain v lru' free' where v: "victim lru free v lru' free'" "cache_reserve c = int v" "v < c_capacity c"
    by (rule reserve_spec[OF r])
  have vl: "v < length (c_entries c)" "length (e_data (c_entries c ! v)) = ss"
    using r v(3) ssz by (auto simp: rep_def shape_def)
  have "cache_reserve (c\<lparr>c_last_miss_lba := l\<rparr>) = cache_reserve c" by (simp add: cache_reserve_def)
  then have res: "cache_reserve (c\<lparr>c_last_miss_lba := l\<rparr>) = int v" using v(2) by simp
  obtain e m' bs where rd: "media_read_into (c\<lparr>c_last_miss_lba := l\<rparr>) l 1 (e_data (c_entries c ! v)) 0 =
      Some (e, bs @ drop (length bs) (e_data (c_entries c ! v)), c\<lparr>c_last_miss_lba := l, c_media := Some m'\<rparr>)"
    "good_media m'" "length bs \<le> ss" "e = ODFS_OK \<longrightarrow> bs = disc l" "odfs_media_read m l 1 = (e, bs, m')"
    using media_read_into_spec[of "c\<lparr>c_last_miss_lba := l\<rparr>" m 0 1 "e_data (c_entries c ! v)" l] m vl by auto
  define d where "d = bs @ drop (length bs) (e_data (c_entries c ! v))"
  define c1 where "c1 = c\<lparr>c_last_miss_lba := l, c_media := Some m'\<rparr>"
  define c2 where "c2 = c1\<lparr>c_entries := (c_entries c1)[v := (c_entries c1 ! v)\<lparr>e_data := d\<rparr>]\<rparr>"
  have r1: "rep c1 [] lru free" using r by (simp add: c1_def)
  have c1s: "c_entries c1 = c_entries c" "c_capacity c1 = c_capacity c" "c_sector_size c1 = ss" "contents c1 lru = xs"
    using ssz xs by (simp_all add: c1_def)
  have dl: "length d = ss" using vl rd(3) by (simp add: d_def)
  have step: "single_read c l = (if e \<noteq> ODFS_OK then Some (Inl e, c2) else do {
      (i, c) \<leftarrow> cache_commit c2 (int v) l;
      if i < 0 then Some (Inl ODFS_ERR_CORRUPT, c) else Some (Inr (int v), c) })"
    unfolding single_read_def Let_def res using vl rd(1) by (simp add: ent_upd_int c2_def c1_def d_def)
  show ?thesis
  proof (cases "e = ODFS_OK")
    case True
    then have "d = disc l" using rd(4) vl disc_len[of l] by (simp add: d_def)
    with fill_commit_spec[OF r1 v(1), of "disc l" l] c1s dl none obtain c' where
      c': "cache_commit c2 (int v) l = Some (int v, c')" "cache_rel c' (lru_install (c_capacity c) l (disc l) xs)"
        "same_env c1 c'" "cache_data c' (int v) = Some (disc l)" by (auto simp: c2_def)
    have "good_cache c' (lru_install_run (c_capacity c) disc l 1 xs)"
      using c' coh rd(2) c1s set_lru_install[of "c_capacity c" l "disc l" xs]
      by (auto simp: good_cache_def same_env_def c1_def)
    with True step c' c1s show ?thesis by (auto simp: same_env_def)
  next
    case False
    have r2: "rep c2 [] lru free" unfolding c2_def by (rule rep_entry[OF r1]) (use v(3) c1s dl in auto)
    have "contents c2 lru = xs"
    proof (cases "length xs < c_capacity c")
      case True
      then have "v \<notin> set lru"
        using v(1) victim_contents(2)[OF r v(1)] rep_count[OF r] xs by (auto simp: victim_def contents_def)
      then show ?thesis using contents_entry[of v lru c1] c1s by (simp add: c2_def)
    next
      case full: False
      then have "bs = []" using q rd(5) m(2) False by (auto simp: quiet_def)
      then have "d = e_data (c_entries c1 ! v)" by (simp add: d_def c1s)
      then have "c2 = c1" by (simp add: c2_def)
      then show ?thesis using c1s by simp
    qed
    then have "good_cache c2 xs" using r2 coh rd(2) c1s unfolding good_cache_def cache_rel_def
      by (auto simp: c2_def c1_def)
    moreover have "fails l 1 e" using media_fails[OF m(2) rd(5) False] .
    ultimately show ?thesis using False step by (auto simp: c2_def c1_def)
  qed
qed

lemma good_cache_bumps [simp]:
  "good_cache (bump_reads c) xs = good_cache c xs" "good_cache (bump_hits c) xs = good_cache c xs"
  "good_cache (bump_misses c) xs = good_cache c xs" "good_cache (bump_clock c) xs = good_cache c xs"
  by (simp_all add: good_cache_def bump_reads_def bump_hits_def bump_misses_def bump_clock_def)

lemma good_cache_rel: "good_cache c xs \<Longrightarrow> cache_rel c xs"
  by (simp add: good_cache_def)

lemma cache_read_spec:
  assumes g: "good_cache c xs" and q: "quiet c xs l"
  shows "\<exists>r c'. odfs_cache_read c l = Some (r, c') \<and> c_capacity c' = c_capacity c \<and>
    (case r of Inl e \<Rightarrow> fails l 1 e \<and> l \<notin> fst ` set xs \<and> good_cache c' xs
     | Inr idx \<Rightarrow> cache_data c' idx = Some (disc l) \<and>
         (if l \<in> fst ` set xs then good_cache c' (lru_touch l xs)
          else \<exists>n. 1 \<le> n \<and> n \<le> ODFS_CACHE_READAHEAD \<and> good_cache c' (lru_install_run (c_capacity c) disc l n xs)))"
proof -
  define c1 where "c1 = bump_clock (bump_reads c)"
  have g1: "good_cache c1 xs" using g by (simp add: c1_def)
  note rel1 = good_cache_rel[OF g1]
  have ne: "c_entries c \<noteq> []" using cache_rel_bounds(1)[OF good_cache_rel[OF g]] .
  have caps: "c_capacity c1 = c_capacity c" by (simp add: c1_def bump_clock_def bump_reads_def)
  show ?thesis
  proof (rule find_rel[OF rel1, of l])
    fix i d assume hit: "cache_find_index c1 l = Some (int i)" "map_of xs l = Some d"
    then obtain c' where c': "touch_entry c1 (int i) = Some c'" "cache_rel c' (lru_touch l xs)" "same_env c1 c'"
      "cache_data c' (int i) = Some d" using touch_rel[OF rel1 hit(1)] by auto
    have dd: "d = disc l" using g hit(2) map_of_SomeD[of xs l d] by (simp add: good_cache_def)
    have "odfs_cache_read c l = Some (Inr (int i), bump_hits c')"
      using ne hit(1) c'(1) by (auto simp: odfs_cache_read_def c1_def[symmetric] touch_entry_def bind_eq_Some_conv)
    moreover have "good_cache c' (lru_touch l xs)"
      using c'(2,3) g1 by (auto simp: good_cache_def same_env_def lru_touch_def)
    moreover have "l \<in> fst ` set xs" using hit(2) by (metis map_of_eq_None_iff option.distinct(1))
    moreover have "cache_data (bump_hits c') (int i) = Some d" "c_capacity (bump_hits c') = c_capacity c"
      using c'(3,4) caps by (simp_all add: cache_data_def bump_hits_def same_env_def)
    ultimately show ?thesis using dd by simp
  next
    assume miss: "cache_find_index c1 l = Some (-1)" "map_of xs l = None"
    then have nl: "l \<notin> fst ` set xs" by (simp add: map_of_eq_None_iff)
    define c2 where "c2 = bump_misses c1"
    have g2: "good_cache c2 xs" using g1 by (simp add: c2_def)
    have caps2: "c_capacity c2 = c_capacity c" using caps by (simp add: c2_def bump_misses_def)
    define cl where "cl = (case c_stream_buf c2 of
             Some sbuf \<Rightarrow> (if l = c_last_miss_lba c2 + 1 then cluster_read c2 l sbuf else Some (None, c2))
           | None \<Rightarrow> Some (None, c2))"
    have read: "odfs_cache_read c l = do { (r, c) \<leftarrow> cl; case r of Some idx \<Rightarrow> Some (Inr idx, c) | None \<Rightarrow> single_read c l }"
      using ne miss(1) by (simp add: odfs_cache_read_def c1_def[symmetric] c2_def[symmetric] cl_def)
    have single: "?thesis" if c3: "cl = Some (None, c3)" "good_cache c3 xs" "c_capacity c3 = c_capacity c" for c3
    proof -
      have "quiet c3 xs l" using q c3(3) by (simp add: quiet_def)
      from single_read_spec[OF c3(2) miss(2) this] obtain r c' where r: "single_read c3 l = Some (r, c')"
        "c_capacity c' = c_capacity c3"
        "case r of Inl e \<Rightarrow> fails l 1 e \<and> good_cache c' xs
         | Inr idx \<Rightarrow> good_cache c' (lru_install_run (c_capacity c3) disc l 1 xs) \<and> cache_data c' idx = Some (disc l)"
        by blast
      have "odfs_cache_read c l = Some (r, c')" using read c3(1) r(1) by simp
      with r(2,3) c3(3) nl show ?thesis
        by (cases r) (auto simp: ODFS_CACHE_READAHEAD_def intro!: exI[of _ "1::nat"])
    qed
    show ?thesis
    proof (cases "\<exists>sbuf. c_stream_buf c2 = Some sbuf \<and> l = c_last_miss_lba c2 + 1")
      case False
      then have "cl = Some (None, c2)" by (auto simp: cl_def split: option.splits)
      then show ?thesis using single g2 caps2 by blast
    next
      case True
      then obtain sbuf where sb: "c_stream_buf c2 = Some sbuf" and cl: "cl = cluster_read c2 l sbuf"
        by (auto simp: cl_def)
      from cluster_read_spec[OF g2 sb miss(2)] show ?thesis
      proof (elim disjE exE conjE)
        fix c3 assume "cluster_read c2 l sbuf = Some (None, c3)" "good_cache c3 xs" "c_capacity c3 = c_capacity c2"
        then show ?thesis using single cl caps2 by simp
      next
        fix v c3 n assume "cluster_read c2 l sbuf = Some (Some (int v), c3)" "1 < n" "n \<le> ODFS_CACHE_READAHEAD"
          "good_cache c3 (lru_install_run (c_capacity c2) disc l n xs)" "c_capacity c3 = c_capacity c2"
          "cache_data c3 (int v) = Some (disc l)"
        then show ?thesis using read cl nl caps2 by (auto intro!: exI[of _ n])
      qed
    qed
  qed
qed

end

end
