(* ===== verification/Cache_Init.thy ===== *)
theory Cache_Init
  imports Cache_Read
begin

text \<open>
  \<open>odfs_cache_init\<close> and \<open>odfs_cache_flush\<close> build an empty cache that satisfies the representation
  invariant.
\<close>

section \<open>Initialisation\<close>

lemma shift_loop_acc: "shift_loop n k = k + shift_loop n 0"
proof (induction n arbitrary: k rule: less_induct)
  case (less n)
  show ?case
  proof (cases "n > 1")
    case True
    then have h: "shift_loop (n div 2) j = j + shift_loop (n div 2) 0" for j using less[of "n div 2" j] by simp
    have "shift_loop n k = shift_loop (n div 2) (k + 1)" "shift_loop n 0 = shift_loop (n div 2) 1"
      using True by (simp_all add: shift_loop.simps[of n])
    with h[of "k + 1"] h[of 1] show ?thesis by simp
  qed (simp add: shift_loop.simps)
qed

lemma nat_pow2:
  "0 < n \<Longrightarrow> n AND (n - 1) = 0 \<Longrightarrow> n = 2 ^ shift_loop n (0 :: nat)"
proof (induction n rule: less_induct)
  case (less n)
  show ?case
  proof (cases "n = 1")
    case False
    then have n: "n > 1" using less.prems(1) by simp
    have "even n"
    proof (rule ccontr)
      assume "odd n"
      then obtain m where m: "n = Suc (2 * m)" by (auto elim: oddE)
      with n less.prems(2) and_rec[of n "n - 1"] show False by simp
    qed
    then obtain m where m: "n = 2 * m" by auto
    with n have m0: "0 < m" by simp
    then have "n - 1 = Suc (2 * (m - 1))" using m by simp
    with m less.prems(2) and_rec[of n "n - 1"] have "m AND (m - 1) = 0" by simp
    with less.IH[of m] m m0 have "m = 2 ^ shift_loop m 0" by simp
    moreover have "shift_loop n 0 = Suc (shift_loop m 0)"
      using n m shift_loop_acc[of m 1] shift_loop.simps[of n 0] by simp
    ultimately show ?thesis using m by simp
  qed (simp add: shift_loop.simps)
qed

lemma u32_pow2:
  assumes "(s :: u32) \<noteq> 0" "s AND (s - 1) = 0"
  shows "unat s = 2 ^ shift_loop (unat s) 0"
proof (rule nat_pow2)
  show "0 < unat s" using assms(1) by (simp add: unat_gt_0)
  have "unat (s AND (s - 1)) = unat s AND unat (s - 1)" by (simp add: unsigned_and_eq)
  then show "unat s AND (unat s - 1) = 0" using assms by (simp add: unat_minus_one)
qed

lemma seg_upt: "k \<le> n \<Longrightarrow> (\<And>i. k \<le> i \<Longrightarrow> i < n \<Longrightarrow> f i = (if Suc i < n then int (Suc i) else -1)) \<Longrightarrow>
  seg f (if k < n then int k else -1) [k..<n] (-1)"
proof (induction "n - k" arbitrary: k)
  case (Suc d)
  then have "k < n" by simp
  moreover have "seg f (if Suc k < n then int (Suc k) else -1) [Suc k..<n] (-1)"
    by (rule Suc.hyps(1)) (use Suc in auto)
  ultimately show ?case using Suc.prems(2)[of k] by (simp add: upt_conv_Cons)
qed simp

lemma reset_rep:
  assumes "shape c" "env_ok c" "c_valid_count c = 0"
    "\<And>e. e \<in> set (c_entries c) \<Longrightarrow> \<not> e_valid e \<and> length (e_data e) = c_sector_size c"
  shows "cache_rel (cache_reset_indices c) []"
proof -
  let ?c = "cache_reset_indices c"
  have len: "length (c_entries c) = c_capacity c" "0 < c_capacity c" using assms(1) by (auto simp: shape_def)
  have e: "c_entries ?c ! i = (c_entries c ! i)\<lparr>e_prev := -1, e_next := (if i + 1 < c_capacity c then int (i + 1) else -1)\<rparr>"
    if "i < c_capacity c" for i using that len by (simp add: cache_reset_indices_def)
  have "seg (nxs (c_entries ?c)) (if 0 < c_capacity c then int 0 else -1) [0..<c_capacity c] (-1)"
    by (rule seg_upt) (simp_all add: e)
  then have "seg (nxs (c_entries ?c)) (c_free_head ?c) [0..<c_capacity c] (-1)"
    using len by (simp add: cache_reset_indices_def)
  moreover have "hash_chains ?c (set [])"
    using assms(1) by (auto simp: hash_chains_def in_bucket_def cache_reset_indices_def shape_def simp del: replicate.simps)
  moreover have "\<not> e_valid (c_entries ?c ! i) \<and> length (e_data (c_entries ?c ! i)) = c_sector_size c"
    if "i < c_capacity c" for i using assms(4)[of "c_entries c ! i"] that len by (simp add: e)
  ultimately have "rep ?c [] [] [0..<c_capacity c]"
    using assms by (auto simp: rep_def shape_def env_ok_def dll_def cache_reset_indices_def)
  then show ?thesis unfolding cache_rel_def by (intro exI) (auto simp: contents_def)
qed

lemma alloc_entries_spec:
  "alloc_entries uninit ss h i n = (Some es, h') \<Longrightarrow>
     length es = n \<and> (\<forall>e \<in> set es. \<not> e_valid e \<and> length (e_data e) = ss)"
  by (induction n arbitrary: h i es) (auto simp: fresh_buf_def split: prod.splits bool.splits)

lemma alloc_entries_plenty: "\<exists>es. alloc_entries uninit ss heap_plenty i n = (Some es, heap_plenty)"
proof (induction n arbitrary: i)
  case (Suc n)
  from Suc[of "Suc i"] show ?case by (elim exE) simp
qed simp

lemma cache_init_okE:
  assumes "odfs_cache_init uninit h media capacity = (ODFS_OK, c, h')"
  obtains es h1 h2 where "capacity \<noteq> 0" "\<not> capacity > (0xFFFFFFFF - 1) div 2" "odfs_media_sector_size media \<noteq> 0"
    "alloc_entries uninit (unat (odfs_media_sector_size media)) h1 0 (unat capacity) = (Some es, h2)"
    "cache_init_finish uninit h2 media capacity (odfs_media_sector_size media) es = (ODFS_OK, c, h')"
  using assms unfolding odfs_cache_init_def Let_def
  by (auto split: if_splits prod.splits bool.splits option.splits)

lemma u32_hash_size:
  assumes "\<not> (capacity :: u32) > (0xFFFFFFFF - 1) div 2"
  shows "unat (capacity * 2 + 1) = 2 * unat capacity + 1" "unat capacity < 2 ^ 31"
proof -
  have "unat ((0xFFFFFFFF - 1) div 2 :: u32) = 0x7FFFFFFF" by simp
  with assms show *: "unat capacity < 2 ^ 31" by (simp add: not_less word_le_nat_alt)
  have "capacity * 2 + 1 = of_nat (2 * unat capacity + 1)" by simp
  then have "unat (capacity * 2 + 1) = (2 * unat capacity + 1) mod 2 ^ 32" by (simp only: unat_u32_of_nat)
  with * show "unat (capacity * 2 + 1) = 2 * unat capacity + 1" by simp
qed

lemma cache_init_ok_rel:
  assumes "odfs_cache_init uninit h media capacity = (ODFS_OK, c, h')"
  shows "cache_rel c []" "c_media c = Some media" "c_sector_size c = unat (odfs_media_sector_size media)"
    "c_capacity c = unat capacity"
proof -
  let ?s = "odfs_media_sector_size media"
  from assms obtain es h1 h2 where
    cap: "capacity \<noteq> 0" "\<not> capacity > (0xFFFFFFFF - 1) div 2" and s0: "?s \<noteq> 0"
    and al: "alloc_entries uninit (unat ?s) h1 0 (unat capacity) = (Some es, h2)"
    and fin: "cache_init_finish uninit h2 media capacity ?s es = (ODFS_OK, c, h')" by (rule cache_init_okE)
  from fin obtain sb where p2: "?s AND (?s - 1) = 0"
    and sb: "sb = None \<or> sb = Some (fresh_buf uninit (unat capacity) (ODFS_CACHE_READAHEAD * unat ?s))"
    and c: "c = cache_reset_indices (zero_cache\<lparr>c_entries := es, c_buckets := replicate (unat (capacity * 2 + 1)) 0,
                   c_next := replicate (unat capacity) 0, c_capacity := unat capacity,
                   c_hash_size := unat (capacity * 2 + 1), c_sector_size := unat ?s,
                   c_sector_shift := shift_loop (unat ?s) 0, c_media := Some media, c_stream_buf := sb\<rparr>)"
    (is "c = cache_reset_indices ?c0")
    unfolding cache_init_finish_def Let_def
    by (auto simp: zero_cache_def split: if_splits prod.splits)
  note hs = u32_hash_size[OF cap(2)]
  have cap0: "0 < unat capacity" using cap(1) by (simp add: unat_gt_0)
  have "cache_rel (cache_reset_indices ?c0) []"
  proof (rule reset_rep)
    show "shape ?c0" using cap0 hs(1) alloc_entries_spec[OF al] by (simp add: shape_def)
    show "env_ok ?c0" using u32_pow2[OF s0 p2] unat_u32_lt[of ?s] hs(2) sb
      by (auto simp: env_ok_def fresh_buf_def)
  qed (use alloc_entries_spec[OF al] in \<open>auto simp: zero_cache_def\<close>)
  then show "cache_rel c []" using c by simp
  show "c_media c = Some media" "c_sector_size c = unat ?s" "c_capacity c = unat capacity"
    by (simp_all add: c cache_reset_indices_def)
qed

end
