(* ===== verification/Cache_Bytes.thy ===== *)
theory Cache_Bytes
  imports Cache_Init
begin

text \<open>
  \<open>odfs_cache_read_bytes\<close> over a medium whose failed single-sector reads store nothing: the bytes it
  reports are exactly the bytes of the disc at the requested offset, whatever mixture of partial
  sectors, streamed sectors and cached sectors they come from.
\<close>

section \<open>Byte ranges of a disc\<close>

definition disc_byte :: "(u32 \<Rightarrow> u8 list) \<Rightarrow> nat \<Rightarrow> u32 \<Rightarrow> nat \<Rightarrow> u8" where
  "disc_byte disc ss start k = disc (start + of_nat (k div ss)) ! (k mod ss)"

text \<open>The \<open>n\<close> bytes at byte offset \<open>off\<close> of the extent that starts at sector \<open>start\<close>.\<close>

definition disc_range :: "(u32 \<Rightarrow> u8 list) \<Rightarrow> nat \<Rightarrow> u32 \<Rightarrow> nat \<Rightarrow> nat \<Rightarrow> u8 list" where
  "disc_range disc ss start off n = map (\<lambda>k. disc_byte disc ss start (off + k)) [0..<n]"

lemma length_disc_range [simp]: "length (disc_range disc ss start off n) = n"
  by (simp add: disc_range_def)

lemma disc_range_add: "disc_range disc ss start off (m + n) = disc_range disc ss start off m @ disc_range disc ss start (off + m) n"
proof -
  have "map f [m..<m + n] = map (\<lambda>k. f (m + k)) [0..<n]" for f :: "nat \<Rightarrow> u8"
    by (rule nth_equalityI) simp_all
  moreover have "[0..<m + n] = [0..<m] @ [m..<m + n]" by (rule upt_add_eq_append) simp
  ultimately show ?thesis by (simp add: disc_range_def add.assoc)
qed

lemma disc_range_sector:
  assumes "length (disc (start + of_nat q)) = ss" "o' + n \<le> ss" "0 < ss"
  shows "disc_range disc ss start (q * ss + o') n = take n (drop o' (disc (start + of_nat q)))"
proof (rule nth_equalityI)
  fix k assume "k < length (disc_range disc ss start (q * ss + o') n)"
  then have k: "k < n" by simp
  then have "(q * ss + (o' + k)) div ss = q" "(q * ss + (o' + k)) mod ss = o' + k" using assms by auto
  then show "disc_range disc ss start (q * ss + o') n ! k = take n (drop o' (disc (start + of_nat q))) ! k"
    using k assms by (simp add: disc_range_def disc_byte_def add.assoc)
qed (use assms in simp)

lemma disc_range_sectors:
  assumes "\<And>l. length (disc l) = ss" "0 < ss"
  shows "disc_range disc ss start (q * ss) (n * ss) = disc_sectors disc (start + of_nat q) n"
proof (rule nth_equalityI)
  have len: "length (disc_sectors disc (start + of_nat q) n) = n * ss" by (rule length_disc_sectors) (rule assms(1))
  then show "length (disc_range disc ss start (q * ss) (n * ss)) = length (disc_sectors disc (start + of_nat q) n)" by simp
  fix k assume "k < length (disc_range disc ss start (q * ss) (n * ss))"
  then have k: "k < n * ss" by simp
  have "(q * ss + k) div ss = q + k div ss" "(q * ss + k) mod ss = k mod ss" using assms(2) by auto
  then show "disc_range disc ss start (q * ss) (n * ss) ! k = disc_sectors disc (start + of_nat q) n ! k"
    using nth_disc_sectors[OF assms(1) k, where l = "start + of_nat q"] k by (simp add: disc_range_def disc_byte_def add.assoc)
qed

text \<open>A buffer filled with the first \<open>n\<close> bytes of a range, all of them on addressable sectors.\<close>

definition filled :: "(u32 \<Rightarrow> u8 list) \<Rightarrow> nat \<Rightarrow> u32 \<Rightarrow> nat \<Rightarrow> nat \<Rightarrow> u8 list \<Rightarrow> bool" where
  "filled disc ss start off n buf \<longleftrightarrow> n \<le> length buf \<and> take n buf = disc_range disc ss start off n
     \<and> (0 < n \<longrightarrow> unat start + (off + n - 1) div ss < 2 ^ 32)"

lemma filled_step:
  assumes "filled disc ss start off n buf" "bs = disc_range disc ss start (off + n) (length bs)"
    "n + length bs \<le> length buf" "0 < length bs \<longrightarrow> unat start + (off + n + length bs - 1) div ss < 2 ^ 32"
  shows "filled disc ss start off (n + length bs) (take n buf @ bs @ drop (n + length bs) buf)"
  using assms disc_range_add[of disc ss start off n "length bs"]
  by (cases "length bs = 0") (auto simp: filled_def add.assoc)

lemma filled_0 [simp]: "filled disc ss start off 0 buf"
  by (simp add: filled_def disc_range_def)

lemma stream_count_bounds:
  assumes "2 \<le> full" "0 < ss" "ss < 2 ^ 32"
  shows "0 < stream_count full ss l" "stream_count full ss l \<le> full" "unat l + stream_count full ss l \<le> 2 ^ 32"
    "stream_count full ss l < 2 ^ 32"
proof -
  have big: "(0xFFFFFFFF :: nat) \<le> 0xFFFFFFFFFFFFFFFF div ss"
  proof -
    have "0xFFFFFFFF * ss \<le> 0xFFFFFFFF * (0xFFFFFFFF :: nat)" using assms(3) by simp
    also have "\<dots> \<le> 0xFFFFFFFFFFFFFFFF" by simp
    finally show ?thesis using assms(2) by (simp add: less_eq_div_iff_mult_less_eq)
  qed
  define n where "n = (if full < 0xFFFFFFFF then full else 0xFFFFFFFF :: nat)"
  have n: "0 < n" "n \<le> full" "n \<le> 0xFFFFFFFF" using assms(1) by (auto simp: n_def)
  have "stream_count full ss l = (if n > 0xFFFFFFFF - unat l + 1 then 0xFFFFFFFF - unat l + 1 else n)"
    unfolding stream_count_def Let_def n_def[symmetric] using big n by simp
  with n unat_u32_lt[of l] show "0 < stream_count full ss l" "stream_count full ss l \<le> full"
    "unat l + stream_count full ss l \<le> 2 ^ 32" "stream_count full ss l < 2 ^ 32" by (auto split: if_splits)
qed

lemma div_within: "0 < n \<Longrightarrow> n \<le> ss \<Longrightarrow> (q * ss + (n - 1)) div ss = (q :: nat)"
  by (intro div_nat_eqI) (auto simp: mult.commute)

lemma lba64:
  assumes "1 \<le> k"
  shows "unat (ucast (start :: u32) + drop_bit k (offset :: u64) :: u64) = unat start + unat offset div 2 ^ k"
proof -
  have "unat offset div 2 ^ k \<le> unat offset div 2" 
    using power_increasing[OF assms, of "2 :: nat"] by (intro div_le_mono2) simp_all
  moreover have "unat offset div 2 < 2 ^ 63" using unat_u64_lt[of offset] by (simp add: less_mult_imp_div_less)
  ultimately have "unat start + unat offset div 2 ^ k < 2 ^ 64" using unat_u32_lt[of start] by simp
  then show ?thesis unfolding unat_u64_add unat_ucast_u32_u64 unat_u64_drop by simp
qed

lemma sector_off:
  assumes "k < 32"
  shows "unat (ucast (offset :: u64) AND (of_nat (2 ^ k) - 1 :: u32)) = unat offset mod 2 ^ k"
proof -
  have "(of_nat (2 ^ k) - 1 :: u32) = mask k" by (simp add: mask_eq_exp_minus_1)
  then have "ucast offset AND (of_nat (2 ^ k) - 1 :: u32) = take_bit k (ucast offset)" by (simp add: take_bit_eq_mask)
  then have "unat (ucast offset AND (of_nat (2 ^ k) - 1 :: u32)) = take_bit k (unat (ucast offset :: u32))"
    by (simp add: unsigned_take_bit_eq)
  also have "\<dots> = (unat offset mod 2 ^ 32) mod 2 ^ k" by (simp only: unat_ucast_u64_u32 take_bit_eq_mod)
  also have "\<dots> = unat offset mod 2 ^ k" using assms by (intro mod_mod_cancel le_imp_power_dvd) simp
  finally show ?thesis .
qed
context atomic_media
begin

lemma quiet: "quiet c xs l"
  using media_read_atomic by (auto simp: quiet_def)

lemma ss_pos: "good_cache c xs \<Longrightarrow> 0 < ss"
  using cache_rel_bounds(5) by (auto simp: good_cache_def)

lemma cache_read_ok:
  assumes "good_cache c xs"
  obtains (err) e c' where "odfs_cache_read c l = Some (Inl e, c')" "fails l 1 e" "good_cache c' xs"
  | (ok) idx c' xs' where "odfs_cache_read c l = Some (Inr idx, c')" "cache_data c' idx = Some (disc l)" "good_cache c' xs'"
proof -
  from cache_read_spec[OF assms quiet, of l] obtain r c' where r: "odfs_cache_read c l = Some (r, c')"
    "case r of Inl e \<Rightarrow> fails l 1 e \<and> l \<notin> fst ` set xs \<and> good_cache c' xs
     | Inr idx \<Rightarrow> cache_data c' idx = Some (disc l) \<and>
         (if l \<in> fst ` set xs then good_cache c' (lru_touch l xs)
          else \<exists>n. 1 \<le> n \<and> n \<le> ODFS_CACHE_READAHEAD \<and> good_cache c' (lru_install_run (c_capacity c) disc l n xs))"
    by blast
  show thesis
  proof (cases r)
    case (Inl e)
    with r err show thesis by simp
  next
    case (Inr idx)
    with r ok[of idx c'] show thesis by (auto split: if_splits)
  qed
qed

lemma copy_sector_ok:
  assumes g: "good_cache c xs" and o: "o' + n \<le> ss" and b: "pos + n \<le> length buf"
  obtains (err) e c' where "cache_copy_sector c l o' buf pos n = Some (e, buf, c')" "fails l 1 e" "good_cache c' xs"
  | (ok) c' xs' where "good_cache c' xs'" "cache_copy_sector c l o' buf pos n =
      Some (ODFS_OK, take pos buf @ take n (drop o' (disc l)) @ drop (pos + n) buf, c')"
proof (rule cache_read_ok[OF g, of l])
  fix e c' assume "odfs_cache_read c l = Some (Inl e, c')" "fails l 1 e" "good_cache c' xs"
  then show thesis by (intro err) (auto simp: cache_copy_sector_def fails_err)
next
  fix idx c' xs' assume r: "odfs_cache_read c l = Some (Inr idx, c')" "cache_data c' idx = Some (disc l)" "good_cache c' xs'"
  have "rdn (disc l) o' n = Some (take n (drop o' (disc l)))" using o disc_len by (simp add: rdn_in)
  moreover have "length (take n (drop o' (disc l))) = n" using o disc_len by simp
  ultimately show thesis using r b by (intro ok[OF r(3)]) (simp add: cache_copy_sector_def wrn_def)
qed

text \<open>
  The contract of the byte reader.  It stops early, after \<open>n\<close> bytes, for one of two reasons: the
  medium refuses the next sector (or the run of whole sectors that was asked for), or the next
  sector would be number \<open>2 ^ 32\<close>.
\<close>

definition stopped :: "u32 \<Rightarrow> nat \<Rightarrow> nat \<Rightarrow> nat \<Rightarrow> odfs_err \<Rightarrow> bool" where
  "stopped start off want n err \<longleftrightarrow>
     (if n = want then err = ODFS_OK
      else err = ODFS_ERR_RANGE \<and> unat start + (off + n) div ss = 2 ^ 32 \<or>
        (\<exists>k. fails (start + of_nat ((off + n) div ss)) k err \<and> (k = 1 \<or> unat k * ss \<le> want - n)))"

definition bytes_ok :: "u32 \<Rightarrow> nat \<Rightarrow> nat \<Rightarrow> u8 list \<Rightarrow> 'a bytes_result \<Rightarrow> bool" where
  "bytes_ok start off want buf res \<longleftrightarrow> (case res of (err, buf', n, c') \<Rightarrow>
     filled disc ss start off n buf' \<and> length buf' = length buf \<and> drop want buf' = drop want buf \<and> n \<le> want
     \<and> stopped start off want n err \<and> (\<exists>xs'. good_cache c' xs'))"

text \<open>Where the loops are: \<open>done\<close> bytes are in the buffer and the next one starts sector \<open>l\<close>.\<close>

definition at_sector :: "u32 \<Rightarrow> nat \<Rightarrow> nat \<Rightarrow> nat \<Rightarrow> u32 \<Rightarrow> bool" where
  "at_sector start off done want l \<longleftrightarrow> done \<le> want \<and>
     (done < want \<longrightarrow> (\<exists>q. off + done = q * ss \<and> unat l = unat start + q \<and> l = start + of_nat q))"

lemma at_sector_next:
  assumes "off + don = q * ss" "unat l = unat start + q" "don + n * ss \<le> want"
    "don + n * ss < want \<Longrightarrow> unat l + n < 2 ^ 32"
  shows "at_sector start off (don + n * ss) want (l + of_nat n)"
proof -
  have "off + (don + n * ss) = (q + n) * ss" using assms(1) by (simp add: algebra_simps)
  moreover have "unat (l + of_nat n) = unat start + (q + n)" "l + of_nat n = start + of_nat (q + n)"
    if "don + n * ss < want"
  proof -
    show u: "unat (l + of_nat n) = unat start + (q + n)" using unat_u32_plus[OF assms(4)[OF that]] assms(2) by simp
    have "unat start + (q + n) < 2 ^ 32" using assms(2,4) that by simp
    then have "unat (start + of_nat (q + n)) = unat (l + of_nat n)" unfolding u by (rule unat_u32_plus)
    then show "l + of_nat n = start + of_nat (q + n)" by (metis word_unat_eq_iff)
  qed
  ultimately show ?thesis using assms(3) unfolding at_sector_def by blast
qed

lemma bytes_ok_I:
  assumes "filled disc ss start off n buf'" "length buf' = length buf" "drop want buf' = drop want buf" "n \<le> want"
    "stopped start off want n err" "good_cache c' xs'"
  shows "bytes_ok start off want buf (err, buf', n, c')"
  using assms by (auto simp: bytes_ok_def)

lemma stopped_done [simp]: "stopped start off want want ODFS_OK"
  by (simp add: stopped_def)

lemma stopped_ok: "stopped start off want n ODFS_OK \<Longrightarrow> n = want"
  by (auto simp: stopped_def dest: fails_err split: if_splits)

lemma stopped_fails:
  assumes "at_sector start off n want l" "n < want" "0 < ss" "fails l k err" "k = 1 \<or> unat k * ss \<le> want - n"
  shows "stopped start off want n err"
proof -
  from assms(1,2) obtain q where "off + n = q * ss" "l = start + of_nat q" by (auto simp: at_sector_def)
  then have "l = start + of_nat ((off + n) div ss)" using assms(3) by simp
  with assms show ?thesis unfolding stopped_def by auto
qed

lemma stopped_range:
  assumes "off + n = q * ss" "unat start + q = 2 ^ 32" "n < want" "0 < ss"
  shows "stopped start off want n ODFS_ERR_RANGE"
  using assms by (auto simp: stopped_def)

lemma write_frame:
  assumes "don + length bs \<le> want" "want \<le> length buf" "buf' = take don buf @ bs @ drop (don + length bs) buf"
  shows "length buf' = length buf" "drop want buf' = drop want buf"
  using assms by auto

text \<open>One sector, or the rest of it, copied through the cache.\<close>

lemma copy_step:
  assumes g: "good_cache c xs" and at: "at_sector start off don want l" and f: "filled disc ss start off don buf"
    and w: "want \<le> length buf" and n: "0 < n" "n \<le> ss" "don + n \<le> want"
  obtains (err) e c' where "cache_copy_sector c l 0 buf don n = Some (e, buf, c')" "fails l 1 e" "good_cache c' xs"
  | (ok) c' xs' buf' where "cache_copy_sector c l 0 buf don n = Some (ODFS_OK, buf', c')" "good_cache c' xs'"
      "filled disc ss start off (don + n) buf'" "length buf' = length buf" "drop want buf' = drop want buf"
proof -
  from at n obtain q where q: "off + don = q * ss" "unat l = unat start + q" "l = start + of_nat q"
    by (auto simp: at_sector_def)
  have b: "don + n \<le> length buf" using n w by simp
  show thesis
  proof (rule copy_sector_ok[OF g _ b, of 0 l])
    show "0 + n \<le> ss" using n by simp
  next
    fix e c' assume "cache_copy_sector c l 0 buf don n = Some (e, buf, c')" "fails l 1 e" "good_cache c' xs"
    then show thesis by (rule err)
  next
    fix c' xs' assume g': "good_cache c' xs'" and r: "cache_copy_sector c l 0 buf don n =
      Some (ODFS_OK, take don buf @ take n (drop 0 (disc l)) @ drop (don + n) buf, c')"
    define bs where "bs = take n (disc l)"
    have len: "length bs = n" using n disc_len by (simp add: bs_def)
    have rg: "bs = disc_range disc ss start (off + don) n"
      using disc_range_sector[of disc start q ss 0 n] disc_len n q by (simp add: bs_def)
    have "(off + don + n - 1) div ss = q"
    proof -
      have "off + don + n - 1 = q * ss + (n - 1)" using q(1) n by simp
      then show ?thesis using div_within[OF n(1,2)] by (simp only:)
    qed
    then have nw: "unat start + (off + don + length bs - 1) div ss < 2 ^ 32" using q(2) unat_u32_lt[of l] len by simp
    have "filled disc ss start off (don + length bs) (take don buf @ bs @ drop (don + length bs) buf)"
      by (rule filled_step[OF f]) (use rg len b nw in auto)
    moreover note write_frame[of don bs want buf, OF _ w refl]
    ultimately show thesis using ok[OF _ g', of "take don buf @ bs @ drop (don + length bs) buf"] r len n
      by (simp add: bs_def)
  qed
qed

lemma sector_loop_ok:
  assumes "good_cache c xs" "at_sector start off don want l" "filled disc ss start off don buf" "want \<le> length buf"
  shows "\<exists>res. sector_loop c l buf ss don want = Some res \<and> bytes_ok start off want buf res"
  using assms
proof (induction "want - don" arbitrary: c xs l buf don rule: less_induct)
  case less
  note g = less.prems(1) and at = less.prems(2) and f = less.prems(3) and w = less.prems(4)
  have s0: "0 < ss" by (rule ss_pos[OF g])
  have dw: "don \<le> want" using at by (simp add: at_sector_def)
  note unf = sector_loop.simps[of c l buf ss don want]
  consider (full) "ss \<le> want - don" | (tail) "want - don < ss" "don < want" | (fin) "don = want" using dw by linarith
  then show ?case
  proof cases
    case full
    then have n: "0 < ss" "ss \<le> ss" "don + ss \<le> want" using s0 by auto
    show ?thesis
    proof (rule copy_step[OF g at f w n])
      fix e c' assume r: "cache_copy_sector c l 0 buf don ss = Some (e, buf, c')" "fails l 1 e" "good_cache c' xs"
      have st: "stopped start off want don e" by (rule stopped_fails[OF at _ s0 r(2)]) (use n in auto)
      from r fails_err[OF r(2)] show ?thesis using unf full s0 f dw st by (auto intro!: bytes_ok_I)
    next
      fix c' xs' buf' assume r: "cache_copy_sector c l 0 buf don ss = Some (ODFS_OK, buf', c')" "good_cache c' xs'"
        "filled disc ss start off (don + ss) buf'" "length buf' = length buf" "drop want buf' = drop want buf"
      show ?thesis
      proof (cases "don + ss < want \<and> l = 0xFFFFFFFF")
        case True
        from at n obtain q where q: "off + don = q * ss" "unat l = unat start + q" by (auto simp: at_sector_def)
        have "stopped start off want (don + ss) ODFS_ERR_RANGE"
          by (rule stopped_range[of _ _ "q + 1"]) (use True q s0 in auto)
        with True show ?thesis using unf full s0 r n by (auto intro!: bytes_ok_I)
      next
        case False
        from at n obtain q where q: "off + don = q * ss" "unat l = unat start + q" by (auto simp: at_sector_def)
        have nx: "unat l + 1 < 2 ^ 32" if "don + ss < want"
        proof -
          have "l \<noteq> 0xFFFFFFFF" using that False by simp
          then have "unat l \<noteq> unat (0xFFFFFFFF :: u32)" by (metis word_unat_eq_iff)
          then show ?thesis using unat_u32_lt[of l] by simp
        qed
        have at': "at_sector start off (don + ss) want (l + 1)"
          using at_sector_next[OF q, of 1 want] n(3) nx by simp
        have "sector_loop c l buf ss don want = sector_loop c' (l + 1) buf' ss (don + ss) want"
          using unf full s0 r(1) False by simp
        moreover have "\<exists>res. sector_loop c' (l + 1) buf' ss (don + ss) want = Some res \<and> bytes_ok start off want buf' res"
          by (rule less.hyps) (use r at' w s0 full in auto)
        ultimately show ?thesis using r(4,5) by (auto simp: bytes_ok_def)
      qed
    qed
  next
    case tail
    show ?thesis
    proof (rule copy_step[OF g at f w, of "want - don"])
      fix e c' assume r: "cache_copy_sector c l 0 buf don (want - don) = Some (e, buf, c')" "fails l 1 e" "good_cache c' xs"
      have st: "stopped start off want don e" by (rule stopped_fails[OF at _ s0 r(2)]) (use tail in auto)
      from r fails_err[OF r(2)] show ?thesis using unf tail s0 f dw st by (auto intro!: bytes_ok_I)
    next
      fix c' xs' buf' assume r: "cache_copy_sector c l 0 buf don (want - don) = Some (ODFS_OK, buf', c')" "good_cache c' xs'"
        "filled disc ss start off (don + (want - don)) buf'" "length buf' = length buf" "drop want buf' = drop want buf"
      then show ?thesis using unf tail s0 dw by (auto intro!: bytes_ok_I)
    qed (use tail in auto)
  next
    case fin
    then show ?thesis using unf s0 f g by (auto intro!: bytes_ok_I)
  qed
qed

definition stream_ok :: "u32 \<Rightarrow> nat \<Rightarrow> nat \<Rightarrow> u8 list \<Rightarrow> 'a bytes_result + (u32 \<times> u8 list \<times> nat \<times> 'a odfs_cache) \<Rightarrow> bool" where
  "stream_ok start off want buf r \<longleftrightarrow> (case r of
      Inl res \<Rightarrow> bytes_ok start off want buf res
    | Inr (l, buf', don, c) \<Rightarrow> (\<exists>xs. good_cache c xs) \<and> at_sector start off don want l \<and> filled disc ss start off don buf'
        \<and> length buf' = length buf \<and> drop want buf' = drop want buf)"

lemma bytes_ok_buf:
  "length buf' = length buf \<Longrightarrow> drop want buf' = drop want buf \<Longrightarrow> bytes_ok start off want buf' r = bytes_ok start off want buf r"
  by (simp add: bytes_ok_def)

lemma stream_ok_buf:
  assumes "length buf' = length buf" "drop want buf' = drop want buf"
  shows "stream_ok start off want buf' r = stream_ok start off want buf r"
  unfolding stream_ok_def bytes_ok_buf[OF assms] assms ..

lemma stream_loop_ok:
  assumes "good_cache c xs" "at_sector start off don want l" "filled disc ss start off don buf" "want \<le> length buf"
  shows "\<exists>r. stream_loop c l buf don want = Some r \<and> stream_ok start off want buf r"
  using assms
proof (induction "want - don" arbitrary: c xs l buf don rule: less_induct)
  case less
  note g = less.prems(1) and at = less.prems(2) and f = less.prems(3) and w = less.prems(4)
  have s0: "0 < ss" by (rule ss_pos[OF g])
  have dw: "don \<le> want" using at by (simp add: at_sector_def)
  from g obtain m where rel: "cache_rel c xs" and m: "c_media c = Some m" "good_media m" and ssz: "c_sector_size c = ss"
    by (auto simp: good_cache_def)
  have s32: "ss < 2 ^ 32" using cache_rel_bounds(2)[OF rel] ssz by (simp add: env_ok_def)
  define full where "full = (want - don) div ss"
  define n where "n = stream_count full ss l"
  note unf = stream_loop.simps[of c l buf don want, unfolded ssz Let_def full_def[symmetric] n_def[symmetric] ODFS_CACHE_STREAM_MIN_SECTORS_def]
  show ?case
  proof (cases "ss \<le> want - don \<and> 2 \<le> full")
    case False
    then have "stream_loop c l buf don want = Some (Inr (l, buf, don, c))" using unf by auto
    with g at f show ?thesis by (auto simp: stream_ok_def)
  next
    case True
    note nb = stream_count_bounds[of full ss l, folded n_def, OF conjunct2[OF True] s0 s32]
    have "full * ss \<le> want - don" by (simp add: full_def)
    then have nss: "don + n * ss \<le> want" using mult_le_mono1[OF nb(2), of ss] dw by linarith
    have un: "unat (of_nat n :: u32) = n" using nb(4) by (simp add: unat_u32_of_nat)
    have "don + unat (of_nat n :: u32) * ss \<le> length buf" using nss w un by simp
    from media_read_into_spec[OF m this, of l] obtain e m' bs where
      r: "media_read_into c l (of_nat n) buf don = Some (e, take don buf @ bs @ drop (don + length bs) buf, c\<lparr>c_media := Some m'\<rparr>)"
      "good_media m'" "length bs \<le> n * ss" "e = ODFS_OK \<longrightarrow> bs = disc_sectors disc l n" "odfs_media_read m l (of_nat n) = (e, bs, m')" unfolding un by auto
    define buf' where "buf' = take don buf @ bs @ drop (don + length bs) buf"
    define c' where "c' = c\<lparr>c_media := Some m'\<rparr>"
    have g': "good_cache c' xs" using g r(2) by (simp add: good_cache_def c'_def)
    have fr: "length buf' = length buf" "drop want buf' = drop want buf"
      using write_frame[of don bs want buf, OF _ w refl] r(3) nss by (simp_all add: buf'_def)
    note unf2 = unf[unfolded r(1), folded buf'_def c'_def]
    show ?thesis
    proof (cases "e = ODFS_OK")
      case False
      have "filled disc ss start off don buf'" using f by (auto simp: filled_def buf'_def)
      moreover have "stream_loop c l buf don want = Some (Inl (e, buf', don, c'))" using unf2 True nb(1) False by simp
      moreover have "stopped start off want don e"
      proof (rule stopped_fails[OF at _ s0 media_fails[OF m(2) r(5) False]])
        have "0 < n * ss" using nb(1) s0 by simp
        then show "don < want" using nss by linarith
        have "n * ss \<le> want - don" using nss by linarith
        then show "(of_nat n :: u32) = 1 \<or> unat (of_nat n :: u32) * ss \<le> want - don" using un by simp
      qed
      ultimately show ?thesis using g' fr dw by (auto simp: stream_ok_def intro!: bytes_ok_I)
    next
      case ok: True
      have "0 < n * ss" using nb(1) s0 by simp
      then have "don < want" using nss by linarith
      with at obtain q where q: "off + don = q * ss" "unat l = unat start + q" "l = start + of_nat q"
        by (auto simp: at_sector_def)
      have bs: "bs = disc_range disc ss start (off + don) (n * ss)"
        using r(4) ok disc_range_sectors[of disc ss start q n] disc_len s0 q by simp
      then have lbs: "length bs = n * ss" by simp
      have "(off + don + n * ss - 1) div ss = q + n - 1"
      proof -
        have "off + don + n * ss - 1 = (q + n - 1) * ss + (ss - 1)"
          using q(1) nb(1) s0 by (cases n) (simp_all add: algebra_simps)
        then show ?thesis using div_within[OF s0 order_refl] by (simp only:)
      qed
      then have nw: "unat start + (off + don + length bs - 1) div ss < 2 ^ 32"
        using lbs q(2) nb(1,3) by simp
      have f': "filled disc ss start off (don + n * ss) buf'"
        using filled_step[OF f, of bs] bs lbs nss w nw by (simp add: buf'_def)
      show ?thesis
      proof (cases "don + n * ss < want \<and> unat l + n > 0xFFFFFFFF")
        case True
        then have "stream_loop c l buf don want = Some (Inl (ODFS_ERR_RANGE, buf', don + n * ss, c'))"
          using unf2 \<open>ss \<le> want - don \<and> 2 \<le> full\<close> nb(1) ok by simp
        moreover have "stopped start off want (don + n * ss) ODFS_ERR_RANGE"
        proof (rule stopped_range[of _ _ "q + n"])
          show "off + (don + n * ss) = (q + n) * ss" using q(1) by (simp add: algebra_simps)
          show "unat start + (q + n) = 2 ^ 32" using True q(2) nb(3) by simp
        qed (use True s0 in auto)
        ultimately show ?thesis using f' g' fr nss by (auto simp: stream_ok_def intro!: bytes_ok_I)
      next
        case False
        have dec: "want - (don + n * ss) < want - don" using \<open>0 < n * ss\<close> nss by linarith
        have at': "at_sector start off (don + n * ss) want (l + of_nat n)"
          by (rule at_sector_next[OF q(1,2) nss]) (use False in auto)
        have "stream_loop c l buf don want = stream_loop c' (l + of_nat n) buf' (don + n * ss) want"
          using unf2 \<open>ss \<le> want - don \<and> 2 \<le> full\<close> nb(1) ok False by (auto simp: of_nat_add)
        moreover have "\<exists>r. stream_loop c' (l + of_nat n) buf' (don + n * ss) want = Some r \<and> stream_ok start off want buf' r"
          by (rule less.hyps[OF dec g' at' f']) (simp add: w fr)
        ultimately show ?thesis using stream_ok_buf[OF fr] by simp
      qed
    qed
  qed
qed

lemma bytes_rest_ok:
  assumes "good_cache c xs" "at_sector start off don want l" "filled disc ss start off don buf" "want \<le> length buf"
  shows "\<exists>res. bytes_rest c l buf don want = Some res \<and> bytes_ok start off want buf res"
proof -
  from stream_loop_ok[OF assms] obtain r where r: "stream_loop c l buf don want = Some r" "stream_ok start off want buf r" by blast
  show ?thesis
  proof (cases r)
    case (Inl res)
    with r show ?thesis by (auto simp: bytes_rest_def stream_ok_def)
  next
    case (Inr y)
    then obtain l' buf' don' c' xs' where y: "r = Inr (l', buf', don', c')" "good_cache c' xs'" "at_sector start off don' want l'"
      "filled disc ss start off don' buf'" "length buf' = length buf" "drop want buf' = drop want buf"
      using r(2) by (cases y) (auto simp: stream_ok_def)
    from sector_loop_ok[OF y(2-4)] y assms(4) r show ?thesis
      by (auto simp: bytes_rest_def bytes_ok_def good_cache_def)
  qed
qed

text \<open>The first, partial sector and what follows it.\<close>

lemma head_chunk_ok:
  assumes g: "good_cache c xs" and w: "want \<le> length buf" and o': "o' < ss" and l: "unat l = unat start + q" "l = start + of_nat q"
    and off: "off = q * ss + o'" and n: "0 < n" "n \<le> want" "o' + n \<le> ss" "n < want \<Longrightarrow> o' + n = ss"
  shows "\<exists>res. do {
          (err, buf, c) \<leftarrow> cache_copy_sector c l o' buf 0 n;
          if err \<noteq> ODFS_OK then Some (err, buf, 0, c)
          else if n < want \<and> l = 0xFFFFFFFF then Some (ODFS_ERR_RANGE, buf, n, c)
          else bytes_rest c (l + 1) buf n want } = Some res \<and> bytes_ok start off want buf res"
proof (rule copy_sector_ok[OF g n(3), of 0 buf l])
  show "0 + n \<le> length buf" using n w by simp
next
  fix e c' assume "cache_copy_sector c l o' buf 0 n = Some (e, buf, c')" "fails l 1 e" "good_cache c' xs"
  moreover from this have "e \<noteq> ODFS_OK" by (blast dest: fails_err)
  moreover have "stopped start off want 0 e"
  proof -
    have "l = start + of_nat ((off + 0) div ss)" using l(2) off o' by simp
    with \<open>fails l 1 e\<close> n show ?thesis unfolding stopped_def by auto
  qed
  ultimately show ?thesis by (auto intro!: bytes_ok_I)
next
  fix c' xs' assume g': "good_cache c' xs'" and r: "cache_copy_sector c l o' buf 0 n =
      Some (ODFS_OK, take 0 buf @ take n (drop o' (disc l)) @ drop (0 + n) buf, c')"
  define bs where "bs = take n (drop o' (disc l))"
  have len: "length bs = n" using n disc_len by (simp add: bs_def)
  define buf' where "buf' = bs @ drop n buf"
  have s0: "0 < ss" using o' by simp
  have rg: "bs = disc_range disc ss start off n"
    using disc_range_sector[of disc start q ss o' n] disc_len n s0 l off by (simp add: bs_def)
  have "(off + n - 1) div ss = q"
  proof -
    have "off + n - 1 = q * ss + (o' + n - 1)" using off n by simp
    then show ?thesis using div_within[of "o' + n" ss q] n by simp
  qed
  then have nw: "unat start + (off + 0 + length bs - 1) div ss < 2 ^ 32" using l(1) unat_u32_lt[of l] len by simp
  have f: "filled disc ss start off n buf'"
    using filled_step[OF filled_0, of bs disc ss start off buf] rg len n w nw by (simp add: buf'_def)
  have fr: "length buf' = length buf" "drop want buf' = drop want buf"
    using write_frame[of 0 bs want buf, OF _ w refl] n len by (simp_all add: buf'_def)
  have r': "cache_copy_sector c l o' buf 0 n = Some (ODFS_OK, buf', c')" using r by (simp add: buf'_def bs_def)
  show ?thesis
  proof (cases "n < want \<and> l = 0xFFFFFFFF")
    case True
    have "stopped start off want n ODFS_ERR_RANGE"
      by (rule stopped_range[of _ _ "q + 1"]) (use True off n(4) l(1) s0 in auto)
    with True show ?thesis using r' f fr g' by (auto intro!: bytes_ok_I)
  next
    case False
    have "at_sector start off n want (l + 1)"
    proof (cases "n < want")
      case True
      have "l \<noteq> 0xFFFFFFFF" using True False by simp
      then have "unat l \<noteq> unat (0xFFFFFFFF :: u32)" by (metis word_unat_eq_iff)
      then have nx: "unat l + 1 < 2 ^ 32" using unat_u32_lt[of l] by simp
      have "off + n = (q + 1) * ss" using off n(4)[OF True] by simp
      moreover have "unat (l + 1) = unat start + (q + 1)" using unat_u32_plus[of l 1] nx l by simp
      moreover have "l + 1 = start + of_nat (q + 1)" using l(2) by simp
      ultimately show ?thesis using n(2) unfolding at_sector_def by blast
    qed (use n in \<open>simp add: at_sector_def\<close>)
    from bytes_rest_ok[OF g' this f] fr w r' False show ?thesis by (auto simp: bytes_ok_buf[OF fr])
  qed
qed

lemma read_bytes_ok:
  assumes g: "good_cache c xs" and w: "want \<le> length buf" and ss2: "2 \<le> ss"
  shows "\<exists>err buf' n c'. odfs_cache_read_bytes c start offset buf want = Some (err, buf', n, c') \<and>
    (if 0 < want \<and> 2 ^ 32 \<le> unat start + unat offset div ss
     then err = ODFS_ERR_RANGE \<and> buf' = buf \<and> n = want \<and> c' = c
     else bytes_ok start (unat offset) want buf (err, buf', n, c'))"
proof -
  from g obtain m where rel: "cache_rel c xs" and m: "c_media c = Some m" "good_media m" and ssz: "c_sector_size c = ss"
    by (auto simp: good_cache_def)
  have env: "env_ok c" and ne: "c_entries c \<noteq> []" using cache_rel_bounds[OF rel] by auto
  define k where "k = c_sector_shift c"
  have ssk: "ss = 2 ^ k" "ss < 2 ^ 32" using env ssz by (auto simp: env_ok_def k_def)
  have k1: "1 \<le> k" using ss2 ssk(1) by (cases k) auto
  have k32: "k < 32" using ssk power_strict_increasing_iff[of "2 :: nat" k 32] by simp
  define q where "q = unat offset div ss"
  define o' where "o' = unat offset mod ss"
  have oq: "unat offset = q * ss + o'" "o' < ss" using ss2 by (simp_all add: q_def o'_def)
  define l64 where "l64 = (ucast start + drop_bit k offset :: u64)"
  have ul: "unat l64 = unat start + q" using lba64[OF k1, of start offset] by (simp add: l64_def q_def ssk)
  have so: "unat (ucast offset AND (of_nat ss - 1 :: u32)) = o'" using sector_off[OF k32, of offset] by (simp only: ssk o'_def)
  have gt: "(l64 > 0xFFFFFFFF) = (2 ^ 32 \<le> unat start + q)" using ul by (simp add: word_less_nat_alt) linarith
  note unf = odfs_cache_read_bytes_def[of c start offset buf want, unfolded ssz Let_def k_def[symmetric] l64_def[symmetric] so]
  show ?thesis
  proof (cases "want = 0")
    case True
    then show ?thesis using unf ne m ss2 g by (auto simp: bytes_ok_def)
  next
    case w0: False
    show ?thesis
    proof (cases "2 ^ 32 \<le> unat start + q")
      case True
      then show ?thesis using unf ne m ss2 w0 gt by (simp add: q_def)
    next
      case False
      define l where "l = (ucast l64 :: u32)"
      have l: "unat l = unat start + q" using False ul unat_ucast_u64_u32[of l64] by (simp add: l_def)
      have lw: "l = start + of_nat q" using l unat_u32_plus[of start q] False by (metis not_less word_unat_eq_iff)
      define n where "n = (if ss - o' > want then want else ss - o')"
      have step: "odfs_cache_read_bytes c start offset buf want = (if o' \<noteq> 0 then do {
          (err, buf, c) \<leftarrow> cache_copy_sector c l o' buf 0 n;
          if err \<noteq> ODFS_OK then Some (err, buf, 0, c)
          else if n < want \<and> l = 0xFFFFFFFF then Some (ODFS_ERR_RANGE, buf, n, c)
          else bytes_rest c (l + 1) buf n want }
        else bytes_rest c l buf 0 want)"
        using unf[folded l_def n_def] ne m ss2 w0 gt False by simp
      have "\<exists>res. odfs_cache_read_bytes c start offset buf want = Some res \<and> bytes_ok start (unat offset) want buf res"
      proof (cases "o' = 0")
        case True
        then have "at_sector start (unat offset) 0 want l" using oq l lw by (auto simp: at_sector_def)
        from bytes_rest_ok[OF g this filled_0 w] True step show ?thesis by simp
      next
        case o0: False
        have n: "0 < n" "n \<le> want" "o' + n \<le> ss" "n < want \<Longrightarrow> o' + n = ss" using w0 oq(2) by (auto simp: n_def)
        have "odfs_cache_read_bytes c start offset buf want = do {
          (err, buf, c) \<leftarrow> cache_copy_sector c l o' buf 0 n;
          if err \<noteq> ODFS_OK then Some (err, buf, 0, c)
          else if n < want \<and> l = 0xFFFFFFFF then Some (ODFS_ERR_RANGE, buf, n, c)
          else bytes_rest c (l + 1) buf n want }" using step o0 by simp
        then show ?thesis using head_chunk_ok[OF g w oq(2) l lw oq(1) n] by (simp only:)
      qed
      then show ?thesis using False by (auto simp: q_def)
    qed
  qed
qed

end

end
