(* ===== verification/File_Media.thy ===== *)
theory File_Media
  imports Cache_Bytes Text
begin

text \<open>
  The file-backed medium of \<^verbatim>\<open>platform/host/file_media.c\<close>: plain images (2048-byte sectors) and
  the single binary behind a cue sheet.  The open \<open>FILE\<close> is the bytes of the file; \<open>fread\<close> at an
  offset stores what the file has there and reports end-of-file when that is less than asked for.
  Errors of the host's own I/O are not modelled.

  Reading is shown to satisfy the contract \<open>disc_media\<close>, so everything proved of the block cache
  holds over an image file; a file whose size is a multiple of the sector size also satisfies
  \<open>atomic_media\<close>.
\<close>

section \<open>Data\<close>

definition HOST_SECTOR_SIZE :: nat where "HOST_SECTOR_SIZE = 2048"
definition HOST_AUDIO_FRAME_SIZE :: nat where "HOST_AUDIO_FRAME_SIZE = 2352"
definition HOST_CUE_TEXT_MAX :: nat where "HOST_CUE_TEXT_MAX = 128"

record cue_track =
  ct_start_lba :: u32
  ct_sector_count :: u32
  ct_raw_sector_size :: u32
  ct_data_offset :: u32
  ct_file_offset :: u64
  ct_number :: u8
  ct_is_audio :: bool
  ct_title :: "u8 list"
  ct_performer :: "u8 list"

record file_media_ctx =
  fm_file :: "u8 list"
  fm_sector_count :: u32
  fm_is_cue :: bool
  fm_has_audio :: bool
  fm_disc_title :: "u8 list"
  fm_disc_performer :: "u8 list"
  fm_tracks :: "cue_track list"

record cue_track_spec =
  cs_start_lba :: u32
  cs_raw_sector_size :: u32
  cs_data_offset :: u32
  cs_have_index :: bool
  cs_number :: u8
  cs_is_audio :: bool
  cs_title :: "u8 list"
  cs_performer :: "u8 list"

section \<open>Text helpers\<close>

definition host_ascii_tolower :: "u8 \<Rightarrow> u8" where
  "host_ascii_tolower c = (if 0x41 \<le> c \<and> c \<le> 0x5A then c + 0x20 else c)"

definition host_ext_eq :: "u8 list \<Rightarrow> u8 list \<Rightarrow> bool" where
  "host_ext_eq path ext =
     (if length path < length ext then False
      else map host_ascii_tolower (drop (length path - length ext) path) = map host_ascii_tolower ext)"

text \<open>The directory part of \<open>base_path\<close>: everything up to and including its last slash.\<close>

definition host_join_relative_path :: "u8 list \<Rightarrow> u8 list \<Rightarrow> u8 list" where
  "host_join_relative_path base_path name =
     (if ch name = 0x2F then name
      else rev (dropWhile (\<lambda>c. c \<noteq> 0x2F) (rev base_path)) @ name)"

text \<open>\<open>isspace\<close> in the C locale.\<close>

definition isspace :: "u8 \<Rightarrow> bool" where
  "isspace c = (c = 0x20 \<or> (0x09 \<le> c \<and> c \<le> 0x0D))"

definition host_trim :: "u8 list \<Rightarrow> u8 list" where
  "host_trim s = rev (dropWhile isspace (rev (dropWhile isspace s)))"

definition cue_parse_track_layout :: "u8 list \<Rightarrow> (u32 \<times> u32 \<times> bool) option" where
  "cue_parse_track_layout mode =
     (if mode = str_bytes ''MODE1/2048'' then Some (2048, 0, False)
      else if mode = str_bytes ''MODE1/2352'' then Some (2352, 16, False)
      else if mode = str_bytes ''MODE2/2352'' then Some (2352, 24, False)
      else if mode = str_bytes ''AUDIO'' then Some (2352, 0, True)
      else None)"

text \<open>\<open>strchr\<close>: the text after the first occurrence of a character.\<close>

definition after_chr :: "u8 \<Rightarrow> u8 list \<Rightarrow> u8 list option" where
  "after_chr c s = (if c \<in> set s then Some (tl (dropWhile (\<lambda>x. x \<noteq> c) s)) else None)"

definition cue_parse_file_line :: "u8 list \<Rightarrow> nat \<Rightarrow> u8 list option" where
  "cue_parse_file_line line file_name_size =
     (case after_chr 0x22 line of
        None \<Rightarrow> None
      | Some start \<Rightarrow>
          if 0x22 \<notin> set start then None
          else let name = takeWhile (\<lambda>x. x \<noteq> 0x22) start in
            if length name + 1 > file_name_size then None else Some name)"

definition cue_parse_text_value :: "u8 list \<Rightarrow> nat \<Rightarrow> u8 list" where
  "cue_parse_text_value s dst_size =
     (let s = dropWhile isspace s;
          v = (if ch s = 0x22 then takeWhile (\<lambda>x. x \<noteq> 0x22) (tl s) else s) in
      take (if length v \<ge> dst_size then dst_size - 1 else length v) v)"

section \<open>Reading the file\<close>

definition fread_at :: "u8 list \<Rightarrow> nat \<Rightarrow> nat \<Rightarrow> u8 list" where
  "fread_at file off n = take n (drop off file)"

text \<open>
  \<open>host_riff_data_range\<close>: the chunk list of a RIFF/WAVE file up to its \<open>data\<close> chunk.  A chunk of size
  0xFFFFFFFF advances by zero bytes (the padded size wraps to 0 in 32 bits), but the header before
  it has been consumed, so the walk always moves forward and ends at the end of the file.
\<close>

function riff_walk :: "u8 list \<Rightarrow> nat \<Rightarrow> (nat \<times> nat) option" where
  "riff_walk file pos =
     (if length (fread_at file pos 8) \<noteq> 8 then None
      else case le32 (fread_at file pos 8) 4 of
        None \<Rightarrow> None
      | Some csize \<Rightarrow>
          if take 4 (fread_at file pos 8) = str_bytes ''data'' then Some (pos + 8, unat csize)
          else riff_walk file (pos + 8 + unat (csize + (csize AND 1))))"
  by pat_completeness auto
termination
  by (relation "measure (\<lambda>(file, pos). length file - pos)") (auto simp: fread_at_def)

declare riff_walk.simps [simp del]

definition host_riff_data_range :: "u8 list \<Rightarrow> (nat \<times> nat) option" where
  "host_riff_data_range file =
     (if length (fread_at file 0 12) \<noteq> 12 then None
      else if take 4 file \<noteq> str_bytes ''RIFF'' \<or> take 4 (drop 8 file) \<noteq> str_bytes ''WAVE'' then None
      else riff_walk file 12)"

section \<open>Track layout\<close>

text \<open>
  The second half of \<open>cue_media_open\<close>: the tracks of the binary, computed in 64 bits.  \<open>next\<close> is the
  specification of the following track, if any.
\<close>

definition cue_layout_track ::
    "u64 \<Rightarrow> u64 \<Rightarrow> cue_track_spec \<Rightarrow> cue_track_spec option \<Rightarrow> odfs_err + cue_track" where
  "cue_layout_track base psize sp next =
     (let raw = ucast (cs_raw_sector_size sp) :: u64;
          start_offset = base + ucast (cs_start_lba sp) * raw in
      case (case next of
              Some nx \<Rightarrow> (if cs_raw_sector_size nx \<noteq> cs_raw_sector_size sp then None
                          else Some (base + ucast (cs_start_lba nx) * raw))
            | None \<Rightarrow> Some (base + psize)) of
        None \<Rightarrow> Inl ODFS_ERR_UNSUPPORTED
      | Some end_offset \<Rightarrow>
          if end_offset < start_offset \<or> (end_offset - start_offset) mod raw \<noteq> 0 then Inl ODFS_ERR_BAD_FORMAT
          else Inr \<lparr>ct_start_lba = cs_start_lba sp, ct_sector_count = ucast ((end_offset - start_offset) div raw),
                 ct_raw_sector_size = cs_raw_sector_size sp, ct_data_offset = cs_data_offset sp,
                 ct_file_offset = start_offset, ct_number = cs_number sp, ct_is_audio = cs_is_audio sp,
                 ct_title = cs_title sp, ct_performer = cs_performer sp\<rparr>)"

fun cue_layout :: "u64 \<Rightarrow> u64 \<Rightarrow> cue_track_spec list \<Rightarrow> u32 \<Rightarrow> odfs_err + (cue_track list \<times> u32)" where
  "cue_layout base psize [] n = Inr ([], n)"
| "cue_layout base psize (sp # sps) n =
     (case cue_layout_track base psize sp (case sps of [] \<Rightarrow> None | nx # _ \<Rightarrow> Some nx) of
        Inl e \<Rightarrow> Inl e
      | Inr t \<Rightarrow>
          (let track_end = ct_start_lba t + ct_sector_count t in
           case cue_layout base psize sps (if track_end > n then track_end else n) of
             Inl e \<Rightarrow> Inl e
           | Inr (ts, n) \<Rightarrow> Inr (t # ts, n)))"

text \<open>The payload of the binary: the whole file, or the data chunk of a WAV file, clamped.\<close>

definition cue_payload :: "u8 list \<Rightarrow> u64 \<times> u64" where
  "cue_payload file =
     (case host_riff_data_range file of
        Some (base, psize) \<Rightarrow>
          (of_nat base, if base + psize > length file then of_nat (length file) - of_nat base else of_nat psize)
      | None \<Rightarrow> (0, of_nat (length file)))"

text \<open>Opening the binary of a cue sheet whose lines have been parsed into \<open>specs\<close>.\<close>

definition cue_open_binary ::
    "u8 list \<Rightarrow> cue_track_spec list \<Rightarrow> u8 list \<Rightarrow> u8 list \<Rightarrow> odfs_err + file_media_ctx" where
  "cue_open_binary file specs disc_title disc_performer =
     (if specs = [] \<or> \<not> list_all cs_have_index specs then Inl ODFS_ERR_BAD_FORMAT
      else case cue_payload file of (base, psize) \<Rightarrow>
        case cue_layout base psize specs 0 of
          Inl e \<Rightarrow> Inl e
        | Inr (ts, n) \<Rightarrow> Inr \<lparr>fm_file = file, fm_sector_count = n, fm_is_cue = True,
            fm_has_audio = list_ex cs_is_audio specs, fm_disc_title = disc_title,
            fm_disc_performer = disc_performer, fm_tracks = ts\<rparr>)"

section \<open>The media operations\<close>

definition find_track :: "file_media_ctx \<Rightarrow> u32 \<Rightarrow> cue_track option" where
  "find_track fm l = find (\<lambda>t. ct_start_lba t \<le> l \<and> l < ct_start_lba t + ct_sector_count t) (fm_tracks fm)"

text \<open>One sector of a cue image: the bytes stored at the caller's buffer.\<close>

definition cue_read_sector :: "file_media_ctx \<Rightarrow> u32 \<Rightarrow> odfs_err \<times> u8 list" where
  "cue_read_sector fm l =
     (if l \<ge> fm_sector_count fm then (ODFS_ERR_EOF, [])
      else case find_track fm l of
        None \<Rightarrow> (ODFS_ERR_EOF, [])
      | Some t \<Rightarrow>
          let raw_offset = ct_file_offset t + ucast (l - ct_start_lba t) * ucast (ct_raw_sector_size t);
              raw = unat (ct_raw_sector_size t) in
          if raw = HOST_SECTOR_SIZE \<and> ct_data_offset t = 0 then
            (let got = fread_at (fm_file fm) (unat raw_offset) HOST_SECTOR_SIZE in
             if length got \<noteq> HOST_SECTOR_SIZE then (ODFS_ERR_EOF, got) else (ODFS_OK, got))
          else if raw > HOST_AUDIO_FRAME_SIZE then (ODFS_ERR_UNSUPPORTED, [])
          else
            (let got = fread_at (fm_file fm) (unat raw_offset) raw in
             if length got \<noteq> raw then (ODFS_ERR_EOF, [])
             else (ODFS_OK, take HOST_SECTOR_SIZE (drop (unat (ct_data_offset t)) got))))"

fun cue_read_loop :: "file_media_ctx \<Rightarrow> u32 \<Rightarrow> nat \<Rightarrow> odfs_err \<times> u8 list" where
  "cue_read_loop fm l 0 = (ODFS_OK, [])"
| "cue_read_loop fm l (Suc n) =
     (case cue_read_sector fm l of
        (err, bs) \<Rightarrow> if err \<noteq> ODFS_OK then (err, bs)
          else case cue_read_loop fm (l + 1) n of (err, bs') \<Rightarrow> (err, bs @ bs'))"

definition file_read_sectors :: "file_media_ctx \<Rightarrow> u32 \<Rightarrow> u32 \<Rightarrow> odfs_err \<times> u8 list \<times> file_media_ctx" where
  "file_read_sectors fm l count =
     (if \<not> fm_is_cue fm then
        (let got = fread_at (fm_file fm) (unat l * HOST_SECTOR_SIZE) (unat count * HOST_SECTOR_SIZE) in
         (if length got \<noteq> unat count * HOST_SECTOR_SIZE then ODFS_ERR_EOF else ODFS_OK, got, fm))
      else case cue_read_loop fm l (unat count) of (err, bs) \<Rightarrow> (err, bs, fm))"

definition file_read_toc :: "file_media_ctx \<Rightarrow> odfs_err \<times> odfs_toc \<times> file_media_ctx" where
  "file_read_toc fm =
     (if \<not> fm_is_cue fm \<or> fm_tracks fm = [] then (ODFS_ERR_UNSUPPORTED, zero_toc, fm)
      else (ODFS_OK,
        \<lparr>toc_first_session = 1, toc_last_session = 1, toc_session_count = of_nat (length (fm_tracks fm)),
         toc_leadout_lba = fm_sector_count fm,
         toc_sessions = map (\<lambda>t. \<lparr>sess_number = ct_number t, sess_control = (if ct_is_audio t then 0 else 4),
              sess_start_lba = ct_start_lba t, sess_length = ct_sector_count t\<rparr>) (fm_tracks fm)
            @ drop (length (fm_tracks fm)) (toc_sessions zero_toc)\<rparr>, fm))"

definition audio_read_frame :: "file_media_ctx \<Rightarrow> u32 \<Rightarrow> odfs_err \<times> u8 list" where
  "audio_read_frame fm l =
     (case find_track fm l of
        None \<Rightarrow> (ODFS_ERR_EOF, [])
      | Some t \<Rightarrow>
          if unat (ct_raw_sector_size t) \<noteq> HOST_AUDIO_FRAME_SIZE then (ODFS_ERR_UNSUPPORTED, [])
          else let raw_offset = ct_file_offset t + ucast (l - ct_start_lba t) * of_nat HOST_AUDIO_FRAME_SIZE;
                   got = fread_at (fm_file fm) (unat raw_offset) HOST_AUDIO_FRAME_SIZE in
            if length got \<noteq> HOST_AUDIO_FRAME_SIZE then (ODFS_ERR_EOF, got) else (ODFS_OK, got))"

fun audio_read_loop :: "file_media_ctx \<Rightarrow> u32 \<Rightarrow> nat \<Rightarrow> odfs_err \<times> u8 list" where
  "audio_read_loop fm l 0 = (ODFS_OK, [])"
| "audio_read_loop fm l (Suc n) =
     (case audio_read_frame fm l of
        (err, bs) \<Rightarrow> if err \<noteq> ODFS_OK then (err, bs)
          else case audio_read_loop fm (l + 1) n of (err, bs') \<Rightarrow> (err, bs @ bs'))"

definition file_read_audio :: "file_media_ctx \<Rightarrow> u32 \<Rightarrow> u32 \<Rightarrow> odfs_err \<times> u8 list \<times> file_media_ctx" where
  "file_read_audio fm l count =
     (if \<not> fm_is_cue fm then (ODFS_ERR_UNSUPPORTED, [], fm)
      else case audio_read_loop fm l (unat count) of (err, bs) \<Rightarrow> (err, bs, fm))"

definition file_sector_size :: "file_media_ctx \<Rightarrow> u32" where
  "file_sector_size fm = of_nat HOST_SECTOR_SIZE"

definition file_sector_count :: "file_media_ctx \<Rightarrow> u32" where
  "file_sector_count fm = fm_sector_count fm"

definition file_media_ops :: "file_media_ctx odfs_media_ops" where
  "file_media_ops = \<lparr>read_sectors = file_read_sectors, sector_size = file_sector_size,
     sector_count = file_sector_count, read_toc = Some file_read_toc, read_last_session_lba = None,
     read_audio = Some file_read_audio\<rparr>"

text \<open>\<open>odfs_media_open_image\<close> on a path that does not end in \<open>.cue\<close>; \<open>file\<close> is the contents of the file.\<close>

definition odfs_media_open_image :: "u8 list \<Rightarrow> file_media_ctx odfs_media" where
  "odfs_media_open_image file =
     \<lparr>mops = file_media_ops,
      mctx = \<lparr>fm_file = file, fm_sector_count = of_nat (length file div HOST_SECTOR_SIZE), fm_is_cue = False,
        fm_has_audio = False, fm_disc_title = [], fm_disc_performer = [], fm_tracks = []\<rparr>\<rparr>"

section \<open>The contract\<close>

text \<open>The sector \<open>l\<close> of an image, padded with zeros where the file has no bytes.\<close>

definition pad_sector :: "u8 list \<Rightarrow> u8 list" where
  "pad_sector bs = take HOST_SECTOR_SIZE (bs @ replicate HOST_SECTOR_SIZE 0)"

definition file_disc :: "file_media_ctx \<Rightarrow> u32 \<Rightarrow> u8 list" where
  "file_disc fm l = pad_sector
     (if fm_is_cue fm then snd (cue_read_sector fm l)
      else fread_at (fm_file fm) (unat l * HOST_SECTOR_SIZE) HOST_SECTOR_SIZE)"

text \<open>Images this size or smaller can be addressed with 32-bit sector numbers, and a raw sector holds
  a whole data sector after its header.\<close>

definition file_ok :: "file_media_ctx \<Rightarrow> bool" where
  "file_ok fm \<longleftrightarrow> length (fm_file fm) \<le> 2 ^ 32 * HOST_SECTOR_SIZE \<and>
     (\<forall>t \<in> set (fm_tracks fm). unat (ct_data_offset t) + HOST_SECTOR_SIZE \<le> unat (ct_raw_sector_size t))"

lemma length_pad_sector [simp]: "length (pad_sector bs) = HOST_SECTOR_SIZE"
  by (simp add: pad_sector_def)

lemma pad_sector_id: "length bs = HOST_SECTOR_SIZE \<Longrightarrow> pad_sector bs = bs"
  by (simp add: pad_sector_def)

lemma find_track_in: "find_track fm l = Some t \<Longrightarrow> t \<in> set (fm_tracks fm)"
  by (auto simp: find_track_def find_Some_iff)

lemma cue_read_sector_length:
  assumes "file_ok fm" "cue_read_sector fm l = (e, bs)"
  shows "length bs \<le> HOST_SECTOR_SIZE" "e = ODFS_OK \<Longrightarrow> length bs = HOST_SECTOR_SIZE"
  using assms find_track_in[of fm l]
  by (auto simp: cue_read_sector_def Let_def fread_at_def file_ok_def split: if_splits option.splits)

lemma disc_sectors_Cons: "disc_sectors disc l (Suc n) = disc l @ disc_sectors disc (l + 1) n"
proof -
  have "[0..<Suc n] = 0 # map Suc [0..<n]" by (simp add: upt_conv_Cons map_Suc_upt del: upt_Suc)
  then show ?thesis by (simp add: disc_sectors_def comp_def add.assoc del: upt_Suc)
qed

lemma cue_read_loop_ok:
  assumes "file_ok fm" "fm_is_cue fm" "cue_read_loop fm l n = (e, bs)"
  shows "length bs \<le> n * HOST_SECTOR_SIZE \<and> (e = ODFS_OK \<longrightarrow> bs = disc_sectors (file_disc fm) l n)"
  using assms(3)
proof (induction n arbitrary: l e bs)
  case (Suc n)
  obtain e1 b1 where s: "cue_read_sector fm l = (e1, b1)" by force
  obtain e2 b2 where r: "cue_read_loop fm (l + 1) n = (e2, b2)" by force
  note len = cue_read_sector_length[OF assms(1) s]
  show ?case
  proof (cases "e1 = ODFS_OK")
    case True
    have "file_disc fm l = b1" using True s len assms(2) by (simp add: file_disc_def pad_sector_id)
    with True s r Suc.IH[OF r] Suc.prems len show ?thesis by (auto simp: disc_sectors_Cons)
  qed (use s Suc.prems len in auto)
qed simp

lemma plain_read_ok:
  assumes "file_ok fm" "\<not> fm_is_cue fm" "unat l * HOST_SECTOR_SIZE + n * HOST_SECTOR_SIZE \<le> length (fm_file fm)"
  shows "fread_at (fm_file fm) (unat l * HOST_SECTOR_SIZE) (n * HOST_SECTOR_SIZE) = disc_sectors (file_disc fm) l n"
  using assms(3)
proof (induction n)
  case (Suc n)
  let ?h = HOST_SECTOR_SIZE
  have h0: "0 < ?h" by (simp add: HOST_SECTOR_SIZE_def)
  have le: "(unat l + Suc n) * ?h \<le> 2 ^ 32 * ?h" using Suc.prems assms(1) by (simp add: file_ok_def algebra_simps)
  then have "unat l + Suc n \<le> 2 ^ 32" using h0 by (metis mult_le_cancel2)
  then have u: "unat (l + of_nat n) = unat l + n" by (intro unat_u32_plus) simp
  have "file_disc fm (l + of_nat n) = fread_at (fm_file fm) ((unat l + n) * ?h) ?h"
    using Suc.prems assms(2) u by (simp add: file_disc_def pad_sector_id fread_at_def algebra_simps)
  moreover have "fread_at (fm_file fm) (unat l * ?h) (Suc n * ?h) =
      fread_at (fm_file fm) (unat l * ?h) (n * ?h) @ fread_at (fm_file fm) ((unat l + n) * ?h) ?h"
    using take_add[of "n * ?h" ?h "drop (unat l * ?h) (fm_file fm)"]
    by (simp add: fread_at_def add.commute distrib_right)
  ultimately show ?case using Suc by (simp add: disc_sectors_Suc)
qed (simp add: fread_at_def)

lemma file_read_sectors_ok:
  assumes "file_ok fm" "file_read_sectors fm l n = (e, bs, fm')"
  shows "fm' = fm" "length bs \<le> unat n * HOST_SECTOR_SIZE"
    "e = ODFS_OK \<Longrightarrow> bs = disc_sectors (file_disc fm) l (unat n)"
proof -
  show "fm' = fm" using assms(2) by (auto simp: file_read_sectors_def Let_def split: if_splits prod.splits)
  have "length bs \<le> unat n * HOST_SECTOR_SIZE \<and> (e = ODFS_OK \<longrightarrow> bs = disc_sectors (file_disc fm) l (unat n))"
  proof (cases "fm_is_cue fm")
    case True
    with assms(2) have "cue_read_loop fm l (unat n) = (e, bs)" by (auto simp: file_read_sectors_def split: prod.splits)
    then show ?thesis by (rule cue_read_loop_ok[OF assms(1) True])
  next
    case False
    with assms(2) have bs: "bs = fread_at (fm_file fm) (unat l * HOST_SECTOR_SIZE) (unat n * HOST_SECTOR_SIZE)"
      and e: "e = (if length bs \<noteq> unat n * HOST_SECTOR_SIZE then ODFS_ERR_EOF else ODFS_OK)"
      by (auto simp: file_read_sectors_def Let_def)
    have "bs = disc_sectors (file_disc fm) l (unat n)" if ok: "e = ODFS_OK"
    proof (cases "n = 0")
      case True
      then show ?thesis by (simp add: bs fread_at_def)
    next
      case n0: False
      from ok e have len: "length bs = unat n * HOST_SECTOR_SIZE" by (simp split: if_splits)
      from n0 have "0 < unat n * HOST_SECTOR_SIZE" by (simp add: unat_gt_0 HOST_SECTOR_SIZE_def)
      moreover from len bs have "unat n * HOST_SECTOR_SIZE \<le> length (fm_file fm) - unat l * HOST_SECTOR_SIZE"
        by (simp add: fread_at_def)
      ultimately have "unat l * HOST_SECTOR_SIZE + unat n * HOST_SECTOR_SIZE \<le> length (fm_file fm)" by linarith
      then show ?thesis unfolding bs by (rule plain_read_ok[OF assms(1) False])
    qed
    then show ?thesis by (simp add: bs fread_at_def)
  qed
  then show "length bs \<le> unat n * HOST_SECTOR_SIZE" "e = ODFS_OK \<Longrightarrow> bs = disc_sectors (file_disc fm) l (unat n)"
    by auto
qed

interpretation file_disc: disc_media file_media_ops "file_disc fm" HOST_SECTOR_SIZE "\<lambda>m. m = fm \<and> file_ok fm"
  for fm
proof unfold_locales
  show "unat (sector_size file_media_ops m) = HOST_SECTOR_SIZE" for m
    by (simp add: file_media_ops_def file_sector_size_def HOST_SECTOR_SIZE_def)
  show "length (file_disc fm l) = HOST_SECTOR_SIZE" for l by (simp add: file_disc_def)
qed (auto simp: file_media_ops_def dest: file_read_sectors_ok)

text \<open>An image whose reads of one sector store all of it or nothing.\<close>

definition file_whole :: "file_media_ctx \<Rightarrow> bool" where
  "file_whole fm \<longleftrightarrow> file_ok fm \<and>
     (if fm_is_cue fm then (\<forall>t \<in> set (fm_tracks fm). unat (ct_raw_sector_size t) = HOST_SECTOR_SIZE \<and> ct_data_offset t = 0 \<longrightarrow>
          (\<forall>i < unat (ct_sector_count t). unat (ct_file_offset t + of_nat i * 2048) + HOST_SECTOR_SIZE \<le> length (fm_file fm)))
      else HOST_SECTOR_SIZE dvd length (fm_file fm))"

lemma file_whole_ok: "file_whole fm \<Longrightarrow> file_ok fm"
  by (simp add: file_whole_def)

lemma file_whole_read_1:
  assumes w: "file_whole fm" and r: "file_read_sectors fm l 1 = (e, bs, fm')" and e: "e \<noteq> ODFS_OK"
  shows "bs = []"
proof (cases "fm_is_cue fm")
  case False
  define h where "h = HOST_SECTOR_SIZE"
  from False w obtain k where k: "length (fm_file fm) = h * k" by (auto simp: file_whole_def h_def)
  have bs: "bs = take h (drop (unat l * h) (fm_file fm))" and "length bs \<noteq> h"
    using False r e by (auto simp: file_read_sectors_def fread_at_def Let_def h_def split: if_splits)
  then have "length (fm_file fm) < unat l * h + h" by (auto simp: min_def split: if_splits)
  then have "k < Suc (unat l)" using k by (metis add.commute mult.commute mult_Suc mult_less_cancel2)
  then have "length (fm_file fm) \<le> unat l * h" using k by (simp add: mult.commute)
  then show ?thesis using bs by simp
next
  case True
  obtain b where s: "cue_read_sector fm l = (e, b)" "bs = b" using True r e
    by (auto simp: file_read_sectors_def split: prod.splits if_splits)
  show ?thesis
  proof (cases "find_track fm l")
    case None
    then show ?thesis using s by (auto simp: cue_read_sector_def split: if_splits)
  next
    case (Some t)
    then have t: "t \<in> set (fm_tracks fm)" "ct_start_lba t \<le> l" "l < ct_start_lba t + ct_sector_count t"
      by (auto simp: find_track_def find_Some_iff)
    have "unat l < (unat (ct_start_lba t) + unat (ct_sector_count t)) mod 2 ^ 32"
      using t(3) by (simp only: word_less_nat_alt unat_u32_add)
    then have "unat l < unat (ct_start_lba t) + unat (ct_sector_count t)" by (meson le_trans mod_less_eq_dividend not_le)
    then have i: "unat (l - ct_start_lba t) < unat (ct_sector_count t)"
      using t(2) by (simp add: unat_sub word_le_nat_alt)
    have off: "of_nat (unat (l - ct_start_lba t)) = (ucast (l - ct_start_lba t) :: u64)" by simp
    show ?thesis
    proof (cases "unat (ct_raw_sector_size t) = HOST_SECTOR_SIZE \<and> ct_data_offset t = 0")
      case raw: True
      from w True have "\<forall>t \<in> set (fm_tracks fm). unat (ct_raw_sector_size t) = HOST_SECTOR_SIZE \<and> ct_data_offset t = 0 \<longrightarrow>
          (\<forall>i < unat (ct_sector_count t). unat (ct_file_offset t + of_nat i * 2048) + HOST_SECTOR_SIZE \<le> length (fm_file fm))"
        by (simp add: file_whole_def)
      with raw t(1) i have "unat (ct_file_offset t + of_nat (unat (l - ct_start_lba t)) * 2048) + HOST_SECTOR_SIZE \<le> length (fm_file fm)"
        by blast
      moreover have "ucast (ct_raw_sector_size t) = (2048 :: u64)" using raw
        by (simp add: word_unat_eq_iff unat_ucast_u32_u64 HOST_SECTOR_SIZE_def)
      ultimately show ?thesis using s e Some raw
        by (auto simp: cue_read_sector_def Let_def fread_at_def off split: if_splits)
    qed (use s Some e in \<open>auto simp: cue_read_sector_def Let_def split: if_splits\<close>)
  qed
qed

interpretation file_atomic: atomic_media file_media_ops "file_disc fm" HOST_SECTOR_SIZE "\<lambda>m. m = fm \<and> file_whole fm"
  for fm
proof unfold_locales
  show "unat (sector_size file_media_ops m) = HOST_SECTOR_SIZE" for m
    by (simp add: file_media_ops_def file_sector_size_def HOST_SECTOR_SIZE_def)
  show "length (file_disc fm l) = HOST_SECTOR_SIZE" for l by (simp add: file_disc_def)
qed (auto simp: file_media_ops_def dest: file_read_sectors_ok[OF file_whole_ok] file_whole_read_1)

end
