(* ===== verification/Cache_Facts.thy ===== *)
theory Cache_Facts
  imports File_Media
begin

text \<open>
  The properties of the block cache: refinement of an LRU cache, correctness of byte reads, and
  coherence of any sequence of operations, over every medium that satisfies the contract; the
  instances use the file-backed medium.
\<close>

section \<open>The other operations\<close>

context disc_media
begin

lemma flush_ok:
  assumes g: "good_cache c xs"
  shows "good_cache (odfs_cache_flush c) []" "c_capacity (odfs_cache_flush c) = c_capacity c"
proof -
  have rel: "cache_rel c xs" using g by (simp add: good_cache_def)
  then obtain lru free where r: "rep c [] lru free" by (rule cache_relE)
  have ne: "c_entries c \<noteq> []" using cache_rel_bounds(1)[OF rel] .
  let ?c = "c\<lparr>c_entries := map (\<lambda>e. e\<lparr>e_valid := False\<rparr>) (c_entries c), c_valid_count := 0, c_generation := c_generation c + 1\<rparr>"
  have "cache_rel (cache_reset_indices ?c) []"
    by (rule reset_rep) (use r in \<open>auto simp: rep_def shape_def env_ok_def in_set_conv_nth\<close>)
  then show "good_cache (odfs_cache_flush c) []" "c_capacity (odfs_cache_flush c) = c_capacity c"
    using g ne by (auto simp: good_cache_def odfs_cache_flush_def cache_reset_indices_def)
qed

lemma retain_ok:
  assumes g: "good_cache c xs"
  shows "\<exists>c' xs'. odfs_cache_retain c l (disc l) = Some (ODFS_OK, c') \<and> good_cache c' xs' \<and> c_capacity c' = c_capacity c"
proof -
  have rel: "cache_rel c xs" and ssz: "c_sector_size c = ss" using g by (auto simp: good_cache_def)
  have ne: "c_entries c \<noteq> []" using cache_rel_bounds(1)[OF rel] .
  show ?thesis
  proof (rule find_rel[OF rel, of l])
    fix i d assume "cache_find_index c l = Some (int i)"
    then show ?thesis using g ne by (auto simp: odfs_cache_retain_def)
  next
    assume m: "cache_find_index c l = Some (-1)" "map_of xs l = None"
    from install_rel[OF rel m(2), of "disc l"] disc_len[of l] ssz obtain v c' where
      c': "cache_install c l (disc l) = Some (int v, c')" "same_env c c'"
        "cache_rel c' (lru_install (c_capacity c) l (disc l) xs)" by auto
    have "good_cache c' (lru_install (c_capacity c) l (disc l) xs)"
      using g c' set_lru_install[of "c_capacity c" l "disc l" xs] by (auto simp: good_cache_def same_env_def)
    then show ?thesis using ne m c' by (auto simp: odfs_cache_retain_def same_env_def)
  qed
qed

lemma find_index_frame:
  assumes "cache_rel c xs" "c_entries c' = c_entries c" "\<And>lru free. rep c' [] lru free = rep c [] lru free"
  shows "cache_find_index c' l = cache_find_index c l"
proof -
  from assms(1) obtain lru free where r: "rep c [] lru free" by (rule cache_relE)
  then have r': "rep c' [] lru free" by (simp add: assms(3))
  have inj: "inj_on (\<lambda>i. e_lba (c_entries c ! i)) (set lru)" using r by (simp add: rep_def)
  show ?thesis
    by (rule find_cases[OF r, of l]; rule find_cases[OF r', of l])
      (auto simp: assms(2) contents_fst dest: inj_onD[OF inj])
qed

lemma read_cached_ok:
  assumes g: "good_cache c xs"
  shows "\<exists>r c' xs'. odfs_cache_read_cached c l = Some (r, c') \<and> good_cache c' xs' \<and> c_capacity c' = c_capacity c \<and>
    (case r of None \<Rightarrow> l \<notin> fst ` set xs | Some idx \<Rightarrow> cache_data c' idx = Some (disc l))"
proof -
  have rel: "cache_rel c xs" using g by (auto simp: good_cache_def)
  have ne: "c_entries c \<noteq> []" using cache_rel_bounds(1)[OF rel] .
  define c1 where "c1 = bump_clock (bump_hits (bump_reads c))"
  have g1: "good_cache c1 xs" using g by (simp add: c1_def)
  note rel1 = good_cache_rel[OF g1]
  show ?thesis
  proof (rule find_rel[OF rel, of l])
    assume "cache_find_index c l = Some (-1)" "map_of xs l = None"
    then show ?thesis using g ne by (auto simp: odfs_cache_read_cached_def map_of_eq_None_iff)
  next
    fix i d assume hit: "cache_find_index c l = Some (int i)" "map_of xs l = Some d"
    have "cache_find_index c1 l = Some (int i)"
      using find_index_frame[OF rel, of c1 l] hit(1) by (simp add: c1_def bump_clock_def bump_hits_def bump_reads_def)
    from touch_rel[OF rel1 this] hit(2) obtain c' where c': "touch_entry c1 (int i) = Some c'" "cache_rel c' (lru_touch l xs)"
      "same_env c1 c'" "cache_data c' (int i) = Some d" by auto
    have "odfs_cache_read_cached c l = Some (Some (int i), c')"
      using ne hit(1) c'(1) by (auto simp: odfs_cache_read_cached_def c1_def[symmetric] touch_entry_def bind_eq_Some_conv)
    moreover have "good_cache c' (lru_touch l xs)"
      using c'(2,3) g1 by (auto simp: good_cache_def same_env_def lru_touch_def)
    moreover have "d = disc l" using g hit(2) map_of_SomeD[of xs l d] by (simp add: good_cache_def)
    moreover have "c_capacity c' = c_capacity c" using c'(3) by (simp add: same_env_def c1_def bump_clock_def bump_hits_def bump_reads_def)
    ultimately show ?thesis using c'(4) by auto
  qed
qed
end

section \<open>Sequences of operations\<close>

datatype cache_op =
    Op_read u32
  | Op_read_cached u32
  | Op_retain u32 "u8 list"
  | Op_contains u32
  | Op_read_bytes u32 u64 nat
  | Op_flush

text \<open>What the caller of an operation sees.\<close>

datatype cache_obs =
    Obs_sector "odfs_err + u8 list"
  | Obs_cached "u8 list option"
  | Obs_err odfs_err
  | Obs_contains bool
  | Obs_bytes odfs_err "u8 list"
  | Obs_none

fun cache_exec :: "cache_op \<Rightarrow> 'm odfs_cache \<Rightarrow> (cache_obs \<times> 'm odfs_cache) option" where
  "cache_exec (Op_read l) c = do {
     (r, c) \<leftarrow> odfs_cache_read c l;
     case r of
       Inl e \<Rightarrow> Some (Obs_sector (Inl e), c)
     | Inr i \<Rightarrow> do { d \<leftarrow> cache_data c i; Some (Obs_sector (Inr d), c) } }"
| "cache_exec (Op_read_cached l) c = do {
     (r, c) \<leftarrow> odfs_cache_read_cached c l;
     case r of
       None \<Rightarrow> Some (Obs_cached None, c)
     | Some i \<Rightarrow> do { d \<leftarrow> cache_data c i; Some (Obs_cached (Some d), c) } }"
| "cache_exec (Op_retain l d) c = do { (e, c) \<leftarrow> odfs_cache_retain c l d; Some (Obs_err e, c) }"
| "cache_exec (Op_contains l) c = do { b \<leftarrow> odfs_cache_contains c l; Some (Obs_contains b, c) }"
| "cache_exec (Op_read_bytes start off want) c = do {
     (e, buf, n, c) \<leftarrow> odfs_cache_read_bytes c start off (zero_bytes want) want;
     Some (Obs_bytes e (take n buf), c) }"
| "cache_exec Op_flush c = Some (Obs_none, odfs_cache_flush c)"

fun cache_run :: "cache_op list \<Rightarrow> 'm odfs_cache \<Rightarrow> (cache_obs list \<times> 'm odfs_cache) option" where
  "cache_run [] c = Some ([], c)"
| "cache_run (op # os) c = do {
     (ob, c) \<leftarrow> cache_exec op c;
     (obs, c) \<leftarrow> cache_run os c;
     Some (ob # obs, c) }"

text \<open>Data handed to a caller is data of the disc.\<close>

fun obs_ok :: "(u32 \<Rightarrow> u8 list) \<Rightarrow> nat \<Rightarrow> cache_op \<Rightarrow> cache_obs \<Rightarrow> bool" where
  "obs_ok disc ss (Op_read l) (Obs_sector (Inl e)) = (e \<noteq> ODFS_OK)"
| "obs_ok disc ss (Op_read l) (Obs_sector (Inr d)) = (d = disc l)"
| "obs_ok disc ss (Op_read_cached l) (Obs_cached None) = True"
| "obs_ok disc ss (Op_read_cached l) (Obs_cached (Some d)) = (d = disc l)"
| "obs_ok disc ss (Op_retain l d) (Obs_err e) = (e = ODFS_OK)"
| "obs_ok disc ss (Op_contains l) (Obs_contains b) = True"
| "obs_ok disc ss (Op_read_bytes start off want) (Obs_bytes e bs) =
     (e = ODFS_OK \<longrightarrow> bs = disc_range disc ss start (unat off) want)"
| "obs_ok disc ss Op_flush Obs_none = True"
| "obs_ok disc ss _ _ = False"

context atomic_media
begin

lemma exec_ok:
  assumes g: "good_cache c xs" and ss2: "2 \<le> ss" and ret: "\<And>l d. op = Op_retain l d \<Longrightarrow> d = disc l"
  shows "\<exists>ob c' xs'. cache_exec op c = Some (ob, c') \<and> good_cache c' xs' \<and> obs_ok disc ss op ob"
proof (cases op)
  case (Op_read l)
  show ?thesis by (rule cache_read_ok[OF g, of l]) (auto simp: Op_read dest: fails_err)
next
  case (Op_read_cached l)
  from read_cached_ok[OF g, of l] show ?thesis by (auto simp: Op_read_cached split: option.splits)
next
  case (Op_retain l d)
  from retain_ok[OF g, of l] ret[OF Op_retain] show ?thesis by (auto simp: Op_retain)
next
  case (Op_contains l)
  have rel: "cache_rel c xs" using g by (simp add: good_cache_def)
  have "\<exists>b. odfs_cache_contains c l = Some b"
    by (rule find_rel[OF rel, of l]) (auto simp: odfs_cache_contains_def)
  then show ?thesis using g by (auto simp: Op_contains)
next
  case (Op_read_bytes start off want)
  have "want \<le> length (zero_bytes want)" by simp
  from read_bytes_ok[OF g this ss2, of start off] obtain err buf' n c' where
    r: "odfs_cache_read_bytes c start off (zero_bytes want) want = Some (err, buf', n, c')"
    "if 0 < want \<and> 2 ^ 32 \<le> unat start + unat off div ss
     then err = ODFS_ERR_RANGE \<and> buf' = zero_bytes want \<and> n = want \<and> c' = c
     else bytes_ok start (unat off) want (zero_bytes want) (err, buf', n, c')" by blast
  have "take n buf' = disc_range disc ss start (unat off) want" if "err = ODFS_OK"
  proof -
    from r(2) that have b: "bytes_ok start (unat off) want (zero_bytes want) (err, buf', n, c')" by (simp split: if_splits)
    then have "n = want" using that stopped_ok by (auto simp: bytes_ok_def)
    with b show ?thesis by (simp add: bytes_ok_def filled_def)
  qed
  moreover have "\<exists>xs'. good_cache c' xs'" using r(2) g by (auto simp: bytes_ok_def split: if_splits)
  ultimately show ?thesis using r(1) by (auto simp: Op_read_bytes)
next
  case Op_flush
  then show ?thesis using flush_ok[OF g] by auto
qed

lemma run_ok:
  assumes "good_cache c xs" "2 \<le> ss" "\<And>l d. Op_retain l d \<in> set os \<Longrightarrow> d = disc l"
  shows "\<exists>obs c' xs'. cache_run os c = Some (obs, c') \<and> good_cache c' xs' \<and> list_all2 (obs_ok disc ss) os obs"
  using assms
proof (induction os arbitrary: c xs)
  case (Cons op os)
  have "\<exists>ob c' xs'. cache_exec op c = Some (ob, c') \<and> good_cache c' xs' \<and> obs_ok disc ss op ob"
    by (rule exec_ok[OF Cons.prems(1,2)]) (use Cons.prems(3) in simp)
  then obtain ob c1 xs1 where 1: "cache_exec op c = Some (ob, c1)" "good_cache c1 xs1" "obs_ok disc ss op ob" by blast
  have "\<exists>obs c' xs'. cache_run os c1 = Some (obs, c') \<and> good_cache c' xs' \<and> list_all2 (obs_ok disc ss) os obs"
    by (rule Cons.IH[OF 1(2) Cons.prems(2)]) (use Cons.prems(3) in simp)
  with 1 show ?case by auto
qed auto

lemma init_good:
  assumes "odfs_cache_init uninit h \<lparr>mops = ops, mctx = m\<rparr> capacity = (ODFS_OK, c, h')" "good m"
  shows "good_cache c []"
  using cache_init_ok_rel[OF assms(1)] assms(2) size_ok
  by (auto simp: good_cache_def good_media_def odfs_media_sector_size_def)

end

section \<open>Initialisation succeeds\<close>

lemma u64_mul_div:
  assumes "0 < k" "k < 2 ^ 32"
  shows "(ucast (x :: u32) :: u64) * of_nat k div of_nat k = ucast x"
proof -
  have "unat x * k < 2 ^ 32 * 2 ^ 32" using assms unat_u32_lt[of x] by (intro mult_strict_mono) auto
  then have "unat x * k < 2 ^ 64" by simp
  moreover have uk: "unat (of_nat k :: u64) = k" using assms by (simp add: unat_u64_of_nat)
  ultimately have "unat ((ucast x :: u64) * of_nat k) = unat x * k"
    by (simp add: unat_u64_mult unat_ucast_u32_u64)
  then have "unat ((ucast x :: u64) * of_nat k div of_nat k) = unat x"
    using assms(1) by (simp add: unat_div uk)
  then show ?thesis by (simp add: word_unat_eq_iff unat_ucast_u32_u64)
qed

lemma cache_init_plenty:
  assumes "capacity \<noteq> 0" "capacity \<le> 0x7FFFFFFF" "odfs_media_sector_size media = s" "s \<noteq> 0" "s AND (s - 1) = 0"
  shows "\<exists>c. odfs_cache_init uninit heap_plenty media capacity = (ODFS_OK, c, heap_plenty)"
proof -
  obtain es where es: "alloc_entries uninit (unat s) heap_plenty 0 (unat capacity) = (Some es, heap_plenty)"
    using alloc_entries_plenty by blast
  have "\<not> capacity > (0xFFFFFFFF - 1) div 2" using assms(2) by (simp add: not_less)
  moreover have "(ucast capacity :: u64) * 32 div 32 = ucast capacity" "(ucast capacity :: u64) * 4 div 4 = ucast capacity"
    "(ucast (capacity * 2 + 1) :: u64) * 4 div 4 = ucast (capacity * 2 + 1)"
    using u64_mul_div[of 32 capacity] u64_mul_div[of 4 capacity] u64_mul_div[of 4 "capacity * 2 + 1"] by simp_all
  ultimately have "odfs_cache_init uninit heap_plenty media capacity = cache_init_finish uninit heap_plenty media capacity s es"
    using assms es by (simp add: odfs_cache_init_def)
  then show ?thesis using assms(5) by (auto simp: cache_init_finish_def Let_def)
qed

section \<open>Properties\<close>

text \<open>C1: over a medium that satisfies the contract, reading a sector refines an LRU cache.  The
  call never runs into undefined behaviour and always returns.  A hit moves the sector to the
  front; a miss installs the requested sector (and up to seven sectors after it, when the misses
  are sequential), the requested one in front, evicting from the back when the cache is full; a
  failed read changes nothing and passes on the error of the medium.  The returned buffer holds the
  sector of the disc.\<close>

theorem cache_read_refines_lru:
  assumes "atomic_media ops disc ss good" "disc_media.good_cache ops disc ss good c xs"
  shows "\<exists>r c'. odfs_cache_read c l = Some (r, c') \<and>
    (case r of
       Inl e \<Rightarrow> disc_media.fails ops good l 1 e \<and> l \<notin> fst ` set xs \<and> disc_media.good_cache ops disc ss good c' xs
     | Inr idx \<Rightarrow> cache_data c' idx = Some (disc l) \<and>
         (if l \<in> fst ` set xs then disc_media.good_cache ops disc ss good c' (lru_touch l xs)
          else \<exists>n. 1 \<le> n \<and> n \<le> ODFS_CACHE_READAHEAD \<and>
            disc_media.good_cache ops disc ss good c' (lru_install_run (c_capacity c) disc l n xs)))"
proof -
  have d: "disc_media ops disc ss good" using assms(1) by (simp add: atomic_media_def)
  from disc_media.cache_read_spec[OF d assms(2) atomic_media.quiet[OF assms(1)], of l] show ?thesis by blast
qed

text \<open>A zero-filled image of two sectors, and a cache of 40 blocks over it.\<close>

definition demo_media :: "file_media_ctx odfs_media" where
  "demo_media = odfs_media_open_image (zero_bytes 4096)"

lemma demo_whole: "file_whole (mctx demo_media)"
  by (simp add: demo_media_def odfs_media_open_image_def file_whole_def file_ok_def HOST_SECTOR_SIZE_def)

lemma demo_ops: "\<lparr>mops = file_media_ops, mctx = mctx demo_media\<rparr> = demo_media"
  by (simp add: demo_media_def odfs_media_open_image_def)

lemma demo_init: "\<exists>c. odfs_cache_init (\<lambda>_ _. 0) heap_plenty demo_media 40 = (ODFS_OK, c, heap_plenty)"
  by (rule cache_init_plenty[of _ _ 2048])
    (simp_all add: odfs_media_sector_size_def demo_media_def odfs_media_open_image_def file_media_ops_def
      file_sector_size_def HOST_SECTOR_SIZE_def)

lemma demo_good:
  assumes "odfs_cache_init (\<lambda>_ _. 0) heap_plenty demo_media 40 = (ODFS_OK, c, heap_plenty)"
  shows "disc_media.good_cache file_media_ops (file_disc (mctx demo_media)) HOST_SECTOR_SIZE
    (\<lambda>m. m = mctx demo_media \<and> file_whole (mctx demo_media)) c []"
  by (rule file_atomic.init_good[where m = "mctx demo_media", unfolded demo_ops, OF assms]) (simp add: demo_whole)

theorem cache_read_refines_lru_witness:
  "\<exists>c r c'. odfs_cache_init (\<lambda>_ _. 0) heap_plenty demo_media 40 = (ODFS_OK, c, heap_plenty) \<and>
     odfs_cache_read c 1 = Some (r, c')"
  using demo_init cache_read_refines_lru[OF file_atomic.atomic_media_axioms demo_good, of _ 1] by blast

text \<open>C5: reading bytes from an extent.  The call returns, and the number \<open>n\<close> it reports is the number
  of leading bytes of the buffer that are the bytes of the disc at the requested offset; it is all
  that was asked for exactly when the call succeeds, and otherwise the medium refused the next sector
  or there is none.  Bytes behind the request are not touched, and no
  sector number overflows: an extent beyond sector 2^32 - 1 is refused.\<close>

theorem cache_read_bytes_correct:
  assumes "atomic_media ops disc ss good" "disc_media.good_cache ops disc ss good c xs" "want \<le> length buf" "2 \<le> ss"
  shows "\<exists>err buf' n c'. odfs_cache_read_bytes c start offset buf want = Some (err, buf', n, c') \<and>
    (\<exists>xs'. disc_media.good_cache ops disc ss good c' xs') \<and>
    (if 0 < want \<and> 2 ^ 32 \<le> unat start + unat offset div ss
     then err = ODFS_ERR_RANGE \<and> buf' = buf \<and> n = want
     else n \<le> want \<and> take n buf' = disc_range disc ss start (unat offset) n \<and> drop want buf' = drop want buf
       \<and> (if n = want then err = ODFS_OK
          else err = ODFS_ERR_RANGE \<and> unat start + (unat offset + n) div ss = 2 ^ 32 \<or>
            (\<exists>k. disc_media.fails ops good (start + of_nat ((unat offset + n) div ss)) k err \<and> (k = 1 \<or> unat k * ss \<le> want - n)))
       \<and> (0 < n \<longrightarrow> unat start + (unat offset + n - 1) div ss < 2 ^ 32))"
proof -
  from atomic_media.read_bytes_ok[OF assms, of start offset] obtain err buf' n c' where
    r: "odfs_cache_read_bytes c start offset buf want = Some (err, buf', n, c')"
    "if 0 < want \<and> 2 ^ 32 \<le> unat start + unat offset div ss
     then err = ODFS_ERR_RANGE \<and> buf' = buf \<and> n = want \<and> c' = c
     else atomic_media.bytes_ok ops disc ss good start (unat offset) want buf (err, buf', n, c')" by blast
  show ?thesis
    by (intro exI[of _ err] exI[of _ buf'] exI[of _ n] exI[of _ c'] conjI r(1))
      (use r(2) assms(2) in \<open>auto simp: atomic_media.bytes_ok_def[OF assms(1)] atomic_media.stopped_def[OF assms(1)] filled_def split: if_splits\<close>)
qed

theorem cache_read_bytes_correct_witness:
  "\<exists>c r. odfs_cache_init (\<lambda>_ _. 0) heap_plenty demo_media 40 = (ODFS_OK, c, heap_plenty) \<and>
     odfs_cache_read_bytes c 0 100 (zero_bytes 3000) 3000 = Some r"
proof -
  from demo_init obtain c where c: "odfs_cache_init (\<lambda>_ _. 0) heap_plenty demo_media 40 = (ODFS_OK, c, heap_plenty)" ..
  have "2 \<le> HOST_SECTOR_SIZE" "3000 \<le> length (zero_bytes 3000)" by (simp_all add: HOST_SECTOR_SIZE_def)
  from cache_read_bytes_correct[OF file_atomic.atomic_media_axioms demo_good[OF c] this(2,1), of 0 100] c
  show ?thesis by blast
qed

text \<open>C17: any sequence of cache operations on a freshly initialised cache runs to its end, and all
  data it hands out is data of the disc.  (Data passed to \<open>odfs_cache_retain\<close> must come from the disc,
  as its documentation asks.)\<close>

theorem cache_run_coherent:
  assumes "atomic_media ops disc ss good" "good m" "2 \<le> ss"
    "odfs_cache_init uninit h \<lparr>mops = ops, mctx = m\<rparr> capacity = (ODFS_OK, c, h')"
    "\<And>l d. Op_retain l d \<in> set os \<Longrightarrow> d = disc l"
  shows "\<exists>obs c'. cache_run os c = Some (obs, c') \<and> list_all2 (obs_ok disc ss) os obs"
  using atomic_media.run_ok[OF assms(1) atomic_media.init_good[OF assms(1) assms(4) assms(2)] assms(3), of os] assms(5)
  by blast

theorem cache_run_coherent_witness:
  "\<exists>c obs c'. odfs_cache_init (\<lambda>_ _. 0) heap_plenty demo_media 40 = (ODFS_OK, c, heap_plenty) \<and>
     cache_run [Op_read 0, Op_flush, Op_read_bytes 0 5 4000, Op_read 7] c = Some (obs, c') \<and>
     list_all2 (obs_ok (file_disc (mctx demo_media)) HOST_SECTOR_SIZE)
       [Op_read 0, Op_flush, Op_read_bytes 0 5 4000, Op_read 7] obs"
proof -
  from demo_init obtain c where c: "odfs_cache_init (\<lambda>_ _. 0) heap_plenty demo_media 40 = (ODFS_OK, c, heap_plenty)" ..
  have "2 \<le> HOST_SECTOR_SIZE" by (simp add: HOST_SECTOR_SIZE_def)
  moreover have "odfs_cache_init (\<lambda>_ _. 0) heap_plenty \<lparr>mops = file_media_ops, mctx = mctx demo_media\<rparr> 40 = (ODFS_OK, c, heap_plenty)"
    unfolding demo_ops by (rule c)
  ultimately show ?thesis using
    cache_run_coherent[OF file_atomic.atomic_media_axioms[of "mctx demo_media"],
      of "mctx demo_media" "\<lambda>_ _. 0" heap_plenty 40 c heap_plenty "[Op_read 0, Op_flush, Op_read_bytes 0 5 4000, Op_read 7]"] c demo_whole
    by auto
qed

text \<open>C22: when every allocation succeeds, \<open>odfs_cache_init\<close> succeeds exactly for a capacity between 1
  and 0x7FFFFFFF and a sector size that is a power of two; whenever it succeeds, on any allocator,
  the cache is empty and its representation invariant holds.\<close>

theorem cache_init_correct:
  "(fst (odfs_cache_init uninit heap_plenty media capacity) = ODFS_OK \<longleftrightarrow>
     capacity \<noteq> 0 \<and> capacity \<le> 0x7FFFFFFF \<and> odfs_media_sector_size media \<noteq> 0 \<and>
     odfs_media_sector_size media AND (odfs_media_sector_size media - 1) = 0) \<and>
   (case odfs_cache_init uninit h media capacity of (err, c, h') \<Rightarrow>
     err = ODFS_OK \<longrightarrow> cache_rel c [] \<and> c_media c = Some media \<and> c_capacity c = unat capacity
       \<and> c_sector_size c = unat (odfs_media_sector_size media))"
proof -
  have 1: "fst (odfs_cache_init uninit heap_plenty media capacity) = ODFS_OK"
    if "capacity \<noteq> 0" "capacity \<le> 0x7FFFFFFF" "odfs_media_sector_size media \<noteq> 0"
      "odfs_media_sector_size media AND (odfs_media_sector_size media - 1) = 0"
    using cache_init_plenty[OF that(1,2) refl that(3,4), of uninit] by auto
  have 2: "capacity \<noteq> 0 \<and> capacity \<le> 0x7FFFFFFF \<and> odfs_media_sector_size media \<noteq> 0 \<and>
     odfs_media_sector_size media AND (odfs_media_sector_size media - 1) = 0"
    if "fst (odfs_cache_init uninit heap_plenty media capacity) = ODFS_OK"
  proof -
    from that obtain c h' where i: "odfs_cache_init uninit heap_plenty media capacity = (ODFS_OK, c, h')"
      by (metis prod.collapse)
    show ?thesis
      by (rule cache_init_okE[OF i]) (auto simp: not_less cache_init_finish_def Let_def split: if_splits)
  qed
  from 1 2 cache_init_ok_rel[of uninit h media capacity] show ?thesis
    by (auto split: prod.splits)
qed

theorem cache_init_correct_witness:
  "fst (odfs_cache_init (\<lambda>_ _. 0) heap_plenty demo_media 40) = ODFS_OK"
  using cache_init_correct[of "\<lambda>_ _. 0" demo_media 40 heap_plenty]
  by (simp add: odfs_media_sector_size_def demo_media_def odfs_media_open_image_def file_media_ops_def
      file_sector_size_def HOST_SECTOR_SIZE_def)

end
