(* ===== verification/Session.thy ===== *)
theory Session
  imports File_Media
begin

text \<open>
  Multisession discovery, \<open>odfs_find_last_session\<close> of \<^verbatim>\<open>core/session.c\<close>: the explicit
  last-session query of the device, the table of contents, and the scan of an image for primary
  volume descriptors.  The scan jumps by a volume size read from the disc; it is a partial function
  because a jump may go backwards.
\<close>

definition ISO_VD_START_OFFSET :: u32 where "ISO_VD_START_OFFSET = 16"
definition ISO_SECTOR_SIZE :: nat where "ISO_SECTOR_SIZE = 2048"

section \<open>The table of contents\<close>

text \<open>The tracks \<open>0 .. session_count - 1\<close>; the array has 99 entries.\<close>

definition toc_entries :: "odfs_toc \<Rightarrow> odfs_session list option" where
  "toc_entries toc = rdn (toc_sessions toc) 0 (unat (toc_session_count toc))"

definition is_data_track :: "odfs_session \<Rightarrow> bool" where
  "is_data_track s = (sess_control s AND 4 \<noteq> 0)"

text \<open>Strategy 1: the first data track at or after the start of the last session.\<close>

definition explicit_session :: "odfs_err \<Rightarrow> odfs_toc \<Rightarrow> u32 \<Rightarrow> u32 option" where
  "explicit_session err toc explicit_lba =
     (if err = ODFS_OK \<and> toc_session_count toc > 0 then do {
        ts \<leftarrow> toc_entries toc;
        Some (case find (\<lambda>s. is_data_track s \<and> \<not> sess_start_lba s < explicit_lba) ts of
          Some s \<Rightarrow> sess_start_lba s
        | None \<Rightarrow> explicit_lba) }
      else Some explicit_lba)"

text \<open>Strategy 2: the last data track of the table of contents; if there is none, \<open>*last_lba_out\<close> stays as
  it is.\<close>

definition toc_session :: "odfs_toc \<Rightarrow> u32 \<Rightarrow> u32 option" where
  "toc_session toc out = do {
     ts \<leftarrow> toc_entries toc;
     Some (case find is_data_track (rev ts) of Some s \<Rightarrow> sess_start_lba s | None \<Rightarrow> out) }"

section \<open>The scan\<close>

text \<open>Reading one sector into the buffer on the stack.\<close>

definition scan_read :: "'m odfs_media \<Rightarrow> u32 \<Rightarrow> u8 list \<Rightarrow> (odfs_err \<times> u8 list \<times> 'm odfs_media) option" where
  "scan_read m l buf = (case odfs_media_read m l 1 of (err, bs, m) \<Rightarrow> do { buf \<leftarrow> wrn buf 0 bs; Some (err, buf, m) })"

definition is_pvd :: "u8 list \<Rightarrow> bool" where
  "is_pvd buf = (take 1 buf = [1] \<and> take 5 (drop 1 buf) = str_bytes ''CD001'')"

partial_function (option) pvd_scan ::
    "'m odfs_media \<Rightarrow> u8 list \<Rightarrow> u32 \<Rightarrow> u32 \<Rightarrow> u32 \<Rightarrow> (u32 \<times> 'm odfs_media) option" where
  "pvd_scan m buf tot l best =
     (if l + ISO_VD_START_OFFSET < tot then do {
        (err, buf, m) \<leftarrow> scan_read m l buf;
        if err \<noteq> ODFS_OK then Some (best, m)
        else if is_pvd buf then do {
          let session_start = l - ISO_VD_START_OFFSET;
          let best = (if session_start > best \<or> best = 0 then session_start else best);
          vol_size \<leftarrow> le32 buf 80;
          if vol_size > 0 \<and> session_start + vol_size + ISO_VD_START_OFFSET < tot
          then pvd_scan m buf tot (session_start + vol_size + ISO_VD_START_OFFSET) best
          else Some (best, m) }
        else Some (best, m) }
      else Some (best, m))"

text \<open>\<open>odfs_find_last_session\<close>: the error code (always \<open>ODFS_OK\<close>), \<open>*last_lba_out\<close> and the medium.\<close>

definition odfs_find_last_session :: "'m odfs_media \<Rightarrow> u8 list \<Rightarrow> (odfs_err \<times> u32 \<times> 'm odfs_media) option" where
  "odfs_find_last_session m buf =
     (case odfs_media_read_last_session_lba m of
        (err1, out, m) \<Rightarrow>
          if err1 = ODFS_OK then
            (case odfs_media_read_toc m of (err2, toc, m) \<Rightarrow> do {
               l \<leftarrow> explicit_session err2 toc out; Some (ODFS_OK, l, m) })
          else
            (case odfs_media_read_toc m of (err2, toc, m) \<Rightarrow>
               if err2 = ODFS_OK \<and> toc_session_count toc > 0 then do {
                 l \<leftarrow> toc_session toc out; Some (ODFS_OK, l, m) }
               else let tot = odfs_media_sector_count m in
                 if tot = 0 then Some (ODFS_OK, out, m)
                 else do {
                   (best, m) \<leftarrow> pvd_scan m buf tot ISO_VD_START_OFFSET 0;
                   Some (ODFS_OK, if best > 0 then best else out, m) }))"

section \<open>Properties\<close>

text \<open>The scan over a disc, without the medium: where the walk goes.\<close>

inductive scan_path :: "(u32 \<Rightarrow> u8 list) \<Rightarrow> u32 \<Rightarrow> u32 \<Rightarrow> u32 \<Rightarrow> bool" for disc tot l where
  scan_here: "scan_path disc tot l l"
| scan_jump: "scan_path disc tot l k \<Longrightarrow> k + ISO_VD_START_OFFSET < tot \<Longrightarrow> is_pvd (disc k) \<Longrightarrow>
    le32 (disc k) 80 = Some v \<Longrightarrow> v > 0 \<Longrightarrow> k + v < tot \<Longrightarrow> scan_path disc tot l (k + v)"

inductive_cases scan_pathE: "scan_path disc tot l k"

lemma jump_eq: "l - ISO_VD_START_OFFSET + v + ISO_VD_START_OFFSET = l + v"
  by (simp add: ISO_VD_START_OFFSET_def)

context disc_media
begin

text \<open>When the jumps go forward the scan returns, and what it returns is the start of the last session on
  its path.\<close>

lemma scan_read_ok:
  assumes "good_media m" "length buf = ss"
  obtains (err) e buf' m' where "scan_read m l buf = Some (e, buf', m')" "e \<noteq> ODFS_OK"
  | (ok) m' where "scan_read m l buf = Some (ODFS_OK, disc l, m')" "good_media m'"
proof -
  obtain e bs m' where r: "odfs_media_read m l 1 = (e, bs, m')" by (metis prod_cases3)
  from media_read[OF assms(1) r] have g: "good_media m'" "length bs \<le> ss" "e = ODFS_OK \<longrightarrow> bs = disc l" by auto
  then have w: "scan_read m l buf = Some (e, bs @ drop (length bs) buf, m')"
    using assms(2) r by (simp add: scan_read_def wrn_def)
  show thesis
  proof (cases "e = ODFS_OK")
    case True
    then have "bs @ drop (length bs) buf = disc l" using g(3) assms(2) disc_len[of l] by simp
    with True w g(1) ok show thesis by simp
  qed (use w err in simp)
qed

lemma pvd_scan_returns:
  assumes fwd: "\<And>k v. is_pvd (disc k) \<Longrightarrow> le32 (disc k) 80 = Some v \<Longrightarrow> unat k + unat v < 2 ^ 32"
    and "good_media m" "length buf = ss" "84 \<le> ss"
  shows "\<exists>b m'. pvd_scan m buf tot l best = Some (b, m') \<and>
    (b = best \<or> (\<exists>k. scan_path disc tot l k \<and> is_pvd (disc k) \<and> b = k - ISO_VD_START_OFFSET))"
  using assms(2,3)
proof (induction "2 ^ 32 - unat l" arbitrary: m buf l best rule: less_induct)
  case less
  note unf = pvd_scan.simps[of m buf tot l best]
  show ?case
  proof (cases "l + ISO_VD_START_OFFSET < tot")
    case False
    then show ?thesis using unf by simp
  next
    case in_range: True
    show ?thesis
    proof (rule scan_read_ok[OF less.prems, of l])
      fix e buf' m' assume "scan_read m l buf = Some (e, buf', m')" "e \<noteq> ODFS_OK"
      then show ?thesis using unf in_range by simp
    next
      fix m' assume r: "scan_read m l buf = Some (ODFS_OK, disc l, m')" "good_media m'"
      show ?thesis
      proof (cases "is_pvd (disc l)")
        case False
        then show ?thesis using unf in_range r by simp
      next
        case pvd: True
        obtain v where v: "le32 (disc l) 80 = Some v" using le32_in[of 80 "disc l"] assms(4) disc_len[of l] by auto
        define b where "b = (if l - ISO_VD_START_OFFSET > best \<or> best = 0 then l - ISO_VD_START_OFFSET else best)"
        have unf2: "pvd_scan m buf tot l best = (if v > 0 \<and> l + v < tot then pvd_scan m' (disc l) tot (l + v) b else Some (b, m'))"
          using unf in_range r pvd v by (simp add: jump_eq b_def[symmetric])
        have bc: "b = best \<or> b = l - ISO_VD_START_OFFSET" by (simp add: b_def)
        show ?thesis
        proof (cases "v > 0 \<and> l + v < tot")
          case False
          then show ?thesis using unf2 bc pvd scan_here by auto
        next
          case True
          have nw: "unat l + unat v < 2 ^ 32" by (rule fwd[OF pvd v])
          then have "unat (l + v) = unat l + unat v" by (simp add: unat_u32_add)
          then have dec: "2 ^ 32 - unat (l + v) < 2 ^ 32 - unat l" using True nw by (simp add: word_less_nat_alt) linarith
          have step: "scan_path disc tot l k" if "scan_path disc tot (l + v) k" for k
            using that
          proof induction
            case scan_here
            show ?case by (rule scan_jump[OF scan_path.scan_here]) (use in_range pvd v True in auto)
          next
            case (scan_jump k w)
            then show ?case by (intro scan_path.scan_jump) auto
          qed
          from less.hyps[OF dec r(2) disc_len, of l b] obtain b' m'' where
            "pvd_scan m' (disc l) tot (l + v) b = Some (b', m'')"
            "b' = b \<or> (\<exists>k. scan_path disc tot (l + v) k \<and> is_pvd (disc k) \<and> b' = k - ISO_VD_START_OFFSET)" by blast
          then show ?thesis using unf2 True bc pvd scan_here step by auto
        qed
      qed
    qed
  qed
qed

text \<open>A pair of descriptors whose volume sizes lead from one to the other and back.\<close>

lemma pvd_scan_ping_pong:
  assumes a: "is_pvd (disc 16)" "le32 (disc 16) 80 = Some 16" and b: "is_pvd (disc 32)" "le32 (disc 32) 80 = Some w" "32 + w = 16" "0 < w"
    and tot: "tot > 48" and rd: "\<And>m l. good_media m \<Longrightarrow> l = 16 \<or> l = 32 \<Longrightarrow> fst (odfs_media_read m l 1) = ODFS_OK"
    and "good_media m" "length buf = ss" "l = 16 \<or> l = 32"
  shows "pvd_scan m buf tot l best = None"
proof -
  have read: "\<exists>m'. scan_read m l buf = Some (ODFS_OK, disc l, m') \<and> good_media m'"
    if "good_media m" "length buf = ss" "l = 16 \<or> l = 32" for m buf l
    using rd[OF that(1,3)] by (rule_tac l = l in scan_read_ok[OF that(1,2)])
      (auto simp: scan_read_def bind_eq_Some_conv split: prod.splits)
  have "t = tot \<longrightarrow> \<not> (good_media m \<and> length buf = ss \<and> (l = 16 \<or> l = 32))"
    if "pvd_scan m buf t l best = Some y" for m buf t l best y
  proof (rule pvd_scan.raw_induct[of "\<lambda>m buf t l best y. t = tot \<longrightarrow> \<not> (good_media m \<and> length buf = ss \<and> (l = 16 \<or> l = 32))", OF _ that],
      intro impI notI)
    fix f :: "'m odfs_media \<Rightarrow> u8 list \<Rightarrow> u32 \<Rightarrow> u32 \<Rightarrow> u32 \<Rightarrow> (u32 \<times> 'm odfs_media) option"
    fix m buf t l best y
    assume IH: "\<And>m buf t l best y. f m buf t l best = Some y \<Longrightarrow> t = tot \<longrightarrow> \<not> (good_media m \<and> length buf = ss \<and> (l = 16 \<or> l = 32))"
      and body: "(if l + ISO_VD_START_OFFSET < t then do {
        (err, buf, m) \<leftarrow> scan_read m l buf;
        if err \<noteq> ODFS_OK then Some (best, m)
        else if is_pvd buf then do {
          let session_start = l - ISO_VD_START_OFFSET;
          let best = (if session_start > best \<or> best = 0 then session_start else best);
          vol_size \<leftarrow> le32 buf 80;
          if vol_size > 0 \<and> session_start + vol_size + ISO_VD_START_OFFSET < t
          then f m buf t (session_start + vol_size + ISO_VD_START_OFFSET) best
          else Some (best, m) }
        else Some (best, m) }
      else Some (best, m)) = Some y"
      and t: "t = tot" and st: "good_media m \<and> length buf = ss \<and> (l = 16 \<or> l = 32)"
    from st read obtain m' where r: "scan_read m l buf = Some (ODFS_OK, disc l, m')" "good_media m'" by blast
    have gt: "l + ISO_VD_START_OFFSET < tot" using st tot by (auto simp: ISO_VD_START_OFFSET_def word_less_nat_alt)
    show False
    proof (cases "l = 16")
      case True
      have "(32 :: u32) < tot" using tot by (simp add: word_less_nat_alt)
      with body True t gt r a IH[of m' "disc l" t 32 _ y] disc_len show False
        by (auto simp: jump_eq Let_def)
    next
      case False
      then have l: "l = 32" using st by simp
      have "(16 :: u32) < tot" using tot by (simp add: word_less_nat_alt)
      define b' where "b' = (if l - ISO_VD_START_OFFSET > best \<or> best = 0 then l - ISO_VD_START_OFFSET else best)"
      have "is_pvd (disc l)" "le32 (disc l) 80 = Some w" using b l by simp_all
      with body[unfolded t Let_def, folded b'_def] gt r(1)
      have "(if 0 < w \<and> l + w < tot then f m' (disc l) tot (l - ISO_VD_START_OFFSET + w + ISO_VD_START_OFFSET) b' else Some (b', m')) = Some y"
        by simp
      then have "f m' (disc l) tot 16 b' = Some y" unfolding jump_eq unfolding l b(3)
        using \<open>16 < tot\<close> b(4) by (simp only: simp_thms if_True)
      from IH[OF this] r(2) disc_len show False by simp
    qed
  qed
  from this[of m buf tot l best] show ?thesis
    using \<open>good_media m\<close> \<open>length buf = ss\<close> \<open>l = 16 \<or> l = 32\<close>
    by (cases "pvd_scan m buf tot l best") auto
qed

end

lemma if_pos_u32: "(if 0 < (b :: u32) then b else 0) = b"
  by (simp add: word_gt_0)

lemma plain_find_last_session:
  assumes "\<not> fm_is_cue fm" "fm_sector_count fm \<noteq> 0"
  shows "odfs_find_last_session \<lparr>mops = file_media_ops, mctx = fm\<rparr> buf = do {
    (best, m) \<leftarrow> pvd_scan \<lparr>mops = file_media_ops, mctx = fm\<rparr> buf (fm_sector_count fm) 16 0; Some (ODFS_OK, best, m) }"
  using assms
  by (auto simp: odfs_find_last_session_def odfs_media_read_last_session_lba_def odfs_media_read_toc_def
      file_media_ops_def file_read_toc_def odfs_media_sector_count_def file_sector_count_def Let_def
      ISO_VD_START_OFFSET_def if_pos_u32)

lemma plain_good_media:
  "file_ok fm \<Longrightarrow> disc_media.good_media file_media_ops (\<lambda>m. m = fm \<and> file_ok fm) \<lparr>mops = file_media_ops, mctx = fm\<rparr>"
  unfolding file_disc.good_media_def by simp


text \<open>An image with one or two descriptors.\<close>

definition pvd_sector :: "u8 list \<Rightarrow> u8 list" where
  "pvd_sector v = [1, 0x43, 0x44, 0x30, 0x30, 0x31] @ zero_bytes 74 @ v @ zero_bytes 1964"

definition two_pvd_image :: "u8 list \<Rightarrow> u8 list \<Rightarrow> u8 list" where
  "two_pvd_image v w = zero_bytes 32768 @ pvd_sector v @ zero_bytes 30720 @ pvd_sector w @ zero_bytes 40960"

definition two_pvd_ctx :: "u8 list \<Rightarrow> u8 list \<Rightarrow> file_media_ctx" where
  "two_pvd_ctx v w = mctx (odfs_media_open_image (two_pvd_image v w))"

lemma pvd_sector_length: "length v = 4 \<Longrightarrow> length (pvd_sector v) = 2048"
  by (simp add: pvd_sector_def)

lemma pvd_sector_pvd: "is_pvd (pvd_sector v)"
  by (simp add: is_pvd_def pvd_sector_def str_bytes_def)

lemma two_pvd_ctx_simps:
  assumes "length v = 4" "length w = 4"
  shows "\<not> fm_is_cue (two_pvd_ctx v w)" "fm_sector_count (two_pvd_ctx v w) = 53" "file_ok (two_pvd_ctx v w)"
  using assms
  by (simp_all add: two_pvd_ctx_def odfs_media_open_image_def file_ok_def two_pvd_image_def pvd_sector_length HOST_SECTOR_SIZE_def)

lemma two_pvd_disc:
  assumes "length v = 4" "length w = 4"
  shows "file_disc (two_pvd_ctx v w) 16 = pvd_sector v" "file_disc (two_pvd_ctx v w) 32 = pvd_sector w"
  using assms
  by (simp_all add: file_disc_def two_pvd_ctx_def odfs_media_open_image_def fread_at_def two_pvd_image_def
      HOST_SECTOR_SIZE_def pvd_sector_length pad_sector_id)

text \<open>C21: the search for the last session need not return.  Two descriptors whose volume sizes lead from
  sector 16 to sector 32 and, wrapping around at 2^32, back again keep it busy forever.\<close>

theorem last_session_scan_hangs:
  "odfs_find_last_session \<lparr>mops = file_media_ops, mctx = two_pvd_ctx [16, 0, 0, 0] [0xF0, 0xFF, 0xFF, 0xFF]\<rparr>
     (zero_bytes 2048) = None"
proof -
  define fm where "fm = two_pvd_ctx [16, 0, 0, 0] [0xF0, 0xFF, 0xFF, 0xFF]"
  note c = two_pvd_ctx_simps[of "[16, 0, 0, 0]" "[0xF0, 0xFF, 0xFF, 0xFF]", folded fm_def, simplified]
  note d = two_pvd_disc[of "[16, 0, 0, 0]" "[0xF0, 0xFF, 0xFF, 0xFF]", folded fm_def, simplified]
  have "pvd_scan \<lparr>mops = file_media_ops, mctx = fm\<rparr> (zero_bytes 2048) (fm_sector_count fm) 16 0 = None"
  proof (rule file_disc.pvd_scan_ping_pong[of fm])
    show "fst (odfs_media_read m l 1) = ODFS_OK"
      if "disc_media.good_media file_media_ops (\<lambda>m. m = fm \<and> file_ok fm) m" "l = 16 \<or> l = 32" for m l
    proof -
      from that(1) have "mops m = file_media_ops" "mctx m = fm" unfolding file_disc.good_media_def by auto
      then show ?thesis using that(2) c(1)
        by (auto simp: odfs_media_read_def file_media_ops_def file_read_sectors_def
          Let_def fread_at_def HOST_SECTOR_SIZE_def fm_def two_pvd_ctx_def odfs_media_open_image_def two_pvd_image_def pvd_sector_length)
    qed
    show "32 + 0xFFFFFFF0 = (16 :: u32)" by (simp add: word_unat_eq_iff unat_u32_add)
  qed (use c d plain_good_media[OF c(3)] in \<open>simp_all add: is_pvd_def str_bytes_def HOST_SECTOR_SIZE_def
      le32_def pvd_sector_def nth_append\<close>)
  with plain_find_last_session[OF c(1), of "zero_bytes 2048"] c(2) show ?thesis by (simp add: fm_def)
qed


end
