(* ===== verification/Rock_Ridge.thy ===== *)
theory Rock_Ridge
  imports Cache_Bytes Node
begin

text \<open>
  The Rock Ridge parser of \<^verbatim>\<open>backends/rock_ridge/rock_ridge.c\<close>.

  A pointer into a sector held by the block cache is an entry index and an offset; every access
  reads the entry's buffer as it is at that moment, because a continuation area makes the parser
  read further sectors, which may replace the buffer the caller's pointer is in.  The fixed
  buffers of \<open>rr_info_t\<close> are lists of their size.  \<open>None\<close> is an access outside a buffer.
\<close>

section \<open>Parsed attributes\<close>

record rr_info =
  rr_has_name :: bool
  rr_name :: "u8 list"
  rr_has_posix :: bool
  rr_mode :: u32
  rr_nlinks :: u32
  rr_uid :: u32
  rr_gid :: u32
  rr_has_timestamps :: bool
  rr_mtime :: odfs_timestamp
  rr_ctime :: odfs_timestamp
  rr_is_symlink :: bool
  rr_symlink_target :: "u8 list"
  rr_is_relocated :: bool
  rr_child_link_lba :: u32
  rr_has_child_link :: bool
  rr_has_amiga_protection :: bool
  rr_amiga_protection :: "u8 list"
  rr_has_amiga_comment :: bool
  rr_amiga_comment :: "u8 list"

definition RR_NAME_SIZE :: nat where "RR_NAME_SIZE = 512"

definition zero_rr_info :: rr_info where
  "zero_rr_info =
     \<lparr>rr_has_name = False, rr_name = zero_bytes RR_NAME_SIZE, rr_has_posix = False, rr_mode = 0,
      rr_nlinks = 0, rr_uid = 0, rr_gid = 0, rr_has_timestamps = False, rr_mtime = zero_timestamp,
      rr_ctime = zero_timestamp, rr_is_symlink = False, rr_symlink_target = zero_bytes RR_NAME_SIZE,
      rr_is_relocated = False, rr_child_link_lba = 0, rr_has_child_link = False,
      rr_has_amiga_protection = False, rr_amiga_protection = zero_bytes 4,
      rr_has_amiga_comment = False, rr_amiga_comment = zero_bytes ODFS_AMIGA_COMMENT_MAX\<rparr>"

definition rr_sig :: "u8 \<Rightarrow> u8 \<Rightarrow> u16" where
  "rr_sig a b = push_bit 8 (ucast a) OR ucast b"

definition RR_SIG_SP :: u16 where "RR_SIG_SP = 0x5350"
definition RR_SIG_CE :: u16 where "RR_SIG_CE = 0x4345"
definition RR_SIG_ST :: u16 where "RR_SIG_ST = 0x5354"
definition RR_SIG_AS :: u16 where "RR_SIG_AS = 0x4153"
definition RR_SIG_NM :: u16 where "RR_SIG_NM = 0x4E4D"
definition RR_SIG_PX :: u16 where "RR_SIG_PX = 0x5058"
definition RR_SIG_TF :: u16 where "RR_SIG_TF = 0x5446"
definition RR_SIG_SL :: u16 where "RR_SIG_SL = 0x534C"
definition RR_SIG_CL :: u16 where "RR_SIG_CL = 0x434C"
definition RR_SIG_RE :: u16 where "RR_SIG_RE = 0x5245"

lemmas rr_sig_defs = RR_SIG_SP_def RR_SIG_CE_def RR_SIG_ST_def RR_SIG_AS_def RR_SIG_NM_def
  RR_SIG_PX_def RR_SIG_TF_def RR_SIG_SL_def RR_SIG_CL_def RR_SIG_RE_def

definition RR_SL_MAX_PAYLOAD_LEN :: nat where "RR_SL_MAX_PAYLOAD_LEN = 250"

text \<open>\<open>strlen\<close> of a fixed buffer: it must hold a terminator.\<close>

definition strlen :: "u8 list \<Rightarrow> nat option" where
  "strlen buf = (if 0 \<in> set buf then Some (length (cstr buf)) else None)"

section \<open>Amiga attributes\<close>

definition rr_parse_comment :: "u8 list \<Rightarrow> nat \<Rightarrow> nat \<Rightarrow> nat \<Rightarrow> rr_info \<Rightarrow> rr_info option" where
  "rr_parse_comment d e entry_len pos info =
     (if pos + 1 > entry_len then Some info
      else do {
        frag \<leftarrow> rd d (e + pos);
        let frag_len = unat frag;
        let pos = pos + 1;
        if frag_len = 0 \<or> pos + (frag_len - 1) > entry_len then Some info
        else do {
          comment_pos \<leftarrow> (if rr_has_amiga_comment info then strlen (rr_amiga_comment info) else Some 0);
          let comment_pos = (if comment_pos \<ge> ODFS_AMIGA_COMMENT_MAX then ODFS_AMIGA_COMMENT_MAX - 1 else comment_pos);
          let room = ODFS_AMIGA_COMMENT_MAX - 1 - comment_pos;
          let copy_len = (if frag_len - 1 > room then room else frag_len - 1);
          buf \<leftarrow> (if copy_len > 0 then do {
                     src \<leftarrow> rdn d (e + pos) copy_len;
                     wrn (rr_amiga_comment info) comment_pos (src @ [0]) }
                  else Some (rr_amiga_comment info));
          Some (info\<lparr>rr_amiga_comment := buf, rr_has_amiga_comment := True\<rparr>) } })"

definition rr_parse_as :: "u8 list \<Rightarrow> nat \<Rightarrow> nat \<Rightarrow> rr_info \<Rightarrow> rr_info option" where
  "rr_parse_as d e entry_len info =
     (if entry_len < 5 then Some info
      else do {
        flags \<leftarrow> rd d (e + 4);
        if flags AND 0x01 \<noteq> 0 then
          if 5 + 4 > entry_len then Some info
          else do {
            info \<leftarrow> (if \<not> rr_has_amiga_protection info then do {
                       p \<leftarrow> rdn d (e + 5) 4;
                       Some (info\<lparr>rr_amiga_protection := p, rr_has_amiga_protection := True\<rparr>) }
                     else Some info);
            if flags AND 0x02 \<noteq> 0 then rr_parse_comment d e entry_len 9 info else Some info }
        else if flags AND 0x02 \<noteq> 0 then rr_parse_comment d e entry_len 5 info
        else Some info })"

section \<open>Timestamps\<close>

definition rr_tz :: "u8 \<Rightarrow> int" where
  "rr_tz b = sint b * 15"

definition rr_parse_ts7 :: "u8 list \<Rightarrow> nat \<Rightarrow> odfs_timestamp option" where
  "rr_parse_ts7 d i = do {
     t \<leftarrow> rdn d i 7;
     Some \<lparr>year = 1900 + uint (t ! 0), month = t ! 1, day = t ! 2, hour = t ! 3, minute = t ! 4,
           second = t ! 5, tz_offset = rr_tz (t ! 6)\<rparr> }"

text \<open>Two digits, as C computes them: no check that the characters are digits.\<close>

definition rr_digit :: "u8 \<Rightarrow> int" where
  "rr_digit b = uint b - 48"

definition rr_two :: "u8 \<Rightarrow> u8 \<Rightarrow> u8" where
  "rr_two a b = of_int (rr_digit a * 10 + rr_digit b)"

definition rr_parse_ts17 :: "u8 list \<Rightarrow> nat \<Rightarrow> odfs_timestamp option" where
  "rr_parse_ts17 d i = do {
     t \<leftarrow> rdn d i 17;
     Some \<lparr>year = foldl (\<lambda>y b. y * 10 + rr_digit b) 0 (take 4 t), month = rr_two (t ! 4) (t ! 5),
           day = rr_two (t ! 6) (t ! 7), hour = rr_two (t ! 8) (t ! 9), minute = rr_two (t ! 10) (t ! 11),
           second = rr_two (t ! 12) (t ! 13), tz_offset = rr_tz (t ! 16)\<rparr> }"

text \<open>A \<open>TF\<close> entry.  The remaining length is a \<open>size_t\<close>, so an entry of four bytes makes it wrap.\<close>

definition rr_parse_tf :: "u8 list \<Rightarrow> nat \<Rightarrow> nat \<Rightarrow> rr_info \<Rightarrow> rr_info option" where
  "rr_parse_tf d e entry_len info = do {
     flags \<leftarrow> rd d (e + 4);
     let tf_rem = (of_nat entry_len - 5 :: u64);
     let long = flags AND 0x80 \<noteq> 0;
     let ts_len = (if long then 17 else 7 :: nat);
     let parse_ts = (if long then rr_parse_ts17 else rr_parse_ts7);
     if flags AND 0x01 \<noteq> 0 then
       if of_nat ts_len > tf_rem then Some info
       else do {
         t \<leftarrow> parse_ts d (e + 5);
         let info = info\<lparr>rr_ctime := t, rr_has_timestamps := True\<rparr>;
         if flags AND 0x02 \<noteq> 0 then
           if of_nat ts_len > tf_rem - of_nat ts_len then Some info
           else do {
             t \<leftarrow> parse_ts d (e + 5 + ts_len);
             Some (info\<lparr>rr_mtime := t, rr_has_timestamps := True\<rparr>) }
         else Some info }
     else if flags AND 0x02 \<noteq> 0 then
       if of_nat ts_len > tf_rem then Some info
       else do {
         t \<leftarrow> parse_ts d (e + 5);
         Some (info\<lparr>rr_mtime := t, rr_has_timestamps := True\<rparr>) }
     else Some info }"

section \<open>Symbolic links\<close>

text \<open>Storing one character at the current position, where there is room.\<close>

definition sl_put :: "nat \<Rightarrow> u8 \<Rightarrow> u8 list \<times> nat \<Rightarrow> (u8 list \<times> nat) option" where
  "sl_put limit b t = (case t of (buf, sl_pos) \<Rightarrow>
     if limit < RR_NAME_SIZE then do { buf \<leftarrow> wrn buf sl_pos [b]; Some (buf, sl_pos + 1) } else Some (buf, sl_pos))"

definition sl_slash :: "u8 list \<times> nat \<Rightarrow> (u8 list \<times> nat) option" where
  "sl_slash t = (case t of (buf, sl_pos) \<Rightarrow>
     if sl_pos > 0 then do {
       prev \<leftarrow> rd buf (sl_pos - 1);
       if prev \<noteq> 0x2F then sl_put sl_pos 0x2F (buf, sl_pos) else Some (buf, sl_pos) }
     else Some (buf, sl_pos))"

text \<open>One component record, from the flags, the length and the position of its data.\<close>

definition sl_component :: "u8 list \<Rightarrow> u8 \<Rightarrow> nat \<Rightarrow> nat \<Rightarrow> u8 list \<times> nat \<Rightarrow> (u8 list \<times> nat) option" where
  "sl_component d cflags comp_len data t = do {
     (buf, sl_pos) \<leftarrow>
       (if cflags AND 0x02 \<noteq> 0 then do {
          (buf, sl_pos) \<leftarrow> sl_slash t;
          sl_put (sl_pos + 1) 0x2E (buf, sl_pos) }
        else if cflags AND 0x04 \<noteq> 0 then do {
          (buf, sl_pos) \<leftarrow> sl_slash t;
          if sl_pos + 2 < RR_NAME_SIZE then do {
            buf \<leftarrow> wrn buf sl_pos [0x2E, 0x2E];
            Some (buf, sl_pos + 2) }
          else Some (buf, sl_pos) }
        else if cflags AND 0x08 \<noteq> 0 then sl_put (snd t) 0x2F t
        else if comp_len > 0 then do {
          (buf, sl_pos) \<leftarrow> sl_slash t;
          if sl_pos + comp_len < RR_NAME_SIZE then do {
            src \<leftarrow> rdn d data comp_len;
            buf \<leftarrow> wrn buf sl_pos src;
            Some (buf, sl_pos + comp_len) }
          else Some (buf, sl_pos) }
        else Some t);
     let sl_pos = (if sl_pos \<ge> RR_NAME_SIZE then RR_NAME_SIZE - 1 else sl_pos);
     buf \<leftarrow> wrn buf sl_pos [0];
     Some (buf, sl_pos) }"

function sl_loop :: "u8 list \<Rightarrow> nat \<Rightarrow> nat \<Rightarrow> nat \<Rightarrow> u8 list \<times> nat \<Rightarrow> u8 list option" where
  "sl_loop d carea area_len comp_pos t =
     (if comp_pos + 2 > area_len then Some (fst t)
      else do {
        cflags \<leftarrow> rd d (carea + comp_pos);
        len \<leftarrow> rd d (carea + comp_pos + 1);
        if unat len > RR_SL_MAX_PAYLOAD_LEN \<or> 2 + unat len > area_len - comp_pos then Some (fst t)
        else do {
          t \<leftarrow> sl_component d cflags (unat len) (carea + comp_pos + 2) t;
          sl_loop d carea area_len (comp_pos + (2 + unat len)) t } })"
  by pat_completeness auto
termination
  by (relation "measure (\<lambda>(d, carea, area_len, comp_pos, t). area_len - comp_pos)") auto

declare sl_loop.simps [simp del]

definition rr_parse_sl :: "u8 list \<Rightarrow> nat \<Rightarrow> nat \<Rightarrow> rr_info \<Rightarrow> rr_info option" where
  "rr_parse_sl d e entry_len info =
     (if entry_len > 5 then do {
        sl_pos \<leftarrow> strlen (rr_symlink_target info);
        if entry_len - 5 > RR_SL_MAX_PAYLOAD_LEN then Some info
        else do {
          let sl_pos = (if sl_pos \<ge> RR_NAME_SIZE then RR_NAME_SIZE - 1 else sl_pos);
          buf \<leftarrow> wrn (rr_symlink_target info) sl_pos [0];
          buf \<leftarrow> sl_loop d (e + 5) (entry_len - 5) 0 (buf, sl_pos);
          Some (info\<lparr>rr_symlink_target := buf, rr_is_symlink := True\<rparr>) } }
      else Some info)"

section \<open>Entries\<close>

definition rr_parse_nm :: "u8 list \<Rightarrow> nat \<Rightarrow> nat \<Rightarrow> rr_info \<Rightarrow> nat \<Rightarrow> (rr_info \<times> nat) option" where
  "rr_parse_nm d e entry_len info name_pos =
     (if entry_len > 5 then do {
        flags \<leftarrow> rd d (e + 4);
        if flags AND 0x02 = 0 \<and> flags AND 0x04 = 0 then do {
          let name_space = RR_NAME_SIZE - 1 - name_pos;
          let copy_len = (if entry_len - 5 > name_space then name_space else entry_len - 5);
          (info, name_pos) \<leftarrow> (if copy_len > 0 then do {
               src \<leftarrow> rdn d (e + 5) copy_len;
               buf \<leftarrow> wrn (rr_name info) name_pos (src @ [0]);
               Some (info\<lparr>rr_name := buf\<rparr>, name_pos + copy_len) }
             else Some (info, name_pos));
          if flags AND 0x01 = 0 then Some (info\<lparr>rr_has_name := True\<rparr>, name_pos) else Some (info, name_pos) }
        else Some (info, name_pos) }
      else Some (info, name_pos))"

definition rr_parse_px :: "u8 list \<Rightarrow> nat \<Rightarrow> nat \<Rightarrow> rr_info \<Rightarrow> rr_info option" where
  "rr_parse_px d e entry_len info =
     (if entry_len \<ge> 36 then do {
        m \<leftarrow> le32 d (e + 4);
        n \<leftarrow> le32 d (e + 12);
        u \<leftarrow> le32 d (e + 20);
        g \<leftarrow> le32 d (e + 28);
        Some (info\<lparr>rr_mode := m, rr_nlinks := n, rr_uid := u, rr_gid := g, rr_has_posix := True\<rparr>) }
      else Some info)"

definition rr_parse_cl :: "u8 list \<Rightarrow> nat \<Rightarrow> nat \<Rightarrow> rr_info \<Rightarrow> rr_info option" where
  "rr_parse_cl d e entry_len info =
     (if entry_len \<ge> 12 then do {
        l \<leftarrow> le32 d (e + 4);
        Some (info\<lparr>rr_child_link_lba := l, rr_has_child_link := True\<rparr>) }
      else Some info)"

text \<open>The switch over the signature, but for the continuation area and the terminator.\<close>

definition rr_entry :: "u16 \<Rightarrow> u8 list \<Rightarrow> nat \<Rightarrow> nat \<Rightarrow> rr_info \<Rightarrow> nat \<Rightarrow> (rr_info \<times> nat) option" where
  "rr_entry sig d e entry_len info name_pos =
     (if sig = RR_SIG_NM then rr_parse_nm d e entry_len info name_pos
      else do {
        info \<leftarrow>
          (if sig = RR_SIG_PX then rr_parse_px d e entry_len info
           else if sig = RR_SIG_AS then rr_parse_as d e entry_len info
           else if sig = RR_SIG_TF then rr_parse_tf d e entry_len info
           else if sig = RR_SIG_SL then rr_parse_sl d e entry_len info
           else if sig = RR_SIG_CL then rr_parse_cl d e entry_len info
           else if sig = RR_SIG_RE then Some (info\<lparr>rr_is_relocated := True\<rparr>)
           else Some info);
        Some (info, name_pos) })"

text \<open>
  The walk over the entries of one area and, through \<open>CE\<close>, of the areas it continues in; at most
  nine areas deep.
\<close>

function rr_parse_entries ::
    "'m odfs_cache \<Rightarrow> int \<Rightarrow> nat \<Rightarrow> nat \<Rightarrow> nat \<Rightarrow> rr_info \<Rightarrow> nat \<Rightarrow> (rr_info \<times> 'm odfs_cache) option"
  and rr_walk ::
    "'m odfs_cache \<Rightarrow> int \<Rightarrow> nat \<Rightarrow> nat \<Rightarrow> nat \<Rightarrow> nat \<Rightarrow> rr_info \<Rightarrow> nat \<Rightarrow>
     (rr_info \<times> 'm odfs_cache) option"
where
  "rr_parse_entries c idx sua sua_len skip info depth = do {
     name_pos \<leftarrow> (if rr_has_name info then strlen (rr_name info) else Some 0);
     if depth > 8 then Some (info, c)
     else rr_walk c idx sua sua_len skip name_pos info depth }"
| "rr_walk c idx sua sua_len pos name_pos info depth =
     (if pos + 4 > sua_len then Some (info, c)
      else do {
        d \<leftarrow> cache_data c idx;
        s0 \<leftarrow> rd d (sua + pos);
        s1 \<leftarrow> rd d (sua + pos + 1);
        len \<leftarrow> rd d (sua + pos + 2);
        if unat len < 4 \<or> pos + unat len > sua_len then Some (info, c)
        else if rr_sig s0 s1 = RR_SIG_ST then Some (info, c)
        else if rr_sig s0 s1 = RR_SIG_CE then do {
          (info, c) \<leftarrow>
            (if unat len \<ge> 28 then do {
               ce_lba \<leftarrow> le32 d (sua + pos + 4);
               ce_off \<leftarrow> le32 d (sua + pos + 12);
               ce_len \<leftarrow> le32 d (sua + pos + 20);
               if ce_len > 0 \<and> ce_len \<le> 2048 then do {
                 (r, c) \<leftarrow> odfs_cache_read c ce_lba;
                 case r of
                   Inl err \<Rightarrow> Some (info, c)
                 | Inr ce_idx \<Rightarrow>
                     if ce_off + ce_len \<le> 2048 \<and> depth \<le> 8
                     then rr_parse_entries c ce_idx (unat ce_off) (unat ce_len) 0 info (depth + 1)
                     else Some (info, c) }
               else Some (info, c) }
             else Some (info, c));
          rr_walk c idx sua sua_len (pos + unat len) name_pos info depth }
        else do {
          (info, name_pos) \<leftarrow> rr_entry (rr_sig s0 s1) d (sua + pos) (unat len) info name_pos;
          rr_walk c idx sua sua_len (pos + unat len) name_pos info depth } })"
  by pat_completeness auto
termination
  by (relation "measures
      [\<lambda>x. case x of Inl (c, idx, sua, sua_len, skip, info, depth) \<Rightarrow> 9 - depth
                   | Inr (c, idx, sua, sua_len, pos, name_pos, info, depth) \<Rightarrow> 9 - depth,
       \<lambda>x. case x of Inl (c, idx, sua, sua_len, skip, info, depth) \<Rightarrow> 1
                   | Inr (c, idx, sua, sua_len, pos, name_pos, info, depth) \<Rightarrow> 0,
       \<lambda>x. case x of Inl (c, idx, sua, sua_len, skip, info, depth) \<Rightarrow> 0
                   | Inr (c, idx, sua, sua_len, pos, name_pos, info, depth) \<Rightarrow> sua_len - pos]") auto

declare rr_parse_entries.simps [simp del] rr_walk.simps [simp del]

definition rr_parse :: "'m odfs_cache \<Rightarrow> int \<Rightarrow> nat \<Rightarrow> nat \<Rightarrow> nat \<Rightarrow> (rr_info \<times> 'm odfs_cache) option" where
  "rr_parse c idx sua sua_len skip = rr_parse_entries c idx sua sua_len skip zero_rr_info 0"

section \<open>Detection\<close>

text \<open>The skip length of a valid \<open>SP\<close> entry.\<close>

function rr_detect_loop :: "u8 list \<Rightarrow> nat \<Rightarrow> nat \<Rightarrow> nat \<Rightarrow> nat option option" where
  "rr_detect_loop d sua sua_len pos =
     (if pos + 4 > sua_len then Some None
      else do {
        s0 \<leftarrow> rd d (sua + pos);
        s1 \<leftarrow> rd d (sua + pos + 1);
        len \<leftarrow> rd d (sua + pos + 2);
        if unat len < 4 \<or> pos + unat len > sua_len then Some None
        else if rr_sig s0 s1 = RR_SIG_SP \<and> unat len \<ge> 7 then do {
          c1 \<leftarrow> rd d (sua + pos + 4);
          c2 \<leftarrow> rd d (sua + pos + 5);
          if c1 = 0xBE \<and> c2 = 0xEF then do { skip \<leftarrow> rd d (sua + pos + 6); Some (Some (unat skip)) }
          else rr_detect_loop d sua sua_len (pos + unat len) }
        else rr_detect_loop d sua sua_len (pos + unat len) })"
  by pat_completeness auto
termination
  by (relation "measure (\<lambda>(d, sua, sua_len, pos). sua_len - pos)") auto

declare rr_detect_loop.simps [simp del]

definition rr_detect :: "u8 list \<Rightarrow> nat \<Rightarrow> nat \<Rightarrow> nat option option" where
  "rr_detect d sua sua_len = rr_detect_loop d sua sua_len 0"

end
