(* ===== verification/Backend.thy ===== *)
theory Backend
  imports Block_Cache Node
begin

text \<open>
  The interface between the core and the format readers (\<^verbatim>\<open>include/odfs/backend.h\<close>), and the loop
  scheme the readers share.

  An operation takes the backend's private context, the block cache and the allocator, and
  returns them as they are after the call; \<open>None\<close> is an invalid memory access or a call that does
  not return.  A directory callback gets the entry, its own context and the allocator.  The C
  interface passes callback contexts as \<open>void *\<close>; here they are a type parameter of the table.
\<close>

section \<open>Loops\<close>

text \<open>
  A loop whose body either ends it with a result or gives the next state.  A body that fails
  (\<open>None\<close>) makes the loop fail, and a loop that never ends is \<open>None\<close>.
\<close>

partial_function (option) iter :: "('s \<Rightarrow> ('r + 's) option) \<Rightarrow> 's \<Rightarrow> 'r option" where
  "iter body s = do { r \<leftarrow> body s; case r of Inl res \<Rightarrow> Some res | Inr s' \<Rightarrow> iter body s' }"

text \<open>The total-correctness rule: an invariant and a well-founded order on the states.\<close>

lemma iter_rule:
  assumes "wf R" "I s"
    and step: "\<And>s. I s \<Longrightarrow> \<exists>r. body s = Some r \<and> (case r of Inl res \<Rightarrow> Q res | Inr s' \<Rightarrow> I s' \<and> (s', s) \<in> R)"
  shows "\<exists>res. iter body s = Some res \<and> Q res"
  using assms(1,2)
proof (induction s rule: wf_induct_rule)
  case (less s)
  from step[OF less.prems] obtain r where
    r: "body s = Some r" "case r of Inl res \<Rightarrow> Q res | Inr s' \<Rightarrow> I s' \<and> (s', s) \<in> R" by blast
  show ?case
  proof (cases r)
    case (Inl res)
    with r show ?thesis by (subst iter.simps) simp
  next
    case (Inr s')
    with r less.IH[of s'] show ?thesis by (subst iter.simps) simp
  qed
qed

text \<open>The partial-correctness rule, for loops that need not end.\<close>

lemma iter_partial:
  assumes "iter body s = Some res" "I s"
    and "\<And>s r. I s \<Longrightarrow> body s = Some (Inl r) \<Longrightarrow> Q r"
    and "\<And>s s'. I s \<Longrightarrow> body s = Some (Inr s') \<Longrightarrow> I s'"
  shows "Q res"
proof -
  have "body' = body \<longrightarrow> I s' \<longrightarrow> Q res'" if "iter body' s' = Some res'" for body' s' res'
  proof (rule iter.raw_induct[of "\<lambda>b s r. b = body \<longrightarrow> I s \<longrightarrow> Q r", OF _ that])
    fix it b s r
    assume IH: "\<And>b s r. it b s = Some r \<Longrightarrow> b = body \<longrightarrow> I s \<longrightarrow> Q r"
      and eq: "(b s \<bind> (\<lambda>x. case x of Inl res \<Rightarrow> Some res | Inr s' \<Rightarrow> it b s')) = Some r"
    from eq obtain x where x: "b s = Some x" "(case x of Inl res \<Rightarrow> Some res | Inr s' \<Rightarrow> it b s') = Some r"
      by (auto simp: bind_eq_Some_conv)
    then show "b = body \<longrightarrow> I s \<longrightarrow> Q r"
      using assms(3,4) IH by (cases x) auto
  qed
  with assms(1,2) show ?thesis by blast
qed

section \<open>Callbacks\<close>

type_synonym 's dir_iter_fn = "odfs_node \<Rightarrow> 's \<Rightarrow> heap \<Rightarrow> odfs_err \<times> 's \<times> heap"

section \<open>The operations table\<close>

definition ODFS_BACKEND_F_CONTIGUOUS :: u32 where "ODFS_BACKEND_F_CONTIGUOUS = 1"

type_synonym ('m, 'b, 'r) be_result = "('r \<times> 'b \<times> 'm odfs_cache \<times> heap) option"

record ('m, 'b, 's) odfs_backend_ops =
  be_name :: string
  be_type :: odfs_backend_type
  be_flags :: u32
  be_probe :: "'m odfs_cache \<Rightarrow> u32 \<Rightarrow> (odfs_err \<times> 'm odfs_cache) option"
  be_mount :: "'m odfs_cache \<Rightarrow> heap \<Rightarrow> u32 \<Rightarrow> ((odfs_err + odfs_node \<times> 'b) \<times> 'm odfs_cache \<times> heap) option"
  be_readdir :: "'b \<Rightarrow> 'm odfs_cache \<Rightarrow> heap \<Rightarrow> odfs_node \<Rightarrow> 's dir_iter_fn \<Rightarrow> 's \<Rightarrow> u32 \<Rightarrow>
    ('m, 'b, odfs_err \<times> u32 \<times> 's) be_result"
  be_read :: "'b \<Rightarrow> 'm odfs_cache \<Rightarrow> heap \<Rightarrow> odfs_node \<Rightarrow> u64 \<Rightarrow> u8 list \<Rightarrow> nat \<Rightarrow>
    ('m, 'b, odfs_err \<times> u8 list \<times> nat) be_result"
  be_lookup :: "'b \<Rightarrow> 'm odfs_cache \<Rightarrow> heap \<Rightarrow> odfs_node \<Rightarrow> u8 list \<Rightarrow>
    ('m, 'b, odfs_err + odfs_node) be_result"
  be_readlink :: "('b \<Rightarrow> 'm odfs_cache \<Rightarrow> heap \<Rightarrow> odfs_node \<Rightarrow> u8 list \<Rightarrow> nat \<Rightarrow>
    ('m, 'b, odfs_err + u8 list) be_result) option"
  be_resolve_parent :: "('b \<Rightarrow> 'm odfs_cache \<Rightarrow> heap \<Rightarrow> odfs_node \<Rightarrow> bool \<Rightarrow>
    ('m, 'b, odfs_err + odfs_node \<times> odfs_node option) be_result) option"
  be_get_volume_name :: "('b \<Rightarrow> nat \<Rightarrow> u8 list option) option"
  be_get_volume_size :: "('b \<Rightarrow> u32) option"

end
