(* ===== verification/Iso9660.thy ===== *)
theory Iso9660
  imports Rock_Ridge Backend Namefix Text
begin

text \<open>
  The ISO 9660 reader of \<^verbatim>\<open>backends/iso9660/iso9660.c\<close>, shared with Joliet.

  A directory record is a sector buffer and an offset into it.  The name of a node is the C
  string in its name buffer.  Fields of a node that the parser leaves uninitialised (the Amiga
  protection bits and comment of a record without them) are given fixed values: no operation
  looks at them.
\<close>

section \<open>Fields\<close>

definition ISO_VD_START_LBA :: u32 where "ISO_VD_START_LBA = 16"
definition ISO_STANDARD_ID :: "u8 list" where "ISO_STANDARD_ID = [0x43, 0x44, 0x30, 0x30, 0x31]"
definition HS_STANDARD_ID :: "u8 list" where "HS_STANDARD_ID = [0x43, 0x44, 0x52, 0x4F, 0x4D]"
definition ISO_SECTOR :: nat where "ISO_SECTOR = 2048"

definition rtrim :: "u8 set \<Rightarrow> u8 list \<Rightarrow> u8 list" where
  "rtrim cs s = rev (dropWhile (\<lambda>b. b \<in> cs) (rev s))"

text \<open>A fixed-length string field, as the C string it leaves in the destination.\<close>

definition iso_copy_strfield :: "u8 list \<Rightarrow> nat \<Rightarrow> u8 list" where
  "iso_copy_strfield src dst_size = cstr (take (dst_size - 1) (rtrim {0x20, 0} src))"

record iso_pvd_info =
  system_id :: "u8 list"
  volume_id :: "u8 list"
  volume_space_size :: u32
  logical_block_size :: u16
  path_table_size :: u32
  root_dir_lba :: u32
  root_dir_size :: u32
  root_dir_record :: "u8 list"

record iso_context =
  pvd :: iso_pvd_info
  session_start :: u32
  next_node_id :: u32
  lowercase :: bool
  high_sierra :: bool
  joliet :: bool
  has_rock_ridge :: bool
  rr_skip :: nat
  iso_root :: odfs_node

section \<open>Directory records\<close>

definition iso_parse_dir_date :: "u8 list \<Rightarrow> nat \<Rightarrow> bool \<Rightarrow> odfs_timestamp option" where
  "iso_parse_dir_date d i hs = do {
     t \<leftarrow> rdn d i 6;
     tz \<leftarrow> (if hs then Some 0 else do { z \<leftarrow> rd d (i + 6); Some (rr_tz z) });
     Some \<lparr>year = 1900 + uint (t ! 0), month = t ! 1, day = t ! 2, hour = t ! 3, minute = t ! 4,
           second = t ! 5, tz_offset = tz\<rparr> }"

text \<open>Copying a NUL-terminated string into a buffer of the given size, cutting what does not fit.\<close>

definition copy_cut :: "nat \<Rightarrow> u8 list \<Rightarrow> u8 list" where
  "copy_cut sz s = take (sz - 1) (cstr s)"

definition iso_apply_rr :: "odfs_node \<Rightarrow> rr_info \<Rightarrow> u32 \<Rightarrow> bool \<Rightarrow> odfs_node" where
  "iso_apply_rr node rr ss allow_name =
     (let node = (if allow_name \<and> rr_has_name rr \<and> ch (cstr (rr_name rr)) \<noteq> 0
                  then node\<lparr>name := copy_cut ODFS_NAME_MAX (rr_name rr)\<rparr> else node);
          node = (if rr_has_posix rr then
                    node\<lparr>mode := rr_mode rr,
                         kind := (if rr_mode rr AND 0xF000 = 0xA000 then ODFS_NODE_SYMLINK
                                  else if rr_mode rr AND 0xF000 = 0x4000 then ODFS_NODE_DIR
                                  else ODFS_NODE_FILE)\<rparr>
                  else node);
          node = (if rr_has_timestamps rr then node\<lparr>mtime := rr_mtime rr, ctime := rr_ctime rr\<rparr> else node);
          node = (if rr_has_child_link rr
                  then node\<lparr>extent := (extent node)\<lparr>lba := rr_child_link_lba rr + ss\<rparr>\<rparr> else node);
          node = (if rr_has_amiga_protection rr
                  then node\<lparr>amiga_as := (amiga_as node)\<lparr>protection := rr_amiga_protection rr, has_protection := True\<rparr>\<rparr>
                  else node);
          node = (if rr_has_amiga_comment rr
                  then node\<lparr>amiga_as := (amiga_as node)
                              \<lparr>comment := copy_cut ODFS_AMIGA_COMMENT_MAX (rr_amiga_comment rr), has_comment := True\<rparr>\<rparr>
                  else node)
      in node\<lparr>backend := ODFS_BACKEND_ROCK_RIDGE\<rparr>)"

text \<open>
  The name of a record.  A Joliet identifier of odd length makes the conversion refuse it and
  leaves the length and the buffer the code then looks at uninitialised.
\<close>

definition iso_record_name :: "u8 list \<Rightarrow> nat \<Rightarrow> nat \<Rightarrow> iso_context \<Rightarrow> u8 list option" where
  "iso_record_name d rec name_len ctx = do {
     ident \<leftarrow> rdn d (rec + 33) name_len;
     if ident = [0] then Some [0x2E]
     else if ident = [1] then Some [0x2E, 0x2E]
     else if joliet ctx then
       (case odfs_ucs2be_to_utf8 ident ODFS_NAME_MAX of
          Inl err \<Rightarrow> None
        | Inr s \<Rightarrow> if length s \<ge> 2 \<and> s ! (length s - 2) = 0x3B then Some (take (length s - 2) s) else Some s)
     else
       (case odfs_iso_name_to_display ident ODFS_NAME_MAX (lowercase ctx) of
          Inl err \<Rightarrow> None
        | Inr s \<Rightarrow> Some (cstr s)) }"

record parsed_record =
  pr_consumed :: nat
  pr_node :: odfs_node
  pr_sua :: "(nat \<times> nat) option"

definition iso_flags_off :: "iso_context \<Rightarrow> nat" where
  "iso_flags_off ctx = (if high_sierra ctx then 24 else 25)"

text \<open>
  A record at offset \<open>rec\<close> of the sector, of which \<open>room\<close> bytes are left; \<open>Some (None, ctx)\<close> when
  there is none.  The System Use Area is its offset in the record and its length.
\<close>

definition iso_parse_dir_record ::
    "u8 list \<Rightarrow> nat \<Rightarrow> nat \<Rightarrow> iso_context \<Rightarrow> (parsed_record option \<times> iso_context) option" where
  "iso_parse_dir_record d rec room ctx =
     (if room < 1 then Some (None, ctx)
      else do {
        rec_len \<leftarrow> rd d rec;
        if rec_len = 0 then Some (None, ctx)
        else if unat rec_len < 33 \<or> unat rec_len > room then Some (None, ctx)
        else do {
          name_len \<leftarrow> rd d (rec + 32);
          if 33 + unat name_len > unat rec_len then Some (None, ctx)
          else do {
            ext \<leftarrow> le32 d (rec + 2);
            len \<leftarrow> le32 d (rec + 10);
            flags \<leftarrow> rd d (rec + iso_flags_off ctx);
            t \<leftarrow> iso_parse_dir_date d (rec + 18) (high_sierra ctx);
            nm \<leftarrow> iso_record_name d rec (unat name_len) ctx;
            let name_end = 33 + unat name_len + (if unat name_len mod 2 = 0 then 1 else 0);
            let sua = (if \<not> high_sierra ctx \<and> name_end < unat rec_len
                       then Some (name_end, unat rec_len - name_end) else None);
            let node = zero_node
                 \<lparr>node_id := next_node_id ctx,
                  backend := (if joliet ctx then ODFS_BACKEND_JOLIET else ODFS_BACKEND_ISO9660),
                  extent := \<lparr>lba = ext + session_start ctx, extlen = len\<rparr>, size := ucast len,
                  kind := (if flags AND 0x02 \<noteq> 0 then ODFS_NODE_DIR else ODFS_NODE_FILE),
                  mtime := t, ctime := t, name := nm\<rparr>;
            Some (Some \<lparr>pr_consumed = unat rec_len, pr_node = node, pr_sua = sua\<rparr>,
                  ctx\<lparr>next_node_id := next_node_id ctx + 1\<rparr>) } } })"

section \<open>Probe and mount\<close>

definition iso_probe :: "'m odfs_cache \<Rightarrow> u32 \<Rightarrow> (odfs_err \<times> 'm odfs_cache) option" where
  "iso_probe c ss = do {
     (r, c) \<leftarrow> odfs_cache_read c (ss + ISO_VD_START_LBA);
     case r of
       Inl err \<Rightarrow> Some (err, c)
     | Inr idx \<Rightarrow> do {
         d \<leftarrow> cache_data c idx;
         ident \<leftarrow> rdn d 1 5;
         if ident \<noteq> ISO_STANDARD_ID then do {
           hs \<leftarrow> rdn d 9 5;
           if hs = HS_STANDARD_ID then do {
             t \<leftarrow> rd d 8;
             if t \<noteq> 1 then Some (ODFS_ERR_BAD_FORMAT, c) else Some (ODFS_OK, c) }
           else Some (ODFS_ERR_BAD_FORMAT, c) }
         else do {
           t \<leftarrow> rd d 0;
           if t \<noteq> 1 then Some (ODFS_ERR_BAD_FORMAT, c) else Some (ODFS_OK, c) } } }"

text \<open>The volume descriptor's fields; in High Sierra they sit at other offsets.\<close>

definition iso_volume_id :: "u8 list \<Rightarrow> bool \<Rightarrow> u8 list option" where
  "iso_volume_id v jol =
     (if jol then
        (case odfs_ucs2be_to_utf8 v 33 of Inl err \<Rightarrow> None | Inr s \<Rightarrow> Some (rtrim {0x20} s))
      else Some (iso_copy_strfield v 33))"

definition iso_parse_vd :: "u8 list \<Rightarrow> bool \<Rightarrow> bool \<Rightarrow> iso_pvd_info option" where
  "iso_parse_vd d hs jol = do {
     sys \<leftarrow> rdn d (if hs then 16 else 8) 32;
     vol \<leftarrow> rdn d (if hs then 48 else 40) 32;
     volname \<leftarrow> iso_volume_id vol (jol \<and> \<not> hs);
     space \<leftarrow> le32 d (if hs then 88 else 80);
     blk \<leftarrow> le16 d (if hs then 136 else 128);
     pts \<leftarrow> le32 d (if hs then 140 else 132);
     rootrec \<leftarrow> rdn d (if hs then 180 else 156) 34;
     rl \<leftarrow> le32 rootrec 2;
     rs \<leftarrow> le32 rootrec 10;
     Some \<lparr>system_id = iso_copy_strfield sys 33, volume_id = volname, volume_space_size = space,
           logical_block_size = blk, path_table_size = pts, root_dir_lba = rl, root_dir_size = rs,
           root_dir_record = rootrec\<rparr> }"

text \<open>Rock Ridge detection in the root directory's first record.\<close>

definition iso_detect_rr :: "'m odfs_cache \<Rightarrow> iso_context \<Rightarrow> odfs_node \<Rightarrow> (iso_context \<times> odfs_node \<times> 'm odfs_cache) option" where
  "iso_detect_rr c ctx root = do {
     (r, c) \<leftarrow> odfs_cache_read c (root_dir_lba (pvd ctx));
     case r of
       Inl err \<Rightarrow> Some (ctx, root, c)
     | Inr idx \<Rightarrow> do {
         d \<leftarrow> cache_data c idx;
         rl \<leftarrow> rd d 0;
         nl \<leftarrow> rd d 32;
         if unat rl \<ge> 34 \<and> nl = 1 \<and> 34 < unat rl then do {
           det \<leftarrow> rr_detect d 34 (unat rl - 34);
           case det of
             None \<Rightarrow> Some (ctx, root, c)
           | Some skip \<Rightarrow> do {
               let ctx = ctx\<lparr>has_rock_ridge := True, rr_skip := skip\<rparr>;
               let root = root\<lparr>backend := ODFS_BACKEND_ROCK_RIDGE\<rparr>;
               (rr, c) \<leftarrow> rr_parse c idx 34 (unat rl - 34) skip;
               Some (ctx, iso_apply_rr root rr (session_start ctx) False, c) } }
         else Some (ctx, root, c) } }"

definition odfs_iso_mount_vd ::
    "'m odfs_cache \<Rightarrow> heap \<Rightarrow> u32 \<Rightarrow> u32 \<Rightarrow> bool \<Rightarrow>
     ((odfs_err + odfs_node \<times> iso_context) \<times> 'm odfs_cache \<times> heap) option" where
  "odfs_iso_mount_vd c h ss vd_lba jol =
     (case odfs_malloc h of
        (False, h) \<Rightarrow> Some (Inl ODFS_ERR_NOMEM, c, h)
      | (True, h) \<Rightarrow> do {
          (r, c) \<leftarrow> odfs_cache_read c vd_lba;
          case r of
            Inl err \<Rightarrow> Some (Inl err, c, h)
          | Inr idx \<Rightarrow> do {
              d \<leftarrow> cache_data c idx;
              id1 \<leftarrow> rdn d 1 5;
              id2 \<leftarrow> rdn d 9 5;
              let hs = (\<not> jol \<and> id1 \<noteq> ISO_STANDARD_ID \<and> id2 = HS_STANDARD_ID);
              p \<leftarrow> iso_parse_vd d hs jol;
              let p = (if root_dir_lba p < ss then p\<lparr>root_dir_lba := root_dir_lba p + ss\<rparr> else p);
              let ctx = \<lparr>pvd = p, session_start = (if ss > 0 \<and> root_dir_lba p \<ge> ss then 0 else ss),
                   next_node_id = 1, lowercase = False, high_sierra = hs, joliet = jol,
                   has_rock_ridge = False, rr_skip = 0, iso_root = zero_node\<rparr>;
              t \<leftarrow> iso_parse_dir_date (root_dir_record p) 18 hs;
              let root = zero_node
                   \<lparr>backend := (if jol then ODFS_BACKEND_JOLIET else ODFS_BACKEND_ISO9660),
                    kind := ODFS_NODE_DIR, name := [0x2F],
                    extent := \<lparr>lba = root_dir_lba p, extlen = root_dir_size p\<rparr>,
                    size := ucast (root_dir_size p), mtime := t, ctime := t\<rparr>;
              (ctx, root, c) \<leftarrow> (if \<not> hs \<and> \<not> jol then iso_detect_rr c ctx root else Some (ctx, root, c));
              Some (Inr (root, ctx\<lparr>iso_root := root\<rparr>), c, h) } })"

definition iso_mount :: "'m odfs_cache \<Rightarrow> heap \<Rightarrow> u32 \<Rightarrow> ((odfs_err + odfs_node \<times> iso_context) \<times> 'm odfs_cache \<times> heap) option" where
  "iso_mount c h ss = odfs_iso_mount_vd c h ss (ss + ISO_VD_START_LBA) False"

end
