(* ===== verification/Iso_Dir.thy ===== *)
theory Iso_Dir
  imports Iso9660
begin

text \<open>
  Directory enumeration, file reads, lookup, symbolic links and parent resolution of the ISO 9660
  reader (\<^verbatim>\<open>backends/iso9660/iso9660.c\<close>).  The scan loops are instances of \<open>iter\<close>: a body that gives
  the state of the next round or the result.  Offsets are 32-bit, as in the code.
\<close>

text \<open>Rounding an offset up to the next sector.\<close>

definition next_sector :: "u32 \<Rightarrow> u32" where
  "next_sector offset = (offset div 2048 + 1) * 2048"

section \<open>Multi-extent files\<close>

record 'm merge_state =
  mg_cache :: "'m odfs_cache"
  mg_offset :: u32
  mg_more :: bool
  mg_merged :: u64
  mg_contiguous :: bool

type_synonym 'm merge_result = "(odfs_err + u32 \<times> u64) \<times> 'm odfs_cache"

text \<open>
  What the walk finds at a record: padding up to the next sector, the end of the file's parts, or
  a further part, with its record length, whether more follow, the length merged so far and
  whether the parts are still contiguous.
\<close>

datatype merge_next = MPad | MStop | MPart u8 bool u64 bool

definition merge_record :: "u32 \<Rightarrow> nat \<Rightarrow> u8 list \<Rightarrow> u32 \<Rightarrow> u8 list \<Rightarrow> nat \<Rightarrow> u64 \<Rightarrow> bool \<Rightarrow> merge_next option" where
  "merge_record ss flags_off ident node_lba d rec merged contiguous = do {
     rec_len \<leftarrow> rd d rec;
     if rec_len = 0 then Some MPad
     else if unat rec_len < 33 \<or> unat rec_len > ISO_SECTOR - rec then Some MStop
     else do {
       nl \<leftarrow> rd d (rec + 32);
       same \<leftarrow> (if unat nl \<noteq> length ident then Some False
                else do { i \<leftarrow> rdn d (rec + 33) (length ident); Some (i = ident) });
       if \<not> same then Some MStop
       else do {
         pl \<leftarrow> le32 d (rec + 2);
         part_len \<leftarrow> le32 d (rec + 10);
         flags \<leftarrow> rd d (rec + flags_off);
         let joins = (contiguous \<and> merged mod 2048 = 0 \<and> pl + ss = node_lba + ucast (merged div 2048));
         Some (MPart rec_len (flags AND 0x80 \<noteq> 0)
                 (if joins then merged + ucast part_len else merged) joins) } } }"

text \<open>One round of the walk over the continuation records of a file.\<close>

definition merge_body ::
    "u32 \<Rightarrow> u32 \<Rightarrow> u32 \<Rightarrow> nat \<Rightarrow> u8 list \<Rightarrow> u32 \<Rightarrow> 'm merge_state \<Rightarrow> ('m merge_result + 'm merge_state) option" where
  "merge_body ss dir_lba dir_size flags_off ident node_lba st =
     (let offset = mg_offset st in
      if \<not> (mg_more st \<and> offset < dir_size) then Some (Inl (Inr (offset, mg_merged st), mg_cache st))
      else do {
        (r, c) \<leftarrow> odfs_cache_read (mg_cache st) (dir_lba + offset div 2048);
        case r of
          Inl err \<Rightarrow> Some (Inl (Inl err, c))
        | Inr idx \<Rightarrow> do {
            d \<leftarrow> cache_data c idx;
            n \<leftarrow> merge_record ss flags_off ident node_lba d (unat (offset mod 2048)) (mg_merged st) (mg_contiguous st);
            Some (case n of
                MPad \<Rightarrow> Inr (st\<lparr>mg_cache := c, mg_offset := next_sector offset\<rparr>)
              | MStop \<Rightarrow> Inl (Inr (offset, mg_merged st), c)
              | MPart rec_len goes_on merged contiguous \<Rightarrow>
                  Inr (st\<lparr>mg_cache := c, mg_offset := offset + ucast rec_len, mg_more := goes_on,
                          mg_merged := merged, mg_contiguous := contiguous\<rparr>)) } })"

definition odfs_iso_merge_multi_extent ::
    "'m odfs_cache \<Rightarrow> u32 \<Rightarrow> u32 \<Rightarrow> u32 \<Rightarrow> u32 \<Rightarrow> nat \<Rightarrow> u8 list \<Rightarrow> nat \<Rightarrow> odfs_node \<Rightarrow>
     ((odfs_err + u32 \<times> odfs_node) \<times> 'm odfs_cache) option" where
  "odfs_iso_merge_multi_extent c ss dir_lba dir_size offset flags_off d rec node = do {
     flags \<leftarrow> rd d (rec + flags_off);
     if flags AND 0x80 = 0 then Some (Inr (offset, node), c)
     else do {
       nl \<leftarrow> rd d (rec + 32);
       ident \<leftarrow> rdn d (rec + 33) (unat nl);
       (r, c) \<leftarrow> iter (merge_body ss dir_lba dir_size flags_off ident (lba (extent node)))
         \<lparr>mg_cache = c, mg_offset = offset, mg_more = True, mg_merged = ucast (extlen (extent node)),
          mg_contiguous = True\<rparr>;
       case r of
         Inl err \<Rightarrow> Some (Inl err, c)
       | Inr (offset, merged) \<Rightarrow>
           Some (Inr (offset, node\<lparr>size := merged, extent := (extent node)
             \<lparr>extlen := (if merged > 0xFFFFFFFF then 0xFFFFFFFF else ucast merged)\<rparr>\<rparr>), c) } }"

section \<open>Enumeration\<close>

record ('m, 's) readdir_state =
  rs_cache :: "'m odfs_cache"
  rs_heap :: heap
  rs_ctx :: iso_context
  rs_offset :: u32
  rs_names :: odfs_namefix_state
  rs_held :: "(int \<times> u32 \<times> u32) option"
  rs_cb :: 's

type_synonym ('m, 's) readdir_result = "odfs_err \<times> u32 \<times> ('m, 's) readdir_state"

text \<open>The sector pointer held between records: the cache entry, its sector and the generation.\<close>

definition iso_pin :: "'m odfs_cache \<Rightarrow> u32 \<Rightarrow> ((odfs_err + int \<times> u32 \<times> u32) \<times> 'm odfs_cache) option" where
  "iso_pin c l = do {
     (r, c) \<leftarrow> odfs_cache_read c l;
     case r of Inl err \<Rightarrow> Some (Inl err, c) | Inr idx \<Rightarrow> Some (Inr (idx, l, c_generation c), c) }"

definition iso_hold :: "('m, 's) readdir_state \<Rightarrow> u32 \<Rightarrow> ((odfs_err + int \<times> u32 \<times> u32) \<times> 'm odfs_cache) option" where
  "iso_hold st l =
     (case rs_held st of
        None \<Rightarrow> iso_pin (rs_cache st) l
      | Some (idx, held, gen) \<Rightarrow>
          if l \<noteq> held \<or> c_generation (rs_cache st) \<noteq> gen then iso_pin (rs_cache st) l
          else Some (Inr (idx, held, gen), rs_cache st))"

text \<open>
  Folding in the continuation records of a multi-extent file, after which the sector is pinned
  again when its System Use Area is still needed.  Gives the node, the next offset and the pin.
\<close>

definition iso_extents ::
    "iso_context \<Rightarrow> odfs_node \<Rightarrow> u32 \<Rightarrow> nat \<Rightarrow> u8 list \<Rightarrow> int \<times> u32 \<times> u32 \<Rightarrow> 'm odfs_cache \<Rightarrow> parsed_record \<Rightarrow> odfs_node \<Rightarrow> u32 \<Rightarrow>
     ((odfs_err + odfs_node \<times> u32 \<times> (int \<times> u32 \<times> u32)) \<times> 'm odfs_cache) option" where
  "iso_extents ctx dir sector_lba rec d held c p node next_offset = do {
     flags \<leftarrow> rd d (rec + iso_flags_off ctx);
     if kind node = ODFS_NODE_FILE \<and> flags AND 0x80 \<noteq> 0 then do {
       (r, c) \<leftarrow> odfs_iso_merge_multi_extent c (session_start ctx) (lba (extent dir)) (extlen (extent dir))
                   next_offset (iso_flags_off ctx) d rec node;
       case r of
         Inl err \<Rightarrow> Some (Inl err, c)
       | Inr (next_offset, node) \<Rightarrow>
           (if pr_sua p \<noteq> None then do {
              (r, c) \<leftarrow> iso_pin c sector_lba;
              case r of Inl err \<Rightarrow> Some (Inl err, c) | Inr held \<Rightarrow> Some (Inr (node, next_offset, held), c) }
            else Some (Inr (node, next_offset, held), c)) }
     else Some (Inr (node, next_offset, held), c) }"

text \<open>Rock Ridge attributes of a record; \<open>None\<close> for a relocated directory, which is skipped.\<close>

definition iso_rock_ridge ::
    "iso_context \<Rightarrow> 'm odfs_cache \<Rightarrow> int \<Rightarrow> nat \<Rightarrow> parsed_record \<Rightarrow> odfs_node \<Rightarrow> (odfs_node option \<times> 'm odfs_cache) option" where
  "iso_rock_ridge ctx c idx rec p node =
     (case pr_sua p of
        Some (sua_off, sua_len) \<Rightarrow>
          if has_rock_ridge ctx then do {
            (rr, c) \<leftarrow> rr_parse c idx (rec + sua_off) sua_len (rr_skip ctx);
            if rr_is_relocated rr then Some (None, c)
            else Some (Some (iso_apply_rr node rr (session_start ctx) True), c) }
          else Some (Some node, c)
      | None \<Rightarrow> Some (Some node, c))"

definition is_dot_name :: "u8 list \<Rightarrow> bool" where
  "is_dot_name nm \<longleftrightarrow> nm = [0x2E] \<or> nm = [0x2E, 0x2E]"

text \<open>Giving the entry its unique name and passing it to the callback.\<close>

definition iso_deliver ::
    "'s dir_iter_fn \<Rightarrow> u32 \<Rightarrow> ('m, 's) readdir_state \<Rightarrow> odfs_node \<Rightarrow> u32 \<Rightarrow>
     (('m, 's) readdir_result + ('m, 's) readdir_state) option" where
  "iso_deliver cb target st node next_offset =
     (if is_dot_name (name node) then Some (Inr (st\<lparr>rs_offset := next_offset\<rparr>))
      else do {
        (err, nm, nf, h) \<leftarrow> odfs_namefix_apply (rs_names st) (rs_heap st) (name node) ODFS_NAME_MAX;
        let entry_start = rs_offset st;
        let st = st\<lparr>rs_names := nf, rs_heap := h\<rparr>;
        if err \<noteq> ODFS_OK then Some (Inl (err, target, st))
        else do {
          let st = st\<lparr>rs_offset := next_offset\<rparr>;
          if entry_start < target then Some (Inr st)
          else
            (case cb (node\<lparr>name := nm\<rparr>) (rs_cb st) h of
               (err, s, h) \<Rightarrow>
                 let st = st\<lparr>rs_cb := s, rs_heap := h\<rparr> in
                 if err \<noteq> ODFS_OK then Some (Inl (err, next_offset, st)) else Some (Inr st)) } })"

text \<open>One record of the directory.\<close>

definition iso_record ::
    "odfs_node \<Rightarrow> 's dir_iter_fn \<Rightarrow> u32 \<Rightarrow> ('m, 's) readdir_state \<Rightarrow> int \<times> u32 \<times> u32 \<Rightarrow>
     (('m, 's) readdir_result + ('m, 's) readdir_state) option" where
  "iso_record dir cb target st held = do {
     let offset = rs_offset st;
     let rec = unat (offset mod 2048);
     d \<leftarrow> cache_data (rs_cache st) (fst held);
     b \<leftarrow> rd d rec;
     if b = 0 then Some (Inr (st\<lparr>rs_offset := next_sector offset\<rparr>))
     else do {
       (p, ctx) \<leftarrow> iso_parse_dir_record d rec (ISO_SECTOR - rec) (rs_ctx st);
       let st = st\<lparr>rs_ctx := ctx\<rparr>;
       case p of
         None \<Rightarrow> Some (Inr (st\<lparr>rs_offset := next_sector offset\<rparr>))
       | Some p \<Rightarrow> do {
           let node = (pr_node p)\<lparr>parent_id := node_id dir\<rparr>;
           (r, c) \<leftarrow> iso_extents ctx dir (fst (snd held)) rec d held (rs_cache st) p node (offset + of_nat (pr_consumed p));
           let st = st\<lparr>rs_cache := c\<rparr>;
           case r of
             Inl err \<Rightarrow> Some (Inl (err, target, st))
           | Inr (node, next_offset, held) \<Rightarrow> do {
               let st = st\<lparr>rs_held := Some held\<rparr>;
               (n, c) \<leftarrow> iso_rock_ridge ctx c (fst held) rec p node;
               let st = st\<lparr>rs_cache := c\<rparr>;
               case n of
                 None \<Rightarrow> Some (Inr (st\<lparr>rs_offset := next_offset\<rparr>))
               | Some node \<Rightarrow> iso_deliver cb target st node next_offset } } } }"

definition readdir_body ::
    "odfs_node \<Rightarrow> 's dir_iter_fn \<Rightarrow> u32 \<Rightarrow> ('m, 's) readdir_state \<Rightarrow>
     (('m, 's) readdir_result + ('m, 's) readdir_state) option" where
  "readdir_body dir cb target st =
     (if \<not> rs_offset st < extlen (extent dir) then Some (Inl (ODFS_OK, extlen (extent dir), st))
      else do {
        (r, c) \<leftarrow> iso_hold st (lba (extent dir) + rs_offset st div 2048);
        let st = st\<lparr>rs_cache := c\<rparr>;
        case r of
          Inl err \<Rightarrow> Some (Inl (err, target, st))
        | Inr held \<Rightarrow> iso_record dir cb target (st\<lparr>rs_held := Some held\<rparr>) held })"

text \<open>
  \<open>resume\<close> is the resume offset, 0 for a NULL pointer; the second result is the offset written back.
\<close>

definition odfs_iso_readdir ::
    "iso_context \<Rightarrow> 'm odfs_cache \<Rightarrow> heap \<Rightarrow> odfs_node \<Rightarrow> 's dir_iter_fn \<Rightarrow> 's \<Rightarrow> u32 \<Rightarrow>
     ('m, iso_context, odfs_err \<times> u32 \<times> 's) be_result" where
  "odfs_iso_readdir ctx c h dir cb s resume = do {
     (err, resume, st) \<leftarrow> iter (readdir_body dir cb resume)
       \<lparr>rs_cache = c, rs_heap = h, rs_ctx = ctx, rs_offset = 0, rs_names = odfs_namefix_init,
        rs_held = None, rs_cb = s\<rparr>;
     Some ((err, resume, rs_cb st), rs_ctx st, rs_cache st, rs_heap st) }"

section \<open>File data\<close>

definition odfs_iso_read ::
    "iso_context \<Rightarrow> 'm odfs_cache \<Rightarrow> heap \<Rightarrow> odfs_node \<Rightarrow> u64 \<Rightarrow> u8 list \<Rightarrow> nat \<Rightarrow>
     ('m, iso_context, odfs_err \<times> u8 list \<times> nat) be_result" where
  "odfs_iso_read ctx c h file offset buf want =
     (if offset \<ge> size file then Some ((ODFS_OK, buf, 0), ctx, c, h)
      else do {
        let want = (if want > unat (size file - offset) then unat (size file - offset) else want);
        (err, buf, n, c) \<leftarrow> odfs_cache_read_bytes c (lba (extent file)) offset buf want;
        Some ((err, buf, n), ctx, c, h) })"

section \<open>Lookup\<close>

text \<open>The context of \<open>lookup_cb\<close> is the node found so far.\<close>

definition lookup_cb :: "u8 list \<Rightarrow> odfs_node option dir_iter_fn" where
  "lookup_cb nm entry s h =
     (if odfs_strcasecmp (name entry) nm = 0 then (ODFS_ERR_EOF, Some entry, h) else (ODFS_OK, s, h))"

definition odfs_iso_lookup ::
    "iso_context \<Rightarrow> 'm odfs_cache \<Rightarrow> heap \<Rightarrow> odfs_node \<Rightarrow> u8 list \<Rightarrow> ('m, iso_context, odfs_err + odfs_node) be_result" where
  "odfs_iso_lookup ctx c h dir nm = do {
     ((err, resume, found), ctx, c, h) \<leftarrow> odfs_iso_readdir ctx c h dir (lookup_cb nm) None 0;
     Some (case found of
             Some node \<Rightarrow> if err = ODFS_ERR_EOF \<or> err = ODFS_OK then Inr node else Inl err
           | None \<Rightarrow> if err \<noteq> ODFS_OK then Inl err else Inl ODFS_ERR_NOT_FOUND,
           ctx, c, h) }"

section \<open>Symbolic links\<close>

type_synonym 'm readlink_state = "'m odfs_cache \<times> iso_context \<times> u32"
type_synonym 'm readlink_result = "(odfs_err + u8 list) \<times> iso_context \<times> 'm odfs_cache"

definition readlink_body ::
    "odfs_node \<Rightarrow> u8 list \<Rightarrow> nat \<Rightarrow> 'm readlink_state \<Rightarrow> ('m readlink_result + 'm readlink_state) option" where
  "readlink_body dir nm buf_size st = (case st of (c, ctx, offset) \<Rightarrow>
     if \<not> offset < extlen (extent dir) then Some (Inl (Inl ODFS_ERR_NOT_FOUND, ctx, c))
     else do {
       let rec = unat (offset mod 2048);
       (r, c) \<leftarrow> odfs_cache_read c (lba (extent dir) + offset div 2048);
       case r of
         Inl err \<Rightarrow> Some (Inl (Inl err, ctx, c))
       | Inr idx \<Rightarrow> do {
           d \<leftarrow> cache_data c idx;
           b \<leftarrow> rd d rec;
           if b = 0 then Some (Inr (c, ctx, next_sector offset))
           else do {
             (p, ctx) \<leftarrow> iso_parse_dir_record d rec (ISO_SECTOR - rec) ctx;
             case p of
               None \<Rightarrow> Some (Inr (c, ctx, next_sector offset))
             | Some p \<Rightarrow> do {
                 let offset = offset + of_nat (pr_consumed p);
                 (rr, c) \<leftarrow> (case pr_sua p of
                      Some (sua_off, sua_len) \<Rightarrow> rr_parse c idx (rec + sua_off) sua_len (rr_skip ctx)
                    | None \<Rightarrow> Some (zero_rr_info, c));
                 let entry_name = (if rr_has_name rr \<and> ch (cstr (rr_name rr)) \<noteq> 0
                      then copy_cut ODFS_NAME_MAX (rr_name rr) else name (pr_node p));
                 if rr_is_relocated rr then Some (Inr (c, ctx, offset))
                 else if odfs_strcasecmp entry_name nm \<noteq> 0 then Some (Inr (c, ctx, offset))
                 else if \<not> rr_is_symlink rr \<or> ch (cstr (rr_symlink_target rr)) = 0
                 then Some (Inl (Inl ODFS_ERR_UNSUPPORTED, ctx, c))
                 else do {
                   tlen \<leftarrow> strlen (rr_symlink_target rr);
                   if tlen \<ge> buf_size then Some (Inl (Inl ODFS_ERR_NAME_TOO_LONG, ctx, c))
                   else Some (Inl (Inr (cstr (rr_symlink_target rr)), ctx, c)) } } } } })"

definition iso_readlink ::
    "iso_context \<Rightarrow> 'm odfs_cache \<Rightarrow> heap \<Rightarrow> odfs_node \<Rightarrow> u8 list \<Rightarrow> nat \<Rightarrow> ('m, iso_context, odfs_err + u8 list) be_result" where
  "iso_readlink ctx c h dir nm buf_size =
     (if \<not> has_rock_ridge ctx then Some (Inl ODFS_ERR_UNSUPPORTED, ctx, c, h)
      else do {
        (r, ctx, c) \<leftarrow> iter (readlink_body dir nm buf_size) (c, ctx, 0);
        Some (r, ctx, c, h) })"

section \<open>Volume name and size\<close>

definition odfs_iso_get_volume_name :: "iso_context \<Rightarrow> nat \<Rightarrow> u8 list option" where
  "odfs_iso_get_volume_name ctx buf_size =
     (if buf_size = 0 then None else Some (take (buf_size - 1) (volume_id (pvd ctx))))"

definition odfs_iso_get_volume_size :: "iso_context \<Rightarrow> u32" where
  "odfs_iso_get_volume_size ctx = volume_space_size (pvd ctx)"

section \<open>Parent resolution\<close>

definition odfs_iso_read_parent_extent ::
    "'m odfs_cache \<Rightarrow> u32 \<Rightarrow> u32 \<Rightarrow> ((odfs_err + u32 \<times> u32) \<times> 'm odfs_cache) option" where
  "odfs_iso_read_parent_extent c ss dir_lba = do {
     (r, c) \<leftarrow> odfs_cache_read c dir_lba;
     case r of
       Inl err \<Rightarrow> Some (Inl err, c)
     | Inr idx \<Rightarrow> do {
         d \<leftarrow> cache_data c idx;
         self_len \<leftarrow> rd d 0;
         let dd = unat self_len;
         if dd < 34 \<or> dd + 34 > ISO_SECTOR then Some (Inl ODFS_ERR_BAD_FORMAT, c)
         else do {
           l \<leftarrow> rd d dd;
           n \<leftarrow> rd d (dd + 32);
           i \<leftarrow> rd d (dd + 33);
           if unat l < 34 \<or> n \<noteq> 1 \<or> i \<noteq> 1 then Some (Inl ODFS_ERR_BAD_FORMAT, c)
           else do {
             pl \<leftarrow> le32 d (dd + 2);
             ps \<leftarrow> le32 d (dd + 10);
             Some (Inr (pl + ss, ps), c) } } } }"

definition iso_lba_match_cb :: "u32 \<Rightarrow> odfs_node option dir_iter_fn" where
  "iso_lba_match_cb want_lba entry s h =
     (if kind entry = ODFS_NODE_DIR \<and> lba (extent entry) = want_lba then (ODFS_ERR_EOF, Some entry, h)
      else (ODFS_OK, s, h))"

definition iso_find_child_by_lba ::
    "iso_context \<Rightarrow> 'm odfs_cache \<Rightarrow> heap \<Rightarrow> odfs_node \<Rightarrow> u32 \<Rightarrow> ('m, iso_context, odfs_err + odfs_node) be_result" where
  "iso_find_child_by_lba ctx c h parent child_lba = do {
     ((err, resume, found), ctx, c, h) \<leftarrow> odfs_iso_readdir ctx c h parent (iso_lba_match_cb child_lba) None 0;
     Some (case found of
             Some node \<Rightarrow> Inr node
           | None \<Rightarrow> if err = ODFS_OK \<or> err = ODFS_ERR_EOF then Inl ODFS_ERR_NOT_FOUND else Inl err,
           ctx, c, h) }"

definition odfs_iso_dir_stub :: "odfs_backend_type \<Rightarrow> u32 \<Rightarrow> u32 \<Rightarrow> odfs_node" where
  "odfs_iso_dir_stub be l sz =
     zero_node\<lparr>backend := be, kind := ODFS_NODE_DIR, extent := \<lparr>lba = l, extlen = sz\<rparr>, size := ucast sz\<rparr>"

text \<open>A directory known by its extent: the root node kept at mount, or a stub.\<close>

definition iso_dir_at :: "iso_context \<Rightarrow> odfs_node \<Rightarrow> u32 \<Rightarrow> u32 \<Rightarrow> odfs_node" where
  "iso_dir_at ctx dir l sz =
     (if l = root_dir_lba (pvd ctx) then iso_root ctx else odfs_iso_dir_stub (backend dir) l sz)"

text \<open>The part of the resolution that fills in the grandparent.\<close>

definition iso_resolve_grandparent ::
    "iso_context \<Rightarrow> 'm odfs_cache \<Rightarrow> heap \<Rightarrow> odfs_node \<Rightarrow> u32 \<Rightarrow> ('m, iso_context, odfs_err + odfs_node) be_result" where
  "iso_resolve_grandparent ctx c h dir gp_lba =
     (if gp_lba = root_dir_lba (pvd ctx) then Some (Inr (iso_root ctx), ctx, c, h)
      else do {
        (r, c) \<leftarrow> odfs_iso_read_parent_extent c (session_start ctx) gp_lba;
        case r of
          Inl err \<Rightarrow> Some (Inl err, ctx, c, h)
        | Inr (ggp_lba, ggp_size) \<Rightarrow>
            iso_find_child_by_lba ctx c h (iso_dir_at ctx dir ggp_lba ggp_size) gp_lba })"

definition odfs_iso_resolve_parent ::
    "iso_context \<Rightarrow> 'm odfs_cache \<Rightarrow> heap \<Rightarrow> odfs_node \<Rightarrow> bool \<Rightarrow>
     ('m, iso_context, odfs_err + odfs_node \<times> odfs_node option) be_result" where
  "odfs_iso_resolve_parent ctx c h dir want_gp =
     (if kind dir \<noteq> ODFS_NODE_DIR then Some (Inl ODFS_ERR_NOT_DIR, ctx, c, h)
      else do {
        let root_lba = root_dir_lba (pvd ctx);
        (r, c) \<leftarrow> odfs_iso_read_parent_extent c (session_start ctx) (lba (extent dir));
        case r of
          Inl err \<Rightarrow> Some (Inl err, ctx, c, h)
        | Inr (parent_lba, parent_size) \<Rightarrow>
            if parent_lba = lba (extent dir) \<or> lba (extent dir) = root_lba
            then Some (Inl ODFS_ERR_NOT_FOUND, ctx, c, h)
            else if parent_lba = root_lba
            then Some (Inr (iso_root ctx, if want_gp then Some (iso_root ctx) else None), ctx, c, h)
            else do {
              (r, c) \<leftarrow> odfs_iso_read_parent_extent c (session_start ctx) parent_lba;
              case r of
                Inl err \<Rightarrow> Some (Inl err, ctx, c, h)
              | Inr (gp_lba, gp_size) \<Rightarrow> do {
                  (r, ctx, c, h) \<leftarrow> iso_find_child_by_lba ctx c h (iso_dir_at ctx dir gp_lba gp_size) parent_lba;
                  case r of
                    Inl err \<Rightarrow> Some (Inl err, ctx, c, h)
                  | Inr parent \<Rightarrow>
                      if \<not> want_gp then Some (Inr (parent, None), ctx, c, h)
                      else do {
                        (r, ctx, c, h) \<leftarrow> iso_resolve_grandparent ctx c h dir gp_lba;
                        case r of
                          Inl err \<Rightarrow> Some (Inl err, ctx, c, h)
                        | Inr gp \<Rightarrow> Some (Inr (parent, Some gp), ctx, c, h) } } } })"

section \<open>Operations table\<close>

definition iso9660_backend_ops :: "('m, iso_context, 's) odfs_backend_ops" where
  "iso9660_backend_ops =
     \<lparr>be_name = ''iso9660'', be_type = ODFS_BACKEND_ISO9660, be_flags = ODFS_BACKEND_F_CONTIGUOUS,
      be_probe = iso_probe, be_mount = iso_mount, be_readdir = odfs_iso_readdir, be_read = odfs_iso_read,
      be_lookup = odfs_iso_lookup, be_readlink = Some iso_readlink,
      be_resolve_parent = Some odfs_iso_resolve_parent,
      be_get_volume_name = Some odfs_iso_get_volume_name,
      be_get_volume_size = Some odfs_iso_get_volume_size\<rparr>"

end
