(* ===== verification/Cache_Gen.thy ===== *)
theory Cache_Gen
  imports Cache_Bytes
begin

text \<open>
  The generation counter of the block cache.  A client may keep a pointer to a cached sector while
  the generation stands still: an operation that leaves it alone leaves every valid entry with its
  sector and its bytes.  The counter has 32 bits, so the operations are counted: a read adds at
  most the read-ahead.
\<close>

definition core :: "odfs_cache_entry \<Rightarrow> bool \<times> u32 \<times> u8 list" where
  "core e = (e_valid e, e_lba e, e_data e)"

definition same_core :: "'m odfs_cache \<Rightarrow> 'm odfs_cache \<Rightarrow> bool" where
  "same_core c c' \<longleftrightarrow> map core (c_entries c') = map core (c_entries c) \<and> c_generation c' = c_generation c"

lemma same_core_refl [simp]: "same_core c c"
  by (simp add: same_core_def)

lemma same_core_trans: "same_core a b \<Longrightarrow> same_core b c \<Longrightarrow> same_core a c"
  by (simp add: same_core_def)

lemma same_core_fields [simp]:
  "same_core c (c'\<lparr>c_lru_head := x1\<rparr>) = same_core c c'" "same_core c (c'\<lparr>c_lru_tail := x1\<rparr>) = same_core c c'"
  "same_core c (c'\<lparr>c_free_head := x1\<rparr>) = same_core c c'" "same_core c (c'\<lparr>c_next := nx\<rparr>) = same_core c c'"
  "same_core c (c'\<lparr>c_buckets := nx\<rparr>) = same_core c c'" "same_core c (c'\<lparr>c_stats := st\<rparr>) = same_core c c'"
  "same_core c (c'\<lparr>c_valid_count := n\<rparr>) = same_core c c'" "same_core c (c'\<lparr>c_media := m\<rparr>) = same_core c c'"
  "same_core c (c'\<lparr>c_stream_buf := b\<rparr>) = same_core c c'" "same_core c (c'\<lparr>c_last_miss_lba := l\<rparr>) = same_core c c'"
  "same_core c (c'\<lparr>c_clock := k\<rparr>) = same_core c c'"
  by (simp_all add: same_core_def)

lemma ent_upd_core:
  assumes "ent_upd f i c = Some c'" "\<And>e. core (f e) = core e"
  shows "same_core c c'"
  using assms
  by (auto simp: ent_upd_def ird_def iwr_def same_core_def bind_eq_Some_conv map_update list_update_same_conv
      split: if_splits)

lemma ent_upd_links:
  "ent_upd (\<lambda>e. e\<lparr>e_next := n\<rparr>) i c = Some c' \<Longrightarrow> same_core c c'"
  "ent_upd (\<lambda>e. e\<lparr>e_prev := n\<rparr>) i c = Some c' \<Longrightarrow> same_core c c'"
  "ent_upd (\<lambda>e. e\<lparr>e_prev := p, e_next := n\<rparr>) i c = Some c' \<Longrightarrow> same_core c c'"
  "ent_upd (\<lambda>e. e\<lparr>e_next := n, e_prev := p\<rparr>) i c = Some c' \<Longrightarrow> same_core c c'"
  "ent_upd (\<lambda>e. e\<lparr>e_age := a\<rparr>) i c = Some c' \<Longrightarrow> same_core c c'"
  by (rule ent_upd_core, assumption, simp add: core_def)+

lemma lru_remove_core:
  assumes "cache_lru_remove c i = Some c'"
  shows "same_core c c'"
proof (cases "c_entries c = [] \<or> int (c_capacity c) \<le> i")
  case True
  with assms show ?thesis by (simp add: cache_lru_remove_def)
next
  case False
  from assms obtain e :: odfs_cache_entry and c1 c2 where
    "(if e_prev e \<ge> 0 then ent_upd (\<lambda>x. x\<lparr>e_next := e_next e\<rparr>) (e_prev e) c
      else Some (if c_lru_head c = i then c\<lparr>c_lru_head := e_next e\<rparr> else c)) = Some c1"
    "(if e_next e \<ge> 0 then ent_upd (\<lambda>x. x\<lparr>e_prev := e_prev e\<rparr>) (e_next e) c1
      else Some (if c_lru_tail c1 = i then c1\<lparr>c_lru_tail := e_prev e\<rparr> else c1)) = Some c2"
    "ent_upd (\<lambda>e. e\<lparr>e_prev := -1, e_next := -1\<rparr>) i c2 = Some c'"
    unfolding cache_lru_remove_def Let_def if_not_P[OF False] bind_eq_Some_conv by blast
  then have "same_core c c1" "same_core c1 c2" "same_core c2 c'"
    by (auto dest: ent_upd_links split: if_splits)
  then show ?thesis by (blast intro: same_core_trans)
qed

lemma lru_insert_core:
  assumes "cache_lru_insert_head c i = Some c'"
  shows "same_core c c'"
proof (cases "c_entries c = [] \<or> int (c_capacity c) \<le> i")
  case True
  with assms show ?thesis by (simp add: cache_lru_insert_head_def)
next
  case False
  from assms obtain c1 c2 where
    "ent_upd (\<lambda>e. e\<lparr>e_prev := -1, e_next := c_lru_head c\<rparr>) i c = Some c1"
    "(if c_lru_head c1 \<ge> 0 then ent_upd (\<lambda>e. e\<lparr>e_prev := i\<rparr>) (c_lru_head c1) c1
      else Some (c1\<lparr>c_lru_tail := i\<rparr>)) = Some c2" "c' = c2\<lparr>c_lru_head := i\<rparr>"
    unfolding cache_lru_insert_head_def if_not_P[OF False] bind_eq_Some_conv option.inject by blast
  then have "same_core c c1" "same_core c1 c2" "same_core c2 c'"
    by (auto dest: ent_upd_links split: if_splits)
  then show ?thesis by (blast intro: same_core_trans)
qed

lemma make_mru_core: "cache_lru_make_mru c i = Some c' \<Longrightarrow> same_core c c'"
  unfolding cache_lru_make_mru_def
  by (auto simp: bind_eq_Some_conv dest!: lru_remove_core lru_insert_core intro: same_core_trans split: if_splits)

lemma insert_index_core: "cache_insert_index c i = Some c' \<Longrightarrow> same_core c c'"
  unfolding cache_insert_index_def by (auto simp: bind_eq_Some_conv Let_def split: if_splits)

lemma remove_walk_core: "remove_walk c i b p q = Some c' \<Longrightarrow> same_core c c'"
proof (induction rule: remove_walk.raw_induct[rotated 1, consumes 1, case_names step])
  case (step w c i b p q c')
  then show ?case by (auto simp: bind_eq_Some_conv split: if_splits)
qed

lemma remove_index_core: "cache_remove_index c i = Some c' \<Longrightarrow> same_core c c'"
  unfolding cache_remove_index_def by (auto simp: bind_eq_Some_conv Let_def dest: remove_walk_core split: if_splits)

lemma pop_free_core: "cache_pop_free c = Some (i, c') \<Longrightarrow> same_core c c'"
  unfolding cache_pop_free_def
  by (auto simp: bind_eq_Some_conv Let_def core_def same_core_def dest!: ent_upd_core split: if_splits)

section \<open>Counting replacements\<close>

definition valid_at :: "'m odfs_cache \<Rightarrow> int \<Rightarrow> bool" where
  "valid_at c i \<longleftrightarrow> (\<exists>e. ird (c_entries c) i = Some e \<and> e_valid e)"

definition keeps :: "'m odfs_cache \<Rightarrow> 'm odfs_cache \<Rightarrow> bool" where
  "keeps c c' \<longleftrightarrow> (\<forall>i. valid_at c i \<longrightarrow> valid_at c' i \<and> cache_data c' i = cache_data c i)"

definition gens :: "nat \<Rightarrow> 'm odfs_cache \<Rightarrow> 'm odfs_cache \<Rightarrow> bool" where
  "gens n c c' \<longleftrightarrow> c_generation c' = c_generation c + of_nat n \<and> (n = 0 \<longrightarrow> keeps c c')"

lemma core_same: "same_core c c' \<Longrightarrow> valid_at c' i = valid_at c i \<and> cache_data c' i = cache_data c i"
proof -
  assume s: "same_core c c'"
  then have m: "map core (c_entries c') = map core (c_entries c)" by (simp add: same_core_def)
  then have len: "length (c_entries c') = length (c_entries c)" by (metis length_map)
  have "core (c_entries c' ! k) = core (c_entries c ! k)" if "k < length (c_entries c)" for k
    using m that len by (metis nth_map)
  then show ?thesis
    using len by (cases "0 \<le> i \<and> nat i < length (c_entries c)")
      (auto simp: valid_at_def cache_data_def ird_def core_def rd_def)
qed

lemma same_core_gens: "same_core c c' \<Longrightarrow> gens 0 c c'"
  using core_same by (auto simp: gens_def keeps_def same_core_def)

lemma gens_trans: "gens n a b \<Longrightarrow> gens m b c \<Longrightarrow> gens (n + m) a c"
  by (auto simp: gens_def keeps_def algebra_simps)

lemma gens_core: "gens n a b \<Longrightarrow> same_core b c \<Longrightarrow> gens n a c"
  using gens_trans[OF _ same_core_gens, of n a b c] by simp

lemma core_gens: "same_core a b \<Longrightarrow> gens n b c \<Longrightarrow> gens n a c"
  using gens_trans[OF same_core_gens, of a b n c] by simp

text \<open>The tail of a commit, after the victim has been taken out of its list.\<close>

definition commit_end :: "'m odfs_cache \<Rightarrow> int \<Rightarrow> u32 \<Rightarrow> (int \<times> 'm odfs_cache) option" where
  "commit_end c v l = do {
     c \<leftarrow> ent_upd (\<lambda>e. e\<lparr>e_lba := l, e_age := c_clock c, e_valid := True\<rparr>) v c;
     c \<leftarrow> cache_insert_index c v;
     c \<leftarrow> cache_lru_insert_head c v;
     Some (v, if of_nat (c_valid_count c) > st_max_used (c_stats c)
              then c\<lparr>c_stats := (c_stats c)\<lparr>st_max_used := of_nat (c_valid_count c)\<rparr>\<rparr> else c) }"

lemma upd_entry:
  assumes "ent_upd f v c = Some c'"
  shows "c_generation c' = c_generation c \<and>
    (\<forall>i. ird (c_entries c') i = (if i = v then map_option f (ird (c_entries c) v) else ird (c_entries c) i))"
  using assms by (auto simp: ent_upd_def ird_def iwr_def rd_def bind_eq_Some_conv split: if_splits)

lemma commit_end_gen:
  assumes "commit_end c v l = Some (i, c')"
  shows "i = v \<and> valid_at c' v \<and> c_generation c' = c_generation c \<and>
    (\<forall>j. j \<noteq> v \<longrightarrow> valid_at c' j = valid_at c j \<and> cache_data c' j = cache_data c j)"
proof -
  from assms obtain c1 c2 c3 where c1: "ent_upd (\<lambda>e. e\<lparr>e_lba := l, e_age := c_clock c, e_valid := True\<rparr>) v c = Some c1"
    and c2: "cache_insert_index c1 v = Some c2" and c3: "cache_lru_insert_head c2 v = Some c3"
    and i: "i = v" and c': "same_core c3 c'"
    unfolding commit_end_def bind_eq_Some_conv by (force split: if_splits)
  from same_core_trans[OF same_core_trans[OF insert_index_core[OF c2] lru_insert_core[OF c3]] c']
  have s: "same_core c1 c'" .
  from c1 obtain e where "ird (c_entries c) v = Some e" by (auto simp: ent_upd_def bind_eq_Some_conv)
  with upd_entry[OF c1] have "valid_at c1 v" by (simp add: valid_at_def)
  moreover from upd_entry[OF c1] have "\<forall>j. j \<noteq> v \<longrightarrow> valid_at c1 j = valid_at c j \<and> cache_data c1 j = cache_data c j"
    by (auto simp: valid_at_def cache_data_def)
  ultimately show ?thesis using core_same[OF s] s i upd_entry[OF c1] by (auto simp: same_core_def)
qed

text \<open>A commit either replaces a valid entry, and counts, or fills a free one.\<close>

lemma commit_gen:
  assumes "cache_commit c v l = Some (i, c')"
  shows "(0 \<le> i \<longrightarrow> i = v \<and> valid_at c' v) \<and>
    (\<exists>n \<le> 1. c_generation c' = c_generation c + of_nat n \<and>
       (n = 0 \<longrightarrow> \<not> valid_at c v \<and> (\<forall>j. j \<noteq> v \<longrightarrow> valid_at c' j = valid_at c j \<and> cache_data c' j = cache_data c j)))"
proof -
  from assms obtain e ok c1 where e: "ird (c_entries c) v = Some e"
    and c1: "(if e_valid e then do {
          c \<leftarrow> cache_remove_index c v;
          c \<leftarrow> cache_lru_remove c v;
          Some (True, c\<lparr>c_stats := (c_stats c)\<lparr>st_evictions := st_evictions (c_stats c) + 1\<rparr>,
                  c_generation := c_generation c + 1\<rparr>) }
        else do {
          (free_idx, c) \<leftarrow> cache_pop_free c;
          if free_idx \<noteq> v then Some (False, c)
          else Some (True, c\<lparr>c_valid_count := c_valid_count c + 1\<rparr>) }) = Some (ok, c1)"
    and rest: "(if \<not> ok then Some (-1, c1) else commit_end c1 v l) = Some (i, c')"
    unfolding cache_commit_def commit_end_def by (auto simp: bind_eq_Some_conv)
  show ?thesis
  proof (cases "e_valid e")
    case True
    with c1 have "ok" "c_generation c1 = c_generation c + 1"
      by (auto simp: bind_eq_Some_conv same_core_def dest!: remove_index_core lru_remove_core)
    with rest commit_end_gen[of c1 v l i c'] show ?thesis
      by (intro conjI exI[of _ 1]) auto
  next
    case False
    with c1 have s: "same_core c c1" by (auto simp: bind_eq_Some_conv dest!: pop_free_core split: if_splits)
    have nv: "\<not> valid_at c v" using False e by (simp add: valid_at_def)
    show ?thesis
    proof (cases ok)
      case True
      with rest commit_end_gen[of c1 v l i c'] core_same[OF s] s nv show ?thesis
        by (intro conjI exI[of _ 0]) (auto simp: same_core_def)
    next
      case False
      with rest have "i = -1" "c' = c1" by auto
      with core_same[OF s] s nv show ?thesis by (intro conjI exI[of _ 0]) (auto simp: same_core_def)
    qed
  qed
qed

lemma fill_commit_gen:
  assumes "ent_upd (\<lambda>e. e\<lparr>e_data := d\<rparr>) v c = Some c1" "cache_commit c1 v l = Some (i, c')"
  shows "(\<exists>n \<le> 1. gens n c c') \<and> (0 \<le> i \<longrightarrow> i = v \<and> valid_at c' v)"
proof -
  from upd_entry[OF assms(1)] have g: "c_generation c1 = c_generation c" "valid_at c1 v = valid_at c v"
    "\<And>j. j \<noteq> v \<Longrightarrow> valid_at c1 j = valid_at c j \<and> cache_data c1 j = cache_data c j"
    by (auto simp: valid_at_def cache_data_def)
  from commit_gen[OF assms(2)] obtain n where n: "n \<le> 1" "c_generation c' = c_generation c1 + of_nat n"
    "n = 0 \<Longrightarrow> \<not> valid_at c1 v \<and> (\<forall>j. j \<noteq> v \<longrightarrow> valid_at c' j = valid_at c1 j \<and> cache_data c' j = cache_data c1 j)"
    and i: "0 \<le> i \<longrightarrow> i = v \<and> valid_at c' v" by blast
  have "gens n c c'" unfolding gens_def keeps_def using n g by metis
  with n(1) i show ?thesis by blast
qed

lemma install_gen:
  assumes "cache_install c l src = Some (i, c')"
  shows "(\<exists>n \<le> 1. gens n c c') \<and> (0 \<le> i \<longrightarrow> valid_at c' i)"
proof (cases "cache_reserve c < 0")
  case True
  with assms show ?thesis by (auto simp: cache_install_def Let_def intro!: exI[of _ 0] same_core_gens)
next
  case False
  with assms obtain d c1 where "ent_upd (\<lambda>e. e\<lparr>e_data := d\<rparr>) (cache_reserve c) c = Some c1"
    "cache_commit c1 (cache_reserve c) l = Some (i, c')"
    by (auto simp: cache_install_def Let_def bind_eq_Some_conv)
  from fill_commit_gen[OF this] show ?thesis by blast
qed

lemma install_run_gen:
  "install_run c l buf k i0 = Some (i, c') \<Longrightarrow>
     (\<exists>n \<le> k. gens n c c') \<and> (0 < k \<longrightarrow> 0 \<le> i \<longrightarrow> valid_at c' i)"
proof (induction c l buf k i0 arbitrary: i c' rule: install_run.induct)
  case (1 c l buf idx)
  then show ?case by (auto intro: same_core_gens)
next
  case (2 c l buf k i0)
  from "2.prems" obtain j c1 where j: "cache_install c (l + of_nat k) (drop (k * c_sector_size c) buf) = Some (j, c1)"
    and r: "(if j < 0 then Some (j, c1) else install_run c1 l buf k j) = Some (i, c')"
    by (auto simp: bind_eq_Some_conv)
  from install_gen[OF j] obtain n where n: "n \<le> 1" "gens n c c1" and v: "0 \<le> j \<longrightarrow> valid_at c1 j" by blast
  show ?case
  proof (cases "j < 0")
    case True
    with r n have "n \<le> Suc k" "gens n c c'" "i < 0" by auto
    then show ?thesis by (metis not_le)
  next
    case False
    with r have run: "install_run c1 l buf k j = Some (i, c')" by simp
    from "2.IH"[OF j refl _ run] False obtain m where m: "m \<le> k" "gens m c1 c'" "0 < k \<longrightarrow> 0 \<le> i \<longrightarrow> valid_at c' i" by auto
    from gens_trans[OF n(2) m(2)] n(1) m(1) have "n + m \<le> Suc k" "gens (n + m) c c'" by auto
    moreover have "0 \<le> i \<longrightarrow> valid_at c' i" using m(3) run v False by (cases k) auto
    ultimately show ?thesis by blast
  qed
qed

lemma readahead_run_le:
  "readahead_run c l k = Some n \<Longrightarrow> k \<le> ODFS_CACHE_READAHEAD \<Longrightarrow> n \<le> ODFS_CACHE_READAHEAD"
proof (induction c l k arbitrary: n rule: readahead_run.induct)
  case (1 c l k)
  from 1(2,3) show ?case
    by (subst (asm) readahead_run.simps)
       (auto simp: bind_eq_Some_conv intro: 1(1)[simplified] split: if_splits)
qed

lemma media_read_into_core:
  assumes "media_read_into c l n buf p = Some (err, d, c1)"
  shows "same_core c c1 \<and> c_entries c1 = c_entries c"
  using assms by (cases "odfs_media_read (the (c_media c)) l n")
    (auto simp: media_read_into_def bind_eq_Some_conv)

lemma cluster_read_gen:
  assumes "cluster_read c l sbuf = Some (r, c')"
  shows "(\<exists>n \<le> ODFS_CACHE_READAHEAD. gens n c c') \<and> (\<forall>i. r = Some i \<longrightarrow> valid_at c' i)"
proof -
  from assms obtain run where run: "readahead_run c l 1 = Some run"
    and b: "(if run > 1 then do {
       (err, sbuf, c) \<leftarrow> media_read_into c l (of_nat run) sbuf 0;
       let c = c\<lparr>c_stream_buf := Some sbuf\<rparr>;
       if err = ODFS_OK then do {
         (idx, c) \<leftarrow> install_run c l sbuf run (-1);
         if idx \<ge> 0 then Some (Some idx, c\<lparr>c_last_miss_lba := l + of_nat run - 1\<rparr>)
         else Some (None, c) }
       else Some (None, c) }
     else Some (None, c)) = Some (r, c')"
    unfolding cluster_read_def bind_eq_Some_conv by blast
  have le: "run \<le> ODFS_CACHE_READAHEAD" using readahead_run_le[OF run] by (simp add: ODFS_CACHE_READAHEAD_def)
  show ?thesis
  proof (cases "run > 1")
    case False
    with b show ?thesis by (auto intro!: exI[of _ 0] same_core_gens)
  next
    case True
    with b obtain err sb c1 where m: "media_read_into c l (of_nat run) sbuf 0 = Some (err, sb, c1)"
      and b1: "(if err = ODFS_OK then do {
         (idx, c) \<leftarrow> install_run (c1\<lparr>c_stream_buf := Some sb\<rparr>) l sb run (-1);
         if idx \<ge> 0 then Some (Some idx, c\<lparr>c_last_miss_lba := l + of_nat run - 1\<rparr>)
         else Some (None, c) }
       else Some (None, c1\<lparr>c_stream_buf := Some sb\<rparr>)) = Some (r, c')"
      by (auto simp: bind_eq_Some_conv Let_def)
    from m have s1: "same_core c (c1\<lparr>c_stream_buf := Some sb\<rparr>)"
      using media_read_into_core by fastforce
    show ?thesis
    proof (cases "err = ODFS_OK")
      case False
      with b1 s1 show ?thesis by (auto intro!: exI[of _ 0] same_core_gens)
    next
      case True
      with b1 obtain i c2 where i: "install_run (c1\<lparr>c_stream_buf := Some sb\<rparr>) l sb run (-1) = Some (i, c2)"
        and r: "r = (if i \<ge> 0 then Some i else None)" and s2: "same_core c2 c'"
        by (auto simp: bind_eq_Some_conv split: if_splits)
      from install_run_gen[OF i] \<open>run > 1\<close> obtain n where n: "n \<le> run" "gens n (c1\<lparr>c_stream_buf := Some sb\<rparr>) c2"
        "0 \<le> i \<longrightarrow> valid_at c2 i" by auto
      from gens_core[OF core_gens[OF s1 n(2)] s2] n(1) le have "\<exists>n \<le> ODFS_CACHE_READAHEAD. gens n c c'"
        using order_trans by blast
      with n(3) r core_same[OF s2] show ?thesis by (auto split: if_splits)
    qed
  qed
qed

lemma find_valid:
  assumes "cache_rel c xs" "cache_find_index c l = Some i" "i \<ge> 0"
  shows "valid_at c i"
proof -
  from assms(1) obtain lru free where r: "rep c [] lru free" by (auto simp: cache_rel_def)
  from r show ?thesis
  proof (cases rule: find_cases[of c lru free l])
    case (hit k)
    with assms(2) rep_valid[OF r hit(2)] rep_lt[OF r, of k] show ?thesis by (auto simp: valid_at_def)
  next
    case miss
    with assms(2,3) show ?thesis by simp
  qed
qed

context atomic_media
begin

lemma single_read_gen:
  assumes "single_read c l = Some (r, c')" "c_media c = Some m" "good_media m"
  shows "(\<exists>n \<le> 1. gens n c c') \<and> (\<forall>i. r = Inr i \<longrightarrow> valid_at c' i)"
proof (cases "cache_reserve (c\<lparr>c_last_miss_lba := l\<rparr>) < 0")
  case True
  with assms(1) show ?thesis by (auto simp: single_read_def Let_def intro!: exI[of _ 0] same_core_gens)
next
  case False
  define v where "v = cache_reserve (c\<lparr>c_last_miss_lba := l\<rparr>)"
  have nv: "\<not> v < 0" using False by (simp add: v_def)
  define fin where "fin = (\<lambda>err (c2 :: 'a odfs_cache). if err \<noteq> ODFS_OK then Some (Inl err, c2)
        else do { (i, c) \<leftarrow> cache_commit c2 v l;
                  if i < 0 then Some (Inl ODFS_ERR_CORRUPT, c) else Some (Inr v, c) })"
  have "do { e \<leftarrow> ird (c_entries c) v;
             (err, d, c) \<leftarrow> media_read_into (c\<lparr>c_last_miss_lba := l\<rparr>) l 1 (e_data e) 0;
             c \<leftarrow> ent_upd (\<lambda>e. e\<lparr>e_data := d\<rparr>) v c;
             fin err c } = Some (r, c')"
    using assms(1) unfolding single_read_def Let_def v_def[symmetric] if_not_P[OF nv] fin_def by simp
  then obtain e err d c1 c2 where e: "ird (c_entries c) v = Some e"
    and m: "media_read_into (c\<lparr>c_last_miss_lba := l\<rparr>) l 1 (e_data e) 0 = Some (err, d, c1)"
    and u: "ent_upd (\<lambda>e. e\<lparr>e_data := d\<rparr>) v c1 = Some c2" and rest: "fin err c2 = Some (r, c')"
    by (auto simp: bind_eq_Some_conv)
  from media_read_into_core[OF m] have s1: "same_core c c1" "c_entries c1 = c_entries c"
    by (auto simp: same_core_def)
  show ?thesis
  proof (cases "err = ODFS_OK")
    case True
    with rest obtain i where i: "cache_commit c2 v l = Some (i, c')" "\<forall>j. r = Inr j \<longrightarrow> 0 \<le> i \<and> j = v"
      by (auto simp: fin_def bind_eq_Some_conv split: if_splits)
    from fill_commit_gen[OF u i(1)] i(2) core_gens[OF s1(1)] show ?thesis by blast
  next
    case False
    with m assms(2,3) media_read_atomic[of m l err] have "d = e_data e"
      by (cases "odfs_media_read m l 1") (auto simp: media_read_into_def bind_eq_Some_conv wrn_def split: if_splits)
    with e upd_entry[OF u] s1(2) have "valid_at c2 j = valid_at c1 j \<and> cache_data c2 j = cache_data c1 j" for j
      by (auto simp: valid_at_def cache_data_def)
    with upd_entry[OF u] have "gens 0 c1 c2" by (auto simp: gens_def keeps_def)
    with core_gens[OF s1(1)] False rest show ?thesis by (auto simp: fin_def)
  qed
qed

lemma bumps_core [simp]:
  "same_core c (bump_clock (bump_reads c))" "same_core c (bump_hits c)" "same_core c (bump_misses c)"
  by (simp_all add: bump_clock_def bump_reads_def bump_hits_def bump_misses_def)

lemma cache_read_gen:
  assumes g: "good_cache c xs" and r: "odfs_cache_read c l = Some (r, c')"
  shows "(\<exists>n \<le> 9. gens n c c') \<and> (\<forall>i. r = Inr i \<longrightarrow> valid_at c' i)"
proof -
  let ?c0 = "bump_clock (bump_reads c)"
  from g have rel: "cache_rel c xs" and med: "\<exists>m. c_media c = Some m \<and> good_media m"
    by (auto simp: good_cache_def)
  have g0: "good_cache ?c0 xs" using g by simp
  then have rel0: "cache_rel ?c0 xs" by (rule good_cache_rel)
  have ne: "c_entries c \<noteq> []" using r rel cache_rel_bounds[OF rel] by auto
  from r ne obtain hit where h: "cache_find_index ?c0 l = Some hit" by (auto simp: odfs_cache_read_def Let_def bind_eq_Some_conv)
  show ?thesis
  proof (cases "hit \<ge> 0")
    case True
    with r ne h obtain c1 c2 where c1: "ent_upd (\<lambda>e. e\<lparr>e_age := c_clock ?c0\<rparr>) hit ?c0 = Some c1"
      and c2: "cache_lru_make_mru c1 hit = Some c2" and res: "r = Inr hit" "c' = bump_hits c2"
      by (auto simp: odfs_cache_read_def Let_def bind_eq_Some_conv)
    have s: "same_core ?c0 c'"
      using same_core_trans[OF ent_upd_links(5)[OF c1] make_mru_core[OF c2]] res same_core_trans bumps_core(2) by blast
    have "valid_at c' hit" using find_valid[OF rel0 h True] core_same[OF s] by simp
    moreover have "gens 0 c c'" using same_core_gens[OF same_core_trans[OF bumps_core(1) s]] .
    ultimately show ?thesis using res by auto
  next
    case False
    let ?c1 = "bump_misses ?c0"
    from r ne h False obtain ri c2 where cl: "(case c_stream_buf ?c1 of
             Some sbuf \<Rightarrow> (if l = c_last_miss_lba ?c1 + 1 then cluster_read ?c1 l sbuf else Some (None, ?c1))
           | None \<Rightarrow> Some (None, ?c1)) = Some (ri, c2)"
      and sr: "(case ri of Some idx \<Rightarrow> Some (Inr idx, c2) | None \<Rightarrow> single_read c2 l) = Some (r, c')"
      by (auto simp: odfs_cache_read_def Let_def bind_eq_Some_conv)
    have s1: "same_core c ?c1" using same_core_trans bumps_core by blast
    have g1: "good_cache ?c1 xs" using g0 by simp
    have miss: "map_of xs l = None" using find_rel_miss[OF rel0 h] False by simp
    have "(\<exists>n \<le> ODFS_CACHE_READAHEAD. gens n ?c1 c2) \<and> (\<forall>i. ri = Some i \<longrightarrow> valid_at c2 i) \<and>
          (ri = None \<longrightarrow> good_cache c2 xs)"
    proof (cases "\<exists>sbuf. c_stream_buf ?c1 = Some sbuf \<and> l = c_last_miss_lba ?c1 + 1")
      case True
      then obtain sbuf where sb: "c_stream_buf ?c1 = Some sbuf" and "l = c_last_miss_lba ?c1 + 1" by blast
      with cl have "cluster_read ?c1 l sbuf = Some (ri, c2)" by simp
      with cluster_read_gen[OF this] cluster_read_spec[OF g1 sb miss] show ?thesis by auto
    next
      case False
      with cl have "ri = None" "c2 = ?c1" by (auto split: option.splits if_splits)
      with g1 show ?thesis by (auto intro!: exI[of _ 0] same_core_gens)
    qed
    then obtain n where n: "n \<le> 8" "gens n c c2" "\<forall>i. ri = Some i \<longrightarrow> valid_at c2 i"
      "ri = None \<longrightarrow> good_cache c2 xs"
      using core_gens[OF s1] by (auto simp: ODFS_CACHE_READAHEAD_def)
    show ?thesis
    proof (cases ri)
      case (Some i)
      with sr n have "n \<le> 9" "gens n c c'" "\<forall>i. r = Inr i \<longrightarrow> valid_at c' i" by auto
      then show ?thesis by blast
    next
      case None
      have "\<exists>m. c_media c2 = Some m \<and> good_media m" using n(4) None by (simp add: good_cache_def)
      with None sr obtain k where k: "k \<le> 1" "gens k c2 c'" "\<forall>i. r = Inr i \<longrightarrow> valid_at c' i"
        using single_read_gen by force
      from gens_trans[OF n(2) k(2)] n(1) k(1) have "n + k \<le> 9" "gens (n + k) c c'" by auto
      with k(3) show ?thesis by blast
    qed
  qed
qed

end

end
