(* ===== verification/Iso_Scan.thy ===== *)
theory Iso_Scan
  imports Iso_Dir Cache_Gen
begin

text \<open>
  What the enumeration of an ISO 9660 directory delivers, stated over the sectors of the disc: no
  cache, no sector pointer kept across reads, and offsets that are natural numbers.  The reader
  is shown to refine it (\<open>readdir_refines\<close>).
\<close>

section \<open>Offsets\<close>

definition dir_limit :: nat where "dir_limit = 0xFFFFF800"

lemma unat_off_div: "unat (off div 2048 :: u32) = unat off div 2048"
  by (simp add: unat_div)

lemma unat_off_mod: "unat (off mod 2048 :: u32) = unat off mod 2048"
  by (simp add: unat_mod)

lemma off_div: "(off div 2048 :: u32) = of_nat (unat off div 2048)"
  by (simp flip: unat_off_div)

lemma boundary_le: "off < dir_limit \<Longrightarrow> 2048 * (off div 2048 + 1) \<le> dir_limit"
proof -
  assume "off < dir_limit"
  then have "off < 2097151 * 2048" by (simp add: dir_limit_def)
  then have "off div 2048 < 2097151" by (rule less_mult_imp_div_less)
  then show ?thesis by (simp add: dir_limit_def)
qed

lemma unat_next_sector:
  assumes "unat off < dir_limit"
  shows "unat (next_sector off) = 2048 * (unat off div 2048 + 1)"
proof -
  have b: "2048 * (unat off div 2048 + 1) < 2 ^ 32"
    using boundary_le[OF assms] by (simp add: dir_limit_def)
  have "unat (off div 2048 + 1) = unat off div 2048 + 1"
    using b by (simp add: unat_u32_add unat_off_div)
  then show ?thesis using b by (simp add: next_sector_def unat_word_ariths mult.commute)
qed

lemma next_sector_of_nat:
  assumes "off < dir_limit"
  shows "next_sector (of_nat off) = of_nat (2048 * (off div 2048 + 1))"
proof -
  have u: "unat (of_nat off :: u32) = off" using assms by (simp add: unat_u32_of_nat dir_limit_def)
  have "next_sector (of_nat off) = of_nat (unat (next_sector (of_nat off)))" by simp
  also have "\<dots> = of_nat (2048 * (off div 2048 + 1))"
    using unat_next_sector[of "of_nat off"] u assms by simp
  finally show ?thesis .
qed

lemma unat_off_add:
  assumes "unat off < dir_limit" "k < 2048"
  shows "unat (off + of_nat k :: u32) = unat off + k"
  using assms by (intro unat_u32_plus) (simp add: dir_limit_def)

section \<open>The specification\<close>

lemma next_boundary: "off < 2048 * (off div 2048 + 1)" for off :: nat
  using dividend_less_times_div[of 2048 off] by (simp add: algebra_simps)


function disc_merge ::
    "(u32 \<Rightarrow> u8 list) \<Rightarrow> u32 \<Rightarrow> odfs_node \<Rightarrow> nat \<Rightarrow> u8 list \<Rightarrow> u32 \<Rightarrow> nat \<Rightarrow> bool \<Rightarrow> u64 \<Rightarrow> bool \<Rightarrow> (nat \<times> u64) option" where
  "disc_merge disc ss dir flags_off ident node_lba off goes_on merged contiguous =
     (if \<not> (goes_on \<and> off < unat (extlen (extent dir))) then Some (off, merged)
      else do {
        n \<leftarrow> merge_record ss flags_off ident node_lba (disc (lba (extent dir) + of_nat (off div 2048))) (off mod 2048)
               merged contiguous;
        case n of
          MPad \<Rightarrow> disc_merge disc ss dir flags_off ident node_lba (2048 * (off div 2048 + 1)) goes_on merged contiguous
        | MStop \<Rightarrow> Some (off, merged)
        | MPart rec_len goes_on merged contiguous \<Rightarrow>
            if unat rec_len < 33 then None
            else disc_merge disc ss dir flags_off ident node_lba (off + unat rec_len) goes_on merged contiguous })"
  by pat_completeness auto
termination
proof (relation "measure (\<lambda>(disc, ss, dir, flags_off, ident, node_lba, off, goes_on, merged, contiguous). unat (extlen (extent dir)) - off)",
    goal_cases)
  case (2 disc ss dir flags_off ident node_lba off goes_on merged contiguous n)
  from next_boundary[of off] 2 show ?case by (auto simp del: mult_Suc_right intro: diff_less_mono2)
qed auto

declare disc_merge.simps [simp del]

lemma disc_merge_ge: "disc_merge disc ss dir fo ident nl off goes_on merged cg = Some (off', m) \<Longrightarrow> off \<le> off'"
proof (induction disc ss dir fo ident nl off goes_on merged cg rule: disc_merge.induct)
  case (1 disc ss dir fo ident nl off goes_on merged cg)
  show ?case
  proof (cases "goes_on \<and> off < unat (extlen (extent dir))")
    case False
    with "1.prems" show ?thesis by (subst (asm) disc_merge.simps) simp
  next
    case True
    with "1.prems" obtain n where n: "merge_record ss fo ident nl (disc (lba (extent dir) + of_nat (off div 2048))) (off mod 2048)
               merged cg = Some n"
      by (subst (asm) disc_merge.simps) (auto simp: bind_eq_Some_conv)
    from next_boundary[of off] "1.prems" True n "1.IH"(1)[of n] "1.IH"(2)[of n] show ?thesis
      by (subst (asm) disc_merge.simps) (cases n; fastforce split: if_splits)
  qed
qed

lemma disc_merge_lim:
  assumes "disc_merge disc ss dir fo ident nl off go merged cg = Some (off', m)"
    "unat (extlen (extent dir)) \<le> dir_limit" "off < 2 ^ 32"
  shows "off' < 2 ^ 32"
  using assms
proof (induction disc ss dir fo ident nl off go merged cg rule: disc_merge.induct)
  case (1 disc ss dir fo ident nl off go merged cg)
  show ?case
  proof (cases "go \<and> off < unat (extlen (extent dir))")
    case False
    with "1.prems" show ?thesis by (subst (asm) disc_merge.simps) simp
  next
    case True
    with "1.prems" obtain n where n: "merge_record ss fo ident nl (disc (lba (extent dir) + of_nat (off div 2048))) (off mod 2048)
               merged cg = Some n"
      by (subst (asm) disc_merge.simps) (auto simp: bind_eq_Some_conv)
    have lim: "off < dir_limit" using True "1.prems"(2) by simp
    show ?thesis
    proof (cases n)
      case MPad
      with "1.IH"(1)[OF _ n MPad] "1.prems" True n boundary_le[OF lim] show ?thesis
        by (subst (asm) disc_merge.simps) (simp add: dir_limit_def)
    next
      case MStop
      with "1.prems" True n show ?thesis by (subst (asm) disc_merge.simps) simp
    next
      case (MPart rl go2 m2 cg2)
      have "unat rl < 256" using unsigned_less[of rl] by simp
      with "1.IH"(2)[OF _ n MPart] "1.prems" True n MPart lim show ?thesis
        by (subst (asm) disc_merge.simps) (simp add: dir_limit_def split: if_splits)
    qed
  qed
qed

text \<open>The data of a file whose first record is at \<open>rec\<close> of sector \<open>d\<close>.\<close>

definition disc_extents ::
    "(u32 \<Rightarrow> u8 list) \<Rightarrow> iso_context \<Rightarrow> odfs_node \<Rightarrow> u8 list \<Rightarrow> nat \<Rightarrow> odfs_node \<Rightarrow> nat \<Rightarrow> (nat \<times> odfs_node) option" where
  "disc_extents disc ctx dir d rec node next = do {
     flags \<leftarrow> rd d (rec + iso_flags_off ctx);
     if kind node = ODFS_NODE_FILE \<and> flags AND 0x80 \<noteq> 0 then do {
       nl \<leftarrow> rd d (rec + 32);
       ident \<leftarrow> rdn d (rec + 33) (unat nl);
       (next, merged) \<leftarrow> disc_merge disc (session_start ctx) dir (iso_flags_off ctx) ident (lba (extent node)) next True
                            (ucast (extlen (extent node))) True;
       Some (next, node\<lparr>size := merged, extent := (extent node)
             \<lparr>extlen := (if merged > 0xFFFFFFFF then 0xFFFFFFFF else ucast merged)\<rparr>\<rparr>) }
     else Some (next, node) }"

lemma disc_extents_ge: "disc_extents disc ctx dir d rec node off = Some (off', n) \<Longrightarrow> off \<le> off'"
  by (auto simp: disc_extents_def bind_eq_Some_conv split: if_splits dest: disc_merge_ge)

lemma parse_consumed:
  "iso_parse_dir_record d rec room ctx = Some (Some p, ctx') \<Longrightarrow> 33 \<le> pr_consumed p \<and> pr_consumed p < 256 \<and> pr_consumed p \<le> room"
  using unsigned_less[of "d ! rec :: u8"]
  by (auto simp: iso_parse_dir_record_def bind_eq_Some_conv Let_def split: if_splits)

lemma parse_ctx:
  assumes "iso_parse_dir_record d rec room ctx = Some (p, ctx')"
  shows "\<exists>i. ctx' = ctx\<lparr>next_node_id := i\<rparr>"
proof -
  have "ctx = ctx\<lparr>next_node_id := next_node_id ctx\<rparr>" by simp
  with assms show ?thesis
    by (auto simp only: iso_parse_dir_record_def bind_eq_Some_conv Let_def option.inject prod.inject split: if_splits)
qed

text \<open>The record at an offset of the directory; \<open>None\<close> inside when there is none up to the next sector.\<close>

definition record_at :: "(u32 \<Rightarrow> u8 list) \<Rightarrow> odfs_node \<Rightarrow> iso_context \<Rightarrow> nat \<Rightarrow> (parsed_record option \<times> iso_context) option" where
  "record_at disc dir ctx off =
     (let d = disc (lba (extent dir) + of_nat (off div 2048)) in
      if d ! (off mod 2048) = 0 then Some (None, ctx)
      else iso_parse_dir_record d (off mod 2048) (ISO_SECTOR - off mod 2048) ctx)"

text \<open>The entries of a directory from an offset on: where each starts, where the next one is, and its node.\<close>

function iso_scan :: "(u32 \<Rightarrow> u8 list) \<Rightarrow> odfs_node \<Rightarrow> iso_context \<Rightarrow> nat \<Rightarrow> (nat \<times> nat \<times> odfs_node) list option" where
  "iso_scan disc dir ctx off =
     (if \<not> off < unat (extlen (extent dir)) then Some []
      else do {
        (p, ctx) \<leftarrow> record_at disc dir ctx off;
        case p of
          None \<Rightarrow> iso_scan disc dir ctx (2048 * (off div 2048 + 1))
        | Some p \<Rightarrow> do {
            (next, node) \<leftarrow> disc_extents disc ctx dir (disc (lba (extent dir) + of_nat (off div 2048))) (off mod 2048)
                ((pr_node p)\<lparr>parent_id := node_id dir\<rparr>) (off + pr_consumed p);
            es \<leftarrow> iso_scan disc dir ctx next;
            Some (if is_dot_name (name node) then es else (off, next, node) # es) } })"
  by pat_completeness auto
termination
proof (relation "measure (\<lambda>(disc, dir, ctx, off). unat (extlen (extent dir)) - off)", goal_cases)
  case (2 disc dir ctx off x p ctx')
  from next_boundary[of off] 2 show ?case by (auto simp del: mult_Suc_right intro: diff_less_mono2)
next
  case (3 disc dir ctx off x p ctx' q y nx node)
  then have "33 \<le> pr_consumed q" by (auto simp: record_at_def Let_def split: if_splits dest: parse_consumed)
  with 3 disc_extents_ge have "off < nx" by fastforce
  with 3 show ?case by simp
qed simp

declare iso_scan.simps [simp del]

text \<open>Passing the entries to a callback, each under its unique name, from the offset \<open>target\<close> on.\<close>

fun list_run ::
    "'s dir_iter_fn \<Rightarrow> u32 \<Rightarrow> u32 \<Rightarrow> odfs_namefix_state \<Rightarrow> heap \<Rightarrow> 's \<Rightarrow> (nat \<times> nat \<times> odfs_node) list \<Rightarrow>
     (odfs_err \<times> u32 \<times> 's \<times> heap) option" where
  "list_run cb target dir_size nf h s [] = Some (ODFS_OK, dir_size, s, h)"
| "list_run cb target dir_size nf h s ((start, next, node) # es) = do {
     (err, nm, nf, h) \<leftarrow> odfs_namefix_apply nf h (name node) ODFS_NAME_MAX;
     if err \<noteq> ODFS_OK then Some (err, target, s, h)
     else if start < unat target then list_run cb target dir_size nf h s es
     else (case cb (node\<lparr>name := nm\<rparr>) s h of (err, s, h) \<Rightarrow>
             if err \<noteq> ODFS_OK then Some (err, of_nat next, s, h)
             else list_run cb target dir_size nf h s es) }"

text \<open>Entries all delivered, with the state they leave.\<close>

fun adv ::
    "'s dir_iter_fn \<Rightarrow> u32 \<Rightarrow> odfs_namefix_state \<Rightarrow> heap \<Rightarrow> 's \<Rightarrow> (nat \<times> nat \<times> odfs_node) list \<Rightarrow>
     (odfs_namefix_state \<times> heap \<times> 's) option" where
  "adv cb target nf h s [] = Some (nf, h, s)"
| "adv cb target nf h s ((start, next, node) # es) = do {
     (err, nm, nf, h) \<leftarrow> odfs_namefix_apply nf h (name node) ODFS_NAME_MAX;
     if err \<noteq> ODFS_OK then None
     else if start < unat target then adv cb target nf h s es
     else (case cb (node\<lparr>name := nm\<rparr>) s h of (err, s, h) \<Rightarrow>
             if err \<noteq> ODFS_OK then None else adv cb target nf h s es) }"

lemma adv_run:
  "adv cb t nf h s as = Some (nf', h', s') \<Longrightarrow> list_run cb t ds nf h s (as @ bs) = list_run cb t ds nf' h' s' bs"
  by (induction cb t nf h s as rule: adv.induct)
     (auto simp: bind_eq_Some_conv split: if_splits prod.splits)

lemma adv_append:
  "adv cb t nf h s as = Some (nf', h', s') \<Longrightarrow> adv cb t nf h s (as @ bs) = adv cb t nf' h' s' bs"
  by (induction cb t nf h s as rule: adv.induct)
     (auto simp: bind_eq_Some_conv split: if_splits prod.splits)

lemma namefix_apply_some:
  "\<exists>err nm' nf' h'. odfs_namefix_apply nf h nm ODFS_NAME_MAX = Some (err, nm', nf', h')"
  by (cases "namefix_try nf h (take (ODFS_NAME_MAX - 1) nm) ODFS_NAME_MAX nm 2")
     (auto simp: odfs_namefix_apply_def Let_def split: prod.splits)

section \<open>Refinement\<close>

text \<open>Media whose sectors have the size the reader assumes.\<close>

locale iso_media = atomic_media +
  assumes sector: "ss = ISO_SECTOR"
begin

lemma disc_length [simp]: "length (disc l) = 2048"
  using disc_len sector by (simp add: ISO_SECTOR_def)

definition pot :: "nat \<Rightarrow> nat" where "pot off = 9 * off + 297 * (off div 2048)"

lemma pot_mono: "a \<le> b \<Longrightarrow> pot a \<le> pot b"
  by (simp add: pot_def add_mono div_le_mono)

lemma pot_record: "33 \<le> k \<Longrightarrow> pot a + 297 \<le> pot (a + k)"
  using div_le_mono[of a "a + k" 2048] by (simp add: pot_def)

lemma pot_boundary: "pot a + 297 \<le> pot (2048 * (a div 2048 + 1))"
proof -
  have "2048 * (a div 2048 + 1) div 2048 = a div 2048 + 1" by (rule nonzero_mult_div_cancel_left) simp
  with next_boundary[of a] show ?thesis unfolding pot_def by linarith
qed

text \<open>The error of a sector of the directory that the medium refuses.\<close>

definition fault :: "odfs_node \<Rightarrow> odfs_err \<Rightarrow> bool" where
  "fault dir e \<longleftrightarrow> (\<exists>off < unat (extlen (extent dir)). fails (lba (extent dir) + of_nat (off div 2048)) 1 e)"

lemma fault_err: "fault dir e \<Longrightarrow> e \<noteq> ODFS_OK"
  by (auto simp: fault_def dest: fails_err)

text \<open>The walk over the continuation records, with the number of replacements it can cause.\<close>

lemma merge_ok:
  assumes "disc_merge disc s0 dir fo ident nl off go m cg = Some (off', m')"
    "good_cache c xs" "unat (extlen (extent dir)) \<le> dir_limit" "off < 2 ^ 32"
  shows "off' < 2 ^ 32 \<and> (\<exists>r c' xs' n. iter (merge_body s0 (lba (extent dir)) (extlen (extent dir)) fo ident nl)
      \<lparr>mg_cache = c, mg_offset = of_nat off, mg_more = go, mg_merged = m, mg_contiguous = cg\<rparr> = Some (r, c') \<and>
    good_cache c' xs' \<and> gens n c c' \<and> 33 * n + pot off \<le> pot off' + 297 \<and>
    (r = Inr (of_nat off', m') \<or> (\<exists>e. r = Inl e \<and> fault dir e)))"
  using assms(1,2,4)
proof (induction "unat (extlen (extent dir)) - off" arbitrary: off go m cg c xs rule: less_induct)
  case less
  let ?body = "merge_body s0 (lba (extent dir)) (extlen (extent dir)) fo ident nl"
  let ?st = "\<lparr>mg_cache = c, mg_offset = of_nat off, mg_more = go, mg_merged = m, mg_contiguous = cg\<rparr>"
  let ?d = "disc (lba (extent dir) + of_nat (off div 2048))"
  have uo: "unat (of_nat off :: u32) = off" using less.prems(3) by (simp add: unat_u32_of_nat)
  show ?case
  proof (cases "go \<and> off < unat (extlen (extent dir))")
    case False
    then have "off' = off \<and> m' = m" using less.prems(1) by (subst (asm) disc_merge.simps) simp
    moreover have "iter ?body ?st = Some (Inr (of_nat off, m), c)"
      using False uo by (subst iter.simps) (simp add: merge_body_def Let_def word_less_nat_alt)
    moreover have "gens 0 c c" by (simp add: same_core_gens)
    ultimately show ?thesis using less.prems by fastforce
  next
    case True
    then have lim: "off < dir_limit" using assms(3) by simp
    from True less.prems(1) obtain n where
      n: "merge_record s0 fo ident nl ?d (off mod 2048) m cg = Some n"
      by (subst (asm) disc_merge.simps) (auto simp: bind_eq_Some_conv)
    have ge: "off \<le> off'" using disc_merge_ge[OF less.prems(1)] .
    note bdef = merge_body_def Let_def True uo word_less_nat_alt off_div unat_off_mod
    have step: "off2 < 2 ^ 32 \<and> off < off2 \<Longrightarrow> pot off + 297 \<le> pot off2 \<Longrightarrow>
        disc_merge disc s0 dir fo ident nl off2 go2 m2 cg2 = Some (off', m') \<Longrightarrow>
        ?body ?st = Some (Inr \<lparr>mg_cache = c1, mg_offset = of_nat off2, mg_more = go2, mg_merged = m2, mg_contiguous = cg2\<rparr>) \<Longrightarrow>
        good_cache c1 xs1 \<Longrightarrow> gens k c c1 \<Longrightarrow> k \<le> 9 \<Longrightarrow> ?thesis" for off2 go2 m2 cg2 c1 xs1 k
    proof -
      assume h: "off2 < 2 ^ 32 \<and> off < off2" "pot off + 297 \<le> pot off2"
        "disc_merge disc s0 dir fo ident nl off2 go2 m2 cg2 = Some (off', m')"
        "?body ?st = Some (Inr \<lparr>mg_cache = c1, mg_offset = of_nat off2, mg_more = go2, mg_merged = m2, mg_contiguous = cg2\<rparr>)"
        "good_cache c1 xs1" "gens k c c1" "k \<le> 9"
      have "unat (extlen (extent dir)) - off2 < unat (extlen (extent dir)) - off" using h(1) True by linarith
      from less.hyps[OF this h(3,5)] h(1) obtain r c' xs' n2 where
        i: "off' < 2 ^ 32" "iter ?body \<lparr>mg_cache = c1, mg_offset = of_nat off2, mg_more = go2, mg_merged = m2, mg_contiguous = cg2\<rparr> = Some (r, c')"
        "good_cache c' xs'" "gens n2 c1 c'" "33 * n2 + pot off2 \<le> pot off' + 297"
        "r = Inr (of_nat off', m') \<or> (\<exists>e. r = Inl e \<and> fault dir e)" by blast
      have "iter ?body ?st = Some (r, c')" using h(4) i(2) by (subst iter.simps) simp
      moreover have "gens (k + n2) c c'" using gens_trans[OF h(6) i(4)] .
      moreover have "33 * (k + n2) + pot off \<le> pot off' + 297" using i(5) h(2,7) by simp
      ultimately show ?thesis using i(1,3,6) by blast
    qed
    show ?thesis
    using less.prems(2)
    proof (cases rule: cache_read_ok[of c xs "lba (extent dir) + of_nat (off div 2048)"])
      case (err e c')
      from cache_read_gen[OF less.prems(2) err(1)] obtain k where k: "k \<le> 9" "gens k c c'" by blast
      have "fault dir e" using err(2) True by (auto simp: fault_def)
      moreover have "iter ?body ?st = Some (Inl e, c')" using err(1) True by (subst iter.simps) (simp add: bdef)
      moreover have "33 * k + pot off \<le> pot off' + 297" using k(1) pot_mono[OF ge] by simp
      ultimately show ?thesis using k(2) err disc_merge_lim[OF less.prems(1) assms(3) less.prems(3)] by blast
    next
      case (ok idx c' xs')
      from cache_read_gen[OF less.prems(2) ok(1)] obtain k where k: "k \<le> 9" "gens k c c'" by blast
      show ?thesis
      proof (cases n)
        case MPad
        have b: "2048 * (off div 2048 + 1) < 2 ^ 32" using boundary_le[OF lim] by (simp add: dir_limit_def)
        have ns: "next_sector (of_nat off) = of_nat (2048 * (off div 2048 + 1))"
          using next_sector_of_nat[OF lim] .
        show ?thesis
        proof (rule step[OF _ pot_boundary _ _ ok(3) k(2,1)])
          show "2048 * (off div 2048 + 1) < 2 ^ 32 \<and> off < 2048 * (off div 2048 + 1)"
            using b next_boundary by blast
          show "disc_merge disc s0 dir fo ident nl (2048 * (off div 2048 + 1)) go m cg = Some (off', m')"
            using less.prems(1) True n MPad by (subst (asm) disc_merge.simps) simp
          show "?body ?st = Some (Inr \<lparr>mg_cache = c', mg_offset = of_nat (2048 * (off div 2048 + 1)),
              mg_more = go, mg_merged = m, mg_contiguous = cg\<rparr>)"
            using ok(1,2) n MPad ns True by (simp add: bdef)
        qed
      next
        case MStop
        then have "off' = off \<and> m' = m" using less.prems(1) n True by (subst (asm) disc_merge.simps) simp
        moreover have "iter ?body ?st = Some (Inr (of_nat off, m), c')"
          using ok(1,2) n MStop True by (subst iter.simps) (simp add: bdef)
        ultimately show ?thesis using k ok(3) less.prems(3) by fastforce
      next
        case (MPart rl go2 m2 cg2)
        have m33: "33 \<le> unat rl" and dm: "disc_merge disc s0 dir fo ident nl (off + unat rl) go2 m2 cg2 = Some (off', m')"
          using less.prems(1) n True MPart by (subst (asm) disc_merge.simps, auto split: if_splits)+
        have rl: "unat rl < 256" using unsigned_less[of rl] by simp
        then have "unat (of_nat off + of_nat (unat rl) :: u32) = off + unat rl"
          using unat_off_add[of "of_nat off" "unat rl"] uo lim by simp
        then have oo: "of_nat off + ucast rl = (of_nat (off + unat rl) :: u32)" by simp
        show ?thesis
        proof (rule step[OF _ pot_record[OF m33] dm _ ok(3) k(2,1)])
          show "off + unat rl < 2 ^ 32 \<and> off < off + unat rl" using lim m33 rl by (simp add: dir_limit_def)
          show "?body ?st = Some (Inr \<lparr>mg_cache = c', mg_offset = of_nat (off + unat rl),
              mg_more = go2, mg_merged = m2, mg_contiguous = cg2\<rparr>)"
            using ok(1,2) n MPart oo True by (simp add: bdef)
        qed
      qed
    qed
  qed
qed

text \<open>
  A sector pointer is good as long as at most \<open>b\<close> valid entries have been replaced since it was
  taken; when fewer than \<open>2 ^ 32\<close> were, an unchanged generation means the sector is still there.
\<close>

definition held_ok :: "'a odfs_cache \<Rightarrow> int \<times> u32 \<times> u32 \<Rightarrow> nat \<Rightarrow> bool" where
  "held_ok c hp b \<longleftrightarrow> (case hp of (idx, l, g) \<Rightarrow>
     \<exists>n \<le> b. c_generation c = g + of_nat n \<and> (n = 0 \<longrightarrow> valid_at c idx \<and> cache_data c idx = Some (disc l)))"

lemma held_gens: "held_ok c hp b \<Longrightarrow> gens n c c' \<Longrightarrow> held_ok c' hp (b + n)"
proof -
  assume h: "held_ok c hp b" and g: "gens n c c'"
  obtain idx l k where hp: "hp = (idx, l, k)" by (cases hp)
  from h hp obtain m where m: "m \<le> b" "c_generation c = k + of_nat m"
    "m = 0 \<longrightarrow> valid_at c idx \<and> cache_data c idx = Some (disc l)" by (auto simp: held_ok_def)
  have "c_generation c' = k + of_nat (m + n)" using g m(2) by (simp add: gens_def)
  moreover have "m + n = 0 \<longrightarrow> valid_at c' idx \<and> cache_data c' idx = Some (disc l)"
    using g m(3) by (auto simp: gens_def keeps_def)
  ultimately show ?thesis using hp m(1) by (auto simp: held_ok_def intro!: exI[of _ "m + n"])
qed

lemma held_current:
  assumes "held_ok c (idx, l, g) b" "b < 2 ^ 32" "c_generation c = g"
  shows "valid_at c idx \<and> cache_data c idx = Some (disc l)"
proof -
  from assms(1) obtain n where n: "n \<le> b" "c_generation c = g + of_nat n"
    "n = 0 \<longrightarrow> valid_at c idx \<and> cache_data c idx = Some (disc l)" by (auto simp: held_ok_def)
  from n(2) assms(3) have "(of_nat n :: u32) = 0" by simp
  then have "n mod 2 ^ 32 = 0" by (metis unat_u32_of_nat unsigned_0)
  with n(1,3) assms(2) show ?thesis by simp
qed

lemma pin_ok:
  assumes "good_cache c xs"
  shows "\<exists>r c' xs'. iso_pin c l = Some (r, c') \<and> good_cache c' xs' \<and>
    (case r of Inl e \<Rightarrow> fails l 1 e | Inr hp \<Rightarrow> fst (snd hp) = l \<and> held_ok c' hp 0)"
  using assms
proof (cases rule: cache_read_ok[of c xs l])
  case (err e c')
  then have "iso_pin c l = Some (Inl e, c')" by (simp add: iso_pin_def)
  with err show ?thesis by auto
next
  case (ok idx c' xs')
  then have "iso_pin c l = Some (Inr (idx, l, c_generation c'), c')" by (simp add: iso_pin_def)
  moreover have "held_ok c' (idx, l, c_generation c') 0"
    using cache_read_gen[OF assms ok(1)] ok(2) by (simp add: held_ok_def)
  ultimately show ?thesis using ok by auto
qed

lemma hold_ok:
  assumes g: "good_cache (rs_cache st) xs" and h: "\<And>hp. rs_held st = Some hp \<Longrightarrow> held_ok (rs_cache st) hp (2 ^ 32 - 1)"
  shows "\<exists>r c' xs'. iso_hold st l = Some (r, c') \<and> good_cache c' xs' \<and>
    (case r of Inl e \<Rightarrow> fails l 1 e | Inr hp \<Rightarrow> fst (snd hp) = l \<and> held_ok c' hp 0)"
proof (cases "\<exists>idx. rs_held st = Some (idx, l, c_generation (rs_cache st))")
  case True
  then obtain idx where i: "rs_held st = Some (idx, l, c_generation (rs_cache st))" by blast
  from held_current[OF h[OF i]] have "held_ok (rs_cache st) (idx, l, c_generation (rs_cache st)) 0"
    by (simp add: held_ok_def)
  moreover have "iso_hold st l = Some (Inr (idx, l, c_generation (rs_cache st)), rs_cache st)"
    using i by (simp add: iso_hold_def)
  ultimately show ?thesis using g by auto
next
  case False
  then have "iso_hold st l = iso_pin (rs_cache st) l"
    by (auto simp: iso_hold_def split: option.split)
  with pin_ok[OF g, of l] show ?thesis by auto
qed

lemma pot_small: "33 * n + pot a \<le> pot b + 297 \<Longrightarrow> b < 2 ^ 32 \<Longrightarrow> n \<le> 2 ^ 32 - 1"
  using div_le_mono[of b "2 ^ 32" 2048] by (simp add: pot_def)

lemma extents_ok:
  assumes e: "disc_extents disc ctx dir (disc l) rec node nx = Some (nx', node')" and g: "good_cache c xs"
    and h: "held_ok c hp 0" "fst (snd hp) = l" and lim: "unat (extlen (extent dir)) \<le> dir_limit" "nx < 2 ^ 32"
    and at: "l = lba (extent dir) + of_nat (off div 2048)" "off < unat (extlen (extent dir))"
  shows "nx' < 2 ^ 32 \<and> (\<exists>r c' xs'. iso_extents ctx dir l rec (disc l) hp c p node (of_nat nx) = Some (r, c') \<and> good_cache c' xs' \<and>
    (case r of Inl e \<Rightarrow> fault dir e
     | Inr (n, off, hp') \<Rightarrow> n = node' \<and> off = of_nat nx' \<and> held_ok c' hp' (2 ^ 32 - 1)))"
proof -
  from e obtain flags where fl: "rd (disc l) (rec + iso_flags_off ctx) = Some flags"
    by (auto simp: disc_extents_def bind_eq_Some_conv)
  show ?thesis
  proof (cases "kind node = ODFS_NODE_FILE \<and> flags AND 0x80 \<noteq> 0")
    case False
    with e fl have n: "nx' = nx" "node' = node" by (auto simp: disc_extents_def)
    have "held_ok c hp (2 ^ 32 - 1)" using h(1) by (auto simp: held_ok_def split: prod.splits)
    moreover have "iso_extents ctx dir l rec (disc l) hp c p node (of_nat nx) = Some (Inr (node, of_nat nx, hp), c)"
      using False fl by (auto simp: iso_extents_def)
    ultimately show ?thesis using n g lim(2) by auto
  next
    case True
    with e fl obtain nl ident m where nl: "rd (disc l) (rec + 32) = Some nl" "rdn (disc l) (rec + 33) (unat nl) = Some ident"
      and m: "disc_merge disc (session_start ctx) dir (iso_flags_off ctx) ident (lba (extent node)) nx True
                            (ucast (extlen (extent node))) True = Some (nx', m)"
      and n': "node' = node\<lparr>size := m, extent := (extent node)\<lparr>extlen := (if m > 0xFFFFFFFF then 0xFFFFFFFF else ucast m)\<rparr>\<rparr>"
      by (auto simp: disc_extents_def bind_eq_Some_conv)
    from merge_ok[OF m g lim] obtain r c1 xs1 n where nx: "nx' < 2 ^ 32"
      and it: "iter (merge_body (session_start ctx) (lba (extent dir)) (extlen (extent dir)) (iso_flags_off ctx) ident (lba (extent node)))
        \<lparr>mg_cache = c, mg_offset = of_nat nx, mg_more = True, mg_merged = ucast (extlen (extent node)), mg_contiguous = True\<rparr> = Some (r, c1)"
      and c1: "good_cache c1 xs1" "gens n c c1" "33 * n + pot nx \<le> pot nx' + 297"
      and r: "r = Inr (of_nat nx', m) \<or> (\<exists>e. r = Inl e \<and> fault dir e)" by blast
    have hb: "held_ok c1 hp (2 ^ 32 - 1)"
      using held_gens[OF h(1) c1(2)] pot_small[OF c1(3) nx] by (auto simp: held_ok_def split: prod.splits intro: order_trans)
    from r show ?thesis
    proof
      assume "r = Inr (of_nat nx', m)"
      with True fl nl it n' have mm: "odfs_iso_merge_multi_extent c (session_start ctx) (lba (extent dir)) (extlen (extent dir))
          (of_nat nx) (iso_flags_off ctx) (disc l) rec node = Some (Inr (of_nat nx', node'), c1)"
        by (simp add: odfs_iso_merge_multi_extent_def)
      from pin_ok[OF c1(1), of l] obtain r2 c2 xs2 where p2: "iso_pin c1 l = Some (r2, c2)" "good_cache c2 xs2"
        "case r2 of Inl e \<Rightarrow> fails l 1 e | Inr hp \<Rightarrow> fst (snd hp) = l \<and> held_ok c2 hp 0" by blast
      have up: "held_ok c2 hp2 0 \<Longrightarrow> held_ok c2 hp2 (2 ^ 32 - 1)" for hp2
        by (auto simp: held_ok_def split: prod.splits)
      show ?thesis
      proof (cases "pr_sua p")
        case None
        with True fl mm have "iso_extents ctx dir l rec (disc l) hp c p node (of_nat nx) = Some (Inr (node', of_nat nx', hp), c1)"
          by (simp add: iso_extents_def)
        with nx c1(1) hb show ?thesis by auto
      next
        case (Some a)
        with True fl mm p2 have "iso_extents ctx dir l rec (disc l) hp c p node (of_nat nx) =
            (case r2 of Inl err \<Rightarrow> Some (Inl err, c2) | Inr held \<Rightarrow> Some (Inr (node', of_nat nx', held), c2))"
          by (simp add: iso_extents_def)
        with nx p2 up at show ?thesis by (cases r2) (auto simp: fault_def)
      qed
    next
      assume "\<exists>e. r = Inl e \<and> fault dir e"
      then obtain e where e: "r = Inl e" "fault dir e" by blast
      with True fl nl it have "iso_extents ctx dir l rec (disc l) hp c p node (of_nat nx) = Some (Inl e, c1)"
        by (simp add: odfs_iso_merge_multi_extent_def iso_extents_def)
      with nx e c1(1) show ?thesis by auto
    qed
  qed
qed

text \<open>
  The state of the enumeration at the head of the loop, with the entries still to come.  Rock
  Ridge is off: with it, the number of sectors read per record has no useful bound.
\<close>

definition scan_inv :: "odfs_node \<Rightarrow> ('a, 's) readdir_state \<Rightarrow> (nat \<times> nat \<times> odfs_node) list \<Rightarrow> bool" where
  "scan_inv dir st es \<longleftrightarrow> (\<exists>xs. good_cache (rs_cache st) xs) \<and>
     (\<forall>hp. rs_held st = Some hp \<longrightarrow> held_ok (rs_cache st) hp (2 ^ 32 - 1)) \<and>
     \<not> has_rock_ridge (rs_ctx st) \<and> iso_scan disc dir (rs_ctx st) (unat (rs_offset st)) = Some es"

definition run_from :: "odfs_node \<Rightarrow> 's dir_iter_fn \<Rightarrow> u32 \<Rightarrow> ('a, 's) readdir_state \<Rightarrow> (nat \<times> nat \<times> odfs_node) list \<Rightarrow>
    (odfs_err \<times> u32 \<times> 's \<times> heap) option" where
  "run_from dir cb t st es = list_run cb t (extlen (extent dir)) (rs_names st) (rs_heap st) (rs_cb st) es"

text \<open>What one round of the loop does.\<close>

definition round_ok :: "odfs_node \<Rightarrow> 's dir_iter_fn \<Rightarrow> u32 \<Rightarrow> ('a, 's) readdir_state \<Rightarrow> (nat \<times> nat \<times> odfs_node) list \<Rightarrow>
    ('a, 's) readdir_result + ('a, 's) readdir_state \<Rightarrow> bool" where
  "round_ok dir cb t st es x \<longleftrightarrow> (case x of
     Inl (err, res, st') \<Rightarrow> (\<exists>xs. good_cache (rs_cache st') xs) \<and>
       (run_from dir cb t st es = Some (err, res, rs_cb st', rs_heap st') \<or>
        fault dir err \<and> res = t \<and> rs_heap st' = rs_heap st \<and> rs_cb st' = rs_cb st)
   | Inr st' \<Rightarrow> unat (rs_offset st) < unat (rs_offset st') \<and>
       (\<exists>k. scan_inv dir st' (drop k es) \<and>
            adv cb t (rs_names st) (rs_heap st) (rs_cb st) (take k es) = Some (rs_names st', rs_heap st', rs_cb st')))"

lemma round_ok_cong:
  assumes "rs_names st = rs_names st2" "rs_heap st = rs_heap st2" "rs_cb st = rs_cb st2" "rs_offset st = rs_offset st2"
  shows "round_ok dir cb t st es x = round_ok dir cb t st2 es x"
  using assms by (simp only: round_ok_def run_from_def)

lemma deliver_ok:
  assumes g: "good_cache (rs_cache st) xs" and h: "\<And>hp. rs_held st = Some hp \<Longrightarrow> held_ok (rs_cache st) hp (2 ^ 32 - 1)"
    and rr: "\<not> has_rock_ridge (rs_ctx st)" and nx: "nx < 2 ^ 32" "unat (rs_offset st) < nx"
    and es': "iso_scan disc dir (rs_ctx st) nx = Some es'"
    and es: "es = (if is_dot_name (name node) then es' else (unat (rs_offset st), nx, node) # es')"
  shows "\<exists>x. iso_deliver cb t st node (of_nat nx) = Some x \<and> round_ok dir cb t st es x"
proof -
  have un: "unat (of_nat nx :: u32) = nx" using nx(1) by (simp add: unat_u32_of_nat)
  have inv: "scan_inv dir st' es'" if "rs_cache st' = rs_cache st" "rs_held st' = rs_held st" "rs_ctx st' = rs_ctx st"
    "rs_offset st' = of_nat nx" for st' :: "('a, 'b) readdir_state"
    using that g h rr es' un by (auto simp: scan_inv_def)
  show ?thesis
  proof (cases "is_dot_name (name node)")
    case True
    let ?st' = "st\<lparr>rs_offset := of_nat nx\<rparr>"
    have "round_ok dir cb t st es (Inr ?st')"
      using True es inv[of ?st'] un nx(2) by (auto simp: round_ok_def run_from_def intro!: exI[of _ 0])
    with True show ?thesis by (simp add: iso_deliver_def)
  next
    case False
    obtain err nm nf h' where na: "odfs_namefix_apply (rs_names st) (rs_heap st) (name node) ODFS_NAME_MAX = Some (err, nm, nf, h')"
      using namefix_apply_some by blast
    have e: "es = (unat (rs_offset st), nx, node) # es'" using es False by simp
    let ?st1 = "st\<lparr>rs_names := nf, rs_heap := h'\<rparr>"
    show ?thesis
    proof (cases "err = ODFS_OK")
      case err: False
      then have "run_from dir cb t st es = Some (err, t, rs_cb ?st1, rs_heap ?st1)"
        using na e by (simp add: run_from_def)
      then have "round_ok dir cb t st es (Inl (err, t, ?st1))" using g by (auto simp: round_ok_def)
      with na False err show ?thesis by (simp add: iso_deliver_def)
    next
      case ok: True
      let ?st2 = "?st1\<lparr>rs_offset := of_nat nx\<rparr>"
      show ?thesis
      proof (cases "rs_offset st < t")
        case True
        then have "round_ok dir cb t st es (Inr ?st2)"
          using na ok inv[of ?st2] e un nx(2) by (auto simp: round_ok_def word_less_nat_alt intro!: exI[of _ 1])
        with na False ok True show ?thesis by (simp add: iso_deliver_def Let_def)
      next
        case late: False
        obtain err2 s2 h2 where cb: "cb (node\<lparr>name := nm\<rparr>) (rs_cb st) h' = (err2, s2, h2)" by (metis prod_cases3)
        let ?st3 = "?st2\<lparr>rs_cb := s2, rs_heap := h2\<rparr>"
        have run: "err2 \<noteq> ODFS_OK \<Longrightarrow> run_from dir cb t st es = Some (err2, of_nat nx, s2, h2)"
          using na e ok late cb by (simp add: run_from_def word_less_nat_alt)
        have av: "err2 = ODFS_OK \<Longrightarrow> adv cb t (rs_names st) (rs_heap st) (rs_cb st) [(unat (rs_offset st), nx, node)] = Some (nf, h2, s2)"
          using na ok late cb by (simp add: word_less_nat_alt)
        let ?x = "if err2 \<noteq> ODFS_OK then Inl (err2, of_nat nx, ?st3) else Inr ?st3"
        have "iso_deliver cb t st node (of_nat nx) = Some ?x"
          using na False ok late cb by (simp add: iso_deliver_def Let_def)
        moreover have "round_ok dir cb t st es ?x"
          using run av inv[of ?st3] e un nx(2) g by (auto simp: round_ok_def intro!: exI[of _ 1])
        ultimately show ?thesis by blast
      qed
    qed
  qed
qed

lemma record_ok:
  assumes g: "good_cache (rs_cache st) xs" and hp: "rs_held st = Some hp" "held_ok (rs_cache st) hp 0"
    and l: "fst (snd hp) = lba (extent dir) + of_nat (unat (rs_offset st) div 2048)"
    and rr: "\<not> has_rock_ridge (rs_ctx st)" and sc: "iso_scan disc dir (rs_ctx st) (unat (rs_offset st)) = Some es"
    and off: "unat (rs_offset st) < unat (extlen (extent dir))" and lim: "unat (extlen (extent dir)) \<le> dir_limit"
  shows "\<exists>x. iso_record dir cb t st hp = Some x \<and> round_ok dir cb t st es x"
proof -
  let ?off = "unat (rs_offset st)" and ?rec = "unat (rs_offset st) mod 2048"
  let ?d = "disc (lba (extent dir) + of_nat (?off div 2048))"
  obtain idx gn where hpe: "hp = (idx, lba (extent dir) + of_nat (?off div 2048), gn)" using l by (cases hp) auto
  have dat: "cache_data (rs_cache st) idx = Some ?d" using hp(2) hpe by (auto simp: held_ok_def)
  have rd0: "rd ?d ?rec = Some (?d ! ?rec)" by simp
  have lt: "?off < dir_limit" using off lim by simp
  have hb: "held_ok (rs_cache st) hp (2 ^ 32 - 1)" using hp(2) by (auto simp: held_ok_def split: prod.splits)
  from sc off obtain p ctx where p: "record_at disc dir (rs_ctx st) ?off = Some (p, ctx)"
    by (subst (asm) iso_scan.simps) (auto simp: bind_eq_Some_conv)
  have ctx: "\<not> has_rock_ridge ctx" using p rr
    by (auto simp: record_at_def Let_def dest: parse_ctx split: if_splits)
  note rdef = iso_record_def hpe dat unat_off_mod rd0 Let_def
  show ?thesis
  proof (cases p)
    case None
    let ?st' = "st\<lparr>rs_ctx := ctx, rs_offset := next_sector (rs_offset st)\<rparr>"
    have un: "unat (next_sector (rs_offset st)) = 2048 * (?off div 2048 + 1)" by (rule unat_next_sector[OF lt])
    have "iso_scan disc dir ctx (2048 * (?off div 2048 + 1)) = Some es"
      using sc off p None by (subst (asm) iso_scan.simps) simp
    then have "round_ok dir cb t st es (Inr ?st')"
      using g hp(1) hb ctx un next_boundary[of ?off]
      by (auto simp: round_ok_def scan_inv_def run_from_def intro!: exI[of _ 0])
    moreover have "iso_record dir cb t st hp = Some (Inr ?st')"
      using p None by (cases "?d ! ?rec = 0") (auto simp: rdef record_at_def)
    ultimately show ?thesis by blast
  next
    case (Some q)
    let ?node = "(pr_node q)\<lparr>parent_id := node_id dir\<rparr>"
    have nz: "?d ! ?rec \<noteq> 0" and pq: "iso_parse_dir_record ?d ?rec (ISO_SECTOR - ?rec) (rs_ctx st) = Some (Some q, ctx)"
      using p Some by (auto simp: record_at_def Let_def split: if_splits)
    from parse_consumed[OF pq] have cons: "33 \<le> pr_consumed q" "pr_consumed q < 256" by auto
    have nx0: "?off + pr_consumed q < 2 ^ 32" using lt cons(2) by (simp add: dir_limit_def)
    have on: "rs_offset st + of_nat (pr_consumed q) = of_nat (?off + pr_consumed q)" by simp
    from sc off p Some obtain nx node' es' where de: "disc_extents disc ctx dir ?d ?rec ?node (?off + pr_consumed q) = Some (nx, node')"
      and es': "iso_scan disc dir ctx nx = Some es'"
      and es: "es = (if is_dot_name (name node') then es' else (?off, nx, node') # es')"
      by (subst (asm) iso_scan.simps) (auto simp: bind_eq_Some_conv)
    have nxgt: "?off < nx" using disc_extents_ge[OF de] cons(1) by simp
    from extents_ok[OF de g hp(2) l lim nx0 refl off, of q] obtain r c' xs' where nx: "nx < 2 ^ 32"
      and ex: "iso_extents ctx dir (fst (snd hp)) ?rec ?d hp (rs_cache st) q ?node (rs_offset st + of_nat (pr_consumed q)) = Some (r, c')"
      and c': "good_cache c' xs'"
      and r: "case r of Inl e \<Rightarrow> fault dir e
         | Inr (n, off, hp') \<Rightarrow> n = node' \<and> off = of_nat nx \<and> held_ok c' hp' (2 ^ 32 - 1)"
      unfolding on l by auto
    show ?thesis
    proof (cases r)
      case (Inl e)
      let ?st' = "st\<lparr>rs_ctx := ctx, rs_cache := c'\<rparr>"
      have "iso_record dir cb t st hp = Some (Inl (e, t, ?st'))"
        using nz pq ex Inl by (simp add: rdef hpe)
      moreover have "round_ok dir cb t st es (Inl (e, t, ?st'))" using c' r Inl by (auto simp: round_ok_def)
      ultimately show ?thesis by blast
    next
      case (Inr y)
      with r obtain hp' where y: "r = Inr (node', of_nat nx, hp')" and hp': "held_ok c' hp' (2 ^ 32 - 1)" by (cases y) auto
      let ?st' = "st\<lparr>rs_ctx := ctx, rs_held := Some hp', rs_cache := c'\<rparr>"
      have "iso_rock_ridge ctx c' (fst hp') ?rec q node' = Some (Some node', c')"
        using ctx by (auto simp: iso_rock_ridge_def split: option.split)
      then have "iso_record dir cb t st hp = iso_deliver cb t ?st' node' (of_nat nx)"
        using nz pq ex y by (simp add: rdef hpe)
      moreover have "\<exists>x. iso_deliver cb t ?st' node' (of_nat nx) = Some x \<and> round_ok dir cb t ?st' es x"
        by (rule deliver_ok) (use c' hp' ctx nx nxgt es' es in auto)
      moreover have "round_ok dir cb t ?st' es x = round_ok dir cb t st es x" for x
        by (rule round_ok_cong) simp_all
      ultimately show ?thesis by auto
    qed
  qed
qed

lemma body_ok:
  assumes inv: "scan_inv dir st es" and lim: "unat (extlen (extent dir)) \<le> dir_limit"
  shows "\<exists>x. readdir_body dir cb t st = Some x \<and> round_ok dir cb t st es x"
proof (cases "unat (rs_offset st) < unat (extlen (extent dir))")
  case False
  then have "es = []" using inv by (simp add: scan_inv_def) (subst (asm) iso_scan.simps, simp)
  then have "round_ok dir cb t st es (Inl (ODFS_OK, extlen (extent dir), st))"
    using inv by (simp add: round_ok_def run_from_def scan_inv_def)
  with False show ?thesis by (simp add: readdir_body_def word_less_nat_alt)
next
  case True
  let ?l = "lba (extent dir) + rs_offset st div 2048"
  from inv obtain xs where g: "good_cache (rs_cache st) xs" by (auto simp: scan_inv_def)
  have "held_ok (rs_cache st) hp (2 ^ 32 - 1)" if "rs_held st = Some hp" for hp
    using inv that by (simp add: scan_inv_def)
  from hold_ok[OF g this, of ?l] obtain r c' xs' where h: "iso_hold st ?l = Some (r, c')" "good_cache c' xs'"
    "case r of Inl e \<Rightarrow> fails ?l 1 e | Inr hp \<Rightarrow> fst (snd hp) = ?l \<and> held_ok c' hp 0" by blast
  show ?thesis
  proof (cases r)
    case (Inl e)
    with h True have "readdir_body dir cb t st = Some (Inl (e, t, st\<lparr>rs_cache := c'\<rparr>))"
      by (simp add: readdir_body_def word_less_nat_alt Let_def)
    moreover have "round_ok dir cb t st es (Inl (e, t, st\<lparr>rs_cache := c'\<rparr>))"
      using h Inl True by (auto simp: round_ok_def fault_def off_div)
    ultimately show ?thesis by blast
  next
    case (Inr hp)
    let ?st' = "st\<lparr>rs_cache := c', rs_held := Some hp\<rparr>"
    have "readdir_body dir cb t st = iso_record dir cb t ?st' hp"
      using h Inr True by (simp add: readdir_body_def word_less_nat_alt Let_def)
    moreover have "\<exists>x. iso_record dir cb t ?st' hp = Some x \<and> round_ok dir cb t ?st' es x"
      by (rule record_ok) (use h Inr inv True lim in \<open>auto simp: scan_inv_def off_div\<close>)
    moreover have "round_ok dir cb t ?st' es x = round_ok dir cb t st es x" for x
      by (rule round_ok_cong) simp_all
    ultimately show ?thesis by auto
  qed
qed

text \<open>
  The whole loop ends.  It delivers the entries exactly as \<open>list_run\<close> does, or the medium fails on
  the way, when some of them have been delivered.
\<close>

definition loop_ok :: "odfs_node \<Rightarrow> 's dir_iter_fn \<Rightarrow> u32 \<Rightarrow> ('a, 's) readdir_state \<Rightarrow> (nat \<times> nat \<times> odfs_node) list \<Rightarrow>
    ('a, 's) readdir_result \<Rightarrow> bool" where
  "loop_ok dir cb t st es x \<longleftrightarrow> (case x of (err, res, st') \<Rightarrow> (\<exists>xs. good_cache (rs_cache st') xs) \<and>
     (run_from dir cb t st es = Some (err, res, rs_cb st', rs_heap st') \<or>
      fault dir err \<and> res = t \<and>
      (\<exists>k nf. adv cb t (rs_names st) (rs_heap st) (rs_cb st) (take k es) = Some (nf, rs_heap st', rs_cb st'))))"

lemma loop:
  assumes "scan_inv dir st es" "unat (extlen (extent dir)) \<le> dir_limit"
  shows "\<exists>x. iter (readdir_body dir cb t) st = Some x \<and> loop_ok dir cb t st es x"
  using assms(1)
proof (induction "unat (extlen (extent dir)) - unat (rs_offset st)" arbitrary: st es rule: less_induct)
  case less
  from body_ok[OF less.prems assms(2)] obtain y where y: "readdir_body dir cb t st = Some y" "round_ok dir cb t st es y"
    by blast
  show ?case
  proof (cases y)
    case (Inl x)
    with y have "iter (readdir_body dir cb t) st = Some x" by (subst iter.simps) simp
    moreover have "loop_ok dir cb t st es x"
      using y(2) Inl by (auto simp: loop_ok_def round_ok_def run_from_def intro!: exI[of _ 0])
    ultimately show ?thesis by blast
  next
    case (Inr st')
    with y(2) obtain k where k: "unat (rs_offset st) < unat (rs_offset st')" "scan_inv dir st' (drop k es)"
      "adv cb t (rs_names st) (rs_heap st) (rs_cb st) (take k es) = Some (rs_names st', rs_heap st', rs_cb st')"
      by (auto simp: round_ok_def)
    have it: "iter (readdir_body dir cb t) st = iter (readdir_body dir cb t) st'"
      using y(1) Inr by (subst iter.simps) simp
    have lt: "unat (rs_offset st) < unat (extlen (extent dir))"
      using y(1) Inr by (auto simp: readdir_body_def word_less_nat_alt split: if_splits)
    have "unat (extlen (extent dir)) - unat (rs_offset st') < unat (extlen (extent dir)) - unat (rs_offset st)"
      using k(1) lt by linarith
    from less.hyps[OF this k(2)] obtain x where x: "iter (readdir_body dir cb t) st' = Some x"
      "loop_ok dir cb t st' (drop k es) x" by blast
    have run: "run_from dir cb t st es = run_from dir cb t st' (drop k es)"
      using adv_run[OF k(3), of "extlen (extent dir)" "drop k es"] by (simp add: run_from_def)
    have av: "adv cb t (rs_names st) (rs_heap st) (rs_cb st) (take (k + j) es) =
        adv cb t (rs_names st') (rs_heap st') (rs_cb st') (take j (drop k es))" for j
      using adv_append[OF k(3), of "take j (drop k es)"] by (simp add: take_add)
    have "loop_ok dir cb t st es x"
    proof -
      obtain err res st2 where xe: "x = (err, res, st2)" by (cases x)
      have more: "\<exists>i nf. adv cb t (rs_names st) (rs_heap st) (rs_cb st) (take i es) = Some (nf, rs_heap st2, rs_cb st2)"
        if "adv cb t (rs_names st') (rs_heap st') (rs_cb st') (take j (drop k es)) = Some (nf, rs_heap st2, rs_cb st2)" for j nf
        using that av[of j] by metis
      from x(2) show ?thesis unfolding loop_ok_def xe run by (auto intro: more)
    qed
    with it x(1) show ?thesis by auto
  qed
qed

lemma readdir_refines:
  assumes "good_cache c xs" "\<not> has_rock_ridge ctx" "unat (extlen (extent dir)) \<le> dir_limit"
    "iso_scan disc dir ctx 0 = Some es"
  obtains (run) err res s' ctx' c' h' xs' where
      "odfs_iso_readdir ctx c h dir cb s t = Some ((err, res, s'), ctx', c', h')" "good_cache c' xs'"
      "list_run cb t (extlen (extent dir)) odfs_namefix_init h s es = Some (err, res, s', h')"
  | (failed) err s' ctx' c' h' xs' k nf where
      "odfs_iso_readdir ctx c h dir cb s t = Some ((err, t, s'), ctx', c', h')" "good_cache c' xs'" "fault dir err"
      "adv cb t odfs_namefix_init h s (take k es) = Some (nf, h', s')"
proof -
  let ?st = "\<lparr>rs_cache = c, rs_heap = h, rs_ctx = ctx, rs_offset = 0, rs_names = odfs_namefix_init,
        rs_held = None, rs_cb = s\<rparr>"
  have "scan_inv dir ?st es" using assms by (auto simp: scan_inv_def)
  from loop[OF this assms(3), of cb t] obtain err res st' where
    x: "iter (readdir_body dir cb t) ?st = Some (err, res, st')" "loop_ok dir cb t ?st es (err, res, st')" by auto
  have rd: "odfs_iso_readdir ctx c h dir cb s t = Some ((err, res, rs_cb st'), rs_ctx st', rs_cache st', rs_heap st')"
    using x(1) by (simp add: odfs_iso_readdir_def)
  from x(2) show thesis
    using run[OF rd] failed[of err "rs_cb st'" "rs_ctx st'" "rs_cache st'" "rs_heap st'"] rd
    by (auto simp: loop_ok_def run_from_def)
qed

end

end
