(* ===== verification/Joliet.thy ===== *)
theory Joliet
  imports Iso_Dir
begin

text \<open>
  The Joliet reader of \<^verbatim>\<open>backends/joliet/joliet.c\<close>: it finds the supplementary volume descriptor
  and mounts it with the ISO 9660 reader in Joliet mode.
\<close>

text \<open>One round of the scan over the volume descriptors, at sector \<open>l\<close>.\<close>

definition joliet_svd_body ::
    "u32 \<Rightarrow> 'm odfs_cache \<times> u32 \<Rightarrow> ((odfs_err + u32) \<times> 'm odfs_cache + 'm odfs_cache \<times> u32) option" where
  "joliet_svd_body ss st = (case st of (c, l) \<Rightarrow> do {
     (r, c) \<leftarrow> odfs_cache_read c l;
     case r of
       Inl err \<Rightarrow> Some (Inl (Inl err, c))
     | Inr idx \<Rightarrow> do {
         d \<leftarrow> cache_data c idx;
         ident \<leftarrow> rdn d 1 5;
         if ident \<noteq> ISO_STANDARD_ID then Some (Inl (Inl ODFS_ERR_BAD_FORMAT, c))
         else do {
           t \<leftarrow> rd d 0;
           if t = 255 then Some (Inl (Inl ODFS_ERR_BAD_FORMAT, c))
           else do {
             esc \<leftarrow> (if t = 2 then do { e \<leftarrow> rdn d 88 3; Some e } else Some []);
             if esc = [0x25, 0x2F, 0x40] \<or> esc = [0x25, 0x2F, 0x43] \<or> esc = [0x25, 0x2F, 0x45]
             then Some (Inl (Inr l, c))
             else if l > ss + ISO_VD_START_LBA + 32 then Some (Inl (Inl ODFS_ERR_BAD_FORMAT, c))
             else Some (Inr (c, l + 1)) } } } })"

definition joliet_find_svd :: "'m odfs_cache \<Rightarrow> u32 \<Rightarrow> ((odfs_err + u32) \<times> 'm odfs_cache) option" where
  "joliet_find_svd c ss = iter (joliet_svd_body ss) (c, ss + ISO_VD_START_LBA)"

definition joliet_probe :: "'m odfs_cache \<Rightarrow> u32 \<Rightarrow> (odfs_err \<times> 'm odfs_cache) option" where
  "joliet_probe c ss = do {
     (r, c) \<leftarrow> joliet_find_svd c ss;
     Some (case r of Inl err \<Rightarrow> err | Inr l \<Rightarrow> ODFS_OK, c) }"

definition joliet_mount :: "'m odfs_cache \<Rightarrow> heap \<Rightarrow> u32 \<Rightarrow> ((odfs_err + odfs_node \<times> iso_context) \<times> 'm odfs_cache \<times> heap) option" where
  "joliet_mount c h ss = do {
     (r, c) \<leftarrow> joliet_find_svd c ss;
     case r of
       Inl err \<Rightarrow> Some (Inl err, c, h)
     | Inr svd_lba \<Rightarrow> odfs_iso_mount_vd c h ss svd_lba True }"

definition joliet_backend_ops :: "('m, iso_context, 's) odfs_backend_ops" where
  "joliet_backend_ops =
     \<lparr>be_name = ''joliet'', be_type = ODFS_BACKEND_JOLIET, be_flags = ODFS_BACKEND_F_CONTIGUOUS,
      be_probe = joliet_probe, be_mount = joliet_mount, be_readdir = odfs_iso_readdir, be_read = odfs_iso_read,
      be_lookup = odfs_iso_lookup, be_readlink = None,
      be_resolve_parent = Some odfs_iso_resolve_parent,
      be_get_volume_name = Some odfs_iso_get_volume_name,
      be_get_volume_size = Some odfs_iso_get_volume_size\<rparr>"

end
