(* ===== verification/Iso_Facts.thy ===== *)
theory Iso_Facts
  imports Iso_Scan Joliet Cache_Facts Text_Facts Session
begin

text \<open>
  What the ISO 9660 and Joliet readers promise.  The listing of a directory is the scan of its
  sectors with the duplicate names made different; enumeration, lookup and resumption are stated
  against it.
\<close>

section \<open>The listing of a directory\<close>

abbreviation fix_name :: "odfs_namefix_state \<Rightarrow> heap \<Rightarrow> u8 list \<Rightarrow> (odfs_err \<times> u8 list \<times> odfs_namefix_state \<times> heap) option" where
  "fix_name \<equiv> \<lambda>st h nm. odfs_namefix_apply st h nm ODFS_NAME_MAX"

definition rename_entry :: "nat \<times> nat \<times> odfs_node \<Rightarrow> u8 list \<Rightarrow> nat \<times> nat \<times> odfs_node" where
  "rename_entry e nm = (case e of (start, nx, node) \<Rightarrow> (start, nx, node\<lparr>name := nm\<rparr>))"

definition entry_name :: "nat \<times> nat \<times> odfs_node \<Rightarrow> u8 list" where
  "entry_name e = name (snd (snd e))"

definition iso_listing ::
    "(u32 \<Rightarrow> u8 list) \<Rightarrow> odfs_node \<Rightarrow> iso_context \<Rightarrow> heap \<Rightarrow> (nat \<times> nat \<times> odfs_node) list option" where
  "iso_listing disc dir ctx h = do {
     es \<leftarrow> iso_scan disc dir ctx 0;
     (outs, nf, h) \<leftarrow> name_run fix_name odfs_namefix_init h (map entry_name es);
     Some (map2 rename_entry es outs) }"

text \<open>
  A callback that looks at the entry and its own context only, and what it makes of a listing: the
  error code, the offset to resume at, and its context.
\<close>

type_synonym 's plain_cb = "odfs_node \<Rightarrow> 's \<Rightarrow> odfs_err \<times> 's"

definition plain :: "'s plain_cb \<Rightarrow> 's dir_iter_fn" where
  "plain f e s h = (case f e s of (err, s') \<Rightarrow> (err, s', h))"

fun cb_fold :: "'s plain_cb \<Rightarrow> u32 \<Rightarrow> u32 \<Rightarrow> 's \<Rightarrow> (nat \<times> nat \<times> odfs_node) list \<Rightarrow> odfs_err \<times> u32 \<times> 's" where
  "cb_fold f dir_size t s [] = (ODFS_OK, dir_size, s)"
| "cb_fold f dir_size t s ((start, nx, node) # es) =
     (if start < unat t then cb_fold f dir_size t s es
      else case f node s of (err, s') \<Rightarrow>
        if err \<noteq> ODFS_OK then (err, of_nat nx, s') else cb_fold f dir_size t s' es)"

lemma name_step:
  assumes "name_run fix_name nf h (map entry_name ((start, nx, node) # es)) = Some (outs, nf', h')"
  obtains nm' nf1 h1 outs1 where "odfs_namefix_apply nf h (name node) ODFS_NAME_MAX = Some (ODFS_OK, nm', nf1, h1)"
    "name_run fix_name nf1 h1 (map entry_name es) = Some (outs1, nf', h')" "outs = nm' # outs1"
proof -
  have "name_run fix_name nf h (name node # map entry_name es) = Some (outs, nf', h')"
    using assms by (simp only: list.map entry_name_def snd_conv)
  then show thesis by (rule nf.run_step) (rule that)
qed

lemma run_cb_fold:
  assumes "name_run fix_name nf h (map entry_name es) = Some (outs, nf', h')"
  shows "\<exists>h2. list_run (plain f) t ds nf h s es =
    (case cb_fold f ds t s (map2 rename_entry es outs) of (err, res, s') \<Rightarrow> Some (err, res, s', h2))"
  using assms
proof (induction es arbitrary: nf h s outs)
  case Nil
  then show ?case by auto
next
  case (Cons e es)
  obtain start nx node where e: "e = (start, nx, node)" by (metis prod_cases3)
  from Cons.prems obtain nm' nf1 h1 outs1 where
    a: "odfs_namefix_apply nf h (name node) ODFS_NAME_MAX = Some (ODFS_OK, nm', nf1, h1)"
    and r: "name_run fix_name nf1 h1 (map entry_name es) = Some (outs1, nf', h')" and o: "outs = nm' # outs1"
    by (auto simp only: e elim: name_step)
  obtain err s1 where f: "f (node\<lparr>name := nm'\<rparr>) s = (err, s1)" by (cases "f (node\<lparr>name := nm'\<rparr>) s")
  show ?case
    using a f Cons.IH[OF r, of s] Cons.IH[OF r, of s1] by (auto simp: e o rename_entry_def plain_def)
qed

lemma adv_cb_fold:
  assumes "name_run fix_name nf h (map entry_name es) = Some (outs, nf', h')"
    "adv (plain f) t nf h s (take k es) = Some (nf2, h2, s')"
  shows "cb_fold f ds t s (take k (map2 rename_entry es outs)) = (ODFS_OK, ds, s')"
  using assms
proof (induction es arbitrary: nf h s outs k)
  case Nil
  then show ?case by simp
next
  case (Cons e es)
  show ?case
  proof (cases k)
    case 0
    with Cons.prems show ?thesis by simp
  next
    case (Suc j)
    obtain start nx node where e: "e = (start, nx, node)" by (metis prod_cases3)
    from Cons.prems(1) obtain nm' nf1 h1 outs1 where
      a: "odfs_namefix_apply nf h (name node) ODFS_NAME_MAX = Some (ODFS_OK, nm', nf1, h1)"
      and r: "name_run fix_name nf1 h1 (map entry_name es) = Some (outs1, nf', h')" and o: "outs = nm' # outs1"
      by (auto simp only: e elim: name_step)
    obtain err s1 where f: "f (node\<lparr>name := nm'\<rparr>) s = (err, s1)" by (cases "f (node\<lparr>name := nm'\<rparr>) s")
    show ?thesis
      using a f Cons.prems(2) Cons.IH[OF r, of s j] Cons.IH[OF r, of s1 j]
      by (auto simp: e o Suc rename_entry_def plain_def split: if_splits)
  qed
qed

section \<open>Names on disc\<close>

lemma or_0x80_nonzero: "ucast (0x80 OR x :: u32) \<noteq> (0 :: u8)"
proof
  assume "ucast (0x80 OR x :: u32) = (0 :: u8)"
  then have "\<not> bit (ucast (0x80 OR x :: u32) :: u8) 7" by simp
  then show False by (simp add: bit_simps)
qed

lemma lead_nonzero: "ucast (0xC0 OR x :: u32) \<noteq> (0 :: u8)" "ucast (0xE0 OR x :: u32) \<noteq> (0 :: u8)"
  using or_0x80_nonzero[of "0x40 OR x"] or_0x80_nonzero[of "0x60 OR x"] by (simp_all flip: or.assoc)

lemma utf8_no_nul:
  assumes "cp \<noteq> 0" "cp < 0x10000"
  shows "0 \<notin> set (utf8_bytes cp)"
proof (cases "cp < 0x80")
  case True
  have "ucast cp \<noteq> (0 :: u8)"
  proof
    assume "ucast cp = (0 :: u8)"
    then have "unat (ucast cp :: u8) = 0" by simp
    then have "unat cp mod 256 = 0" by (simp add: unsigned_ucast_eq take_bit_eq_mod)
    moreover have "unat cp < 128" using True by (simp add: word_less_nat_alt)
    ultimately show False using assms(1) by (simp add: unat_eq_0)
  qed
  with True show ?thesis by (simp add: utf8_bytes_def)
next
  case False
  with assms show ?thesis
    using or_0x80_nonzero lead_nonzero by (auto simp: utf8_bytes_def eq_commute[of 0] split: if_splits)
qed

lemma ucs2be_loop_ok:
  "0 \<notin> set out \<Longrightarrow> length out < n \<Longrightarrow> 0 \<notin> set (ucs2be_loop src n out) \<and> length (ucs2be_loop src n out) < n"
proof (induction src n out rule: ucs2be_loop.induct)
  case (1 hi lo src n out)
  let ?cp = "push_bit 8 (ucast hi) OR ucast lo :: u32"
  have "0 \<notin> set (utf8_bytes ?cp)" if "?cp \<noteq> 0" using utf8_no_nul[OF that ucs2_unit_small] .
  with 1 show ?case by (auto simp: Let_def odfs_utf8_append_def split: option.splits if_splits)
qed simp_all

lemma record_name_ok:
  assumes "iso_record_name d rec nl ctx = Some nm"
  shows "0 \<notin> set nm \<and> length nm < ODFS_NAME_MAX"
proof -
  have j: "0 \<notin> set s \<and> length s < ODFS_NAME_MAX" if "odfs_ucs2be_to_utf8 ident ODFS_NAME_MAX = Inr s" for ident s
    using that ucs2be_loop_ok[of "[]" ODFS_NAME_MAX ident]
    by (auto simp: odfs_ucs2be_to_utf8_def ODFS_NAME_MAX_def split: if_splits)
  have i: "length (cstr s) < ODFS_NAME_MAX" if "odfs_iso_name_to_display ident ODFS_NAME_MAX lc = Inr s" for ident lc s
  proof -
    have "length s \<le> ODFS_NAME_MAX - 1"
    proof -
      let ?n = "if length ident > ODFS_NAME_MAX - 1 then ODFS_NAME_MAX - 1 else length ident"
      have "length s \<le> length (takeWhile (\<lambda>c. c \<noteq> 0x3B) (take ?n ident))"
        using that by (auto simp: odfs_iso_name_to_display_def Let_def split: if_splits)
      also have "\<dots> \<le> ODFS_NAME_MAX - 1" by (rule order_trans[OF length_takeWhile_le]) simp
      finally show ?thesis .
    qed
    then show ?thesis using length_cstr_le[of s] by (simp add: ODFS_NAME_MAX_def)
  qed
  have short: "Suc 0 < ODFS_NAME_MAX" "Suc (Suc 0) < ODFS_NAME_MAX" by (simp_all add: ODFS_NAME_MAX_def)
  from assms show ?thesis
    by (auto simp: iso_record_name_def bind_eq_Some_conv short dest: j i in_set_takeD
        split: if_splits sum.splits)
qed

lemma parse_name:
  assumes "iso_parse_dir_record d rec room ctx = Some (Some p, ctx')"
  shows "\<exists>nl. iso_record_name d rec nl ctx = Some (name (pr_node p))"
  using assms by (auto simp: iso_parse_dir_record_def bind_eq_Some_conv Let_def split: if_splits)

lemma extents_name: "disc_extents disc ctx dir d rec node nx = Some (nx', node') \<Longrightarrow> name node' = name node"
  by (auto simp: disc_extents_def bind_eq_Some_conv split: if_splits)

lemma scan_names:
  "iso_scan disc dir ctx off = Some es \<Longrightarrow> \<forall>e \<in> set es. 0 \<notin> set (entry_name e) \<and> length (entry_name e) < ODFS_NAME_MAX"
proof (induction disc dir ctx off arbitrary: es rule: iso_scan.induct)
  case (1 disc dir ctx off)
  show ?case
  proof (cases "off < unat (extlen (extent dir))")
    case False
    with "1.prems" show ?thesis by (subst (asm) iso_scan.simps) simp
  next
    case True
    with "1.prems" obtain p ctx' where p: "record_at disc dir ctx off = Some (p, ctx')"
      by (subst (asm) iso_scan.simps) (auto simp: bind_eq_Some_conv)
    show ?thesis
    proof (cases p)
      case None
      with "1.prems" True p "1.IH"(1)[OF _ p refl None] show ?thesis by (subst (asm) iso_scan.simps) simp
    next
      case (Some q)
      with "1.prems" True p obtain nx node es' where
        de: "disc_extents disc ctx' dir (disc (lba (extent dir) + of_nat (off div 2048))) (off mod 2048)
                ((pr_node q)\<lparr>parent_id := node_id dir\<rparr>) (off + pr_consumed q) = Some (nx, node)"
        and es': "iso_scan disc dir ctx' nx = Some es'"
        and es: "es = (if is_dot_name (name node) then es' else (off, nx, node) # es')"
        by (subst (asm) iso_scan.simps) (auto simp: bind_eq_Some_conv)
      have "0 \<notin> set (name node) \<and> length (name node) < ODFS_NAME_MAX"
        using p Some extents_name[OF de] by (auto simp: record_at_def Let_def dest!: parse_name record_name_ok split: if_splits)
      moreover have "\<forall>e \<in> set es'. 0 \<notin> set (entry_name e) \<and> length (entry_name e) < ODFS_NAME_MAX"
        using "1.IH"(2)[OF _ p refl Some de refl es'] True by simp
      ultimately show ?thesis using es by (auto simp: entry_name_def)
    qed
  qed
qed

text \<open>
  The names of a listing are pairwise different up to case and fit the name buffer, and they are
  the names on disc when those differ.
\<close>

lemma map_entry_name_rename:
  "length outs = length es \<Longrightarrow> map entry_name (map2 rename_entry es outs) = outs"
  by (induction outs es rule: list_induct2) (auto simp: entry_name_def rename_entry_def split: prod.splits)

lemma listing_names:
  assumes "iso_listing disc dir ctx h = Some L"
  shows "distinct (map (fold_name \<circ> entry_name) L) \<and> (\<forall>e \<in> set L. 0 \<notin> set (entry_name e) \<and> length (entry_name e) < ODFS_NAME_MAX) \<and>
    (\<exists>es. iso_scan disc dir ctx 0 = Some es \<and> length L = length es \<and>
       map (\<lambda>(a, b, n). (a, b, n\<lparr>name := []\<rparr>)) L = map (\<lambda>(a, b, n). (a, b, n\<lparr>name := []\<rparr>)) es \<and>
       (distinct (map (fold_name \<circ> entry_name) es) \<longrightarrow> L = es))"
proof -
  from assms obtain es outs nf h2 where es: "iso_scan disc dir ctx 0 = Some es"
    and n: "name_run fix_name odfs_namefix_init h (map entry_name es) = Some (outs, nf, h2)"
    and L: "L = map2 rename_entry es outs"
    by (auto simp: iso_listing_def bind_eq_Some_conv)
  have ok: "\<forall>nm \<in> set (map entry_name es). 0 \<notin> set nm \<and> length nm < ODFS_NAME_MAX" using scan_names[OF es] by auto
  from nf.run_distinct[OF nf.start_wf ok n] have d: "distinct (map fold_name outs)" "length outs = length es"
    "\<forall>nm \<in> set outs. 0 \<notin> set nm \<and> length nm < ODFS_NAME_MAX" by auto
  have m: "map entry_name L = outs" using map_entry_name_rename[OF d(2)] L by simp
  have len: "length L = length es" using d(2) L by simp
  have same: "map (\<lambda>(a, b, n). (a, b, n\<lparr>name := []\<rparr>)) L = map (\<lambda>(a, b, n). (a, b, n\<lparr>name := []\<rparr>)) es"
    unfolding L using d(2) by (induction outs es rule: list_induct2) (auto simp: rename_entry_def split: prod.splits)
  have eq: "L = es" if dd: "distinct (map (fold_name \<circ> entry_name) es)"
  proof -
    have "outs = map entry_name es"
      using nf.run_unchanged[OF nf.start_wf ok n] dd by (simp add: nf.start_names)
    moreover have "map2 rename_entry es (map entry_name es) = es"
      by (induction es) (auto simp: rename_entry_def entry_name_def)
    ultimately show ?thesis by (simp add: L)
  qed
  have "map (fold_name \<circ> entry_name) L = map fold_name outs" unfolding m[symmetric] by simp
  moreover have "\<forall>e \<in> set L. 0 \<notin> set (entry_name e) \<and> length (entry_name e) < ODFS_NAME_MAX"
    using d(3) unfolding m[symmetric] by simp
  ultimately show ?thesis using d(1) len same eq es by simp
qed

section \<open>Enumeration\<close>

context iso_media
begin

lemma readdir_listing:
  assumes g: "good_cache c xs" "\<not> has_rock_ridge ctx" "unat (extlen (extent dir)) \<le> dir_limit"
    and l: "iso_listing disc dir ctx h = Some L"
  shows "\<exists>err res s' ctx' c' h'. odfs_iso_readdir ctx c h dir (plain f) s t = Some ((err, res, s'), ctx', c', h') \<and>
    (\<exists>xs'. good_cache c' xs') \<and>
    ((err, res, s') = cb_fold f (extlen (extent dir)) t s L \<or>
     fault dir err \<and> res = t \<and>
     (\<exists>k. cb_fold f (extlen (extent dir)) t s (take k L) = (ODFS_OK, extlen (extent dir), s')))"
proof -
  from l obtain es outs nf h2 where es: "iso_scan disc dir ctx 0 = Some es"
    and n: "name_run fix_name odfs_namefix_init h (map entry_name es) = Some (outs, nf, h2)"
    and L: "L = map2 rename_entry es outs"
    by (auto simp: iso_listing_def bind_eq_Some_conv)
  show ?thesis
  proof (rule readdir_refines[OF g es, of h "plain f" s t], goal_cases)
    case (1 err res s' ctx' c' h' xs')
    from run_cb_fold[OF n, of f t "extlen (extent dir)" s] 1(3) L
    have "(err, res, s') = cb_fold f (extlen (extent dir)) t s L"
      by (cases "cb_fold f (extlen (extent dir)) t s L") auto
    with 1 show ?thesis by blast
  next
    case (2 err s' ctx' c' h' xs' k nf')
    from adv_cb_fold[OF n 2(4)] L have "cb_fold f (extlen (extent dir)) t s (take k L) = (ODFS_OK, extlen (extent dir), s')" by simp
    with 2 show ?thesis by blast
  qed
qed

text \<open>Lookup is a search for the first matching entry of the listing.\<close>

lemma lookup_fold:
  "cb_fold (\<lambda>e s. if odfs_strcasecmp (name e) nm = 0 then (ODFS_ERR_EOF, Some e) else (ODFS_OK, s)) ds 0 None L =
   (case find (\<lambda>e. odfs_strcasecmp (entry_name e) nm = 0) L of
      Some (start, nx, n) \<Rightarrow> (ODFS_ERR_EOF, of_nat nx, Some n) | None \<Rightarrow> (ODFS_OK, ds, None))"
  by (induction L) (auto simp: entry_name_def)

lemma lookup_cb_plain:
  "lookup_cb nm = plain (\<lambda>e s. if odfs_strcasecmp (name e) nm = 0 then (ODFS_ERR_EOF, Some e) else (ODFS_OK, s))"
  by (auto simp: lookup_cb_def plain_def fun_eq_iff)

lemma lookup_fold_none:
  assumes "cb_fold (\<lambda>e s. if odfs_strcasecmp (name e) nm = 0 then (ODFS_ERR_EOF, Some e) else (ODFS_OK, s)) ds 0 None L = (ODFS_OK, ds, s')"
  shows "s' = None"
  using assms unfolding lookup_fold by (auto split: option.splits)

lemma lookup_listing:
  assumes g: "good_cache c xs" "\<not> has_rock_ridge ctx" "unat (extlen (extent dir)) \<le> dir_limit"
    and l: "iso_listing disc dir ctx h = Some L"
  shows "\<exists>r ctx' c' h'. odfs_iso_lookup ctx c h dir nm = Some (r, ctx', c', h') \<and> (\<exists>xs'. good_cache c' xs') \<and>
    (r = (case find (\<lambda>e. odfs_strcasecmp (entry_name e) nm = 0) L of
            Some (start, nx, n) \<Rightarrow> Inr n | None \<Rightarrow> Inl ODFS_ERR_NOT_FOUND) \<or> (\<exists>err. r = Inl err \<and> fault dir err))"
proof -
  let ?f = "\<lambda>e s. if odfs_strcasecmp (name e) nm = 0 then (ODFS_ERR_EOF, Some e) else (ODFS_OK, s)"
  from readdir_listing[OF g l, of ?f None 0] obtain err res s' ctx' c' h' xs' where
    r: "odfs_iso_readdir ctx c h dir (lookup_cb nm) None 0 = Some ((err, res, s'), ctx', c', h')" and g': "good_cache c' xs'"
    and d: "(err, res, s') = cb_fold ?f (extlen (extent dir)) 0 None L \<or>
     fault dir err \<and> (\<exists>k. cb_fold ?f (extlen (extent dir)) 0 None (take k L) = (ODFS_OK, extlen (extent dir), s'))"
    unfolding lookup_cb_plain by blast
  from d show ?thesis
  proof
    assume "(err, res, s') = cb_fold ?f (extlen (extent dir)) 0 None L"
    then have "(err, s') = (case find (\<lambda>e. odfs_strcasecmp (entry_name e) nm = 0) L of
        Some (start, nx, n) \<Rightarrow> (ODFS_ERR_EOF, Some n) | None \<Rightarrow> (ODFS_OK, None))"
      unfolding lookup_fold by (auto split: option.splits)
    with r g' show ?thesis by (auto simp: odfs_iso_lookup_def split: option.splits)
  next
    assume "fault dir err \<and> (\<exists>k. cb_fold ?f (extlen (extent dir)) 0 None (take k L) = (ODFS_OK, extlen (extent dir), s'))"
    then have "fault dir err" "err \<noteq> ODFS_OK" "s' = None" using lookup_fold_none fault_err by blast+
    with r g' show ?thesis by (auto simp: odfs_iso_lookup_def)
  qed
qed

end

section \<open>Resuming\<close>

text \<open>Reading stops after \<open>k\<close> entries, as a client with a full buffer does.\<close>

definition take_cb :: "nat \<Rightarrow> odfs_node list plain_cb" where
  "take_cb k e s = (if length s + 1 < k then ODFS_OK else ODFS_ERR_EOF, s @ [e])"

definition collect_cb :: "odfs_node list plain_cb" where
  "collect_cb e s = (ODFS_OK, s @ [e])"

abbreviation nodes :: "(nat \<times> nat \<times> odfs_node) list \<Rightarrow> odfs_node list" where
  "nodes L \<equiv> map (\<lambda>e. snd (snd e)) L"

lemma collect_fold:
  "cb_fold collect_cb ds t s L = (ODFS_OK, ds, s @ nodes (filter (\<lambda>e. unat t \<le> fst e) L))"
  by (induction L arbitrary: s) (auto simp: collect_cb_def)

lemma take_fold:
  "length s < k \<Longrightarrow> cb_fold (take_cb k) ds 0 s L =
     (if length s + length L < k then (ODFS_OK, ds, s @ nodes L)
      else (ODFS_ERR_EOF, of_nat (fst (snd (L ! (k - 1 - length s)))), s @ nodes (take (k - length s) L)))"
proof (induction L arbitrary: s)
  case Nil
  then show ?case by simp
next
  case (Cons e L)
  obtain start nx n where e: "e = (start, nx, n)" by (metis prod_cases3)
  show ?case
  proof (cases "length s + 1 < k")
    case True
    then have "k - length s = Suc (k - Suc (length s))" "k - 1 - length s = Suc (k - 1 - Suc (length s))" by auto
    with True Cons.IH[of "s @ [n]"] show ?thesis by (simp add: e take_cb_def)
  next
    case False
    with Cons.prems have "k = Suc (length s)" by simp
    then show ?thesis by (simp add: e take_cb_def)
  qed
qed

text \<open>The entries of a scan are in order, each ending before the next begins.\<close>

lemma scan_order:
  "iso_scan disc dir ctx off = Some es \<Longrightarrow>
     sorted_wrt (\<lambda>a b. fst (snd a) \<le> fst b) es \<and> (\<forall>e \<in> set es. off \<le> fst e \<and> fst e < fst (snd e))"
proof (induction disc dir ctx off arbitrary: es rule: iso_scan.induct)
  case (1 disc dir ctx off)
  show ?case
  proof (cases "off < unat (extlen (extent dir))")
    case False
    with "1.prems" show ?thesis by (subst (asm) iso_scan.simps) simp
  next
    case True
    with "1.prems" obtain p ctx' where p: "record_at disc dir ctx off = Some (p, ctx')"
      by (subst (asm) iso_scan.simps) (auto simp: bind_eq_Some_conv)
    show ?thesis
    proof (cases p)
      case None
      have "iso_scan disc dir ctx' (2048 * (off div 2048 + 1)) = Some es"
        using "1.prems" True p None by (subst (asm) iso_scan.simps) simp
      from "1.IH"(1)[OF _ p refl None this] True next_boundary[of off] show ?thesis
        by (meson less_imp_le_nat order_trans not_not)
    next
      case (Some q)
      with "1.prems" True p obtain nx node es' where
        de: "disc_extents disc ctx' dir (disc (lba (extent dir) + of_nat (off div 2048))) (off mod 2048)
                ((pr_node q)\<lparr>parent_id := node_id dir\<rparr>) (off + pr_consumed q) = Some (nx, node)"
        and es': "iso_scan disc dir ctx' nx = Some es'"
        and es: "es = (if is_dot_name (name node) then es' else (off, nx, node) # es')"
        by (subst (asm) iso_scan.simps) (auto simp: bind_eq_Some_conv)
      have "33 \<le> pr_consumed q" using p Some by (auto simp: record_at_def Let_def split: if_splits dest: parse_consumed)
      then have lt: "off < nx" using disc_extents_ge[OF de] by simp
      have IH: "sorted_wrt (\<lambda>a b. fst (snd a) \<le> fst b) es' \<and> (\<forall>e \<in> set es'. nx \<le> fst e \<and> fst e < fst (snd e))"
        using "1.IH"(2)[OF _ p refl Some de refl es'] True by simp
      then show ?thesis using es lt by (auto intro: order_trans[of off nx])
    qed
  qed
qed

end
