(* ===== verification/Iso_Resume.thy ===== *)
theory Iso_Resume
  imports Iso_Facts
begin

text \<open>
  Enumerations that stop and are resumed.  Every enumeration numbers its nodes afresh, so two
  enumerations are compared up to the node numbers; but for these, what a scan finds does not
  depend on the state the mount context is in.
\<close>

section \<open>Node numbers\<close>

definition unid :: "odfs_node \<Rightarrow> odfs_node" where
  "unid n = n\<lparr>node_id := 0\<rparr>"

lemma record_name_ids: "iso_record_name d rec nl (ctx\<lparr>next_node_id := i\<rparr>) = iso_record_name d rec nl ctx"
  by (simp add: iso_record_name_def cong: if_cong Option.bind_cong)

lemma map_bind: "map_option f (Option.bind x g) = Option.bind x (\<lambda>y. map_option f (g y))"
  by (cases x) auto

lemma node_comm2:
  "n\<lparr>backend := b, extent := x, size := s, kind := k, mtime := t, ctime := u, name := nm, node_id := i\<rparr> =
   n\<lparr>node_id := i, backend := b, extent := x, size := s, kind := k, mtime := t, ctime := u, name := nm\<rparr>"
  by (cases n) simp

lemma parse_ids:
  "iso_parse_dir_record d rec room (ctx\<lparr>next_node_id := i\<rparr>) =
   map_option (\<lambda>(p, c). (map_option (\<lambda>p. p\<lparr>pr_node := (pr_node p)\<lparr>node_id := i\<rparr>\<rparr>) p,
                         ctx\<lparr>next_node_id := (if p = None then i else i + 1)\<rparr>))
     (iso_parse_dir_record d rec room ctx)"
  unfolding iso_parse_dir_record_def
  by (simp add: map_bind record_name_ids Let_def node_comm2 iso_flags_off_def if_distrib[of "map_option _"]
      cong: if_cong Option.bind_cong)

lemma record_ids:
  "record_at disc dir (ctx\<lparr>next_node_id := i\<rparr>) off =
   map_option (\<lambda>(p, c). (map_option (\<lambda>p. p\<lparr>pr_node := (pr_node p)\<lparr>node_id := i\<rparr>\<rparr>) p,
                         ctx\<lparr>next_node_id := (if p = None then i else i + 1)\<rparr>))
     (record_at disc dir ctx off)"
  by (simp add: record_at_def parse_ids Let_def)

lemma node_comm: "n\<lparr>size := m, extent := x, node_id := j\<rparr> = n\<lparr>node_id := j, size := m, extent := x\<rparr>"
  by (cases n) simp

lemma extents_ids:
  "disc_extents disc (ctx\<lparr>next_node_id := k\<rparr>) dir d rec (node\<lparr>node_id := j\<rparr>) nx =
   map_option (\<lambda>(a, n). (a, n\<lparr>node_id := j\<rparr>)) (disc_extents disc ctx dir d rec node nx)"
  unfolding disc_extents_def
  by (simp add: map_bind iso_flags_off_def if_distrib[of "map_option _"] split_def node_comm cong: if_cong Option.bind_cong)

text \<open>Numbering the nodes differently does not change what a scan finds.\<close>

abbreviation unid_entry :: "nat \<times> nat \<times> odfs_node \<Rightarrow> nat \<times> nat \<times> odfs_node" where
  "unid_entry e \<equiv> (fst e, fst (snd e), unid (snd (snd e)))"

lemma scan_ids:
  "iso_scan disc dir ctx off = Some es \<Longrightarrow>
     \<exists>es'. iso_scan disc dir (ctx\<lparr>next_node_id := i\<rparr>) off = Some es' \<and> map unid_entry es' = map unid_entry es"
proof (induction disc dir ctx off arbitrary: es i rule: iso_scan.induct)
  case (1 disc dir ctx off)
  show ?case
  proof (cases "off < unat (extlen (extent dir))")
    case False
    then have "iso_scan disc dir (ctx\<lparr>next_node_id := i\<rparr>) off = Some []" by (subst iso_scan.simps) simp
    moreover have "es = []" using False "1.prems" by (subst (asm) iso_scan.simps) simp
    ultimately show ?thesis by simp
  next
    case True
    with "1.prems" obtain p ctx' where p: "record_at disc dir ctx off = Some (p, ctx')"
      by (subst (asm) iso_scan.simps) (auto simp: bind_eq_Some_conv)
    from p obtain j where ctx': "ctx' = ctx\<lparr>next_node_id := j\<rparr>"
      by (auto simp: record_at_def Let_def intro: that[of "next_node_id ctx"] dest: parse_ctx split: if_splits)
    have ra: "record_at disc dir (ctx\<lparr>next_node_id := i\<rparr>) off =
        Some (map_option (\<lambda>p. p\<lparr>pr_node := (pr_node p)\<lparr>node_id := i\<rparr>\<rparr>) p, ctx'\<lparr>next_node_id := (if p = None then i else i + 1)\<rparr>)"
      by (simp add: record_ids p ctx')
    show ?thesis
    proof (cases p)
      case None
      have "iso_scan disc dir ctx' (2048 * (off div 2048 + 1)) = Some es"
        using "1.prems" True p None by (subst (asm) iso_scan.simps) simp
      from "1.IH"(1)[OF _ p refl None this, of i] True
      show ?thesis using None True by (subst iso_scan.simps) (simp add: ra)
    next
      case (Some q)
      with "1.prems" True p obtain nx node es1 where
        de: "disc_extents disc ctx' dir (disc (lba (extent dir) + of_nat (off div 2048))) (off mod 2048)
                ((pr_node q)\<lparr>parent_id := node_id dir\<rparr>) (off + pr_consumed q) = Some (nx, node)"
        and es1: "iso_scan disc dir ctx' nx = Some es1"
        and es: "es = (if is_dot_name (name node) then es1 else (off, nx, node) # es1)"
        by (subst (asm) iso_scan.simps) (auto simp: bind_eq_Some_conv)
      from "1.IH"(2)[OF _ p refl Some de refl es1, of "i + 1"] True obtain es2 where
        es2: "iso_scan disc dir (ctx'\<lparr>next_node_id := i + 1\<rparr>) nx = Some es2" "map unid_entry es2 = map unid_entry es1" by auto
      have comm: "n\<lparr>node_id := i, parent_id := j\<rparr> = n\<lparr>parent_id := j, node_id := i\<rparr>" for n :: odfs_node and j by (cases n) simp
      from extents_ids[where disc = disc and ctx = ctx' and k = "i + 1" and dir = dir and j = i and
          node = "(pr_node q)\<lparr>parent_id := node_id dir\<rparr>"] de
      have "iso_scan disc dir (ctx\<lparr>next_node_id := i\<rparr>) off =
          Some (if is_dot_name (name node) then es2 else (off, nx, node\<lparr>node_id := i\<rparr>) # es2)"
        using True Some es2(1) by (subst iso_scan.simps) (simp add: ra comm)
      then show ?thesis using es es2(2) by (auto simp: unid_def)
    qed
  qed
qed

lemma unid_names: "map unid_entry es' = map unid_entry es \<Longrightarrow> map entry_name es' = map entry_name es"
  by (induction es' es rule: list_induct2') (auto simp: entry_name_def unid_def dest: arg_cong[of _ _ name])

lemma unid_rename:
  "map unid_entry es' = map unid_entry es \<Longrightarrow> map unid_entry (map2 rename_entry es' outs) = map unid_entry (map2 rename_entry es outs)"
proof (induction es' es arbitrary: outs rule: list_induct2')
  case (4 a as b bs)
  have "unid (n\<lparr>name := nm\<rparr>) = (unid n)\<lparr>name := nm\<rparr>" for n nm by (cases n) (simp add: unid_def)
  with 4 show ?case by (cases outs) (auto simp: rename_entry_def split: prod.splits)
qed auto

lemma listing_ids:
  assumes "iso_listing disc dir ctx h = Some L"
  shows "\<exists>L'. iso_listing disc dir (ctx\<lparr>next_node_id := i\<rparr>) h = Some L' \<and> map unid_entry L' = map unid_entry L"
proof -
  from assms obtain es outs nf h2 where es: "iso_scan disc dir ctx 0 = Some es"
    and n: "name_run fix_name odfs_namefix_init h (map entry_name es) = Some (outs, nf, h2)"
    and L: "L = map2 rename_entry es outs"
    by (auto simp: iso_listing_def bind_eq_Some_conv)
  from scan_ids[OF es, of i] obtain es' where es': "iso_scan disc dir (ctx\<lparr>next_node_id := i\<rparr>) 0 = Some es'"
    "map unid_entry es' = map unid_entry es" by blast
  then show ?thesis using n L unid_names[OF es'(2)] unid_rename[OF es'(2), of outs] by (simp add: iso_listing_def)
qed

text \<open>An enumeration changes nothing of the mount context but the node counter.\<close>

definition ctx_kept :: "iso_context \<Rightarrow> iso_context \<Rightarrow> bool" where
  "ctx_kept ctx ctx' \<longleftrightarrow> (\<exists>i. ctx' = ctx\<lparr>next_node_id := i\<rparr>)"

lemma deliver_ctx:
  "iso_deliver cb t st node nx = Some x \<Longrightarrow> rs_ctx (case x of Inl (e, r, st') \<Rightarrow> st' | Inr st' \<Rightarrow> st') = rs_ctx st"
  by (auto simp: iso_deliver_def bind_eq_Some_conv Let_def split: if_splits prod.splits)

lemma record_ctx:
  assumes "iso_record dir cb t st held = Some x"
  shows "ctx_kept (rs_ctx st) (rs_ctx (case x of Inl (e, r, st') \<Rightarrow> st' | Inr st' \<Rightarrow> st'))"
proof -
  have refl: "ctx_kept ctx ctx" for ctx by (auto simp: ctx_kept_def intro: exI[of _ "next_node_id ctx"])
  from assms obtain d b where d: "cache_data (rs_cache st) (fst held) = Some d" "rd d (unat (rs_offset st mod 2048)) = Some b"
    by (auto simp: iso_record_def Let_def bind_eq_Some_conv)
  show ?thesis
  proof (cases "b = 0")
    case True
    with assms d show ?thesis by (auto simp: iso_record_def Let_def refl)
  next
    case False
    with assms d obtain p ctx where p: "iso_parse_dir_record d (unat (rs_offset st mod 2048)) (ISO_SECTOR - unat (rs_offset st mod 2048)) (rs_ctx st) = Some (p, ctx)"
      by (auto simp: iso_record_def Let_def bind_eq_Some_conv)
    have k: "ctx_kept (rs_ctx st) ctx" using parse_ctx[OF p] by (simp add: ctx_kept_def)
    note step = iso_record_def Let_def d False p
    show ?thesis
    proof (cases p)
      case None
      with assms k show ?thesis by (auto simp: step)
    next
      case (Some q)
      with assms obtain r c where rc: "iso_extents ctx dir (fst (snd held)) (unat (rs_offset st mod 2048)) d held (rs_cache st) q
          ((pr_node q)\<lparr>parent_id := node_id dir\<rparr>) (rs_offset st + of_nat (pr_consumed q)) = Some (r, c)"
        by (auto simp: step bind_eq_Some_conv)
      show ?thesis
      proof (cases r)
        case (Inl err)
        with assms Some rc k show ?thesis by (auto simp: step)
      next
        case (Inr y)
        obtain node nx idx l g where y: "y = (node, nx, idx, l, g)" by (metis prod_cases5)
        from assms Some rc Inr y obtain n c2 where n: "iso_rock_ridge ctx c idx (unat (rs_offset st mod 2048)) q node = Some (n, c2)"
          by (auto simp: step bind_eq_Some_conv)
        show ?thesis
        proof (cases n)
          case None
          with assms Some rc Inr y n k show ?thesis by (auto simp: step)
        next
          case (Some node')
          with assms \<open>p = Some q\<close> rc Inr y n have "iso_deliver cb t (st\<lparr>rs_ctx := ctx, rs_held := Some (idx, l, g), rs_cache := c2\<rparr>) node' nx = Some x"
            by (auto simp: step)
          from deliver_ctx[OF this] k show ?thesis by simp
        qed
      qed
    qed
  qed
qed

lemma body_ctx:
  assumes "readdir_body dir cb t st = Some x"
  shows "ctx_kept (rs_ctx st) (rs_ctx (case x of Inl (e, r, st') \<Rightarrow> st' | Inr st' \<Rightarrow> st'))"
proof (cases "rs_offset st < extlen (extent dir)")
  case False
  with assms show ?thesis by (auto simp: readdir_body_def ctx_kept_def intro: exI[of _ "next_node_id (rs_ctx st)"])
next
  case True
  with assms obtain r c where rc: "iso_hold st (lba (extent dir) + rs_offset st div 2048) = Some (r, c)"
    by (auto simp: readdir_body_def bind_eq_Some_conv)
  show ?thesis
  proof (cases r)
    case (Inl e)
    with True rc assms show ?thesis
      by (auto simp: readdir_body_def Let_def ctx_kept_def intro: exI[of _ "next_node_id (rs_ctx st)"])
  next
    case (Inr hp)
    with True rc assms have "iso_record dir cb t (st\<lparr>rs_cache := c, rs_held := Some hp\<rparr>) hp = Some x"
      by (simp add: readdir_body_def Let_def)
    from record_ctx[OF this] show ?thesis by simp
  qed
qed

lemma readdir_ctx:
  assumes "odfs_iso_readdir ctx c h dir cb s t = Some (r, ctx', c', h')"
  shows "ctx_kept ctx ctx'"
proof -
  have trans: "ctx_kept a b \<Longrightarrow> ctx_kept b d \<Longrightarrow> ctx_kept a d" for a b d by (auto simp: ctx_kept_def)
  from assms obtain err res st where it: "iter (readdir_body dir cb t)
       \<lparr>rs_cache = c, rs_heap = h, rs_ctx = ctx, rs_offset = 0, rs_names = odfs_namefix_init,
        rs_held = None, rs_cb = s\<rparr> = Some (err, res, st)" and ctx': "ctx' = rs_ctx st"
    by (auto simp: odfs_iso_readdir_def bind_eq_Some_conv)
  have "(\<lambda>x. ctx_kept ctx (rs_ctx (snd (snd x)))) (err, res, st)"
  proof (rule iter_partial[OF it, where I = "\<lambda>st. ctx_kept ctx (rs_ctx st)"])
    show "ctx_kept ctx (rs_ctx \<lparr>rs_cache = c, rs_heap = h, rs_ctx = ctx, rs_offset = 0, rs_names = odfs_namefix_init,
        rs_held = None, rs_cb = s\<rparr>)" by (auto simp: ctx_kept_def intro: exI[of _ "next_node_id ctx"])
  qed (use body_ctx trans in fastforce)+
  then show ?thesis by (simp add: ctx')
qed

section \<open>Resuming\<close>

lemma extents_lim:
  "disc_extents disc ctx dir d rec node nx = Some (nx', node') \<Longrightarrow> unat (extlen (extent dir)) \<le> dir_limit \<Longrightarrow>
     nx < 2 ^ 32 \<Longrightarrow> nx' < 2 ^ 32"
  by (auto simp: disc_extents_def bind_eq_Some_conv split: if_splits dest: disc_merge_lim)

lemma scan_lim:
  "iso_scan disc dir ctx off = Some es \<Longrightarrow> unat (extlen (extent dir)) \<le> dir_limit \<Longrightarrow> \<forall>e \<in> set es. fst (snd e) < 2 ^ 32"
proof (induction disc dir ctx off arbitrary: es rule: iso_scan.induct)
  case (1 disc dir ctx off)
  show ?case
  proof (cases "off < unat (extlen (extent dir))")
    case False
    with "1.prems" show ?thesis by (subst (asm) iso_scan.simps) simp
  next
    case True
    with "1.prems" obtain p ctx' where p: "record_at disc dir ctx off = Some (p, ctx')"
      by (subst (asm) iso_scan.simps) (auto simp: bind_eq_Some_conv)
    show ?thesis
    proof (cases p)
      case None
      have "iso_scan disc dir ctx' (2048 * (off div 2048 + 1)) = Some es"
        using "1.prems" True p None by (subst (asm) iso_scan.simps) simp
      from "1.IH"(1)[OF _ p refl None this "1.prems"(2)] True show ?thesis by simp
    next
      case (Some q)
      with "1.prems" True p obtain nx node es' where
        de: "disc_extents disc ctx' dir (disc (lba (extent dir) + of_nat (off div 2048))) (off mod 2048)
                ((pr_node q)\<lparr>parent_id := node_id dir\<rparr>) (off + pr_consumed q) = Some (nx, node)"
        and es': "iso_scan disc dir ctx' nx = Some es'"
        and es: "es = (if is_dot_name (name node) then es' else (off, nx, node) # es')"
        by (subst (asm) iso_scan.simps) (auto simp: bind_eq_Some_conv)
      have "pr_consumed q < 256" using p Some by (auto simp: record_at_def Let_def split: if_splits dest: parse_consumed)
      then have "off + pr_consumed q < 2 ^ 32" using True "1.prems"(2) by (simp add: dir_limit_def)
      from extents_lim[OF de "1.prems"(2) this] "1.IH"(2)[OF _ p refl Some de refl es' "1.prems"(2)] True es
      show ?thesis by auto
    qed
  qed
qed

lemma listing_order:
  assumes "iso_listing disc dir ctx h = Some L" "unat (extlen (extent dir)) \<le> dir_limit"
  shows "sorted_wrt (\<lambda>a b. fst (snd a) \<le> fst b) L \<and> (\<forall>e \<in> set L. fst e < fst (snd e) \<and> fst (snd e) < 2 ^ 32)"
proof -
  from listing_names[OF assms(1)] obtain es where es: "iso_scan disc dir ctx 0 = Some es"
    and m: "map (\<lambda>(a, b, n). (a, b, n\<lparr>name := []\<rparr>)) L = map (\<lambda>(a, b, n). (a, b, n\<lparr>name := []\<rparr>)) es" by blast
  have "map (\<lambda>e. (fst e, fst (snd e))) L = map (\<lambda>e. (fst e, fst (snd e))) es"
    using m by (induction L es rule: list_induct2') auto
  moreover have "sorted_wrt (\<lambda>a b. snd a \<le> fst b) (map (\<lambda>e. (fst e, fst (snd e))) es) \<and>
      (\<forall>e \<in> set (map (\<lambda>e. (fst e, fst (snd e))) es). fst e < snd e \<and> snd e < 2 ^ 32)"
    using scan_order[OF es] scan_lim[OF es assms(2)] by (auto simp: sorted_wrt_map)
  ultimately have "sorted_wrt (\<lambda>a b. snd a \<le> fst b) (map (\<lambda>e. (fst e, fst (snd e))) L) \<and>
      (\<forall>e \<in> set (map (\<lambda>e. (fst e, fst (snd e))) L). fst e < snd e \<and> snd e < 2 ^ 32)" by simp
  then show ?thesis by (simp add: sorted_wrt_map)
qed

lemma filter_drop:
  assumes "sorted_wrt (\<lambda>a b. fst (snd a) \<le> fst b) L" "\<forall>e \<in> set L. fst e < fst (snd e)" "0 < k" "k \<le> length L"
  shows "filter (\<lambda>e. fst (snd (L ! (k - 1))) \<le> fst e) L = drop k (L :: (nat \<times> nat \<times> odfs_node) list)"
proof -
  let ?P = "\<lambda>e. fst (snd (L ! (k - 1))) \<le> fst e"
  have "filter ?P (take k L) = []"
  proof (rule filter_False, rule ballI)
    fix e assume "e \<in> set (take k L)"
    then obtain i where i: "i < k" "e = L ! i" using assms(4) by (auto simp: in_set_conv_nth)
    show "\<not> ?P e"
    proof (cases "i = k - 1")
      case True
      with i assms show ?thesis by (simp add: not_le)
    next
      case False
      with i assms(3) have "i < k - 1" by simp
      with assms(1,4) i have "fst (snd (L ! i)) \<le> fst (L ! (k - 1))" by (simp add: sorted_wrt_iff_nth_less)
      moreover have "fst (L ! i) < fst (snd (L ! i))" "fst (L ! (k - 1)) < fst (snd (L ! (k - 1)))" using assms i by auto
      ultimately show ?thesis using i by simp
    qed
  qed
  moreover have "filter ?P (drop k L) = drop k L"
  proof (rule filter_True, rule ballI)
    fix e assume "e \<in> set (drop k L)"
    then obtain i where "i < length L - k" "e = L ! (k + i)" by (auto simp: in_set_conv_nth)
    with assms(1,3) show "?P e" by (simp add: sorted_wrt_iff_nth_less)
  qed
  ultimately show ?thesis by (metis append_Nil append_take_drop_id filter_append)
qed

lemma unid_nodes: "map unid_entry L' = map unid_entry L \<Longrightarrow> map unid (nodes L') = map unid (nodes L)"
  by (induction L' L rule: list_induct2') auto

context iso_media
begin

lemma resume_listing:
  assumes g: "good_cache c xs" "\<not> has_rock_ridge ctx" "unat (extlen (extent dir)) \<le> dir_limit"
    and l: "iso_listing disc dir ctx h = Some L" "iso_listing disc dir ctx h2 = Some L"
    and k: "0 < k" "k \<le> length L" and sound: "\<And>e. \<not> fault dir e"
  shows "\<exists>res ctx1 c1 h1 out2 ctx2 c2 h3.
    odfs_iso_readdir ctx c h dir (plain (take_cb k)) [] 0 = Some ((ODFS_ERR_EOF, res, nodes (take k L)), ctx1, c1, h1) \<and>
    odfs_iso_readdir ctx1 c1 h2 dir (plain collect_cb) [] res = Some ((ODFS_OK, extlen (extent dir), out2), ctx2, c2, h3) \<and>
    map unid (nodes (take k L) @ out2) = map unid (nodes L)"
proof -
  let ?ds = "extlen (extent dir)"
  from readdir_listing[OF g l(1), of "take_cb k" "[]" 0] sound obtain err res out1 ctx1 c1 h1 xs1 where
    r1: "odfs_iso_readdir ctx c h dir (plain (take_cb k)) [] 0 = Some ((err, res, out1), ctx1, c1, h1)"
    and g1: "good_cache c1 xs1" and d1: "(err, res, out1) = cb_fold (take_cb k) ?ds 0 [] L" by blast
  from d1 have e1: "err = ODFS_ERR_EOF" and res: "res = of_nat (fst (snd (L ! (k - 1))))" and o1: "out1 = nodes (take k L)"
    using take_fold[of "[]" k ?ds L] k by auto
  from readdir_ctx[OF r1] obtain i where ctx1: "ctx1 = ctx\<lparr>next_node_id := i\<rparr>" by (auto simp: ctx_kept_def)
  from listing_ids[OF l(2), of i] obtain L' where l': "iso_listing disc dir ctx1 h2 = Some L'" and u: "map unid_entry L' = map unid_entry L"
    using ctx1 by blast
  have rr1: "\<not> has_rock_ridge ctx1" using g(2) ctx1 by simp
  from readdir_listing[OF g1 rr1 g(3) l', of collect_cb "[]" res] sound obtain err2 res2 out2 ctx2 c2 h3 where
    r2: "odfs_iso_readdir ctx1 c1 h2 dir (plain collect_cb) [] res = Some ((err2, res2, out2), ctx2, c2, h3)"
    and d2: "(err2, res2, out2) = cb_fold collect_cb ?ds res [] L'" by blast
  from d2 have e2: "err2 = ODFS_OK" "res2 = ?ds" and o2: "out2 = nodes (filter (\<lambda>e. unat res \<le> fst e) L')"
    by (auto simp: collect_fold)
  have ends: "map (\<lambda>e. fst (snd e)) L' = map (\<lambda>e. fst (snd e)) L" using u by (induction L' L rule: list_induct2') auto
  then have len: "length L' = length L" by (metis length_map)
  have "fst (snd (L' ! (k - 1))) = fst (snd (L ! (k - 1)))"
    using ends k len by (metis (no_types, lifting) diff_less less_le_trans nth_map zero_less_one)
  moreover have "unat res = fst (snd (L ! (k - 1)))"
    using res listing_order[OF l(1) g(3)] k by (simp add: unat_u32_of_nat)
  ultimately have "out2 = nodes (drop k L')"
    using filter_drop[of L' k] listing_order[OF l' g(3)] k len o2 by simp
  then have "map unid (nodes (take k L) @ out2) = take k (map unid (nodes L)) @ drop k (map unid (nodes L'))"
    by (simp add: take_map drop_map)
  also have "\<dots> = map unid (nodes L)" by (simp only: unid_nodes[OF u] append_take_drop_id)
  finally show ?thesis using r1 r2 e1 e2 o1 by blast
qed

end

end
