(* ===== verification/Iso_Props.thy ===== *)
theory Iso_Props
  imports Iso_Resume
begin

text \<open>
  The properties of the ISO 9660 and Joliet readers, over an image file of the host build.
\<close>

interpretation file_iso: iso_media file_media_ops "file_disc fm" HOST_SECTOR_SIZE "\<lambda>m. m = fm \<and> file_whole fm"
  for fm
  by unfold_locales (simp add: HOST_SECTOR_SIZE_def ISO_SECTOR_def)

section \<open>An image with one directory record\<close>

definition demo_record :: "u8 list" where
  "demo_record = [34, 0, 7,0,0,0, 0,0,0,7, 5,0,0,0, 0,0,0,5, 100,1,1,0,0,0,0, 0, 0, 0, 1,0, 0,1, 1, 0x41]"

definition demo_iso :: "file_media_ctx odfs_media" where
  "demo_iso = odfs_media_open_image (demo_record @ zero_bytes 2014)"

definition demo_ctx :: iso_context where
  "demo_ctx = \<lparr>pvd = \<lparr>system_id = [], volume_id = [], volume_space_size = 8, logical_block_size = 2048, path_table_size = 0,
       root_dir_lba = 0, root_dir_size = 2048, root_dir_record = []\<rparr>,
     session_start = 0, next_node_id = 2, lowercase = False, high_sierra = False, joliet = False,
     has_rock_ridge = False, rr_skip = 0, iso_root = zero_node\<rparr>"

definition demo_dir :: odfs_node where
  "demo_dir = zero_node\<lparr>kind := ODFS_NODE_DIR, extent := \<lparr>lba = 0, extlen = 2048\<rparr>\<rparr>"

lemma demo_iso_disc: "file_disc (mctx demo_iso) 0 = demo_record @ zero_bytes 2014"
  by (simp add: file_disc_def demo_iso_def odfs_media_open_image_def fread_at_def pad_sector_def HOST_SECTOR_SIZE_def demo_record_def)

definition demo_file :: odfs_node where
  "demo_file = zero_node
     \<lparr>node_id := 2, backend := ODFS_BACKEND_ISO9660, extent := \<lparr>lba = 7, extlen = 5\<rparr>, size := 5, kind := ODFS_NODE_FILE,
      mtime := \<lparr>year = 2000, month = 1, day = 1, hour = 0, minute = 0, second = 0, tz_offset = 0\<rparr>, ctime := \<lparr>year = 2000, month = 1, day = 1, hour = 0, minute = 0, second = 0, tz_offset = 0\<rparr>, name := [0x41]\<rparr>"

lemma demo_record_length [simp]: "length demo_record = 34"
  by (simp add: demo_record_def)

lemma demo_nth: "i < 34 \<Longrightarrow> (demo_record @ zero_bytes 2014) ! i = demo_record ! i"
  by (simp add: nth_append)

lemma demo_ctx_fields [simp]: "session_start demo_ctx = 0" "next_node_id demo_ctx = 2" "lowercase demo_ctx = False"
  "high_sierra demo_ctx = False" "joliet demo_ctx = False" "has_rock_ridge demo_ctx = False"
  by (simp_all add: demo_ctx_def)

lemma nth_zero_bytes: "i < n \<Longrightarrow> zero_bytes n ! i = 0"
  by (simp only: zero_bytes_def nth_replicate)

lemma demo_date: "iso_parse_dir_date (demo_record @ zero_bytes 2014) 18 False =
    Some \<lparr>year = 2000, month = 1, day = 1, hour = 0, minute = 0, second = 0, tz_offset = 0\<rparr>"
  by (simp add: iso_parse_dir_date_def rdn_def demo_record_def rr_tz_def)

lemma demo_name: "iso_record_name (demo_record @ zero_bytes 2014) 0 1 demo_ctx = Some [0x41]"
  by (simp add: iso_record_name_def rdn_def demo_record_def odfs_iso_name_to_display_def ODFS_NAME_MAX_def cstr_def)

lemma demo_fields:
  "le32 (demo_record @ zero_bytes 2014) (Suc (Suc 0)) = Some 7" "le32 (demo_record @ zero_bytes 2014) 10 = Some 5"
  "rd (demo_record @ zero_bytes 2014) 0 = Some 34" "rd (demo_record @ zero_bytes 2014) 25 = Some 0"
  "rd (demo_record @ zero_bytes 2014) 32 = Some 1" "(demo_record @ zero_bytes 2014) ! 0 = 34"
  "(demo_record @ zero_bytes 2014) ! 34 = 0"
  by (simp_all add: le32_def demo_record_def nth_zero_bytes)

lemma demo_parse: "iso_parse_dir_record (demo_record @ zero_bytes 2014) 0 2048 demo_ctx =
   Some (Some \<lparr>pr_consumed = 34, pr_node = demo_file, pr_sua = None\<rparr>, demo_ctx\<lparr>next_node_id := 3\<rparr>)"
  by (simp add: iso_parse_dir_record_def demo_fields iso_flags_off_def demo_date demo_name[simplified] demo_file_def Let_def
      del: rd_in)

lemma demo_scan: "iso_scan (file_disc (mctx demo_iso)) demo_dir demo_ctx 0 = Some [(0, 34, demo_file)]"
proof -
  let ?scan = "iso_scan (file_disc (mctx demo_iso)) demo_dir (demo_ctx\<lparr>next_node_id := 3\<rparr>)"
  have "?scan 2048 = Some []" by (subst iso_scan.simps) (simp add: demo_dir_def)
  moreover have "?scan 34 = ?scan 2048"
    by (subst iso_scan.simps) (simp add: demo_dir_def record_at_def demo_iso_disc Let_def demo_fields)
  ultimately have "?scan 34 = Some []" by simp
  then show ?thesis
    by (subst iso_scan.simps)
      (simp add: demo_dir_def record_at_def demo_iso_disc Let_def ISO_SECTOR_def demo_parse demo_fields disc_extents_def
        iso_flags_off_def demo_file_def is_dot_name_def zero_node_def del: rd_in)
qed

lemma demo_listing: "iso_listing (file_disc (mctx demo_iso)) demo_dir demo_ctx heap_plenty = Some [(0, 34, demo_file)]"
proof -
  have "map_option fst (name_run fix_name odfs_namefix_init heap_plenty [[0x41]]) = Some [[0x41]]"
    by (simp add: namefix_eval)
  then obtain st h' where "name_run fix_name odfs_namefix_init heap_plenty [[0x41]] = Some ([[0x41]], st, h')" by auto
  moreover have "rename_entry (0, 34, demo_file) [0x41] = (0, 34, demo_file)" "name demo_file = [0x41]"
    by (simp_all add: rename_entry_def demo_file_def)
  ultimately show ?thesis by (simp add: iso_listing_def demo_scan entry_name_def del: name_run.simps)
qed

lemma demo_iso_whole: "file_whole (mctx demo_iso)"
  by (simp add: demo_iso_def odfs_media_open_image_def file_whole_def file_ok_def HOST_SECTOR_SIZE_def)

lemma demo_iso_ops: "\<lparr>mops = file_media_ops, mctx = mctx demo_iso\<rparr> = demo_iso"
  by (simp add: demo_iso_def odfs_media_open_image_def)

lemma demo_iso_cache:
  obtains c where "odfs_cache_init (\<lambda>_ _. 0) heap_plenty demo_iso 40 = (ODFS_OK, c, heap_plenty)"
    "disc_media.good_cache file_media_ops (file_disc (mctx demo_iso)) HOST_SECTOR_SIZE
      (\<lambda>m. m = mctx demo_iso \<and> file_whole (mctx demo_iso)) c []"
proof -
  have "\<exists>c. odfs_cache_init (\<lambda>_ _. 0) heap_plenty demo_iso 40 = (ODFS_OK, c, heap_plenty)"
    by (rule cache_init_plenty[of _ _ 2048])
      (simp_all add: odfs_media_sector_size_def demo_iso_def odfs_media_open_image_def file_media_ops_def
        file_sector_size_def HOST_SECTOR_SIZE_def)
  then obtain c where c: "odfs_cache_init (\<lambda>_ _. 0) heap_plenty demo_iso 40 = (ODFS_OK, c, heap_plenty)" ..
  with that file_atomic.init_good[where m = "mctx demo_iso", unfolded demo_iso_ops, OF c] demo_iso_whole show thesis by simp
qed

lemma demo_premises: "\<not> has_rock_ridge demo_ctx" "unat (extlen (extent demo_dir)) \<le> dir_limit"
  by (simp_all add: demo_dir_def dir_limit_def)

lemma demo_no_fault: "\<not> iso_media.fault file_media_ops (\<lambda>m. m = mctx demo_iso \<and> file_whole (mctx demo_iso)) demo_dir e"
proof -
  have "file_read_sectors (mctx demo_iso) 0 1 = (e, bs, m') \<Longrightarrow> e = ODFS_OK" for bs m'
    by (auto simp: file_read_sectors_def demo_iso_def odfs_media_open_image_def fread_at_def HOST_SECTOR_SIZE_def Let_def split: if_splits)
  then show ?thesis unfolding file_iso.fault_def file_atomic.fails_def
    by (auto simp: demo_dir_def file_media_ops_def)
qed

section \<open>The Joliet volume descriptor\<close>

text \<open>A volume descriptor that ends the search for the Joliet one, and one that is passed over.\<close>

definition joliet_svd :: "u8 list \<Rightarrow> bool" where
  "joliet_svd d \<longleftrightarrow> take 5 (drop 1 d) = ISO_STANDARD_ID \<and> d ! 0 = 2 \<and>
     take 3 (drop 88 d) \<in> {[0x25, 0x2F, 0x40], [0x25, 0x2F, 0x43], [0x25, 0x2F, 0x45]}"

definition last_vd :: "u8 list \<Rightarrow> bool" where
  "last_vd d \<longleftrightarrow> take 5 (drop 1 d) \<noteq> ISO_STANDARD_ID \<or> d ! 0 = 255"

text \<open>The search over the descriptors numbered \<open>ks\<close>.\<close>

definition svd_search :: "(u32 \<Rightarrow> u8 list) \<Rightarrow> u32 \<Rightarrow> nat list \<Rightarrow> odfs_err + u32" where
  "svd_search disc s0 ks =
     (case find (\<lambda>k. last_vd (disc (s0 + 16 + of_nat k)) \<or> joliet_svd (disc (s0 + 16 + of_nat k))) ks of
        Some k \<Rightarrow> if last_vd (disc (s0 + 16 + of_nat k)) then Inl ODFS_ERR_BAD_FORMAT else Inr (s0 + 16 + of_nat k)
      | None \<Rightarrow> Inl ODFS_ERR_BAD_FORMAT)"

context iso_media
begin

lemma svd_body:
  assumes "odfs_cache_read c l = Some (Inr idx, c')" "cache_data c' idx = Some (disc l)"
  shows "joliet_svd_body s0 (c, l) = Some (if last_vd (disc l) then Inl (Inl ODFS_ERR_BAD_FORMAT, c')
      else if joliet_svd (disc l) then Inl (Inr l, c')
      else if l > s0 + ISO_VD_START_LBA + 32 then Inl (Inl ODFS_ERR_BAD_FORMAT, c') else Inr (c', l + 1))"
  using assms by (auto simp: joliet_svd_body_def last_vd_def joliet_svd_def rdn_def)

lemma svd_loop:
  assumes "good_cache c xs" "unat s0 + 50 < 2 ^ 32" "i \<le> 33"
  shows "\<exists>r c' xs'. iter (joliet_svd_body s0) (c, s0 + 16 + of_nat i) = Some (r, c') \<and> good_cache c' xs' \<and>
    (r = svd_search disc s0 [i..<34] \<or> (\<exists>k e. k \<le> 33 \<and> r = Inl e \<and> fails (s0 + 16 + of_nat k) 1 e))"
  using assms(1,3)
proof (induction "33 - i" arbitrary: i c xs rule: less_induct)
  case less
  let ?l = "s0 + 16 + of_nat i"
  have l: "unat ?l = unat s0 + 16 + i" "unat (s0 + 48) = unat s0 + 48"
    using unat_u32_plus[of s0 "16 + i"] unat_u32_plus[of s0 48] assms(2) less.prems(2) by (simp_all add: add.assoc)
  have beyond: "(s0 + ISO_VD_START_LBA + 32 < ?l) = (i = 33)"
    using l less.prems(2) by (auto simp: word_less_nat_alt ISO_VD_START_LBA_def add.assoc)
  have ks: "[i..<34] = i # [Suc i..<34]" using less.prems(2) by (simp add: upt_conv_Cons)
  show ?case
    using less.prems(1)
  proof (cases rule: cache_read_ok[of c xs ?l])
    case (err e c')
    then have "iter (joliet_svd_body s0) (c, ?l) = Some (Inl e, c')"
      by (subst iter.simps) (simp add: joliet_svd_body_def)
    with err less.prems(2) show ?thesis by blast
  next
    case (ok idx c' xs')
    note body = svd_body[OF ok(1,2), of s0, unfolded beyond]
    show ?thesis
    proof (cases "last_vd (disc ?l) \<or> joliet_svd (disc ?l) \<or> i = 33")
      case True
      then have "\<exists>r. iter (joliet_svd_body s0) (c, ?l) = Some (r, c') \<and> r = svd_search disc s0 [i..<34]"
        by (subst iter.simps) (auto simp: body ks svd_search_def)
      with ok(3) show ?thesis by blast
    next
      case False
      have nx: "?l + 1 = s0 + 16 + of_nat (Suc i)" by simp
      have "iter (joliet_svd_body s0) (c, ?l) = iter (joliet_svd_body s0) (c', s0 + 16 + of_nat (Suc i))"
        using False by (subst iter.simps) (simp only: body nx if_False option.simps bind.simps sum.simps de_Morgan_disj)
      moreover have "svd_search disc s0 [i..<34] = svd_search disc s0 [Suc i..<34]"
        using False by (simp add: ks svd_search_def)
      moreover have "33 - Suc i < 33 - i" "Suc i \<le> 33" using False less.prems(2) by auto
      ultimately show ?thesis using less.hyps[OF _ ok(3), of "Suc i"] by (simp only:)
    qed
  qed
qed

end

section \<open>Properties\<close>

text \<open>C2: enumeration of a directory without Rock Ridge.  The call returns, and what the callback
  sees from offset \<open>t\<close> on, the error code and the offset to resume at are those of the listing of
  the directory: the records found by scanning its sectors in order, parts of a file merged, with
  clashing names made different.  The only other outcome is a sector of the directory that the
  medium refuses: then its error is returned, the resume offset is the one passed in, and a prefix
  of the listing has been delivered.\<close>

theorem iso_readdir_refines_listing:
  assumes "iso_media ops disc ss good" "disc_media.good_cache ops disc ss good c xs"
    "\<not> has_rock_ridge ctx" "unat (extlen (extent dir)) \<le> dir_limit" "iso_listing disc dir ctx h = Some L"
  shows "\<exists>err res s' ctx' c' h'. odfs_iso_readdir ctx c h dir (plain f) s t = Some ((err, res, s'), ctx', c', h') \<and>
    (\<exists>xs'. disc_media.good_cache ops disc ss good c' xs') \<and>
    ((err, res, s') = cb_fold f (extlen (extent dir)) t s L \<or>
     (\<exists>off < unat (extlen (extent dir)). disc_media.fails ops good (lba (extent dir) + of_nat (off div 2048)) 1 err) \<and> res = t \<and>
     (\<exists>k. cb_fold f (extlen (extent dir)) t s (take k L) = (ODFS_OK, extlen (extent dir), s')))"
  using iso_media.readdir_listing[OF assms, of f s t] unfolding iso_media.fault_def[OF assms(1)] .

theorem iso_readdir_refines_listing_witness:
  "\<exists>c r. odfs_cache_init (\<lambda>_ _. 0) heap_plenty demo_iso 40 = (ODFS_OK, c, heap_plenty) \<and>
     odfs_iso_readdir demo_ctx c heap_plenty demo_dir (plain collect_cb) [] 0 = Some r"
proof -
  obtain c where c: "odfs_cache_init (\<lambda>_ _. 0) heap_plenty demo_iso 40 = (ODFS_OK, c, heap_plenty)"
    "disc_media.good_cache file_media_ops (file_disc (mctx demo_iso)) HOST_SECTOR_SIZE
      (\<lambda>m. m = mctx demo_iso \<and> file_whole (mctx demo_iso)) c []" by (rule demo_iso_cache)
  from iso_readdir_refines_listing[OF file_iso.iso_media_axioms c(2) demo_premises demo_listing, of collect_cb "[]" 0] c(1)
  show ?thesis by blast
qed



text \<open>C14: lookup.  It returns the first entry of the listing whose name is the given one up to ASCII
  case, the only one since the names differ, and \<open>ODFS_ERR_NOT_FOUND\<close> when there is none; the only other outcome is
  the error of a sector of the directory that the medium refuses.\<close>

theorem iso_lookup_finds:
  assumes "iso_media ops disc ss good" "disc_media.good_cache ops disc ss good c xs"
    "\<not> has_rock_ridge ctx" "unat (extlen (extent dir)) \<le> dir_limit" "iso_listing disc dir ctx h = Some L"
  shows "\<exists>r ctx' c' h'. odfs_iso_lookup ctx c h dir nm = Some (r, ctx', c', h') \<and>
    (\<exists>xs'. disc_media.good_cache ops disc ss good c' xs') \<and>
    (r = (case find (\<lambda>e. odfs_strcasecmp (entry_name e) nm = 0) L of
            Some (start, nx, n) \<Rightarrow> Inr n | None \<Rightarrow> Inl ODFS_ERR_NOT_FOUND) \<or>
     (\<exists>err. r = Inl err \<and>
        (\<exists>off < unat (extlen (extent dir)). disc_media.fails ops good (lba (extent dir) + of_nat (off div 2048)) 1 err)))"
  using iso_media.lookup_listing[OF assms, of nm] unfolding iso_media.fault_def[OF assms(1)] .

theorem iso_lookup_finds_witness:
  "\<exists>c ctx' c' h'. odfs_cache_init (\<lambda>_ _. 0) heap_plenty demo_iso 40 = (ODFS_OK, c, heap_plenty) \<and>
     odfs_iso_lookup demo_ctx c heap_plenty demo_dir [0x61] = Some (Inr demo_file, ctx', c', h')"
proof -
  obtain c where c: "odfs_cache_init (\<lambda>_ _. 0) heap_plenty demo_iso 40 = (ODFS_OK, c, heap_plenty)"
    "disc_media.good_cache file_media_ops (file_disc (mctx demo_iso)) HOST_SECTOR_SIZE
      (\<lambda>m. m = mctx demo_iso \<and> file_whole (mctx demo_iso)) c []" by (rule demo_iso_cache)
  have m: "odfs_strcasecmp [0x41] [0x61] = 0" by code_simp
  have nm: "entry_name (0, 34, demo_file) = [0x41]" by (simp add: entry_name_def demo_file_def)
  from iso_lookup_finds[OF file_iso.iso_media_axioms c(2) demo_premises demo_listing, of "[0x61]"] c(1)
    demo_no_fault[unfolded file_iso.fault_def] nm m
  show ?thesis by auto
qed

text \<open>C4: stopping and resuming.  On a directory whose sectors can be read, a client that takes \<open>k\<close>
  entries, stops, and resumes later at the offset it was given sees, together, every entry of the
  listing exactly once and in order (the numbers given to the nodes apart).\<close>

theorem iso_readdir_resume:
  assumes "iso_media ops disc ss good" "disc_media.good_cache ops disc ss good c xs"
    "\<not> has_rock_ridge ctx" "unat (extlen (extent dir)) \<le> dir_limit"
    "iso_listing disc dir ctx h = Some L" "iso_listing disc dir ctx h2 = Some L" "0 < k" "k \<le> length L"
    "\<And>off e. off < unat (extlen (extent dir)) \<Longrightarrow> \<not> disc_media.fails ops good (lba (extent dir) + of_nat (off div 2048)) 1 e"
  shows "\<exists>res ctx1 c1 h1 out2 ctx2 c2 h3.
    odfs_iso_readdir ctx c h dir (plain (take_cb k)) [] 0 = Some ((ODFS_ERR_EOF, res, nodes (take k L)), ctx1, c1, h1) \<and>
    odfs_iso_readdir ctx1 c1 h2 dir (plain collect_cb) [] res = Some ((ODFS_OK, extlen (extent dir), out2), ctx2, c2, h3) \<and>
    map unid (nodes (take k L) @ out2) = map unid (nodes L)"
proof -
  have "\<not> iso_media.fault ops good dir e" for e using assms(9) by (auto simp: iso_media.fault_def[OF assms(1)])
  from iso_media.resume_listing[OF assms(1-8) this] show ?thesis .
qed

theorem iso_readdir_resume_witness:
  "\<exists>c res ctx1 c1 h1. odfs_cache_init (\<lambda>_ _. 0) heap_plenty demo_iso 40 = (ODFS_OK, c, heap_plenty) \<and>
     odfs_iso_readdir demo_ctx c heap_plenty demo_dir (plain (take_cb 1)) [] 0 = Some ((ODFS_ERR_EOF, res, [demo_file]), ctx1, c1, h1)"
proof -
  obtain c where c: "odfs_cache_init (\<lambda>_ _. 0) heap_plenty demo_iso 40 = (ODFS_OK, c, heap_plenty)"
    "disc_media.good_cache file_media_ops (file_disc (mctx demo_iso)) HOST_SECTOR_SIZE
      (\<lambda>m. m = mctx demo_iso \<and> file_whole (mctx demo_iso)) c []" by (rule demo_iso_cache)
  from iso_readdir_resume[OF file_iso.iso_media_axioms c(2) demo_premises demo_listing demo_listing, of 1] c(1)
    demo_no_fault[unfolded file_iso.fault_def]
  show ?thesis by fastforce
qed

text \<open>C6: reading a file.  The call returns; at or behind the end of the file it reads nothing, otherwise
  the request is cut at the end of the file and the bytes are those of the file's extent, all of them
  unless the medium refuses a sector of it or the extent leaves the range of sector numbers.\<close>

theorem iso_read_correct:
  assumes "iso_media ops disc ss good" "disc_media.good_cache ops disc ss good c xs"
    "w = (if offset \<ge> size file then 0 else min want (unat (size file - offset)))" "w \<le> length buf"
  shows "\<exists>err buf' n c'. odfs_iso_read ctx c h file offset buf want = Some ((err, buf', n), ctx, c', h) \<and>
    (\<exists>xs'. disc_media.good_cache ops disc ss good c' xs') \<and>
    (if 0 < w \<and> 2 ^ 32 \<le> unat (lba (extent file)) + unat offset div 2048
     then err = ODFS_ERR_RANGE \<and> buf' = buf
     else n \<le> w \<and> take n buf' = disc_range disc 2048 (lba (extent file)) (unat offset) n \<and> drop w buf' = drop w buf \<and>
       (if n = w then err = ODFS_OK
        else err = ODFS_ERR_RANGE \<and> unat (lba (extent file)) + (unat offset + n) div 2048 = 2 ^ 32 \<or>
          (\<exists>k. disc_media.fails ops good (lba (extent file) + of_nat ((unat offset + n) div 2048)) k err \<and>
               (k = 1 \<or> unat k * 2048 \<le> w - n))))"
proof -
  have ss: "ss = 2048" and a: "atomic_media ops disc ss good"
    using assms(1) by (auto simp: iso_media_def iso_media_axioms_def ISO_SECTOR_def)
  show ?thesis
  proof (cases "offset \<ge> size file")
    case True
    then show ?thesis using assms by (auto simp: odfs_iso_read_def disc_range_def)
  next
    case False
    then have w: "w = (if want > unat (size file - offset) then unat (size file - offset) else want)"
      using assms(3) by (simp add: min_def)
    from atomic_media.read_bytes_ok[OF a assms(2,4), of "lba (extent file)" offset] ss obtain err buf' n c' where
      r: "odfs_cache_read_bytes c (lba (extent file)) offset buf w = Some (err, buf', n, c')"
      "if 0 < w \<and> 2 ^ 32 \<le> unat (lba (extent file)) + unat offset div 2048
       then err = ODFS_ERR_RANGE \<and> buf' = buf \<and> n = w \<and> c' = c
       else atomic_media.bytes_ok ops disc 2048 good (lba (extent file)) (unat offset) w buf (err, buf', n, c')"
      by auto
    have "odfs_iso_read ctx c h file offset buf want = Some ((err, buf', n), ctx, c', h)"
      using r(1) False unfolding w odfs_iso_read_def Let_def by simp
    then show ?thesis
      by (intro exI[of _ err] exI[of _ buf'] exI[of _ n] exI[of _ c'] conjI)
        (use r(2) assms(2) ss a in \<open>auto simp: atomic_media.bytes_ok_def[OF a[unfolded ss]]
          atomic_media.stopped_def[OF a[unfolded ss]] filled_def split: if_splits\<close>)
  qed
qed

theorem iso_read_correct_witness:
  "\<exists>c r. odfs_cache_init (\<lambda>_ _. 0) heap_plenty demo_iso 40 = (ODFS_OK, c, heap_plenty) \<and>
     odfs_iso_read demo_ctx c heap_plenty (demo_file\<lparr>extent := \<lparr>lba = 0, extlen = 5\<rparr>\<rparr>) 1 (zero_bytes 4) 4 = Some r"
proof -
  obtain c where c: "odfs_cache_init (\<lambda>_ _. 0) heap_plenty demo_iso 40 = (ODFS_OK, c, heap_plenty)"
    "disc_media.good_cache file_media_ops (file_disc (mctx demo_iso)) HOST_SECTOR_SIZE
      (\<lambda>m. m = mctx demo_iso \<and> file_whole (mctx demo_iso)) c []" by (rule demo_iso_cache)
  let ?file = "demo_file\<lparr>extent := \<lparr>lba = 0, extlen = 5\<rparr>\<rparr>"
  have "(4 :: nat) = (if 1 \<ge> size ?file then 0 else min 4 (unat (size ?file - 1)))" "4 \<le> length (zero_bytes 4)"
    by (simp_all add: demo_file_def word_le_nat_alt)
  from iso_read_correct[OF file_iso.iso_media_axioms c(2) this, of demo_ctx heap_plenty] c(1)
  show ?thesis by blast
qed

text \<open>C19: the search for the Joliet descriptor.  In a session that does not sit at the very end of the
  sector numbers it always returns.  It finds the first of the 34 descriptors from sector 16 of the
  session on that is a Joliet one, unless a terminator or a sector that is no descriptor comes
  first; the only other outcome is a descriptor sector that the medium refuses.\<close>

theorem joliet_find_svd_correct:
  assumes "iso_media ops disc ss good" "disc_media.good_cache ops disc ss good c xs" "unat s0 + 50 < 2 ^ 32"
  shows "\<exists>r c'. joliet_find_svd c s0 = Some (r, c') \<and> (\<exists>xs'. disc_media.good_cache ops disc ss good c' xs') \<and>
    (r = svd_search disc s0 [0..<34] \<or> (\<exists>k e. k \<le> 33 \<and> r = Inl e \<and> disc_media.fails ops good (s0 + 16 + of_nat k) 1 e))"
  using iso_media.svd_loop[OF assms, of 0] by (auto simp: joliet_find_svd_def ISO_VD_START_LBA_def)

theorem joliet_find_svd_correct_witness:
  "\<exists>c r. odfs_cache_init (\<lambda>_ _. 0) heap_plenty demo_iso 40 = (ODFS_OK, c, heap_plenty) \<and> joliet_find_svd c 0 = Some r"
proof -
  obtain c where c: "odfs_cache_init (\<lambda>_ _. 0) heap_plenty demo_iso 40 = (ODFS_OK, c, heap_plenty)"
    "disc_media.good_cache file_media_ops (file_disc (mctx demo_iso)) HOST_SECTOR_SIZE
      (\<lambda>m. m = mctx demo_iso \<and> file_whole (mctx demo_iso)) c []" by (rule demo_iso_cache)
  from joliet_find_svd_correct[OF file_iso.iso_media_axioms c(2), of 0] c(1) show ?thesis by auto
qed

end
