(* ===== verification/Meta_Cache.thy ===== *)
theory Meta_Cache
  imports Backend Text
begin

text \<open>
  The cache of parsed directories, \<^verbatim>\<open>core/cache_meta.c\<close>: a directory is read through its backend
  once and kept as an array of compact entries with a pool of names; later listings and lookups are
  answered from it.  The directories form a doubly linked list, most recently used first, bounded by
  a budget of bytes.

  The directories live in a store of objects; a pointer is the index of an object, or \<open>-1\<close> for
  NULL, and using a NULL, dangling or freed pointer is \<open>None\<close>.  The sizes of the structures are
  those of the 64-bit host build.
\<close>

section \<open>Data\<close>

record odfs_meta_entry =
  me_id :: u32
  me_lba :: u32
  me_length :: u32
  me_size :: u64
  me_mtime :: odfs_timestamp
  me_ctime :: odfs_timestamp
  me_mode :: u32
  me_name_off :: u32
  me_name_hash :: u32
  me_comment_off :: u32
  me_kind :: odfs_node_kind
  me_backend :: odfs_backend_type
  me_has_protection :: bool
  me_has_comment :: bool
  me_protection :: "u8 list"

record odfs_meta_dir =
  md_prev :: int
  md_next :: int
  md_lba :: u32
  md_length :: u32
  md_backend :: odfs_backend_type
  md_hashed :: bool
  md_referenced :: bool
  md_id :: u32
  md_bytes :: u32
  md_entries :: "odfs_meta_entry list"
  md_pool :: "u8 list"

record odfs_meta_cache_stats =
  ms_hits :: u32
  ms_misses :: u32
  ms_builds :: u32
  ms_build_fails :: u32
  ms_evictions :: u32

definition ODFS_META_COOKIE_TAG :: u32 where "ODFS_META_COOKIE_TAG = 0x80000000"
definition ODFS_META_OVERSIZE_SLOTS :: nat where "ODFS_META_OVERSIZE_SLOTS = 4"
definition META_NO_COMMENT :: u32 where "META_NO_COMMENT = 0xFFFFFFFF"
definition META_LOOKUP_HASH_MIN :: nat where "META_LOOKUP_HASH_MIN = 8"
definition META_LRU_FRONT :: nat where "META_LRU_FRONT = 8"

text \<open>The sizes of a directory header and of an entry.\<close>

definition META_DIR_BYTES :: nat where "META_DIR_BYTES = 56"
definition META_ENTRY_BYTES :: nat where "META_ENTRY_BYTES = 72"

record odfs_meta_cache =
  mc_objs :: "odfs_meta_dir option list"
  mc_head :: int
  mc_tail :: int
  mc_budget :: u32
  mc_total :: u32
  mc_stats :: odfs_meta_cache_stats
  mc_oversize_lba :: "u32 list"
  mc_oversize_len :: "u32 list"
  mc_oversize_next :: u32

section \<open>Objects\<close>

definition mget :: "odfs_meta_cache \<Rightarrow> int \<Rightarrow> odfs_meta_dir option" where
  "mget mc p = (if 0 \<le> p \<and> nat p < length (mc_objs mc) then mc_objs mc ! nat p else None)"

definition mput :: "odfs_meta_cache \<Rightarrow> int \<Rightarrow> odfs_meta_dir option \<Rightarrow> odfs_meta_cache" where
  "mput mc p d = mc\<lparr>mc_objs := (mc_objs mc)[nat p := d]\<rparr>"

definition mupd :: "(odfs_meta_dir \<Rightarrow> odfs_meta_dir) \<Rightarrow> int \<Rightarrow> odfs_meta_cache \<Rightarrow> odfs_meta_cache option" where
  "mupd f p mc = do { d \<leftarrow> mget mc p; Some (mput mc p (Some (f d))) }"

definition mfree :: "int \<Rightarrow> odfs_meta_cache \<Rightarrow> odfs_meta_cache option" where
  "mfree p mc = do { d \<leftarrow> mget mc p; Some (mput mc p None) }"

definition mnew :: "odfs_meta_dir \<Rightarrow> odfs_meta_cache \<Rightarrow> int \<times> odfs_meta_cache" where
  "mnew d mc = (int (length (mc_objs mc)), mc\<lparr>mc_objs := mc_objs mc @ [Some d]\<rparr>)"

definition count_stat :: "(odfs_meta_cache_stats \<Rightarrow> odfs_meta_cache_stats) \<Rightarrow> odfs_meta_cache \<Rightarrow> odfs_meta_cache" where
  "count_stat f mc = mc\<lparr>mc_stats := f (mc_stats mc)\<rparr>"

section \<open>LRU bookkeeping\<close>

definition meta_unlink :: "odfs_meta_cache \<Rightarrow> int \<Rightarrow> odfs_meta_cache option" where
  "meta_unlink mc d = do {
     x \<leftarrow> mget mc d;
     mc \<leftarrow> (if md_prev x \<noteq> -1 then mupd (\<lambda>y. y\<lparr>md_next := md_next x\<rparr>) (md_prev x) mc
           else Some (mc\<lparr>mc_head := md_next x\<rparr>));
     x \<leftarrow> mget mc d;
     mc \<leftarrow> (if md_next x \<noteq> -1 then mupd (\<lambda>y. y\<lparr>md_prev := md_prev x\<rparr>) (md_next x) mc
           else Some (mc\<lparr>mc_tail := md_prev x\<rparr>));
     mupd (\<lambda>y. y\<lparr>md_prev := -1, md_next := -1\<rparr>) d mc }"

definition meta_push_head :: "odfs_meta_cache \<Rightarrow> int \<Rightarrow> odfs_meta_cache option" where
  "meta_push_head mc d = do {
     mc \<leftarrow> mupd (\<lambda>y. y\<lparr>md_prev := -1, md_next := mc_head mc\<rparr>) d mc;
     mc \<leftarrow> (if mc_head mc \<noteq> -1 then mupd (\<lambda>y. y\<lparr>md_prev := d\<rparr>) (mc_head mc) mc
           else Some (mc\<lparr>mc_tail := d\<rparr>));
     Some (mc\<lparr>mc_head := d\<rparr>) }"

definition meta_evict :: "odfs_meta_cache \<Rightarrow> int \<Rightarrow> odfs_meta_cache option" where
  "meta_evict mc d = do {
     mc \<leftarrow> meta_unlink mc d;
     x \<leftarrow> mget mc d;
     let mc = mc\<lparr>mc_total := mc_total mc - md_bytes x\<rparr>;
     mfree d (count_stat (\<lambda>s. s\<lparr>ms_evictions := ms_evictions s + 1\<rparr>) mc) }"

definition trim_body :: "odfs_meta_cache \<Rightarrow> (odfs_meta_cache + odfs_meta_cache) option" where
  "trim_body mc =
     (if mc_total mc > mc_budget mc \<and> mc_tail mc \<noteq> -1 then do {
        let t = mc_tail mc;
        x \<leftarrow> mget mc t;
        if md_referenced x then do {
          mc \<leftarrow> mupd (\<lambda>y. y\<lparr>md_referenced := False\<rparr>) t mc;
          mc \<leftarrow> meta_unlink mc t;
          mc \<leftarrow> meta_push_head mc t;
          Some (Inr mc) }
        else do {
          mc \<leftarrow> meta_evict mc t;
          Some (Inr mc) } }
      else Some (Inl mc))"

definition meta_trim :: "odfs_meta_cache \<Rightarrow> odfs_meta_cache option" where
  "meta_trim mc = iter trim_body mc"

definition zero_meta_cache :: odfs_meta_cache where
  "zero_meta_cache = \<lparr>mc_objs = [], mc_head = -1, mc_tail = -1, mc_budget = 0, mc_total = 0,
     mc_stats = \<lparr>ms_hits = 0, ms_misses = 0, ms_builds = 0, ms_build_fails = 0, ms_evictions = 0\<rparr>,
     mc_oversize_lba = replicate ODFS_META_OVERSIZE_SLOTS 0,
     mc_oversize_len = replicate ODFS_META_OVERSIZE_SLOTS 0, mc_oversize_next = 0\<rparr>"

definition odfs_meta_cache_init :: "u32 \<Rightarrow> odfs_meta_cache" where
  "odfs_meta_cache_init budget_bytes = zero_meta_cache\<lparr>mc_budget := budget_bytes\<rparr>"

definition flush_body :: "odfs_meta_cache \<Rightarrow> (odfs_meta_cache + odfs_meta_cache) option" where
  "flush_body mc =
     (if mc_tail mc \<noteq> -1 then do { mc \<leftarrow> meta_evict mc (mc_tail mc); Some (Inr mc) } else Some (Inl mc))"

definition odfs_meta_cache_flush :: "odfs_meta_cache \<Rightarrow> odfs_meta_cache option" where
  "odfs_meta_cache_flush mc = do {
     mc \<leftarrow> iter flush_body mc;
     Some (mc\<lparr>mc_oversize_len := replicate ODFS_META_OVERSIZE_SLOTS 0\<rparr>) }"

definition odfs_meta_cache_destroy :: "odfs_meta_cache \<Rightarrow> odfs_meta_cache option" where
  "odfs_meta_cache_destroy mc = do {
     mc \<leftarrow> odfs_meta_cache_flush mc;
     Some (zero_meta_cache\<lparr>mc_objs := mc_objs mc\<rparr>) }"

section \<open>Lookup and node reconstruction\<close>

definition meta_dir_cacheable :: "odfs_meta_cache \<Rightarrow> odfs_node \<Rightarrow> bool" where
  "meta_dir_cacheable mc dir \<longleftrightarrow>
     mc_budget mc \<noteq> 0 \<and> kind dir = ODFS_NODE_DIR \<and> backend dir \<noteq> ODFS_BACKEND_CDDA \<and> extlen (extent dir) \<noteq> 0"

text \<open>The walk from the head: the directory at \<open>d\<close> is the one at position \<open>pos\<close>.\<close>

definition find_body ::
    "u32 \<Rightarrow> u32 \<Rightarrow> odfs_backend_type \<Rightarrow> odfs_meta_cache \<Rightarrow> int \<times> nat \<Rightarrow> ((int \<times> odfs_meta_cache) + (int \<times> nat)) option" where
  "find_body l len be mc st = (case st of (d, pos) \<Rightarrow>
     if d = -1 then Some (Inl (-1, mc))
     else do {
       x \<leftarrow> mget mc d;
       if md_lba x = l \<and> md_length x = len \<and> md_backend x = be then
         (if pos \<ge> META_LRU_FRONT then do {
            mc \<leftarrow> meta_unlink mc d;
            mc \<leftarrow> meta_push_head mc d;
            Some (Inl (d, mc)) }
          else do {
            mc \<leftarrow> mupd (\<lambda>y. y\<lparr>md_referenced := True\<rparr>) d mc;
            Some (Inl (d, mc)) })
       else Some (Inr (md_next x, Suc pos)) })"

definition meta_find_extent :: "odfs_meta_cache \<Rightarrow> u32 \<Rightarrow> u32 \<Rightarrow> odfs_backend_type \<Rightarrow> (int \<times> odfs_meta_cache) option" where
  "meta_find_extent mc l len be = iter (find_body l len be mc) (mc_head mc, 0)"

definition meta_find :: "odfs_meta_cache \<Rightarrow> odfs_node \<Rightarrow> (int \<times> odfs_meta_cache) option" where
  "meta_find mc dir = meta_find_extent mc (lba (extent dir)) (extlen (extent dir)) (backend dir)"

text \<open>\<open>a\<close> is the pool from the name on, \<open>b\<close> the bytes of the name looked for.\<close>

fun meta_name_eq :: "u8 list \<Rightarrow> u8 list \<Rightarrow> bool option" where
  "meta_name_eq a [] = do { c \<leftarrow> rd a 0; Some (c = 0) }"
| "meta_name_eq a (y # b) = do {
     x \<leftarrow> rd a 0;
     if x \<noteq> y \<and> (x OR 0x20 \<noteq> y OR 0x20 \<or> x OR 0x20 < 0x61 \<or> x OR 0x20 > 0x7A) then Some False
     else meta_name_eq (tl a) b }"

fun find_small :: "u8 list \<Rightarrow> u8 list \<Rightarrow> odfs_meta_entry list \<Rightarrow> nat \<Rightarrow> nat option option" where
  "find_small pool nm [] i = Some None"
| "find_small pool nm (e # es) i = do {
     x \<leftarrow> rd pool (unat (me_name_off e));
     if x \<noteq> ch nm \<and> x XOR ch nm \<noteq> 0x20 then find_small pool nm es (Suc i)
     else do {
       eq \<leftarrow> meta_name_eq (drop (unat (me_name_off e)) pool) nm;
       if eq then Some (Some i) else find_small pool nm es (Suc i) } }"

fun find_hashed :: "u8 list \<Rightarrow> u8 list \<Rightarrow> u32 \<Rightarrow> odfs_meta_entry list \<Rightarrow> nat \<Rightarrow> nat option option" where
  "find_hashed pool nm hash [] i = Some None"
| "find_hashed pool nm hash (e # es) i =
     (if me_name_hash e = hash then do {
        eq \<leftarrow> meta_name_eq (drop (unat (me_name_off e)) pool) nm;
        if eq then Some (Some i) else find_hashed pool nm hash es (Suc i) }
      else find_hashed pool nm hash es (Suc i))"

text \<open>The string in the pool at an offset.\<close>

definition pool_str :: "u8 list \<Rightarrow> u32 \<Rightarrow> u8 list option" where
  "pool_str pool off = (if 0 \<in> set (drop (unat off) pool) then Some (cstr (drop (unat off) pool)) else None)"

fun hash_names :: "u8 list \<Rightarrow> odfs_meta_entry list \<Rightarrow> odfs_meta_entry list option" where
  "hash_names pool [] = Some []"
| "hash_names pool (e # es) = do {
     s \<leftarrow> pool_str pool (me_name_off e);
     es \<leftarrow> hash_names pool es;
     Some (e\<lparr>me_name_hash := odfs_strcasehash s\<rparr> # es) }"

text \<open>The index of the entry, if there is one, and the directory with its hashes filled in.\<close>

definition meta_find_name :: "odfs_meta_dir \<Rightarrow> u8 list \<Rightarrow> (nat option \<times> odfs_meta_dir) option" where
  "meta_find_name d nm =
     (if length (md_entries d) < META_LOOKUP_HASH_MIN then do {
        r \<leftarrow> find_small (md_pool d) nm (md_entries d) 0;
        Some (r, d) }
      else do {
        d \<leftarrow> (if \<not> md_hashed d then do {
                es \<leftarrow> hash_names (md_pool d) (md_entries d);
                Some (d\<lparr>md_entries := es, md_hashed := True\<rparr>) }
              else Some d);
        r \<leftarrow> find_hashed (md_pool d) nm (odfs_strcasehash_len nm (length nm)) (md_entries d) 0;
        Some (r, d) })"

text \<open>\<open>out\<close> is the node before the call: what an entry does not have is left as it was.\<close>

definition meta_entry_to_node :: "odfs_meta_dir \<Rightarrow> odfs_meta_entry \<Rightarrow> odfs_node \<Rightarrow> odfs_node option" where
  "meta_entry_to_node d e out = do {
     nm \<leftarrow> pool_str (md_pool d) (me_name_off e);
     if length nm \<ge> ODFS_NAME_MAX then None
     else do {
       com \<leftarrow> (if me_has_comment e then do {
                s \<leftarrow> pool_str (md_pool d) (me_comment_off e);
                Some (take (ODFS_AMIGA_COMMENT_MAX - 1) s) }
              else Some (comment (amiga_as out)));
       Some \<lparr>node_id = me_id e, parent_id = md_id d, backend = me_backend e, kind = me_kind e, name = nm,
             size = me_size e, mtime = me_mtime e, ctime = me_ctime e, mode = me_mode e,
             amiga_as = \<lparr>has_protection = me_has_protection e,
                         protection = (if me_has_protection e then me_protection e else protection (amiga_as out)),
                         has_comment = me_has_comment e, comment = com\<rparr>,
             extent = \<lparr>lba = me_lba e, extlen = me_length e\<rparr>\<rparr> } }"

section \<open>Building\<close>

text \<open>
  The build context.  \<open>bc_entries\<close> holds the entries stored so far and \<open>bc_pool\<close> the bytes of the
  pool that are in use; \<open>bc_cap\<close> and \<open>bc_pool_cap\<close> are the sizes of the arrays.  \<open>bc_hung\<close> is not a
  field of the structure: it records that the callback did not return, which makes \<open>meta_build\<close>
  undefined (\<open>None\<close>).
\<close>

record meta_build_ctx =
  bc_entries :: "odfs_meta_entry list"
  bc_cap :: u32
  bc_pool :: "u8 list"
  bc_pool_cap :: u32
  bc_budget :: u32
  bc_failed :: bool
  bc_too_big :: bool
  bc_hung :: bool

text \<open>The context of the skipping callback; its callback is an argument of \<open>meta_skip_cb\<close>.\<close>

record 'u meta_skip_ctx =
  sc_skip :: u32
  sc_index :: u32
  sc_ctx :: 'u
  sc_err :: odfs_err
  sc_stopped :: bool

text \<open>The \<open>void *\<close> a backend passes through to the callback.\<close>

datatype 'u cb_ctx = Ctx_build meta_build_ctx | Ctx_skip "'u meta_skip_ctx" | Ctx_user 'u

text \<open>Growing the capacity by doubling until \<open>need\<close> bytes fit.\<close>

definition grow_body :: "nat \<Rightarrow> u32 \<Rightarrow> (u32 + u32) option" where
  "grow_body need new_cap = Some (if unat new_cap < need then Inr (new_cap * 2) else Inl new_cap)"

text \<open>
  Adding a string to the pool: its offset, or \<open>META_NO_COMMENT\<close> on failure.  A loop that does not end
  is \<open>None\<close>.
\<close>

definition meta_pool_add_len ::
    "meta_build_ctx \<Rightarrow> heap \<Rightarrow> u8 list \<Rightarrow> (u32 \<times> meta_build_ctx \<times> heap) option" where
  "meta_pool_add_len bc h s =
     (let len = length s + 1; pool_len = length (bc_pool bc) in
      if pool_len + len > unat (bc_pool_cap bc) then do {
        new_cap \<leftarrow> iter (grow_body (pool_len + len)) (if bc_pool_cap bc \<noteq> 0 then bc_pool_cap bc * 2 else 1024);
        case odfs_malloc h of (ok, h) \<Rightarrow>
          Some (if ok then (of_nat pool_len, bc\<lparr>bc_pool_cap := new_cap, bc_pool := bc_pool bc @ s @ [0]\<rparr>, h)
                else (META_NO_COMMENT, bc, h)) }
      else Some (of_nat pool_len, bc\<lparr>bc_pool := bc_pool bc @ s @ [0]\<rparr>, h))"

definition meta_pool_add :: "meta_build_ctx \<Rightarrow> heap \<Rightarrow> u8 list \<Rightarrow> (u32 \<times> meta_build_ctx \<times> heap) option" where
  "meta_pool_add bc h s = meta_pool_add_len bc h s"

definition meta_pool_add_name :: "meta_build_ctx \<Rightarrow> heap \<Rightarrow> u8 list \<Rightarrow> (u32 \<times> meta_build_ctx \<times> heap) option" where
  "meta_pool_add_name bc h s =
     (let off = of_nat (length (bc_pool bc)) in
      if off + of_nat ODFS_NAME_MAX > bc_pool_cap bc then meta_pool_add bc h s
      else Some (off, bc\<lparr>bc_pool := bc_pool bc @ s @ [0]\<rparr>, h))"

text \<open>Room for one more entry.\<close>

definition build_grow :: "meta_build_ctx \<Rightarrow> heap \<Rightarrow> bool \<times> meta_build_ctx \<times> heap" where
  "build_grow bc h =
     (if of_nat (length (bc_entries bc)) \<ge> bc_cap bc then
        (case odfs_malloc h of (ok, h) \<Rightarrow>
           if ok then (True, bc\<lparr>bc_cap := (if bc_cap bc \<noteq> 0 then bc_cap bc * 2 else 32)\<rparr>, h) else (False, bc, h))
      else (True, bc, h))"

text \<open>One entry; \<open>False\<close> is the jump to \<open>fail\<close>.\<close>

definition build_entry :: "meta_build_ctx \<Rightarrow> heap \<Rightarrow> odfs_node \<Rightarrow> (bool \<times> meta_build_ctx \<times> heap) option" where
  "build_entry bc h entry =
     (case build_grow bc h of (ok, bc, h) \<Rightarrow>
        if \<not> ok then Some (False, bc, h)
        else do {
          let as = amiga_as entry;
          (name_off, bc, h) \<leftarrow> meta_pool_add_name bc h (name entry);
          if name_off = META_NO_COMMENT then Some (False, bc, h)
          else do {
              (comment_off, bc, h) \<leftarrow> (if has_comment as then meta_pool_add bc h (comment as)
                                       else Some (META_NO_COMMENT, bc, h));
              if has_comment as \<and> comment_off = META_NO_COMMENT then Some (False, bc, h)
              else do {
                  let e = \<lparr>me_id = node_id entry, me_lba = lba (extent entry), me_length = extlen (extent entry),
                           me_size = size entry, me_mtime = mtime entry, me_ctime = ctime entry, me_mode = mode entry,
                           me_name_off = name_off, me_name_hash = 0, me_comment_off = comment_off,
                           me_kind = kind entry, me_backend = backend entry,
                           me_has_protection = has_protection as, me_has_comment = has_comment as,
                           me_protection = (if has_protection as then protection as else [])\<rparr>;
                  let bc = bc\<lparr>bc_entries := bc_entries bc @ [e]\<rparr>;
                  if META_DIR_BYTES + length (bc_entries bc) * META_ENTRY_BYTES + length (bc_pool bc) > unat (bc_budget bc)
                  then Some (False, bc\<lparr>bc_too_big := True\<rparr>, h)
                  else Some (True, bc, h) } } })"

definition meta_build_cb :: "'u cb_ctx dir_iter_fn" where
  "meta_build_cb entry ctx h =
     (case ctx of
        Ctx_build bc \<Rightarrow>
          (case build_entry bc h entry of
             Some (ok, bc, h) \<Rightarrow>
               if ok then (ODFS_OK, Ctx_build bc, h)
               else (ODFS_ERR_NOMEM, Ctx_build (bc\<lparr>bc_failed := True\<rparr>), h)
           | None \<Rightarrow> (ODFS_ERR_NOMEM, Ctx_build (bc\<lparr>bc_hung := True\<rparr>), h))
      | _ \<Rightarrow> (ODFS_ERR_INVAL, ctx, h))"

text \<open>The first sizes of the arrays, from the length of the directory's extent.\<close>

definition build_estimate :: "u32 \<Rightarrow> u32" where
  "build_estimate len = (let est = len div 34 + 2 in if est < 16 then 16 else if est > 1024 then 1024 else est)"

definition build_start :: "u32 \<Rightarrow> u32 \<Rightarrow> heap \<Rightarrow> meta_build_ctx \<times> heap" where
  "build_start budget len h =
     (let est = build_estimate len; (ok1, h) = odfs_malloc h; (ok2, h) = odfs_malloc h in
      (\<lparr>bc_entries = [], bc_cap = (if ok1 then est else 0), bc_pool = [], bc_pool_cap = (if ok2 then est * 16 else 0),
        bc_budget = budget, bc_failed = False, bc_too_big = False, bc_hung = False\<rparr>, h))"

text \<open>The directory packed from a build context.\<close>

definition packed_dir :: "odfs_node \<Rightarrow> meta_build_ctx \<Rightarrow> odfs_meta_dir" where
  "packed_dir dir bc =
     \<lparr>md_prev = -1, md_next = -1, md_lba = lba (extent dir), md_length = extlen (extent dir), md_backend = backend dir,
      md_hashed = False, md_referenced = False, md_id = node_id dir,
      md_bytes = of_nat (META_DIR_BYTES + length (bc_entries bc) * META_ENTRY_BYTES + length (bc_pool bc)),
      md_entries = bc_entries bc, md_pool = bc_pool bc\<rparr>"

text \<open>The result is the pointer (\<open>-1\<close> when the directory cannot be cached) and whether it was too big.\<close>

definition meta_build ::
    "odfs_meta_cache \<Rightarrow> ('m, 'b, 'u cb_ctx) odfs_backend_ops \<Rightarrow> 'b \<Rightarrow> 'm odfs_cache \<Rightarrow> heap \<Rightarrow> odfs_node \<Rightarrow>
     ((int \<times> bool \<times> odfs_meta_cache) \<times> 'b \<times> 'm odfs_cache \<times> heap) option" where
  "meta_build mc ops b c h dir =
     (case build_start (mc_budget mc) (extlen (extent dir)) h of (bc, h) \<Rightarrow> do {
        ((err, res, ctx), b, c, h) \<leftarrow> be_readdir ops b c h dir meta_build_cb (Ctx_build bc) 0;
        case ctx of
          Ctx_build bc \<Rightarrow>
            if bc_hung bc then None
            else do {
              let fails = count_stat (\<lambda>s. s\<lparr>ms_build_fails := ms_build_fails s + 1\<rparr>) mc;
              if bc_failed bc \<or> err \<noteq> ODFS_OK then Some ((-1, bc_too_big bc, fails), b, c, h)
              else (case odfs_malloc h of (ok, h) \<Rightarrow>
                if \<not> ok then Some ((-1, bc_too_big bc, fails), b, c, h)
                else (case mnew (packed_dir dir bc) mc of (p, mc) \<Rightarrow>
                  Some ((p, bc_too_big bc, count_stat (\<lambda>s. s\<lparr>ms_builds := ms_builds s + 1\<rparr>) mc), b, c, h))) }
        | _ \<Rightarrow> None })"

definition oversize_known :: "odfs_meta_cache \<Rightarrow> odfs_node \<Rightarrow> bool" where
  "oversize_known mc dir \<longleftrightarrow>
     list_ex (\<lambda>i. mc_oversize_len mc ! i = extlen (extent dir) \<and> mc_oversize_lba mc ! i = lba (extent dir))
       [0..<ODFS_META_OVERSIZE_SLOTS]"

definition oversize_note :: "odfs_meta_cache \<Rightarrow> odfs_node \<Rightarrow> odfs_meta_cache" where
  "oversize_note mc dir =
     (let i = unat (mc_oversize_next mc mod of_nat ODFS_META_OVERSIZE_SLOTS) in
      mc\<lparr>mc_oversize_next := mc_oversize_next mc + 1,
         mc_oversize_lba := (mc_oversize_lba mc)[i := lba (extent dir)],
         mc_oversize_len := (mc_oversize_len mc)[i := extlen (extent dir)]\<rparr>)"

text \<open>The pointer (\<open>-1\<close> for none) and whether it is an orphan, not linked into the list.\<close>

definition meta_get ::
    "odfs_meta_cache \<Rightarrow> ('m, 'b, 'u cb_ctx) odfs_backend_ops \<Rightarrow> 'b \<Rightarrow> 'm odfs_cache \<Rightarrow> heap \<Rightarrow> odfs_node \<Rightarrow>
     ((int \<times> bool \<times> odfs_meta_cache) \<times> 'b \<times> 'm odfs_cache \<times> heap) option" where
  "meta_get mc ops b c h dir = do {
     (d, mc) \<leftarrow> meta_find mc dir;
     if d \<noteq> -1 then Some ((d, False, count_stat (\<lambda>s. s\<lparr>ms_hits := ms_hits s + 1\<rparr>) mc), b, c, h)
     else do {
       let mc = count_stat (\<lambda>s. s\<lparr>ms_misses := ms_misses s + 1\<rparr>) mc;
       if oversize_known mc dir then Some ((-1, False, mc), b, c, h)
       else do {
         ((d, too_big, mc), b, c, h) \<leftarrow> meta_build mc ops b c h dir;
         if d = -1 then Some ((-1, False, if too_big then oversize_note mc dir else mc), b, c, h)
         else do {
           x \<leftarrow> mget mc d;
           if md_bytes x > mc_budget mc then Some ((d, True, mc), b, c, h)
           else do {
             mc \<leftarrow> meta_trim (mc\<lparr>mc_total := mc_total mc + md_bytes x\<rparr>);
             mc \<leftarrow> meta_push_head mc d;
             Some ((d, False, mc), b, c, h) } } } } }"

section \<open>Serving\<close>

text \<open>Replaying from index \<open>i\<close> on; \<open>junk i\<close> is the content of the local node before entry \<open>i\<close> is stored in it.\<close>

function replay_loop ::
    "(nat \<Rightarrow> odfs_node) \<Rightarrow> odfs_meta_dir \<Rightarrow> 's dir_iter_fn \<Rightarrow> 's \<Rightarrow> heap \<Rightarrow> nat \<Rightarrow> (odfs_err \<times> u32 \<times> 's \<times> heap) option" where
  "replay_loop junk d cb s h i =
     (if i < length (md_entries d) then do {
        node \<leftarrow> meta_entry_to_node d (md_entries d ! i) (junk i);
        case cb node s h of (err, s, h) \<Rightarrow>
          if err \<noteq> ODFS_OK then Some (err, ODFS_META_COOKIE_TAG OR of_nat (i + 1), s, h)
          else replay_loop junk d cb s h (Suc i) }
      else Some (ODFS_OK, ODFS_META_COOKIE_TAG OR of_nat (length (md_entries d)), s, h))"
  by pat_completeness auto
termination by (relation "measure (\<lambda>(junk, d, cb, s, h, i). length (md_entries d) - i)") auto

declare replay_loop.simps [simp del]

definition meta_replay ::
    "(nat \<Rightarrow> odfs_node) \<Rightarrow> odfs_meta_dir \<Rightarrow> 's dir_iter_fn \<Rightarrow> 's \<Rightarrow> heap \<Rightarrow> u32 \<Rightarrow> (odfs_err \<times> u32 \<times> 's \<times> heap) option" where
  "meta_replay junk d cb s h resume =
     replay_loop junk d cb s h (if resume \<noteq> 0 then unat (resume AND NOT ODFS_META_COOKIE_TAG) else 0)"

definition meta_skip_cb :: "'u dir_iter_fn \<Rightarrow> 'u cb_ctx dir_iter_fn" where
  "meta_skip_cb cb entry ctx h =
     (case ctx of
        Ctx_skip sc \<Rightarrow>
          (let skipped = sc_index sc < sc_skip sc; sc = sc\<lparr>sc_index := sc_index sc + 1\<rparr> in
           if skipped then (ODFS_OK, Ctx_skip sc, h)
           else (case cb entry (sc_ctx sc) h of (err, u, h) \<Rightarrow>
                   (err, Ctx_skip (if err \<noteq> ODFS_OK then sc\<lparr>sc_ctx := u, sc_stopped := True, sc_err := err\<rparr>
                                   else sc\<lparr>sc_ctx := u\<rparr>), h)))
      | _ \<Rightarrow> (ODFS_ERR_INVAL, ctx, h))"

text \<open>A tagged cookie whose directory is not cached: enumerate again and skip.\<close>

definition meta_skip ::
    "('m, 'b, 'u cb_ctx) odfs_backend_ops \<Rightarrow> 'b \<Rightarrow> 'm odfs_cache \<Rightarrow> heap \<Rightarrow> odfs_node \<Rightarrow> 'u dir_iter_fn \<Rightarrow> 'u \<Rightarrow> u32 \<Rightarrow>
     ('m, 'b, odfs_err \<times> u32 \<times> 'u) be_result" where
  "meta_skip ops b c h dir cb s resume = do {
     ((err, res, ctx), b, c, h) \<leftarrow> be_readdir ops b c h dir (meta_skip_cb cb)
        (Ctx_skip \<lparr>sc_skip = resume AND NOT ODFS_META_COOKIE_TAG, sc_index = 0, sc_ctx = s, sc_err = ODFS_OK,
                   sc_stopped = False\<rparr>) 0;
     case ctx of
       Ctx_skip sc \<Rightarrow> Some ((if sc_stopped sc then sc_err sc else err, ODFS_META_COOKIE_TAG OR sc_index sc, sc_ctx sc), b, c, h)
     | _ \<Rightarrow> None }"

definition odfs_meta_readdir ::
    "(nat \<Rightarrow> odfs_node) \<Rightarrow> odfs_meta_cache \<Rightarrow> ('m, 'b, 'u cb_ctx) odfs_backend_ops \<Rightarrow> 'b \<Rightarrow> 'm odfs_cache \<Rightarrow> heap \<Rightarrow>
     odfs_node \<Rightarrow> 'u dir_iter_fn \<Rightarrow> 'u \<Rightarrow> u32 \<Rightarrow>
     ((odfs_err \<times> u32 \<times> 'u \<times> odfs_meta_cache) \<times> 'b \<times> 'm odfs_cache \<times> heap) option" where
  "odfs_meta_readdir junk mc ops b c h dir cb s resume =
     (let tagged = (resume AND ODFS_META_COOKIE_TAG \<noteq> 0) in
      if resume \<noteq> 0 \<and> \<not> tagged then Some ((ODFS_ERR_UNSUPPORTED, resume, s, mc), b, c, h)
      else if \<not> meta_dir_cacheable mc dir \<and> \<not> tagged then Some ((ODFS_ERR_UNSUPPORTED, resume, s, mc), b, c, h)
      else do {
        ((d, orphan, mc), b, c, h) \<leftarrow>
          (if \<not> meta_dir_cacheable mc dir then Some ((-1, False, mc), b, c, h) else meta_get mc ops b c h dir);
        if d \<noteq> -1 then do {
          x \<leftarrow> mget mc d;
          (err, resume, s, h) \<leftarrow> meta_replay junk x cb s h resume;
          mc \<leftarrow> (if orphan then mfree d mc else Some mc);
          Some ((err, resume, s, mc), b, c, h) }
        else if \<not> tagged then Some ((ODFS_ERR_UNSUPPORTED, resume, s, mc), b, c, h)
        else do {
          ((err, resume, s), b, c, h) \<leftarrow> meta_skip ops b c h dir cb s resume;
          Some ((err, resume, s, mc), b, c, h) } })"

text \<open>The node found, or the error; \<open>out\<close> is the caller's node before the call.\<close>

definition odfs_meta_lookup ::
    "odfs_meta_cache \<Rightarrow> ('m, 'b, 'u cb_ctx) odfs_backend_ops \<Rightarrow> 'b \<Rightarrow> 'm odfs_cache \<Rightarrow> heap \<Rightarrow> odfs_node \<Rightarrow> u8 list \<Rightarrow> odfs_node \<Rightarrow>
     (((odfs_err + odfs_node) \<times> odfs_meta_cache) \<times> 'b \<times> 'm odfs_cache \<times> heap) option" where
  "odfs_meta_lookup mc ops b c h dir nm out =
     (if \<not> meta_dir_cacheable mc dir then Some ((Inl ODFS_ERR_UNSUPPORTED, mc), b, c, h)
      else do {
        ((d, orphan, mc), b, c, h) \<leftarrow> meta_get mc ops b c h dir;
        if d = -1 then Some ((Inl ODFS_ERR_UNSUPPORTED, mc), b, c, h)
        else do {
          x \<leftarrow> mget mc d;
          (r, x) \<leftarrow> meta_find_name x nm;
          let mc = mput mc d (Some x);
          res \<leftarrow> (case r of
                    Some i \<Rightarrow> do { node \<leftarrow> meta_entry_to_node x (md_entries x ! i) out; Some (Inr node) }
                  | None \<Rightarrow> Some (Inl ODFS_ERR_NOT_FOUND));
          mc \<leftarrow> (if orphan then mfree d mc else Some mc);
          Some ((res, mc), b, c, h) } })"

text \<open>
  The walk along a path.  The ring holds the directory and the entry of the last three names.  The
  result of a complete walk is the slot of the last name, the ring and the number of names.
\<close>

function path_walk ::
    "odfs_meta_cache \<Rightarrow> int \<Rightarrow> u8 list \<Rightarrow> nat \<Rightarrow> nat \<Rightarrow> (int \<times> nat) list \<Rightarrow>
     ((odfs_err + nat \<times> (int \<times> nat) list \<times> nat) \<times> odfs_meta_cache) option" where
  "path_walk mc d p depth slot ring =
     (let nm = takeWhile (\<lambda>c. c \<noteq> 0x2F) p; rest = drop (length nm) p in
      if nm = [] \<or> length nm \<ge> ODFS_NAME_MAX then Some (Inl ODFS_ERR_UNSUPPORTED, mc)
      else do {
        x \<leftarrow> mget mc d;
        (r, x) \<leftarrow> meta_find_name x nm;
        let mc = mput mc d (Some x);
        case r of
          None \<Rightarrow> Some (Inl ODFS_ERR_NOT_FOUND, mc)
        | Some i \<Rightarrow>
            let e = md_entries x ! i; ring = ring[slot := (d, i)]; depth = Suc depth in
            if me_kind e = ODFS_NODE_SYMLINK then Some (Inl ODFS_ERR_UNSUPPORTED, mc)
            else if rest = [] \<or> tl rest = [] then Some (Inr (slot, ring, depth), mc)
            else if ch (tl rest) = 0x2F then Some (Inl ODFS_ERR_UNSUPPORTED, mc)
            else if me_kind e \<noteq> ODFS_NODE_DIR then Some (Inl ODFS_ERR_NOT_DIR, mc)
            else do {
              (d, mc) \<leftarrow> meta_find_extent mc (me_lba e) (me_length e) (me_backend e);
              if d = -1 then Some (Inl ODFS_ERR_UNSUPPORTED, mc)
              else path_walk mc d (tl rest) depth (if slot = 2 then 0 else slot + 1) ring } })"
  by pat_completeness auto
termination
proof (relation "measure (\<lambda>(mc, d, p, depth, slot, ring). length p)", goal_cases)
  case (2 mc d p depth slot ring nm rest)
  then have "rest \<noteq> []" by simp
  then have "length (tl rest) < length rest" by simp
  also have "\<dots> \<le> length p" by (simp add: 2)
  finally show ?case by simp
qed simp

declare path_walk.simps [simp del]

text \<open>The node of a ring slot.\<close>

definition ring_node :: "odfs_meta_cache \<Rightarrow> (int \<times> nat) list \<Rightarrow> nat \<Rightarrow> odfs_node \<Rightarrow> odfs_node option" where
  "ring_node mc ring slot out = do {
     (d, i) \<leftarrow> rd ring slot;
     x \<leftarrow> mget mc d;
     e \<leftarrow> rd (md_entries x) i;
     meta_entry_to_node x e out }"

text \<open>The nodes stored in \<open>out\<close>, \<open>parent_out\<close> and \<open>grandparent_out\<close>, and the depth.\<close>

definition odfs_meta_lookup_path ::
    "odfs_meta_cache \<Rightarrow> odfs_node \<Rightarrow> u8 list \<Rightarrow> odfs_node \<Rightarrow> odfs_node \<Rightarrow> odfs_node \<Rightarrow>
     ((odfs_err + odfs_node \<times> odfs_node \<times> odfs_node \<times> nat) \<times> odfs_meta_cache) option" where
  "odfs_meta_lookup_path mc dir path out parent_out grandparent_out = do {
     (d, mc) \<leftarrow> meta_find mc dir;
     if d = -1 then Some (Inl ODFS_ERR_UNSUPPORTED, mc)
     else do {
       (r, mc) \<leftarrow> path_walk mc d path 0 0 (replicate 3 (-1, 0));
       case r of
         Inl err \<Rightarrow> Some (Inl err, mc)
       | Inr (slot, ring, depth) \<Rightarrow> do {
           let mc = count_stat (\<lambda>s. s\<lparr>ms_hits := ms_hits s + of_nat depth\<rparr>) mc;
           out \<leftarrow> ring_node mc ring slot out;
           let slot1 = (if slot = 0 then 2 else slot - 1);
           par \<leftarrow> (if depth \<ge> 2 then ring_node mc ring slot1 parent_out else Some parent_out);
           let slot2 = (if slot1 = 0 then 2 else slot1 - 1);
           gp \<leftarrow> (if depth \<ge> 3 then ring_node mc ring slot2 grandparent_out else Some grandparent_out);
           Some (Inr (out, par, gp, depth), mc) } } }"

end
