(* ===== verification/Meta_Lists.thy ===== *)
theory Meta_Lists
  imports Meta_Cache Cache_Lists
begin

text \<open>
  The list of cached directories.  \<open>links mc xs\<close> says that the objects \<open>xs\<close>, from the most to the
  least recently used, are linked into the list of \<open>mc\<close>; the operations are shown to do to \<open>xs\<close> what
  their names say and to leave everything but the links alone.
\<close>

definition pay :: "odfs_meta_dir \<Rightarrow> odfs_meta_dir" where
  "pay d = d\<lparr>md_prev := -1, md_next := -1\<rparr>"

lemma pay_links [simp]: "pay (d\<lparr>md_prev := p\<rparr>) = pay d" "pay (d\<lparr>md_next := p\<rparr>) = pay d"
  by (simp_all add: pay_def)

text \<open>Everything but the links and the ends of the list.\<close>

definition rest :: "odfs_meta_cache \<Rightarrow> odfs_meta_cache" where
  "rest mc = mc\<lparr>mc_objs := map (map_option pay) (mc_objs mc), mc_head := -1, mc_tail := -1\<rparr>"

definition mnx :: "odfs_meta_cache \<Rightarrow> nat \<Rightarrow> int" where
  "mnx mc i = (case mc_objs mc ! i of Some d \<Rightarrow> md_next d | None \<Rightarrow> -1)"

definition mpv :: "odfs_meta_cache \<Rightarrow> nat \<Rightarrow> int" where
  "mpv mc i = (case mc_objs mc ! i of Some d \<Rightarrow> md_prev d | None \<Rightarrow> -1)"

definition live :: "odfs_meta_cache \<Rightarrow> nat \<Rightarrow> bool" where
  "live mc i \<longleftrightarrow> (\<exists>d. mget mc (int i) = Some d)"

definition links :: "odfs_meta_cache \<Rightarrow> nat list \<Rightarrow> bool" where
  "links mc xs \<longleftrightarrow> dll (mnx mc) (mpv mc) (mc_head mc) (mc_tail mc) xs \<and> distinct xs \<and> (\<forall>i \<in> set xs. live mc i)"

lemma mget_int [simp]: "mget mc (int i) = (if i < length (mc_objs mc) then mc_objs mc ! i else None)"
  by (simp add: mget_def)

lemma live_lt: "live mc i \<Longrightarrow> i < length (mc_objs mc) \<and> (\<exists>d. mc_objs mc ! i = Some d)"
  by (auto simp: live_def split: if_splits)

text \<open>Updating an object, as an update of the link functions.\<close>

definition set_obj :: "nat \<Rightarrow> odfs_meta_dir \<Rightarrow> odfs_meta_cache \<Rightarrow> odfs_meta_cache" where
  "set_obj i e mc = mc\<lparr>mc_objs := (mc_objs mc)[i := Some e]\<rparr>"

lemma set_obj_simps [simp]:
  "mc_head (set_obj i e mc) = mc_head mc" "mc_tail (set_obj i e mc) = mc_tail mc" "length (mc_objs (set_obj i e mc)) = length (mc_objs mc)"
  "mc_budget (set_obj i e mc) = mc_budget mc" "mc_total (set_obj i e mc) = mc_total mc"
  by (simp_all add: set_obj_def)

lemma set_obj_nth: "i < length (mc_objs mc) \<Longrightarrow> mc_objs (set_obj i e mc) ! j = (if j = i then Some e else mc_objs mc ! j)"
  by (simp add: set_obj_def nth_list_update)

lemma mupd_int:
  "i < length (mc_objs mc) \<Longrightarrow> mc_objs mc ! i = Some d \<Longrightarrow> mupd f (int i) mc = Some (set_obj i (f d) mc)"
  by (simp add: mupd_def mput_def set_obj_def)

lemma links_set_obj [simp]:
  assumes "i < length (mc_objs mc)"
  shows "mnx (set_obj i e mc) = (mnx mc)(i := md_next e)" "mpv (set_obj i e mc) = (mpv mc)(i := md_prev e)"
  using assms by (auto simp: mnx_def mpv_def set_obj_nth fun_eq_iff)

lemma rest_set_obj:
  "i < length (mc_objs mc) \<Longrightarrow> mc_objs mc ! i = Some d \<Longrightarrow> pay e = pay d \<Longrightarrow> rest (set_obj i e mc) = rest mc"
  by (simp add: rest_def set_obj_def map_update list_update_same_conv)

lemma rest_ends [simp]: "rest (mc\<lparr>mc_head := h\<rparr>) = rest mc" "rest (mc\<lparr>mc_tail := h\<rparr>) = rest mc"
  by (simp_all add: rest_def)

lemma links_ends [simp]:
  "mnx (mc\<lparr>mc_head := h\<rparr>) = mnx mc" "mpv (mc\<lparr>mc_head := h\<rparr>) = mpv mc"
  "mnx (mc\<lparr>mc_tail := h\<rparr>) = mnx mc" "mpv (mc\<lparr>mc_tail := h\<rparr>) = mpv mc"
  by (simp_all add: mnx_def mpv_def fun_eq_iff)

lemma links_fields [simp]:
  "mnx (mc\<lparr>mc_stats := st\<rparr>) = mnx mc" "mpv (mc\<lparr>mc_stats := st\<rparr>) = mpv mc"
  "mnx (mc\<lparr>mc_total := t\<rparr>) = mnx mc" "mpv (mc\<lparr>mc_total := t\<rparr>) = mpv mc"
  by (simp_all add: mnx_def mpv_def fun_eq_iff)

lemma rest_objs:
  assumes "rest mc = rest mc'"
  shows "length (mc_objs mc) = length (mc_objs mc')"
    "i < length (mc_objs mc) \<Longrightarrow> map_option pay (mc_objs mc ! i) = map_option pay (mc_objs mc' ! i)"
proof -
  have "mc_objs (rest mc) = mc_objs (rest mc')" using assms by simp
  then have m: "map (map_option pay) (mc_objs mc) = map (map_option pay) (mc_objs mc')" by (simp add: rest_def)
  then show len: "length (mc_objs mc) = length (mc_objs mc')" by (metis length_map)
  show "i < length (mc_objs mc) \<Longrightarrow> map_option pay (mc_objs mc ! i) = map_option pay (mc_objs mc' ! i)"
    using m len by (metis nth_map)
qed

lemma rest_live:
  assumes "rest mc = rest mc'"
  shows "live mc i = live mc' i"
  using rest_objs(1)[OF assms] rest_objs(2)[OF assms, of i]
  by (cases "mc_objs mc ! i"; cases "mc_objs mc' ! i") (auto simp: live_def)

lemma unlink_links:
  assumes l: "links mc (as @ x # bs)"
  shows "\<exists>mc'. meta_unlink mc (int x) = Some mc' \<and> links mc' (as @ bs) \<and> rest mc' = rest mc"
proof -
  have d: "dll (mnx mc) (mpv mc) (mc_head mc) (mc_tail mc) (as @ x # bs)" and dist: "distinct (as @ x # bs)"
    and lv: "\<And>i. i \<in> set (as @ x # bs) \<Longrightarrow> live mc i" using l by (auto simp: links_def)
  note ln = dll_links[OF d]
  from live_lt[OF lv[of x]] obtain e where x: "x < length (mc_objs mc)" "mc_objs mc ! x = Some e" by auto
  have pn: "md_prev e = mpv mc x" "md_next e = mnx mc x" using x by (simp_all add: mpv_def mnx_def)
  have nl: "as \<noteq> [] \<Longrightarrow> last as \<noteq> x" "bs \<noteq> [] \<Longrightarrow> hd bs \<noteq> x" using dist by auto
  obtain mc1 where s1: "(if md_prev e \<noteq> -1 then mupd (\<lambda>y. y\<lparr>md_next := md_next e\<rparr>) (md_prev e) mc
      else Some (mc\<lparr>mc_head := md_next e\<rparr>)) = Some mc1"
    and r1: "rest mc1 = rest mc" and f1: "mnx mc1 = (if as = [] then mnx mc else (mnx mc)(last as := mnx mc x))" "mpv mc1 = mpv mc"
      "mc_head mc1 = (if as = [] then mnx mc x else mc_head mc)" "mc_tail mc1 = mc_tail mc"
    and x1: "mc_objs mc1 ! x = Some e"
  proof (cases "as = []")
    case True
    with ln pn x that[of "mc\<lparr>mc_head := md_next e\<rparr>"] show thesis by simp
  next
    case False
    with live_lt[OF lv[of "last as"]] obtain y where y: "last as < length (mc_objs mc)" "mc_objs mc ! last as = Some y" by auto
    moreover have "mpv mc (last as) = md_prev y" using y by (simp add: mpv_def)
    ultimately show thesis
      using False ln pn x nl links_set_obj[OF y(1)] that[of "set_obj (last as) (y\<lparr>md_next := md_next e\<rparr>) mc"]
      by (simp add: mupd_int rest_set_obj set_obj_nth fun_upd_idem)
  qed
  have l1: "length (mc_objs mc1) = length (mc_objs mc)" using rest_objs[OF r1] by simp
  obtain mc2 where s2: "(if md_next e \<noteq> -1 then mupd (\<lambda>y. y\<lparr>md_prev := md_prev e\<rparr>) (md_next e) mc1
      else Some (mc1\<lparr>mc_tail := md_prev e\<rparr>)) = Some mc2"
    and r2: "rest mc2 = rest mc" and f2: "mnx mc2 = mnx mc1" "mpv mc2 = (if bs = [] then mpv mc else (mpv mc)(hd bs := mpv mc x))"
      "mc_head mc2 = mc_head mc1" "mc_tail mc2 = (if bs = [] then mpv mc x else mc_tail mc)"
    and x2: "mc_objs mc2 ! x = Some e"
  proof (cases "bs = []")
    case True
    with ln pn x1 r1 f1 that[of "mc1\<lparr>mc_tail := md_prev e\<rparr>"] show thesis by simp
  next
    case False
    have "live mc1 (hd bs)" using lv[of "hd bs"] False rest_live[OF r1] by simp
    from live_lt[OF this] obtain y where y: "hd bs < length (mc_objs mc1)" "mc_objs mc1 ! hd bs = Some y" by auto
    moreover have "mnx mc1 (hd bs) = md_next y" using y by (simp add: mnx_def)
    ultimately show thesis
      using False ln pn x1 nl r1 f1(2-) l1 x(1) links_set_obj[OF y(1)] that[of "set_obj (hd bs) (y\<lparr>md_prev := md_prev e\<rparr>) mc1"]
      by (simp add: mupd_int rest_set_obj set_obj_nth fun_upd_idem)
  qed
  have l2: "x < length (mc_objs mc2)" using rest_objs[OF r2] x by simp
  let ?mc3 = "set_obj x (e\<lparr>md_prev := -1, md_next := -1\<rparr>) mc2"
  have "meta_unlink mc (int x) = Some ?mc3"
    using x x1 l1 s1 s2 l2 x2 by (simp add: meta_unlink_def mupd_int)
  moreover have "rest ?mc3 = rest mc" using rest_set_obj[OF l2 x2] r2 by simp
  moreover have "links ?mc3 (as @ bs)"
  proof -
    have "dll (mnx ?mc3) (mpv ?mc3) (if as = [] then mnx mc x else mc_head mc) (if bs = [] then mpv mc x else mc_tail mc) (as @ bs)"
      by (rule dll_remove[OF d dist]) (use l2 f1 f2 dist nl in auto)
    then show ?thesis
      using f1 f2 dist lv rest_live[OF \<open>rest ?mc3 = rest mc\<close>] by (auto simp: links_def)
  qed
  ultimately show ?thesis by blast
qed

lemma push_links:
  assumes l: "links mc xs" "x \<notin> set xs" "live mc x"
  shows "\<exists>mc'. meta_push_head mc (int x) = Some mc' \<and> links mc' (x # xs) \<and> rest mc' = rest mc"
proof -
  have d: "dll (mnx mc) (mpv mc) (mc_head mc) (mc_tail mc) xs" and dist: "distinct (x # xs)"
    and lv: "\<And>i. i \<in> set (x # xs) \<Longrightarrow> live mc i" using l by (auto simp: links_def)
  note en = dll_ends[OF d]
  have nh: "xs \<noteq> [] \<Longrightarrow> hd xs \<noteq> x" using dist by auto
  from live_lt[OF l(3)] obtain e where x: "x < length (mc_objs mc)" "mc_objs mc ! x = Some e" by auto
  define mc1 where "mc1 = set_obj x (e\<lparr>md_prev := -1, md_next := mc_head mc\<rparr>) mc"
  have r1: "rest mc1 = rest mc" using rest_set_obj[OF x] by (simp add: mc1_def)
  have h1: "mc_head mc1 = mc_head mc" "mc_tail mc1 = mc_tail mc" by (simp_all add: mc1_def)
  obtain mc2 where s2: "(if mc_head mc1 \<noteq> -1 then mupd (\<lambda>y. y\<lparr>md_prev := int x\<rparr>) (mc_head mc1) mc1
      else Some (mc1\<lparr>mc_tail := int x\<rparr>)) = Some mc2"
    and r2: "rest mc2 = rest mc" and f2: "mnx mc2 = mnx mc1" "mpv mc2 = (if xs = [] then mpv mc1 else (mpv mc1)(hd xs := int x))"
      "mc_tail mc2 = (if xs = [] then int x else mc_tail mc)"
  proof (cases "xs = []")
    case True
    with en r1 h1 that[of "mc1\<lparr>mc_tail := int x\<rparr>"] show thesis by simp
  next
    case False
    have "live mc1 (hd xs)" using lv[of "hd xs"] False rest_live[OF r1] by simp
    from live_lt[OF this] obtain y where y: "hd xs < length (mc_objs mc1)" "mc_objs mc1 ! hd xs = Some y" by auto
    moreover have "mnx mc1 (hd xs) = md_next y" using y by (simp add: mnx_def)
    ultimately show thesis using False en r1 h1 links_set_obj[OF y(1)] that[of "set_obj (hd xs) (y\<lparr>md_prev := int x\<rparr>) mc1"]
      by (auto simp: mupd_int rest_set_obj fun_eq_iff)
  qed
  have f1: "mnx mc1 = (mnx mc)(x := mc_head mc)" "mpv mc1 = (mpv mc)(x := -1)"
    using x by (simp_all add: mc1_def)
  let ?mc3 = "mc2\<lparr>mc_head := int x\<rparr>"
  have "meta_push_head mc (int x) = Some ?mc3" using x s2 h1 unfolding meta_push_head_def by (simp add: mupd_int flip: mc1_def)
  moreover have r3: "rest ?mc3 = rest mc" using r2 by simp
  moreover have "links ?mc3 (x # xs)"
  proof -
    have "dll (mnx mc2) (mpv mc2) (int x) (if xs = [] then int x else mc_tail mc) (x # xs)"
      by (rule dll_insert_head[OF d dist]) (use x f1 f2 dist nh in auto)
    then show ?thesis using f2 dist lv rest_live[OF r3] by (auto simp: links_def)
  qed
  ultimately show ?thesis by blast
qed

section \<open>What the objects hold\<close>

text \<open>A directory but for its links and its second chance.\<close>

definition core_dir :: "odfs_meta_dir \<Rightarrow> odfs_meta_dir" where
  "core_dir d = d\<lparr>md_prev := -1, md_next := -1, md_referenced := False\<rparr>"

definition view :: "odfs_meta_cache \<Rightarrow> nat \<Rightarrow> odfs_meta_dir option" where
  "view mc i = map_option core_dir (mget mc (int i))"

definition bytes :: "odfs_meta_cache \<Rightarrow> nat \<Rightarrow> nat" where
  "bytes mc i = (case view mc i of Some d \<Rightarrow> unat (md_bytes d) | None \<Rightarrow> 0)"

definition frame :: "odfs_meta_cache \<Rightarrow> odfs_meta_cache \<Rightarrow> bool" where
  "frame mc mc' \<longleftrightarrow> mc_budget mc' = mc_budget mc \<and> length (mc_objs mc') = length (mc_objs mc) \<and>
     length (mc_oversize_lba mc') = length (mc_oversize_lba mc) \<and> length (mc_oversize_len mc') = length (mc_oversize_len mc)"

lemma frame_refl [simp]: "frame mc mc" by (simp add: frame_def)
lemma frame_trans: "frame a b \<Longrightarrow> frame b c \<Longrightarrow> frame a c" by (simp add: frame_def)

lemma core_dir_pay: "core_dir d = (pay d)\<lparr>md_referenced := False\<rparr>"
  by (simp add: core_dir_def pay_def)

lemma rest_view:
  assumes "rest mc' = rest mc"
  shows "view mc' = view mc" "frame mc mc'" "mc_total mc' = mc_total mc"
proof -
  show "view mc' = view mc"
  proof
    fix i
    show "view mc' i = view mc i"
      using rest_objs(1)[OF assms] rest_objs(2)[OF assms, of i]
      by (cases "mc_objs mc ! i"; cases "mc_objs mc' ! i") (auto simp: view_def core_dir_pay)
  qed
  have "mc_budget (rest mc') = mc_budget (rest mc)" "mc_total (rest mc') = mc_total (rest mc)"
    "mc_oversize_lba (rest mc') = mc_oversize_lba (rest mc)" "mc_oversize_len (rest mc') = mc_oversize_len (rest mc)"
    using assms by simp_all
  then show "frame mc mc'" "mc_total mc' = mc_total mc" using rest_objs(1)[OF assms] by (simp_all add: rest_def frame_def)
qed

text \<open>Whether an object has its second chance.\<close>

definition refd :: "odfs_meta_cache \<Rightarrow> nat \<Rightarrow> bool" where
  "refd mc i \<longleftrightarrow> (\<exists>d. mget mc (int i) = Some d \<and> md_referenced d)"

lemma pay_referenced: "pay a = pay b \<Longrightarrow> md_referenced a = md_referenced b"
  by (metis odfs_meta_dir.select_convs(7) odfs_meta_dir.surjective odfs_meta_dir.update_convs(1,2) pay_def)

lemma rest_refd:
  assumes "rest mc' = rest mc"
  shows "refd mc' = refd mc"
proof
  fix i
  show "refd mc' i = refd mc i"
    using rest_objs(1)[OF assms] rest_objs(2)[OF assms, of i]
    by (cases "mc_objs mc ! i"; cases "mc_objs mc' ! i") (auto simp: refd_def dest: pay_referenced)
qed

lemma live_view: "live mc i \<longleftrightarrow> view mc i \<noteq> None"
  by (auto simp: live_def view_def)

lemma view_Some: "view mc i = Some d \<longleftrightarrow> i < length (mc_objs mc) \<and> (\<exists>z. mc_objs mc ! i = Some z \<and> core_dir z = d)"
  by (auto simp: view_def)

lemma bytes_view: "view mc' i = view mc i \<Longrightarrow> bytes mc' i = bytes mc i"
  by (simp add: bytes_def)

lemma view_stat [simp]: "view (count_stat f mc) = view mc" "links (count_stat f mc) xs = links mc xs"
  "frame mc' (count_stat f mc) = frame mc' mc" "frame (count_stat f mc) mc' = frame mc mc'"
  "mc_total (count_stat f mc) = mc_total mc" "mc_budget (count_stat f mc) = mc_budget mc"
  by (auto simp: count_stat_def view_def links_def live_def mget_def frame_def)

lemma view_total [simp]: "view (mc\<lparr>mc_total := t\<rparr>) = view mc" "links (mc\<lparr>mc_total := t\<rparr>) xs = links mc xs"
  "frame mc' (mc\<lparr>mc_total := t\<rparr>) = frame mc' mc" "frame (mc\<lparr>mc_total := t\<rparr>) mc' = frame mc mc'"
  by (auto simp: view_def links_def live_def mget_def frame_def)

text \<open>Changing an object of the list, but not its links.\<close>

lemma set_obj_links:
  assumes "i < length (mc_objs mc)" "mc_objs mc ! i = Some d" "md_prev e = md_prev d" "md_next e = md_next d"
  shows "links (set_obj i e mc) xs = links mc xs"
proof -
  have "mnx (set_obj i e mc) = mnx mc" "mpv (set_obj i e mc) = mpv mc"
    using assms by (auto simp: mnx_def mpv_def set_obj_nth fun_eq_iff)
  moreover have "live (set_obj i e mc) j = live mc j" for j using assms by (auto simp: live_def set_obj_nth)
  ultimately show ?thesis by (simp add: links_def)
qed

lemma set_obj_view:
  "i < length (mc_objs mc) \<Longrightarrow> view (set_obj i e mc) = (view mc)(i := Some (core_dir e))"
  by (auto simp: view_def set_obj_nth fun_eq_iff)

lemma set_obj_frame [simp]: "frame mc (set_obj i e mc)"
  by (simp add: frame_def set_obj_def)

lemma links_live: "links mc xs \<Longrightarrow> i \<in> set xs \<Longrightarrow> live mc i"
  by (simp add: links_def)

lemma links_distinct: "links mc xs \<Longrightarrow> distinct xs"
  by (simp add: links_def)

lemma links_tail: "links mc xs \<Longrightarrow> mc_tail mc = (if xs = [] then -1 else int (last xs))"
  unfolding links_def by (metis dll_ends)

lemma links_head: "links mc xs \<Longrightarrow> mc_head mc = (if xs = [] then -1 else int (hd xs))"
  unfolding links_def by (metis dll_ends)

section \<open>Evicting and trimming\<close>

lemma evict_ok:
  assumes l: "links mc (as @ x # bs)" and x: "view mc x = Some d"
  shows "\<exists>mc'. meta_evict mc (int x) = Some mc' \<and> links mc' (as @ bs) \<and> view mc' = (view mc)(x := None) \<and>
    mc_total mc' = mc_total mc - md_bytes d \<and> frame mc mc' \<and> (\<forall>i. i \<noteq> x \<longrightarrow> refd mc' i = refd mc i)"
proof -
  from unlink_links[OF l] obtain mc1 where u: "meta_unlink mc (int x) = Some mc1" "links mc1 (as @ bs)" "rest mc1 = rest mc" by blast
  note v = rest_view[OF u(3)]
  have "view mc1 x = Some d" using x v(1) by simp
  then obtain d1 where x1: "x < length (mc_objs mc1)" "mc_objs mc1 ! x = Some d1" and d1: "mget mc1 (int x) = Some d1" "core_dir d1 = d"
    by (auto simp: view_Some)
  let ?mc2 = "count_stat (\<lambda>s. s\<lparr>ms_evictions := ms_evictions s + 1\<rparr>) (mc1\<lparr>mc_total := mc_total mc1 - md_bytes d1\<rparr>)"
  have g2: "mc_objs ?mc2 = mc_objs mc1" by (simp add: count_stat_def)
  define mc' where "mc' = mput ?mc2 (int x) None"
  have e: "meta_evict mc (int x) = Some mc'"
    using u(1) d1(1) x1 g2 by (simp add: meta_evict_def mfree_def Let_def mc'_def)
  have o: "mc_objs mc' = (mc_objs mc1)[x := None]" "mc_head mc' = mc_head mc1" "mc_tail mc' = mc_tail mc1"
    using g2 by (simp_all add: mc'_def mput_def count_stat_def)
  have nx: "x \<notin> set (as @ bs)" using links_distinct[OF l] by auto
  have ne: "i \<noteq> x" if "i \<in> set (as @ bs)" for i using that nx by metis
  have same: "mnx mc' i = mnx mc1 i" "mpv mc' i = mpv mc1 i" "live mc' i = live mc1 i" "refd mc' i = refd mc1 i" if "i \<noteq> x" for i
    using that o(1) by (simp_all add: mnx_def mpv_def live_def refd_def)
  have "links mc' (as @ bs)"
  proof -
    have "dll (mnx mc') (mpv mc') (mc_head mc1) (mc_tail mc1) (as @ bs) = dll (mnx mc1) (mpv mc1) (mc_head mc1) (mc_tail mc1) (as @ bs)"
      by (rule dll_cong) (use ne same in blast)
    moreover have "live mc' i" if "i \<in> set (as @ bs)" for i using links_live[OF u(2) that] same(3)[OF ne[OF that]] by simp
    ultimately show ?thesis using u(2) o(2,3) unfolding links_def by metis
  qed
  moreover have "view mc' = (view mc)(x := None)"
    unfolding v(1)[symmetric] using x1 o(1) by (auto simp: view_def nth_list_update fun_eq_iff)
  moreover have "mc_total mc' = mc_total mc - md_bytes d" "frame mc mc'"
    using v(2,3) d1(2) by (auto simp: mc'_def mput_def count_stat_def core_dir_def frame_def)
  moreover have "\<forall>i. i \<noteq> x \<longrightarrow> refd mc' i = refd mc i" using same(4) rest_refd[OF u(3)] by simp
  ultimately show ?thesis using e by blast
qed

definition chances :: "odfs_meta_cache \<Rightarrow> nat list \<Rightarrow> nat" where
  "chances mc xs = length (filter (refd mc) xs)"

definition held :: "odfs_meta_cache \<Rightarrow> nat list \<Rightarrow> nat" where
  "held mc xs = sum_list (map (bytes mc) xs)"

lemma held_view: "(\<And>i. i \<in> set xs \<Longrightarrow> view mc' i = view mc i) \<Longrightarrow> held mc' xs = held mc xs"
  unfolding held_def by (intro arg_cong[where f = sum_list] map_cong refl bytes_view)

lemma trim_ok:
  assumes "links mc xs" "unat (mc_total mc) = held mc xs + extra" "extra \<le> unat (mc_budget mc)"
  shows "\<exists>mc' xs'. meta_trim mc = Some mc' \<and> links mc' xs' \<and> set xs' \<subseteq> set xs \<and>
    unat (mc_total mc') = held mc' xs' + extra \<and> mc_total mc' \<le> mc_budget mc' \<and> frame mc mc' \<and>
    (\<forall>i. view mc' i = (if i \<in> set xs - set xs' then None else view mc i))"
  using assms unfolding meta_trim_def
proof (induction "length xs + chances mc xs" arbitrary: mc xs rule: less_induct)
  case less
  note l = less.prems(1) and t = less.prems(2)
  show ?case
  proof (cases "mc_total mc > mc_budget mc \<and> xs \<noteq> []")
    case False
    then have "mc_total mc \<le> mc_budget mc" using t less.prems(3) by (auto simp: held_def word_le_nat_alt not_less)
    moreover have "iter trim_body mc = Some mc"
      using False links_tail[OF l] by (subst iter.simps) (auto simp: trim_body_def)
    ultimately show ?thesis using l t by (intro exI[of _ mc] exI[of _ xs]) auto
  next
    case True
    then obtain ys x where xs: "xs = ys @ [x]" by (metis rev_exhaust)
    have tl: "mc_tail mc = int x" using links_tail[OF l] xs by simp
    from links_live[OF l, of x] xs obtain d where d: "x < length (mc_objs mc)" "mc_objs mc ! x = Some d" by (auto dest: live_lt)
    have nx: "x \<notin> set ys" using links_distinct[OF l] xs by simp
    show ?thesis
    proof (cases "md_referenced d")
      case ref: True
      let ?mc1 = "set_obj x (d\<lparr>md_referenced := False\<rparr>) mc"
      have l1: "links ?mc1 (ys @ x # [])" using l xs set_obj_links[OF d, of "d\<lparr>md_referenced := False\<rparr>"] by simp
      from unlink_links[OF l1] obtain mc2 where u: "meta_unlink ?mc1 (int x) = Some mc2" "links mc2 ys" "rest mc2 = rest ?mc1" by auto
      have "live mc2 x" using rest_live[OF u(3)] d by (simp add: live_def set_obj_nth)
      from push_links[OF u(2) nx this] obtain mc3 where p: "meta_push_head mc2 (int x) = Some mc3" "links mc3 (x # ys)" "rest mc3 = rest ?mc1"
        using u(3) by auto
      have step: "iter trim_body mc = iter trim_body mc3"
        using True tl d ref u(1) p(1) by (subst iter.simps) (simp add: trim_body_def mupd_int)
      have v: "view mc3 = view mc" using rest_view(1)[OF p(3)] d by (auto simp: set_obj_view core_dir_def view_def fun_eq_iff)
      have r: "refd mc3 = (refd mc)(x := False)"
        using rest_refd[OF p(3)] d by (auto simp: refd_def set_obj_nth fun_eq_iff)
      have f3: "frame mc mc3" "mc_total mc3 = mc_total mc" using rest_view(2,3)[OF p(3)] frame_trans[OF set_obj_frame] by auto
      have "refd mc x" using d ref by (simp add: refd_def)
      moreover have "filter (refd mc3) ys = filter (refd mc) ys" by (rule filter_cong[OF refl]) (use nx r in auto)
      ultimately have "chances mc3 (x # ys) < chances mc xs" by (simp add: chances_def xs r)
      moreover have "held mc3 (x # ys) = held mc xs"
        using held_view[of "x # ys" mc3 mc] v by (simp add: held_def xs)
      ultimately obtain mc' xs' where i: "iter trim_body mc3 = Some mc'" "links mc' xs'" "set xs' \<subseteq> set (x # ys)"
        "unat (mc_total mc') = held mc' xs' + extra" "mc_total mc' \<le> mc_budget mc'" "frame mc3 mc'"
        "\<forall>i. view mc' i = (if i \<in> set (x # ys) - set xs' then None else view mc3 i)"
        using less.hyps[of "x # ys" mc3] p(2) t f3 less.prems(3) by (auto simp: xs frame_def)
      show ?thesis using i step v frame_trans[OF f3(1) i(6)] by (intro exI[of _ mc'] exI[of _ xs']) (auto simp: xs)
    next
      case False
      have vx: "view mc x = Some (core_dir d)" using d by (simp add: view_Some)
      from evict_ok[of mc ys x "[]", OF _ vx] l xs obtain mc1 where e: "meta_evict mc (int x) = Some mc1" "links mc1 ys"
        "view mc1 = (view mc)(x := None)" "mc_total mc1 = mc_total mc - md_bytes (core_dir d)" "frame mc mc1"
        "\<forall>i. i \<noteq> x \<longrightarrow> refd mc1 i = refd mc i" by auto
      have step: "iter trim_body mc = iter trim_body mc1"
        using True tl d False e(1) by (subst iter.simps) (simp add: trim_body_def)
      have h: "held mc xs = held mc1 ys + unat (md_bytes (core_dir d))"
      proof -
        have "held mc1 ys = held mc ys" by (rule held_view) (use e(3) nx in auto)
        then show ?thesis using vx by (simp add: held_def xs bytes_def)
      qed
      then have t1: "unat (mc_total mc1) = held mc1 ys + extra" using t e(4) by (simp add: unat_sub word_le_nat_alt)
      have "filter (refd mc1) ys = filter (refd mc) ys" by (rule filter_cong[OF refl]) (use nx e(6) in auto)
      then have "chances mc1 ys \<le> chances mc xs" by (simp add: chances_def xs)
      then obtain mc' xs' where i: "iter trim_body mc1 = Some mc'" "links mc' xs'" "set xs' \<subseteq> set ys"
        "unat (mc_total mc') = held mc' xs' + extra" "mc_total mc' \<le> mc_budget mc'" "frame mc1 mc'"
        "\<forall>i. view mc' i = (if i \<in> set ys - set xs' then None else view mc1 i)"
        using less.hyps[of ys mc1] e(2,5) t1 less.prems(3) by (auto simp: xs frame_def)
      show ?thesis using i step e(3) nx frame_trans[OF e(5) i(6)] by (intro exI[of _ mc'] exI[of _ xs']) (auto simp: xs)
    qed
  qed
qed

section \<open>Finding\<close>

definition keyed :: "odfs_meta_cache \<Rightarrow> u32 \<Rightarrow> u32 \<Rightarrow> odfs_backend_type \<Rightarrow> nat \<Rightarrow> bool" where
  "keyed mc l len be i \<longleftrightarrow> (\<exists>d. view mc i = Some d \<and> md_lba d = l \<and> md_length d = len \<and> md_backend d = be)"

lemma links_next:
  assumes "links mc (zs @ x # ys)" "mc_objs mc ! x = Some d"
  shows "md_next d = (if ys = [] then -1 else int (hd ys))"
  using dll_links(2)[of "mnx mc" "mpv mc" "mc_head mc" "mc_tail mc" zs x ys] assms by (simp add: links_def mnx_def)

definition same_list :: "odfs_meta_cache \<Rightarrow> nat list \<Rightarrow> odfs_meta_cache \<Rightarrow> bool" where
  "same_list mc xs mc' \<longleftrightarrow> (\<exists>xs'. links mc' xs' \<and> set xs' = set xs) \<and> view mc' = view mc \<and> frame mc mc' \<and> mc_total mc' = mc_total mc"

lemma move_front:
  assumes "links mc (zs @ x # ys)"
  shows "\<exists>mc1 mc2. meta_unlink mc (int x) = Some mc1 \<and> meta_push_head mc1 (int x) = Some mc2 \<and> same_list mc (zs @ x # ys) mc2"
proof -
  from unlink_links[OF assms] obtain mc1 where u: "meta_unlink mc (int x) = Some mc1" "links mc1 (zs @ ys)" "rest mc1 = rest mc" by auto
  have "x \<notin> set (zs @ ys)" using links_distinct[OF assms] by auto
  moreover have "live mc1 x" using rest_live[OF u(3)] links_live[OF assms] by simp
  ultimately obtain mc2 where p: "meta_push_head mc1 (int x) = Some mc2" "links mc2 (x # zs @ ys)" "rest mc2 = rest mc"
    using push_links[OF u(2)] u(3) by auto
  from rest_view[OF p(3)] p(2) have "same_list mc (zs @ x # ys) mc2"
    unfolding same_list_def by (intro conjI exI[of _ "x # zs @ ys"]) auto
  with u(1) p(1) show ?thesis by blast
qed

lemma find_loop:
  assumes "links mc (zs @ ys)" "\<forall>i \<in> set zs. \<not> keyed mc l len be i"
  shows "\<exists>p mc'. iter (find_body l len be mc) (if ys = [] then -1 else int (hd ys), length zs) = Some (p, mc') \<and>
    (case find (keyed mc l len be) ys of None \<Rightarrow> p = -1 \<and> mc' = mc | Some i \<Rightarrow> p = int i \<and> same_list mc (zs @ ys) mc')"
  using assms
proof (induction ys arbitrary: zs)
  case Nil
  then show ?case by (subst iter.simps) (simp add: find_body_def)
next
  case (Cons x ys)
  from links_live[OF Cons.prems(1), of x] obtain d where d: "x < length (mc_objs mc)" "mc_objs mc ! x = Some d" by (auto dest: live_lt)
  have k: "keyed mc l len be x \<longleftrightarrow> md_lba d = l \<and> md_length d = len \<and> md_backend d = be"
    using d by (auto simp: keyed_def view_def core_dir_def)
  show ?case
  proof (cases "keyed mc l len be x")
    case False
    have "iter (find_body l len be mc) (int x, length zs) =
        iter (find_body l len be mc) (if ys = [] then -1 else int (hd ys), length (zs @ [x]))"
      using d False links_next[OF Cons.prems(1) d(2)] by (subst iter.simps) (auto simp: find_body_def k)
    with Cons.IH[of "zs @ [x]", unfolded append_assoc append.simps] Cons.prems False show ?thesis by simp
  next
    case True
    show ?thesis
    proof (cases "length zs \<ge> META_LRU_FRONT")
      case far: True
      from move_front[OF Cons.prems(1)] obtain mc1 mc2 where
        m: "meta_unlink mc (int x) = Some mc1" "meta_push_head mc1 (int x) = Some mc2" "same_list mc (zs @ x # ys) mc2" by blast
      then have "iter (find_body l len be mc) (int x, length zs) = Some (int x, mc2)"
        using d True far by (subst iter.simps) (simp add: find_body_def k)
      with True m(3) show ?thesis by simp
    next
      case False
      let ?mc' = "set_obj x (d\<lparr>md_referenced := True\<rparr>) mc"
      have "iter (find_body l len be mc) (int x, length zs) = Some (int x, ?mc')"
        using d True False by (subst iter.simps) (simp add: find_body_def k mupd_int)
      moreover have "view ?mc' = view mc" using d by (auto simp: set_obj_view view_def core_dir_def fun_eq_iff)
      then have "same_list mc (zs @ x # ys) ?mc'"
        using Cons.prems(1) set_obj_links[OF d, of "d\<lparr>md_referenced := True\<rparr>"] by (auto simp: same_list_def)
      ultimately show ?thesis using True by simp
    qed
  qed
qed

lemma find_ok:
  assumes "links mc xs"
  obtains (none) "meta_find_extent mc l len be = Some (-1, mc)" "\<forall>i \<in> set xs. \<not> keyed mc l len be i"
  | (found) i mc' where "meta_find_extent mc l len be = Some (int i, mc')" "i \<in> set xs" "keyed mc l len be i" "same_list mc xs mc'"
proof -
  from find_loop[of mc "[]" xs l len be, unfolded append.simps] assms obtain p mc' where
    p: "meta_find_extent mc l len be = Some (p, mc')"
    "case find (keyed mc l len be) xs of None \<Rightarrow> p = -1 \<and> mc' = mc | Some i \<Rightarrow> p = int i \<and> same_list mc xs mc'"
    by (auto simp: meta_find_extent_def links_head[OF assms])
  show thesis
  proof (cases "find (keyed mc l len be) xs")
    case None
    with p none show thesis by (auto simp: find_None_iff)
  next
    case (Some i)
    with p found show thesis by (auto simp: find_Some_iff)
  qed
qed

section \<open>Flushing\<close>

lemma flush_loop:
  assumes "links mc xs" "unat (mc_total mc) = held mc xs"
  shows "\<exists>mc'. iter flush_body mc = Some mc' \<and> links mc' [] \<and> mc_total mc' = 0 \<and> frame mc mc' \<and>
    (\<forall>i. view mc' i = (if i \<in> set xs then None else view mc i))"
  using assms
proof (induction xs arbitrary: mc rule: rev_induct)
  case Nil
  then show ?case
    using links_tail[OF Nil(1)] by (subst iter.simps) (auto simp: flush_body_def held_def unat_eq_0)
next
  case (snoc x ys)
  from links_live[OF snoc.prems(1), of x] obtain d where d: "view mc x = Some d" by (auto simp: live_view)
  have nx: "x \<notin> set ys" using links_distinct[OF snoc.prems(1)] by simp
  from evict_ok[of mc ys x "[]", OF _ d] snoc.prems(1) obtain mc1 where e: "meta_evict mc (int x) = Some mc1" "links mc1 ys"
    "view mc1 = (view mc)(x := None)" "mc_total mc1 = mc_total mc - md_bytes d" "frame mc mc1" by auto
  have "held mc1 ys = held mc ys" by (rule held_view) (use e(3) nx in auto)
  then have "unat (mc_total mc1) = held mc1 ys"
    using snoc.prems(2) d e(4) by (simp add: held_def bytes_def unat_sub word_le_nat_alt)
  from snoc.IH[OF e(2) this] obtain mc' where i: "iter flush_body mc1 = Some mc'" "links mc' []" "mc_total mc' = 0" "frame mc1 mc'"
    "\<forall>i. view mc' i = (if i \<in> set ys then None else view mc1 i)" by blast
  have "iter flush_body mc = iter flush_body mc1"
    using links_tail[OF snoc.prems(1)] e(1) by (subst iter.simps) (simp add: flush_body_def)
  with i e(3) frame_trans[OF e(5) i(4)] show ?case by (intro exI[of _ mc']) auto
qed

end
