(* ===== verification/Dir_Source.thy ===== *)
theory Dir_Source
  imports Backend Text
begin

text \<open>
  What the layers above a backend rely on.  A directory, known by its extent and backend, holds a
  list of entries; an enumeration from the start passes them to the callback in order and stops
  when the callback does or when the medium or the allocator fails.  Node numbers are given out
  afresh by every enumeration, and the Amiga attributes of a node are meaningful only if flagged,
  so entries are compared as they are \<open>seen\<close>.
\<close>

definition seen_as :: "odfs_amiga_as \<Rightarrow> odfs_amiga_as" where
  "seen_as a = a\<lparr>protection := (if has_protection a then protection a else []),
                 comment := (if has_comment a then comment a else [])\<rparr>"

definition seen :: "odfs_node \<Rightarrow> odfs_node" where
  "seen n = n\<lparr>node_id := 0, parent_id := 0, amiga_as := seen_as (amiga_as n)\<rparr>"

text \<open>A node a backend may deliver: its strings are terminated and fit their buffers.\<close>

definition node_ok :: "odfs_node \<Rightarrow> bool" where
  "node_ok n \<longleftrightarrow> 0 \<notin> set (name n) \<and> length (name n) < ODFS_NAME_MAX \<and>
     (has_comment (amiga_as n) \<longrightarrow> 0 \<notin> set (comment (amiga_as n)) \<and> length (comment (amiga_as n)) < ODFS_AMIGA_COMMENT_MAX)"

lemma seen_fields:
  assumes "seen a = seen b"
  shows "name a = name b" "kind a = kind b" "backend a = backend b" "size a = size b" "extent a = extent b"
    "mtime a = mtime b" "ctime a = ctime b" "mode a = mode b"
    "has_protection (amiga_as a) = has_protection (amiga_as b)" "has_comment (amiga_as a) = has_comment (amiga_as b)"
    "has_comment (amiga_as a) \<Longrightarrow> comment (amiga_as a) = comment (amiga_as b)"
    "has_protection (amiga_as a) \<Longrightarrow> protection (amiga_as a) = protection (amiga_as b)"
proof -
  let ?f = "\<lambda>n. (name n, kind n, backend n, size n, extent n, mtime n, ctime n, mode n, amiga_as n)"
  have "?f (seen a) = ?f (seen b)" using assms by simp
  then have e: "name a = name b \<and> kind a = kind b \<and> backend a = backend b \<and> size a = size b \<and> extent a = extent b \<and>
    mtime a = mtime b \<and> ctime a = ctime b \<and> mode a = mode b" and s: "seen_as (amiga_as a) = seen_as (amiga_as b)"
    by (simp_all add: seen_def)
  have "(\<lambda>n. (has_protection n, protection n, has_comment n, comment n)) (seen_as (amiga_as a)) =
        (\<lambda>n. (has_protection n, protection n, has_comment n, comment n)) (seen_as (amiga_as b))" using s by simp
  then show "has_protection (amiga_as a) = has_protection (amiga_as b)" "has_comment (amiga_as a) = has_comment (amiga_as b)"
    "has_comment (amiga_as a) \<Longrightarrow> comment (amiga_as a) = comment (amiga_as b)"
    "has_protection (amiga_as a) \<Longrightarrow> protection (amiga_as a) = protection (amiga_as b)"
    by (auto simp: seen_as_def)
  from e show "name a = name b" "kind a = kind b" "backend a = backend b" "size a = size b" "extent a = extent b"
    "mtime a = mtime b" "ctime a = ctime b" "mode a = mode b" by auto
qed

lemma seen_node_ok: "seen a = seen b \<Longrightarrow> node_ok a = node_ok b"
  using seen_fields[of a b] seen_fields[of b a] unfolding node_ok_def by metis

text \<open>
  \<open>served faults cb ns s err s' k\<close>: of the entries \<open>ns\<close>, the first \<open>k\<close> are passed to the callback, which
  takes its context from \<open>s\<close> to \<open>s'\<close>; \<open>err\<close> is the callback's error, that of a failure behind the
  last entry passed, which is one of \<open>faults\<close>, or none when all were passed.
\<close>

inductive served :: "odfs_err set \<Rightarrow> 's dir_iter_fn \<Rightarrow> odfs_node list \<Rightarrow> 's \<Rightarrow> odfs_err \<Rightarrow> 's \<Rightarrow> nat \<Rightarrow> bool" for faults cb where
  all: "served faults cb [] s ODFS_OK s 0"
| failed: "err \<in> faults \<Longrightarrow> err \<noteq> ODFS_OK \<Longrightarrow> served faults cb ns s err s 0"
| step: "seen e = seen n \<Longrightarrow> cb e s h = (ODFS_OK, s1, h1) \<Longrightarrow> served faults cb ns s1 err s' k \<Longrightarrow> served faults cb (n # ns) s err s' (Suc k)"
| stop: "seen e = seen n \<Longrightarrow> cb e s h = (err, s', h1) \<Longrightarrow> err \<noteq> ODFS_OK \<Longrightarrow> served faults cb (n # ns) s err s' (Suc 0)"

inductive_cases served_NilE: "served faults cb [] s err s' k"
inductive_cases served_ConsE: "served faults cb (n # ns) s err s' k"

lemma served_bound: "served faults cb ns s err s' k \<Longrightarrow> k \<le> length ns"
  by (induction rule: served.induct) auto

lemma served_faulty: "served {} cb ns s err s' k \<Longrightarrow> served faults cb ns s err s' k"
  by (induction rule: served.induct) (auto intro: served.intros)

lemma served_all: "served faults cb ns s ODFS_OK s' k \<Longrightarrow> k = length ns"
proof -
  have "err = ODFS_OK \<Longrightarrow> k = length ns" if "served faults cb ns s err s' k" for err ns s s' k
    using that by (induction rule: served.induct) auto
  then show "served faults cb ns s ODFS_OK s' k \<Longrightarrow> k = length ns" by blast
qed

type_synonym dir_key = "u32 \<times> u32 \<times> odfs_backend_type"

definition dir_key :: "odfs_node \<Rightarrow> dir_key" where
  "dir_key dir = (lba (extent dir), extlen (extent dir), backend dir)"

locale dir_source =
  fixes ops :: "('m, 'b, 's) odfs_backend_ops"
    and inv :: "'b \<Rightarrow> 'm odfs_cache \<Rightarrow> bool"
    and listing :: "dir_key \<Rightarrow> odfs_node list option"
    and faults :: "odfs_err set"
  assumes readdir_served: "inv b c \<Longrightarrow> listing (dir_key dir) = Some ns \<Longrightarrow>
      \<exists>err res s' b' c' h' k. be_readdir ops b c h dir cb s 0 = Some ((err, res, s'), b', c', h') \<and> inv b' c' \<and>
        served faults cb ns s err s' k"
    and listing_ok: "listing key = Some ns \<Longrightarrow> n \<in> set ns \<Longrightarrow> node_ok n"

text \<open>A lookup gives the entry of that name, or that there is none, or one of the source's errors.\<close>

definition lookup_result :: "odfs_err set \<Rightarrow> odfs_node list \<Rightarrow> u8 list \<Rightarrow> odfs_err + odfs_node \<Rightarrow> bool" where
  "lookup_result faults ns nm r \<longleftrightarrow> (\<exists>e \<in> faults. r = Inl e) \<or>
     (case find (\<lambda>n. odfs_strcasecmp (name n) nm = 0) ns of
        None \<Rightarrow> r = Inl ODFS_ERR_NOT_FOUND
      | Some n \<Rightarrow> \<exists>n'. r = Inr n' \<and> seen n' = seen n)"

locale dir_backend = dir_source +
  assumes lookup_serves: "inv b c \<Longrightarrow> listing (dir_key dir) = Some ns \<Longrightarrow>
      \<exists>r b' c' h'. be_lookup ops b c h dir nm = Some (r, b', c', h') \<and> inv b' c' \<and> lookup_result faults ns nm r"

end
