(* ===== verification/Meta_Names.thy ===== *)
theory Meta_Names
  imports Meta_Lists Dir_Source Text_Facts
begin

text \<open>
  Names and entries of a cached directory: the comparison of names and the search for one, and that
  an entry gives back the node it was made from.
\<close>

section \<open>Comparing names\<close>

definition letter :: "u8 \<Rightarrow> bool" where
  "letter c \<longleftrightarrow> 0x61 \<le> c OR 0x20 \<and> c OR 0x20 \<le> 0x7A"

lemma tolower_letter: "odfs_ascii_tolower c = (if letter c then c OR 0x20 else c)"
  unfolding letter_def by (rule u8_cases_all[of "\<lambda>c. odfs_ascii_tolower c = (if 0x61 \<le> c OR 0x20 \<and> c OR 0x20 \<le> 0x7A then c OR 0x20 else c)"]) code_simp

lemma tolower_eq_iff:
  "odfs_ascii_tolower x = odfs_ascii_tolower y \<longleftrightarrow> x = y \<or> x OR 0x20 = y OR 0x20 \<and> letter x"
proof
  assume e: "odfs_ascii_tolower x = odfs_ascii_tolower y"
  then have "x OR 0x20 = y OR 0x20" using tolower_or_0x20 by metis
  moreover from this have "letter x = letter y" by (simp add: letter_def)
  ultimately show "x = y \<or> x OR 0x20 = y OR 0x20 \<and> letter x" using e by (auto simp: tolower_letter)
next
  assume "x = y \<or> x OR 0x20 = y OR 0x20 \<and> letter x"
  moreover have "letter x = letter y" if "x OR 0x20 = y OR 0x20" using that by (simp add: letter_def)
  ultimately show "odfs_ascii_tolower x = odfs_ascii_tolower y" by (auto simp: tolower_letter)
qed

lemma byte_case_bit: "z AND NOT 0x20 = 0 \<Longrightarrow> z = 0 \<or> z = (0x20 :: u8)"
proof -
  have "z AND NOT 0x20 = 0 \<longrightarrow> z = 0 \<or> z = (0x20 :: u8)"
    by (rule u8_cases_all[of "\<lambda>z. z AND NOT 0x20 = 0 \<longrightarrow> z = 0 \<or> z = (0x20 :: u8)"]) code_simp
  then show "z AND NOT 0x20 = 0 \<Longrightarrow> z = 0 \<or> z = (0x20 :: u8)" by blast
qed

lemma tolower_xor: "odfs_ascii_tolower x = odfs_ascii_tolower y \<Longrightarrow> x = y \<or> x XOR y = 0x20"
proof -
  assume "odfs_ascii_tolower x = odfs_ascii_tolower y"
  then have "x OR 0x20 = y OR 0x20" using tolower_or_0x20 by metis
  then have "(x OR 0x20) AND NOT 0x20 = (y OR 0x20) AND NOT 0x20" by simp
  then have "(x XOR y) AND NOT 0x20 = 0"
    by (simp add: bit_eq_iff bit_simps) metis
  from byte_case_bit[OF this] show ?thesis by (auto simp: bit_eq_iff bit_simps)
qed

lemma name_eq_iff:
  "0 \<notin> set s \<Longrightarrow> 0 \<notin> set nm \<Longrightarrow> meta_name_eq (s @ 0 # t) nm = Some (fold_name s = fold_name nm)"
proof (induction nm arbitrary: s)
  case Nil
  then show ?case by (cases s) auto
next
  case (Cons y nm)
  show ?case
  proof (cases s)
    case Nil
    with Cons.prems show ?thesis by (auto simp: tolower_letter)
  next
    case (Cons x s')
    have "(x \<noteq> y \<and> (x OR 0x20 \<noteq> y OR 0x20 \<or> x OR 0x20 < 0x61 \<or> x OR 0x20 > 0x7A)) \<longleftrightarrow> odfs_ascii_tolower x \<noteq> odfs_ascii_tolower y"
      by (auto simp: tolower_eq_iff letter_def not_le)
    with Cons.IH[of s'] Cons.prems Cons show ?thesis by simp
  qed
qed

section \<open>Entries\<close>

lemma pool_str_append: "pool_str p off = Some s \<Longrightarrow> pool_str (p @ q) off = Some s"
  by (auto simp: pool_str_def cstr_def takeWhile_append split: if_splits)

lemma pool_str_new:
  assumes "0 \<notin> set s" "length p < 2 ^ 32"
  shows "pool_str (p @ s @ [0] @ q) (of_nat (length p)) = Some s"
proof -
  have "unat (of_nat (length p) :: u32) = length p" using assms(2) by (simp add: unat_u32_of_nat)
  then show ?thesis using assms(1) cstr_append_nul[of s q] by (simp add: pool_str_def)
qed

lemma pool_strE:
  assumes "pool_str p off = Some s"
  obtains t where "drop (unat off) p = s @ 0 # t" "0 \<notin> set s" "unat off < length p"
proof -
  from assms have z: "0 \<in> set (drop (unat off) p)" and s: "s = takeWhile (\<lambda>c. c \<noteq> 0) (drop (unat off) p)"
    by (auto simp: pool_str_def cstr_def split: if_splits)
  have "dropWhile (\<lambda>c. c \<noteq> 0) (drop (unat off) p) \<noteq> []" using z by (auto simp: dropWhile_eq_Nil_conv)
  then obtain t where t: "dropWhile (\<lambda>c. c \<noteq> 0) (drop (unat off) p) = 0 # t"
    using hd_dropWhile[of "\<lambda>c. c \<noteq> 0" "drop (unat off) p"] by (cases "dropWhile (\<lambda>c. c \<noteq> 0) (drop (unat off) p)") auto
  have "drop (unat off) p = s @ 0 # t" using takeWhile_dropWhile_id[of "\<lambda>c. c \<noteq> 0" "drop (unat off) p"] s t by metis
  moreover have "0 \<notin> set s" using s by (auto dest: set_takeWhileD)
  moreover have "unat off < length p" using z by (metis drop_all empty_iff list.set(1) not_less)
  ultimately show thesis by (rule that)
qed

text \<open>An entry and the node it stands for.\<close>

definition entry_holds :: "u8 list \<Rightarrow> odfs_meta_entry \<Rightarrow> odfs_node \<Rightarrow> bool" where
  "entry_holds pool e n \<longleftrightarrow>
     me_lba e = lba (extent n) \<and> me_length e = extlen (extent n) \<and> me_size e = size n \<and> me_mtime e = mtime n \<and>
     me_ctime e = ctime n \<and> me_mode e = mode n \<and> me_kind e = kind n \<and> me_backend e = backend n \<and>
     pool_str pool (me_name_off e) = Some (name n) \<and>
     me_has_protection e = has_protection (amiga_as n) \<and>
     (has_protection (amiga_as n) \<longrightarrow> me_protection e = protection (amiga_as n)) \<and>
     me_has_comment e = has_comment (amiga_as n) \<and>
     (has_comment (amiga_as n) \<longrightarrow> pool_str pool (me_comment_off e) = Some (comment (amiga_as n)))"

lemma entry_holds_append: "entry_holds p e n \<Longrightarrow> entry_holds (p @ q) e n"
  by (auto simp: entry_holds_def pool_str_append)

lemma entry_holds_seen: "seen a = seen b \<Longrightarrow> entry_holds p e a = entry_holds p e b"
  using seen_fields[of a b] seen_fields[of b a] unfolding entry_holds_def by metis

lemma entry_holds_hash [simp]: "entry_holds p (e\<lparr>me_name_hash := h\<rparr>) n = entry_holds p e n"
  by (simp add: entry_holds_def)

lemma entry_to_node:
  assumes "entry_holds (md_pool d) e n" "node_ok n"
  shows "\<exists>n'. meta_entry_to_node d e out = Some n' \<and> seen n' = seen n \<and> node_id n' = me_id e \<and> parent_id n' = md_id d"
proof -
  obtain com where com: "(if me_has_comment e then do { s \<leftarrow> pool_str (md_pool d) (me_comment_off e); Some (take (ODFS_AMIGA_COMMENT_MAX - 1) s) }
      else Some (comment (amiga_as out))) = Some com" "has_comment (amiga_as n) \<longrightarrow> com = comment (amiga_as n)"
    using assms by (auto simp: entry_holds_def node_ok_def)
  show ?thesis
    using assms com by (cases n; cases "amiga_as n"; cases "extent n")
      (auto simp: meta_entry_to_node_def entry_holds_def node_ok_def seen_def seen_as_def)
qed

section \<open>Finding a name\<close>

definition holds :: "odfs_meta_dir \<Rightarrow> odfs_node list \<Rightarrow> bool" where
  "holds d ns \<longleftrightarrow> list_all2 (entry_holds (md_pool d)) (md_entries d) ns \<and> (\<forall>n \<in> set ns. node_ok n) \<and>
     (md_hashed d \<longrightarrow> list_all2 (\<lambda>e n. me_name_hash e = odfs_strcasehash (name n)) (md_entries d) ns)"

text \<open>The position of the first node with the name, from \<open>i\<close> on.\<close>

fun name_index :: "u8 list \<Rightarrow> odfs_node list \<Rightarrow> nat \<Rightarrow> nat option" where
  "name_index nm [] i = None"
| "name_index nm (n # ns) i = (if odfs_strcasecmp (name n) nm = 0 then Some i else name_index nm ns (Suc i))"

lemma name_index_lt: "name_index nm ns i = Some j \<Longrightarrow> i \<le> j \<and> j < i + length ns \<and> odfs_strcasecmp (name (ns ! (j - i))) nm = 0"
  by (induction ns arbitrary: i) (auto simp: nth_Cons' Suc_diff_le split: if_splits, force+)

lemma name_index_find: "map_option (\<lambda>i. ns ! i) (name_index nm ns 0) = find (\<lambda>n. odfs_strcasecmp (name n) nm = 0) ns"
proof -
  have "map_option (\<lambda>i. (zs @ ns) ! i) (name_index nm ns (length zs)) = find (\<lambda>n. odfs_strcasecmp (name n) nm = 0) ns" for zs
  proof (induction ns arbitrary: zs)
    case (Cons n ns)
    from Cons.IH[of "zs @ [n]"] show ?case by simp
  qed simp
  from this[of "[]"] show ?thesis by simp
qed

lemma entry_name_eq:
  assumes "entry_holds pool e n" "0 \<notin> set nm"
  shows "meta_name_eq (drop (unat (me_name_off e)) pool) nm = Some (odfs_strcasecmp (name n) nm = 0)"
    "\<exists>x. rd pool (unat (me_name_off e)) = Some x \<and> x = ch (name n)"
proof -
  from assms(1) have "pool_str pool (me_name_off e) = Some (name n)" by (simp add: entry_holds_def)
  then obtain t where t: "drop (unat (me_name_off e)) pool = name n @ 0 # t" "0 \<notin> set (name n)" "unat (me_name_off e) < length pool"
    by (rule pool_strE)
  show "meta_name_eq (drop (unat (me_name_off e)) pool) nm = Some (odfs_strcasecmp (name n) nm = 0)"
    using name_eq_iff[OF t(2) assms(2)] strcasecmp_0_iff[OF t(2) assms(2)] t(1) by simp
  have "pool ! unat (me_name_off e) = hd (drop (unat (me_name_off e)) pool)" using t(3) by (simp add: hd_drop_conv_nth)
  then show "\<exists>x. rd pool (unat (me_name_off e)) = Some x \<and> x = ch (name n)"
    using t by (cases "name n") auto
qed

lemma ch_fold: "fold_name a = fold_name b \<Longrightarrow> odfs_ascii_tolower (ch a) = odfs_ascii_tolower (ch b)"
  by (cases a; cases b) auto

lemma find_small_ok:
  assumes "list_all2 (entry_holds pool) es ns" "0 \<notin> set nm" "\<forall>n \<in> set ns. 0 \<notin> set (name n)"
  shows "find_small pool nm es i = Some (name_index nm ns i)"
  using assms(1,3)
proof (induction arbitrary: i rule: list_all2_induct)
  case (Cons e es n ns)
  from entry_name_eq[OF Cons.hyps(1) assms(2)] obtain x where
    m: "meta_name_eq (drop (unat (me_name_off e)) pool) nm = Some (odfs_strcasecmp (name n) nm = 0)"
    and x: "rd pool (unat (me_name_off e)) = Some x" "x = ch (name n)" by auto
  have n0: "0 \<notin> set (name n)" using Cons.prems by simp
  show ?case
  proof (cases "x \<noteq> ch nm \<and> x XOR ch nm \<noteq> 0x20")
    case True
    then have "fold_name (name n) \<noteq> fold_name nm" using ch_fold[of "name n" nm] tolower_xor[of x "ch nm"] x(2) by auto
    then have "odfs_strcasecmp (name n) nm \<noteq> 0" using strcasecmp_0_iff[OF n0 assms(2)] by simp
    with True x(1) Cons.IH Cons.prems show ?thesis by simp
  next
    case False
    with x(1) m Cons.IH Cons.prems show ?thesis by auto
  qed
qed simp

lemma find_hashed_ok:
  assumes "list_all2 (entry_holds pool) es ns" "0 \<notin> set nm" "\<forall>n \<in> set ns. 0 \<notin> set (name n)"
    "list_all2 (\<lambda>e n. me_name_hash e = odfs_strcasehash (name n)) es ns"
  shows "find_hashed pool nm (odfs_strcasehash_len nm (length nm)) es i = Some (name_index nm ns i)"
  using assms(1,3,4)
proof (induction arbitrary: i rule: list_all2_induct)
  case (Cons e es n ns)
  have h: "odfs_strcasehash_len nm (length nm) = odfs_strcasehash nm" using strcasehash_len[of "length nm" nm] assms(2) by simp
  have n0: "0 \<notin> set (name n)" using Cons.prems by simp
  have "odfs_strcasecmp (name n) nm = 0 \<Longrightarrow> me_name_hash e = odfs_strcasehash nm"
    using strcasehash_cong[OF n0 assms(2)] Cons.prems by simp
  with entry_name_eq(1)[OF Cons.hyps(1) assms(2)] Cons.IH Cons.prems show ?case by (auto simp: h)
qed simp

lemma hash_names_ok:
  assumes "list_all2 (entry_holds pool) es ns"
  shows "\<exists>es'. hash_names pool es = Some es' \<and> list_all2 (entry_holds pool) es' ns \<and>
    list_all2 (\<lambda>e n. me_name_hash e = odfs_strcasehash (name n)) es' ns \<and> map (\<lambda>e. e\<lparr>me_name_hash := 0\<rparr>) es' = map (\<lambda>e. e\<lparr>me_name_hash := 0\<rparr>) es"
  using assms
proof (induction rule: list_all2_induct)
  case (Cons e es n ns)
  then obtain es' where e: "hash_names pool es = Some es'" "list_all2 (entry_holds pool) es' ns"
    "list_all2 (\<lambda>e n. me_name_hash e = odfs_strcasehash (name n)) es' ns"
    "map (\<lambda>e. e\<lparr>me_name_hash := 0\<rparr>) es' = map (\<lambda>e. e\<lparr>me_name_hash := 0\<rparr>) es" by blast
  have "pool_str pool (me_name_off e) = Some (name n)" using Cons.hyps by (simp add: entry_holds_def)
  with e Cons.hyps(1) show ?case by simp
qed simp

text \<open>All but the entries' hashes.\<close>

definition unhashed :: "odfs_meta_dir \<Rightarrow> odfs_meta_dir" where
  "unhashed d = d\<lparr>md_hashed := False, md_entries := map (\<lambda>e. e\<lparr>me_name_hash := 0\<rparr>) (md_entries d)\<rparr>"

lemma find_name_ok:
  assumes "holds d ns" "0 \<notin> set nm"
  shows "\<exists>d'. meta_find_name d nm = Some (name_index nm ns 0, d') \<and> holds d' ns \<and> unhashed d' = unhashed d"
proof -
  have l: "list_all2 (entry_holds (md_pool d)) (md_entries d) ns" and ok: "\<forall>n \<in> set ns. node_ok n"
    using assms(1) by (auto simp: holds_def)
  have n0: "\<forall>n \<in> set ns. 0 \<notin> set (name n)" using ok by (simp add: node_ok_def)
  show ?thesis
  proof (cases "length (md_entries d) < META_LOOKUP_HASH_MIN")
    case True
    then show ?thesis using find_small_ok[OF l assms(2) n0] assms(1) by (simp add: meta_find_name_def)
  next
    case False
    obtain d' where d': "(if \<not> md_hashed d then do { es \<leftarrow> hash_names (md_pool d) (md_entries d);
          Some (d\<lparr>md_entries := es, md_hashed := True\<rparr>) } else Some d) = Some d'"
      "holds d' ns" "md_hashed d'" "unhashed d' = unhashed d"
      using hash_names_ok[OF l] assms(1) ok by (cases "md_hashed d") (auto simp: holds_def unhashed_def)
    then have "find_hashed (md_pool d') nm (odfs_strcasehash_len nm (length nm)) (md_entries d') 0 = Some (name_index nm ns 0)"
      using find_hashed_ok[OF _ assms(2) n0] by (simp add: holds_def)
    with d' False show ?thesis by (auto simp: meta_find_name_def)
  qed
qed

end
