(* ===== verification/Meta_Build.thy ===== *)
theory Meta_Build
  imports Meta_Names
begin

text \<open>
  Building the cached form of a directory: the arrays always have room for what is written to them,
  the loop that grows them ends, and the result holds the entries that were enumerated.
\<close>

section \<open>Growing the pool\<close>

lemma unat_pos: "x \<noteq> 0 \<Longrightarrow> 0 < unat (x :: u32)"
  by (simp add: word_gt_0 unat_gt_0)

lemma unat_double: "x \<noteq> 0 \<Longrightarrow> unat (x * 2) = unat x * 2 \<Longrightarrow> 0 < unat ((x :: u32) * 2)"
  using unat_pos[of x] by simp

lemma grow_ok: "0 < unat cap \<Longrightarrow> need \<le> 2 ^ 31 \<Longrightarrow> \<exists>cap'. iter (grow_body need) cap = Some cap' \<and> need \<le> unat cap'"
proof (induction "need - unat cap" arbitrary: cap rule: less_induct)
  case less
  show ?case
  proof (cases "unat cap < need")
    case True
    then have d: "unat (cap * 2) = unat cap * 2" using less.prems(2) by (simp add: unat_word_ariths)
    have "\<exists>cap'. iter (grow_body need) (cap * 2) = Some cap' \<and> need \<le> unat cap'"
      by (rule less.hyps) (use d True less.prems in auto)
    then show ?thesis using True by (subst iter.simps) (simp add: grow_body_def)
  next
    case False
    then show ?thesis by (subst iter.simps) (simp add: grow_body_def)
  qed
qed

text \<open>The pool after a string was added.\<close>

definition pool_added :: "meta_build_ctx \<Rightarrow> u8 list \<Rightarrow> u32 \<Rightarrow> meta_build_ctx \<Rightarrow> bool" where
  "pool_added bc s off bc' \<longleftrightarrow> off = of_nat (length (bc_pool bc)) \<and>
     (\<exists>cap. bc' = bc\<lparr>bc_pool_cap := cap, bc_pool := bc_pool bc @ s @ [0]\<rparr> \<and> length (bc_pool bc') \<le> unat cap)"

lemma pool_addedI:
  "length (bc_pool bc) + length s + 1 \<le> unat (bc_pool_cap bc) \<Longrightarrow>
   pool_added bc s (of_nat (length (bc_pool bc))) (bc\<lparr>bc_pool := bc_pool bc @ s @ [0]\<rparr>)"
  unfolding pool_added_def by (intro conjI refl exI[of _ "bc_pool_cap bc"]) simp_all

lemma pool_add_len_ok:
  assumes "length (bc_pool bc) + length s + 1 \<le> 2 ^ 31"
  shows "\<exists>off bc' h'. meta_pool_add_len bc h s = Some (off, bc', h') \<and> (off = META_NO_COMMENT \<and> bc' = bc \<or> pool_added bc s off bc')"
proof (cases "length (bc_pool bc) + (length s + 1) > unat (bc_pool_cap bc)")
  case True
  let ?cap = "if bc_pool_cap bc \<noteq> 0 then bc_pool_cap bc * 2 else 1024"
  have "unat (bc_pool_cap bc * 2) = unat (bc_pool_cap bc) * 2" using True assms by (simp add: unat_word_ariths)
  then have "0 < unat ?cap" using unat_double[of "bc_pool_cap bc"] by (cases "bc_pool_cap bc = 0") simp_all
  from grow_ok[OF this assms] obtain cap' where g: "iter (grow_body (length (bc_pool bc) + (length s + 1))) ?cap = Some cap'"
    "length (bc_pool bc) + length s + 1 \<le> unat cap'" by (auto simp: add.assoc)
  obtain ok h1 where m: "odfs_malloc h = (ok, h1)" by force
  have "pool_added bc s (of_nat (length (bc_pool bc))) (bc\<lparr>bc_pool_cap := cap', bc_pool := bc_pool bc @ s @ [0]\<rparr>)"
    using g(2) unfolding pool_added_def by (intro conjI refl exI[of _ cap']) simp_all
  then show ?thesis using True g(1) m by (cases ok) (auto simp: meta_pool_add_len_def Let_def)
next
  case False
  then show ?thesis using pool_addedI[of bc s] by (simp add: meta_pool_add_len_def Let_def)
qed

lemma pool_add_name_ok:
  assumes "length (bc_pool bc) + length s + 1 \<le> 2 ^ 31" "length s < ODFS_NAME_MAX"
  shows "\<exists>off bc' h'. meta_pool_add_name bc h s = Some (off, bc', h') \<and> (off = META_NO_COMMENT \<and> bc' = bc \<or> pool_added bc s off bc')"
proof (cases "of_nat (length (bc_pool bc)) + of_nat ODFS_NAME_MAX > bc_pool_cap bc")
  case True
  then show ?thesis using pool_add_len_ok[OF assms(1), of h] by (simp add: meta_pool_add_name_def meta_pool_add_def)
next
  case False
  have "unat (of_nat (length (bc_pool bc)) + of_nat ODFS_NAME_MAX :: u32) = length (bc_pool bc) + ODFS_NAME_MAX"
    using assms unfolding of_nat_add[symmetric] by (subst unat_u32_of_nat) (simp_all add: ODFS_NAME_MAX_def)
  with False have "length (bc_pool bc) + ODFS_NAME_MAX \<le> unat (bc_pool_cap bc)" by (simp add: word_le_nat_alt not_less)
  then show ?thesis using False assms(2) pool_addedI[of bc s] by (simp add: meta_pool_add_name_def)
qed

lemma pool_added_off:
  assumes "pool_added bc s off bc'" "length (bc_pool bc) < 2 ^ 31" "0 \<notin> set s"
  shows "off \<noteq> META_NO_COMMENT" "pool_str (bc_pool bc') off = Some s" "length (bc_pool bc') = length (bc_pool bc) + length s + 1"
proof -
  have "unat off = length (bc_pool bc)" using assms(1,2) by (auto simp: pool_added_def unat_u32_of_nat)
  then show "off \<noteq> META_NO_COMMENT" using assms(2) by (auto simp: META_NO_COMMENT_def)
  show "pool_str (bc_pool bc') off = Some s" "length (bc_pool bc') = length (bc_pool bc) + length s + 1"
    using assms pool_str_new[of s "bc_pool bc" "[]"] by (auto simp: pool_added_def)
qed

section \<open>One entry\<close>

text \<open>What is stored fits the arrays.\<close>

definition fits :: "meta_build_ctx \<Rightarrow> bool" where
  "fits bc \<longleftrightarrow> length (bc_entries bc) \<le> unat (bc_cap bc) \<and> length (bc_pool bc) \<le> unat (bc_pool_cap bc)"

definition packed_bytes :: "meta_build_ctx \<Rightarrow> nat" where
  "packed_bytes bc = META_DIR_BYTES + length (bc_entries bc) * META_ENTRY_BYTES + length (bc_pool bc)"

text \<open>The context of a build that has stored \<open>ns\<close> so far.\<close>

definition building :: "meta_build_ctx \<Rightarrow> odfs_node list \<Rightarrow> bool" where
  "building bc ns \<longleftrightarrow> list_all2 (entry_holds (bc_pool bc)) (bc_entries bc) ns \<and> fits bc \<and> unat (bc_budget bc) \<le> 2 ^ 30 \<and>
     (bc_entries bc = [] \<and> bc_pool bc = [] \<or> packed_bytes bc \<le> unat (bc_budget bc)) \<and> \<not> bc_failed bc \<and> \<not> bc_hung bc"

lemma building_small:
  assumes "building bc ns"
  shows "length (bc_pool bc) \<le> 2 ^ 30" "length (bc_entries bc) \<le> 2 ^ 30"
  using assms by (auto simp: building_def packed_bytes_def META_ENTRY_BYTES_def)

lemma build_grow_ok:
  assumes "building bc ns"
  shows "\<exists>ok cap h'. build_grow bc h = (ok, bc\<lparr>bc_cap := cap\<rparr>, h') \<and> (ok \<longrightarrow> length (bc_entries bc) < unat cap) \<and> (\<not> ok \<longrightarrow> fits (bc\<lparr>bc_cap := cap\<rparr>))"
proof (cases "of_nat (length (bc_entries bc)) \<ge> bc_cap bc")
  case True
  obtain ok h1 where m: "odfs_malloc h = (ok, h1)" by force
  have n: "unat (of_nat (length (bc_entries bc)) :: u32) = length (bc_entries bc)" using building_small(2)[OF assms] by (simp add: unat_u32_of_nat)
  have eq: "length (bc_entries bc) = unat (bc_cap bc)" using True assms n by (auto simp: building_def fits_def word_le_nat_alt)
  have "unat (bc_cap bc * 2) = unat (bc_cap bc) * 2" using eq building_small(2)[OF assms] by (simp add: unat_word_ariths)
  then have c: "length (bc_entries bc) < unat (if bc_cap bc \<noteq> 0 then bc_cap bc * 2 else 32)" using eq
    using unat_pos[of "bc_cap bc"] by (cases "bc_cap bc = 0") simp_all
  show ?thesis
  proof (cases ok)
    case True
    with \<open>of_nat (length (bc_entries bc)) \<ge> bc_cap bc\<close> m c show ?thesis unfolding build_grow_def by fastforce
  next
    case False
    have "build_grow bc h = (False, bc\<lparr>bc_cap := bc_cap bc\<rparr>, h1)"
      using False \<open>of_nat (length (bc_entries bc)) \<ge> bc_cap bc\<close> m by (simp add: build_grow_def)
    moreover have "fits (bc\<lparr>bc_cap := bc_cap bc\<rparr>)" using assms by (simp add: building_def)
    ultimately show ?thesis by blast
  qed
next
  case False
  have n: "unat (of_nat (length (bc_entries bc)) :: u32) = length (bc_entries bc)" using building_small(2)[OF assms] by (simp add: unat_u32_of_nat)
  have "build_grow bc h = (True, bc\<lparr>bc_cap := bc_cap bc\<rparr>, h)" using False by (simp add: build_grow_def)
  moreover have "length (bc_entries bc) < unat (bc_cap bc)" using False n by (simp add: word_le_nat_alt)
  ultimately show ?thesis by blast
qed

lemma build_grow_building: "building bc ns \<Longrightarrow> length (bc_entries bc) \<le> unat cap \<Longrightarrow> building (bc\<lparr>bc_cap := cap\<rparr>) ns"
  by (simp add: building_def fits_def packed_bytes_def)

text \<open>The comment, if there is one.\<close>

lemma build_comment_ok:
  assumes "length (bc_pool bc) + length (comment as) + 1 \<le> 2 ^ 31 \<or> \<not> has_comment as" "has_comment as \<longrightarrow> 0 \<notin> set (comment as)"
    "length (bc_pool bc) \<le> unat (bc_pool_cap bc)"
  shows "\<exists>off bc' h'. (if has_comment as then meta_pool_add bc h (comment as) else Some (META_NO_COMMENT, bc, h)) = Some (off, bc', h') \<and>
    (has_comment as \<and> off = META_NO_COMMENT \<and> bc' = bc \<or>
     \<not> (has_comment as \<and> off = META_NO_COMMENT) \<and>
     (\<exists>cap q. bc' = bc\<lparr>bc_pool_cap := cap, bc_pool := bc_pool bc @ q\<rparr> \<and> length (bc_pool bc @ q) \<le> unat cap \<and>
        (has_comment as \<longrightarrow> pool_str (bc_pool bc @ q) off = Some (comment as))))"
proof (cases "has_comment as")
  case True
  then have "length (bc_pool bc) + length (comment as) + 1 \<le> 2 ^ 31" using assms(1) by simp
  from pool_add_len_ok[OF this, of h] obtain off bc' h' where
    p: "meta_pool_add_len bc h (comment as) = Some (off, bc', h')" "off = META_NO_COMMENT \<and> bc' = bc \<or> pool_added bc (comment as) off bc'" by blast
  show ?thesis
  proof (cases "off = META_NO_COMMENT \<and> bc' = bc")
    case False
    then have a: "pool_added bc (comment as) off bc'" using p(2) by blast
    note o = pool_added_off[OF a]
    from a obtain cap where c: "bc' = bc\<lparr>bc_pool_cap := cap, bc_pool := bc_pool bc @ comment as @ [0]\<rparr>" "length (bc_pool bc') \<le> unat cap"
      by (auto simp: pool_added_def)
    have "off \<noteq> META_NO_COMMENT" "pool_str (bc_pool bc') off = Some (comment as)" using o assms True by simp_all
    then show ?thesis using True p(1) c by (auto simp: meta_pool_add_def intro!: exI[of _ cap] exI[of _ "comment as @ [0]"])
  qed (use True p in \<open>auto simp: meta_pool_add_def\<close>)
next
  case False
  then show ?thesis using assms(3) by (auto intro!: exI[of _ "bc_pool_cap bc"] exI[of _ "[]"])
qed

text \<open>What a step leaves alone.\<close>

definition same_flags :: "meta_build_ctx \<Rightarrow> meta_build_ctx \<Rightarrow> bool" where
  "same_flags bc bc' \<longleftrightarrow> bc_budget bc' = bc_budget bc \<and> bc_hung bc' = bc_hung bc \<and> bc_failed bc' = bc_failed bc"

text \<open>Room for \<open>ns\<close> and one more entry, with \<open>q\<close> added to the pool.\<close>

definition room_for :: "meta_build_ctx \<Rightarrow> meta_build_ctx \<Rightarrow> u8 list \<Rightarrow> bool" where
  "room_for bc bc' q \<longleftrightarrow> bc_entries bc' = bc_entries bc \<and> bc_pool bc' = bc_pool bc @ q \<and> length (bc_entries bc) < unat (bc_cap bc') \<and>
     length (bc_pool bc') \<le> unat (bc_pool_cap bc') \<and> same_flags bc bc'"

lemma room_fits: "room_for bc bc' q \<Longrightarrow> fits bc'"
  by (auto simp: room_for_def fits_def)

lemma room_stored:
  assumes "building bc ns" "room_for bc bc' q" "entry_holds (bc_pool bc @ q) x n"
    "packed_bytes (bc'\<lparr>bc_entries := bc_entries bc' @ [x]\<rparr>) \<le> unat (bc_budget bc')"
  shows "building (bc'\<lparr>bc_entries := bc_entries bc' @ [x]\<rparr>) (ns @ [n])"
proof -
  have "list_all2 (entry_holds (bc_pool bc @ q)) (bc_entries bc) ns"
    using assms(1) entry_holds_append by (auto simp: building_def elim: list_all2_mono)
  then have "list_all2 (entry_holds (bc_pool bc @ q)) (bc_entries bc @ [x]) (ns @ [n])"
    using assms(3) by (intro list_all2_appendI) auto
  then show ?thesis using assms by (auto simp: building_def room_for_def fits_def same_flags_def)
qed

lemma build_entry_ok:
  assumes b: "building bc ns" and n: "node_ok n" "seen e = seen n"
  shows "\<exists>ok bc' h'. build_entry bc h e = Some (ok, bc', h') \<and> fits bc' \<and> same_flags bc bc' \<and> (ok \<longrightarrow> building bc' (ns @ [n]))"
proof -
  have e: "node_ok e" using n seen_node_ok by blast
  then have nm: "0 \<notin> set (name e)" "length (name e) < ODFS_NAME_MAX" by (auto simp: node_ok_def)
  note sm = building_small[OF b]
  have fb: "fits bc" using b by (simp add: building_def)
  obtain ok1 cap h1 where g: "build_grow bc h = (ok1, bc\<lparr>bc_cap := cap\<rparr>, h1)" "ok1 \<longrightarrow> length (bc_entries bc) < unat cap"
    "\<not> ok1 \<longrightarrow> fits (bc\<lparr>bc_cap := cap\<rparr>)"
    using build_grow_ok[OF b, of h] by blast
  show ?thesis
  proof (cases ok1)
    case False
    then show ?thesis using g b by (auto simp: build_entry_def same_flags_def)
  next
    case True
    define bc1 where "bc1 = bc\<lparr>bc_cap := cap\<rparr>"
    have r1: "room_for bc bc1 []" using g True fb by (auto simp: bc1_def room_for_def same_flags_def fits_def)
    have "length (bc_pool bc1) + length (name e) + 1 \<le> 2 ^ 31" using sm nm by (simp add: bc1_def ODFS_NAME_MAX_def)
    from pool_add_name_ok[OF this nm(2), of h1] obtain off bc2 h2 where
      a: "meta_pool_add_name bc1 h1 (name e) = Some (off, bc2, h2)" "off = META_NO_COMMENT \<and> bc2 = bc1 \<or> pool_added bc1 (name e) off bc2" by blast
    show ?thesis
    proof (cases "off = META_NO_COMMENT \<and> bc2 = bc1")
      case True
      then show ?thesis using g(1) \<open>ok1\<close> a r1 room_fits[OF r1] by (auto simp: build_entry_def bc1_def[symmetric] room_for_def)
    next
      case False
      with a(2) have pa: "pool_added bc1 (name e) off bc2" by blast
      have "length (bc_pool bc1) < 2 ^ 31" using sm by (simp add: bc1_def)
      note o = pool_added_off[OF pa this nm(1)]
      have r2: "room_for bc bc2 (name e @ [0])" using r1 pa by (auto simp: room_for_def pool_added_def same_flags_def)
      have small: "length (bc_pool bc2) + length (comment (amiga_as e)) + 1 \<le> 2 ^ 31 \<or> \<not> has_comment (amiga_as e)"
        using r2 sm nm e by (auto simp: room_for_def node_ok_def ODFS_NAME_MAX_def ODFS_AMIGA_COMMENT_MAX_def)
      have cm: "has_comment (amiga_as e) \<longrightarrow> 0 \<notin> set (comment (amiga_as e))" using e by (simp add: node_ok_def)
      have "length (bc_pool bc2) \<le> unat (bc_pool_cap bc2)" using r2 unfolding room_for_def by blast
      from build_comment_ok[OF small cm this, of h2] obtain coff bc3 h3 where
        c: "(if has_comment (amiga_as e) then meta_pool_add bc2 h2 (comment (amiga_as e)) else Some (META_NO_COMMENT, bc2, h2)) = Some (coff, bc3, h3)"
        "has_comment (amiga_as e) \<and> coff = META_NO_COMMENT \<and> bc3 = bc2 \<or> \<not> (has_comment (amiga_as e) \<and> coff = META_NO_COMMENT) \<and>
         (\<exists>cap q. bc3 = bc2\<lparr>bc_pool_cap := cap, bc_pool := bc_pool bc2 @ q\<rparr> \<and> length (bc_pool bc2 @ q) \<le> unat cap \<and>
           (has_comment (amiga_as e) \<longrightarrow> pool_str (bc_pool bc2 @ q) coff = Some (comment (amiga_as e))))" by blast
      show ?thesis
      proof (cases "has_comment (amiga_as e) \<and> coff = META_NO_COMMENT")
        case True
        then have "bc3 = bc2" using c(2) by blast
        then show ?thesis using True g(1) \<open>ok1\<close> a(1) o(1) c(1) r2 room_fits[OF r2]
          by (auto simp: build_entry_def bc1_def[symmetric] room_for_def)
      next
        case False
        with c(2) obtain q where r3: "room_for bc bc3 ((name e @ [0]) @ q)"
          and q: "has_comment (amiga_as e) \<longrightarrow> pool_str (bc_pool bc3) coff = Some (comment (amiga_as e))" "bc_pool bc3 = bc_pool bc2 @ q"
          using r2 by (auto simp: room_for_def same_flags_def)
        define x where "x = \<lparr>me_id = node_id e, me_lba = lba (extent e), me_length = extlen (extent e),
                           me_size = size e, me_mtime = mtime e, me_ctime = ctime e, me_mode = mode e,
                           me_name_off = off, me_name_hash = 0, me_comment_off = coff,
                           me_kind = kind e, me_backend = backend e,
                           me_has_protection = has_protection (amiga_as e), me_has_comment = has_comment (amiga_as e),
                           me_protection = (if has_protection (amiga_as e) then protection (amiga_as e) else [])\<rparr>"
        define bc4 where "bc4 = bc3\<lparr>bc_entries := bc_entries bc3 @ [x]\<rparr>"
        have "pool_str (bc_pool bc3) off = Some (name e)" using o(2) q(2) pool_str_append by simp
        then have "entry_holds (bc_pool bc3) x e" using q(1) by (simp add: entry_holds_def x_def)
        then have eh: "entry_holds (bc_pool bc @ ((name e @ [0]) @ q)) x n" using entry_holds_seen[OF n(2)] r3 by (simp add: room_for_def)
        have f4: "fits bc4" "same_flags bc bc4" using r3 by (auto simp: bc4_def room_for_def fits_def same_flags_def)
        have res: "build_entry bc h e = Some (if packed_bytes bc4 > unat (bc_budget bc4) then (False, bc4\<lparr>bc_too_big := True\<rparr>, h3) else (True, bc4, h3))"
          using False g(1) \<open>ok1\<close> a(1) o(1) c(1)
          by (auto simp: build_entry_def bc1_def[symmetric] Let_def x_def[symmetric] bc4_def packed_bytes_def)
        show ?thesis
        proof (cases "packed_bytes bc4 > unat (bc_budget bc4)")
          case True
          then show ?thesis using res f4 by (auto simp: fits_def same_flags_def)
        next
          case False
          then show ?thesis using res f4 room_stored[OF b r3 eh] by (auto simp: bc4_def)
        qed
      qed
    qed
  qed
qed

section \<open>The whole directory\<close>

lemma served_build:
  assumes "served faulty meta_build_cb ns s err s' k" "s = Ctx_build bc" "building bc ms" "\<forall>n \<in> set ns. node_ok n"
  shows "\<exists>bc'. s' = Ctx_build bc' \<and> \<not> bc_hung bc' \<and> bc_budget bc' = bc_budget bc \<and> (\<not> bc_failed bc' \<and> err = ODFS_OK \<longrightarrow> building bc' (ms @ ns))"
  using assms
proof (induction arbitrary: bc ms rule: served.induct)
  case (step e n s h s1 h1 ns err s' k)
  from build_entry_ok[OF step.prems(2) _ step.hyps(1), of h] step.prems(3) obtain ok bc1 h2 where
    b: "build_entry bc h e = Some (ok, bc1, h2)" "same_flags bc bc1" "ok \<longrightarrow> building bc1 (ms @ [n])" by auto
  from step.hyps(2) b step.prems(1) have "ok" "s1 = Ctx_build bc1" by (auto simp: meta_build_cb_def split: if_splits)
  with step.IH[of bc1 "ms @ [n]"] step.prems b show ?case by (simp add: same_flags_def)
next
  case (stop e n s h err s' h1 ns)
  from build_entry_ok[OF stop.prems(2) _ stop.hyps(1), of h] stop.prems(3) obtain ok bc1 h2 where
    b: "build_entry bc h e = Some (ok, bc1, h2)" "same_flags bc bc1" by auto
  with stop show ?case by (auto simp: meta_build_cb_def same_flags_def building_def split: if_splits)
qed (auto simp: building_def)

lemma build_start_ok:
  assumes "build_start budget len h = (bc, h')" "unat budget \<le> 2 ^ 30"
  shows "building bc []" "bc_budget bc = budget"
  using assms by (auto simp: build_start_def building_def fits_def Let_def split: prod.splits)

lemma packed_holds:
  assumes "building bc ns" "\<forall>n \<in> set ns. node_ok n"
  shows "holds (packed_dir dir bc) ns" "unat (md_bytes (packed_dir dir bc)) = packed_bytes bc"
proof -
  show "holds (packed_dir dir bc) ns" using assms by (auto simp: holds_def packed_dir_def building_def)
  have "packed_bytes bc \<le> 2 ^ 30 \<or> packed_bytes bc = META_DIR_BYTES" using assms by (auto simp: building_def packed_bytes_def)
  then have "packed_bytes bc < 2 ^ 32" by (auto simp: META_DIR_BYTES_def)
  then show "unat (md_bytes (packed_dir dir bc)) = packed_bytes bc"
    by (simp add: packed_dir_def packed_bytes_def[symmetric] unat_u32_of_nat)
qed

end
