(* ===== verification/Meta_Facts.thy ===== *)
theory Meta_Facts
  imports Meta_Build
begin

text \<open>
  The directory cache in front of a source of directories.  The invariant says that the objects
  alive are those of the list, that their bytes add up to the total and stay within the budget, and
  that each holds the entries its directory has.
\<close>

section \<open>The invariant\<close>

definition md_key :: "odfs_meta_dir \<Rightarrow> dir_key" where
  "md_key d = (md_lba d, md_length d, md_backend d)"

definition meta_inv :: "(dir_key \<Rightarrow> odfs_node list option) \<Rightarrow> odfs_meta_cache \<Rightarrow> nat list \<Rightarrow> nat set \<Rightarrow> bool" where
  "meta_inv listing mc xs lone \<longleftrightarrow> links mc xs \<and> {i. live mc i} = set xs \<union> lone \<and> unat (mc_total mc) = held mc xs \<and>
     mc_total mc \<le> mc_budget mc \<and> unat (mc_budget mc) \<le> 2 ^ 30 \<and>
     length (mc_oversize_lba mc) = ODFS_META_OVERSIZE_SLOTS \<and> length (mc_oversize_len mc) = ODFS_META_OVERSIZE_SLOTS \<and>
     (\<forall>i \<in> set xs. \<exists>d ns. view mc i = Some d \<and> listing (md_key d) = Some ns \<and> holds d ns)"

lemma meta_invD:
  assumes "meta_inv listing mc xs lone"
  shows "links mc xs" "unat (mc_total mc) = held mc xs" "mc_total mc \<le> mc_budget mc" "unat (mc_budget mc) \<le> 2 ^ 30"
    "\<And>i. live mc i \<longleftrightarrow> i \<in> set xs \<union> lone"
    "\<And>i. i \<in> set xs \<Longrightarrow> \<exists>d ns. view mc i = Some d \<and> listing (md_key d) = Some ns \<and> holds d ns"
  using assms by (auto simp: meta_inv_def)

lemma holds_core [simp]: "holds (core_dir d) ns = holds d ns" "md_key (core_dir d) = md_key d" "md_bytes (core_dir d) = md_bytes d"
  by (simp_all add: holds_def core_dir_def md_key_def)

lemma held_set: "distinct xs \<Longrightarrow> held mc xs = (\<Sum>i \<in> set xs. bytes mc i)"
  by (simp add: held_def sum_list_distinct_conv_sum_set)

lemma live_eq_view: "view mc' = view mc \<Longrightarrow> live mc' = live mc"
  by (auto simp: live_view fun_eq_iff)

lemma inv_move:
  assumes i: "meta_inv listing mc xs lone" and "links mc' xs'" "set xs' = set xs" "view mc' = view mc" "frame mc mc'" "mc_total mc' = mc_total mc"
  shows "meta_inv listing mc' xs' lone"
proof -
  have "held mc' xs' = held mc xs"
    using held_set[OF links_distinct[OF assms(2)]] held_set[OF links_distinct[OF meta_invD(1)[OF i]]] assms(3,4)
    by (simp add: bytes_def)
  then show ?thesis using assms live_eq_view[OF assms(4)] by (simp add: meta_inv_def frame_def)
qed

lemma inv_same_list:
  assumes "meta_inv listing mc xs lone" "same_list mc xs mc'"
  obtains xs' where "meta_inv listing mc' xs' lone" "set xs' = set xs"
  using inv_move[OF assms(1)] assms(2) unfolding same_list_def by blast

lemma inv_stat [simp]: "meta_inv listing (count_stat f mc) xs lone = meta_inv listing mc xs lone"
proof -
  have "live (count_stat f mc) = live mc" by (rule live_eq_view) simp
  moreover have "held (count_stat f mc) xs = held mc xs" by (rule held_view) simp
  moreover have "mc_oversize_lba (count_stat f mc) = mc_oversize_lba mc" "mc_oversize_len (count_stat f mc) = mc_oversize_len mc"
    by (simp_all add: count_stat_def)
  ultimately show ?thesis by (simp add: meta_inv_def)
qed

lemma links_objs:
  assumes "mc_objs mc' = mc_objs mc" "mc_head mc' = mc_head mc" "mc_tail mc' = mc_tail mc"
  shows "links mc' xs = links mc xs" "view mc' = view mc"
proof -
  have "mnx mc' = mnx mc" "mpv mc' = mpv mc" "live mc' = live mc" using assms by (auto simp: mnx_def mpv_def live_def fun_eq_iff)
  then show "links mc' xs = links mc xs" using assms by (simp add: links_def)
  show "view mc' = view mc" using assms by (auto simp: view_def fun_eq_iff)
qed

lemma oversize_note_same: "links (oversize_note mc dir) xs = links mc xs" "view (oversize_note mc dir) = view mc"
  "frame mc (oversize_note mc dir)" "mc_total (oversize_note mc dir) = mc_total mc"
proof -
  have "mc_objs (oversize_note mc dir) = mc_objs mc" "mc_head (oversize_note mc dir) = mc_head mc" "mc_tail (oversize_note mc dir) = mc_tail mc"
    by (simp_all add: oversize_note_def Let_def)
  from links_objs[OF this] show "links (oversize_note mc dir) xs = links mc xs" "view (oversize_note mc dir) = view mc" by auto
  show "frame mc (oversize_note mc dir)" "mc_total (oversize_note mc dir) = mc_total mc"
    by (simp_all add: oversize_note_def Let_def frame_def)
qed

lemma inv_oversize: "meta_inv listing mc xs lone \<Longrightarrow> meta_inv listing (oversize_note mc dir) xs lone"
  by (rule inv_move) (use oversize_note_same in \<open>auto dest: meta_invD(1)\<close>)

text \<open>A new object, not yet in the list.\<close>

lemma mnew_same:
  assumes "mnew d mc = (p, mc')"
  shows "p = int (length (mc_objs mc))" "view mc' = (view mc)(length (mc_objs mc) := Some (core_dir d))"
    "mc_total mc' = mc_total mc" "mc_budget mc' = mc_budget mc" "mget mc' p = Some d"
    "links mc xs \<Longrightarrow> links mc' xs"
proof -
  have mc': "mc' = mc\<lparr>mc_objs := mc_objs mc @ [Some d]\<rparr>" and p: "p = int (length (mc_objs mc))" using assms by (auto simp: mnew_def)
  show "p = int (length (mc_objs mc))" by (rule p)
  show "view mc' = (view mc)(length (mc_objs mc) := Some (core_dir d))" by (auto simp: mc' view_def fun_eq_iff nth_append)
  show "mc_total mc' = mc_total mc" "mc_budget mc' = mc_budget mc" "mget mc' p = Some d" by (simp_all add: mc' p)
  show "links mc' xs" if l: "links mc xs"
  proof -
    have lt: "i < length (mc_objs mc)" if "i \<in> set xs" for i using live_lt[OF links_live[OF l that]] by simp
    have "dll (mnx mc') (mpv mc') (mc_head mc') (mc_tail mc') xs = dll (mnx mc) (mpv mc) (mc_head mc) (mc_tail mc) xs"
      using dll_cong[of xs "mnx mc'" "mnx mc" "mpv mc'" "mpv mc"] lt by (simp add: mc' mnx_def mpv_def nth_append)
    moreover have "live mc' i" if "i \<in> set xs" for i using links_live[OF l that] lt[OF that] by (auto simp: live_def mc' nth_append)
    ultimately show ?thesis using l by (auto simp: links_def)
  qed
qed

text \<open>Linking a new object in: trimming makes room for its bytes.\<close>

lemma inv_insert:
  assumes i: "meta_inv listing mc xs {}" and n: "mnew d mc = (p, mc1)" and d: "listing (md_key d) = Some ns" "holds d ns"
    and b: "md_bytes d \<le> mc_budget mc"
  shows "\<exists>mc2 mc3 xs'. meta_trim (count_stat f mc1\<lparr>mc_total := mc_total mc1 + md_bytes d\<rparr>) = Some mc2 \<and>
    meta_push_head mc2 p = Some mc3 \<and> meta_inv listing mc3 xs' {} \<and> view mc3 (nat p) = Some (core_dir d) \<and> nat p \<in> set xs' \<and>
    mc_budget mc3 = mc_budget mc"
proof -
  let ?p = "length (mc_objs mc)"
  define m where "m = count_stat f mc1\<lparr>mc_total := mc_total mc1 + md_bytes d\<rparr>"
  note v = meta_invD[OF i] and nw = mnew_same[OF n]
  have np: "?p \<notin> set xs" using live_lt[OF links_live[OF v(1)]] by blast
  have vm: "view m = (view mc)(?p := Some (core_dir d))" using nw(2) by (simp add: m_def)
  have l1: "links m xs" using nw(6)[OF v(1)] by (simp add: m_def)
  have fm: "mc_budget m = mc_budget mc" "mc_oversize_lba m = mc_oversize_lba mc" "mc_oversize_len m = mc_oversize_len mc"
    using n by (auto simp: m_def count_stat_def mnew_def)
  have h: "held m xs = held mc xs" by (rule held_view) (use np vm in auto)
  have bn: "unat (md_bytes d) \<le> unat (mc_budget mc)" "unat (mc_total mc) \<le> unat (mc_budget mc)" using b v(3) by (simp_all add: word_le_nat_alt)
  then have t: "unat (mc_total m) = held m xs + unat (md_bytes d)"
    using v(2,4) nw(3) h by (simp add: m_def unat_word_ariths)
  have "unat (md_bytes d) \<le> unat (mc_budget m)" using bn fm by simp
  from trim_ok[OF l1 t this] obtain mc2 xs2 where
    t2: "meta_trim m = Some mc2" "links mc2 xs2" "set xs2 \<subseteq> set xs" "unat (mc_total mc2) = held mc2 xs2 + unat (md_bytes d)"
      "mc_total mc2 \<le> mc_budget mc2" "frame m mc2" "\<forall>i. view mc2 i = (if i \<in> set xs - set xs2 then None else view m i)" by blast
  have p2: "?p \<notin> set xs2" "view mc2 ?p = Some (core_dir d)" using t2(3,7) np vm by auto
  then have "live mc2 ?p" by (simp add: live_view)
  from push_links[OF t2(2) p2(1) this] obtain mc3 where
    p3: "meta_push_head mc2 (int ?p) = Some mc3" "links mc3 (?p # xs2)" "rest mc3 = rest mc2" by blast
  note r3 = rest_view[OF p3(3)]
  have f: "frame m mc3" using frame_trans[OF t2(6) r3(2)] .
  have "held mc3 (?p # xs2) = unat (md_bytes d) + held mc2 xs2"
    using held_view[of xs2 mc3 mc2] r3(1) p2(2) by (simp add: held_def bytes_def)
  moreover have "{i. live mc3 i} = set (?p # xs2)"
    using v(5) t2(3,7) vm r3(1) np by (auto simp: live_view split: if_splits)
  moreover have "\<exists>d ns. view mc3 i = Some d \<and> listing (md_key d) = Some ns \<and> holds d ns" if "i \<in> set (?p # xs2)" for i
  proof (cases "i = ?p")
    case True
    then show ?thesis using p2(2) r3(1) d by auto
  next
    case False
    then have ix: "i \<in> set xs2" using that by simp
    then have "view mc3 i = view mc i" using False t2(7) vm r3(1) by simp
    then show ?thesis using v(6)[of i] ix t2(3) by auto
  qed
  ultimately have "meta_inv listing mc3 (?p # xs2) {}"
    using p3(2) t2(4,5) f fm v(4) i r3 unfolding meta_inv_def frame_def by auto
  moreover have "view mc3 ?p = Some (core_dir d)" using p2(2) r3(1) by simp
  moreover have "mc_budget mc3 = mc_budget mc" using f fm by (simp add: frame_def)
  ultimately show ?thesis using t2(1) p3(1) nw(1) by (auto simp: m_def[symmetric] intro!: exI[of _ mc2] exI[of _ mc3] exI[of _ "?p # xs2"])
qed

section \<open>Getting a directory\<close>

locale cached_source = dir_source ops inv listing faults
  for ops :: "('m, 'b, 'u cb_ctx) odfs_backend_ops" and inv and listing and faults
begin

lemma build_ok:
  assumes i: "meta_inv listing mc xs {}" and b: "inv b c" "listing (dir_key dir) = Some ns"
  shows "\<exists>d too_big mc' b' c' h'. meta_build mc ops b c h dir = Some ((d, too_big, mc'), b', c', h') \<and> inv b' c' \<and>
    (d = -1 \<and> (\<exists>f. mc' = count_stat f mc) \<or>
     (\<exists>x f mc1. mnew x mc = (d, mc1) \<and> mc' = count_stat f mc1 \<and> md_key x = dir_key dir \<and> holds x ns))"
proof -
  obtain bc h1 where s: "build_start (mc_budget mc) (extlen (extent dir)) h = (bc, h1)" by force
  note bs = build_start_ok[OF s meta_invD(4)[OF i]]
  from readdir_served[OF b, of h1 meta_build_cb "Ctx_build bc"] obtain err res s' b' c' h' k where
    r: "be_readdir ops b c h1 dir meta_build_cb (Ctx_build bc) 0 = Some ((err, res, s'), b', c', h')" "inv b' c'"
       "served faults meta_build_cb ns (Ctx_build bc) err s' k" by blast
  have ok: "\<forall>n \<in> set ns. node_ok n" using listing_ok[OF b(2)] by blast
  from served_build[OF r(3) refl bs(1) ok] obtain bc' where
    b': "s' = Ctx_build bc'" "\<not> bc_hung bc'" "\<not> bc_failed bc' \<and> err = ODFS_OK \<longrightarrow> building bc' ns" by auto
  show ?thesis
  proof (cases "bc_failed bc' \<or> err \<noteq> ODFS_OK")
    case True
    then show ?thesis using s r b' by (simp add: meta_build_def Let_def) blast
  next
    case False
    obtain ok h2 where m: "odfs_malloc h' = (ok, h2)" by force
    obtain p mc1 where n: "mnew (packed_dir dir bc') mc = (p, mc1)" by force
    have "holds (packed_dir dir bc') ns" using packed_holds(1) b'(3) False ok by blast
    moreover have "md_key (packed_dir dir bc') = dir_key dir" by (simp add: packed_dir_def md_key_def dir_key_def)
    ultimately show ?thesis using s r b' m n False by (cases ok) (auto simp: meta_build_def Let_def)
  qed
qed

text \<open>The directory got: none, one of the list, or a lone object too big for the budget.\<close>

definition got :: "odfs_node \<Rightarrow> odfs_node list \<Rightarrow> int \<Rightarrow> bool \<Rightarrow> odfs_meta_cache \<Rightarrow> bool" where
  "got dir ns d orphan mc \<longleftrightarrow>
     d = -1 \<and> \<not> orphan \<and> (\<exists>xs. meta_inv listing mc xs {}) \<or>
     (\<exists>i xs x. d = int i \<and> mget mc d = Some x \<and> md_key x = dir_key dir \<and> holds x ns \<and>
        (if orphan then i \<notin> set xs \<and> meta_inv listing mc xs {i} else i \<in> set xs \<and> meta_inv listing mc xs {}))"

lemma got_some:
  "mget mc (int i) = Some x \<Longrightarrow> md_key x = dir_key dir \<Longrightarrow> holds x ns \<Longrightarrow>
   (if orphan then i \<notin> set xs \<and> meta_inv listing mc xs {i} else i \<in> set xs \<and> meta_inv listing mc xs {}) \<Longrightarrow>
   got dir ns (int i) orphan mc"
  unfolding got_def by blast

lemma inv_lone:
  assumes i: "meta_inv listing mc xs {}" and n: "mnew d mc = (p, mc1)"
  shows "meta_inv listing mc1 xs {nat p}" "nat p \<notin> set xs"
proof -
  note v = meta_invD[OF i] and nw = mnew_same[OF n]
  have np: "length (mc_objs mc) \<notin> set xs" using live_lt[OF links_live[OF v(1)]] by blast
  then show "nat p \<notin> set xs" using nw(1) by simp
  have h: "held mc1 xs = held mc xs" by (rule held_view) (use np nw(2) in auto)
  have "{j. live mc1 j} = set xs \<union> {nat p}" using v(5) nw(1,2) by (auto simp: live_view split: if_splits)
  moreover have "mc_oversize_lba mc1 = mc_oversize_lba mc" "mc_oversize_len mc1 = mc_oversize_len mc" using n by (auto simp: mnew_def)
  moreover have "view mc1 j = view mc j" if "j \<in> set xs" for j using np nw(2) that by auto
  ultimately show "meta_inv listing mc1 xs {nat p}" using i h nw(3,4) nw(6)[OF v(1)] unfolding meta_inv_def by simp
qed

lemma mget_view: "view mc i = Some (core_dir d) \<Longrightarrow> \<exists>x. mget mc (int i) = Some x \<and> core_dir x = core_dir d"
  by (auto simp: view_Some)

lemma core_holds: "core_dir x = core_dir d \<Longrightarrow> holds x ns = holds d ns \<and> md_key x = md_key d"
  by (metis holds_core(1,2))

lemma get_ok:
  assumes i: "meta_inv listing mc xs {}" and b: "inv b c" "listing (dir_key dir) = Some ns"
  shows "\<exists>d orphan mc' b' c' h'. meta_get mc ops b c h dir = Some ((d, orphan, mc'), b', c', h') \<and> inv b' c' \<and>
    mc_budget mc' = mc_budget mc \<and> got dir ns d orphan mc'"
  using meta_invD(1)[OF i]
proof (cases rule: find_ok[where l = "lba (extent dir)" and len = "extlen (extent dir)" and be = "backend dir", case_names none found])
  case (found j mc1)
  obtain xs' where x: "meta_inv listing mc1 xs' {}" "set xs' = set xs" using inv_same_list[OF i found(4)] .
  from found(3,4) obtain d where d: "view mc1 j = Some d" "md_key d = dir_key dir" by (auto simp: keyed_def same_list_def md_key_def dir_key_def)
  then have h: "holds d ns" using meta_invD(6)[OF x(1), of j] found(2) x(2) b(2) by auto
  from d(1) obtain z where z: "mget mc1 (int j) = Some z" "core_dir z = d" by (auto simp: view_Some)
  have "got dir ns (int j) False (count_stat f mc1)" for f
  proof -
    have "mget (count_stat f mc1) (int j) = Some z" using z(1) by (simp add: count_stat_def split: if_splits)
    moreover have "md_key z = dir_key dir" "holds z ns" using z(2) d(2) h by auto
    moreover have "j \<in> set xs'" "meta_inv listing (count_stat f mc1) xs' {}" using found(2) x by simp_all
    ultimately show ?thesis by (intro got_some[where xs = xs']) simp_all
  qed
  moreover have "mc_budget mc1 = mc_budget mc" using found(4) by (simp add: same_list_def frame_def)
  ultimately show ?thesis using found(1) b(1) by (auto simp: meta_get_def meta_find_def)
next
  case none
  define m where "m = count_stat (\<lambda>s. s\<lparr>ms_misses := ms_misses s + 1\<rparr>) mc"
  have im: "meta_inv listing m xs {}" "mc_budget m = mc_budget mc" using i by (simp_all add: m_def)
  show ?thesis
  proof (cases "oversize_known m dir")
    case True
    then show ?thesis using none im b by (auto simp: meta_get_def meta_find_def Let_def m_def[symmetric] got_def)
  next
    case False
    from build_ok[OF im(1) b, of h] obtain d too_big mc1 b' c' h' where
      bd: "meta_build m ops b c h dir = Some ((d, too_big, mc1), b', c', h')" "inv b' c'"
        "d = -1 \<and> (\<exists>f. mc1 = count_stat f m) \<or> (\<exists>x f mc2. mnew x m = (d, mc2) \<and> mc1 = count_stat f mc2 \<and> md_key x = dir_key dir \<and> holds x ns)" by blast
    from bd(3) show ?thesis
    proof
      assume "d = -1 \<and> (\<exists>f. mc1 = count_stat f m)"
      then obtain f where d: "d = -1" "mc1 = count_stat f m" by blast
      then have "meta_inv listing (if too_big then oversize_note mc1 dir else mc1) xs {}" using im inv_oversize by auto
      moreover have "mc_budget (if too_big then oversize_note mc1 dir else mc1) = mc_budget mc"
        using d im oversize_note_same(3)[of mc1 dir] by (simp add: frame_def)
      ultimately show ?thesis using none False bd(1,2) d by (auto simp: meta_get_def meta_find_def Let_def m_def[symmetric] got_def)
    next
      assume "\<exists>x f mc2. mnew x m = (d, mc2) \<and> mc1 = count_stat f mc2 \<and> md_key x = dir_key dir \<and> holds x ns"
      then obtain x f mc2 where n: "mnew x m = (d, mc2)" "mc1 = count_stat f mc2" "md_key x = dir_key dir" "holds x ns" by blast
      note nw = mnew_same[OF n(1)]
      have d: "d \<noteq> -1" "d = int (nat d)" using nw(1) by simp_all
      have g: "mget mc1 d = Some x" "mc_budget mc1 = mc_budget mc" using nw(4,5) n(2) im(2) by (simp_all add: count_stat_def mget_def split: if_splits)
      show ?thesis
      proof (cases "md_bytes x > mc_budget mc")
        case True
        have "meta_inv listing mc1 xs {nat d}" "nat d \<notin> set xs" using inv_lone[OF im(1) n(1)] n(2) by simp_all
        then have "got dir ns (int (nat d)) True mc1" using n(3,4) g(1) d(2) by (intro got_some[where xs = xs]) simp_all
        then have "got dir ns d True mc1" using d(2) by simp
        then show ?thesis using none False bd(1,2) d g True by (auto simp: meta_get_def meta_find_def Let_def m_def[symmetric])
      next
        case False
        have "md_bytes x \<le> mc_budget m" using False im(2) by simp
        from inv_insert[OF im(1) n(1) _ n(4) this, of f] n(3) b(2) obtain mc3 mc4 xs' where
          t: "meta_trim (mc1\<lparr>mc_total := mc_total mc1 + md_bytes x\<rparr>) = Some mc3" "meta_push_head mc3 d = Some mc4"
            "meta_inv listing mc4 xs' {}" "view mc4 (nat d) = Some (core_dir x)" "nat d \<in> set xs'" "mc_budget mc4 = mc_budget m"
          by (auto simp: n(2))
        from mget_view[OF t(4)] obtain z where z: "mget mc4 (int (nat d)) = Some z" "core_dir z = core_dir x" by blast
        then have "got dir ns (int (nat d)) False mc4" using core_holds[OF z(2)] n(3,4) t(3,5)
          by (intro got_some[where xs = xs' and x = z]) simp_all
        then have "got dir ns d False mc4" using d(2) by simp
        then show ?thesis using none \<open>\<not> oversize_known m dir\<close> False bd(1,2) d g t im(2)
          by (auto simp: meta_get_def meta_find_def Let_def m_def[symmetric])
      qed
    qed
  qed
qed

end

end
