(* ===== verification/Meta_Serve.thy ===== *)
theory Meta_Serve
  imports Meta_Facts
begin

text \<open>
  Serving listings and lookups from the directory cache: what the callback sees and what a lookup
  returns are the entries the directory has, whether they come from the cache or from the source.
\<close>

section \<open>Cookies\<close>

definition cookie :: "nat \<Rightarrow> u32" where
  "cookie i = ODFS_META_COOKIE_TAG OR of_nat i"

lemma tag_mask: "NOT ODFS_META_COOKIE_TAG = mask 31" "ODFS_META_COOKIE_TAG AND mask 31 = 0"
  by (simp_all add: ODFS_META_COOKIE_TAG_def mask_eq_exp_minus_1)

lemma cookie_tagged: "cookie i AND ODFS_META_COOKIE_TAG \<noteq> 0" "cookie i \<noteq> 0"
proof -
  have "cookie i AND ODFS_META_COOKIE_TAG = ODFS_META_COOKIE_TAG" by (simp add: cookie_def bit_eq_iff bit_simps)
  then show "cookie i AND ODFS_META_COOKIE_TAG \<noteq> 0" by (simp add: ODFS_META_COOKIE_TAG_def)
  then show "cookie i \<noteq> 0" by auto
qed

lemma cookie_index: "i < 2 ^ 31 \<Longrightarrow> unat (cookie i AND NOT ODFS_META_COOKIE_TAG) = i"
proof -
  assume i: "i < 2 ^ 31"
  have "cookie i AND NOT ODFS_META_COOKIE_TAG = take_bit 31 (of_nat i)"
    unfolding cookie_def tag_mask(1) word_ao_dist tag_mask(2) take_bit_eq_mask by simp
  then show ?thesis using i by (simp add: unsigned_take_bit_eq unat_u32_of_nat take_bit_nat_eq_self)
qed

section \<open>Replaying\<close>

lemma holds_nth:
  assumes "holds d ns" "i < length ns"
  shows "\<exists>n. meta_entry_to_node d (md_entries d ! i) out = Some n \<and> seen n = seen (ns ! i)"
proof -
  have "entry_holds (md_pool d) (md_entries d ! i) (ns ! i)" "node_ok (ns ! i)"
    using assms by (auto simp: holds_def list_all2_conv_all_nth)
  from entry_to_node[OF this, of out] show ?thesis by blast
qed

lemma holds_length: "holds d ns \<Longrightarrow> length (md_entries d) = length ns"
  by (auto simp: holds_def dest: list_all2_lengthD)

lemma replay_ok:
  assumes "holds d ns"
  shows "\<exists>err s' h' k. replay_loop junk d cb s h i = Some (err, cookie (min i (length ns) + k), s', h') \<and>
    served {} cb (drop i ns) s err s' k"
proof (induction "length ns - i" arbitrary: i s h)
  case 0
  then have "replay_loop junk d cb s h i = Some (ODFS_OK, cookie (min i (length ns) + 0), s, h)" using holds_length[OF assms]
    by (subst replay_loop.simps) (auto simp: cookie_def min_def)
  moreover have "served {} cb (drop i ns) s ODFS_OK s 0" using 0 by (simp add: served.all)
  ultimately show ?case by blast
next
  case (Suc m)
  then have i: "i < length ns" by simp
  from holds_nth[OF assms i, of "junk i"] obtain n where n: "meta_entry_to_node d (md_entries d ! i) (junk i) = Some n" "seen n = seen (ns ! i)" by blast
  obtain err s1 h1 where c: "cb n s h = (err, s1, h1)" by (cases "cb n s h") auto
  have dr: "drop i ns = ns ! i # drop (Suc i) ns" using i by (simp add: Cons_nth_drop_Suc)
  show ?case
  proof (cases "err = ODFS_OK")
    case True
    have "m = length ns - Suc i" using Suc.hyps(2) by simp
    from Suc.hyps(1)[OF this, of s1 h1] obtain err2 s' h' k where
      r: "replay_loop junk d cb s1 h1 (Suc i) = Some (err2, cookie (min (Suc i) (length ns) + k), s', h')" "served {} cb (drop (Suc i) ns) s1 err2 s' k" by blast
    have "replay_loop junk d cb s h i = Some (err2, cookie (min i (length ns) + Suc k), s', h')"
      using i n(1) c True r(1) holds_length[OF assms] by (subst replay_loop.simps) (simp add: min_def)
    moreover have "served {} cb (drop i ns) s err2 s' (Suc k)"
      unfolding dr by (rule served.step[OF n(2) _ r(2)]) (use c True in simp)
    ultimately show ?thesis by blast
  next
    case False
    have "replay_loop junk d cb s h i = Some (err, cookie (min i (length ns) + Suc 0), s1, h1)"
      using i n(1) c False holds_length[OF assms] by (subst replay_loop.simps) (simp add: cookie_def min_def)
    moreover have "served {} cb (drop i ns) s err s1 (Suc 0)"
      unfolding dr using n(2) c False by (rule served.stop)
    ultimately show ?thesis by blast
  qed
qed

section \<open>Skipping\<close>

lemma served_skip:
  assumes "served faulty (meta_skip_cb cb) ns s err s' k" "s = Ctx_skip sc" "unat (sc_index sc) + length ns < 2 ^ 32" "sc_skip sc = sk"
    "\<not> sc_stopped sc"
  shows "\<exists>sc' k'. s' = Ctx_skip sc' \<and> unat (sc_index sc') = unat (sc_index sc) + k \<and> (sc_stopped sc' \<longrightarrow> sc_err sc' = err) \<and>
    served faulty cb (drop (unat sk - unat (sc_index sc)) ns) (sc_ctx sc) err (sc_ctx sc') k' \<and>
    k' = k - (unat sk - unat (sc_index sc))"
  using assms
proof (induction arbitrary: sc rule: served.induct)
  case (failed err ns s)
  then show ?case by (auto intro: served.failed)
next
  case (step e n s h s1 h1 ns err s' k)
  let ?sc = "sc\<lparr>sc_index := sc_index sc + 1\<rparr>"
  have ix: "unat (sc_index sc + 1) = unat (sc_index sc) + 1" using step.prems(2) by (simp add: unat_word_ariths)
  show ?case
  proof (cases "sc_index sc < sk")
    case True
    then have s1: "s1 = Ctx_skip ?sc" using step.hyps(2) step.prems by (simp add: meta_skip_cb_def Let_def)
    have lt: "unat (sc_index sc) < unat sk" using True by (simp add: word_less_nat_alt)
    then have d: "unat sk - unat (sc_index sc) = Suc (unat sk - unat (sc_index ?sc))" using ix by simp
    from step.IH[OF s1] step.prems ix show ?thesis unfolding d by fastforce
  next
    case False
    then have z: "unat sk - unat (sc_index sc) = 0" "unat sk - unat (sc_index ?sc) = 0" using ix by (simp_all add: word_less_nat_alt)
    obtain err1 u h2 where c: "cb e (sc_ctx sc) h = (err1, u, h2)" by (cases "cb e (sc_ctx sc) h") auto
    then have s1: "s1 = Ctx_skip (?sc\<lparr>sc_ctx := u\<rparr>)" "err1 = ODFS_OK" using False step.hyps(2) step.prems by (auto simp: meta_skip_cb_def Let_def)
    from step.IH[OF s1(1)] step.prems ix obtain sc' where
      i: "s' = Ctx_skip sc'" "unat (sc_index sc') = unat (sc_index sc) + 1 + k" "sc_stopped sc' \<longrightarrow> sc_err sc' = err"
      "served faulty cb ns u err (sc_ctx sc') k" using z by auto
    have "served faulty cb (n # ns) (sc_ctx sc) err (sc_ctx sc') (Suc k)" using served.step[OF step.hyps(1) _ i(4)] c s1(2) by blast
    with i z show ?thesis by auto
  qed
next
  case (stop e n s h err s' h1 ns)
  have ix: "unat (sc_index sc + 1) = unat (sc_index sc) + 1" using stop.prems(2) by (simp add: unat_word_ariths)
  have f: "\<not> sc_index sc < sk" using stop.hyps(2,3) stop.prems by (auto simp: meta_skip_cb_def Let_def)
  then have z: "unat sk - unat (sc_index sc) = 0" by (simp add: word_less_nat_alt)
  obtain err1 u h2 where c: "cb e (sc_ctx sc) h = (err1, u, h2)" by (cases "cb e (sc_ctx sc) h") auto
  then have "err1 = err" "s' = Ctx_skip (sc\<lparr>sc_index := sc_index sc + 1, sc_ctx := u, sc_stopped := True, sc_err := err\<rparr>)"
    using f stop.hyps(2,3) stop.prems by (auto simp: meta_skip_cb_def Let_def)
  with served.stop[OF stop.hyps(1) _ stop.hyps(3), of cb "sc_ctx sc" h u h2] c ix z show ?case by auto
qed (auto intro: served.all)

context cached_source
begin

lemma skip_ok:
  assumes b: "inv b c" "listing (dir_key dir) = Some ns" and l: "length ns < 2 ^ 31" "i < 2 ^ 31"
  shows "\<exists>err res s' b' c' h' k. meta_skip ops b c h dir cb s (cookie i) = Some ((err, res, s'), b', c', h') \<and> inv b' c' \<and>
    served faults cb (drop i ns) s err s' k \<and> (err = ODFS_OK \<or> 0 < k \<longrightarrow> res = cookie (min i (length ns) + k))"
proof -
  let ?sc = "\<lparr>sc_skip = cookie i AND NOT ODFS_META_COOKIE_TAG, sc_index = 0, sc_ctx = s, sc_err = ODFS_OK, sc_stopped = False\<rparr>"
  from readdir_served[OF b, of h "meta_skip_cb cb" "Ctx_skip ?sc"] obtain err res s' b' c' h' k where
    r: "be_readdir ops b c h dir (meta_skip_cb cb) (Ctx_skip ?sc) 0 = Some ((err, res, s'), b', c', h')" "inv b' c'"
       "served faults (meta_skip_cb cb) ns (Ctx_skip ?sc) err s' k" by blast
  from served_skip[OF r(3) refl] l obtain sc' where
    k: "s' = Ctx_skip sc'" "unat (sc_index sc') = k" "sc_stopped sc' \<longrightarrow> sc_err sc' = err"
      "served faults cb (drop i ns) s err (sc_ctx sc') (k - i)" using cookie_index[OF l(2)] by auto
  have "sc_index sc' = of_nat k" using k(2) by auto
  moreover have "min i (length ns) + (k - i) = k" if "err = ODFS_OK \<or> 0 < k - i"
    using that served_bound[OF r(3)] served_all[of faults "meta_skip_cb cb" ns "Ctx_skip ?sc" s' k] r(3) by (auto simp: min_def)
  ultimately have "err = ODFS_OK \<or> 0 < k - i \<longrightarrow> ODFS_META_COOKIE_TAG OR sc_index sc' = cookie (min i (length ns) + (k - i))"
    by (simp add: cookie_def)
  then show ?thesis using r(1,2) k by (auto simp: meta_skip_def)
qed

end

section \<open>Changing an object in place\<close>

lemma inv_free:
  assumes i: "meta_inv listing mc xs {i}" "i \<notin> set xs"
  shows "\<exists>mc'. mfree (int i) mc = Some mc' \<and> meta_inv listing mc' xs {} \<and> mc_budget mc' = mc_budget mc"
proof -
  note v = meta_invD[OF i(1)]
  define mc' where "mc' = mput mc (int i) None"
  from v(5)[of i] have l: "i < length (mc_objs mc)" "mc_objs mc ! i \<noteq> None" by (auto dest: live_lt)
  then have f: "mfree (int i) mc = Some mc'" by (auto simp: mfree_def mc'_def)
  have vw: "view mc' = (view mc)(i := None)" using l by (auto simp: view_def mc'_def mput_def fun_eq_iff nth_list_update)
  have "mc_objs mc' ! j = mc_objs mc ! j" if "j \<in> set xs" for j using i(2) that by (cases "i = j") (simp_all add: mc'_def mput_def)
  then have "mnx mc' j = mnx mc j" "mpv mc' j = mpv mc j" if "j \<in> set xs" for j using that by (simp_all add: mnx_def mpv_def)
  then have "dll (mnx mc') (mpv mc') (mc_head mc') (mc_tail mc') xs = dll (mnx mc) (mpv mc) (mc_head mc') (mc_tail mc') xs"
    using dll_cong[of xs "mnx mc'" "mnx mc" "mpv mc'" "mpv mc"] by blast
  moreover have "mc_head mc' = mc_head mc" "mc_tail mc' = mc_tail mc" by (simp_all add: mc'_def mput_def)
  moreover have "live mc' j \<longleftrightarrow> j \<in> set xs" for j using v(5)[of j] vw i(2) by (auto simp: live_view)
  ultimately have lk: "links mc' xs" "{j. live mc' j} = set xs \<union> {}" using v(1) by (auto simp: links_def)
  have h: "held mc' xs = held mc xs" by (rule held_view) (use i(2) vw in auto)
  have "mc_budget mc' = mc_budget mc" "mc_total mc' = mc_total mc" "mc_oversize_lba mc' = mc_oversize_lba mc" "mc_oversize_len mc' = mc_oversize_len mc"
    by (simp_all add: mc'_def mput_def)
  moreover have "view mc' j = view mc j" if "j \<in> set xs" for j using i(2) vw that by auto
  ultimately have "meta_inv listing mc' xs {}" "mc_budget mc' = mc_budget mc" using i(1) h lk unfolding meta_inv_def by simp_all
  with f show ?thesis by blast
qed

lemma unhashed_fields:
  assumes "unhashed x' = unhashed x"
  shows "md_prev x' = md_prev x" "md_next x' = md_next x" "md_bytes x' = md_bytes x" "md_key x' = md_key x" "md_id x' = md_id x"
proof -
  let ?f = "\<lambda>d. (md_prev d, md_next d, md_bytes d, md_key d, md_id d)"
  have "?f (unhashed x') = ?f (unhashed x)" using assms by simp
  then show "md_prev x' = md_prev x" "md_next x' = md_next x" "md_bytes x' = md_bytes x" "md_key x' = md_key x" "md_id x' = md_id x"
    by (simp_all add: unhashed_def md_key_def)
qed

lemma inv_hash:
  assumes i: "meta_inv listing mc xs lone" and x: "mget mc (int i) = Some x" "unhashed x' = unhashed x"
    and h: "listing (md_key x) = Some ns" "holds x' ns"
  shows "meta_inv listing (mput mc (int i) (Some x')) xs lone"
proof -
  note u = unhashed_fields[OF x(2)]
  have l: "i < length (mc_objs mc)" "mc_objs mc ! i = Some x" using x(1) by (auto split: if_splits)
  have e: "mput mc (int i) (Some x') = set_obj i x' mc" by (simp add: mput_def set_obj_def)
  have lk: "links (set_obj i x' mc) xs" using set_obj_links[OF l u(1,2)] meta_invD(1)[OF i] by simp
  have v: "view (set_obj i x' mc) = (view mc)(i := Some (core_dir x'))" "view mc i = Some (core_dir x)"
    using set_obj_view[OF l(1)] l by (auto simp: view_Some)
  have "bytes (set_obj i x' mc) = bytes mc" using v u(3) by (auto simp: bytes_def fun_eq_iff)
  then have "held (set_obj i x' mc) xs = held mc xs" by (simp add: held_def)
  moreover have "live (set_obj i x' mc) = live mc" using v by (auto simp: live_view fun_eq_iff)
  moreover have "\<exists>d ns. view (set_obj i x' mc) j = Some d \<and> listing (md_key d) = Some ns \<and> holds d ns" if j: "j \<in> set xs" for j
  proof (cases "j = i")
    case True
    then show ?thesis using v h u(4) by auto
  next
    case False
    then show ?thesis using meta_invD(6)[OF i j] v by auto
  qed
  moreover have "mc_oversize_lba (set_obj i x' mc) = mc_oversize_lba mc" "mc_oversize_len (set_obj i x' mc) = mc_oversize_len mc"
    by (simp_all add: set_obj_def)
  ultimately show ?thesis using i lk unfolding e meta_inv_def by simp
qed

section \<open>Listing and looking up\<close>

context cached_source
begin

definition consistent :: "odfs_meta_cache \<Rightarrow> bool" where
  "consistent mc \<longleftrightarrow> (\<exists>xs. meta_inv listing mc xs {})"

lemma got_cases:
  assumes "got dir ns d orphan mc"
  obtains (none) "d = -1" "consistent mc"
  | (hit) x i xs where "d = int i" "mget mc (int i) = Some x" "holds x ns" "md_key x = dir_key dir"
      "orphan \<Longrightarrow> i \<notin> set xs" "meta_inv listing mc xs (if orphan then {i} else {})"
  using assms unfolding got_def consistent_def by (auto split: if_splits)

text \<open>Putting the object aside: an orphan is freed.\<close>

lemma drop_orphan:
  assumes "meta_inv listing mc xs (if orphan then {i} else {})" "orphan \<Longrightarrow> i \<notin> set xs"
  shows "\<exists>mc'. (if orphan then mfree (int i) mc else Some mc) = Some mc' \<and> consistent mc' \<and> mc_budget mc' = mc_budget mc"
  using assms inv_free[of listing mc xs i] unfolding consistent_def by (cases orphan) auto

lemma readdir_ok:
  assumes "consistent mc" "inv b c" "listing (dir_key dir) = Some ns" "length ns < 2 ^ 31"
    and res: "resume = 0 \<and> i = 0 \<or> resume = cookie i \<and> i < 2 ^ 31"
  shows "\<exists>err res s' mc' b' c' h'. odfs_meta_readdir junk mc ops b c h dir cb s resume = Some ((err, res, s', mc'), b', c', h') \<and>
    consistent mc' \<and> inv b' c' \<and> mc_budget mc' = mc_budget mc \<and>
    (err = ODFS_ERR_UNSUPPORTED \<and> resume = 0 \<and> res = 0 \<and> s' = s \<or>
     (\<exists>k. served faults cb (drop i ns) s err s' k \<and> (err = ODFS_OK \<or> 0 < k \<longrightarrow> res = cookie (min i (length ns) + k))))"
proof -
  define tagged where "tagged \<longleftrightarrow> resume AND ODFS_META_COOKIE_TAG \<noteq> 0"
  have t: "tagged \<longleftrightarrow> resume \<noteq> 0" "tagged \<longrightarrow> resume = cookie i \<and> i < 2 ^ 31"
    using res cookie_tagged[of i] by (auto simp: tagged_def)
  have ix: "(if resume \<noteq> 0 then unat (resume AND NOT ODFS_META_COOKIE_TAG) else 0) = i"
    using res cookie_tagged(2)[of i] cookie_index[of i] by auto
  obtain xs where i: "meta_inv listing mc xs {}" using assms(1) by (auto simp: consistent_def)
  show ?thesis
  proof (cases "\<not> meta_dir_cacheable mc dir \<and> \<not> tagged")
    case True
    then show ?thesis using t assms(1,2) by (simp add: odfs_meta_readdir_def tagged_def[symmetric])
  next
    case nt: False
    have "\<exists>d orphan mc1 b1 c1 h1. (if \<not> meta_dir_cacheable mc dir then Some ((-1, False, mc), b, c, h) else meta_get mc ops b c h dir) =
      Some ((d, orphan, mc1), b1, c1, h1) \<and> inv b1 c1 \<and> mc_budget mc1 = mc_budget mc \<and> got dir ns d orphan mc1"
      using get_ok[OF i assms(2,3), of h] assms(2) i by (cases "meta_dir_cacheable mc dir") (auto simp: got_def)
    then obtain d orphan mc1 b1 c1 h1 where
      g: "(if \<not> meta_dir_cacheable mc dir then Some ((-1, False, mc), b, c, h) else meta_get mc ops b c h dir) = Some ((d, orphan, mc1), b1, c1, h1)"
        "inv b1 c1" "mc_budget mc1 = mc_budget mc" "got dir ns d orphan mc1" by blast
    have unfold: "odfs_meta_readdir junk mc ops b c h dir cb s resume =
      (if d \<noteq> -1 then do {
          x \<leftarrow> mget mc1 d;
          (err, resume, s, h) \<leftarrow> meta_replay junk x cb s h1 resume;
          mc \<leftarrow> (if orphan then mfree d mc1 else Some mc1);
          Some ((err, resume, s, mc), b1, c1, h) }
        else if \<not> tagged then Some ((ODFS_ERR_UNSUPPORTED, resume, s, mc1), b1, c1, h1)
        else do {
          ((err, resume, s), b, c, h) \<leftarrow> meta_skip ops b1 c1 h1 dir cb s resume;
          Some ((err, resume, s, mc1), b, c, h) })"
      using nt t(1) g(1) by (auto simp: odfs_meta_readdir_def tagged_def[symmetric])
    from g(4) show ?thesis
    proof (cases rule: got_cases)
      case none
      show ?thesis
      proof (cases tagged)
        case True
        then have "resume = cookie i" "i < 2 ^ 31" using t by auto
        with skip_ok[OF g(2) assms(3,4), of i h1 cb s] obtain err res s' b' c' h' k where
          k: "meta_skip ops b1 c1 h1 dir cb s resume = Some ((err, res, s'), b', c', h')" "inv b' c'"
            "served faults cb (drop i ns) s err s' k" "err = ODFS_OK \<or> 0 < k \<longrightarrow> res = cookie (min i (length ns) + k)" by blast
        have "odfs_meta_readdir junk mc ops b c h dir cb s resume = Some ((err, res, s', mc1), b', c', h')"
          unfolding unfold using none(1) True k(1) by simp
        then show ?thesis using k(2-4) none(2) g(3) by blast
      next
        case False
        then show ?thesis unfolding unfold using none g t by simp
      qed
    next
      case (hit x j ys)
      from replay_ok[OF hit(3), of junk cb s h1 i] obtain err s' h' k where
        r: "meta_replay junk x cb s h1 resume = Some (err, cookie (min i (length ns) + k), s', h')" "served {} cb (drop i ns) s err s' k"
        by (auto simp: meta_replay_def ix)
      from drop_orphan[OF hit(6,5)] obtain mc2 where
        o: "(if orphan then mfree (int j) mc1 else Some mc1) = Some mc2" "consistent mc2" "mc_budget mc2 = mc_budget mc1" by auto
      have "odfs_meta_readdir junk mc ops b c h dir cb s resume = Some ((err, cookie (min i (length ns) + k), s', mc2), b1, c1, h')"
        unfolding unfold using hit(1,2) r(1) o(1) by (cases orphan) (auto simp del: mget_int)
      then show ?thesis using served_faulty[OF r(2)] o(2,3) g(2,3) by auto
    qed
  qed
qed

lemma lookup_ok:
  assumes "consistent mc" "inv b c" "listing (dir_key dir) = Some ns" "0 \<notin> set nm"
  shows "\<exists>r mc' b' c' h'. odfs_meta_lookup mc ops b c h dir nm out = Some ((r, mc'), b', c', h') \<and>
    consistent mc' \<and> inv b' c' \<and> mc_budget mc' = mc_budget mc \<and>
    (r = Inl ODFS_ERR_UNSUPPORTED \<or>
     (case find (\<lambda>n. odfs_strcasecmp (name n) nm = 0) ns of
        None \<Rightarrow> r = Inl ODFS_ERR_NOT_FOUND
      | Some n \<Rightarrow> \<exists>n'. r = Inr n' \<and> seen n' = seen n))"
proof (cases "meta_dir_cacheable mc dir")
  case False
  then show ?thesis using assms by (simp add: odfs_meta_lookup_def)
next
  case True
  obtain xs where i: "meta_inv listing mc xs {}" using assms(1) by (auto simp: consistent_def)
  from get_ok[OF i assms(2,3), of h] obtain d orphan mc1 b1 c1 h1 where
    g: "meta_get mc ops b c h dir = Some ((d, orphan, mc1), b1, c1, h1)" "inv b1 c1" "mc_budget mc1 = mc_budget mc" "got dir ns d orphan mc1" by blast
  from g(4) show ?thesis
  proof (cases rule: got_cases)
    case none
    then show ?thesis using True g by (auto simp: odfs_meta_lookup_def)
  next
    case (hit x j ys)
    from find_name_ok[OF hit(3) assms(4)] obtain x' where
      f: "meta_find_name x nm = Some (name_index nm ns 0, x')" "holds x' ns" "unhashed x' = unhashed x" by blast
    have "meta_inv listing (mput mc1 (int j) (Some x')) ys (if orphan then {j} else {})"
      using inv_hash[OF hit(6,2) f(3) _ f(2)] hit(4) assms(3) by simp
    then obtain mc2 where o: "(if orphan then mfree (int j) (mput mc1 (int j) (Some x')) else Some (mput mc1 (int j) (Some x'))) = Some mc2"
      "consistent mc2" "mc_budget mc2 = mc_budget mc1" using drop_orphan[of "mput mc1 (int j) (Some x')" ys orphan j] hit(5) by (auto simp: mput_def)
    show ?thesis
    proof (cases "name_index nm ns 0")
      case None
      then have "find (\<lambda>n. odfs_strcasecmp (name n) nm = 0) ns = None" using name_index_find[where ns = ns and nm = nm] by simp
      then show ?thesis using True g hit(1,2) f o None by (cases orphan) (auto simp: odfs_meta_lookup_def Let_def simp del: mget_int)
    next
      case (Some k)
      then have k: "k < length ns" "find (\<lambda>n. odfs_strcasecmp (name n) nm = 0) ns = Some (ns ! k)"
        using name_index_find[where ns = ns and nm = nm] name_index_lt[OF Some] by auto
      from holds_nth[OF f(2) k(1), of out] obtain n where n: "meta_entry_to_node x' (md_entries x' ! k) out = Some n" "seen n = seen (ns ! k)" by blast
      have "odfs_meta_lookup mc ops b c h dir nm out = Some ((Inr n, mc2), b1, c1, h1)"
        using True g hit(1,2) f o Some n by (cases orphan) (auto simp: odfs_meta_lookup_def Let_def simp del: mget_int)
      then show ?thesis using k n o g by auto
    qed
  qed
qed

end

end
