(* ===== verification/Meta_Path.thy ===== *)
theory Meta_Path
  imports Meta_Serve
begin

text \<open>
  Resolving a whole path from the directory cache, and flushing the cache.
\<close>

section \<open>The walk along a path\<close>

text \<open>The names of a path; one slash may follow the last.\<close>

function path_names :: "u8 list \<Rightarrow> u8 list list" where
  "path_names p = (let nm = takeWhile (\<lambda>c. c \<noteq> 0x2F) p; rest = drop (length nm) p in
     nm # (if rest = [] \<or> tl rest = [] then [] else path_names (tl rest)))"
  by pat_completeness auto
termination by (relation "measure length") (auto simp: neq_Nil_conv)

declare path_names.simps [simp del]

text \<open>The nodes along the names, starting from the entries \<open>ns\<close>.\<close>

fun walk :: "(dir_key \<Rightarrow> odfs_node list option) \<Rightarrow> odfs_node list \<Rightarrow> u8 list list \<Rightarrow> odfs_err + odfs_node list" where
  "walk listing ns [] = Inr []"
| "walk listing ns (nm # nms) =
     (case find (\<lambda>n. odfs_strcasecmp (name n) nm = 0) ns of
        None \<Rightarrow> Inl ODFS_ERR_NOT_FOUND
      | Some n \<Rightarrow>
          if nms = [] then Inr [n]
          else if kind n \<noteq> ODFS_NODE_DIR then Inl ODFS_ERR_NOT_DIR
          else (case listing (dir_key n) of
                  None \<Rightarrow> Inl ODFS_ERR_UNSUPPORTED
                | Some ns' \<Rightarrow> map_sum id ((#) n) (walk listing ns' nms)))"

text \<open>A slot of the ring and the node it stands for.\<close>

definition refers :: "(dir_key \<Rightarrow> odfs_node list option) \<Rightarrow> odfs_meta_cache \<Rightarrow> int \<times> nat \<Rightarrow> odfs_node \<Rightarrow> bool" where
  "refers listing mc r n \<longleftrightarrow> (\<exists>j d ns. fst r = int j \<and> view mc j = Some d \<and> listing (md_key d) = Some ns \<and> holds d ns \<and>
     snd r < length ns \<and> ns ! snd r = n)"

lemma refers_hash:
  assumes "refers listing mc r n" "mget mc (int i) = Some x" "unhashed x' = unhashed x" "listing (md_key x) = Some ns" "holds x' ns"
  shows "refers listing (mput mc (int i) (Some x')) r n"
proof -
  have l: "i < length (mc_objs mc)" "mc_objs mc ! i = Some x" using assms(2) by (auto split: if_splits)
  have "mput mc (int i) (Some x') = set_obj i x' mc" by (simp add: mput_def set_obj_def)
  then have v: "view (mput mc (int i) (Some x')) = (view mc)(i := Some (core_dir x'))" "view mc i = Some (core_dir x)"
    using set_obj_view[OF l(1)] l by (auto simp: view_Some)
  from assms(1) obtain j d ms where r: "fst r = int j" "view mc j = Some d" "listing (md_key d) = Some ms" "holds d ms"
    "snd r < length ms" "ms ! snd r = n" by (auto simp: refers_def)
  show ?thesis
  proof (cases "j = i")
    case True
    then have "d = core_dir x" using r(2) v(2) by simp
    then have "ms = ns" using r(3) assms(4) by simp
    with r True v assms(4,5) unhashed_fields(4)[OF assms(3)] show ?thesis unfolding refers_def by auto
  next
    case False
    with r v show ?thesis unfolding refers_def by auto
  qed
qed

lemma refers_node:
  assumes "refers listing mc (p, i) n"
  shows "\<exists>x e n'. mget mc p = Some x \<and> rd (md_entries x) i = Some e \<and> meta_entry_to_node x e out = Some n' \<and> seen n' = seen n"
proof -
  from assms obtain j x ns where r: "p = int j" "mget mc (int j) = Some x" "holds x ns" "i < length ns" "ns ! i = n"
    by (auto simp: refers_def view_Some)
  from holds_nth[OF r(3,4), of out] r holds_length[OF r(3)] show ?thesis by (auto simp del: mget_int)
qed

text \<open>The ring holds the last three nodes.\<close>

definition ring_holds :: "(dir_key \<Rightarrow> odfs_node list option) \<Rightarrow> odfs_meta_cache \<Rightarrow> (int \<times> nat) list \<Rightarrow> odfs_node list \<Rightarrow> bool" where
  "ring_holds listing mc ring ns \<longleftrightarrow> length ring = 3 \<and> (\<forall>m < length ns. length ns \<le> m + 3 \<longrightarrow> refers listing mc (ring ! (m mod 3)) (ns ! m))"

lemma ring_holds_mono:
  "ring_holds listing mc ring ns \<Longrightarrow> (\<And>r n. refers listing mc r n \<Longrightarrow> refers listing mc' r n) \<Longrightarrow> ring_holds listing mc' ring ns"
  by (auto simp: ring_holds_def)

lemma ring_holds_snoc:
  assumes "ring_holds listing mc ring ns" "refers listing mc r n"
  shows "ring_holds listing mc (ring[length ns mod 3 := r]) (ns @ [n])"
  unfolding ring_holds_def
proof (intro conjI allI impI)
  show "length (ring[length ns mod 3 := r]) = 3" using assms by (simp add: ring_holds_def)
  fix m assume m: "m < length (ns @ [n])" "length (ns @ [n]) \<le> m + 3"
  show "refers listing mc (ring[length ns mod 3 := r] ! (m mod 3)) ((ns @ [n]) ! m)"
  proof (cases "m = length ns")
    case True
    then show ?thesis using assms by (simp add: ring_holds_def)
  next
    case False
    then have "m < length ns" "m mod 3 \<noteq> length ns mod 3" using m by (auto simp: less_Suc_eq) presburger
    then show ?thesis using assms(1) m by (simp add: ring_holds_def nth_append)
  qed
qed

definition walked ::
    "(dir_key \<Rightarrow> odfs_node list option) \<Rightarrow> odfs_meta_cache \<Rightarrow> odfs_node list \<Rightarrow> odfs_err + odfs_node list \<Rightarrow>
     odfs_err + nat \<times> (int \<times> nat) list \<times> nat \<Rightarrow> bool" where
  "walked listing mc nodes w r \<longleftrightarrow> r = Inl ODFS_ERR_UNSUPPORTED \<or>
     (case w of Inl e \<Rightarrow> r = Inl e
      | Inr ms \<Rightarrow> ms \<noteq> [] \<and> (\<exists>ring. r = Inr ((length (nodes @ ms) - 1) mod 3, ring, length (nodes @ ms)) \<and> ring_holds listing mc ring (nodes @ ms)))"

lemma slot_next: "(if (n :: nat) mod 3 = 2 then 0 else n mod 3 + 1) = Suc n mod 3"
  by presburger

lemma path_walk_ok:
  assumes "meta_inv listing mc xs {}" "i \<in> set xs" "view mc i = Some d" "listing (md_key d) = Some ns" "0 \<notin> set p"
    "ring_holds listing mc ring nodes"
  shows "\<exists>r mc' xs'. path_walk mc (int i) p (length nodes) (length nodes mod 3) ring = Some (r, mc') \<and>
    meta_inv listing mc' xs' {} \<and> walked listing mc' nodes (walk listing ns (path_names p)) r \<and> mc_budget mc' = mc_budget mc"
  using assms
proof (induction "length p" arbitrary: p mc xs i d ns ring nodes rule: less_induct)
  case less
  define nm where "nm = takeWhile (\<lambda>c. c \<noteq> 0x2F) p"
  define rs where "rs = drop (length nm) p"
  have pn: "path_names p = nm # (if rs = [] \<or> tl rs = [] then [] else path_names (tl rs))"
    by (subst path_names.simps) (simp add: nm_def rs_def Let_def)
  note wk = path_walk.simps[of mc "int i" p "length nodes" "length nodes mod 3" ring, unfolded Let_def slot_next, folded nm_def, folded rs_def]
  have uns: "walked listing mc' nodes w (Inl ODFS_ERR_UNSUPPORTED)" for mc' w by (simp add: walked_def)
  show ?case
  proof (cases "nm = [] \<or> length nm \<ge> ODFS_NAME_MAX")
    case True
    then show ?thesis using wk less.prems(1) uns by auto
  next
    case ok: False
    have nm0: "0 \<notin> set nm" using less.prems(5) by (auto simp: nm_def dest: set_takeWhileD)
    from less.prems(3) obtain x where x: "mget mc (int i) = Some x" "core_dir x = d" by (auto simp: view_Some)
    have hx: "holds x ns" "listing (md_key x) = Some ns"
      using meta_invD(6)[OF less.prems(1,2)] less.prems(3,4) x(2) by auto
    from find_name_ok[OF hx(1) nm0] obtain x' where
      f: "meta_find_name x nm = Some (name_index nm ns 0, x')" "holds x' ns" "unhashed x' = unhashed x" by blast
    define mc1 where "mc1 = mput mc (int i) (Some x')"
    have i1: "meta_inv listing mc1 xs {}" unfolding mc1_def by (rule inv_hash[OF less.prems(1) x(1) f(3) hx(2) f(2)])
    have b1: "mc_budget mc1 = mc_budget mc" by (simp add: mc1_def mput_def)
    have r1: "ring_holds listing mc1 ring nodes"
      unfolding mc1_def using refers_hash[of listing mc _ _ i x x' ns, OF _ x(1) f(3) hx(2) f(2)]
      by (rule ring_holds_mono[OF less.prems(6)])
    have x1: "view mc1 i = Some (core_dir x')" "md_key x' = md_key x"
      using x(1) unhashed_fields(4)[OF f(3)] by (auto simp: mc1_def mput_def view_Some nth_list_update split: if_splits)
    note fi = name_index_find[where ns = ns and nm = nm]
    show ?thesis
    proof (cases "name_index nm ns 0")
      case None
      then have "find (\<lambda>n. odfs_strcasecmp (name n) nm = 0) ns = None" using fi by simp
      then have "walked listing mc1 nodes (walk listing ns (path_names p)) (Inl ODFS_ERR_NOT_FOUND)" by (simp add: walked_def pn)
      then show ?thesis using wk ok x(1) f(1) None i1 b1 by (auto simp: mc1_def[symmetric] simp del: mget_int)
    next
      case (Some k)
      define n where "n = ns ! k"
      have k: "k < length ns" "find (\<lambda>n. odfs_strcasecmp (name n) nm = 0) ns = Some n"
        using fi name_index_lt[OF Some] Some by (auto simp: n_def)
      define e where "e = md_entries x' ! k"
      have en: "me_kind e = kind n" "me_lba e = lba (extent n)" "me_length e = extlen (extent n)" "me_backend e = backend n"
        using f(2) k(1) by (auto simp: e_def n_def holds_def list_all2_conv_all_nth entry_holds_def)
      define ring1 where "ring1 = ring[length nodes mod 3 := (int i, k)]"
      have "refers listing mc1 (int i, k) n" using x1 hx f(2) k(1) by (auto simp: refers_def n_def)
      then have r2: "ring_holds listing mc1 ring1 (nodes @ [n])" unfolding ring1_def by (rule ring_holds_snoc[OF r1])
      have wk1: "path_walk mc (int i) p (length nodes) (length nodes mod 3) ring =
        (if kind n = ODFS_NODE_SYMLINK then Some (Inl ODFS_ERR_UNSUPPORTED, mc1)
         else if rs = [] \<or> tl rs = [] then Some (Inr (length nodes mod 3, ring1, Suc (length nodes)), mc1)
         else if ch (tl rs) = 0x2F then Some (Inl ODFS_ERR_UNSUPPORTED, mc1)
         else if kind n \<noteq> ODFS_NODE_DIR then Some (Inl ODFS_ERR_NOT_DIR, mc1)
         else do {
              (d, mc) \<leftarrow> meta_find_extent mc1 (lba (extent n)) (extlen (extent n)) (backend n);
              if d = -1 then Some (Inl ODFS_ERR_UNSUPPORTED, mc)
              else path_walk mc d (tl rs) (Suc (length nodes)) (Suc (length nodes) mod 3) ring1 })"
        using wk ok x(1) f(1) Some
        by (simp add: mc1_def[symmetric] e_def[symmetric] en ring1_def[symmetric] cong: if_cong del: mget_int)
      consider (early) "kind n = ODFS_NODE_SYMLINK \<or> \<not> (rs = [] \<or> tl rs = []) \<and> ch (tl rs) = 0x2F"
        | (last) "rs = [] \<or> tl rs = []" "kind n \<noteq> ODFS_NODE_SYMLINK"
        | (plain) "\<not> (rs = [] \<or> tl rs = [])" "kind n \<noteq> ODFS_NODE_SYMLINK" "ch (tl rs) \<noteq> 0x2F" "kind n \<noteq> ODFS_NODE_DIR"
        | (deeper) "\<not> (rs = [] \<or> tl rs = [])" "ch (tl rs) \<noteq> 0x2F" "kind n = ODFS_NODE_DIR" by blast
      then show ?thesis
      proof cases
        case early
        then show ?thesis using wk1 i1 uns b1 by auto
      next
        case last
        have "walk listing ns (path_names p) = Inr [n]" using last(1) k(2) by (auto simp: pn)
        then have "walked listing mc1 nodes (walk listing ns (path_names p)) (Inr (length nodes mod 3, ring1, Suc (length nodes)))"
          using r2 by (simp add: walked_def)
        then show ?thesis using wk1 last i1 b1 by auto
      next
        case plain
        have "path_names (tl rs) \<noteq> []" by (subst path_names.simps) (simp add: Let_def)
        then have "walk listing ns (path_names p) = Inl ODFS_ERR_NOT_DIR" using plain k(2) by (simp add: pn)
        then have "walked listing mc1 nodes (walk listing ns (path_names p)) (Inl ODFS_ERR_NOT_DIR)" by (simp add: walked_def)
        then show ?thesis using wk1 plain i1 b1 by auto
      next
        case deeper
        have sh: "length (tl rs) < length p"
        proof -
          have "length (tl rs) < length rs" using deeper(1) by (cases rs) auto
          then show ?thesis by (simp add: rs_def)
        qed
        have p0: "0 \<notin> set (tl rs)" using less.prems(5) deeper(1) by (metis in_set_dropD list.set_sel(2) rs_def)
        have pe: "path_names (tl rs) \<noteq> []" by (subst path_names.simps) (simp add: Let_def)
        show ?thesis
          using meta_invD(1)[OF i1]
        proof (cases rule: find_ok[where l = "lba (extent n)" and len = "extlen (extent n)" and be = "backend n", case_names none found])
          case none
          then show ?thesis using wk1 deeper i1 uns b1 by auto
        next
          case (found j mc2)
          obtain xs2 where i2: "meta_inv listing mc2 xs2 {}" "set xs2 = set xs" using inv_same_list[OF i1 found(4)] .
          have v2: "view mc2 = view mc1" using found(4) by (simp add: same_list_def)
          from found(2) i2 meta_invD(6)[OF i2(1), of j] obtain d2 ns2 where
            d2: "view mc2 j = Some d2" "listing (md_key d2) = Some ns2" by auto
          have "md_key d2 = dir_key n" using found(3) d2(1) v2 by (auto simp: keyed_def md_key_def dir_key_def)
          then have w: "walk listing ns (path_names p) = map_sum id ((#) n) (walk listing ns2 (path_names (tl rs)))"
            using d2 k(2) deeper pe by (simp add: pn)
          have r3: "ring_holds listing mc2 ring1 (nodes @ [n])" using r2 v2 by (simp add: ring_holds_def refers_def)
          from less.hyps[OF sh i2(1) _ d2 p0 r3] found(2) i2(2) obtain r mc' xs' where
            r: "path_walk mc2 (int j) (tl rs) (Suc (length nodes)) (Suc (length nodes) mod 3) ring1 = Some (r, mc')"
              "meta_inv listing mc' xs' {}" "walked listing mc' (nodes @ [n]) (walk listing ns2 (path_names (tl rs))) r"
              "mc_budget mc' = mc_budget mc2" by auto
          have "mc_budget mc2 = mc_budget mc" using found(4) b1 by (simp add: same_list_def frame_def)
          with r(4) have b2: "mc_budget mc' = mc_budget mc" by simp
          have "walked listing mc' nodes (walk listing ns (path_names p)) r"
            using r(3) unfolding w walked_def by (auto split: sum.splits)
          then show ?thesis using wk1 deeper found(1) r(1,2) b2 by auto
        qed
      qed
    qed
  qed
qed

text \<open>The node of the last name, its parent and its grandparent.\<close>

lemma ring_node_ok:
  assumes "ring_holds listing mc ring ns" "m < length ns" "length ns \<le> m + 3"
  shows "\<exists>n. ring_node mc ring (m mod 3) out = Some n \<and> seen n = seen (ns ! m)"
proof -
  have l: "length ring = 3" and r: "refers listing mc (ring ! (m mod 3)) (ns ! m)" using assms by (auto simp: ring_holds_def)
  obtain p i where pi: "ring ! (m mod 3) = (p, i)" by force
  from refers_node[of listing mc p i "ns ! m" out] r pi obtain x e n where
    n: "mget mc p = Some x" "rd (md_entries x) i = Some e" "meta_entry_to_node x e out = Some n" "seen n = seen (ns ! m)" by auto
  then show ?thesis using l pi by (simp add: ring_node_def)
qed

lemma slot_prev: "1 \<le> n \<Longrightarrow> (if (n :: nat) mod 3 = 0 then 2 else n mod 3 - 1) = (n - 1) mod 3"
  by (cases n) (auto simp: mod_Suc)

lemma ring_holds_stat [simp]: "ring_holds listing (count_stat f mc) ring ns = ring_holds listing mc ring ns"
  by (simp add: ring_holds_def refers_def)

definition path_found :: "odfs_err + odfs_node list \<Rightarrow> odfs_err + odfs_node \<times> odfs_node \<times> odfs_node \<times> nat \<Rightarrow> bool" where
  "path_found w r \<longleftrightarrow> r = Inl ODFS_ERR_UNSUPPORTED \<or>
     (case w of Inl e \<Rightarrow> r = Inl e
      | Inr ms \<Rightarrow> (\<exists>out par gp. r = Inr (out, par, gp, length ms) \<and> ms \<noteq> [] \<and> seen out = seen (last ms) \<and>
          (2 \<le> length ms \<longrightarrow> seen par = seen (ms ! (length ms - 2))) \<and> (3 \<le> length ms \<longrightarrow> seen gp = seen (ms ! (length ms - 3)))))"

lemma lookup_path_ok:
  assumes "meta_inv listing mc xs {}" "listing (dir_key dir) = Some ns" "0 \<notin> set path"
  shows "\<exists>r mc' xs'. odfs_meta_lookup_path mc dir path out par gp = Some (r, mc') \<and> meta_inv listing mc' xs' {} \<and>
    path_found (walk listing ns (path_names path)) r \<and> mc_budget mc' = mc_budget mc"
  using meta_invD(1)[OF assms(1)]
proof (cases rule: find_ok[where l = "lba (extent dir)" and len = "extlen (extent dir)" and be = "backend dir", case_names none found])
  case none
  then show ?thesis using assms(1) by (auto simp: odfs_meta_lookup_path_def meta_find_def path_found_def)
next
  case (found j mc1)
  obtain xs1 where i1: "meta_inv listing mc1 xs1 {}" "set xs1 = set xs" using inv_same_list[OF assms(1) found(4)] .
  have v1: "view mc1 = view mc" using found(4) by (simp add: same_list_def)
  from found(2) i1 meta_invD(6)[OF i1(1), of j] obtain d where d: "view mc1 j = Some d" by auto
  have k: "listing (md_key d) = Some ns" using found(3) d v1 assms(2) by (auto simp: keyed_def md_key_def dir_key_def)
  have r0: "ring_holds listing mc1 (replicate 3 (-1, 0)) []" by (simp add: ring_holds_def)
  from path_walk_ok[OF i1(1) _ d k assms(3) r0] found(2) i1(2) obtain r mc2 xs2 where
    w: "path_walk mc1 (int j) path 0 0 (replicate 3 (-1, 0)) = Some (r, mc2)" "meta_inv listing mc2 xs2 {}"
       "walked listing mc2 [] (walk listing ns (path_names path)) r" "mc_budget mc2 = mc_budget mc1" by auto
  have b2: "mc_budget mc2 = mc_budget mc" using w(4) found(4) by (simp add: same_list_def frame_def)
  show ?thesis
  proof (cases r)
    case (Inl e)
    then have "path_found (walk listing ns (path_names path)) (Inl e)" using w(3) by (auto simp: walked_def path_found_def split: sum.splits)
    then show ?thesis using found(1) w(1,2) b2 Inl by (auto simp: odfs_meta_lookup_path_def meta_find_def)
  next
    case (Inr t)
    then obtain ms ring where m: "walk listing ns (path_names path) = Inr ms" "ms \<noteq> []" "t = ((length ms - 1) mod 3, ring, length ms)"
      "ring_holds listing mc2 ring ms" using w(3) by (auto simp: walked_def split: sum.splits)
    define f :: "odfs_meta_cache_stats \<Rightarrow> odfs_meta_cache_stats" where "f = (\<lambda>s. s\<lparr>ms_hits := ms_hits s + of_nat (length ms)\<rparr>)"
    define mc3 where "mc3 = count_stat f mc2"
    have r3: "ring_holds listing mc3 ring ms" "meta_inv listing mc3 xs2 {}" using m(4) w(2) by (simp_all add: mc3_def)
    let ?n = "length ms"
    have nz: "?n - 1 < ?n" "?n \<le> ?n - 1 + 3" "last ms = ms ! (?n - 1)" using m(2) by (auto simp: last_conv_nth)
    from ring_node_ok[OF r3(1) nz(1,2), of out] obtain n1 where
      n1: "ring_node mc3 ring ((?n - 1) mod 3) out = Some n1" "seen n1 = seen (last ms)" unfolding nz(3) by blast
    have "\<exists>n2. (if ?n \<ge> 2 then ring_node mc3 ring (if (?n - 1) mod 3 = 0 then 2 else (?n - 1) mod 3 - 1) par else Some par) = Some n2 \<and>
       (2 \<le> ?n \<longrightarrow> seen n2 = seen (ms ! (?n - 2)))"
    proof (cases "2 \<le> ?n")
      case True
      then have lt: "?n - 2 < ?n" "?n \<le> ?n - 2 + 3" "1 \<le> ?n - 1" "?n - 1 - 1 = ?n - 2" by simp_all
      show ?thesis unfolding slot_prev[OF lt(3)] lt(4) using ring_node_ok[OF r3(1) lt(1,2), of par] True by simp
    qed simp
    then obtain n2 where n2: "(if ?n \<ge> 2 then ring_node mc3 ring (if (?n - 1) mod 3 = 0 then 2 else (?n - 1) mod 3 - 1) par else Some par) = Some n2"
      "2 \<le> ?n \<longrightarrow> seen n2 = seen (ms ! (?n - 2))" by blast
    define sl where "sl = (?n - 1) mod 3"
    define s1 where "s1 = (if sl = 0 then 2 else sl - 1)"
    define s2 where "s2 = (if s1 = 0 then 2 else s1 - 1)"
    have "\<exists>n3. (if ?n \<ge> 3 then ring_node mc3 ring (if s1 = 0 then 2 else s1 - 1) gp else Some gp) = Some n3 \<and>
       (3 \<le> ?n \<longrightarrow> seen n3 = seen (ms ! (?n - 3)))"
    proof (cases "3 \<le> ?n")
      case True
      then have lt: "?n - 3 < ?n" "?n \<le> ?n - 3 + 3" "1 \<le> ?n - 1" "1 \<le> ?n - 2" "?n - 1 - 1 = ?n - 2" "?n - 2 - 1 = ?n - 3" by simp_all
      show ?thesis unfolding s1_def sl_def slot_prev[OF lt(3)] lt(5) slot_prev[OF lt(4)] lt(6)
        using ring_node_ok[OF r3(1) lt(1,2), of gp] True by simp
    qed simp
    then obtain n3 where n3: "(if ?n \<ge> 3 then ring_node mc3 ring (if s1 = 0 then 2 else s1 - 1) gp else Some gp) = Some n3"
      "3 \<le> ?n \<longrightarrow> seen n3 = seen (ms ! (?n - 3))" by blast
    have "odfs_meta_lookup_path mc dir path out par gp = Some (Inr (n1, n2, n3, ?n), mc3)"
      using found(1) w(1) Inr m(3)[folded sl_def] n1(1)[folded sl_def] n2(1)[folded sl_def, folded s1_def] n3(1)[folded s2_def]
      unfolding odfs_meta_lookup_path_def meta_find_def Let_def
      by (cases "2 \<le> ?n"; cases "3 \<le> ?n") (simp_all add: f_def[symmetric] mc3_def[symmetric] s1_def[symmetric] s2_def split: if_splits)
    moreover have "path_found (walk listing ns (path_names path)) (Inr (n1, n2, n3, ?n))"
      using m(1,2) n1(2) n2(2) n3(2) by (simp add: path_found_def)
    moreover have "mc_budget mc3 = mc_budget mc" using b2 by (simp add: mc3_def)
    ultimately show ?thesis using r3(2) by blast
  qed
qed

section \<open>Setting up and flushing\<close>

lemma meta_init_ok: "unat budget \<le> 2 ^ 30 \<Longrightarrow> meta_inv listing (odfs_meta_cache_init budget) [] {}"
  by (auto simp: meta_inv_def odfs_meta_cache_init_def zero_meta_cache_def links_def dll_def held_def live_def mget_def)

lemma meta_flush_ok:
  assumes "meta_inv listing mc xs {}"
  shows "\<exists>mc'. odfs_meta_cache_flush mc = Some mc' \<and> meta_inv listing' mc' [] {} \<and> mc_budget mc' = mc_budget mc \<and> mc_total mc' = 0"
proof -
  note v = meta_invD[OF assms]
  from flush_loop[OF v(1,2)] obtain mc1 where f: "iter flush_body mc = Some mc1" "links mc1 []" "mc_total mc1 = 0" "frame mc mc1"
    "\<forall>i. view mc1 i = (if i \<in> set xs then None else view mc i)" by blast
  define mc2 where "mc2 = mc1\<lparr>mc_oversize_len := replicate ODFS_META_OVERSIZE_SLOTS 0\<rparr>"
  have s: "mc_objs mc2 = mc_objs mc1" "mc_head mc2 = mc_head mc1" "mc_tail mc2 = mc_tail mc1" by (simp_all add: mc2_def)
  have "\<not> live mc1 i" for i using f(5) v(5)[of i] by (auto simp: live_view split: if_splits)
  then have "{i. live mc2 i} = {}" using links_objs(2)[OF s] by (auto simp: live_view)
  then have "meta_inv listing' mc2 [] {}" using links_objs(1)[OF s] f assms v(4)
    by (simp add: meta_inv_def mc2_def frame_def held_def)
  then show ?thesis using f by (auto simp: odfs_meta_cache_flush_def mc2_def frame_def)
qed

lemma destroy_ok:
  assumes "meta_inv listing mc xs {}"
  shows "\<exists>mc'. odfs_meta_cache_destroy mc = Some mc' \<and> (\<forall>p. mget mc' p = None) \<and> mc_head mc' = -1 \<and> mc_tail mc' = -1 \<and> mc_total mc' = 0"
proof -
  from meta_flush_ok[OF assms, of listing] obtain mc1 where f: "odfs_meta_cache_flush mc = Some mc1" "meta_inv listing mc1 [] {}" by blast
  have "mc_objs mc1 ! i = None" if "i < length (mc_objs mc1)" for i
    using meta_invD(5)[OF f(2), of i] that by (simp add: live_def)
  then have "mget (zero_meta_cache\<lparr>mc_objs := mc_objs mc1\<rparr>) p = None" for p by (simp add: mget_def)
  then show ?thesis using f by (auto simp: odfs_meta_cache_destroy_def zero_meta_cache_def)
qed

end
