(* ===== verification/Iso_Source.thy ===== *)
theory Iso_Source
  imports Iso_Props Meta_Path
begin

text \<open>
  The ISO 9660 reader as a source of directories for the directory cache.  What a directory lists
  depends on its extent only, and the names it is given do not depend on the allocator.
\<close>

section \<open>Names and the allocator\<close>

lemma contains_buckets: "buckets st1 = buckets st2 \<Longrightarrow> odfs_namefix_contains st1 = odfs_namefix_contains st2"
  by (simp add: odfs_namefix_contains_def fun_eq_iff)

lemma remember_buckets:
  assumes "buckets st1 = buckets st2" "odfs_namefix_remember st1 h1 nm len hash = (ODFS_OK, st1', h1')"
    "odfs_namefix_remember st2 h2 nm len hash = (ODFS_OK, st2', h2')"
  shows "buckets st1' = buckets st2'"
  using assms by (auto simp: odfs_namefix_remember_def Let_def dest!: namefix_alloc_buckets split: prod.splits option.splits)

lemma try_buckets:
  assumes "namefix_try st1 h1 base sz nm k = (ODFS_OK, nm1, st1', h1')" "buckets st1 = buckets st2"
    "namefix_try st2 h2 base sz nm k = (ODFS_OK, nm2, st2', h2')"
  shows "nm1 = nm2 \<and> buckets st1' = buckets st2'"
  using assms
proof (induction st1 h1 base sz nm k rule: namefix_try.induct)
  case (1 st1 h1 base sz nm k)
  let ?c = "namefix_candidate base sz k"
  obtain hash len where hl: "odfs_namefix_hash ?c = (hash, len)" by fastforce
  have k: "k < 1000000" "length (namefix_suffix k) < sz"
    using "1.prems"(1) by (auto simp: namefix_try.simps[of st1 h1] split: if_splits)
  note c = contains_buckets[OF "1.prems"(2)]
  show ?case
  proof (cases "odfs_namefix_contains st1 ?c hash")
    case True
    with "1.prems" k hl c have "namefix_try st1 h1 base sz ?c (Suc k) = (ODFS_OK, nm1, st1', h1')"
      "namefix_try st2 h2 base sz ?c (Suc k) = (ODFS_OK, nm2, st2', h2')"
      by (simp_all add: namefix_try.simps[of st1 h1 base sz nm k] namefix_try.simps[of st2 h2 base sz nm k])
    with "1.IH"[of ?c "(hash, len)" hash len] k hl True "1.prems"(2) show ?thesis by simp
  next
    case False
    with "1.prems" k hl c have "odfs_namefix_remember st1 h1 ?c len hash = (ODFS_OK, st1', h1')" "nm1 = ?c"
      "odfs_namefix_remember st2 h2 ?c len hash = (ODFS_OK, st2', h2')" "nm2 = ?c"
      by (auto simp: namefix_try.simps[of st1 h1 base sz nm k] namefix_try.simps[of st2 h2 base sz nm k] Let_def split: prod.splits)
    with remember_buckets[OF "1.prems"(2)] show ?thesis by blast
  qed
qed

lemma apply_buckets:
  assumes "odfs_namefix_apply st1 h1 nm sz = Some (ODFS_OK, nm1, st1', h1')" "buckets st1 = buckets st2"
    "odfs_namefix_apply st2 h2 nm sz = Some (ODFS_OK, nm2, st2', h2')"
  shows "nm1 = nm2 \<and> buckets st1' = buckets st2'"
proof -
  obtain hash len where hl: "odfs_namefix_hash nm = (hash, len)" by fastforce
  note c = contains_buckets[OF assms(2)]
  show ?thesis
  proof (cases "odfs_namefix_contains st1 nm hash")
    case True
    with assms hl c show ?thesis using try_buckets[OF _ assms(2)] by (auto simp: odfs_namefix_apply_def split: if_splits)
  next
    case False
    with assms hl c have "odfs_namefix_remember st1 h1 nm len hash = (ODFS_OK, st1', h1')" "nm1 = nm"
      "odfs_namefix_remember st2 h2 nm len hash = (ODFS_OK, st2', h2')" "nm2 = nm"
      by (auto simp: odfs_namefix_apply_def split: if_splits prod.splits)
    with remember_buckets[OF assms(2)] show ?thesis by blast
  qed
qed

section \<open>The directory's node\<close>

lemma merge_dir:
  "extent dir' = extent dir \<Longrightarrow> disc_merge disc ss dir' fo ident nl off go m cg = disc_merge disc ss dir fo ident nl off go m cg"
proof (induction disc ss dir fo ident nl off go m cg rule: disc_merge.induct)
  case (1 disc ss dir fo ident nl off go m cg)
  show ?case
    using "1.prems" "1.IH"
    by (subst (1 2) disc_merge.simps) (auto intro!: Option.bind_cong split: merge_next.splits)
qed

lemma extents_dir:
  assumes "extent dir' = extent dir"
  shows "disc_extents disc ctx dir' d rec (node\<lparr>parent_id := p\<rparr>) nx =
    map_option (\<lambda>(a, n). (a, n\<lparr>parent_id := p\<rparr>)) (disc_extents disc ctx dir d rec (node\<lparr>parent_id := q\<rparr>) nx)"
proof -
  have comm: "n\<lparr>size := m, extent := x, parent_id := j\<rparr> = n\<lparr>parent_id := j, size := m, extent := x\<rparr>" for n :: odfs_node and m x j
    by (cases n) simp
  show ?thesis unfolding disc_extents_def merge_dir[OF assms]
    by (simp add: map_bind if_distrib[of "map_option _"] split_def comm cong: if_cong Option.bind_cong)
qed

abbreviation adopt :: "u32 \<Rightarrow> nat \<times> nat \<times> odfs_node \<Rightarrow> nat \<times> nat \<times> odfs_node" where
  "adopt p e \<equiv> (fst e, fst (snd e), (snd (snd e))\<lparr>parent_id := p\<rparr>)"

lemma scan_dir:
  assumes "extent dir' = extent dir"
  shows "iso_scan disc dir ctx off = Some es \<Longrightarrow> iso_scan disc dir' ctx off = Some (map (adopt (node_id dir')) es)"
  using assms
proof (induction disc dir ctx off arbitrary: es rule: iso_scan.induct)
  case (1 disc dir ctx off)
  note ext = "1.prems"(2)
  have ra: "record_at disc dir' ctx off = record_at disc dir ctx off" by (simp add: record_at_def ext)
  show ?case
  proof (cases "off < unat (extlen (extent dir))")
    case False
    then show ?thesis using "1.prems"(1) ext by (subst (asm) iso_scan.simps, subst iso_scan.simps) simp
  next
    case True
    with "1.prems" obtain p ctx' where p: "record_at disc dir ctx off = Some (p, ctx')"
      by (subst (asm) iso_scan.simps) (auto simp: bind_eq_Some_conv)
    show ?thesis
    proof (cases p)
      case None
      have "iso_scan disc dir ctx' (2048 * (off div 2048 + 1)) = Some es"
        using "1.prems" True p None by (subst (asm) iso_scan.simps) simp
      from "1.IH"(1)[OF _ p refl None this ext] True
      show ?thesis using None True p ext by (subst iso_scan.simps) (simp add: ra)
    next
      case (Some q)
      with "1.prems" True p obtain nx node es1 where
        de: "disc_extents disc ctx' dir (disc (lba (extent dir) + of_nat (off div 2048))) (off mod 2048)
                ((pr_node q)\<lparr>parent_id := node_id dir\<rparr>) (off + pr_consumed q) = Some (nx, node)"
        and es1: "iso_scan disc dir ctx' nx = Some es1"
        and es: "es = (if is_dot_name (name node) then es1 else (off, nx, node) # es1)"
        by (subst (asm) iso_scan.simps) (auto simp: bind_eq_Some_conv)
      have IH: "iso_scan disc dir' ctx' nx = Some (map (adopt (node_id dir')) es1)"
        using "1.IH"(2)[OF _ p refl Some de refl es1 ext] True by simp
      have "disc_extents disc ctx' dir' (disc (lba (extent dir) + of_nat (off div 2048))) (off mod 2048)
                ((pr_node q)\<lparr>parent_id := node_id dir'\<rparr>) (off + pr_consumed q) = Some (nx, node\<lparr>parent_id := node_id dir'\<rparr>)"
        using extents_dir[OF ext, where p = "node_id dir'" and q = "node_id dir"] de by simp
      then have "iso_scan disc dir' ctx off =
          Some (map (adopt (node_id dir')) (if is_dot_name (name node) then es1 else (off, nx, node) # es1))"
        using True p Some IH ext by (subst iso_scan.simps) (simp add: ra)
      then show ?thesis using es by simp
    qed
  qed
qed

section \<open>What a directory lists\<close>

definition key_dir :: "dir_key \<Rightarrow> odfs_node" where
  "key_dir key = (case key of (l, len, be) \<Rightarrow> zero_node\<lparr>extent := \<lparr>lba = l, extlen = len\<rparr>\<rparr>)"

definition iso_dir_listing :: "(u32 \<Rightarrow> u8 list) \<Rightarrow> iso_context \<Rightarrow> dir_key \<Rightarrow> odfs_node list option" where
  "iso_dir_listing disc ctx key =
     (if unat (extlen (extent (key_dir key))) \<le> dir_limit
      then map_option nodes (iso_listing disc (key_dir key) ctx heap_plenty) else None)"

lemma key_dir_extent: "extent (key_dir (dir_key dir)) = extent dir"
  by (simp add: key_dir_def dir_key_def)

lemma seen_rename: "seen n = seen n' \<Longrightarrow> seen (n\<lparr>name := nm\<rparr>) = seen (n'\<lparr>name := nm\<rparr>)"
proof -
  assume a: "seen n = seen n'"
  have "seen (m\<lparr>name := nm\<rparr>) = (seen m)\<lparr>name := nm\<rparr>" for m by (cases m) (simp add: seen_def)
  then show ?thesis using a by simp
qed

lemma seen_ids: "seen (n\<lparr>parent_id := p\<rparr>) = seen n" "unid n = unid n' \<Longrightarrow> seen n = seen n'"
proof -
  show "seen (n\<lparr>parent_id := p\<rparr>) = seen n" by (cases n) (simp add: seen_def)
  have "seen (unid n) = seen n" for n by (cases n) (simp add: seen_def unid_def)
  then show "unid n = unid n' \<Longrightarrow> seen n = seen n'" by metis
qed

text \<open>Delivering entries with names made different, compared with the names of the listing.\<close>

definition namefix_errs :: "odfs_err set" where
  "namefix_errs = {ODFS_ERR_NOMEM, ODFS_ERR_OVERFLOW, ODFS_ERR_NAME_TOO_LONG, ODFS_ERR_INVAL}"

lemma try_errs: "namefix_try st h base sz nm k = (err, nm', st', h') \<Longrightarrow> err \<noteq> ODFS_OK \<Longrightarrow> err \<in> namefix_errs"
proof (induction st h base sz nm k rule: namefix_try.induct)
  case (1 st h base sz nm k)
  obtain hash len where hl: "odfs_namefix_hash (namefix_candidate base sz k) = (hash, len)" by fastforce
  show ?case
    using "1.prems" "1.IH"[of "namefix_candidate base sz k" "(hash, len)" hash len] hl
      namefix_remember_cases[of st h "namefix_candidate base sz k" len hash]
    by (subst (asm) namefix_try.simps) (auto simp: namefix_errs_def Let_def split: if_splits prod.splits)
qed

lemma apply_errs: "odfs_namefix_apply st h nm sz = Some (err, nm', st', h') \<Longrightarrow> err \<noteq> ODFS_OK \<Longrightarrow> err \<in> namefix_errs"
proof -
  assume a: "odfs_namefix_apply st h nm sz = Some (err, nm', st', h')" "err \<noteq> ODFS_OK"
  obtain hash len where hl: "odfs_namefix_hash nm = (hash, len)" by fastforce
  show ?thesis
    using a hl namefix_remember_cases[of st h nm len hash] try_errs[of st h "take (sz - 1) nm" sz nm 2 err nm' st' h']
    by (auto simp: odfs_namefix_apply_def namefix_errs_def split: if_splits prod.splits)
qed

lemma run_served:
  assumes fl: "namefix_errs \<subseteq> faults" and "list_all2 (\<lambda>e e'. name (snd (snd e)) = name (snd (snd e')) \<and> seen (snd (snd e)) = seen (snd (snd e'))) es es'"
    "name_run fix_name nf' h' (map entry_name es') = Some (outs, nf2, h2)" "buckets nf = buckets nf'"
    "list_run cb 0 ds nf h s es = Some (err, res, s', h3)"
  shows "\<exists>k. served faults cb (nodes (map2 rename_entry es' outs)) s err s' k"
  using assms(2-)
proof (induction arbitrary: nf nf' h h' s outs rule: list_all2_induct)
  case Nil
  then show ?case by (auto intro: served.all)
next
  case (Cons e es e' es')
  obtain start nx node where e: "e = (start, nx, node)" by (metis prod_cases3)
  obtain start' nx' node' where e': "e' = (start', nx', node')" by (metis prod_cases3)
  from Cons.prems(1) obtain nm' nf1 h1 outs1 where
    a: "odfs_namefix_apply nf' h' (name node') ODFS_NAME_MAX = Some (ODFS_OK, nm', nf1, h1)"
    and r: "name_run fix_name nf1 h1 (map entry_name es') = Some (outs1, nf2, h2)" and o: "outs = nm' # outs1"
    by (auto simp only: e' elim: name_step)
  have nd: "name node = name node'" "seen node = seen node'" using Cons.hyps(1) by (simp_all add: e e')
  from Cons.prems(3) obtain err1 nm1 nf3 h4 where
    b: "odfs_namefix_apply nf h (name node') ODFS_NAME_MAX = Some (err1, nm1, nf3, h4)"
    by (auto simp: e nd bind_eq_Some_conv)
  show ?case
  proof (cases "err1 = ODFS_OK")
    case False
    then have "err = err1" "s' = s" using Cons.prems(3) b by (auto simp: e nd)
    moreover have "err1 \<in> faults" using apply_errs[OF b False] fl by blast
    ultimately show ?thesis using False by (auto intro: served.failed)
  next
    case True
    from apply_buckets[OF b[unfolded True] Cons.prems(2) a] have eq: "nm1 = nm'" "buckets nf3 = buckets nf1" by auto
    obtain err2 s1 h5 where c: "cb (node\<lparr>name := nm'\<rparr>) s h4 = (err2, s1, h5)" by (cases "cb (node\<lparr>name := nm'\<rparr>) s h4")
    have sn: "seen (node\<lparr>name := nm'\<rparr>) = seen (node'\<lparr>name := nm'\<rparr>)" using seen_rename[OF nd(2)] .
    have hd: "nodes (map2 rename_entry (e' # es') outs) = node'\<lparr>name := nm'\<rparr> # nodes (map2 rename_entry es' outs1)"
      by (simp add: o e' rename_entry_def)
    show ?thesis
    proof (cases "err2 = ODFS_OK")
      case True
      then have "list_run cb 0 ds nf3 h5 s1 es = Some (err, res, s', h3)" using Cons.prems(3) b c \<open>err1 = ODFS_OK\<close> by (simp add: e nd eq)
      from Cons.IH[OF r eq(2) this] obtain k where "served faults cb (nodes (map2 rename_entry es' outs1)) s1 err s' k" by blast
      then show ?thesis unfolding hd using served.step[OF sn, of cb s h4 s1 h5] c True by blast
    next
      case False
      then have "err = err2" "s' = s1" using Cons.prems(3) b c \<open>err1 = ODFS_OK\<close> by (auto simp: e nd eq)
      then show ?thesis unfolding hd using served.stop[OF sn, of cb s h4 err s' h5] c False by blast
    qed
  qed
qed

lemma adv_served:
  assumes "list_all2 (\<lambda>e e'. name (snd (snd e)) = name (snd (snd e')) \<and> seen (snd (snd e)) = seen (snd (snd e'))) es es'"
    "name_run fix_name nf' h' (map entry_name es') = Some (outs, nf2, h2)" "buckets nf = buckets nf'"
    "adv cb 0 nf h s (take k es) = Some (nf3, h3, s')" "err \<noteq> ODFS_OK" "err \<in> faults"
  shows "\<exists>k. served faults cb (nodes (map2 rename_entry es' outs)) s err s' k"
  using assms
proof (induction arbitrary: nf nf' h h' s outs k rule: list_all2_induct)
  case Nil
  then show ?case by (auto intro: served.failed)
next
  case (Cons e es e' es')
  show ?case
  proof (cases k)
    case 0
    then show ?thesis using Cons.prems by (auto intro: served.failed)
  next
    case (Suc j)
    obtain start nx node where e: "e = (start, nx, node)" by (metis prod_cases3)
    obtain start' nx' node' where e': "e' = (start', nx', node')" by (metis prod_cases3)
    from Cons.prems(1) obtain nm' nf1 h1 outs1 where
      a: "odfs_namefix_apply nf' h' (name node') ODFS_NAME_MAX = Some (ODFS_OK, nm', nf1, h1)"
      and r: "name_run fix_name nf1 h1 (map entry_name es') = Some (outs1, nf2, h2)" and o: "outs = nm' # outs1"
      by (auto simp only: e' elim: name_step)
    have nd: "name node = name node'" "seen node = seen node'" using Cons.hyps(1) by (simp_all add: e e')
    from Cons.prems(3) obtain nm1 nf4 h4 where
      b: "odfs_namefix_apply nf h (name node') ODFS_NAME_MAX = Some (ODFS_OK, nm1, nf4, h4)"
      by (auto simp: e nd Suc bind_eq_Some_conv split: if_splits)
    from apply_buckets[OF b Cons.prems(2) a] have eq: "nm1 = nm'" "buckets nf4 = buckets nf1" by auto
    from Cons.prems(3) b obtain s1 h5 where c: "cb (node\<lparr>name := nm'\<rparr>) s h4 = (ODFS_OK, s1, h5)" "adv cb 0 nf4 h5 s1 (take j es) = Some (nf3, h3, s')"
      by (auto simp: e nd Suc eq split: prod.splits if_splits)
    have sn: "seen (node\<lparr>name := nm'\<rparr>) = seen (node'\<lparr>name := nm'\<rparr>)" using seen_rename[OF nd(2)] .
    have hd: "nodes (map2 rename_entry (e' # es') outs) = node'\<lparr>name := nm'\<rparr> # nodes (map2 rename_entry es' outs1)"
      by (simp add: o e' rename_entry_def)
    from Cons.IH[OF r eq(2) c(2) Cons.prems(4,5)] obtain i where "served faults cb (nodes (map2 rename_entry es' outs1)) s1 err s' i" by blast
    then show ?thesis unfolding hd using served.step[OF sn, of cb s h4 s1 h5] c(1) by blast
  qed
qed

section \<open>The reader as a source\<close>

text \<open>Without Rock Ridge a node has no Amiga attributes, and the backend of its volume.\<close>

definition plain_node :: "iso_context \<Rightarrow> odfs_node \<Rightarrow> bool" where
  "plain_node ctx n \<longleftrightarrow> amiga_as n = amiga_as zero_node \<and> backend n = (if joliet ctx then ODFS_BACKEND_JOLIET else ODFS_BACKEND_ISO9660)"

lemma plain_parent [simp]: "plain_node ctx (n\<lparr>parent_id := p\<rparr>) = plain_node ctx n"
  by (simp add: plain_node_def)

lemma extents_kept:
  "disc_extents disc ctx dir d rec node nx = Some (nx', node') \<Longrightarrow> amiga_as node' = amiga_as node \<and> backend node' = backend node"
  by (auto simp: disc_extents_def bind_eq_Some_conv split: if_splits)

lemma extents_plain: "disc_extents disc ctx dir d rec node nx = Some (nx', node') \<Longrightarrow> plain_node ctx0 node' = plain_node ctx0 node"
  using extents_kept by (simp add: plain_node_def)

lemma parse_plain: "iso_parse_dir_record d rec room ctx = Some (Some p, ctx') \<Longrightarrow> plain_node ctx (pr_node p)"
  unfolding plain_node_def by (auto simp: iso_parse_dir_record_def bind_eq_Some_conv Let_def split: if_splits)

lemma record_joliet: "record_at disc dir ctx off = Some (p, ctx') \<Longrightarrow> joliet ctx' = joliet ctx"
  by (auto simp: record_at_def Let_def dest: parse_ctx split: if_splits)

lemma scan_plain: "iso_scan disc dir ctx off = Some es \<Longrightarrow> \<forall>e \<in> set es. plain_node ctx (snd (snd e))"
proof (induction disc dir ctx off arbitrary: es rule: iso_scan.induct)
  case (1 disc dir ctx off)
  show ?case
  proof (cases "off < unat (extlen (extent dir))")
    case False
    with "1.prems" show ?thesis by (subst (asm) iso_scan.simps) simp
  next
    case True
    with "1.prems" obtain p ctx' where p: "record_at disc dir ctx off = Some (p, ctx')"
      by (subst (asm) iso_scan.simps) (auto simp: bind_eq_Some_conv)
    show ?thesis
    proof (cases p)
      case None
      with "1.prems" True p "1.IH"(1)[OF _ p refl None] record_joliet[OF p] show ?thesis
        by (subst (asm) iso_scan.simps) (simp add: plain_node_def)
    next
      case (Some q)
      with "1.prems" True p obtain nx node es' where
        de: "disc_extents disc ctx' dir (disc (lba (extent dir) + of_nat (off div 2048))) (off mod 2048)
                ((pr_node q)\<lparr>parent_id := node_id dir\<rparr>) (off + pr_consumed q) = Some (nx, node)"
        and es': "iso_scan disc dir ctx' nx = Some es'"
        and es: "es = (if is_dot_name (name node) then es' else (off, nx, node) # es')"
        by (subst (asm) iso_scan.simps) (auto simp: bind_eq_Some_conv)
      note j = record_joliet[OF p]
      have "plain_node ctx node"
        using p Some extents_plain[OF de, of ctx] by (auto simp: record_at_def Let_def dest!: parse_plain split: if_splits)
      moreover have "\<forall>e \<in> set es'. plain_node ctx (snd (snd e))"
        using "1.IH"(2)[OF _ p refl Some de refl es'] True j by (simp add: plain_node_def)
      ultimately show ?thesis using es by auto
    qed
  qed
qed

lemma listing_plain:
  assumes "iso_listing disc dir ctx h = Some L" "e \<in> set L"
  shows "plain_node ctx (snd (snd e))"
proof -
  from listing_names[OF assms(1)] obtain es where es: "iso_scan disc dir ctx 0 = Some es"
    "map (\<lambda>(a, b, n). (a, b, n\<lparr>name := []\<rparr>)) L = map (\<lambda>(a, b, n). (a, b, n\<lparr>name := []\<rparr>)) es" by blast
  have pn: "plain_node ctx (snd (snd x)) = plain_node ctx (snd (snd ((\<lambda>(a, b, n). (a, b, n\<lparr>name := []\<rparr>)) x)))" for x :: "nat \<times> nat \<times> odfs_node"
    by (simp add: plain_node_def split: prod.splits)
  have "\<forall>x \<in> set (map (\<lambda>(a, b, n). (a, b, n\<lparr>name := []\<rparr>)) es). plain_node ctx (snd (snd x))"
    using scan_plain[OF es(1)] pn by auto
  then show ?thesis unfolding es(2)[symmetric] using assms(2) pn[of e] by auto
qed

lemma dir_listing_backend:
  assumes "iso_dir_listing disc ctx key = Some ns" "n \<in> set ns"
  shows "backend n = (if joliet ctx then ODFS_BACKEND_JOLIET else ODFS_BACKEND_ISO9660)"
proof -
  from assms obtain L e where L: "iso_listing disc (key_dir key) ctx heap_plenty = Some L" "e \<in> set L" "n = snd (snd e)"
    by (auto simp: iso_dir_listing_def split: if_splits)
  then show ?thesis using listing_plain[OF L(1,2)] by (simp add: plain_node_def)
qed

lemma dir_listing_ok:
  assumes "iso_dir_listing disc ctx key = Some ns" "n \<in> set ns"
  shows "node_ok n"
proof -
  from assms obtain L e where L: "iso_listing disc (key_dir key) ctx heap_plenty = Some L" "e \<in> set L" "n = snd (snd e)"
    by (auto simp: iso_dir_listing_def split: if_splits)
  then have "0 \<notin> set (name n) \<and> length (name n) < ODFS_NAME_MAX" using listing_names[OF L(1)] by (auto simp: entry_name_def)
  then show ?thesis using listing_plain[OF L(1,2)] L(3) by (simp add: plain_node_def node_ok_def zero_node_def)
qed

definition iso_inv ::
    "'m odfs_media_ops \<Rightarrow> (u32 \<Rightarrow> u8 list) \<Rightarrow> nat \<Rightarrow> ('m \<Rightarrow> bool) \<Rightarrow> iso_context \<Rightarrow> iso_context \<Rightarrow> 'm odfs_cache \<Rightarrow> bool" where
  "iso_inv ops disc ss good ctx0 ctx c \<longleftrightarrow> ctx_kept ctx0 ctx \<and> \<not> has_rock_ridge ctx0 \<and>
     (\<exists>xs. disc_media.good_cache ops disc ss good c xs)"

lemma ctx_kept_trans: "ctx_kept a b \<Longrightarrow> ctx_kept b d \<Longrightarrow> ctx_kept a d"
  by (auto simp: ctx_kept_def)

lemma scan_seen:
  assumes "iso_scan disc dir0 ctx0 0 = Some es0" "extent dir = extent dir0" "ctx_kept ctx0 ctx"
  shows "\<exists>es. iso_scan disc dir ctx 0 = Some es \<and>
    list_all2 (\<lambda>e e'. name (snd (snd e)) = name (snd (snd e')) \<and> seen (snd (snd e)) = seen (snd (snd e'))) es es0"
proof -
  from assms(3) obtain i where ctx: "ctx = ctx0\<lparr>next_node_id := i\<rparr>" by (auto simp: ctx_kept_def)
  from scan_ids[OF scan_dir[OF assms(2,1)], of i] obtain es where
    es: "iso_scan disc dir ctx 0 = Some es" "map unid_entry es = map unid_entry (map (adopt (node_id dir)) es0)" unfolding ctx by blast
  have "list_all2 (\<lambda>e e'. seen (snd (snd e)) = seen (snd (snd e'))) es es0"
  proof -
    have len: "length es = length es0" using arg_cong[OF es(2), of length] by simp
    moreover have "seen (snd (snd (es ! j))) = seen (snd (snd (es0 ! j)))" if "j < length es" for j
    proof -
      have "map unid_entry es ! j = map unid_entry (map (adopt (node_id dir)) es0) ! j" using es(2) by simp
      then have "unid (snd (snd (es ! j))) = unid ((snd (snd (es0 ! j)))\<lparr>parent_id := node_id dir\<rparr>)" using that len by simp
      from seen_ids(2)[OF this] show ?thesis by (simp add: seen_ids(1))
    qed
    ultimately show ?thesis by (simp add: list_all2_conv_all_nth)
  qed
  then have "list_all2 (\<lambda>e e'. name (snd (snd e)) = name (snd (snd e')) \<and> seen (snd (snd e)) = seen (snd (snd e'))) es es0"
    by (rule list_all2_mono) (blast dest: seen_fields(1))
  then show ?thesis using es(1) by blast
qed

text \<open>The errors of an enumeration: those of the medium on a sector, and those of the table of names.\<close>

definition iso_faults :: "'m odfs_media_ops \<Rightarrow> ('m \<Rightarrow> bool) \<Rightarrow> odfs_err set" where
  "iso_faults ops good = namefix_errs \<union> {e. \<exists>l. disc_media.fails ops good l 1 e}"

lemma iso_dir_source:
  assumes "iso_media ops disc ss good"
  shows "dir_source iso9660_backend_ops (iso_inv ops disc ss good ctx0) (iso_dir_listing disc ctx0) (iso_faults ops good)"
proof
  fix ctx :: iso_context and c :: "'a odfs_cache" and dir :: odfs_node and ns h s and cb :: "'b dir_iter_fn"
  assume inv: "iso_inv ops disc ss good ctx0 ctx c" and l: "iso_dir_listing disc ctx0 (dir_key dir) = Some ns"
  from l obtain es0 outs nf2 h2 where lim: "unat (extlen (extent dir)) \<le> dir_limit"
    and es0: "iso_scan disc (key_dir (dir_key dir)) ctx0 0 = Some es0"
    and n: "name_run fix_name odfs_namefix_init heap_plenty (map entry_name es0) = Some (outs, nf2, h2)"
    and ns: "ns = nodes (map2 rename_entry es0 outs)"
    by (auto simp: iso_dir_listing_def iso_listing_def bind_eq_Some_conv key_dir_extent split: if_splits)
  from inv obtain xs where g: "disc_media.good_cache ops disc ss good c xs" and k: "ctx_kept ctx0 ctx" and rr: "\<not> has_rock_ridge ctx0"
    by (auto simp: iso_inv_def)
  have rr': "\<not> has_rock_ridge ctx" using k rr by (auto simp: ctx_kept_def)
  from scan_seen[OF es0 _ k, of dir] obtain es where es: "iso_scan disc dir ctx 0 = Some es"
    and a2: "list_all2 (\<lambda>e e'. name (snd (snd e)) = name (snd (snd e')) \<and> seen (snd (snd e)) = seen (snd (snd e'))) es es0"
    by (auto simp: key_dir_extent)
  have fl: "namefix_errs \<subseteq> iso_faults ops good" by (simp add: iso_faults_def)
  have fin: "\<exists>err res s' b' c' h' k. be_readdir iso9660_backend_ops ctx c h dir cb s 0 = Some ((err, res, s'), b', c', h') \<and>
      iso_inv ops disc ss good ctx0 b' c' \<and> served (iso_faults ops good) cb ns s err s' k"
    if r: "odfs_iso_readdir ctx c h dir cb s 0 = Some ((err, res, s'), ctx', c', h')" "disc_media.good_cache ops disc ss good c' xs'"
      and sv: "\<exists>k. served (iso_faults ops good) cb ns s err s' k" for err res s' ctx' c' h' xs'
  proof -
    have "iso_inv ops disc ss good ctx0 ctx' c'" using ctx_kept_trans[OF k readdir_ctx[OF r(1)]] rr r(2) by (auto simp: iso_inv_def)
    then show ?thesis using r(1) sv by (auto simp: iso9660_backend_ops_def)
  qed
  show "\<exists>err res s' b' c' h' k. be_readdir iso9660_backend_ops ctx c h dir cb s 0 = Some ((err, res, s'), b', c', h') \<and>
      iso_inv ops disc ss good ctx0 b' c' \<and> served (iso_faults ops good) cb ns s err s' k"
  proof (rule iso_media.readdir_refines[OF assms g rr' lim es, of h cb s 0], goal_cases)
    case (1 err res s' ctx' c' h' xs')
    from run_served[OF fl a2 n refl 1(3)] ns have "\<exists>k. served (iso_faults ops good) cb ns s err s' k" by simp
    from fin[OF 1(1,2) this] show ?thesis .
  next
    case (2 err s' ctx' c' h' xs' j nf)
    have er: "err \<noteq> ODFS_OK" using iso_media.fault_err[OF assms 2(3)] .
    have "err \<in> iso_faults ops good" using 2(3) by (auto simp: iso_media.fault_def[OF assms] iso_faults_def)
    from adv_served[OF a2 n refl 2(4) er this] ns have "\<exists>k. served (iso_faults ops good) cb ns s err s' k" by simp
    from fin[OF 2(1,2) this] show ?thesis .
  qed
next
  fix key ns n
  assume "iso_dir_listing disc ctx0 key = Some ns" "n \<in> set ns"
  then show "node_ok n" by (rule dir_listing_ok)
qed

text \<open>Lookup searches through an enumeration.\<close>

lemma served_lookup:
  assumes "served faults (lookup_cb nm) ns s err s' k" "s = None"
  shows "case find (\<lambda>n. odfs_strcasecmp (name n) nm = 0) ns of
      None \<Rightarrow> s' = None \<and> (err = ODFS_OK \<or> err \<in> faults \<and> err \<noteq> ODFS_OK)
    | Some n \<Rightarrow> err = ODFS_ERR_EOF \<and> (\<exists>n'. s' = Some n' \<and> seen n' = seen n) \<or> s' = None \<and> err \<in> faults \<and> err \<noteq> ODFS_OK"
  using assms
proof (induction rule: served.induct)
  case (step e n s h s1 h1 ns err s' k)
  then have "odfs_strcasecmp (name e) nm \<noteq> 0" "s1 = None" by (auto simp: lookup_cb_def split: if_splits)
  then show ?case using step seen_fields(1)[OF step.hyps(1)] by simp
next
  case (stop e n s h err s' h1 ns)
  then have "odfs_strcasecmp (name e) nm = 0" "s' = Some e" "err = ODFS_ERR_EOF" by (auto simp: lookup_cb_def split: if_splits)
  then show ?case using stop seen_fields(1)[OF stop.hyps(1)] by auto
qed (auto split: option.splits)

lemma iso_dir_backend:
  assumes "iso_media ops disc ss good"
  shows "dir_backend iso9660_backend_ops (iso_inv ops disc ss good ctx0) (iso_dir_listing disc ctx0) (iso_faults ops good)"
proof (rule dir_backend.intro[OF iso_dir_source[OF assms]], unfold_locales)
  fix ctx :: iso_context and c :: "'a odfs_cache" and dir :: odfs_node and ns h nm
  assume inv: "iso_inv ops disc ss good ctx0 ctx c" and l: "iso_dir_listing disc ctx0 (dir_key dir) = Some ns"
  from dir_source.readdir_served[OF iso_dir_source[OF assms] inv l, of h "lookup_cb nm" None] obtain err res s' ctx' c' h' k where
    r: "odfs_iso_readdir ctx c h dir (lookup_cb nm) None 0 = Some ((err, res, s'), ctx', c', h')"
       "iso_inv ops disc ss good ctx0 ctx' c'" "served (iso_faults ops good) (lookup_cb nm) ns None err s' k"
    by (auto simp: iso9660_backend_ops_def)
  define r' where "r' = (case s' of Some node \<Rightarrow> if err = ODFS_ERR_EOF \<or> err = ODFS_OK then Inr node else Inl err
           | None \<Rightarrow> if err \<noteq> ODFS_OK then Inl err else Inl ODFS_ERR_NOT_FOUND)"
  have "odfs_iso_lookup ctx c h dir nm = Some (r', ctx', c', h')" using r(1) by (simp add: odfs_iso_lookup_def r'_def)
  moreover have "lookup_result (iso_faults ops good) ns nm r'"
    using served_lookup[OF r(3) refl] by (auto simp: lookup_result_def r'_def split: option.splits)
  ultimately show "\<exists>r b' c' h'. be_lookup iso9660_backend_ops ctx c h dir nm = Some (r, b', c', h') \<and>
      iso_inv ops disc ss good ctx0 b' c' \<and> lookup_result (iso_faults ops good) ns nm r"
    using r(2) by (auto simp: iso9660_backend_ops_def)
qed

interpretation iso_backend: dir_backend iso9660_backend_ops
  "iso_inv file_media_ops (file_disc fm) HOST_SECTOR_SIZE (\<lambda>m. m = fm \<and> file_whole fm) ctx0" "iso_dir_listing (file_disc fm) ctx0"
  "iso_faults file_media_ops (\<lambda>m. m = fm \<and> file_whole fm)"
  for fm ctx0
  by (rule iso_dir_backend[OF file_iso.iso_media_axioms])

interpretation iso_cached: cached_source iso9660_backend_ops
  "iso_inv file_media_ops (file_disc fm) HOST_SECTOR_SIZE (\<lambda>m. m = fm \<and> file_whole fm) ctx0" "iso_dir_listing (file_disc fm) ctx0"
  "iso_faults file_media_ops (\<lambda>m. m = fm \<and> file_whole fm)"
  for fm ctx0
  unfolding cached_source_def by (rule iso_dir_source[OF file_iso.iso_media_axioms])

end
