(* ===== verification/Meta_Props.thy ===== *)
theory Meta_Props
  imports Iso_Source
begin

text \<open>
  The properties of the directory cache.  They are stated for any source of directories; the ISO
  9660 reader over an image file is one.
\<close>

section \<open>States of the cache\<close>

text \<open>The states the operations lead to, with those of the backend and of the block cache.\<close>

inductive meta_reach ::
    "('m, 'b, 'u cb_ctx) odfs_backend_ops \<Rightarrow> ('b \<Rightarrow> 'm odfs_cache \<Rightarrow> bool) \<Rightarrow> (dir_key \<Rightarrow> odfs_node list option) \<Rightarrow> u32 \<Rightarrow>
     odfs_meta_cache \<Rightarrow> 'b \<Rightarrow> 'm odfs_cache \<Rightarrow> bool"
  for ops bok listing budget where
  init: "bok b c \<Longrightarrow> meta_reach ops bok listing budget (odfs_meta_cache_init budget) b c"
| readdir: "meta_reach ops bok listing budget mc b c \<Longrightarrow> listing (dir_key dir) = Some ns \<Longrightarrow> length ns < 2 ^ 31 \<Longrightarrow>
    resume = 0 \<or> (\<exists>i < 2 ^ 31. resume = cookie i) \<Longrightarrow>
    odfs_meta_readdir junk mc ops b c h dir cb s resume = Some ((err, res, s', mc'), b', c', h') \<Longrightarrow>
    meta_reach ops bok listing budget mc' b' c'"
| lookup: "meta_reach ops bok listing budget mc b c \<Longrightarrow> listing (dir_key dir) = Some ns \<Longrightarrow> 0 \<notin> set nm \<Longrightarrow>
    odfs_meta_lookup mc ops b c h dir nm out = Some ((r, mc'), b', c', h') \<Longrightarrow> meta_reach ops bok listing budget mc' b' c'"
| lookup_path: "meta_reach ops bok listing budget mc b c \<Longrightarrow> listing (dir_key dir) = Some ns \<Longrightarrow> 0 \<notin> set path \<Longrightarrow>
    odfs_meta_lookup_path mc dir path out par gp = Some (r', mc') \<Longrightarrow> meta_reach ops bok listing budget mc' b c"
| flush: "meta_reach ops bok listing budget mc b c \<Longrightarrow> odfs_meta_cache_flush mc = Some mc' \<Longrightarrow>
    meta_reach ops bok listing budget mc' b c"

lemma reach_consistent:
  assumes "cached_source ops bok listing faults" "meta_reach ops bok listing budget mc b c" "unat budget \<le> 2 ^ 30"
  shows "cached_source.consistent listing mc \<and> bok b c \<and> mc_budget mc = budget"
  using assms(2)
proof (induction rule: meta_reach.induct)
  case (init b c)
  then show ?case using meta_init_ok[OF assms(3)] cached_source.consistent_def[OF assms(1)]
    by (auto simp: odfs_meta_cache_init_def)
next
  case (readdir mc b c dir ns resume junk h cb s err res s' mc' b' c' h')
  from readdir.hyps(4) obtain i where "resume = 0 \<and> i = 0 \<or> resume = cookie i \<and> i < 2 ^ 31" by auto
  from cached_source.readdir_ok[OF assms(1) _ _ readdir.hyps(2,3) this, of mc b c junk h cb s] readdir.IH readdir.hyps(5) show ?case by auto
next
  case (lookup mc b c dir ns nm h out r mc' b' c' h')
  from cached_source.lookup_ok[OF assms(1) _ _ lookup.hyps(2,3), of mc b c h out] lookup.IH lookup.hyps(4) show ?case by auto
next
  case (lookup_path mc b c dir ns path out par gp r' mc')
  from lookup_path.IH obtain xs where i: "meta_inv listing mc xs {}" by (auto simp: cached_source.consistent_def[OF assms(1)])
  from lookup_path_ok[OF i lookup_path.hyps(2,3), of out par gp] lookup_path.IH lookup_path.hyps(4)
  show ?case by (auto simp: cached_source.consistent_def[OF assms(1)])
next
  case (flush mc b c mc')
  from flush.IH obtain xs where i: "meta_inv listing mc xs {}" by (auto simp: cached_source.consistent_def[OF assms(1)])
  from meta_flush_ok[OF i, of listing] flush.IH flush.hyps(2) show ?case by (auto simp: cached_source.consistent_def[OF assms(1)])
qed

section \<open>The demonstration image as a source\<close>

abbreviation demo_fm :: file_media_ctx where "demo_fm \<equiv> mctx demo_iso"

abbreviation demo_inv :: "iso_context \<Rightarrow> file_media_ctx odfs_cache \<Rightarrow> bool" where
  "demo_inv \<equiv> iso_inv file_media_ops (file_disc demo_fm) HOST_SECTOR_SIZE (\<lambda>m. m = demo_fm \<and> file_whole demo_fm) demo_ctx"

lemma demo_dir_listing: "iso_dir_listing (file_disc demo_fm) demo_ctx (dir_key demo_dir) = Some [demo_file]"
proof -
  have "node_id (key_dir (dir_key demo_dir)) = 0" "parent_id demo_file = 0" by (simp_all add: key_dir_def dir_key_def zero_node_def demo_file_def)
  then have p: "demo_file\<lparr>parent_id := node_id (key_dir (dir_key demo_dir))\<rparr> = demo_file" by simp
  have "iso_scan (file_disc demo_fm) (key_dir (dir_key demo_dir)) demo_ctx 0 = iso_scan (file_disc demo_fm) demo_dir demo_ctx 0"
    using scan_dir[OF key_dir_extent demo_scan] p by (simp add: demo_scan)
  then have "iso_listing (file_disc demo_fm) (key_dir (dir_key demo_dir)) demo_ctx heap_plenty = Some [(0, 34, demo_file)]"
    using demo_listing by (simp add: iso_listing_def)
  then show ?thesis by (simp add: iso_dir_listing_def key_dir_extent demo_dir_def dir_limit_def)
qed

lemma demo_source_cache:
  obtains c where "odfs_cache_init (\<lambda>_ _. 0) heap_plenty demo_iso 40 = (ODFS_OK, c, heap_plenty)" "demo_inv demo_ctx c"
proof -
  obtain c where c: "odfs_cache_init (\<lambda>_ _. 0) heap_plenty demo_iso 40 = (ODFS_OK, c, heap_plenty)"
    "disc_media.good_cache file_media_ops (file_disc demo_fm) HOST_SECTOR_SIZE (\<lambda>m. m = demo_fm \<and> file_whole demo_fm) c []"
    by (rule demo_iso_cache)
  have "ctx_kept demo_ctx demo_ctx" by (auto simp: ctx_kept_def intro: exI[of _ 2])
  then show thesis using that[OF c(1)] c(2) by (auto simp: iso_inv_def)
qed

definition demo_meta :: odfs_meta_cache where "demo_meta = odfs_meta_cache_init 65536"

lemma demo_meta_inv: "meta_inv listing demo_meta [] {}"
  unfolding demo_meta_def by (rule meta_init_ok) simp

section \<open>Properties\<close>

text \<open>C10: listing through the directory cache.  From a consistent cache, with a start of listing or a cookie given out
  earlier, the call returns and leaves a consistent cache with the same budget.  Either it declines,
  at the start of a listing only and before the callback has seen anything, or the callback is passed
  the entries of the directory from the cookie's position on, in order and each once, whether they
  come from the cache or from the backend, and the cookie returned is the position behind the last entry
  passed.  Only a failure before the first entry leaves the cookie open.\<close>

theorem meta_readdir_serves:
  assumes "dir_source ops bok listing faults" "meta_inv listing mc xs {}" "bok b c" "listing (dir_key dir) = Some ns" "length ns < 2 ^ 31"
    "resume = 0 \<and> i = 0 \<or> resume = cookie i \<and> i < 2 ^ 31"
  shows "\<exists>err res s' mc' b' c' h'. odfs_meta_readdir junk mc ops b c h dir cb s resume = Some ((err, res, s', mc'), b', c', h') \<and>
    (\<exists>xs'. meta_inv listing mc' xs' {}) \<and> bok b' c' \<and> mc_budget mc' = mc_budget mc \<and>
    (err = ODFS_ERR_UNSUPPORTED \<and> resume = 0 \<and> res = 0 \<and> s' = s \<or>
     (\<exists>k. served faults cb (drop i ns) s err s' k \<and> (err = ODFS_OK \<or> 0 < k \<longrightarrow> res = cookie (min i (length ns) + k))))"
proof -
  have cs: "cached_source ops bok listing faults" using assms(1) by (simp add: cached_source_def)
  note d = cached_source.consistent_def[OF cs]
  have "cached_source.consistent listing mc" using assms(2) by (auto simp: d)
  from cached_source.readdir_ok[OF cs this assms(3-6), of junk h cb s, unfolded d] show ?thesis .
qed

theorem meta_readdir_serves_witness:
  "\<exists>c r. odfs_cache_init (\<lambda>_ _. 0) heap_plenty demo_iso 40 = (ODFS_OK, c, heap_plenty) \<and>
     odfs_meta_readdir (\<lambda>_. zero_node) demo_meta iso9660_backend_ops demo_ctx c heap_plenty demo_dir (plain collect_cb) [] 0 = Some r"
proof -
  obtain c where c: "odfs_cache_init (\<lambda>_ _. 0) heap_plenty demo_iso 40 = (ODFS_OK, c, heap_plenty)" "demo_inv demo_ctx c"
    by (rule demo_source_cache)
  have "length [demo_file] < 2 ^ 31" "(0 :: u32) = 0 \<and> (0 :: nat) = 0 \<or> 0 = cookie 0 \<and> (0 :: nat) < 2 ^ 31" by simp_all
  from meta_readdir_serves[OF iso_dir_source[OF file_iso.iso_media_axioms] demo_meta_inv c(2) demo_dir_listing this,
      of "\<lambda>_. zero_node" heap_plenty "plain collect_cb" "[]"] c(1)
  show ?thesis by blast
qed

text \<open>C12: lookup through the directory cache.  From a consistent cache the call returns, leaves a consistent cache, and
  either declines or gives the first entry of the directory whose name is the one asked for up to
  ASCII case, field for field as the backend lists it (the node numbers apart), and
  \<open>ODFS_ERR_NOT_FOUND\<close> when there is none, whether the names are compared one by one or by hash.\<close>

theorem meta_lookup_finds:
  assumes "dir_source ops bok listing faults" "meta_inv listing mc xs {}" "bok b c" "listing (dir_key dir) = Some ns" "0 \<notin> set nm"
  shows "\<exists>r mc' b' c' h'. odfs_meta_lookup mc ops b c h dir nm out = Some ((r, mc'), b', c', h') \<and>
    (\<exists>xs'. meta_inv listing mc' xs' {}) \<and> bok b' c' \<and> mc_budget mc' = mc_budget mc \<and>
    (r = Inl ODFS_ERR_UNSUPPORTED \<or>
     (case find (\<lambda>n. odfs_strcasecmp (name n) nm = 0) ns of
        None \<Rightarrow> r = Inl ODFS_ERR_NOT_FOUND
      | Some n \<Rightarrow> \<exists>n'. r = Inr n' \<and> seen n' = seen n))"
proof -
  have cs: "cached_source ops bok listing faults" using assms(1) by (simp add: cached_source_def)
  note d = cached_source.consistent_def[OF cs]
  have "cached_source.consistent listing mc" using assms(2) by (auto simp: d)
  from cached_source.lookup_ok[OF cs this assms(3-5), of h out, unfolded d] show ?thesis .
qed

theorem meta_lookup_finds_witness:
  "\<exists>c r. odfs_cache_init (\<lambda>_ _. 0) heap_plenty demo_iso 40 = (ODFS_OK, c, heap_plenty) \<and>
     odfs_meta_lookup demo_meta iso9660_backend_ops demo_ctx c heap_plenty demo_dir [0x61] zero_node = Some r"
proof -
  obtain c where c: "odfs_cache_init (\<lambda>_ _. 0) heap_plenty demo_iso 40 = (ODFS_OK, c, heap_plenty)" "demo_inv demo_ctx c"
    by (rule demo_source_cache)
  have "0 \<notin> set [0x61 :: u8]" by simp
  from meta_lookup_finds[OF iso_dir_source[OF file_iso.iso_media_axioms] demo_meta_inv c(2) demo_dir_listing this,
      of heap_plenty zero_node] c(1)
  show ?thesis by blast
qed

text \<open>C13: resolving a whole path from the directory cache.  The call returns and keeps the cache consistent; either it
  declines, or its result is that of walking the names of the path one by one through the
  directories' entries: \<open>ODFS_ERR_NOT_FOUND\<close> at a missing name, \<open>ODFS_ERR_NOT_DIR\<close> at a name behind a
  file, else the node of the last name, with its parent and grandparent where the path is that long,
  and the number of names.\<close>

theorem meta_lookup_path_walks:
  assumes "meta_inv listing mc xs {}" "listing (dir_key dir) = Some ns" "0 \<notin> set path"
  shows "\<exists>r mc'. odfs_meta_lookup_path mc dir path out par gp = Some (r, mc') \<and> (\<exists>xs'. meta_inv listing mc' xs' {}) \<and>
    mc_budget mc' = mc_budget mc \<and>
    (r = Inl ODFS_ERR_UNSUPPORTED \<or>
     (case walk listing ns (path_names path) of
        Inl e \<Rightarrow> r = Inl e
      | Inr ms \<Rightarrow> (\<exists>out' par' gp'. r = Inr (out', par', gp', length ms) \<and> ms \<noteq> [] \<and> seen out' = seen (last ms) \<and>
          (2 \<le> length ms \<longrightarrow> seen par' = seen (ms ! (length ms - 2))) \<and>
          (3 \<le> length ms \<longrightarrow> seen gp' = seen (ms ! (length ms - 3))))))"
  using lookup_path_ok[OF assms, of out par gp] unfolding path_found_def by blast

theorem meta_lookup_path_walks_witness:
  "\<exists>r. odfs_meta_lookup_path demo_meta demo_dir [0x61, 0x2F, 0x62] zero_node zero_node zero_node = Some r"
proof -
  have "0 \<notin> set [0x61, 0x2F, 0x62 :: u8]" by simp
  from meta_lookup_path_walks[where listing = "iso_dir_listing (file_disc demo_fm) demo_ctx", OF demo_meta_inv demo_dir_listing this,
      of zero_node zero_node zero_node] show ?thesis by blast
qed

text \<open>C11: memory of the directory cache.  In every state its operations lead to, the directories alive are exactly those in its
  list, each once; the recorded total is the sum of their sizes and stays within the budget; and destroying the
  cache frees every one of them.\<close>

theorem meta_cache_memory:
  assumes "dir_source ops bok listing faults" "meta_reach ops bok listing budget mc b c" "unat budget \<le> 2 ^ 30"
  shows "(\<exists>xs. links mc xs \<and> distinct xs \<and> {i. live mc i} = set xs \<and> unat (mc_total mc) = sum_list (map (bytes mc) xs) \<and>
     mc_total mc \<le> budget) \<and>
    (\<exists>mc'. odfs_meta_cache_destroy mc = Some mc' \<and> (\<forall>p. mget mc' p = None))"
proof -
  have cs: "cached_source ops bok listing faults" using assms(1) by (simp add: cached_source_def)
  from reach_consistent[OF cs assms(2,3)] obtain xs where i: "meta_inv listing mc xs {}" "mc_budget mc = budget"
    by (auto simp: cached_source.consistent_def[OF cs])
  note v = meta_invD[OF i(1)]
  have "{i. live mc i} = set xs" using v(5) by auto
  then have "\<exists>xs. links mc xs \<and> distinct xs \<and> {i. live mc i} = set xs \<and> unat (mc_total mc) = sum_list (map (bytes mc) xs) \<and> mc_total mc \<le> budget"
    using v(1-3) links_distinct[OF v(1)] i(2) by (auto simp: held_def)
  then show ?thesis using destroy_ok[OF i(1)] by blast
qed

theorem meta_cache_memory_witness:
  "\<exists>mc'. odfs_meta_cache_destroy (odfs_meta_cache_init 65536) = Some mc' \<and> (\<forall>p. mget mc' p = None)"
proof -
  obtain c where c: "demo_inv demo_ctx c" by (rule demo_source_cache)
  have "unat (65536 :: u32) \<le> 2 ^ 30" by simp
  from meta_cache_memory[OF iso_dir_source[OF file_iso.iso_media_axioms] meta_reach.init[where bok = demo_inv and b = demo_ctx and c = c, OF c] this]
  show ?thesis by blast
qed

text \<open>C25: the comparison of names in the cache.  On the pool's terminated name and the name looked for it agrees with
  the ASCII case-insensitive string comparison used everywhere else.\<close>

theorem meta_name_eq_strcasecmp:
  assumes "0 \<notin> set s" "0 \<notin> set nm"
  shows "meta_name_eq (s @ 0 # t) nm = Some (odfs_strcasecmp s nm = 0)"
  using name_eq_iff[OF assms] strcasecmp_0_iff[OF assms] by simp

theorem meta_name_eq_strcasecmp_witness: "meta_name_eq [0x41, 0x2E, 0, 0x42] [0x61, 0x2E] = Some True"
proof -
  have "0 \<notin> set [0x41, 0x2E :: u8]" "0 \<notin> set [0x61, 0x2E :: u8]" by simp_all
  from meta_name_eq_strcasecmp[OF this, of "[0x42]"] show ?thesis by (simp add: odfs_strcasecmp.simps odfs_ascii_tolower_def)
qed

text \<open>C24: storing an entry while a directory is packed.  With a budget of at most a gigabyte the step returns (the loop that
  grows the pool ends), the entries and the pool stay within the arrays allocated for them whatever the allocator
  does, and a step that succeeds has added exactly the entry given, the packed size within the budget.\<close>

theorem meta_build_in_bounds:
  assumes "building bc ns" "node_ok n"
  shows "\<exists>ok bc' h'. build_entry bc h n = Some (ok, bc', h') \<and>
    length (bc_entries bc') \<le> unat (bc_cap bc') \<and> length (bc_pool bc') \<le> unat (bc_pool_cap bc') \<and>
    (ok \<longrightarrow> list_all2 (entry_holds (bc_pool bc')) (bc_entries bc') (ns @ [n]) \<and> packed_bytes bc' \<le> unat (bc_budget bc))"
proof -
  from build_entry_ok[OF assms refl, of h] obtain ok bc' h' where
    b: "build_entry bc h n = Some (ok, bc', h')" "fits bc'" "same_flags bc bc'" "ok \<longrightarrow> building bc' (ns @ [n])" by blast
  have "ok \<longrightarrow> list_all2 (entry_holds (bc_pool bc')) (bc_entries bc') (ns @ [n]) \<and> packed_bytes bc' \<le> unat (bc_budget bc)"
    using b(3,4) by (auto simp: building_def same_flags_def)
  then show ?thesis using b by (auto simp: fits_def)
qed

theorem meta_build_in_bounds_witness:
  "\<exists>r. build_entry (fst (build_start 65536 2048 heap_plenty)) heap_plenty demo_file = Some r"
proof -
  have "building (fst (build_start 65536 2048 heap_plenty)) []" by (rule build_start_ok(1)[OF prod.collapse[symmetric]]) simp
  moreover have "node_ok demo_file" by (simp add: node_ok_def demo_file_def zero_node_def ODFS_NAME_MAX_def)
  ultimately show ?thesis using meta_build_in_bounds[of "fst (build_start 65536 2048 heap_plenty)" "[]" demo_file heap_plenty] by blast
qed

end
