(* ===== verification/Mount.thy ===== *)
theory Mount
  imports Meta_Cache Session Namefix
begin

text \<open>
  The mount layer, \<^verbatim>\<open>core/mount.c\<close>: choosing a backend for a medium, dispatching the operations of
  the file system to the backend of a node, through the directory cache where it can answer, and
  resolving paths.

  The operations tables the program has are the list \<open>bes\<close>, and a pointer to one is its position; the
  first \<open>ntab\<close> of them form \<open>backend_table\<close>.  The private contexts of the backends are objects of a
  store, since several entries of a mount may point to the same one: a pointer is a position in the store,
  \<open>-1\<close> for NULL, and using a freed context is \<open>None\<close>.  Unmounting a backend frees its context.  The
  medium is the one the block cache points to.
\<close>

section \<open>Data\<close>

record odfs_mount_opts =
  force_backend :: int
  force_session :: int
  disable_rr :: bool
  disable_joliet :: bool
  prefer_udf :: bool
  prefer_hfs :: bool
  lowercase_iso :: bool
  prefer_aiff :: bool
  cache_blocks :: u32
  meta_cache_kib :: u32

record ('m, 'b) odfs_mount_t =
  mnt_cache :: "'m odfs_cache"
  mnt_meta :: odfs_meta_cache
  mnt_opts :: odfs_mount_opts
  mnt_active :: odfs_backend_type
  mnt_ops :: "nat option"
  mnt_ctx :: int
  mnt_map :: "odfs_backend_type \<Rightarrow> nat option"
  mnt_ctx_map :: "odfs_backend_type \<Rightarrow> int"
  mnt_vroots :: "odfs_backend_type \<Rightarrow> odfs_node option"
  mnt_root :: odfs_node
  mnt_total_blocks :: u32
  mnt_volume_name :: "u8 list"
  mnt_ctxs :: "'b option list"

definition ODFS_BLOCK_CACHE_SIZE :: u32 where "ODFS_BLOCK_CACHE_SIZE = 128"
definition ODFS_META_CACHE_KIB :: u32 where "ODFS_META_CACHE_KIB = 96"

definition odfs_mount_opts_default :: odfs_mount_opts where
  "odfs_mount_opts_default = \<lparr>force_backend = 0, force_session = -1, disable_rr = False, disable_joliet = False,
     prefer_udf = False, prefer_hfs = False, lowercase_iso = False, prefer_aiff = False, cache_blocks = 0,
     meta_cache_kib = ODFS_META_CACHE_KIB\<rparr>"

section \<open>Contexts\<close>

definition cget :: "('m, 'b) odfs_mount_t \<Rightarrow> int \<Rightarrow> 'b option" where
  "cget mnt p = (if 0 \<le> p \<and> nat p < length (mnt_ctxs mnt) then mnt_ctxs mnt ! nat p else None)"

definition cput :: "('m, 'b) odfs_mount_t \<Rightarrow> int \<Rightarrow> 'b option \<Rightarrow> ('m, 'b) odfs_mount_t" where
  "cput mnt p b = mnt\<lparr>mnt_ctxs := (mnt_ctxs mnt)[nat p := b]\<rparr>"

text \<open>The \<open>unmount\<close> operation of a backend.\<close>

definition ctx_unmount :: "('m, 'b) odfs_mount_t \<Rightarrow> int \<Rightarrow> ('m, 'b) odfs_mount_t option" where
  "ctx_unmount mnt p = do { b \<leftarrow> cget mnt p; Some (cput mnt p None) }"

text \<open>An operation of a backend on its context, the block cache and the allocator.\<close>

definition be_call ::
    "('b \<Rightarrow> 'm odfs_cache \<Rightarrow> heap \<Rightarrow> ('m, 'b, 'r) be_result) \<Rightarrow> ('m, 'b) odfs_mount_t \<Rightarrow> int \<Rightarrow> heap \<Rightarrow>
     ('r \<times> ('m, 'b) odfs_mount_t \<times> heap) option" where
  "be_call f mnt p h = do {
     b \<leftarrow> cget mnt p;
     (r, b, c, h) \<leftarrow> f b (mnt_cache mnt) h;
     Some (r, cput (mnt\<lparr>mnt_cache := c\<rparr>) p (Some b), h) }"

section \<open>Choosing a session and a backend\<close>

fun candidate_loop :: "odfs_session list \<Rightarrow> nat \<Rightarrow> u32 list \<Rightarrow> nat \<Rightarrow> u32 list option" where
  "candidate_loop ss max_starts starts 0 = Some starts"
| "candidate_loop ss max_starts starts (Suc i) =
     (if length starts < max_starts then do {
        s \<leftarrow> rd ss i;
        candidate_loop ss max_starts
          (if sess_control s AND 0x04 = 0 \<or> sess_start_lba s \<in> set starts then starts
           else starts @ [sess_start_lba s]) i }
      else Some starts)"

text \<open>The medium of a mount.\<close>

definition on_media :: "('m odfs_media \<Rightarrow> ('r \<times> 'm odfs_media) option) \<Rightarrow> ('m, 'b) odfs_mount_t \<Rightarrow> ('r \<times> ('m, 'b) odfs_mount_t) option" where
  "on_media f mnt = do {
     m \<leftarrow> c_media (mnt_cache mnt);
     (r, m) \<leftarrow> f m;
     Some (r, mnt\<lparr>mnt_cache := (mnt_cache mnt)\<lparr>c_media := Some m\<rparr>\<rparr>) }"

definition mount_read_toc :: "('m, 'b) odfs_mount_t \<Rightarrow> ((odfs_err \<times> odfs_toc) \<times> ('m, 'b) odfs_mount_t) option" where
  "mount_read_toc mnt = on_media (\<lambda>m. case odfs_media_read_toc m of (err, toc, m) \<Rightarrow> Some ((err, toc), m)) mnt"

definition mount_build_session_candidates :: "('m, 'b) odfs_mount_t \<Rightarrow> u32 \<Rightarrow> nat \<Rightarrow> (u32 list \<times> ('m, 'b) odfs_mount_t) option" where
  "mount_build_session_candidates mnt preferred_start max_starts =
     (if max_starts = 0 then Some ([], mnt)
      else if force_session (mnt_opts mnt) \<ge> 0 then Some ([preferred_start], mnt)
      else do {
        ((err, toc), mnt) \<leftarrow> mount_read_toc mnt;
        starts \<leftarrow> (if err = ODFS_OK
                   then candidate_loop (toc_sessions toc) max_starts [preferred_start] (unat (toc_session_count toc))
                   else Some [preferred_start]);
        Some (if preferred_start \<noteq> 0 \<and> length starts < max_starts then starts @ [0] else starts, mnt) })"

text \<open>The backends whose probe succeeded.\<close>

record mount_cands =
  mc_chosen :: "nat option"
  mc_iso :: "nat option"
  mc_joliet :: "nat option"
  mc_udf :: "nat option"
  mc_hfs :: "nat option"

definition no_cands :: mount_cands where
  "no_cands = \<lparr>mc_chosen = None, mc_iso = None, mc_joliet = None, mc_udf = None, mc_hfs = None\<rparr>"

definition note_cand :: "mount_cands \<Rightarrow> odfs_backend_type \<Rightarrow> nat \<Rightarrow> mount_cands" where
  "note_cand cs t i =
     (if t = ODFS_BACKEND_ISO9660 then cs\<lparr>mc_iso := Some i\<rparr>
      else if t = ODFS_BACKEND_JOLIET then cs\<lparr>mc_joliet := Some i\<rparr>
      else if t = ODFS_BACKEND_UDF then cs\<lparr>mc_udf := Some i\<rparr>
      else if t = ODFS_BACKEND_HFS then cs\<lparr>mc_hfs := Some i\<rparr>
      else cs\<lparr>mc_chosen := Some i\<rparr>)"

fun probe_loop ::
    "('m, 'b, 's) odfs_backend_ops list \<Rightarrow> int \<Rightarrow> u32 \<Rightarrow> nat list \<Rightarrow> mount_cands \<Rightarrow> 'm odfs_cache \<Rightarrow> (mount_cands \<times> 'm odfs_cache) option" where
  "probe_loop bes force ss [] cs c = Some (cs, c)"
| "probe_loop bes force ss (i # is) cs c = do {
     be \<leftarrow> rd bes i;
     if force \<noteq> 0 \<and> force \<noteq> int (backend_val (be_type be)) then probe_loop bes force ss is cs c
     else do {
       (err, c) \<leftarrow> be_probe be c ss;
       if err = ODFS_OK then
         (let cs = note_cand cs (be_type be) i in
          if mc_chosen cs \<noteq> None then Some (cs, c) else probe_loop bes force ss is cs c)
       else probe_loop bes force ss is cs c } }"

text \<open>The \<open>mount\<close> operation of the backend at position \<open>i\<close>; on success the mount has its root and context.\<close>

definition mount_be ::
    "('m, 'b, 's) odfs_backend_ops list \<Rightarrow> u32 \<Rightarrow> nat \<Rightarrow> ('m, 'b) odfs_mount_t \<Rightarrow> heap \<Rightarrow> (odfs_err \<times> ('m, 'b) odfs_mount_t \<times> heap) option" where
  "mount_be bes ss i mnt h = do {
     be \<leftarrow> rd bes i;
     (r, c, h) \<leftarrow> be_mount be (mnt_cache mnt) h ss;
     Some (case r of
             Inl err \<Rightarrow> (err, mnt\<lparr>mnt_cache := c\<rparr>, h)
           | Inr (root, b) \<Rightarrow>
               (ODFS_OK, mnt\<lparr>mnt_cache := c, mnt_root := root, mnt_ctx := int (length (mnt_ctxs mnt)),
                             mnt_ctxs := mnt_ctxs mnt @ [Some b]\<rparr>, h)) }"

text \<open>Mounting a candidate, if there is one, the condition holds and none was chosen before.\<close>

type_synonym ('m, 'b) attempt = "nat option \<times> ('m, 'b) odfs_mount_t \<times> heap"

definition attempt ::
    "('m, 'b, 's) odfs_backend_ops list \<Rightarrow> u32 \<Rightarrow> bool \<Rightarrow> nat option \<Rightarrow> ('m, 'b) attempt \<Rightarrow> ('m, 'b) attempt option" where
  "attempt bes ss cond cand st = (case st of (chosen, mnt, h) \<Rightarrow>
     (case cand of
        Some i \<Rightarrow>
          if chosen = None \<and> cond then do {
            (err, mnt, h) \<leftarrow> mount_be bes ss i mnt h;
            Some (if err = ODFS_OK then Some i else None, mnt, h) }
          else Some st
      | None \<Rightarrow> Some st))"

text \<open>Plain ISO 9660 is given up for Joliet: its context is unmounted again.\<close>

definition attempt_iso ::
    "('m, 'b, 's) odfs_backend_ops list \<Rightarrow> u32 \<Rightarrow> mount_cands \<Rightarrow> ('m, 'b) attempt \<Rightarrow> ('m, 'b) attempt option" where
  "attempt_iso bes ss cs st = (case st of (chosen, mnt, h) \<Rightarrow>
     (case mc_iso cs of
        Some i \<Rightarrow>
          if chosen = None then do {
            (err, mnt, h) \<leftarrow> mount_be bes ss i mnt h;
            if err = ODFS_OK then
              (if backend (mnt_root mnt) = ODFS_BACKEND_ROCK_RIDGE \<or> disable_joliet (mnt_opts mnt) \<or> mc_joliet cs = None
               then Some (Some i, mnt, h)
               else do {
                 mnt \<leftarrow> ctx_unmount mnt (mnt_ctx mnt);
                 Some (None, mnt\<lparr>mnt_ctx := -1\<rparr>, h) })
            else Some (None, mnt, h) }
          else Some st
      | None \<Rightarrow> Some st))"

definition mount_try_session_start ::
    "('m, 'b, 's) odfs_backend_ops list \<Rightarrow> nat \<Rightarrow> ('m, 'b) odfs_mount_t \<Rightarrow> heap \<Rightarrow> u32 \<Rightarrow> (odfs_err \<times> ('m, 'b) odfs_mount_t \<times> heap) option" where
  "mount_try_session_start bes ntab mnt h ss = do {
     let mnt = mnt\<lparr>mnt_ctx := -1, mnt_ops := None, mnt_active := ODFS_BACKEND_NONE, mnt_root := zero_node\<rparr>;
     (cs, c) \<leftarrow> probe_loop bes (force_backend (mnt_opts mnt)) ss [0..<ntab] no_cands (mnt_cache mnt);
     let st = (mc_chosen cs, mnt\<lparr>mnt_cache := c\<rparr>, h);
     st \<leftarrow> attempt bes ss (prefer_udf (mnt_opts mnt)) (mc_udf cs) st;
     st \<leftarrow> attempt bes ss (prefer_hfs (mnt_opts mnt)) (mc_hfs cs) st;
     st \<leftarrow> attempt_iso bes ss cs st;
     st \<leftarrow> attempt bes ss True (mc_joliet cs) st;
     st \<leftarrow> attempt bes ss True (mc_udf cs) st;
     st \<leftarrow> attempt bes ss True (mc_hfs cs) st;
     (chosen, mnt, h) \<leftarrow> attempt bes ss (mnt_ctx (fst (snd st)) = -1) (mc_iso cs) st;
     case chosen of
       None \<Rightarrow> Some (ODFS_ERR_BAD_FORMAT, mnt\<lparr>mnt_ctx := -1, mnt_root := zero_node\<rparr>, h)
     | Some i \<Rightarrow> do {
         (err, mnt, h) \<leftarrow> (if mnt_ctx mnt = -1 then mount_be bes ss i mnt h else Some (ODFS_OK, mnt, h));
         if err \<noteq> ODFS_OK then Some (err, mnt\<lparr>mnt_ctx := -1, mnt_root := zero_node\<rparr>, h)
         else Some (ODFS_OK, mnt\<lparr>mnt_ops := Some i, mnt_active := backend (mnt_root mnt)\<rparr>, h) } }"

section \<open>Mounting and unmounting\<close>

definition odfs_mount_register_backend ::
    "('m, 'b) odfs_mount_t \<Rightarrow> odfs_backend_type \<Rightarrow> nat option \<Rightarrow> int \<Rightarrow> odfs_node option \<Rightarrow> ('m, 'b) odfs_mount_t" where
  "odfs_mount_register_backend mnt t ops p virtual_root =
     (if t \<le> ODFS_BACKEND_NONE \<or> t \<ge> ODFS_BACKEND__COUNT then mnt
      else mnt\<lparr>mnt_map := (mnt_map mnt)(t := ops), mnt_ctx_map := (mnt_ctx_map mnt)(t := p),
               mnt_vroots := (mnt_vroots mnt)(t := virtual_root)\<rparr>)"

text \<open>A mount cleared by \<open>memset\<close>; the store of contexts is the program's.\<close>

definition zero_mount :: "'b option list \<Rightarrow> ('m, 'b) odfs_mount_t" where
  "zero_mount ctxs = \<lparr>mnt_cache = zero_cache, mnt_meta = zero_meta_cache,
     mnt_opts = \<lparr>force_backend = 0, force_session = 0, disable_rr = False, disable_joliet = False, prefer_udf = False,
       prefer_hfs = False, lowercase_iso = False, prefer_aiff = False, cache_blocks = 0, meta_cache_kib = 0\<rparr>,
     mnt_active = ODFS_BACKEND_NONE, mnt_ops = None, mnt_ctx = -1, mnt_map = (\<lambda>_. None), mnt_ctx_map = (\<lambda>_. -1),
     mnt_vroots = (\<lambda>_. None), mnt_root = zero_node, mnt_total_blocks = 0, mnt_volume_name = [], mnt_ctxs = ctxs\<rparr>"

fun session_loop ::
    "('m, 'b, 's) odfs_backend_ops list \<Rightarrow> nat \<Rightarrow> u32 list \<Rightarrow> odfs_err \<Rightarrow> ('m, 'b) odfs_mount_t \<Rightarrow> heap \<Rightarrow>
     (odfs_err \<times> ('m, 'b) odfs_mount_t \<times> heap) option" where
  "session_loop bes ntab [] err mnt h = Some (err, mnt, h)"
| "session_loop bes ntab (ss # sss) err mnt h = do {
     (err, mnt, h) \<leftarrow> mount_try_session_start bes ntab mnt h ss;
     if err = ODFS_OK then Some (err, mnt, h) else session_loop bes ntab sss err mnt h }"

text \<open>The start of the session asked for, or of the last one; \<open>buf\<close> is the scan's sector buffer.\<close>

definition mount_session_start :: "('m, 'b) odfs_mount_t \<Rightarrow> u8 list \<Rightarrow> (u32 \<times> ('m, 'b) odfs_mount_t) option" where
  "mount_session_start mnt buf =
     (if force_session (mnt_opts mnt) \<ge> 0 then do {
        ((err, toc), mnt) \<leftarrow> mount_read_toc mnt;
        if err = ODFS_OK \<and> force_session (mnt_opts mnt) < int (unat (toc_session_count toc)) then do {
          s \<leftarrow> rd (toc_sessions toc) (nat (force_session (mnt_opts mnt)));
          Some (sess_start_lba s, mnt) }
        else Some (0, mnt) }
      else on_media (\<lambda>m. do { (err, l, m) \<leftarrow> odfs_find_last_session m buf; Some (l, m) }) mnt)"

definition mount_finish :: "('m, 'b, 's) odfs_backend_ops list \<Rightarrow> ('m, 'b) odfs_mount_t \<Rightarrow> ('m, 'b) odfs_mount_t option" where
  "mount_finish bes mnt = do {
     i \<leftarrow> mnt_ops mnt;
     be \<leftarrow> rd bes i;
     let mnt = odfs_mount_register_backend mnt (backend (mnt_root mnt)) (Some i) (mnt_ctx mnt) (Some (mnt_root mnt));
     let mnt = (if be_type be \<noteq> backend (mnt_root mnt)
                then odfs_mount_register_backend mnt (be_type be) (Some i) (mnt_ctx mnt) None else mnt);
     b \<leftarrow> cget mnt (mnt_ctx mnt);
     mnt \<leftarrow> (case be_get_volume_name be of
                Some f \<Rightarrow> do { nm \<leftarrow> f b 128; Some (mnt\<lparr>mnt_volume_name := nm\<rparr>) }
              | None \<Rightarrow> Some mnt);
     Some (case be_get_volume_size be of Some f \<Rightarrow> mnt\<lparr>mnt_total_blocks := f b\<rparr> | None \<Rightarrow> mnt) }"

definition odfs_mount ::
    "('m, 'b, 's) odfs_backend_ops list \<Rightarrow> nat \<Rightarrow> (nat \<Rightarrow> nat \<Rightarrow> u8) \<Rightarrow> u8 list \<Rightarrow> 'b option list \<Rightarrow> heap \<Rightarrow> 'm odfs_media \<Rightarrow>
     odfs_mount_opts option \<Rightarrow> (odfs_err \<times> ('m, 'b) odfs_mount_t \<times> heap) option" where
  "odfs_mount bes ntab uninit buf ctxs h media opts = do {
     let mnt = (zero_mount ctxs)\<lparr>mnt_opts := (case opts of Some os \<Rightarrow> os | None \<Rightarrow> odfs_mount_opts_default)\<rparr>;
     let cache_size = (if cache_blocks (mnt_opts mnt) = 0 then ODFS_BLOCK_CACHE_SIZE else cache_blocks (mnt_opts mnt));
     case odfs_cache_init uninit h media cache_size of (err, c, h) \<Rightarrow> do {
       let mnt = mnt\<lparr>mnt_cache := c\<rparr>;
       if err \<noteq> ODFS_OK then Some (err, mnt, h)
       else do {
         let kib = (if meta_cache_kib (mnt_opts mnt) > 0x100000 then 0x100000 else meta_cache_kib (mnt_opts mnt));
         let mnt = mnt\<lparr>mnt_meta := odfs_meta_cache_init (push_bit 10 kib)\<rparr>;
         (ss, mnt) \<leftarrow> mount_session_start mnt buf;
         (starts, mnt) \<leftarrow> mount_build_session_candidates mnt ss 100;
         (err, mnt, h) \<leftarrow> session_loop bes ntab starts ODFS_ERR_BAD_FORMAT mnt h;
         if err \<noteq> ODFS_OK then do {
           meta \<leftarrow> odfs_meta_cache_destroy (mnt_meta mnt);
           Some (ODFS_ERR_BAD_FORMAT, mnt\<lparr>mnt_meta := meta, mnt_cache := odfs_cache_destroy (mnt_cache mnt)\<rparr>, h) }
         else do {
           mnt \<leftarrow> mount_finish bes mnt;
           Some (ODFS_OK, mnt, h) } } } }"

text \<open>Each registered context is unmounted once, at the first type it is registered for.\<close>

fun unmount_loop :: "('m, 'b) odfs_mount_t \<Rightarrow> odfs_backend_type list \<Rightarrow> odfs_backend_type list \<Rightarrow> bool \<Rightarrow>
    (bool \<times> ('m, 'b) odfs_mount_t) option" where
  "unmount_loop mnt before [] primary_seen = Some (primary_seen, mnt)"
| "unmount_loop mnt before (t # ts) primary_seen =
     (if mnt_map mnt t = None \<or>
         list_ex (\<lambda>j. mnt_map mnt j = mnt_map mnt t \<and> mnt_ctx_map mnt j = mnt_ctx_map mnt t) before
      then unmount_loop mnt (before @ [t]) ts primary_seen
      else do {
        let seen = (primary_seen \<or> mnt_map mnt t = mnt_ops mnt \<and> mnt_ctx_map mnt t = mnt_ctx mnt);
        mnt \<leftarrow> ctx_unmount mnt (mnt_ctx_map mnt t);
        unmount_loop mnt (before @ [t]) ts seen })"

definition odfs_unmount :: "('m, 'b) odfs_mount_t \<Rightarrow> ('m, 'b) odfs_mount_t option" where
  "odfs_unmount mnt = do {
     (primary_seen, mnt) \<leftarrow> unmount_loop mnt [] backend_types False;
     mnt \<leftarrow> (if \<not> primary_seen \<and> mnt_ops mnt \<noteq> None then ctx_unmount mnt (mnt_ctx mnt) else Some mnt);
     meta \<leftarrow> odfs_meta_cache_destroy (mnt_meta mnt);
     Some (zero_mount (mnt_ctxs mnt)) }"

section \<open>Dispatch\<close>

definition mount_is_root :: "('m, 'b) odfs_mount_t \<Rightarrow> odfs_node \<Rightarrow> bool" where
  "mount_is_root mnt node \<longleftrightarrow> odfs_node_matches_identity node (mnt_root mnt)"

definition mount_backend_for_type ::
    "('m, 'b, 's) odfs_backend_ops list \<Rightarrow> ('m, 'b) odfs_mount_t \<Rightarrow> odfs_backend_type \<Rightarrow>
     (('m, 'b, 's) odfs_backend_ops \<times> int) option option" where
  "mount_backend_for_type bes mnt t =
     (if t \<le> ODFS_BACKEND_NONE \<or> t \<ge> ODFS_BACKEND__COUNT then Some None
      else case mnt_map mnt t of
        Some i \<Rightarrow> do { be \<leftarrow> rd bes i; Some (Some (be, mnt_ctx_map mnt t)) }
      | None \<Rightarrow>
          (case mnt_ops mnt of
             Some i \<Rightarrow> do {
               be \<leftarrow> rd bes i;
               Some (if t = backend (mnt_root mnt) \<or> t = be_type be then Some (be, mnt_ctx mnt) else None) }
           | None \<Rightarrow> Some None))"

definition mount_virtual_root_by_name :: "('m, 'b) odfs_mount_t \<Rightarrow> odfs_node \<Rightarrow> u8 list \<Rightarrow> odfs_node option" where
  "mount_virtual_root_by_name mnt dir nm =
     (if \<not> mount_is_root mnt dir then None
      else find (\<lambda>n. odfs_strcasecmp nm (name n) = 0) (List.map_filter (mnt_vroots mnt) backend_types))"

text \<open>The client's callback, as the one a backend is given.\<close>

definition user_cb :: "'u dir_iter_fn \<Rightarrow> 'u cb_ctx dir_iter_fn" where
  "user_cb cb entry ctx h =
     (case ctx of
        Ctx_user s \<Rightarrow> (case cb entry s h of (err, s, h) \<Rightarrow> (err, Ctx_user s, h))
      | _ \<Rightarrow> (ODFS_ERR_INVAL, ctx, h))"

definition backend_readdir ::
    "('m, 'b, 'u cb_ctx) odfs_backend_ops \<Rightarrow> int \<Rightarrow> ('m, 'b) odfs_mount_t \<Rightarrow> heap \<Rightarrow> odfs_node \<Rightarrow> 'u dir_iter_fn \<Rightarrow> 'u \<Rightarrow> u32 \<Rightarrow>
     ((odfs_err \<times> u32 \<times> 'u) \<times> ('m, 'b) odfs_mount_t \<times> heap) option" where
  "backend_readdir be p mnt h dir cb s resume = do {
     ((err, res, ctx), mnt, h) \<leftarrow> be_call (\<lambda>b c h. be_readdir be b c h dir (user_cb cb) (Ctx_user s) resume) mnt p h;
     case ctx of Ctx_user s \<Rightarrow> Some ((err, res, s), mnt, h) | _ \<Rightarrow> None }"

text \<open>A call of the directory cache, on the mount's parts.\<close>

definition meta_call ::
    "('b \<Rightarrow> 'm odfs_cache \<Rightarrow> heap \<Rightarrow> ((('r \<times> odfs_meta_cache) \<times> 'b \<times> 'm odfs_cache \<times> heap) option)) \<Rightarrow>
     ('m, 'b) odfs_mount_t \<Rightarrow> int \<Rightarrow> heap \<Rightarrow> ('r \<times> ('m, 'b) odfs_mount_t \<times> heap) option" where
  "meta_call f mnt p h = do {
     ((r, meta), mnt, h) \<leftarrow> be_call f mnt p h;
     Some (r, mnt\<lparr>mnt_meta := meta\<rparr>, h) }"

definition odfs_readdir ::
    "('m, 'b, 'u cb_ctx) odfs_backend_ops list \<Rightarrow> (nat \<Rightarrow> odfs_node) \<Rightarrow> ('m, 'b) odfs_mount_t \<Rightarrow> heap \<Rightarrow> odfs_node \<Rightarrow>
     'u dir_iter_fn \<Rightarrow> 'u \<Rightarrow> u32 \<Rightarrow> ((odfs_err \<times> u32 \<times> 'u) \<times> ('m, 'b) odfs_mount_t \<times> heap) option" where
  "odfs_readdir bes junk mnt h dir cb s resume =
     (if kind dir \<noteq> ODFS_NODE_DIR then Some ((ODFS_ERR_NOT_DIR, resume, s), mnt, h)
      else do {
        be \<leftarrow> mount_backend_for_type bes mnt (backend dir);
        case be of
          None \<Rightarrow> Some ((ODFS_ERR_UNSUPPORTED, resume, s), mnt, h)
        | Some (be, p) \<Rightarrow> do {
            ((err, resume, s), mnt, h) \<leftarrow> meta_call
              (\<lambda>b c h. do { ((err, res, s, meta), st) \<leftarrow> odfs_meta_readdir junk (mnt_meta mnt) be b c h dir cb s resume;
                           Some (((err, res, s), meta), st) }) mnt p h;
            if err \<noteq> ODFS_ERR_UNSUPPORTED then Some ((err, resume, s), mnt, h)
            else backend_readdir be p mnt h dir cb s resume } })"

definition odfs_read ::
    "('m, 'b, 's) odfs_backend_ops list \<Rightarrow> ('m, 'b) odfs_mount_t \<Rightarrow> heap \<Rightarrow> odfs_node \<Rightarrow> u64 \<Rightarrow> u8 list \<Rightarrow> nat \<Rightarrow>
     ((odfs_err \<times> u8 list \<times> nat) \<times> ('m, 'b) odfs_mount_t \<times> heap) option" where
  "odfs_read bes mnt h file offset buf len =
     (if kind file = ODFS_NODE_DIR then Some ((ODFS_ERR_IS_DIR, buf, len), mnt, h)
      else do {
        be \<leftarrow> mount_backend_for_type bes mnt (backend file);
        case be of
          None \<Rightarrow> Some ((ODFS_ERR_UNSUPPORTED, buf, len), mnt, h)
        | Some (be, p) \<Rightarrow> be_call (\<lambda>b c h. be_read be b c h file offset buf len) mnt p h })"

definition odfs_file_is_contiguous ::
    "('m, 'b, 's) odfs_backend_ops list \<Rightarrow> ('m, 'b) odfs_mount_t \<Rightarrow> odfs_node \<Rightarrow> u32 option option" where
  "odfs_file_is_contiguous bes mnt file =
     (if kind file \<noteq> ODFS_NODE_FILE then Some None
      else do {
        be \<leftarrow> mount_backend_for_type bes mnt (backend file);
        Some (case be of
                Some (be, p) \<Rightarrow> if be_flags be AND ODFS_BACKEND_F_CONTIGUOUS \<noteq> 0 then Some (lba (extent file)) else None
              | None \<Rightarrow> None) })"

definition odfs_lookup ::
    "('m, 'b, 'u cb_ctx) odfs_backend_ops list \<Rightarrow> ('m, 'b) odfs_mount_t \<Rightarrow> heap \<Rightarrow> odfs_node \<Rightarrow> u8 list \<Rightarrow> odfs_node \<Rightarrow>
     ((odfs_err + odfs_node) \<times> ('m, 'b) odfs_mount_t \<times> heap) option" where
  "odfs_lookup bes mnt h dir nm out =
     (if kind dir \<noteq> ODFS_NODE_DIR then Some (Inl ODFS_ERR_NOT_DIR, mnt, h)
      else do {
        be \<leftarrow> mount_backend_for_type bes mnt (backend dir);
        case be of
          None \<Rightarrow> Some (Inl ODFS_ERR_UNSUPPORTED, mnt, h)
        | Some (be, p) \<Rightarrow> do {
            (r, mnt, h) \<leftarrow> meta_call (\<lambda>b c h. odfs_meta_lookup (mnt_meta mnt) be b c h dir nm out) mnt p h;
            if r \<noteq> Inl ODFS_ERR_UNSUPPORTED then Some (r, mnt, h)
            else be_call (\<lambda>b c h. be_lookup be b c h dir nm) mnt p h } })"

definition odfs_lookup_path ::
    "('m, 'b) odfs_mount_t \<Rightarrow> odfs_node \<Rightarrow> u8 list \<Rightarrow> odfs_node \<Rightarrow> odfs_node \<Rightarrow> odfs_node \<Rightarrow>
     ((odfs_err + odfs_node \<times> odfs_node \<times> odfs_node \<times> nat) \<times> ('m, 'b) odfs_mount_t) option" where
  "odfs_lookup_path mnt dir path out par gp =
     (if kind dir \<noteq> ODFS_NODE_DIR then Some (Inl ODFS_ERR_UNSUPPORTED, mnt)
      else do {
        (r, meta) \<leftarrow> odfs_meta_lookup_path (mnt_meta mnt) dir path out par gp;
        Some (r, mnt\<lparr>mnt_meta := meta\<rparr>) })"

definition odfs_readlink ::
    "('m, 'b, 's) odfs_backend_ops list \<Rightarrow> ('m, 'b) odfs_mount_t \<Rightarrow> heap \<Rightarrow> odfs_node \<Rightarrow> u8 list \<Rightarrow> nat \<Rightarrow>
     ((odfs_err + u8 list) \<times> ('m, 'b) odfs_mount_t \<times> heap) option" where
  "odfs_readlink bes mnt h dir nm buf_size =
     (if buf_size = 0 then Some (Inl ODFS_ERR_INVAL, mnt, h)
      else if kind dir \<noteq> ODFS_NODE_DIR then Some (Inl ODFS_ERR_NOT_DIR, mnt, h)
      else do {
        be \<leftarrow> mount_backend_for_type bes mnt (backend dir);
        case be of
          None \<Rightarrow> Some (Inl ODFS_ERR_UNSUPPORTED, mnt, h)
        | Some (be, p) \<Rightarrow>
            (case be_readlink be of
               None \<Rightarrow> Some (Inl ODFS_ERR_UNSUPPORTED, mnt, h)
             | Some f \<Rightarrow> be_call (\<lambda>b c h. f b c h dir nm buf_size) mnt p h) })"

text \<open>Resolving a path name by name.\<close>

lemma resolve_shrinks:
  "takeWhile P p \<noteq> [] \<Longrightarrow> length (dropWhile Q (drop (length (takeWhile P p)) p)) < length p"
proof -
  assume "takeWhile P p \<noteq> []"
  moreover from this have "p \<noteq> []" by auto
  ultimately have "length (drop (length (takeWhile P p)) p) < length p" by simp
  then show ?thesis using length_dropWhile_le[of Q "drop (length (takeWhile P p)) p"] by linarith
qed

function resolve_loop ::
    "('m, 'b, 'u cb_ctx) odfs_backend_ops list \<Rightarrow> ('m, 'b) odfs_mount_t \<Rightarrow> heap \<Rightarrow> odfs_node \<Rightarrow> u8 list \<Rightarrow>
     ((odfs_err + odfs_node) \<times> ('m, 'b) odfs_mount_t \<times> heap) option" where
  "resolve_loop bes mnt h current p =
     (if p = [] then Some (Inr current, mnt, h)
      else let nm = takeWhile (\<lambda>c. c \<noteq> 0x2F) p; rest = drop (length nm) p in
      if nm = [] then resolve_loop bes mnt h current (tl p)
      else if length nm \<ge> ODFS_NAME_MAX then Some (Inl ODFS_ERR_NAME_TOO_LONG, mnt, h)
      else case mount_virtual_root_by_name mnt current nm of
        Some root \<Rightarrow> resolve_loop bes mnt h root (dropWhile (\<lambda>c. c = 0x2F) rest)
      | None \<Rightarrow> do {
          (r, mnt, h) \<leftarrow> odfs_lookup bes mnt h current nm current;
          case r of
            Inl err \<Rightarrow> Some (Inl err, mnt, h)
          | Inr node \<Rightarrow> resolve_loop bes mnt h node (dropWhile (\<lambda>c. c = 0x2F) rest) })"
  by pat_completeness auto
termination
  by (relation "measure (\<lambda>(bes, mnt, h, current, p). length p)") (simp_all add: resolve_shrinks)

declare resolve_loop.simps [simp del]

definition odfs_resolve_path ::
    "('m, 'b, 'u cb_ctx) odfs_backend_ops list \<Rightarrow> ('m, 'b) odfs_mount_t \<Rightarrow> heap \<Rightarrow> u8 list \<Rightarrow>
     ((odfs_err + odfs_node) \<times> ('m, 'b) odfs_mount_t \<times> heap) option" where
  "odfs_resolve_path bes mnt h path = resolve_loop bes mnt h (mnt_root mnt) (dropWhile (\<lambda>c. c = 0x2F) path)"

end
