(* ===== verification/Ancestry.thy ===== *)
theory Ancestry
  imports Mount
begin

text \<open>
  Finding the parent of a node: the search of \<^verbatim>\<open>core/ancestry.c\<close>, depth first from the root with a stack of
  directories and their resume points, and \<open>odfs_resolve_parent_node\<close> of \<^verbatim>\<open>core/mount.c\<close>, which asks the
  backend first.
\<close>

record ancestry_frame =
  fr_dir :: odfs_node
  fr_resume :: u32

text \<open>The frame behind \<open>child_frame\<close> is the one pushed when \<open>descend\<close> is set.\<close>

record ancestry_search_ctx =
  asc_child :: "ancestry_frame option"
  asc_found :: bool
  asc_descend :: bool

definition ancestry_search_cb :: "odfs_node \<Rightarrow> ancestry_search_ctx dir_iter_fn" where
  "ancestry_search_cb target entry asc h =
     (if odfs_node_matches_identity entry target then (ODFS_ERR_EOF, asc\<lparr>asc_found := True\<rparr>, h)
      else if \<not> asc_descend asc \<and> kind entry = ODFS_NODE_DIR
      then (ODFS_ERR_EOF, asc\<lparr>asc_child := Some \<lparr>fr_dir = entry, fr_resume = 0\<rparr>, asc_descend := True\<rparr>, h)
      else (ODFS_OK, asc, h))"

record ('m, 'b) search_state =
  se_mnt :: "('m, 'b) odfs_mount_t"
  se_heap :: heap
  se_frames :: "ancestry_frame list"
  se_cap :: nat
  se_err :: odfs_err

text \<open>The error and, when found, the parent and the grandparent; the top of the stack is the last frame.\<close>

type_synonym ('m, 'b) search_result = "(odfs_err \<times> (odfs_node \<times> odfs_node) option) \<times> ('m, 'b) odfs_mount_t \<times> heap"

definition search_body ::
    "('m, 'b, ancestry_search_ctx cb_ctx) odfs_backend_ops list \<Rightarrow> (nat \<Rightarrow> odfs_node) \<Rightarrow> odfs_node \<Rightarrow> ('m, 'b) search_state \<Rightarrow>
     (('m, 'b) search_result + ('m, 'b) search_state) option" where
  "search_body bes junk node st =
     (if se_frames st = [] then Some (Inl ((se_err st, None), se_mnt st, se_heap st))
      else
        let (grown, h) = (if length (se_frames st) = se_cap st then odfs_malloc (se_heap st) else (True, se_heap st)) in
        if \<not> grown then Some (Inl ((ODFS_ERR_NOMEM, None), se_mnt st, h))
        else do {
          let cap = (if length (se_frames st) = se_cap st then se_cap st * 2 else se_cap st);
          let below = butlast (se_frames st);
          let cur = last (se_frames st);
          ((err, res, asc), mnt, h) \<leftarrow> odfs_readdir bes junk (se_mnt st) h (fr_dir cur) (ancestry_search_cb node)
             \<lparr>asc_child = None, asc_found = False, asc_descend = False\<rparr> (fr_resume cur);
          let cur = cur\<lparr>fr_resume := res\<rparr>;
          if asc_found asc then
            Some (Inl ((ODFS_OK, Some (fr_dir cur, if below \<noteq> [] then fr_dir (last below) else mnt_root mnt)), mnt, h))
          else if asc_descend asc then do {
            child \<leftarrow> asc_child asc;
            Some (Inr \<lparr>se_mnt = mnt, se_heap = h, se_frames = below @ [cur, child], se_cap = cap, se_err = err\<rparr>) }
          else if err \<noteq> ODFS_OK then
            Some (Inl ((if err = ODFS_ERR_EOF then ODFS_ERR_NOT_FOUND else err, None), mnt, h))
          else Some (Inr \<lparr>se_mnt = mnt, se_heap = h, se_frames = below, se_cap = cap, se_err = err\<rparr>) })"

definition odfs_resolve_parent_search ::
    "('m, 'b, ancestry_search_ctx cb_ctx) odfs_backend_ops list \<Rightarrow> (nat \<Rightarrow> odfs_node) \<Rightarrow> ('m, 'b) odfs_mount_t \<Rightarrow> heap \<Rightarrow> odfs_node \<Rightarrow>
     ('m, 'b) search_result option" where
  "odfs_resolve_parent_search bes junk mnt h node =
     (case odfs_malloc h of
        (False, h) \<Rightarrow> Some ((ODFS_ERR_NOMEM, None), mnt, h)
      | (True, h) \<Rightarrow> iter (search_body bes junk node)
          \<lparr>se_mnt = mnt, se_heap = h, se_frames = [\<lparr>fr_dir = mnt_root mnt, fr_resume = 0\<rparr>], se_cap = 8,
           se_err = ODFS_ERR_NOT_FOUND\<rparr>)"

text \<open>
  The nodes stored in \<open>parent_out\<close> and \<open>grandparent_out\<close>, if any.  A backend's resolver that stores a
  parent but, having failed later, no grandparent returns an error, and its parent is not shown here.
\<close>

definition odfs_resolve_parent_node ::
    "('m, 'b, ancestry_search_ctx cb_ctx) odfs_backend_ops list \<Rightarrow> (nat \<Rightarrow> odfs_node) \<Rightarrow> ('m, 'b) odfs_mount_t \<Rightarrow> heap \<Rightarrow> odfs_node \<Rightarrow>
     ((odfs_err \<times> (odfs_node \<times> odfs_node option) option) \<times> ('m, 'b) odfs_mount_t \<times> heap) option" where
  "odfs_resolve_parent_node bes junk mnt h node =
     (if mount_is_root mnt node then Some ((ODFS_ERR_NOT_FOUND, None), mnt, h)
      else do {
        be \<leftarrow> mount_backend_for_type bes mnt (backend node);
        let search = (\<lambda>mnt h. do {
          ((err, r), mnt, h) \<leftarrow> odfs_resolve_parent_search bes junk mnt h node;
          Some ((err, map_option (\<lambda>(p, g). (p, Some g)) r), mnt, h) });
        case be of
          None \<Rightarrow> search mnt h
        | Some (be, p) \<Rightarrow>
            (case be_resolve_parent be of
               None \<Rightarrow> search mnt h
             | Some f \<Rightarrow> do {
                 (r, mnt, h) \<leftarrow> be_call (\<lambda>b c h. f b c h node True) mnt p h;
                 case r of
                   Inr (par, gp) \<Rightarrow> Some ((ODFS_OK, Some (par, gp)), mnt, h)
                 | Inl err \<Rightarrow> if err \<noteq> ODFS_ERR_UNSUPPORTED then Some ((err, None), mnt, h) else search mnt h }) })"

end
