(* ===== verification/Mount_Facts.thy ===== *)
theory Mount_Facts
  imports Ancestry Meta_Path
begin

text \<open>
  What the mount layer promises: listings, lookups and paths through the directory cache and the
  backend are those of the backend's directories, and every context a mount allocates is freed.
\<close>

section \<open>Calls on a context\<close>

lemma cget_cput [simp]: "cget mnt p = Some b \<Longrightarrow> cget (cput mnt p x) p = x"
  by (auto simp: cget_def cput_def split: if_splits)

lemma cget_cache [simp]: "cget (mnt\<lparr>mnt_cache := c\<rparr>) p = cget mnt p" "cget (mnt\<lparr>mnt_meta := m\<rparr>) p = cget mnt p"
  by (simp_all add: cget_def)

lemma cput_fields [simp]:
  "mnt_cache (cput mnt p x) = mnt_cache mnt" "mnt_meta (cput mnt p x) = mnt_meta mnt" "mnt_map (cput mnt p x) = mnt_map mnt"
  "mnt_ctx_map (cput mnt p x) = mnt_ctx_map mnt" "mnt_ops (cput mnt p x) = mnt_ops mnt" "mnt_ctx (cput mnt p x) = mnt_ctx mnt"
  "mnt_root (cput mnt p x) = mnt_root mnt" "mnt_vroots (cput mnt p x) = mnt_vroots mnt"
  by (simp_all add: cput_def)

text \<open>What the operations on files and directories leave as it is.\<close>

definition same_mount :: "('m, 'b) odfs_mount_t \<Rightarrow> ('m, 'b) odfs_mount_t \<Rightarrow> bool" where
  "same_mount mnt mnt' \<longleftrightarrow> mnt_map mnt' = mnt_map mnt \<and> mnt_ctx_map mnt' = mnt_ctx_map mnt \<and> mnt_ops mnt' = mnt_ops mnt \<and>
     mnt_ctx mnt' = mnt_ctx mnt \<and> mnt_root mnt' = mnt_root mnt \<and> mnt_vroots mnt' = mnt_vroots mnt"

lemma same_mount_refl [simp]: "same_mount mnt mnt"
  by (simp add: same_mount_def)

lemma same_mount_trans: "same_mount a b \<Longrightarrow> same_mount b c \<Longrightarrow> same_mount a c"
  by (simp add: same_mount_def)

lemma same_mount_type: "same_mount mnt mnt' \<Longrightarrow> mount_backend_for_type bes mnt' t = mount_backend_for_type bes mnt t"
  unfolding same_mount_def mount_backend_for_type_def by (elim conjE) (simp only:)

lemma be_call_ok:
  assumes "cget mnt p = Some b" "f b (mnt_cache mnt) h = Some (r, b', c', h')"
  shows "\<exists>mnt'. be_call f mnt p h = Some (r, mnt', h') \<and> same_mount mnt mnt' \<and> cget mnt' p = Some b' \<and> mnt_cache mnt' = c' \<and>
    mnt_meta mnt' = mnt_meta mnt"
  using assms by (simp add: be_call_def same_mount_def)

section \<open>A backend that is ready\<close>

definition ready ::
    "('m, 'b, 's) odfs_backend_ops list \<Rightarrow> ('b \<Rightarrow> 'm odfs_cache \<Rightarrow> bool) \<Rightarrow> (dir_key \<Rightarrow> odfs_node list option) \<Rightarrow>
     odfs_backend_type \<Rightarrow> ('m, 'b, 's) odfs_backend_ops \<Rightarrow> int \<Rightarrow> ('m, 'b) odfs_mount_t \<Rightarrow> bool" where
  "ready bes bok listing t be p mnt \<longleftrightarrow> mount_backend_for_type bes mnt t = Some (Some (be, p)) \<and>
     (\<exists>b. cget mnt p = Some b \<and> bok b (mnt_cache mnt)) \<and> (\<exists>xs. meta_inv listing (mnt_meta mnt) xs {})"

lemma meta_call_ok:
  assumes "cget mnt p = Some b" "f b (mnt_cache mnt) h = Some ((r, meta'), b', c', h')"
  shows "\<exists>mnt'. meta_call f mnt p h = Some (r, mnt', h') \<and> same_mount mnt mnt' \<and> cget mnt' p = Some b' \<and> mnt_cache mnt' = c' \<and>
    mnt_meta mnt' = meta'"
  using assms by (simp add: meta_call_def be_call_def same_mount_def)

lemma readyI:
  "ready bes bok listing t be p mnt \<Longrightarrow> same_mount mnt mnt' \<Longrightarrow> cget mnt' p = Some b \<Longrightarrow> bok b (mnt_cache mnt') \<Longrightarrow>
   meta_inv listing (mnt_meta mnt') xs {} \<Longrightarrow> ready bes bok listing t be p mnt'"
  unfolding ready_def by (auto simp: same_mount_type)

lemma served_user:
  assumes "served faults (user_cb cb) ns s err s' k" "s = Ctx_user u"
  shows "\<exists>u'. s' = Ctx_user u' \<and> served faults cb ns u err u' k"
  using assms
proof (induction arbitrary: u rule: served.induct)
  case (step e n s h s1 h1 ns err s' k)
  obtain err1 u1 h2 where c: "cb e u h = (err1, u1, h2)" by (cases "cb e u h")
  then have "s1 = Ctx_user u1" "err1 = ODFS_OK" using step.hyps(2) step.prems by (auto simp: user_cb_def)
  with step.IH[of u1] served.step[OF step.hyps(1), of cb u h u1 h2] c show ?case by blast
next
  case (stop e n s h err s' h1 ns)
  obtain err1 u1 h2 where c: "cb e u h = (err1, u1, h2)" by (cases "cb e u h")
  then have "s' = Ctx_user u1" "err1 = err" using stop.hyps(2) stop.prems by (auto simp: user_cb_def)
  with served.stop[OF stop.hyps(1), of cb u h err u1 h2] c stop.hyps(3) show ?case by blast
qed (auto intro: served.intros)

text \<open>A callback's error is one of its own, or of the source.\<close>

lemma served_err:
  "served faults cb ns s err s' k \<Longrightarrow> err \<noteq> ODFS_OK \<Longrightarrow> err \<in> faults \<or> (\<exists>e s h. fst (cb e s h) = err)"
  by (induction rule: served.induct) (auto intro: fstI)

lemma readdir_start:
  assumes s: "dir_source be bok listing faults" and r: "ready bes bok listing t be p mnt"
    and d: "kind dir = ODFS_NODE_DIR" "backend dir = t" "listing (dir_key dir) = Some ns" "length ns < 2 ^ 31"
    and u: "ODFS_ERR_UNSUPPORTED \<notin> faults" "\<And>e s h. fst (cb e s h) \<noteq> ODFS_ERR_UNSUPPORTED"
  shows "\<exists>err res s' mnt' h' k. odfs_readdir bes junk mnt h dir cb s 0 = Some ((err, res, s'), mnt', h') \<and>
    ready bes bok listing t be p mnt' \<and> same_mount mnt mnt' \<and> served faults cb ns s err s' k"
proof -
  from r obtain b xs where b: "mount_backend_for_type bes mnt t = Some (Some (be, p))" "cget mnt p = Some b" "bok b (mnt_cache mnt)"
    "meta_inv listing (mnt_meta mnt) xs {}" by (auto simp: ready_def)
  have cs: "cached_source be bok listing faults" using s by (simp add: cached_source_def)
  note cd = cached_source.consistent_def[OF cs]
  have "cached_source.consistent listing (mnt_meta mnt)" using b(4) by (auto simp: cd)
  from cached_source.readdir_ok[OF cs this b(3) d(3,4), of 0 0 junk h cb s] obtain err res s' meta b' c' h' where
    m0: "odfs_meta_readdir junk (mnt_meta mnt) be b (mnt_cache mnt) h dir cb s 0 = Some ((err, res, s', meta), b', c', h')"
       "cached_source.consistent listing meta" "bok b' c'"
       "err = ODFS_ERR_UNSUPPORTED \<and> res = 0 \<and> s' = s \<or> (\<exists>k. served faults cb (drop 0 ns) s err s' k)"
    by blast
  from m0(2) obtain ys where "meta_inv listing meta ys {}" by (auto simp: cd)
  note m = m0(1) this m0(3,4)
  define f where "f = (\<lambda>b c h. do { ((err, res, s, meta), st) \<leftarrow> odfs_meta_readdir junk (mnt_meta mnt) be b c h dir cb s 0;
                           Some (((err, res, s), meta), st) })"
  have "f b (mnt_cache mnt) h = Some (((err, res, s'), meta), b', c', h')" using m(1) by (simp add: f_def)
  from meta_call_ok[of mnt p b f, OF b(2) this] obtain mnt1 where
    c: "meta_call f mnt p h = Some ((err, res, s'), mnt1, h')" "same_mount mnt mnt1" "cget mnt1 p = Some b'" "mnt_cache mnt1 = c'" "mnt_meta mnt1 = meta"
    by blast
  have rd1: "ready bes bok listing t be p mnt1" by (rule readyI[OF r c(2,3)]) (use c m in auto)
  have un: "odfs_readdir bes junk mnt h dir cb s 0 =
    (if err \<noteq> ODFS_ERR_UNSUPPORTED then Some ((err, res, s'), mnt1, h') else backend_readdir be p mnt1 h' dir cb s' res)"
    using d(1,2) b(1) c(1) unfolding odfs_readdir_def by (simp add: f_def)
  show ?thesis
  proof (cases "err = ODFS_ERR_UNSUPPORTED")
    case False
    then show ?thesis using un m(4) rd1 c(2) by auto
  next
    case True
    then have "\<not> served faults cb (drop 0 ns) s err s' k" for k using served_err[of faults cb "drop 0 ns" s err s' k] u by auto
    then have e: "res = 0" "s' = s" using m(4) by auto
    have "bok b' (mnt_cache mnt1)" using m(3) c(4) by simp
    from dir_source.readdir_served[OF s this d(3), of h' "user_cb cb" "Ctx_user s"] obtain err2 res2 s2 b2 c2 h2 k where
      q: "be_readdir be b' (mnt_cache mnt1) h' dir (user_cb cb) (Ctx_user s) 0 = Some ((err2, res2, s2), b2, c2, h2)" "bok b2 c2"
         "served faults (user_cb cb) ns (Ctx_user s) err2 s2 k" by blast
    from served_user[OF q(3) refl] obtain u' where u': "s2 = Ctx_user u'" "served faults cb ns s err2 u' k" by blast
    from be_call_ok[of mnt1 p b' "\<lambda>b c h. be_readdir be b c h dir (user_cb cb) (Ctx_user s) 0", OF c(3) q(1)] obtain mnt2 where
      k: "be_call (\<lambda>b c h. be_readdir be b c h dir (user_cb cb) (Ctx_user s) 0) mnt1 p h' = Some ((err2, res2, s2), mnt2, h2)"
        "same_mount mnt1 mnt2" "cget mnt2 p = Some b2" "mnt_cache mnt2 = c2" "mnt_meta mnt2 = mnt_meta mnt1" by blast
    have "backend_readdir be p mnt1 h' dir cb s 0 = Some ((err2, res2, u'), mnt2, h2)" using k(1) u'(1) by (simp add: backend_readdir_def)
    moreover have "ready bes bok listing t be p mnt2" by (rule readyI[OF rd1 k(2,3)]) (use k q m c in auto)
    ultimately show ?thesis using un True e u'(2) same_mount_trans[OF c(2) k(2)] by auto
  qed
qed

section \<open>Lookup\<close>

lemma mount_lookup_ok:
  assumes s: "dir_backend be bok listing faults" and r: "ready bes bok listing t be p mnt"
    and d: "kind dir = ODFS_NODE_DIR" "backend dir = t" "listing (dir_key dir) = Some ns" "0 \<notin> set nm"
  shows "\<exists>r mnt' h'. odfs_lookup bes mnt h dir nm out = Some (r, mnt', h') \<and> ready bes bok listing t be p mnt' \<and>
    same_mount mnt mnt' \<and> lookup_result faults ns nm r"
proof -
  from r obtain b xs where b: "mount_backend_for_type bes mnt t = Some (Some (be, p))" "cget mnt p = Some b" "bok b (mnt_cache mnt)"
    "meta_inv listing (mnt_meta mnt) xs {}" by (auto simp: ready_def)
  have ds: "dir_source be bok listing faults" using s by (simp add: dir_backend_def)
  then have cs: "cached_source be bok listing faults" by (simp add: cached_source_def)
  note cd = cached_source.consistent_def[OF cs]
  have "cached_source.consistent listing (mnt_meta mnt)" using b(4) by (auto simp: cd)
  from cached_source.lookup_ok[OF cs this b(3) d(3,4), of h out] obtain q meta b' c' h' ys where
    m: "odfs_meta_lookup (mnt_meta mnt) be b (mnt_cache mnt) h dir nm out = Some ((q, meta), b', c', h')"
       "meta_inv listing meta ys {}" "bok b' c'" "q = Inl ODFS_ERR_UNSUPPORTED \<or> lookup_result faults ns nm q"
    by (auto simp: cd lookup_result_def)
  define f where "f = (\<lambda>b c h. odfs_meta_lookup (mnt_meta mnt) be b c h dir nm out)"
  have "f b (mnt_cache mnt) h = Some ((q, meta), b', c', h')" using m(1) by (simp add: f_def)
  from meta_call_ok[of mnt p b f, OF b(2) this] obtain mnt1 where
    c: "meta_call f mnt p h = Some (q, mnt1, h')" "same_mount mnt mnt1" "cget mnt1 p = Some b'" "mnt_cache mnt1 = c'" "mnt_meta mnt1 = meta" by blast
  have rd1: "ready bes bok listing t be p mnt1" by (rule readyI[OF r c(2,3)]) (use c m in auto)
  have un: "odfs_lookup bes mnt h dir nm out =
    (if q \<noteq> Inl ODFS_ERR_UNSUPPORTED then Some (q, mnt1, h') else be_call (\<lambda>b c h. be_lookup be b c h dir nm) mnt1 p h')"
    using d(1,2) b(1) c(1) unfolding odfs_lookup_def by (simp add: f_def)
  show ?thesis
  proof (cases "q = Inl ODFS_ERR_UNSUPPORTED")
    case False
    then show ?thesis using un m(4) rd1 c(2) by auto
  next
    case True
    have "bok b' (mnt_cache mnt1)" using m(3) c(4) by simp
    from dir_backend.lookup_serves[OF s this d(3), of h' nm] obtain q2 b2 c2 h2 where
      l: "be_lookup be b' (mnt_cache mnt1) h' dir nm = Some (q2, b2, c2, h2)" "bok b2 c2" "lookup_result faults ns nm q2" by blast
    from be_call_ok[of mnt1 p b' "\<lambda>b c h. be_lookup be b c h dir nm", OF c(3) l(1)] obtain mnt2 where
      k: "be_call (\<lambda>b c h. be_lookup be b c h dir nm) mnt1 p h' = Some (q2, mnt2, h2)" "same_mount mnt1 mnt2" "cget mnt2 p = Some b2"
        "mnt_cache mnt2 = c2" "mnt_meta mnt2 = mnt_meta mnt1" by blast
    have "ready bes bok listing t be p mnt2" by (rule readyI[OF rd1 k(2,3)]) (use k l m c in auto)
    then show ?thesis using un True k(1) l(3) same_mount_trans[OF c(2) k(2)] by auto
  qed
qed

end
