(* ===== verification/Mount_Path.thy ===== *)
theory Mount_Path
  imports Mount_Facts
begin

text \<open>
  Resolving a path on a mount, against the walk along the names of the path.
\<close>

section \<open>The names of a path\<close>

primrec splits :: "u8 list \<Rightarrow> u8 list list" where
  "splits [] = [[]]"
| "splits (c # cs) = (if c = 0x2F then [] # splits cs else (c # hd (splits cs)) # tl (splits cs))"

definition path_parts :: "u8 list \<Rightarrow> u8 list list" where
  "path_parts p = filter (\<lambda>nm. nm \<noteq> []) (splits p)"

lemma splits_not_Nil [simp]: "splits p \<noteq> []"
  by (cases p) auto

lemma splits_prefix: "0x2F \<notin> set a \<Longrightarrow> splits (a @ p) = (a @ hd (splits p)) # tl (splits p)"
  by (induction a) auto

lemma parts_slashes [simp]: "path_parts (dropWhile (\<lambda>c. c = 0x2F) p) = path_parts p"
  by (induction p) (auto simp: path_parts_def)

lemma parts_name:
  assumes "takeWhile (\<lambda>c. c \<noteq> 0x2F) p = nm" "nm \<noteq> []"
  shows "path_parts p = nm # path_parts (drop (length nm) p)"
proof -
  define q where "q = drop (length nm) p"
  have p: "q = dropWhile (\<lambda>c. c \<noteq> 0x2F) p" "p = nm @ q" using assms(1) by (auto simp: q_def dropWhile_eq_drop[symmetric])
  have n: "0x2F \<notin> set nm" using assms(1) set_takeWhileD by fastforce
  have "hd (splits q) = []"
  proof (cases q)
    case (Cons c cs)
    then have "c = 0x2F" using p(1) hd_dropWhile[of "\<lambda>c. c \<noteq> 0x2F" p] by simp
    then show ?thesis using Cons by simp
  qed simp
  then have "splits q = [] # tl (splits q)" by (metis list.collapse splits_not_Nil)
  then have "path_parts q = filter (\<lambda>nm. nm \<noteq> []) (tl (splits q))" by (metis (mono_tags, lifting) filter.simps(2) path_parts_def)
  then show ?thesis using splits_prefix[OF n, of q] \<open>hd (splits q) = []\<close> assms(2) p(2) by (simp add: path_parts_def q_def[symmetric])
qed

lemma parts_chars: "nm \<in> set (path_parts p) \<Longrightarrow> set nm \<subseteq> set p"
proof -
  have "\<forall>nm \<in> set (splits p). set nm \<subseteq> set p"
  proof (induction p)
    case (Cons c cs)
    have "set (hd (splits cs)) \<subseteq> set cs" using Cons by (metis hd_in_set splits_not_Nil)
    moreover have "set (tl (splits cs)) \<subseteq> set (splits cs)" by (meson list.set_sel(2) splits_not_Nil subsetI)
    ultimately show ?case using Cons by (auto 0 3)
  qed simp
  then show "nm \<in> set (path_parts p) \<Longrightarrow> set nm \<subseteq> set p" by (auto simp: path_parts_def)
qed

section \<open>The walk\<close>

text \<open>What resolving the names from a node gives; \<open>ODFS_ERR_UNSUPPORTED\<close> where a directory on the way is not listed.\<close>

fun resolve_names :: "(dir_key \<Rightarrow> odfs_node list option) \<Rightarrow> odfs_node \<Rightarrow> u8 list list \<Rightarrow> odfs_err + odfs_node" where
  "resolve_names listing cur [] = Inr cur"
| "resolve_names listing cur (nm # nms) =
     (if length nm \<ge> ODFS_NAME_MAX then Inl ODFS_ERR_NAME_TOO_LONG
      else if kind cur \<noteq> ODFS_NODE_DIR then Inl ODFS_ERR_NOT_DIR
      else case listing (dir_key cur) of
        None \<Rightarrow> Inl ODFS_ERR_UNSUPPORTED
      | Some ns \<Rightarrow>
          (case find (\<lambda>n. odfs_strcasecmp (name n) nm = 0) ns of
             None \<Rightarrow> Inl ODFS_ERR_NOT_FOUND
           | Some n \<Rightarrow> resolve_names listing n nms))"

definition resolved :: "odfs_err set \<Rightarrow> odfs_err + odfs_node \<Rightarrow> odfs_err + odfs_node \<Rightarrow> bool" where
  "resolved faults spec r \<longleftrightarrow> (\<exists>e \<in> faults. r = Inl e) \<or>
     (case spec of Inl e \<Rightarrow> r = Inl e | Inr n \<Rightarrow> \<exists>n'. r = Inr n' \<and> seen n' = seen n)"

lemma seen_key: "seen a = seen b \<Longrightarrow> dir_key a = dir_key b \<and> kind a = kind b \<and> backend a = backend b"
  using seen_fields[of a b] by (simp add: dir_key_def)

lemma resolve_names_seen: "seen a = seen b \<Longrightarrow> resolved {} (resolve_names listing b nms) (resolve_names listing a nms)"
  using seen_key[of a b] by (cases nms) (auto simp: resolved_def split: sum.splits option.splits)

lemma resolved_trans: "resolved {} spec a \<Longrightarrow> resolved faults a r \<Longrightarrow> resolved faults spec r"
  by (auto simp: resolved_def split: sum.splits)

lemma no_vroot:
  assumes "\<And>t n. mnt_vroots mnt t = Some n \<Longrightarrow> odfs_strcasecmp nm (name n) \<noteq> 0"
  shows "mount_virtual_root_by_name mnt dir nm = None"
  using assms by (auto simp: mount_virtual_root_by_name_def find_None_iff List.map_filter_def)

lemma resolve_loop_ok:
  assumes s: "dir_backend be bok listing faults" and t: "\<And>key ns n. listing key = Some ns \<Longrightarrow> n \<in> set ns \<Longrightarrow> backend n = t"
    and "ready bes bok listing t be p mnt" "backend cur = t" "0 \<notin> set q" "q \<noteq> [] \<Longrightarrow> hd q \<noteq> 0x2F"
    "\<And>nm t n. nm \<in> set (path_parts q) \<Longrightarrow> mnt_vroots mnt t = Some n \<Longrightarrow> odfs_strcasecmp nm (name n) \<noteq> 0"
    "resolve_names listing cur (path_parts q) \<noteq> Inl ODFS_ERR_UNSUPPORTED"
  shows "\<exists>r mnt' h'. resolve_loop bes mnt h cur q = Some (r, mnt', h') \<and> ready bes bok listing t be p mnt' \<and> same_mount mnt mnt' \<and>
    resolved faults (resolve_names listing cur (path_parts q)) r"
  using assms(3-8)
proof (induction q arbitrary: mnt cur h rule: length_induct)
  case (1 q)
  show ?case
  proof (cases "q = []")
    case True
    then show ?thesis using "1.prems" by (simp add: resolve_loop.simps path_parts_def resolved_def)
  next
    case False
    define nm where "nm = takeWhile (\<lambda>c. c \<noteq> 0x2F) q"
    define q' where "q' = dropWhile (\<lambda>c. c = 0x2F) (drop (length nm) q)"
    have nm: "nm \<noteq> []" using False "1.prems"(4) by (cases q) (auto simp: nm_def)
    have pp: "path_parts q = nm # path_parts q'" using parts_name[OF _ nm, of q] by (simp add: q'_def nm_def)
    have vr: "mount_virtual_root_by_name mnt cur nm = None" using "1.prems"(5) pp by (auto intro: no_vroot)
    note un = resolve_loop.simps[of bes mnt h cur q, unfolded Let_def, folded nm_def, folded q'_def]
    have un1: "resolve_loop bes mnt h cur q = (if length nm \<ge> ODFS_NAME_MAX then Some (Inl ODFS_ERR_NAME_TOO_LONG, mnt, h)
      else odfs_lookup bes mnt h cur nm cur \<bind> (\<lambda>(r, mnt, h). case r of Inl err \<Rightarrow> Some (Inl err, mnt, h)
          | Inr node \<Rightarrow> resolve_loop bes mnt h node q'))" using un False nm vr by simp
    consider "length nm \<ge> ODFS_NAME_MAX" | "length nm < ODFS_NAME_MAX" "kind cur \<noteq> ODFS_NODE_DIR"
      | ns where "length nm < ODFS_NAME_MAX" "kind cur = ODFS_NODE_DIR" "listing (dir_key cur) = Some ns"
      using "1.prems"(6) pp by fastforce
    then show ?thesis
    proof cases
      case 1
      then show ?thesis using un1 pp "1.prems"(1) by (simp add: resolved_def)
    next
      case 2
      then show ?thesis using un1 pp "1.prems"(1) by (simp add: resolved_def odfs_lookup_def)
    next
      case (3 ns)
      have n0: "0 \<notin> set nm" using "1.prems"(3) set_takeWhileD[of 0 _ q] by (auto simp: nm_def)
      from mount_lookup_ok[OF s "1.prems"(1) 3(2) "1.prems"(2) 3(3) n0, of h cur] obtain r mnt1 h1 where
        l: "odfs_lookup bes mnt h cur nm cur = Some (r, mnt1, h1)" "ready bes bok listing t be p mnt1" "same_mount mnt mnt1"
           "lookup_result faults ns nm r" by blast
      show ?thesis
      proof (cases r)
        case (Inl e)
        then show ?thesis using un1 3 l pp by (auto simp: lookup_result_def resolved_def split: option.splits)
      next
        case (Inr n')
        then obtain n where n: "find (\<lambda>n. odfs_strcasecmp (name n) nm = 0) ns = Some n" "seen n' = seen n"
          using l(4) by (auto simp: lookup_result_def split: option.splits)
        have sp: "resolve_names listing cur (path_parts q) = resolve_names listing n (path_parts q')" using pp 3 n by simp
        have rs: "resolved {} (resolve_names listing n (path_parts q')) (resolve_names listing n' (path_parts q'))"
          by (rule resolve_names_seen[OF n(2)])
        have len: "length q' < length q" using resolve_shrinks[of "\<lambda>c. c \<noteq> 0x2F" q] nm by (simp add: q'_def nm_def)
        have "n \<in> set ns" using n(1) by (metis find_Some_iff nth_mem)
        then have bt: "backend n' = t" using t[OF 3(3)] seen_key[OF n(2)] by simp
        have q0: "0 \<notin> set q'" using "1.prems"(3) unfolding q'_def by (meson set_dropWhileD in_set_dropD)
        have hdq: "q' \<noteq> [] \<Longrightarrow> hd q' \<noteq> 0x2F" unfolding q'_def by (drule hd_dropWhile) simp
        have vr': "odfs_strcasecmp x (name m) \<noteq> 0" if "x \<in> set (path_parts q')" "mnt_vroots mnt1 u = Some m" for x u m
          using "1.prems"(5)[of x u m] that pp l(3) by (simp add: same_mount_def)
        have ns': "resolve_names listing n' (path_parts q') \<noteq> Inl ODFS_ERR_UNSUPPORTED"
          using rs "1.prems"(6) unfolding sp by (cases "resolve_names listing n (path_parts q')") (auto simp: resolved_def)
        have "\<exists>r mnt' h'. resolve_loop bes mnt1 h1 n' q' = Some (r, mnt', h') \<and> ready bes bok listing t be p mnt' \<and> same_mount mnt1 mnt' \<and>
          resolved faults (resolve_names listing n' (path_parts q')) r"
          by (rule "1.IH"[rule_format, OF len l(2) bt q0 hdq vr' ns']) auto
        then obtain r2 mnt2 h2 where z: "resolve_loop bes mnt1 h1 n' q' = Some (r2, mnt2, h2)" "ready bes bok listing t be p mnt2"
          "same_mount mnt1 mnt2" "resolved faults (resolve_names listing n' (path_parts q')) r2" by blast
        have "resolve_loop bes mnt h cur q = Some (r2, mnt2, h2)" using un1 3 l(1) Inr z(1) by simp
        then show ?thesis unfolding sp using z(2) same_mount_trans[OF l(3) z(3)] resolved_trans[OF rs z(4)] by blast
      qed
    qed
  qed
qed

end
