(* ===== verification/Mount_Ctx.thy ===== *)
theory Mount_Ctx
  imports Mount_Facts
begin

text \<open>
  The contexts of the backends: at every stage of choosing a backend at most one is alive besides those
  from before, the one the mount points to; an attempt that is given up leaves none behind.
\<close>

definition live_ctxs :: "'b option list \<Rightarrow> nat set" where
  "live_ctxs cs = {i. i < length cs \<and> cs ! i \<noteq> None}"

lemma live_push [simp]: "live_ctxs (cs @ [Some b]) = insert (length cs) (live_ctxs cs)"
  by (auto simp: live_ctxs_def nth_append split: if_splits)

lemma live_fresh [simp]: "length cs \<notin> live_ctxs cs"
  by (simp add: live_ctxs_def)

lemma live_clear: "live_ctxs (cs[i := None]) = live_ctxs cs - {i}"
proof -
  have "x \<in> live_ctxs (cs[i := None]) \<longleftrightarrow> x \<in> live_ctxs cs - {i}" for x
    by (cases "x = i") (auto simp: live_ctxs_def)
  then show ?thesis by blast
qed

lemma cget_live: "cget mnt p = Some b \<Longrightarrow> \<exists>i. p = int i \<and> i \<in> live_ctxs (mnt_ctxs mnt)"
  by (cases "0 \<le> p") (auto simp: cget_def live_ctxs_def split: if_splits intro!: exI[of _ "nat p"])

lemma live_cget: "i \<in> live_ctxs (mnt_ctxs mnt) \<Longrightarrow> \<exists>b. cget mnt (int i) = Some b"
  by (auto simp: cget_def live_ctxs_def)

lemma ctx_unmount_live:
  assumes "ctx_unmount mnt p = Some mnt'"
  shows "live_ctxs (mnt_ctxs mnt') = live_ctxs (mnt_ctxs mnt) - {nat p}" "same_mount mnt mnt'" "mnt_meta mnt' = mnt_meta mnt"
    "mnt_opts mnt' = mnt_opts mnt"
  using assms by (auto simp: ctx_unmount_def cput_def same_mount_def live_clear bind_eq_Some_conv)

lemma ctx_unmount_ok: "i \<in> live_ctxs (mnt_ctxs mnt) \<Longrightarrow> \<exists>mnt'. ctx_unmount mnt (int i) = Some mnt'"
  using live_cget[of i mnt] by (auto simp: ctx_unmount_def)

lemma bindE: "m \<bind> f = Some r \<Longrightarrow> (\<And>x. m = Some x \<Longrightarrow> f x = Some r \<Longrightarrow> P) \<Longrightarrow> P"
  by (auto simp: bind_eq_Some_conv)

lemma bind_pairE: "m \<bind> (\<lambda>(a, b). f a b) = Some r \<Longrightarrow> (\<And>a b. m = Some (a, b) \<Longrightarrow> f a b = Some r \<Longrightarrow> P) \<Longrightarrow> P"
  by (auto simp: bind_eq_Some_conv)

section \<open>The stages of choosing a backend\<close>

text \<open>The parts of a mount no attempt touches.\<close>

definition untouched :: "('m, 'b) odfs_mount_t \<Rightarrow> ('m, 'b) odfs_mount_t \<Rightarrow> bool" where
  "untouched mnt mnt' \<longleftrightarrow> mnt_map mnt' = mnt_map mnt \<and> mnt_meta mnt' = mnt_meta mnt \<and> mnt_opts mnt' = mnt_opts mnt"

lemma untouched_refl [simp]: "untouched mnt mnt"
  by (simp add: untouched_def)

lemma untouched_trans: "untouched a b \<Longrightarrow> untouched b c \<Longrightarrow> untouched a c"
  by (simp add: untouched_def)

text \<open>Either no context is held, or the mount holds one that is new.\<close>

definition holds_ctx :: "nat set \<Rightarrow> ('m, 'b) odfs_mount_t \<Rightarrow> bool" where
  "holds_ctx old mnt \<longleftrightarrow> (\<exists>p. mnt_ctx mnt = int p \<and> p \<notin> old \<and> live_ctxs (mnt_ctxs mnt) = insert p old)"

definition holds_none :: "nat set \<Rightarrow> ('m, 'b) odfs_mount_t \<Rightarrow> bool" where
  "holds_none old mnt \<longleftrightarrow> mnt_ctx mnt = -1 \<and> live_ctxs (mnt_ctxs mnt) = old"

definition stage :: "nat set \<Rightarrow> ('m, 'b) odfs_mount_t \<Rightarrow> ('m, 'b) attempt \<Rightarrow> bool" where
  "stage old mnt0 st \<longleftrightarrow> (case st of (chosen, mnt, h) \<Rightarrow> untouched mnt0 mnt \<and> (holds_none old mnt \<or> chosen \<noteq> None \<and> holds_ctx old mnt))"

lemma mount_be_stage:
  assumes "mount_be bes ss i mnt h = Some (err, mnt', h')" "holds_none old mnt"
  shows "untouched mnt mnt' \<and> (holds_none old mnt' \<or> err = ODFS_OK \<and> holds_ctx old mnt')"
proof -
  from assms(1) obtain be x where "rd bes i = Some be" "be_mount be (mnt_cache mnt) h ss = Some x"
    and m: "(\<lambda>(r, c, h). Some (case r of Inl err \<Rightarrow> (err, mnt\<lparr>mnt_cache := c\<rparr>, h) | Inr (root, b) \<Rightarrow>
       (ODFS_OK, mnt\<lparr>mnt_cache := c, mnt_root := root, mnt_ctx := int (length (mnt_ctxs mnt)), mnt_ctxs := mnt_ctxs mnt @ [Some b]\<rparr>, h))) x =
     Some (err, mnt', h')"
    unfolding mount_be_def by - (erule bindE, erule bindE, rule that)
  obtain r c h1 where x: "x = (r, c, h1)" by (cases x)
  show ?thesis using m x assms(2) by (cases r) (auto simp: holds_none_def holds_ctx_def untouched_def)
qed

lemma attempt_stage:
  assumes "attempt bes ss cond cand st = Some st'" "stage old mnt0 st"
  shows "stage old mnt0 st'"
proof -
  obtain chosen mnt h where st: "st = (chosen, mnt, h)" by (cases st)
  show ?thesis
  proof (cases "chosen = None \<and> cond \<and> cand \<noteq> None")
    case True
    then obtain i where i: "cand = Some i" by auto
    from assms(1) True i st obtain err mnt' h' where
      m: "mount_be bes ss i mnt h = Some (err, mnt', h')" "st' = (if err = ODFS_OK then Some i else None, mnt', h')"
      by (auto simp: attempt_def bind_eq_Some_conv)
    have "holds_none old mnt" "untouched mnt0 mnt" using assms(2) True st by (auto simp: stage_def)
    then show ?thesis using mount_be_stage[OF m(1)] m(2) untouched_trans by (fastforce simp: stage_def)
  next
    case False
    then show ?thesis using assms st by (auto simp: attempt_def split: option.splits if_splits)
  qed
qed

lemma unmount_stage:
  assumes "ctx_unmount mnt (mnt_ctx mnt) = Some mnt'" "holds_none old mnt \<or> holds_ctx old mnt"
  shows "holds_none old (mnt'\<lparr>mnt_ctx := -1\<rparr>)"
proof -
  from assms(1) obtain b where "cget mnt (mnt_ctx mnt) = Some b" by (auto simp: ctx_unmount_def bind_eq_Some_conv)
  from cget_live[OF this] assms(2) have "holds_ctx old mnt" by (auto simp: holds_none_def)
  then show ?thesis using ctx_unmount_live(1)[OF assms(1)] by (auto simp: holds_ctx_def holds_none_def)
qed

lemma attempt_iso_stage:
  assumes "attempt_iso bes ss cs st = Some st'" "stage old mnt0 st"
  shows "stage old mnt0 st'"
proof -
  obtain chosen mnt h where st: "st = (chosen, mnt, h)" by (cases st)
  show ?thesis
  proof (cases "chosen = None \<and> mc_iso cs \<noteq> None")
    case True
    then obtain i where i: "mc_iso cs = Some i" by auto
    from assms(1) True i st obtain err mnt1 h1 where m: "mount_be bes ss i mnt h = Some (err, mnt1, h1)"
      by (auto simp: attempt_iso_def bind_eq_Some_conv)
    have hn: "holds_none old mnt" "untouched mnt0 mnt" using assms(2) True st by (auto simp: stage_def)
    note s = mount_be_stage[OF m hn(1)]
    then have u: "untouched mnt0 mnt1" using untouched_trans[OF hn(2)] by blast
    show ?thesis
    proof (cases "err = ODFS_OK \<and> \<not> (backend (mnt_root mnt1) = ODFS_BACKEND_ROCK_RIDGE \<or> disable_joliet (mnt_opts mnt1) \<or> mc_joliet cs = None)")
      case c: True
      then obtain mnt2 where m2: "ctx_unmount mnt1 (mnt_ctx mnt1) = Some mnt2" "st' = (None, mnt2\<lparr>mnt_ctx := -1\<rparr>, h1)"
        using assms(1) st i True m by (auto simp: attempt_iso_def bind_eq_Some_conv)
      have "untouched mnt1 (mnt2\<lparr>mnt_ctx := -1\<rparr>)" using ctx_unmount_live(2-4)[OF m2(1)] by (simp add: untouched_def same_mount_def)
      then have "untouched mnt0 (mnt2\<lparr>mnt_ctx := -1\<rparr>)" by (rule untouched_trans[OF u])
      moreover have "holds_none old (mnt2\<lparr>mnt_ctx := -1\<rparr>)" by (rule unmount_stage[OF m2(1)]) (use s in blast)
      ultimately show ?thesis using m2(2) by (simp add: stage_def)
    next
      case c: False
      then have "st' = (if err = ODFS_OK then Some i else None, mnt1, h1)"
        using assms(1) st i True m by (auto simp: attempt_iso_def split: if_splits)
      then show ?thesis using s u by (auto simp: stage_def)
    qed
  next
    case False
    then show ?thesis using assms st by (auto simp: attempt_iso_def split: option.splits)
  qed
qed

text \<open>One session: on success the mount holds a new context, or points to none; otherwise none is left.\<close>

lemma try_session_stage:
  assumes "mount_try_session_start bes ntab mnt h ss = Some (err, mnt', h')" "live_ctxs (mnt_ctxs mnt) = old"
  shows "untouched mnt mnt' \<and> (if err = ODFS_OK then holds_none old mnt' \<or> holds_ctx old mnt' else live_ctxs (mnt_ctxs mnt') = old)"
proof -
  let ?m = "mnt\<lparr>mnt_ctx := -1, mnt_ops := None, mnt_active := ODFS_BACKEND_NONE, mnt_root := zero_node\<rparr>"
  from assms(1) obtain cs c st1 st2 st3 st4 st5 st6 st7 where
    p: "attempt bes ss (prefer_udf (mnt_opts ?m)) (mc_udf cs) (mc_chosen cs, ?m\<lparr>mnt_cache := c\<rparr>, h) = Some st1"
    "attempt bes ss (prefer_hfs (mnt_opts ?m)) (mc_hfs cs) st1 = Some st2" "attempt_iso bes ss cs st2 = Some st3"
    "attempt bes ss True (mc_joliet cs) st3 = Some st4" "attempt bes ss True (mc_udf cs) st4 = Some st5"
    "attempt bes ss True (mc_hfs cs) st5 = Some st6" "attempt bes ss (mnt_ctx (fst (snd st6)) = -1) (mc_iso cs) st6 = Some st7"
    and r: "(case st7 of (chosen, mnt, h) \<Rightarrow> case chosen of
       None \<Rightarrow> Some (ODFS_ERR_BAD_FORMAT, mnt\<lparr>mnt_ctx := -1, mnt_root := zero_node\<rparr>, h)
     | Some i \<Rightarrow> do {
         (err, mnt, h) \<leftarrow> (if mnt_ctx mnt = -1 then mount_be bes ss i mnt h else Some (ODFS_OK, mnt, h));
         if err \<noteq> ODFS_OK then Some (err, mnt\<lparr>mnt_ctx := -1, mnt_root := zero_node\<rparr>, h)
         else Some (ODFS_OK, mnt\<lparr>mnt_ops := Some i, mnt_active := backend (mnt_root mnt)\<rparr>, h) }) = Some (err, mnt', h')"
    unfolding mount_try_session_start_def Let_def by - (erule bind_pairE, (erule bindE)+, rule that, assumption+)
  have "stage old mnt (mc_chosen cs, ?m\<lparr>mnt_cache := c\<rparr>, h)" using assms(2) by (simp add: stage_def untouched_def holds_none_def)
  from attempt_stage[OF p(7) attempt_stage[OF p(6) attempt_stage[OF p(5) attempt_stage[OF p(4) attempt_iso_stage[OF p(3)
    attempt_stage[OF p(2) attempt_stage[OF p(1) this]]]]]]] have s7: "stage old mnt st7" .
  obtain chosen m7 h7 where st7: "st7 = (chosen, m7, h7)" by (cases st7)
  have u7: "untouched mnt m7" "holds_none old m7 \<or> chosen \<noteq> None \<and> holds_ctx old m7" using s7 st7 by (auto simp: stage_def)
  show ?thesis
  proof (cases chosen)
    case None
    then show ?thesis using r st7 u7 by (auto simp: untouched_def holds_none_def)
  next
    case (Some i)
    then obtain e m8 h8 where m8: "(if mnt_ctx m7 = -1 then mount_be bes ss i m7 h7 else Some (ODFS_OK, m7, h7)) = Some (e, m8, h8)"
      "(err, mnt', h') = (if e \<noteq> ODFS_OK then (e, m8\<lparr>mnt_ctx := -1, mnt_root := zero_node\<rparr>, h8)
         else (ODFS_OK, m8\<lparr>mnt_ops := Some i, mnt_active := backend (mnt_root m8)\<rparr>, h8))"
      using r st7 by (auto simp: bind_eq_Some_conv split: if_splits)
    have s8: "untouched m7 m8 \<and> (holds_none old m8 \<or> e = ODFS_OK \<and> holds_ctx old m8)"
    proof (cases "mnt_ctx m7 = -1")
      case True
      then have "holds_none old m7" using u7(2) by (auto simp: holds_ctx_def)
      then show ?thesis using m8(1) True mount_be_stage[of bes ss i m7 h7 e m8 h8 old] by simp
    next
      case False
      then show ?thesis using m8(1) u7(2) by (auto simp: holds_none_def)
    qed
    then show ?thesis using m8(2) untouched_trans[OF u7(1)] by (auto simp: untouched_def holds_none_def holds_ctx_def split: if_splits)
  qed
qed

lemma session_loop_stage:
  assumes "session_loop bes ntab sss err0 mnt h = Some (err, mnt', h')" "live_ctxs (mnt_ctxs mnt) = old" "err0 \<noteq> ODFS_OK"
  shows "untouched mnt mnt' \<and> (if err = ODFS_OK then holds_none old mnt' \<or> holds_ctx old mnt' else live_ctxs (mnt_ctxs mnt') = old)"
  using assms
proof (induction bes ntab sss err0 mnt h rule: session_loop.induct)
  case (2 bes ntab ss sss err0 mnt h)
  from "2.prems"(1) obtain e m h1 where t: "mount_try_session_start bes ntab mnt h ss = Some (e, m, h1)"
    "(if e = ODFS_OK then Some (e, m, h1) else session_loop bes ntab sss e m h1) = Some (err, mnt', h')" by (auto simp: bind_eq_Some_conv)
  note s = try_session_stage[OF t(1) "2.prems"(2)]
  show ?case
  proof (cases "e = ODFS_OK")
    case True
    then show ?thesis using s t(2) by auto
  next
    case False
    then have l: "session_loop bes ntab sss e m h1 = Some (err, mnt', h')" "live_ctxs (mnt_ctxs m) = old" using t(2) s by auto
    from "2.IH"[OF t(1) refl refl False l False] s untouched_trans[of mnt m mnt'] show ?thesis by blast
  qed
qed simp

section \<open>Mounting and unmounting\<close>

text \<open>Every entry of the map of backends is the one the mount was made with.\<close>

definition one_backend :: "('m, 'b) odfs_mount_t \<Rightarrow> bool" where
  "one_backend mnt \<longleftrightarrow> mnt_ops mnt \<noteq> None \<and>
     (\<forall>t. mnt_map mnt t = None \<or> mnt_map mnt t = mnt_ops mnt \<and> mnt_ctx_map mnt t = mnt_ctx mnt)"

lemma register_fields [simp]:
  "mnt_ops (odfs_mount_register_backend mnt t i p r) = mnt_ops mnt" "mnt_ctx (odfs_mount_register_backend mnt t i p r) = mnt_ctx mnt"
  "mnt_ctxs (odfs_mount_register_backend mnt t i p r) = mnt_ctxs mnt" "mnt_meta (odfs_mount_register_backend mnt t i p r) = mnt_meta mnt"
  "mnt_root (odfs_mount_register_backend mnt t i p r) = mnt_root mnt"
  by (simp_all add: odfs_mount_register_backend_def)

lemma one_backend_register:
  assumes "one_backend mnt" shows "one_backend (odfs_mount_register_backend mnt t (mnt_ops mnt) (mnt_ctx mnt) r)"
  using assms by (auto simp: one_backend_def odfs_mount_register_backend_def)

lemma one_backend_fields [simp]:
  "one_backend (mnt\<lparr>mnt_volume_name := nm\<rparr>) = one_backend mnt" "one_backend (mnt\<lparr>mnt_total_blocks := n\<rparr>) = one_backend mnt"
  by (simp_all add: one_backend_def)

lemma mount_finish_ok:
  assumes "mount_finish bes mnt = Some mnt'" "mnt_map mnt = (\<lambda>_. None)"
  shows "one_backend mnt' \<and> mnt_ctx mnt' = mnt_ctx mnt \<and> mnt_ctxs mnt' = mnt_ctxs mnt \<and> mnt_meta mnt' = mnt_meta mnt \<and>
    (\<exists>b. cget mnt (mnt_ctx mnt) = Some b)"
proof -
  from assms(1) obtain i be where i: "mnt_ops mnt = Some i" "rd bes i = Some be" by (auto simp: mount_finish_def bind_eq_Some_conv)
  define m1 where "m1 = odfs_mount_register_backend mnt (backend (mnt_root mnt)) (mnt_ops mnt) (mnt_ctx mnt) (Some (mnt_root mnt))"
  define m2 where "m2 = (if be_type be \<noteq> backend (mnt_root mnt)
    then odfs_mount_register_backend m1 (be_type be) (mnt_ops m1) (mnt_ctx m1) None else m1)"
  have "one_backend mnt" using assms(2) i(1) by (simp add: one_backend_def)
  then have m1: "one_backend m1" unfolding m1_def by (rule one_backend_register)
  then have m2: "one_backend m2" unfolding m2_def using one_backend_register[OF m1] by (simp del: register_fields)
  have f: "mnt_ctx m2 = mnt_ctx mnt" "mnt_ctxs m2 = mnt_ctxs mnt" "mnt_meta m2 = mnt_meta mnt" by (simp_all add: m2_def m1_def)
  have "mount_finish bes mnt = do {
      b \<leftarrow> cget m2 (mnt_ctx m2);
      m3 \<leftarrow> (case be_get_volume_name be of Some f \<Rightarrow> do { nm \<leftarrow> f b 128; Some (m2\<lparr>mnt_volume_name := nm\<rparr>) } | None \<Rightarrow> Some m2);
      Some (case be_get_volume_size be of Some f \<Rightarrow> m3\<lparr>mnt_total_blocks := f b\<rparr> | None \<Rightarrow> m3) }"
    by (simp only: mount_finish_def m2_def m1_def i register_fields Let_def Option.bind.simps)
  with assms(1) obtain b m3 where b: "cget m2 (mnt_ctx m2) = Some b"
    "(case be_get_volume_name be of Some f \<Rightarrow> do { nm \<leftarrow> f b 128; Some (m2\<lparr>mnt_volume_name := nm\<rparr>) } | None \<Rightarrow> Some m2) = Some m3"
    "mnt' = (case be_get_volume_size be of Some f \<Rightarrow> m3\<lparr>mnt_total_blocks := f b\<rparr> | None \<Rightarrow> m3)"
    by (auto simp: bind_eq_Some_conv)
  have "one_backend m3 \<and> mnt_ctx m3 = mnt_ctx m2 \<and> mnt_ctxs m3 = mnt_ctxs m2 \<and> mnt_meta m3 = mnt_meta m2"
    using b(2) m2 by (auto simp: bind_eq_Some_conv split: option.splits)
  moreover have "cget m2 (mnt_ctx m2) = cget mnt (mnt_ctx mnt)" using f by (simp add: cget_def)
  ultimately show ?thesis using b(1,3) f by (cases "be_get_volume_size be") auto
qed

lemma one_backend_same: "one_backend mnt \<Longrightarrow> same_mount mnt mnt' \<Longrightarrow> one_backend mnt'"
  by (simp add: one_backend_def same_mount_def)

lemma unmount_loop_ok:
  assumes "one_backend mnt" "mnt_ctx mnt = int p"
    "if primary_seen then live_ctxs (mnt_ctxs mnt) = old \<and> (\<exists>t \<in> set before. mnt_map mnt t \<noteq> None)
     else live_ctxs (mnt_ctxs mnt) = insert p old \<and> (\<forall>t \<in> set before. mnt_map mnt t = None)" "p \<notin> old"
  shows "\<exists>seen mnt'. unmount_loop mnt before ts primary_seen = Some (seen, mnt') \<and> same_mount mnt mnt' \<and> mnt_meta mnt' = mnt_meta mnt \<and>
    live_ctxs (mnt_ctxs mnt') = (if seen then old else insert p old)"
  using assms
proof (induction ts arbitrary: mnt before primary_seen)
  case (Cons t ts)
  note o = Cons.prems(1)[unfolded one_backend_def]
  show ?case
  proof (cases "mnt_map mnt t = None \<or> primary_seen")
    case True
    have skip: "unmount_loop mnt before (t # ts) primary_seen = unmount_loop mnt (before @ [t]) ts primary_seen"
    proof (cases "mnt_map mnt t = None")
      case False
      then obtain u where "u \<in> set before" "mnt_map mnt u \<noteq> None" using True Cons.prems(3) by auto
      then have "list_ex (\<lambda>j. mnt_map mnt j = mnt_map mnt t \<and> mnt_ctx_map mnt j = mnt_ctx_map mnt t) before"
        using o[THEN conjunct2, rule_format, of u] o[THEN conjunct2, rule_format, of t] False unfolding list_ex_iff by (intro bexI[of _ u]) auto
      then show ?thesis by simp
    qed simp
    show ?thesis unfolding skip by (rule Cons.IH[OF Cons.prems(1,2) _ Cons.prems(4)]) (use True Cons.prems(3) in \<open>auto split: if_splits\<close>)
  next
    case False
    then have lv: "live_ctxs (mnt_ctxs mnt) = insert p old" "\<forall>u \<in> set before. mnt_map mnt u = None"
      and e: "mnt_map mnt t = mnt_ops mnt" "mnt_ctx_map mnt t = int p" "mnt_map mnt t \<noteq> None"
      using Cons.prems(2,3) o[THEN conjunct2, rule_format, of t] by auto
    obtain m1 where m1: "ctx_unmount mnt (int p) = Some m1" using ctx_unmount_ok[of p mnt] lv(1) by auto
    note f = ctx_unmount_live[OF m1]
    have nb: "\<not> list_ex (\<lambda>j. mnt_map mnt j = mnt_map mnt t \<and> mnt_ctx_map mnt j = mnt_ctx_map mnt t) before"
      using lv(2) e(3) by (auto simp: list_ex_iff)
    have st: "unmount_loop mnt before (t # ts) primary_seen = unmount_loop m1 (before @ [t]) ts True"
      using nb e Cons.prems(2) m1 False by (auto simp: Let_def)
    have "one_backend m1" by (rule one_backend_same[OF Cons.prems(1) f(2)])
    moreover have "mnt_ctx m1 = int p" "mnt_map m1 = mnt_map mnt" using f(2) Cons.prems(2) by (simp_all add: same_mount_def)
    moreover have "live_ctxs (mnt_ctxs m1) = old" using f(1) lv(1) Cons.prems(4) by simp
    ultimately have "\<exists>seen mnt'. unmount_loop m1 (before @ [t]) ts True = Some (seen, mnt') \<and> same_mount m1 mnt' \<and> mnt_meta mnt' = mnt_meta m1 \<and>
      live_ctxs (mnt_ctxs mnt') = (if seen then old else insert p old)" using e(3) by (intro Cons.IH) (use Cons.prems(4) in auto)
    then show ?thesis using st f(2,3) same_mount_trans[OF f(2)] by auto
  qed
qed auto

lemma unmount_ok:
  assumes "one_backend mnt" "holds_ctx old mnt" "meta_inv listing (mnt_meta mnt) xs {}"
  shows "\<exists>mnt'. odfs_unmount mnt = Some mnt' \<and> live_ctxs (mnt_ctxs mnt') = old"
proof -
  from assms(2) obtain p where p: "mnt_ctx mnt = int p" "p \<notin> old" "live_ctxs (mnt_ctxs mnt) = insert p old" by (auto simp: holds_ctx_def)
  from unmount_loop_ok[OF assms(1) p(1) _ p(2), of False "[]" backend_types] p(3) obtain seen m1 where
    m1: "unmount_loop mnt [] backend_types False = Some (seen, m1)" "same_mount mnt m1" "mnt_meta m1 = mnt_meta mnt"
      "live_ctxs (mnt_ctxs m1) = (if seen then old else insert p old)" by auto
  have c: "mnt_ctx m1 = int p" "mnt_ops m1 \<noteq> None" using m1(2) p(1) assms(1) by (simp_all add: same_mount_def one_backend_def)
  have "\<exists>m2. (if \<not> seen \<and> mnt_ops m1 \<noteq> None then ctx_unmount m1 (mnt_ctx m1) else Some m1) = Some m2 \<and>
    live_ctxs (mnt_ctxs m2) = old \<and> mnt_meta m2 = mnt_meta mnt"
  proof (cases seen)
    case False
    then obtain m2 where "ctx_unmount m1 (int p) = Some m2" using ctx_unmount_ok[of p m1] m1(4) by auto
    then show ?thesis using ctx_unmount_live[of m1 "int p" m2] c False m1(3,4) p(2) by auto
  qed (use m1 in auto)
  then obtain m2 where m2: "(if \<not> seen \<and> mnt_ops m1 \<noteq> None then ctx_unmount m1 (mnt_ctx m1) else Some m1) = Some m2"
    "live_ctxs (mnt_ctxs m2) = old" "mnt_meta m2 = mnt_meta mnt" by blast
  from destroy_ok[OF assms(3)] obtain meta where "odfs_meta_cache_destroy (mnt_meta m2) = Some meta" using m2(3) by auto
  then show ?thesis using m1(1) m2(1,2) by (simp add: odfs_unmount_def zero_mount_def)
qed

lemma on_media_fields: "on_media f mnt = Some (r, mnt') \<Longrightarrow> untouched mnt mnt' \<and> mnt_ctxs mnt' = mnt_ctxs mnt"
  by (auto simp: on_media_def bind_eq_Some_conv untouched_def)

lemma session_start_fields: "mount_session_start mnt buf = Some (ss, mnt') \<Longrightarrow> untouched mnt mnt' \<and> mnt_ctxs mnt' = mnt_ctxs mnt"
  unfolding mount_session_start_def mount_read_toc_def by (auto simp: bind_eq_Some_conv dest!: on_media_fields split: if_splits)

lemma candidates_fields:
  "mount_build_session_candidates mnt p n = Some (sss, mnt') \<Longrightarrow> untouched mnt mnt' \<and> mnt_ctxs mnt' = mnt_ctxs mnt"
  unfolding mount_build_session_candidates_def mount_read_toc_def by (auto simp: bind_eq_Some_conv dest!: on_media_fields split: if_splits)

lemma mount_ok:
  assumes "odfs_mount bes ntab uninit buf ctxs h media opts = Some (err, mnt, h')"
  shows "if err = ODFS_OK then one_backend mnt \<and> holds_ctx (live_ctxs ctxs) mnt \<and> meta_inv listing (mnt_meta mnt) [] {}
    else live_ctxs (mnt_ctxs mnt) = live_ctxs ctxs"
proof -
  define m0 where "m0 = (zero_mount ctxs :: ('a, 'b) odfs_mount_t)\<lparr>mnt_opts := (case opts of Some os \<Rightarrow> os | None \<Rightarrow> odfs_mount_opts_default)\<rparr>"
  define kib where "kib = (if meta_cache_kib (mnt_opts m0) > 0x100000 then 0x100000 else meta_cache_kib (mnt_opts m0))"
  obtain e c h0 where ci: "odfs_cache_init uninit h media (if cache_blocks (mnt_opts m0) = 0 then ODFS_BLOCK_CACHE_SIZE else cache_blocks (mnt_opts m0)) = (e, c, h0)"
    by (cases "odfs_cache_init uninit h media (if cache_blocks (mnt_opts m0) = 0 then ODFS_BLOCK_CACHE_SIZE else cache_blocks (mnt_opts m0))")
  have f0: "mnt_ctxs m0 = ctxs" "mnt_map m0 = (\<lambda>_. None)" by (simp_all add: m0_def zero_mount_def)
  show ?thesis
  proof (cases "e = ODFS_OK")
    case False
    then have "err = e \<and> mnt = m0\<lparr>mnt_cache := c\<rparr>" using assms unfolding odfs_mount_def Let_def m0_def[symmetric] ci by simp
    then show ?thesis using False f0 by simp
  next
    case True
    define m1 where "m1 = m0\<lparr>mnt_cache := c, mnt_meta := odfs_meta_cache_init (push_bit 10 kib)\<rparr>"
    have f1: "mnt_ctxs m1 = ctxs" "mnt_map m1 = (\<lambda>_. None)" "mnt_meta m1 = odfs_meta_cache_init (push_bit 10 kib)" using f0 by (simp_all add: m1_def)
    have k0: "mnt_opts (m0\<lparr>mnt_cache := c\<rparr>) = mnt_opts m0" by simp
    note a = assms[unfolded odfs_mount_def Let_def m0_def[symmetric] ci k0 kib_def[symmetric] prod.case True
      if_not_P[OF not_not[THEN iffD2, OF refl]], unfolded m1_def[symmetric]]
    from a obtain ss m2 sss m3 x where
      g0: "mount_session_start m1 buf = Some (ss, m2)" "mount_build_session_candidates m2 ss 100 = Some (sss, m3)"
      "session_loop bes ntab sss ODFS_ERR_BAD_FORMAT m3 h0 = Some x"
      "(case x of (e4, m4, h4) \<Rightarrow> if e4 \<noteq> ODFS_OK then do {
           meta \<leftarrow> odfs_meta_cache_destroy (mnt_meta m4);
           Some (ODFS_ERR_BAD_FORMAT, m4\<lparr>mnt_meta := meta, mnt_cache := odfs_cache_destroy (mnt_cache m4)\<rparr>, h4) }
         else do { mnt \<leftarrow> mount_finish bes m4; Some (ODFS_OK, mnt, h4) }) = Some (err, mnt, h')"
      by - (erule bind_pairE, erule bind_pairE, erule bindE, rule that, assumption+)
    obtain e4 m4 h4 where x: "x = (e4, m4, h4)" by (cases x)
    note g = g0(1,2) g0(3,4)[unfolded x prod.case]
    have l3: "live_ctxs (mnt_ctxs m3) = live_ctxs ctxs" and u3: "untouched m1 m3"
      using session_start_fields[OF g(1)] candidates_fields[OF g(2)] f1(1) untouched_trans[of m1 m2 m3] by auto
    note s4 = session_loop_stage[OF g(3) l3]
    then have u4: "untouched m1 m4" using untouched_trans[OF u3] by simp
    have "unat (push_bit 10 kib) \<le> 2 ^ 30"
    proof -
      have "kib \<le> 0x100000" by (auto simp: kib_def)
      then have "unat kib \<le> 0x100000" by (simp add: word_le_nat_alt)
      then show ?thesis by (simp add: push_bit_eq_mult unat_word_ariths)
    qed
    then have mi: "meta_inv listing (mnt_meta m4) [] {}" using meta_init_ok u4 f1(3) by (simp add: untouched_def)
    show ?thesis
    proof (cases "e4 = ODFS_OK")
      case True
      then have fin: "mount_finish bes m4 = Some mnt" "err = ODFS_OK" using g(4) by (auto simp: bind_eq_Some_conv)
      have "mnt_map m4 = (\<lambda>_. None)" using u4 f1(2) by (simp add: untouched_def)
      note o = mount_finish_ok[OF fin(1) this]
      then obtain b where "cget m4 (mnt_ctx m4) = Some b" by blast
      from cget_live[OF this] have "mnt_ctx m4 \<noteq> -1" by auto
      moreover have "holds_none (live_ctxs ctxs) m4 \<or> holds_ctx (live_ctxs ctxs) m4" using s4 True by simp
      ultimately have "holds_ctx (live_ctxs ctxs) m4" unfolding holds_none_def by blast
      then have "holds_ctx (live_ctxs ctxs) mnt" unfolding holds_ctx_def using o by metis
      moreover have "meta_inv listing (mnt_meta mnt) [] {}" using mi o by metis
      ultimately show ?thesis using o fin(2) by metis
    next
      case False
      from g(4)[unfolded if_P[OF False]] obtain meta where
        "Some (ODFS_ERR_BAD_FORMAT, m4\<lparr>mnt_meta := meta, mnt_cache := odfs_cache_destroy (mnt_cache m4)\<rparr>, h4) = Some (err, mnt, h')"
        by - (erule bindE, rule that)
      then have "err = ODFS_ERR_BAD_FORMAT" "mnt_ctxs mnt = mnt_ctxs m4" by auto
      moreover have "live_ctxs (mnt_ctxs m4) = live_ctxs ctxs" using s4 False by simp
      ultimately show ?thesis by simp
    qed
  qed
qed

end
