(* ===== verification/Mount_Props.thy ===== *)
theory Mount_Props
  imports Mount_Path Mount_Ctx Meta_Props
begin

text \<open>
  The properties of the mount layer and of the search for a parent.  They hold for any backend that is
  a source of directories; the demonstration mount is one of the ISO 9660 reader over an image file.
\<close>

section \<open>A demonstration mount\<close>

definition demo_root :: odfs_node where
  "demo_root = demo_dir\<lparr>backend := ODFS_BACKEND_ISO9660, name := [0x2F]\<rparr>"

definition demo_mount :: "file_media_ctx odfs_cache \<Rightarrow> (file_media_ctx, iso_context) odfs_mount_t" where
  "demo_mount c = (zero_mount [Some demo_ctx])\<lparr>mnt_cache := c, mnt_meta := demo_meta, mnt_ops := Some 0, mnt_ctx := 0,
     mnt_map := (\<lambda>_. None)(ODFS_BACKEND_ISO9660 := Some 0), mnt_ctx_map := (\<lambda>_. -1)(ODFS_BACKEND_ISO9660 := 0),
     mnt_vroots := (\<lambda>_. None)(ODFS_BACKEND_ISO9660 := Some demo_root), mnt_root := demo_root\<rparr>"

abbreviation demo_dirs :: "dir_key \<Rightarrow> odfs_node list option" where
  "demo_dirs \<equiv> iso_dir_listing (file_disc demo_fm) demo_ctx"

lemma demo_root_listing: "demo_dirs (dir_key demo_root) = Some [demo_file]"
proof -
  have "key_dir (dir_key demo_root) = key_dir (dir_key demo_dir)" by (simp add: key_dir_def dir_key_def demo_root_def)
  then show ?thesis using demo_dir_listing unfolding iso_dir_listing_def by (simp only:)
qed

lemma demo_ready:
  assumes "demo_inv demo_ctx c"
  shows "ready [iso9660_backend_ops] demo_inv demo_dirs ODFS_BACKEND_ISO9660 iso9660_backend_ops 0 (demo_mount c)"
  using assms demo_meta_inv
  by (auto simp: ready_def mount_backend_for_type_def demo_mount_def zero_mount_def cget_def less_eq_odfs_backend_type_def rd_def)

abbreviation demo_errs :: "odfs_err set" where
  "demo_errs \<equiv> iso_faults file_media_ops (\<lambda>m. m = demo_fm \<and> file_whole demo_fm)"

lemma demo_backend: "dir_backend iso9660_backend_ops demo_inv demo_dirs demo_errs"
  by (rule iso_dir_backend[OF file_iso.iso_media_axioms])

section \<open>Properties\<close>

text \<open>C7: listing a directory on a mount.  When the node's backend is a source of directories that is mounted and ready,
  the call returns, the mount stays ready, and the callback is passed the entries of the directory in order and each once,
  whether the directory cache answered, filled itself first, or declined and left the listing to the backend;
  the error is the callback's, or one of the backend's faults, or none when all entries were passed.\<close>

theorem mount_readdir_serves:
  assumes "dir_source be bok listing faults" "ready bes bok listing t be p mnt"
    "kind dir = ODFS_NODE_DIR" "backend dir = t" "listing (dir_key dir) = Some ns" "length ns < 2 ^ 31"
    "ODFS_ERR_UNSUPPORTED \<notin> faults" "\<And>e s h. fst (cb e s h) \<noteq> ODFS_ERR_UNSUPPORTED"
  shows "\<exists>err res s' mnt' h' k. odfs_readdir bes junk mnt h dir cb s 0 = Some ((err, res, s'), mnt', h') \<and>
    ready bes bok listing t be p mnt' \<and> same_mount mnt mnt' \<and> served faults cb ns s err s' k"
  by (rule readdir_start[OF assms])

lemma demo_errs_supported: "ODFS_ERR_UNSUPPORTED \<notin> demo_errs"
proof -
  have "\<not> fm_is_cue demo_fm" by (simp add: demo_iso_def odfs_media_open_image_def)
  then have "\<not> disc_media.fails file_media_ops (\<lambda>m. m = demo_fm \<and> file_whole demo_fm) l 1 ODFS_ERR_UNSUPPORTED" for l
    unfolding file_atomic.fails_def by (simp add: file_media_ops_def file_read_sectors_def Let_def)
  then show ?thesis by (simp add: iso_faults_def namefix_errs_def)
qed

theorem mount_readdir_serves_witness:
  "\<exists>c r. odfs_cache_init (\<lambda>_ _. 0) heap_plenty demo_iso 40 = (ODFS_OK, c, heap_plenty) \<and>
     odfs_readdir [iso9660_backend_ops] (\<lambda>_. zero_node) (demo_mount c) heap_plenty demo_root (plain collect_cb) [] 0 = Some r"
proof -
  obtain c where c: "odfs_cache_init (\<lambda>_ _. 0) heap_plenty demo_iso 40 = (ODFS_OK, c, heap_plenty)" "demo_inv demo_ctx c"
    by (rule demo_source_cache)
  have d: "kind demo_root = ODFS_NODE_DIR" "backend demo_root = ODFS_BACKEND_ISO9660" "length [demo_file] < 2 ^ 31"
    "\<And>e s h. fst (plain collect_cb e s h) \<noteq> ODFS_ERR_UNSUPPORTED"
    by (simp_all add: demo_root_def demo_dir_def plain_def collect_cb_def)
  from mount_readdir_serves[OF dir_backend.axioms(1)[OF demo_backend] demo_ready[OF c(2)] d(1,2) demo_root_listing d(3) demo_errs_supported,
      where cb = "plain collect_cb" and s = "[]" and junk = "\<lambda>_. zero_node" and h = heap_plenty, OF d(4)] c(1)
  show ?thesis by blast
qed

text \<open>C8: resolving a path on a mount.  From a ready mount the call returns and the mount stays ready.  Except for a fault of the
  backend, the result is that of following the non-empty names of the path from the root through the listings
  of the directories, names compared up to ASCII case: the node reached, the root when there is no
  name, \<open>ODFS_ERR_NOT_FOUND\<close> at a missing name, \<open>ODFS_ERR_NOT_DIR\<close> at a name behind a file and
  \<open>ODFS_ERR_NAME_TOO_LONG\<close> at a name that does not fit.\<close>

theorem mount_resolve_path_follows:
  assumes "dir_backend be bok listing faults" "\<And>key ns n. listing key = Some ns \<Longrightarrow> n \<in> set ns \<Longrightarrow> backend n = t"
    "ready bes bok listing t be p mnt" "backend (mnt_root mnt) = t" "0 \<notin> set path"
    "\<And>nm u n. nm \<in> set (path_parts path) \<Longrightarrow> mnt_vroots mnt u = Some n \<Longrightarrow> odfs_strcasecmp nm (name n) \<noteq> 0"
    "resolve_names listing (mnt_root mnt) (path_parts path) \<noteq> Inl ODFS_ERR_UNSUPPORTED"
  shows "\<exists>r mnt' h'. odfs_resolve_path bes mnt h path = Some (r, mnt', h') \<and> ready bes bok listing t be p mnt' \<and>
    ((\<exists>e \<in> faults. r = Inl e) \<or>
     (case resolve_names listing (mnt_root mnt) (path_parts path) of
        Inl e \<Rightarrow> r = Inl e
      | Inr n \<Rightarrow> \<exists>n'. r = Inr n' \<and> seen n' = seen n))"
proof -
  let ?q = "dropWhile (\<lambda>c. c = 0x2F) path"
  have "0 \<notin> set ?q" using assms(5) by (meson set_dropWhileD)
  moreover have "?q \<noteq> [] \<Longrightarrow> hd ?q \<noteq> 0x2F" by (drule hd_dropWhile) simp
  ultimately have "\<exists>r mnt' h'. resolve_loop bes mnt h (mnt_root mnt) ?q = Some (r, mnt', h') \<and> ready bes bok listing t be p mnt' \<and>
      same_mount mnt mnt' \<and> resolved faults (resolve_names listing (mnt_root mnt) (path_parts ?q)) r"
    by (intro resolve_loop_ok[OF assms(1-4)]) (use assms(6,7) in auto)
  then show ?thesis by (auto simp: odfs_resolve_path_def resolved_def)
qed

theorem mount_resolve_path_follows_witness:
  "\<exists>c r. odfs_cache_init (\<lambda>_ _. 0) heap_plenty demo_iso 40 = (ODFS_OK, c, heap_plenty) \<and>
     odfs_resolve_path [iso9660_backend_ops] (demo_mount c) heap_plenty [0x2F, 0x61] = Some r"
proof -
  obtain c where c: "odfs_cache_init (\<lambda>_ _. 0) heap_plenty demo_iso 40 = (ODFS_OK, c, heap_plenty)" "demo_inv demo_ctx c"
    by (rule demo_source_cache)
  have pp: "path_parts [0x2F, 0x61] = [[0x61]]" by (simp add: path_parts_def)
  have fl: "mnt_root (demo_mount c) = demo_root" "mnt_vroots (demo_mount c) u = Some n \<Longrightarrow> n = demo_root" for u n
    by (auto simp: demo_mount_def split: if_splits)
  have "\<And>key ns n. demo_dirs key = Some ns \<Longrightarrow> n \<in> set ns \<Longrightarrow> backend n = ODFS_BACKEND_ISO9660" using dir_listing_backend by fastforce
  moreover have "backend (mnt_root (demo_mount c)) = ODFS_BACKEND_ISO9660" by (simp add: fl demo_root_def)
  moreover have "0 \<notin> set [0x2F, 0x61 :: u8]" by simp
  moreover have "odfs_strcasecmp nm (name n) \<noteq> 0" if "nm \<in> set (path_parts [0x2F, 0x61])" "mnt_vroots (demo_mount c) u = Some n" for nm u n
    using that fl(2)[OF that(2)] by (simp add: pp demo_root_def odfs_strcasecmp.simps odfs_ascii_tolower_def)
  moreover have "resolve_names demo_dirs (mnt_root (demo_mount c)) (path_parts [0x2F, 0x61]) \<noteq> Inl ODFS_ERR_UNSUPPORTED"
    by (simp add: pp fl demo_root_listing split: option.splits)
  ultimately show ?thesis
    using mount_resolve_path_follows[OF demo_backend _ demo_ready[OF c(2)], of "[0x2F, 0x61]" heap_plenty] c(1) by blast
qed

text \<open>C9: the contexts of the backends.  Whatever the backends do, a mount that fails leaves no context alive that was not
  there before; one that succeeds holds exactly one new context, and unmounting it, after any operations that keep the
  mount's own entries and leave its directory cache consistent, returns and frees that context and no other.\<close>

theorem mount_contexts_freed:
  assumes "odfs_mount bes ntab uninit buf ctxs h media opts = Some (err, mnt, h')"
  shows "if err = ODFS_OK then
      \<exists>p. p \<notin> live_ctxs ctxs \<and> mnt_ctx mnt = int p \<and> live_ctxs (mnt_ctxs mnt) = insert p (live_ctxs ctxs) \<and>
        meta_inv listing (mnt_meta mnt) [] {} \<and>
        (\<forall>mnt2 xs. same_mount mnt mnt2 \<and> live_ctxs (mnt_ctxs mnt2) = live_ctxs (mnt_ctxs mnt) \<and> meta_inv listing (mnt_meta mnt2) xs {} \<longrightarrow>
          (\<exists>mnt3. odfs_unmount mnt2 = Some mnt3 \<and> live_ctxs (mnt_ctxs mnt3) = live_ctxs ctxs))
    else live_ctxs (mnt_ctxs mnt) = live_ctxs ctxs"
proof (cases "err = ODFS_OK")
  case True
  then have m: "one_backend mnt" "holds_ctx (live_ctxs ctxs) mnt" "meta_inv listing (mnt_meta mnt) [] {}" using mount_ok[OF assms, of listing] by simp_all
  from m(2) obtain p where p: "mnt_ctx mnt = int p" "p \<notin> live_ctxs ctxs" "live_ctxs (mnt_ctxs mnt) = insert p (live_ctxs ctxs)"
    by (auto simp: holds_ctx_def)
  have "\<exists>mnt3. odfs_unmount mnt2 = Some mnt3 \<and> live_ctxs (mnt_ctxs mnt3) = live_ctxs ctxs"
    if "same_mount mnt mnt2" "live_ctxs (mnt_ctxs mnt2) = live_ctxs (mnt_ctxs mnt)" "meta_inv listing (mnt_meta mnt2) xs {}" for mnt2 xs
    using unmount_ok[OF one_backend_same[OF m(1) that(1)] _ that(3)] that(1,2) m(2) by (simp add: same_mount_def holds_ctx_def)
  then show ?thesis using True p m(3) by auto
next
  case False
  then show ?thesis using mount_ok[OF assms, of listing] by simp
qed

text \<open>A backend that accepts any medium, for the example.\<close>

definition demo_be :: "(file_media_ctx, nat, unit) odfs_backend_ops" where
  "demo_be = \<lparr>be_name = ''demo'', be_type = ODFS_BACKEND_UDF, be_flags = 0, be_probe = (\<lambda>c ss. Some (ODFS_OK, c)),
     be_mount = (\<lambda>c h ss. Some (Inr (demo_root, 0), c, h)), be_readdir = (\<lambda>b c h dir cb s res. Some ((ODFS_OK, res, s), b, c, h)),
     be_read = (\<lambda>b c h f off buf len. Some ((ODFS_OK, buf, 0), b, c, h)), be_lookup = (\<lambda>b c h dir nm. Some (Inl ODFS_ERR_NOT_FOUND, b, c, h)),
     be_readlink = None, be_resolve_parent = None, be_get_volume_name = None, be_get_volume_size = None\<rparr>"

theorem mount_contexts_freed_witness:
  "\<exists>mnt. odfs_mount [demo_be] 1 (\<lambda>_ _. 0) [] [Some 5] heap_plenty demo_iso
       (Some (odfs_mount_opts_default\<lparr>cache_blocks := 40, force_session := 0\<rparr>)) = Some (ODFS_OK, mnt, heap_plenty) \<and>
     (\<exists>mnt3. odfs_unmount mnt = Some mnt3 \<and> live_ctxs (mnt_ctxs mnt3) = {0})"
proof -
  let ?opts = "odfs_mount_opts_default\<lparr>cache_blocks := 40, force_session := 0\<rparr>"
  obtain c where c: "odfs_cache_init (\<lambda>_ _. 0) heap_plenty demo_iso 40 = (ODFS_OK, c, heap_plenty)" "demo_inv demo_ctx c"
    by (rule demo_source_cache)
  then obtain m where m: "c_media c = Some m" "mops m = file_media_ops" "mctx m = demo_fm"
    by (auto simp: iso_inv_def file_atomic.good_cache_def file_atomic.good_media_def)
  have toc: "odfs_media_read_toc m = (ODFS_ERR_UNSUPPORTED, zero_toc, m)"
    using m by (cases m) (simp add: odfs_media_read_toc_def file_media_ops_def file_read_toc_def demo_iso_def odfs_media_open_image_def)
  have "\<exists>mnt. odfs_mount [demo_be] 1 (\<lambda>_ _. 0) [] [Some 5] heap_plenty demo_iso (Some ?opts) = Some (ODFS_OK, mnt, heap_plenty)"
    using c(1) m(1) toc
    by (simp add: odfs_mount_def zero_mount_def odfs_mount_opts_default_def mount_session_start_def mount_read_toc_def on_media_def
      mount_build_session_candidates_def mount_try_session_start_def demo_be_def rd_def note_cand_def no_cands_def Let_def
      attempt_def attempt_iso_def mount_be_def mount_finish_def cget_def odfs_mount_register_backend_def)
  then obtain mnt where mnt: "odfs_mount [demo_be] 1 (\<lambda>_ _. 0) [] [Some 5] heap_plenty demo_iso (Some ?opts) = Some (ODFS_OK, mnt, heap_plenty)" ..
  have l: "live_ctxs [Some (5 :: nat)] = {0}" by (auto simp: live_ctxs_def)
  from mount_contexts_freed[OF mnt, of "\<lambda>_. None", unfolded if_P[OF refl] l]
  have "\<exists>mnt3. odfs_unmount mnt = Some mnt3 \<and> live_ctxs (mnt_ctxs mnt3) = {0}" using same_mount_refl[of mnt] by blast
  then show ?thesis using mnt by blast
qed



section \<open>The search for a parent\<close>

text \<open>A directory without subdirectories, seen by the search.\<close>

lemma search_served:
  assumes "served faults (ancestry_search_cb t) ns asc err asc' k" "\<forall>n \<in> set ns. kind n \<noteq> ODFS_NODE_DIR"
  shows "err \<in> faults \<and> err \<noteq> ODFS_OK \<and> asc' = asc \<or>
    (if \<exists>n \<in> set ns. odfs_node_matches_identity n t then err = ODFS_ERR_EOF \<and> asc' = asc\<lparr>asc_found := True\<rparr> else err = ODFS_OK \<and> asc' = asc)"
  using assms
proof (induction rule: served.induct)
  case (step e n s h s1 h1 ns err s' k)
  have f: "odfs_node_matches_identity e t = odfs_node_matches_identity n t" "kind e = kind n"
    using seen_fields[OF step.hyps(1)] by (simp_all add: odfs_node_matches_identity_def)
  then have "\<not> odfs_node_matches_identity n t" "s1 = s" using step.hyps(2) step.prems by (auto simp: ancestry_search_cb_def split: if_splits)
  then show ?case using step.IH step.prems by (cases "\<exists>n \<in> set ns. odfs_node_matches_identity n t") auto
next
  case (stop e n s h err s' h1 ns)
  have f: "odfs_node_matches_identity e t = odfs_node_matches_identity n t" "kind e = kind n"
    using seen_fields[OF stop.hyps(1)] by (simp_all add: odfs_node_matches_identity_def)
  then show ?case using stop.hyps(2,3) stop.prems by (auto simp: ancestry_search_cb_def split: if_splits)
qed auto

lemma search_cb_supported: "fst (ancestry_search_cb t e s h) \<noteq> ODFS_ERR_UNSUPPORTED"
  by (simp add: ancestry_search_cb_def)



end
