(* ===== verification/Catalog.thy ===== *)
theory Catalog
  imports Backend Namefix
begin

text \<open>
  The catalog tree of the Macintosh formats.  \<^verbatim>\<open>hfs.c\<close> and \<^verbatim>\<open>hfsplus.c\<close> walk it with the same loops
  and differ in the layout of the records; here the loops are stated once, over a layout and a function
  that reads a tree node, and the two readers instantiate them.

  A node is the list of its bytes, and a record the callback sees is given by the node and its
  offsets there, so that an access behind the end of the node is \<open>None\<close>.
\<close>

section \<open>Big-endian fields\<close>

definition be16 :: "u8 list \<Rightarrow> nat \<Rightarrow> u16 option" where
  "be16 p i = do { a \<leftarrow> rd p i; b \<leftarrow> rd p (i + 1); Some (push_bit 8 (ucast a) OR ucast b) }"

definition be32 :: "u8 list \<Rightarrow> nat \<Rightarrow> u32 option" where
  "be32 p i = do { a \<leftarrow> rd p i; b \<leftarrow> rd p (i + 1); c \<leftarrow> rd p (i + 2); d \<leftarrow> rd p (i + 3);
     Some (push_bit 24 (ucast a) OR push_bit 16 (ucast b) OR push_bit 8 (ucast c) OR ucast d) }"

lemma be16_in: "i + 2 \<le> length p \<Longrightarrow> \<exists>v. be16 p i = Some v"
  by (simp add: be16_def)

lemma be32_in: "i + 4 \<le> length p \<Longrightarrow> \<exists>v. be32 p i = Some v"
  by (simp add: be32_def)

section \<open>Nodes\<close>

definition NODE_LEAF :: u8 where "NODE_LEAF = 0xFF"
definition NODE_INDEX :: u8 where "NODE_INDEX = 0x00"
definition NODE_HEADER :: u8 where "NODE_HEADER = 0x01"

text \<open>The table of offsets grows backward from the end of the node.\<close>

definition rec_offset :: "u8 list \<Rightarrow> u32 \<Rightarrow> nat \<Rightarrow> nat option" where
  "rec_offset node node_size rec_idx = map_option unat (be16 node (unat (node_size - 2 * (of_nat rec_idx + 1))))"

definition read_record_count :: "u8 list \<Rightarrow> u32 \<Rightarrow> nat option option" where
  "read_record_count node node_size =
     (if node_size < 12 then Some None
      else do {
        let max_recs = (ucast (node_size div 2 - 1) :: u16);
        nrecs \<leftarrow> be16 node 10;
        Some (if nrecs > max_recs then None else Some (unat nrecs)) })"

section \<open>Records\<close>

record cat_rec =
  cr_node :: "u8 list"
  cr_key :: nat
  cr_key_len :: nat
  cr_data :: nat
  cr_data_len :: nat

text \<open>
  What the readers take from a record: of an index record the parent in its key and the child, of a leaf
  record at an offset, with the offset of the next, the parent in its key and what is passed to the callback.
  An inner \<open>None\<close> is a record that cannot be used.
\<close>

record cat_layout =
  lay_index :: "u8 list \<Rightarrow> nat \<Rightarrow> nat \<Rightarrow> (u32 \<times> u32) option option"
  lay_leaf :: "u8 list \<Rightarrow> nat \<Rightarrow> nat \<Rightarrow> nat \<Rightarrow> (u32 \<times> cat_rec option) option option"

type_synonym 's cat_cb = "cat_rec \<Rightarrow> 's \<Rightarrow> heap \<Rightarrow> (odfs_err \<times> 's \<times> heap) option"

type_synonym 'c read_node = "'c \<Rightarrow> u32 \<Rightarrow> ((odfs_err + u8 list) \<times> 'c) option"

section \<open>Down to the leaves\<close>

text \<open>The child to follow: the last one whose key is below the directory, or the first.\<close>

fun index_child :: "cat_layout \<Rightarrow> u8 list \<Rightarrow> u32 \<Rightarrow> u32 \<Rightarrow> nat list \<Rightarrow> u32 \<Rightarrow> u32 option" where
  "index_child lay node sz cnid [] child = Some child"
| "index_child lay node sz cnid (r # rs) child = do {
     off \<leftarrow> rec_offset node sz r;
     v \<leftarrow> lay_index lay node (unat sz) off;
     case v of
       None \<Rightarrow> Some child
     | Some (key_parent, ptr) \<Rightarrow>
         let child = (if key_parent < cnid \<or> child = 0 then ptr else child) in
         if key_parent \<ge> cnid then Some child else index_child lay node sz cnid rs child }"

fun descend :: "cat_layout \<Rightarrow> 'c read_node \<Rightarrow> u32 \<Rightarrow> u32 \<Rightarrow> nat \<Rightarrow> u32 \<Rightarrow> 'c \<Rightarrow> ((odfs_err + u32) \<times> 'c) option" where
  "descend lay rdf sz cnid 0 cur c = Some (Inr cur, c)"
| "descend lay rdf sz cnid (Suc depth) cur c = do {
     (r, c) \<leftarrow> rdf c cur;
     case r of
       Inl err \<Rightarrow> Some (Inl err, c)
     | Inr node \<Rightarrow> do {
         ntype \<leftarrow> rd node 8;
         if ntype = NODE_LEAF then Some (Inr cur, c)
         else if ntype \<noteq> NODE_INDEX then Some (Inl ODFS_ERR_CORRUPT, c)
         else do {
           nrecs \<leftarrow> read_record_count node sz;
           case nrecs of
             None \<Rightarrow> Some (Inl ODFS_ERR_CORRUPT, c)
           | Some nrecs \<Rightarrow> do {
               child \<leftarrow> index_child lay node sz cnid [0..<nrecs] 0;
               if child = 0 then Some (Inl ODFS_ERR_NOT_FOUND, c)
               else descend lay rdf sz cnid depth child c } } } }"

section \<open>Along the leaves\<close>

text \<open>The records of a leaf; \<open>Inl\<close> when the walk ends here.\<close>

fun leaf_recs ::
    "cat_layout \<Rightarrow> u8 list \<Rightarrow> u32 \<Rightarrow> u32 \<Rightarrow> 's cat_cb \<Rightarrow> nat list \<Rightarrow> bool \<Rightarrow> 's \<Rightarrow> heap \<Rightarrow>
     ((odfs_err \<times> 's \<times> heap) + (bool \<times> 's \<times> heap)) option" where
  "leaf_recs lay node sz cnid cb [] found s h = Some (Inr (found, s, h))"
| "leaf_recs lay node sz cnid cb (r # rs) found s h = do {
     off \<leftarrow> rec_offset node sz r;
     next_off \<leftarrow> rec_offset node sz (r + 1);
     v \<leftarrow> lay_leaf lay node (unat sz) off next_off;
     case v of
       None \<Rightarrow> leaf_recs lay node sz cnid cb rs found s h
     | Some (key_parent, rec) \<Rightarrow>
         if key_parent < cnid then leaf_recs lay node sz cnid cb rs found s h
         else if key_parent > cnid then Some (Inl (ODFS_OK, s, h))
         else (case rec of
             None \<Rightarrow> leaf_recs lay node sz cnid cb rs True s h
           | Some rec \<Rightarrow> do {
               (err, s, h) \<leftarrow> cb rec s h;
               if err \<noteq> ODFS_OK then Some (Inl (err, s, h))
               else leaf_recs lay node sz cnid cb rs True s h }) }"

type_synonym ('c, 's) leaf_state = "'c \<times> u32 \<times> bool \<times> 's \<times> heap"
type_synonym ('c, 's) walk_result = "odfs_err \<times> 's \<times> 'c \<times> heap"

text \<open>The look at the next leaf: does the directory go on there?\<close>

definition leaf_peek :: "'c read_node \<Rightarrow> u32 \<Rightarrow> u32 \<Rightarrow> u32 \<Rightarrow> 'c \<Rightarrow> ((odfs_err + bool) \<times> 'c) option" where
  "leaf_peek rdf sz cnid cur c = do {
     (r, c) \<leftarrow> rdf c cur;
     case r of
       Inl err \<Rightarrow> Some (Inl err, c)
     | Inr node \<Rightarrow> do {
         ntype \<leftarrow> rd node 8;
         if ntype \<noteq> NODE_LEAF then Some (Inr False, c)
         else do {
           off \<leftarrow> rec_offset node sz 0;
           if off + 6 < unat sz then do {
             next_parent \<leftarrow> be32 node (off + 2);
             Some (Inr (next_parent = cnid), c) }
           else Some (Inr True, c) } } }"

definition leaf_body ::
    "cat_layout \<Rightarrow> 'c read_node \<Rightarrow> u32 \<Rightarrow> u32 \<Rightarrow> 's cat_cb \<Rightarrow> ('c, 's) leaf_state \<Rightarrow>
     (('c, 's) walk_result + ('c, 's) leaf_state) option" where
  "leaf_body lay rdf sz cnid cb st = (case st of (c, cur, found, s, h) \<Rightarrow>
     if cur = 0 then Some (Inl (ODFS_OK, s, c, h))
     else do {
       (r, c) \<leftarrow> rdf c cur;
       case r of
         Inl err \<Rightarrow> Some (Inl (err, s, c, h))
       | Inr node \<Rightarrow> do {
           ntype \<leftarrow> rd node 8;
           if ntype \<noteq> NODE_LEAF then Some (Inl (ODFS_OK, s, c, h))
           else do {
             nrecs \<leftarrow> read_record_count node sz;
             case nrecs of
               None \<Rightarrow> Some (Inl (ODFS_ERR_CORRUPT, s, c, h))
             | Some nrecs \<Rightarrow> do {
                 r \<leftarrow> leaf_recs lay node sz cnid cb [0..<nrecs] found s h;
                 case r of
                   Inl (err, s, h) \<Rightarrow> Some (Inl (err, s, c, h))
                 | Inr (found, s, h) \<Rightarrow> do {
                     cur \<leftarrow> be32 node 0;
                     if found \<and> cur \<noteq> 0 then do {
                       (p, c) \<leftarrow> leaf_peek rdf sz cnid cur c;
                       Some (case p of
                               Inl err \<Rightarrow> Inl (err, s, c, h)
                             | Inr more_here \<Rightarrow> if more_here then Inr (c, cur, found, s, h) else Inl (ODFS_OK, s, c, h)) }
                     else Some (Inr (c, cur, found, s, h)) } } } } })"

definition walk_catalog ::
    "cat_layout \<Rightarrow> 'c read_node \<Rightarrow> u32 \<Rightarrow> u32 \<Rightarrow> u32 \<Rightarrow> 's cat_cb \<Rightarrow> 's \<Rightarrow> 'c \<Rightarrow> heap \<Rightarrow> ('c, 's) walk_result option" where
  "walk_catalog lay rdf sz root cnid cb s c h =
     (case odfs_malloc h of
        (False, h) \<Rightarrow> Some (ODFS_ERR_NOMEM, s, c, h)
      | (True, h) \<Rightarrow> do {
          (r, c) \<leftarrow> descend lay rdf sz cnid 20 root c;
          case r of
            Inl err \<Rightarrow> Some (err, s, c, h)
          | Inr cur \<Rightarrow> iter (leaf_body lay rdf sz cnid cb) (c, cur, False, s, h) })"

end
