(* ===== verification/Hfs.thy ===== *)
theory Hfs
  imports Catalog Text
begin

text \<open>
  The HFS reader, \<^verbatim>\<open>backends/hfs/hfs.c\<close>: finding the volume, the catalog tree, enumeration, lookup, reading,
  parents.  The master directory block is used through a pointer into the block cache; the pointer is the
  number of the cache entry, and its bytes are those the entry holds at the time of the access.
\<close>

section \<open>Data\<close>

definition HFS_MDB_SIG :: u16 where "HFS_MDB_SIG = 0x4244"
definition HFS_APM_SIG :: u16 where "HFS_APM_SIG = 0x504D"
definition HFS_CAT_DIR :: u8 where "HFS_CAT_DIR = 1"
definition HFS_CAT_FILE :: u8 where "HFS_CAT_FILE = 2"
definition HFS_CAT_DTHREAD :: u8 where "HFS_CAT_DTHREAD = 3"
definition HFS_CNID_ROOT_DIR :: u32 where "HFS_CNID_ROOT_DIR = 2"

record hfs_extent =
  start_ab :: u16
  num_ab :: u16

record hfs_context =
  vol_start_512 :: u32
  num_alloc_blocks :: u16
  alloc_block_size :: u32
  alloc_block_start :: u16
  hfs_volume_name :: "u8 list"
  cat_file_size :: u32
  cat_extents :: "hfs_extent list"
  cat_node_size :: u32
  cat_root_node :: u32
  cat_first_leaf :: u32
  hfs_next_id :: u32
  hfs_root :: odfs_node

definition zero_hfs_context :: hfs_context where
  "zero_hfs_context = \<lparr>vol_start_512 = 0, num_alloc_blocks = 0, alloc_block_size = 0, alloc_block_start = 0,
     hfs_volume_name = [], cat_file_size = 0, cat_extents = [], cat_node_size = 0, cat_root_node = 0,
     cat_first_leaf = 0, hfs_next_id = 0, hfs_root = zero_node\<rparr>"

section \<open>Helpers\<close>

definition hfs_ab_to_byte :: "hfs_context \<Rightarrow> u16 \<Rightarrow> u64" where
  "hfs_ab_to_byte ctx ab =
     (ucast ab * ucast (alloc_block_size ctx div 512) + ucast (alloc_block_start ctx) + ucast (vol_start_512 ctx)) * 512"

text \<open>The sectors that cover a node, copied one by one.\<close>

function node_copy :: "u32 \<Rightarrow> nat \<Rightarrow> nat \<Rightarrow> u8 list \<Rightarrow> 'm odfs_cache \<Rightarrow> ((odfs_err + u8 list) \<times> 'm odfs_cache) option" where
  "node_copy l lba_off remain buf c =
     (if remain = 0 then Some (Inr buf, c)
      else do {
        (r, c) \<leftarrow> odfs_cache_read c l;
        case r of
          Inl err \<Rightarrow> Some (Inl err, c)
        | Inr idx \<Rightarrow> do {
            sector \<leftarrow> cache_data c idx;
            let chunk = (if 2048 - lba_off > remain then remain else 2048 - lba_off);
            bs \<leftarrow> rdn sector lba_off chunk;
            if chunk = 0 then None
            else node_copy (l + 1) 0 (remain - chunk) (buf @ bs) c } })"
  by pat_completeness auto
termination
  by (relation "measure (\<lambda>(l, lba_off, remain, buf, c). remain)") auto

declare node_copy.simps [simp del]

text \<open>The extent that holds the offset; \<open>ext\<close> is where the extents still to be searched start in the file.\<close>

fun extent_of :: "hfs_context \<Rightarrow> u64 \<Rightarrow> hfs_extent list \<Rightarrow> u64 \<Rightarrow> u64 option" where
  "extent_of ctx off [] ext = None"
| "extent_of ctx off (e # es) ext =
     (let ext_bytes = ucast (num_ab e) * ucast (alloc_block_size ctx) in
      if off < ext + ext_bytes then Some (hfs_ab_to_byte ctx (start_ab e) + (off - ext))
      else extent_of ctx off es (ext + ext_bytes))"

definition hfs_read_node :: "hfs_context \<Rightarrow> 'm odfs_cache read_node" where
  "hfs_read_node ctx c node_num =
     (case extent_of ctx (ucast node_num * ucast (cat_node_size ctx)) (cat_extents ctx) 0 of
        None \<Rightarrow> Some (Inl ODFS_ERR_RANGE, c)
      | Some phys \<Rightarrow> node_copy (ucast (phys div 2048)) (unat (phys mod 2048)) (unat (cat_node_size ctx)) [] c)"

definition hfs_name_char :: "u8 \<Rightarrow> u8" where
  "hfs_name_char c = (if c = 0x3A then 0x2E else if c = 0x2F then 0x2D else if c < 0x20 \<or> c = 0x7F then 0x3F else c)"

definition hfs_name_to_utf8 :: "u8 list \<Rightarrow> nat \<Rightarrow> u8 list" where
  "hfs_name_to_utf8 src dst_size =
     (case odfs_mac_roman_to_utf8 src dst_size of Inr out \<Rightarrow> map hfs_name_char (cstr out) | Inl _ \<Rightarrow> [])"

section \<open>Finding the volume\<close>

definition APPLE_HFS :: "u8 list" where "APPLE_HFS = str_bytes ''Apple_HFS''"

definition hfs_probe :: "'m odfs_cache \<Rightarrow> u32 \<Rightarrow> (odfs_err \<times> 'm odfs_cache) option" where
  "hfs_probe c ss = do {
     (r, c) \<leftarrow> odfs_cache_read c ss;
     case r of
       Inl err \<Rightarrow> Some (err, c)
     | Inr idx \<Rightarrow> do {
         sector \<leftarrow> cache_data c idx;
         sig \<leftarrow> be16 sector 1024;
         if sig = HFS_MDB_SIG then Some (ODFS_OK, c)
         else do {
           sig \<leftarrow> be16 sector 512;
           if sig \<noteq> HFS_APM_SIG then Some (ODFS_ERR_BAD_FORMAT, c)
           else do {
             ptype \<leftarrow> rdn sector (512 + 48) 9;
             if ptype \<noteq> APPLE_HFS then Some (ODFS_ERR_BAD_FORMAT, c)
             else do {
               pstart \<leftarrow> be32 sector (512 + 8);
               let mdb_byte = ((ucast pstart + 2) * 512 :: u64);
               (r, c) \<leftarrow> odfs_cache_read c (ss + ucast (mdb_byte div 2048));
               case r of
                 Inl err \<Rightarrow> Some (err, c)
               | Inr idx \<Rightarrow> do {
                   sector \<leftarrow> cache_data c idx;
                   sig \<leftarrow> be16 sector (unat (mdb_byte mod 2048));
                   Some (if sig = HFS_MDB_SIG then ODFS_OK else ODFS_ERR_BAD_FORMAT, c) } } } } } }"

text \<open>The master directory block: the cache entry it is in, its offset there, and the start of the volume.\<close>

definition hfs_find_mdb :: "'m odfs_cache \<Rightarrow> u32 \<Rightarrow> ((odfs_err + int \<times> nat \<times> u32) \<times> 'm odfs_cache) option" where
  "hfs_find_mdb c ss = do {
     (r, c) \<leftarrow> odfs_cache_read c ss;
     case r of
       Inl err \<Rightarrow> Some (Inl err, c)
     | Inr idx \<Rightarrow> do {
         sector \<leftarrow> cache_data c idx;
         sig \<leftarrow> be16 sector 1024;
         if sig = HFS_MDB_SIG then Some (Inr (idx, 1024, ss * 4), c)
         else do {
           sig \<leftarrow> be16 sector 512;
           if sig \<noteq> HFS_APM_SIG then Some (Inl ODFS_ERR_BAD_FORMAT, c)
           else do {
             ptype \<leftarrow> rdn sector (512 + 48) 9;
             if ptype \<noteq> APPLE_HFS then Some (Inl ODFS_ERR_BAD_FORMAT, c)
             else do {
               pstart \<leftarrow> be32 sector (512 + 8);
               let vol = ss * 4 + pstart;
               let mdb_byte = ((ucast vol + 2) * 512 :: u64);
               let mdb_off = unat (mdb_byte mod 2048);
               (r, c) \<leftarrow> odfs_cache_read c (ucast (mdb_byte div 2048));
               case r of
                 Inl err \<Rightarrow> Some (Inl err, c)
               | Inr idx \<Rightarrow> do {
                   sector \<leftarrow> cache_data c idx;
                   sig \<leftarrow> be16 sector mdb_off;
                   Some (if sig \<noteq> HFS_MDB_SIG then Inl ODFS_ERR_BAD_FORMAT else Inr (idx, mdb_off, vol), c) } } } } } }"

section \<open>Mount\<close>

definition hfs_parse_extent :: "u8 list \<Rightarrow> nat \<Rightarrow> hfs_extent option" where
  "hfs_parse_extent d i = do { s \<leftarrow> be16 d i; n \<leftarrow> be16 d (i + 2); Some \<lparr>start_ab = s, num_ab = n\<rparr> }"

text \<open>The fields of the master directory block at offset \<open>m\<close> of the sector.\<close>

definition hfs_parse_mdb :: "u8 list \<Rightarrow> nat \<Rightarrow> u32 \<Rightarrow> hfs_context option" where
  "hfs_parse_mdb d m vol = do {
     nm \<leftarrow> be16 d (m + 18);
     bs \<leftarrow> be32 d (m + 20);
     st \<leftarrow> be16 d (m + 28);
     raw \<leftarrow> rdn d (m + 37) 27;
     len \<leftarrow> rd d (m + 36);
     let vlen = (if unat len > 27 then 27 else unat len);
     fs \<leftarrow> be32 d (m + 146);
     e0 \<leftarrow> hfs_parse_extent d (m + 150);
     e1 \<leftarrow> hfs_parse_extent d (m + 154);
     e2 \<leftarrow> hfs_parse_extent d (m + 158);
     Some (zero_hfs_context\<lparr>hfs_next_id := 1, vol_start_512 := vol, num_alloc_blocks := nm, alloc_block_size := bs,
       alloc_block_start := st, hfs_volume_name := hfs_name_to_utf8 (take vlen raw) 28, cat_file_size := fs,
       cat_extents := [e0, e1, e2]\<rparr>) }"

text \<open>The header node of the catalog tree, which says how large its nodes are.\<close>

definition hfs_read_header :: "hfs_context \<Rightarrow> 'm odfs_cache \<Rightarrow> ((odfs_err + hfs_context) \<times> 'm odfs_cache) option" where
  "hfs_read_header ctx c = do {
     let ctx = ctx\<lparr>cat_node_size := 512\<rparr>;
     (r, c) \<leftarrow> hfs_read_node ctx c 0;
     case r of
       Inl err \<Rightarrow> Some (Inl err, c)
     | Inr hdr \<Rightarrow> do {
         t \<leftarrow> rd hdr 8;
         if t \<noteq> NODE_HEADER then Some (Inl ODFS_ERR_BAD_FORMAT, c)
         else do {
           root \<leftarrow> be32 hdr 16;
           leaf \<leftarrow> be32 hdr 24;
           ns \<leftarrow> be16 hdr 32;
           let ctx = ctx\<lparr>cat_root_node := root, cat_first_leaf := leaf, cat_node_size := ucast ns\<rparr>;
           Some (if cat_node_size ctx < 14 \<or> cat_node_size ctx > 32768 then Inl ODFS_ERR_BAD_FORMAT else Inr ctx, c) } } }"

definition hfs_mount ::
    "'m odfs_cache \<Rightarrow> heap \<Rightarrow> u32 \<Rightarrow> ((odfs_err + odfs_node \<times> hfs_context) \<times> 'm odfs_cache \<times> heap) option" where
  "hfs_mount c h ss =
     (case odfs_malloc h of
        (False, h) \<Rightarrow> Some (Inl ODFS_ERR_NOMEM, c, h)
      | (True, h) \<Rightarrow> do {
          (r, c) \<leftarrow> hfs_find_mdb c ss;
          case r of
            Inl err \<Rightarrow> Some (Inl err, c, h)
          | Inr (idx, m, vol) \<Rightarrow> do {
              d \<leftarrow> cache_data c idx;
              ctx \<leftarrow> hfs_parse_mdb d m vol;
              (r, c) \<leftarrow> hfs_read_header ctx c;
              case r of
                Inl err \<Rightarrow> Some (Inl err, c, h)
              | Inr ctx \<Rightarrow> do {
                  d \<leftarrow> cache_data c idx;
                  lsmod \<leftarrow> be32 d (m + 6);
                  let t = odfs_timestamp_from_mac_time lsmod;
                  let root = zero_node\<lparr>backend := ODFS_BACKEND_HFS, kind := ODFS_NODE_DIR, name := [0x2F],
                        extent := \<lparr>lba = HFS_CNID_ROOT_DIR, extlen = 0\<rparr>, mtime := t, ctime := t\<rparr>;
                  Some (Inr (root, ctx\<lparr>hfs_root := root\<rparr>), c, h) } } })"

section \<open>The catalog\<close>

definition hfs_index_rec :: "u8 list \<Rightarrow> nat \<Rightarrow> nat \<Rightarrow> (u32 \<times> u32) option option" where
  "hfs_index_rec node sz off =
     (if off + 6 \<ge> sz then Some None
      else do {
        klen \<leftarrow> rd node off;
        if off + unat klen + 1 + 4 \<ge> sz then Some None
        else do {
          key_parent \<leftarrow> be32 node (off + 2);
          ptr \<leftarrow> be32 node (off + 1 + unat klen);
          Some (Some (key_parent, ptr)) } })"

definition word_align :: "nat \<Rightarrow> nat" where
  "word_align off = (if odd off then off + 1 else off)"

definition hfs_leaf_rec :: "u8 list \<Rightarrow> nat \<Rightarrow> nat \<Rightarrow> nat \<Rightarrow> (u32 \<times> cat_rec option) option option" where
  "hfs_leaf_rec node sz off next_off =
     (if off + 6 \<ge> sz then Some None
      else do {
        klen \<leftarrow> rd node off;
        if unat klen < 5 \<or> off + 1 + unat klen \<ge> sz then Some None
        else do {
          key_parent \<leftarrow> be32 node (off + 2);
          let data_off = word_align (off + 1 + unat klen);
          let data_len = (if next_off > data_off then next_off - data_off else 0);
          Some (Some (key_parent,
            if data_off < sz \<and> data_len > 0
            then Some \<lparr>cr_node = node, cr_key = off, cr_key_len = unat klen + 1, cr_data = data_off, cr_data_len = data_len\<rparr>
            else None)) } })"

definition hfs_layout :: cat_layout where
  "hfs_layout = \<lparr>lay_index = hfs_index_rec, lay_leaf = hfs_leaf_rec\<rparr>"

definition hfs_walk_catalog ::
    "hfs_context \<Rightarrow> u32 \<Rightarrow> 's cat_cb \<Rightarrow> 's \<Rightarrow> 'm odfs_cache \<Rightarrow> heap \<Rightarrow> ('m odfs_cache, 's) walk_result option" where
  "hfs_walk_catalog ctx parent_cnid cb s c h =
     walk_catalog hfs_layout (hfs_read_node ctx) (cat_node_size ctx) (cat_root_node ctx) parent_cnid cb s c h"

section \<open>Enumeration\<close>

text \<open>The node of a record; \<open>None\<close> inside for a record that is neither a file nor a directory.\<close>

definition hfs_rec_name :: "cat_rec \<Rightarrow> u8 list option" where
  "hfs_rec_name rec =
     (if cr_key_len rec \<ge> 8 then do {
        nlen \<leftarrow> rd (cr_node rec) (cr_key rec + 6);
        if unat nlen > 0 \<and> 7 + unat nlen \<le> cr_key_len rec then do {
          raw \<leftarrow> rdn (cr_node rec) (cr_key rec + 7) (unat nlen);
          Some (hfs_name_to_utf8 raw ODFS_NAME_MAX) }
        else Some [] }
      else Some [])"

definition hfs_rec_node :: "cat_rec \<Rightarrow> odfs_node option option" where
  "hfs_rec_node rec =
     (if cr_data_len rec < 1 then Some None
      else do {
        let data = cr_data rec;
        rec_type \<leftarrow> rd (cr_node rec) data;
        if rec_type \<noteq> HFS_CAT_FILE \<and> rec_type \<noteq> HFS_CAT_DIR then Some None
        else do {
          nm \<leftarrow> hfs_rec_name rec;
          let node = zero_node\<lparr>backend := ODFS_BACKEND_HFS, name := nm\<rparr>;
          if rec_type = HFS_CAT_DIR \<and> cr_data_len rec \<ge> 22 then do {
            dir_id \<leftarrow> be32 (cr_node rec) (data + 6);
            t \<leftarrow> be32 (cr_node rec) (data + 14);
            let t = odfs_timestamp_from_mac_time t;
            Some (Some (node\<lparr>kind := ODFS_NODE_DIR, extent := \<lparr>lba = dir_id, extlen = 0\<rparr>, mtime := t, ctime := t\<rparr>)) }
          else if rec_type = HFS_CAT_FILE \<and> cr_data_len rec \<ge> 52 then do {
            sz \<leftarrow> be32 (cr_node rec) (data + 26);
            ext \<leftarrow> (if cr_data_len rec \<ge> 78 then do {
                       ab \<leftarrow> be16 (cr_node rec) (data + 74);
                       Some \<lparr>lba = ucast ab, extlen = sz\<rparr> }
                     else Some \<lparr>lba = 0, extlen = 0\<rparr>);
            t \<leftarrow> be32 (cr_node rec) (data + 48);
            let t = odfs_timestamp_from_mac_time t;
            Some (Some (node\<lparr>kind := ODFS_NODE_FILE, size := ucast sz, extent := ext, mtime := t, ctime := t\<rparr>)) }
          else Some (Some node) } })"

record 's hfs_readdir_ctx =
  rc_next_id :: u32
  rc_cb :: 's
  rc_entry_index :: u32
  rc_resume :: u32
  rc_last_err :: odfs_err
  rc_names :: odfs_namefix_state

definition hfs_readdir_cb :: "odfs_node \<Rightarrow> 's dir_iter_fn \<Rightarrow> u32 \<Rightarrow> 's hfs_readdir_ctx cat_cb" where
  "hfs_readdir_cb dir cb skip_to rec rc h = do {
     n \<leftarrow> hfs_rec_node rec;
     case n of
       None \<Rightarrow> Some (ODFS_OK, rc, h)
     | Some node \<Rightarrow> do {
         let node = node\<lparr>node_id := rc_next_id rc, parent_id := node_id dir\<rparr>;
         let rc = rc\<lparr>rc_next_id := rc_next_id rc + 1\<rparr>;
         (err, nm, names, h) \<leftarrow> odfs_namefix_apply (rc_names rc) h (name node) ODFS_NAME_MAX;
         let rc = rc\<lparr>rc_names := names\<rparr>;
         if err \<noteq> ODFS_OK then Some (err, rc\<lparr>rc_last_err := err\<rparr>, h)
         else if rc_entry_index rc < skip_to then Some (ODFS_OK, rc\<lparr>rc_entry_index := rc_entry_index rc + 1\<rparr>, h)
         else
           let rc = rc\<lparr>rc_entry_index := rc_entry_index rc + 1\<rparr> in
           (case cb (node\<lparr>name := nm\<rparr>) (rc_cb rc) h of
              (err, s, h) \<Rightarrow>
                let rc = rc\<lparr>rc_cb := s, rc_last_err := err\<rparr> in
                if err \<noteq> ODFS_OK then Some (err, rc\<lparr>rc_resume := rc_entry_index rc\<rparr>, h) else Some (ODFS_OK, rc, h)) } }"

definition hfs_readdir ::
    "hfs_context \<Rightarrow> 'm odfs_cache \<Rightarrow> heap \<Rightarrow> odfs_node \<Rightarrow> 's dir_iter_fn \<Rightarrow> 's \<Rightarrow> u32 \<Rightarrow>
     ('m, hfs_context, odfs_err \<times> u32 \<times> 's) be_result" where
  "hfs_readdir ctx c h dir cb s resume = do {
     (err, rc, c, h) \<leftarrow> hfs_walk_catalog ctx (lba (extent dir)) (hfs_readdir_cb dir cb resume)
       \<lparr>rc_next_id = hfs_next_id ctx, rc_cb = s, rc_entry_index = 0, rc_resume = resume, rc_last_err = ODFS_OK,
        rc_names = odfs_namefix_init\<rparr> c h;
     let ctx = ctx\<lparr>hfs_next_id := rc_next_id rc\<rparr>;
     Some (if rc_last_err rc \<noteq> ODFS_OK then (rc_last_err rc, rc_resume rc, rc_cb rc) else (err, rc_entry_index rc, rc_cb rc),
           ctx, c, h) }"

section \<open>Reading and lookup\<close>

definition hfs_read ::
    "hfs_context \<Rightarrow> 'm odfs_cache \<Rightarrow> heap \<Rightarrow> odfs_node \<Rightarrow> u64 \<Rightarrow> u8 list \<Rightarrow> nat \<Rightarrow>
     ('m, hfs_context, odfs_err \<times> u8 list \<times> nat) be_result" where
  "hfs_read ctx c h file offset buf want =
     (if offset \<ge> size file then Some ((ODFS_OK, buf, 0), ctx, c, h)
      else do {
        let want = (if want > unat (size file - offset) then unat (size file - offset) else want);
        let data_start = hfs_ab_to_byte ctx (ucast (lba (extent file)));
        (err, buf, n, c) \<leftarrow> odfs_cache_read_bytes c 0 (data_start + offset) buf want;
        Some ((err, buf, n), ctx, c, h) })"

definition hfs_lookup_iter :: "u8 list \<Rightarrow> odfs_node option dir_iter_fn" where
  "hfs_lookup_iter nm entry s h =
     (if odfs_strcasecmp (name entry) nm = 0 then (ODFS_ERR_EOF, Some entry, h) else (ODFS_OK, s, h))"

definition hfs_lookup ::
    "hfs_context \<Rightarrow> 'm odfs_cache \<Rightarrow> heap \<Rightarrow> odfs_node \<Rightarrow> u8 list \<Rightarrow> ('m, hfs_context, odfs_err + odfs_node) be_result" where
  "hfs_lookup ctx c h dir nm = do {
     ((err, resume, found), ctx, c, h) \<leftarrow> hfs_readdir ctx c h dir (hfs_lookup_iter nm) None 0;
     Some (case found of
             Some node \<Rightarrow> if err = ODFS_ERR_EOF \<or> err = ODFS_OK then Inr node else Inl err
           | None \<Rightarrow> if err \<noteq> ODFS_OK then Inl err else Inl ODFS_ERR_NOT_FOUND,
           ctx, c, h) }"

section \<open>Parents\<close>

text \<open>The context of \<open>hfs_thread_cb\<close> is the parent found, if any.\<close>

definition hfs_thread_cb :: "u32 option cat_cb" where
  "hfs_thread_cb rec info h =
     (if cr_data_len rec < 14 then Some (ODFS_OK, info, h)
      else do {
        t \<leftarrow> rd (cr_node rec) (cr_data rec);
        if t \<noteq> HFS_CAT_DTHREAD then Some (ODFS_OK, info, h)
        else do {
          p \<leftarrow> be32 (cr_node rec) (cr_data rec + 10);
          Some (ODFS_ERR_EOF, Some p, h) } })"

definition hfs_read_thread ::
    "hfs_context \<Rightarrow> 'm odfs_cache \<Rightarrow> heap \<Rightarrow> u32 \<Rightarrow> ((odfs_err + u32) \<times> 'm odfs_cache \<times> heap) option" where
  "hfs_read_thread ctx c h cnid = do {
     (err, info, c, h) \<leftarrow> hfs_walk_catalog ctx cnid hfs_thread_cb None c h;
     Some (case info of
             Some p \<Rightarrow> Inr p
           | None \<Rightarrow> Inl (if err = ODFS_OK \<or> err = ODFS_ERR_EOF then ODFS_ERR_NOT_FOUND else err), c, h) }"

definition hfs_cnid_match_cb :: "u32 \<Rightarrow> odfs_node option dir_iter_fn" where
  "hfs_cnid_match_cb want_cnid entry s h =
     (if kind entry = ODFS_NODE_DIR \<and> lba (extent entry) = want_cnid then (ODFS_ERR_EOF, Some entry, h) else (ODFS_OK, s, h))"

definition hfs_find_child_by_cnid ::
    "hfs_context \<Rightarrow> 'm odfs_cache \<Rightarrow> heap \<Rightarrow> odfs_node \<Rightarrow> u32 \<Rightarrow> ('m, hfs_context, odfs_err + odfs_node) be_result" where
  "hfs_find_child_by_cnid ctx c h parent_dir child_cnid = do {
     ((err, resume, found), ctx, c, h) \<leftarrow> hfs_readdir ctx c h parent_dir (hfs_cnid_match_cb child_cnid) None 0;
     Some (case found of
             Some node \<Rightarrow> Inr node
           | None \<Rightarrow> Inl (if err = ODFS_OK \<or> err = ODFS_ERR_EOF then ODFS_ERR_NOT_FOUND else err), ctx, c, h) }"

definition hfs_dir_stub :: "u32 \<Rightarrow> odfs_node" where
  "hfs_dir_stub cnid = zero_node\<lparr>backend := ODFS_BACKEND_HFS, kind := ODFS_NODE_DIR, extent := \<lparr>lba = cnid, extlen = 0\<rparr>\<rparr>"

definition hfs_dir_at :: "hfs_context \<Rightarrow> u32 \<Rightarrow> odfs_node" where
  "hfs_dir_at ctx cnid = (if cnid = HFS_CNID_ROOT_DIR then hfs_root ctx else hfs_dir_stub cnid)"

definition hfs_resolve_grandparent ::
    "hfs_context \<Rightarrow> 'm odfs_cache \<Rightarrow> heap \<Rightarrow> u32 \<Rightarrow> ('m, hfs_context, odfs_err + odfs_node) be_result" where
  "hfs_resolve_grandparent ctx c h gp_cnid =
     (if gp_cnid = HFS_CNID_ROOT_DIR then Some (Inr (hfs_root ctx), ctx, c, h)
      else do {
        (r, c, h) \<leftarrow> hfs_read_thread ctx c h gp_cnid;
        case r of
          Inl err \<Rightarrow> Some (Inl err, ctx, c, h)
        | Inr great \<Rightarrow> hfs_find_child_by_cnid ctx c h (hfs_dir_at ctx great) gp_cnid })"

definition hfs_resolve_parent ::
    "hfs_context \<Rightarrow> 'm odfs_cache \<Rightarrow> heap \<Rightarrow> odfs_node \<Rightarrow> bool \<Rightarrow>
     ('m, hfs_context, odfs_err + odfs_node \<times> odfs_node option) be_result" where
  "hfs_resolve_parent ctx c h dir want_gp =
     (if kind dir \<noteq> ODFS_NODE_DIR then Some (Inl ODFS_ERR_NOT_DIR, ctx, c, h)
      else if lba (extent dir) = HFS_CNID_ROOT_DIR then Some (Inl ODFS_ERR_NOT_FOUND, ctx, c, h)
      else do {
        (r, c, h) \<leftarrow> hfs_read_thread ctx c h (lba (extent dir));
        case r of
          Inl err \<Rightarrow> Some (Inl err, ctx, c, h)
        | Inr parent_cnid \<Rightarrow>
            if parent_cnid = HFS_CNID_ROOT_DIR
            then Some (Inr (hfs_root ctx, if want_gp then Some (hfs_root ctx) else None), ctx, c, h)
            else do {
              (r, c, h) \<leftarrow> hfs_read_thread ctx c h parent_cnid;
              case r of
                Inl err \<Rightarrow> Some (Inl err, ctx, c, h)
              | Inr gp_cnid \<Rightarrow> do {
                  (r, ctx, c, h) \<leftarrow> hfs_find_child_by_cnid ctx c h (hfs_dir_at ctx gp_cnid) parent_cnid;
                  case r of
                    Inl err \<Rightarrow> Some (Inl err, ctx, c, h)
                  | Inr parent \<Rightarrow>
                      if \<not> want_gp then Some (Inr (parent, None), ctx, c, h)
                      else do {
                        (r, ctx, c, h) \<leftarrow> hfs_resolve_grandparent ctx c h gp_cnid;
                        case r of
                          Inl err \<Rightarrow> Some (Inl err, ctx, c, h)
                        | Inr gp \<Rightarrow> Some (Inr (parent, Some gp), ctx, c, h) } } } })"

section \<open>The volume\<close>

definition hfs_get_volume_name :: "hfs_context \<Rightarrow> nat \<Rightarrow> u8 list option" where
  "hfs_get_volume_name ctx buf_size =
     (if buf_size = 0 then None
      else Some (take (if length (hfs_volume_name ctx) \<ge> buf_size then buf_size - 1 else length (hfs_volume_name ctx)) (hfs_volume_name ctx)))"

definition volume_blocks :: "u64 \<Rightarrow> u32" where
  "volume_blocks bytes = (let blocks = (bytes + 2047) div 2048 in if blocks > 0xFFFFFFFF then 0xFFFFFFFF else ucast blocks)"

definition hfs_get_volume_size :: "hfs_context \<Rightarrow> u32" where
  "hfs_get_volume_size ctx = volume_blocks (ucast (num_alloc_blocks ctx) * ucast (alloc_block_size ctx))"

definition hfs_backend_ops :: "('m, hfs_context, 's) odfs_backend_ops" where
  "hfs_backend_ops =
     \<lparr>be_name = ''hfs'', be_type = ODFS_BACKEND_HFS, be_flags = 0, be_probe = hfs_probe, be_mount = hfs_mount,
      be_readdir = hfs_readdir, be_read = hfs_read, be_lookup = hfs_lookup, be_readlink = None,
      be_resolve_parent = Some hfs_resolve_parent, be_get_volume_name = Some hfs_get_volume_name,
      be_get_volume_size = Some hfs_get_volume_size\<rparr>"

end
