(* ===== verification/Catalog_Facts.thy ===== *)
theory Catalog_Facts
  imports Catalog
begin

text \<open>
  What a catalog tree contains, and that the walk finds it.  A tree is given by the images of its
  nodes; the interface to the reader of nodes, which the two formats provide, is the locale \<open>catalog\<close>.
\<close>

section \<open>Leaves\<close>

type_synonym cat_entry = "u32 \<times> cat_rec option"

definition leaf_entry :: "cat_layout \<Rightarrow> u8 list \<Rightarrow> u32 \<Rightarrow> nat \<Rightarrow> cat_entry option" where
  "leaf_entry lay node sz r = do {
     off \<leftarrow> rec_offset node sz r;
     next_off \<leftarrow> rec_offset node sz (r + 1);
     v \<leftarrow> lay_leaf lay node (unat sz) off next_off;
     v }"

text \<open>A leaf with the entries \<open>es\<close> that is linked to the leaf \<open>link\<close>.\<close>

definition is_leaf :: "cat_layout \<Rightarrow> u32 \<Rightarrow> u8 list \<Rightarrow> cat_entry list \<Rightarrow> u32 \<Rightarrow> bool" where
  "is_leaf lay sz node es link \<longleftrightarrow> es \<noteq> [] \<and> rd node 8 = Some NODE_LEAF \<and> read_record_count node sz = Some (Some (length es)) \<and>
     those (map (leaf_entry lay node sz) [0..<length es]) = Some es \<and> be32 node 0 = Some link"

type_synonym leaf = "u32 \<times> cat_entry list"

fun leaf_chain :: "cat_layout \<Rightarrow> (u32 \<Rightarrow> u8 list option) \<Rightarrow> u32 \<Rightarrow> leaf list \<Rightarrow> bool" where
  "leaf_chain lay img sz [] = True"
| "leaf_chain lay img sz ((n, es) # ls) \<longleftrightarrow> n \<noteq> 0 \<and>
     (case img n of None \<Rightarrow> False | Some node \<Rightarrow> is_leaf lay sz node es (case ls of [] \<Rightarrow> 0 | (m, _) # _ \<Rightarrow> m)) \<and>
     leaf_chain lay img sz ls"

definition leaf_keys :: "leaf list \<Rightarrow> u32 list" where
  "leaf_keys ls = map fst (concat (map snd ls))"

text \<open>The records of a directory among the entries.\<close>

definition dir_recs :: "u32 \<Rightarrow> cat_entry list \<Rightarrow> cat_rec list" where
  "dir_recs cnid es = List.map_filter (\<lambda>(kp, r). if kp = cnid then r else None) es"

lemma dir_recs_simps [simp]:
  "dir_recs cnid [] = []" "dir_recs cnid (es @ es') = dir_recs cnid es @ dir_recs cnid es'"
  by (simp_all add: dir_recs_def map_filter_def)

lemma dir_recs_Cons: "dir_recs cnid ((kp, r) # es) = (if kp = cnid then case r of None \<Rightarrow> [] | Some rec \<Rightarrow> [rec] else []) @ dir_recs cnid es"
  by (simp add: dir_recs_def map_filter_simps split: option.split)

lemma dir_recs_none: "cnid \<notin> fst ` set es \<Longrightarrow> dir_recs cnid es = []"
  by (induction es) (auto simp: dir_recs_Cons)

text \<open>A callback over records, until it stops.\<close>

fun cat_run :: "'s cat_cb \<Rightarrow> cat_rec list \<Rightarrow> 's \<Rightarrow> heap \<Rightarrow> (odfs_err \<times> 's \<times> heap) option" where
  "cat_run cb [] s h = Some (ODFS_OK, s, h)"
| "cat_run cb (rec # recs) s h = do {
     (err, s, h) \<leftarrow> cb rec s h;
     if err \<noteq> ODFS_OK then Some (err, s, h) else cat_run cb recs s h }"

lemma cat_run_append:
  "cat_run cb (xs @ ys) s h = do {
     (err, s, h) \<leftarrow> cat_run cb xs s h;
     if err \<noteq> ODFS_OK then Some (err, s, h) else cat_run cb ys s h }"
  by (induction xs arbitrary: s h) (auto split: prod.splits bind_splits)

text \<open>The loop over the entries of a leaf, on sorted entries.\<close>

lemma leaf_recs_run:
  assumes "those (map (leaf_entry lay node sz) rs) = Some es" "sorted (map fst es)"
    "cat_run cb (dir_recs cnid es) s h = Some (err, s', h')"
  shows "leaf_recs lay node sz cnid cb rs found s h =
    Some (if err \<noteq> ODFS_OK \<or> (\<exists>kp \<in> fst ` set es. cnid < kp) then Inl (err, s', h') else Inr (found \<or> cnid \<in> fst ` set es, s', h'))"
  using assms
proof (induction rs arbitrary: es found s h)
  case Nil
  then show ?case by auto
next
  case (Cons r rs)
  from Cons.prems(1) obtain kp rec es' where e: "leaf_entry lay node sz r = Some (kp, rec)" "es = (kp, rec) # es'"
    "those (map (leaf_entry lay node sz) rs) = Some es'"
    by (auto split: option.splits)
  from e(1) obtain off next_off where v: "rec_offset node sz r = Some off" "rec_offset node sz (r + 1) = Some next_off"
    "lay_leaf lay node (unat sz) off next_off = Some (Some (kp, rec))"
    by (auto simp: leaf_entry_def bind_eq_Some_conv)
  have sd: "sorted (map fst es')" "\<forall>k \<in> fst ` set es'. kp \<le> k" using Cons.prems(2) e(2) by auto
  note IH = Cons.IH[OF e(3) sd(1)]
  have step: "leaf_recs lay node sz cnid cb (r # rs) found s h =
     (if kp < cnid then leaf_recs lay node sz cnid cb rs found s h
      else if kp > cnid then Some (Inl (ODFS_OK, s, h))
      else (case rec of
          None \<Rightarrow> leaf_recs lay node sz cnid cb rs True s h
        | Some rec \<Rightarrow> do {
            (err, s, h) \<leftarrow> cb rec s h;
            if err \<noteq> ODFS_OK then Some (Inl (err, s, h)) else leaf_recs lay node sz cnid cb rs True s h }))"
    using v by simp
  consider "kp < cnid" | "cnid < kp" | "kp = cnid" by (rule linorder_cases)
  then show ?case
  proof cases
    case 1
    then have "dir_recs cnid es = dir_recs cnid es'" by (auto simp: e(2) dir_recs_Cons)
    with IH[of s h found] Cons.prems(3) have "leaf_recs lay node sz cnid cb rs found s h =
        Some (if err \<noteq> ODFS_OK \<or> (\<exists>kp \<in> fst ` set es'. cnid < kp) then Inl (err, s', h') else Inr (found \<or> cnid \<in> fst ` set es', s', h'))"
      by simp
    moreover have "(\<exists>kp \<in> fst ` set es. cnid < kp) = (\<exists>kp \<in> fst ` set es'. cnid < kp)" "cnid \<in> fst ` set es \<longleftrightarrow> cnid \<in> fst ` set es'"
      using 1 by (auto simp: e(2))
    ultimately show ?thesis using 1 by (simp add: step del: leaf_recs.simps)
  next
    case 2
    with sd(2) have "cnid \<notin> fst ` set es" by (auto simp: e(2))
    then have "(err, s', h') = (ODFS_OK, s, h)" using Cons.prems(3) by (simp add: dir_recs_none)
    with 2 show ?thesis by (auto simp: step e(2) simp del: leaf_recs.simps)
  next
    case 3
    then have "(\<exists>kp \<in> fst ` set es. cnid < kp) = (\<exists>kp \<in> fst ` set es'. cnid < kp)" "cnid \<in> fst ` set es"
      by (auto simp: e(2))
    moreover have "leaf_recs lay node sz cnid cb (r # rs) found s h =
        Some (if err \<noteq> ODFS_OK \<or> (\<exists>kp \<in> fst ` set es'. cnid < kp) then Inl (err, s', h') else Inr (True, s', h'))"
    proof (cases rec)
      case None
      with 3 IH[of s h True] Cons.prems(3) show ?thesis by (simp add: step e(2) dir_recs_Cons del: leaf_recs.simps)
    next
      case (Some r')
      with 3 Cons.prems(3) e(2) obtain err1 s1 h1 where cb: "cb r' s h = Some (err1, s1, h1)"
        "(if err1 \<noteq> ODFS_OK then Some (err1, s1, h1) else cat_run cb (dir_recs cnid es') s1 h1) = Some (err, s', h')"
        by (auto simp: dir_recs_Cons bind_eq_Some_conv)
      with 3 Some IH[of s1 h1 True] show ?thesis by (cases "err1 = ODFS_OK") (simp_all add: step del: leaf_recs.simps)
    qed
    ultimately show ?thesis by simp
  qed
qed

section \<open>Trees\<close>

definition index_entry :: "cat_layout \<Rightarrow> u8 list \<Rightarrow> u32 \<Rightarrow> nat \<Rightarrow> (u32 \<times> u32) option" where
  "index_entry lay node sz r = do {
     off \<leftarrow> rec_offset node sz r;
     v \<leftarrow> lay_index lay node (unat sz) off;
     v }"

text \<open>A subtree of at most \<open>d\<close> levels of index nodes, with its leaves.  No key below a child that comes earlier is greater than
  the key of a later child.\<close>

inductive subtree :: "cat_layout \<Rightarrow> (u32 \<Rightarrow> u8 list option) \<Rightarrow> u32 \<Rightarrow> nat \<Rightarrow> u32 \<Rightarrow> leaf list \<Rightarrow> bool" for lay img sz where
  leaf: "img n = Some node \<Longrightarrow> rd node 8 = Some NODE_LEAF \<Longrightarrow> subtree lay img sz d n [(n, es)]"
| index: "img n = Some node \<Longrightarrow> rd node 8 = Some NODE_INDEX \<Longrightarrow> read_record_count node sz = Some (Some (length ks)) \<Longrightarrow>
    those (map (index_entry lay node sz) [0..<length ks]) = Some ks \<Longrightarrow> ks \<noteq> [] \<Longrightarrow> \<forall>k \<in> set ks. snd k \<noteq> 0 \<Longrightarrow>
    list_all2 (\<lambda>k ls. subtree lay img sz d (snd k) ls) ks lss \<Longrightarrow>
    (\<And>i j. i < length ks \<Longrightarrow> j < i \<Longrightarrow> \<forall>kp \<in> set (leaf_keys (lss ! j)). kp \<le> fst (ks ! i)) \<Longrightarrow>
    subtree lay img sz (Suc d) n (concat lss)"

text \<open>The child to follow.\<close>

fun pick :: "u32 \<Rightarrow> (u32 \<times> u32) list \<Rightarrow> u32 \<Rightarrow> u32" where
  "pick cnid [] child = child"
| "pick cnid ((kp, ptr) # ks) child =
     (let child = (if kp < cnid \<or> child = 0 then ptr else child) in if kp \<ge> cnid then child else pick cnid ks child)"

lemma index_child_pick:
  "those (map (index_entry lay node sz) rs) = Some ks \<Longrightarrow> index_child lay node sz cnid rs child = Some (pick cnid ks child)"
proof (induction rs arbitrary: ks child)
  case (Cons r rs)
  then obtain kp ptr ks' where e: "index_entry lay node sz r = Some (kp, ptr)" "ks = (kp, ptr) # ks'"
    "those (map (index_entry lay node sz) rs) = Some ks'"
    by (auto split: option.splits)
  from e(1) obtain off where v: "rec_offset node sz r = Some off" "lay_index lay node (unat sz) off = Some (Some (kp, ptr))"
    by (auto simp: index_entry_def bind_eq_Some_conv)
  show ?case using Cons.IH[OF e(3)] by (simp add: e(2) v Let_def)
qed simp

lemma pick_follow:
  "\<forall>k \<in> set ks. snd k \<noteq> 0 \<Longrightarrow> child \<noteq> 0 \<Longrightarrow>
   pick cnid ks child = child \<or> (\<exists>i < length ks. pick cnid ks child = snd (ks ! i) \<and> fst (ks ! i) < cnid)"
proof (induction ks arbitrary: child)
  case (Cons k ks)
  obtain kp ptr where k: "k = (kp, ptr)" by (cases k)
  show ?case
  proof (cases "kp < cnid")
    case True
    with Cons.IH[of ptr] Cons.prems(1) k consider "pick cnid ks ptr = ptr"
      | i where "i < length ks" "pick cnid ks ptr = snd (ks ! i)" "fst (ks ! i) < cnid" by auto
    then show ?thesis
    proof cases
      case 1
      with True k show ?thesis by (intro disjI2 exI[of _ 0]) auto
    next
      case (2 i)
      with True k show ?thesis by (intro disjI2 exI[of _ "Suc i"]) auto
    qed
  next
    case False
    then have "cnid \<le> kp" by simp
    with False Cons.prems(2) k show ?thesis by (intro disjI1) simp
  qed
qed simp

lemma pick_first:
  assumes "ks \<noteq> []" "\<forall>k \<in> set ks. snd k \<noteq> 0"
  shows "\<exists>i < length ks. pick cnid ks 0 = snd (ks ! i) \<and> (i = 0 \<or> fst (ks ! i) < cnid)"
proof -
  from assms(1) obtain kp ptr ks' where ks: "ks = (kp, ptr) # ks'" by (metis list.exhaust surj_pair)
  show ?thesis
  proof (cases "kp < cnid")
    case True
    with pick_follow[of ks' ptr cnid] assms(2) ks consider "pick cnid ks' ptr = ptr"
      | i where "i < length ks'" "pick cnid ks' ptr = snd (ks' ! i)" "fst (ks' ! i) < cnid" by auto
    then show ?thesis
    proof cases
      case 1
      with True ks show ?thesis by (intro exI[of _ 0]) auto
    next
      case (2 i)
      with True ks show ?thesis by (intro exI[of _ "Suc i"]) auto
    qed
  next
    case False
    with ks show ?thesis by (intro exI[of _ 0]) (simp add: not_less)
  qed
qed

section \<open>The walk\<close>

text \<open>
  The interface to a format: its node reader delivers the images of the nodes or fails with an error \<open>io\<close>, and
  the parent a leaf record belongs to is the word behind the key length, inside the node.
\<close>

locale catalog =
  fixes lay :: cat_layout and rdf :: "'c read_node" and good :: "'c \<Rightarrow> bool" and img :: "u32 \<Rightarrow> u8 list option"
    and io :: "odfs_err \<Rightarrow> bool" and sz :: u32
  assumes read: "good c \<Longrightarrow> img n = Some node \<Longrightarrow> \<exists>r c'. rdf c n = Some (r, c') \<and> good c' \<and> (r = Inr node \<or> (\<exists>e. r = Inl e \<and> io e))"
    and io_err: "io e \<Longrightarrow> e \<noteq> ODFS_OK"
    and key: "lay_leaf lay node (unat sz) off next_off = Some (Some (kp, rec)) \<Longrightarrow> off + 6 < unat sz \<and> be32 node (off + 2) = Some kp"
begin

lemma read_cases:
  assumes "good c" "img n = Some node"
  obtains (err) e c' where "rdf c n = Some (Inl e, c')" "io e" "good c'" | (ok) c' where "rdf c n = Some (Inr node, c')" "good c'"
  using read[OF assms] that by auto

text \<open>The descent reaches a leaf with no record of the directory before it.\<close>

lemma descend_ok:
  assumes "subtree lay img sz d n ls" "d \<le> depth" "good c"
  shows "\<exists>r c'. descend lay rdf sz cnid depth n c = Some (r, c') \<and> good c' \<and>
    (case r of Inl e \<Rightarrow> io e | Inr m \<Rightarrow> \<exists>pre es post. ls = pre @ (m, es) # post \<and> (\<forall>kp \<in> set (leaf_keys pre). kp < cnid))"
  using assms
proof (induction arbitrary: depth c rule: subtree.induct)
  case (leaf n node d es)
  have here: "\<exists>pre es' post. [(n, es)] = pre @ (n, es') # post \<and> (\<forall>kp \<in> set (leaf_keys pre). kp < cnid)"
    by (intro exI[of _ "[]"] exI[of _ es]) (simp add: leaf_keys_def)
  show ?case
  proof (cases depth)
    case 0
    with leaf.prems here show ?thesis by simp
  next
    case (Suc k)
    from leaf.prems(2) leaf.hyps(1) show ?thesis
      by (cases rule: read_cases) (use Suc leaf.hyps(2) here in simp_all)
  qed
next
  case (index n node ks d lss)
  from index.prems(1) obtain k where k: "depth = Suc k" "d \<le> k" by (cases depth) auto
  obtain i where i: "i < length ks" "pick cnid ks 0 = snd (ks ! i)" "i = 0 \<or> fst (ks ! i) < cnid"
    using pick_first[OF index.hyps(5,6)] by blast
  from index.prems(2) index.hyps(1) show ?case
  proof (cases rule: read_cases)
    case (err e c')
    with k show ?thesis by simp
  next
    case (ok c')
    have len: "length lss = length ks" using index.IH by (simp add: list_all2_lengthD)
    have nz: "pick cnid ks 0 \<noteq> 0" using i(1,2) index.hyps(6) by simp
    have ni: "NODE_INDEX \<noteq> NODE_LEAF" by (simp add: NODE_INDEX_def NODE_LEAF_def)
    have "descend lay rdf sz cnid depth n c = descend lay rdf sz cnid k (snd (ks ! i)) c'"
      using ok(1) index.hyps(2,3) index_child_pick[OF index.hyps(4), of cnid 0] nz i(2) by (simp add: k(1) ni)
    moreover from list_all2_nthD[OF index.IH i(1)] k(2) ok(2) obtain r c2 where
      r: "descend lay rdf sz cnid k (snd (ks ! i)) c' = Some (r, c2)" "good c2"
      "case r of Inl e \<Rightarrow> io e | Inr m \<Rightarrow> \<exists>pre es post. lss ! i = pre @ (m, es) # post \<and> (\<forall>kp \<in> set (leaf_keys pre). kp < cnid)"
      by blast
    moreover have "\<exists>pre es post. concat lss = pre @ (m, es) # post \<and> (\<forall>kp \<in> set (leaf_keys pre). kp < cnid)"
      if "lss ! i = pre @ (m, es) # post" "\<forall>kp \<in> set (leaf_keys pre). kp < cnid" for m pre es post
    proof -
      have "concat lss = concat (take i lss) @ lss ! i @ concat (drop (Suc i) lss)"
        using i(1) len by (metis concat.simps(2) concat_append id_take_nth_drop)
      then have eq: "concat lss = (concat (take i lss) @ pre) @ (m, es) # (post @ concat (drop (Suc i) lss))"
        by (simp add: that(1))
      have "kp < cnid" if "j < i" "kp \<in> set (leaf_keys (lss ! j))" for j kp
        using index.hyps(7)[OF i(1) that(1)] that(2) i(3) that(1) by (auto intro: le_less_trans)
      then have "\<forall>kp \<in> set (leaf_keys (concat (take i lss))). kp < cnid"
        using len i(1) by (fastforce simp: leaf_keys_def in_set_conv_nth)
      with that(2) have "\<forall>kp \<in> set (leaf_keys (concat (take i lss) @ pre)). kp < cnid" by (auto simp: leaf_keys_def)
      with eq show ?thesis by blast
    qed
    ultimately show ?thesis by (cases r) auto
  qed
qed

text \<open>The look at the next leaf sees the parent of its first record.\<close>

lemma peek_ok:
  assumes "good c" "img n = Some node" "is_leaf lay sz node es link"
  shows "\<exists>p c'. leaf_peek rdf sz cnid n c = Some (p, c') \<and> good c' \<and> (p = Inr (fst (hd es) = cnid) \<or> (\<exists>e. p = Inl e \<and> io e))"
  using assms(1,2)
proof (cases rule: read_cases)
  case (err e c')
  then show ?thesis by (simp add: leaf_peek_def)
next
  case (ok c')
  from assms(3) obtain kp rec es' where es: "es = (kp, rec) # es'" by (auto simp: is_leaf_def neq_Nil_conv)
  have "[0..<length es] = 0 # [1..<length es]" using upt_conv_Cons[of 0 "length es"] by (simp add: es del: upt_Suc)
  moreover have "those (map (leaf_entry lay node sz) [0..<length es]) = Some es" using assms(3) by (simp add: is_leaf_def)
  ultimately have "those (leaf_entry lay node sz 0 # map (leaf_entry lay node sz) [1..<length es]) = Some ((kp, rec) # es')"
    by (simp only: list.map es)
  then have "leaf_entry lay node sz 0 = Some (kp, rec)" by (auto split: option.splits)
  then obtain off next_off where v: "rec_offset node sz 0 = Some off"
    "lay_leaf lay node (unat sz) off next_off = Some (Some (kp, rec))"
    by (auto simp: leaf_entry_def bind_eq_Some_conv)
  with key[OF v(2)] ok assms(3) es show ?thesis by (simp add: leaf_peek_def is_leaf_def)
qed

text \<open>The loop along the leaves, before the leaves \<open>ls\<close>: what it returns is what the callback returns over the records of the directory
  there, or an error \<open>io\<close> after some of them.\<close>

definition walked :: "'s cat_cb \<Rightarrow> cat_rec list \<Rightarrow> 's \<Rightarrow> heap \<Rightarrow> odfs_err \<times> 's \<times> heap \<Rightarrow> ('c, 's) walk_result \<Rightarrow> bool" where
  "walked cb recs s h fin res \<longleftrightarrow> (case res of (e, s', c', h') \<Rightarrow> good c' \<and>
     ((e, s', h') = fin \<or> io e \<and> (\<exists>k. cat_run cb (take k recs) s h = Some (ODFS_OK, s', h'))))"

lemma walked_skip:
  assumes "walked cb recs s1 h1 fin res" "cat_run cb recs1 s h = Some (ODFS_OK, s1, h1)"
  shows "walked cb (recs1 @ recs) s h fin res"
proof -
  obtain e s' c' h' where r: "res = (e, s', c', h')" by (cases res)
  from assms(1) consider "good c'" "(e, s', h') = fin" | k where "good c'" "io e" "cat_run cb (take k recs) s1 h1 = Some (ODFS_OK, s', h')"
    by (auto simp: walked_def r)
  then show ?thesis
  proof cases
    case 1
    then show ?thesis by (simp add: walked_def r)
  next
    case (2 k)
    then have "cat_run cb (take (length recs1 + k) (recs1 @ recs)) s h = Some (ODFS_OK, s', h')"
      using assms(2) by (simp add: cat_run_append)
    with 2(1,2) show ?thesis unfolding walked_def r by blast
  qed
qed

abbreviation first_leaf :: "leaf list \<Rightarrow> u32" where
  "first_leaf ls \<equiv> case ls of [] \<Rightarrow> 0 | (n, _) # _ \<Rightarrow> n"

abbreviation entries :: "leaf list \<Rightarrow> cat_entry list" where
  "entries ls \<equiv> concat (map snd ls)"

text \<open>One round: the records of the first leaf, and the look at the second.\<close>

lemma leaf_round:
  assumes g: "good c" and ch: "leaf_chain lay img sz ((n, es) # ls)" and sorted: "sorted (leaf_keys ((n, es) # ls))"
    and run: "cat_run cb (dir_recs cnid es) s h = Some (err, s1, h1)"
    and f: "found \<Longrightarrow> \<forall>kp \<in> set (leaf_keys ((n, es) # ls)). cnid \<le> kp"
  shows "\<exists>r. leaf_body lay rdf sz cnid cb (c, n, found, s, h) = Some r \<and> (case r of
      Inl (e, s', c', h') \<Rightarrow> good c' \<and>
        (io e \<and> (s', h') = (s, h) \<or> io e \<and> err = ODFS_OK \<and> (s', h') = (s1, h1) \<or>
         (e, s', h') = (err, s1, h1) \<and> (err \<noteq> ODFS_OK \<or> dir_recs cnid (entries ls) = []))
    | Inr (c', n', found', s', h') \<Rightarrow> good c' \<and> n' = first_leaf ls \<and> (s', h') = (s1, h1) \<and> err = ODFS_OK \<and>
        (found' \<longrightarrow> (\<forall>kp \<in> set (leaf_keys ls). cnid \<le> kp)))"
proof -
  from ch obtain node where node: "img n = Some node" "is_leaf lay sz node es (first_leaf ls)" and n0: "n \<noteq> 0"
    and ch': "leaf_chain lay img sz ls" by (auto split: option.splits)
  have sd: "sorted (map fst es)" "sorted (leaf_keys ls)" "\<forall>k \<in> fst ` set es. \<forall>k' \<in> set (leaf_keys ls). k \<le> k'"
    using sorted by (auto simp: leaf_keys_def sorted_append)
  have gt: "dir_recs cnid (entries ls) = []" if "\<forall>k \<in> set (leaf_keys ls). cnid < k"
    by (rule dir_recs_none) (use that in \<open>auto simp: leaf_keys_def\<close>)
  show ?thesis
    using g node(1)
  proof (cases rule: read_cases)
    case (err e c')
    with n0 show ?thesis by (simp add: leaf_body_def)
  next
    case (ok c')
    let ?stop = "err \<noteq> ODFS_OK \<or> (\<exists>kp \<in> fst ` set es. cnid < kp)" and ?found = "found \<or> cnid \<in> fst ` set es"
    have recs: "leaf_recs lay node sz cnid cb [0..<length es] found s h =
        Some (if ?stop then Inl (err, s1, h1) else Inr (?found, s1, h1))"
      by (rule leaf_recs_run[OF _ sd(1) run]) (use node(2) in \<open>simp add: is_leaf_def\<close>)
    have body: "leaf_body lay rdf sz cnid cb (c, n, found, s, h) =
        (if ?stop then Some (Inl (err, s1, c', h1))
         else if ?found \<and> first_leaf ls \<noteq> 0 then do {
           (p, c) \<leftarrow> leaf_peek rdf sz cnid (first_leaf ls) c';
           Some (case p of Inl err \<Rightarrow> Inl (err, s1, c, h1)
                 | Inr b \<Rightarrow> if b then Inr (c, first_leaf ls, ?found, s1, h1) else Inl (ODFS_OK, s1, c, h1)) }
         else Some (Inr (c', first_leaf ls, ?found, s1, h1)))"
      using n0 ok(1) node(2) recs unfolding leaf_body_def is_leaf_def by (simp del: leaf_recs.simps split del: if_split split: if_split_asm)
    have fnd: "\<forall>kp \<in> set (leaf_keys ls). cnid \<le> kp" if ?found using that f sd(3) by (auto simp: leaf_keys_def)
    show ?thesis
    proof (cases ?stop)
      case True
      have "dir_recs cnid (entries ls) = []" if "err = ODFS_OK"
        using True that sd(3) by (intro gt) (auto intro: less_le_trans)
      with True ok(2) show ?thesis unfolding body by auto
    next
      case go: False
      show ?thesis
      proof (cases "?found \<and> first_leaf ls \<noteq> 0")
        case False
        with go ok(2) fnd show ?thesis unfolding body by auto
      next
        case True
        then obtain m es2 ls2 where ls: "ls = (m, es2) # ls2" by (cases ls) auto
        with ch' obtain node2 where node2: "img m = Some node2" "is_leaf lay sz node2 es2 (first_leaf ls2)"
          by (auto split: option.splits)
        from peek_ok[OF ok(2) node2, of cnid] obtain p c2 where p: "leaf_peek rdf sz cnid m c' = Some (p, c2)" "good c2"
          "p = Inr (fst (hd es2) = cnid) \<or> (\<exists>e. p = Inl e \<and> io e)" by blast
        have "dir_recs cnid (entries ls) = []" if "fst (hd es2) \<noteq> cnid"
        proof -
          have e2: "es2 \<noteq> []" using node2(2) by (simp add: is_leaf_def)
          then have "fst (hd es2) \<in> set (leaf_keys ls)" by (simp add: ls leaf_keys_def)
          then have "cnid < fst (hd es2)" using fnd True that by fastforce
          moreover have "\<forall>k \<in> set (leaf_keys ls). fst (hd es2) \<le> k" using sd(2) e2 by (cases es2) (auto simp: ls leaf_keys_def)
          ultimately show ?thesis by (intro gt) (auto intro: less_le_trans)
        qed
        then show ?thesis using go True p fnd unfolding body by (auto simp: ls)
      qed
    qed
  qed
qed

lemma leaves_ok:
  assumes "good c" "leaf_chain lay img sz ls" "sorted (leaf_keys ls)" "found \<Longrightarrow> \<forall>kp \<in> set (leaf_keys ls). cnid \<le> kp"
    "cat_run cb (dir_recs cnid (entries ls)) s h = Some fin"
  shows "\<exists>res. iter (leaf_body lay rdf sz cnid cb) (c, first_leaf ls, found, s, h) = Some res \<and>
    walked cb (dir_recs cnid (entries ls)) s h fin res"
  using assms
proof (induction ls arbitrary: c found s h)
  case Nil
  then show ?case by (subst iter.simps) (simp add: leaf_body_def walked_def)
next
  case (Cons l ls)
  obtain n es where l: "l = (n, es)" by (cases l)
  from Cons.prems(5) l obtain err s1 h1 where run: "cat_run cb (dir_recs cnid es) s h = Some (err, s1, h1)"
    "(if err \<noteq> ODFS_OK then Some (err, s1, h1) else cat_run cb (dir_recs cnid (entries ls)) s1 h1) = Some fin"
    by (auto simp: cat_run_append bind_eq_Some_conv)
  from leaf_round[OF Cons.prems(1) Cons.prems(2-3)[unfolded l] run(1), of found] Cons.prems(4) l obtain r where
    r: "leaf_body lay rdf sz cnid cb (c, n, found, s, h) = Some r" "case r of
      Inl (e, s', c', h') \<Rightarrow> good c' \<and>
        (io e \<and> (s', h') = (s, h) \<or> io e \<and> err = ODFS_OK \<and> (s', h') = (s1, h1) \<or>
         (e, s', h') = (err, s1, h1) \<and> (err \<noteq> ODFS_OK \<or> dir_recs cnid (entries ls) = []))
    | Inr (c', n', found', s', h') \<Rightarrow> good c' \<and> n' = first_leaf ls \<and> (s', h') = (s1, h1) \<and> err = ODFS_OK \<and>
        (found' \<longrightarrow> (\<forall>kp \<in> set (leaf_keys ls). cnid \<le> kp))" by blast
  have nm: "first_leaf (l # ls) = n" "dir_recs cnid (entries (l # ls)) = dir_recs cnid es @ dir_recs cnid (entries ls)" by (simp_all add: l)
  show ?case
  proof (cases r)
    case (Inl res)
    obtain e s' c' h' where res: "res = (e, s', c', h')" by (cases res)
    have "walked cb (dir_recs cnid es @ dir_recs cnid (entries ls)) s h fin res"
    proof -
      from r(2) Inl res consider "good c'" "io e" "s' = s" "h' = h" | "good c'" "io e" "err = ODFS_OK" "s' = s1" "h' = h1"
        | "good c'" "(e, s', h') = (err, s1, h1)" "err \<noteq> ODFS_OK \<or> dir_recs cnid (entries ls) = []" by auto
      then show ?thesis
      proof cases
        case 1
        then show ?thesis by (auto simp: walked_def res intro!: exI[of _ 0])
      next
        case 2
        with run(1) show ?thesis by (auto simp: walked_def res intro!: exI[of _ "length (dir_recs cnid es)"])
      next
        case 3
        with run(2) have "fin = (err, s1, h1)" by (auto split: if_splits)
        with 3 show ?thesis by (simp add: walked_def res)
      qed
    qed
    then show ?thesis unfolding nm using r(1) Inl by (subst iter.simps) simp
  next
    case (Inr st)
    with r(2) obtain c' found' where st: "st = (c', first_leaf ls, found', s1, h1)" "good c'" "err = ODFS_OK"
      "found' \<longrightarrow> (\<forall>kp \<in> set (leaf_keys ls). cnid \<le> kp)" by (cases st) auto
    have "sorted (leaf_keys ls)" "leaf_chain lay img sz ls" using Cons.prems(2,3) l by (auto simp: leaf_keys_def sorted_append)
    from Cons.IH[OF st(2) this(2,1), of found' s1 h1] st(3,4) run(2) obtain res where
      "iter (leaf_body lay rdf sz cnid cb) (c', first_leaf ls, found', s1, h1) = Some res"
      "walked cb (dir_recs cnid (entries ls)) s1 h1 fin res" by auto
    with walked_skip[OF this(2)] run(1) st(3) show ?thesis unfolding nm using r(1) Inr st(1) by (subst iter.simps) simp
  qed
qed

text \<open>The whole walk.\<close>

lemma walk_ok:
  assumes g: "good c" and t: "subtree lay img sz 20 root ls" and ch: "leaf_chain lay img sz ls" and sd: "sorted (leaf_keys ls)"
    and m: "odfs_malloc h0 = (True, h)" and run: "cat_run cb (dir_recs cnid (entries ls)) s h = Some fin"
  shows "\<exists>res. walk_catalog lay rdf sz root cnid cb s c h0 = Some res \<and> walked cb (dir_recs cnid (entries ls)) s h fin res"
proof -
  from descend_ok[OF t order.refl g, of cnid] obtain r c' where r: "descend lay rdf sz cnid 20 root c = Some (r, c')" "good c'"
    "case r of Inl e \<Rightarrow> io e | Inr m \<Rightarrow> \<exists>pre es post. ls = pre @ (m, es) # post \<and> (\<forall>kp \<in> set (leaf_keys pre). kp < cnid)"
    by blast
  show ?thesis
  proof (cases r)
    case (Inl e)
    with r have "walk_catalog lay rdf sz root cnid cb s c h0 = Some (e, s, c', h)" "io e" by (simp_all add: walk_catalog_def m)
    with r(2) show ?thesis by (auto simp: walked_def intro!: exI[of _ 0])
  next
    case (Inr n)
    with r(3) obtain pre es post where ls: "ls = pre @ (n, es) # post" "\<forall>kp \<in> set (leaf_keys pre). kp < cnid" by auto
    have "dir_recs cnid (entries pre) = []" by (rule dir_recs_none) (use ls(2) in \<open>auto simp: leaf_keys_def\<close>)
    then have same: "dir_recs cnid (entries ls) = dir_recs cnid (entries ((n, es) # post))" by (simp add: ls(1))
    have ch': "leaf_chain lay img sz ((n, es) # post)" using ch unfolding ls(1) by (induction pre) auto
    have sd': "sorted (leaf_keys ((n, es) # post))" using sd by (auto simp: ls(1) leaf_keys_def sorted_append)
    from leaves_ok[OF r(2) ch' sd', of False cnid cb s h fin] run[unfolded same]
    show ?thesis unfolding same using r(1) Inr by (simp add: walk_catalog_def m)
  qed
qed

text \<open>Leaves that are linked in a circle are walked for ever.\<close>

lemma leaf_circle:
  assumes g: "good c" and node: "img n = Some node" "is_leaf lay sz node es n" "n \<noteq> 0"
    and below: "sorted (map fst es)" "\<forall>kp \<in> fst ` set es. kp < cnid"
    and r: "iter (leaf_body lay rdf sz cnid cb) (c, n, False, s, h) = Some res"
  shows "\<exists>e c'. res = (e, s, c', h) \<and> io e"
proof (rule iter_partial[where I = "\<lambda>st. \<exists>c. st = (c, n, False, s, h) \<and> good c", OF r])
  show "\<exists>c'. (c, n, False, s, h) = (c', n, False, s, h) \<and> good c'" using g by blast
  have "cnid \<notin> fst ` set es" using below(2) by auto
  then have "cat_run cb (dir_recs cnid es) s h = Some (ODFS_OK, s, h)" by (simp add: dir_recs_none)
  from leaf_recs_run[OF _ below(1) this, of lay node sz "[0..<length es]" False] node(2) \<open>cnid \<notin> _\<close> below(2)
  have recs: "leaf_recs lay node sz cnid cb [0..<length es] False s h = Some (Inr (False, s, h))"
    by (auto simp: is_leaf_def)
  have step: "\<exists>c'. good c' \<and> (leaf_body lay rdf sz cnid cb (c1, n, False, s, h) = Some (Inr (c', n, False, s, h)) \<or>
      (\<exists>e. io e \<and> leaf_body lay rdf sz cnid cb (c1, n, False, s, h) = Some (Inl (e, s, c', h))))" if "good c1" for c1
    using that node(1)
  proof (cases rule: read_cases)
    case (err e c')
    with node(3) show ?thesis by (auto simp: leaf_body_def)
  next
    case (ok c')
    with node(2,3) recs show ?thesis by (auto simp: leaf_body_def is_leaf_def simp del: leaf_recs.simps)
  qed
  show "\<exists>e c'. res' = (e, s, c', h) \<and> io e"
    if "\<exists>c. st = (c, n, False, s, h) \<and> good c" "leaf_body lay rdf sz cnid cb st = Some (Inl res')" for st res'
    using that step by fastforce
  show "\<exists>c. st' = (c, n, False, s, h) \<and> good c"
    if "\<exists>c. st = (c, n, False, s, h) \<and> good c" "leaf_body lay rdf sz cnid cb st = Some (Inr st')" for st st'
    using that step by fastforce
qed

end

end
