(* ===== verification/Hfs_Facts.thy ===== *)
theory Hfs_Facts
  imports Hfs Catalog_Facts Iso_Source
begin

text \<open>
  The HFS reader provides the interface of the catalog walk, and its enumeration delivers the files and
  directories the catalog lists for a directory.
\<close>

section \<open>The nodes of the catalog\<close>

definition hfs_node :: "(u32 \<Rightarrow> u8 list) \<Rightarrow> hfs_context \<Rightarrow> u32 \<Rightarrow> u8 list option" where
  "hfs_node disc ctx n =
     map_option (\<lambda>phys. disc_range disc 2048 (ucast (phys div 2048)) (unat (phys mod 2048)) (unat (cat_node_size ctx)))
       (extent_of ctx (ucast n * ucast (cat_node_size ctx)) (cat_extents ctx) 0)"

lemma disc_range_next: "0 < ss \<Longrightarrow> disc_range disc ss l (ss + k) n = disc_range disc ss (l + 1) k n"
  using div_add_self1[of ss "k + x" for x] by (simp add: disc_range_def disc_byte_def add.assoc)

lemma hfs_leaf_key:
  "hfs_leaf_rec node sz off next_off = Some (Some (kp, rec)) \<Longrightarrow> off + 6 < sz \<and> be32 node (off + 2) = Some kp"
  by (auto simp: hfs_leaf_rec_def bind_eq_Some_conv Let_def split: if_splits)

context iso_media
begin

abbreviation sector_error :: "odfs_err \<Rightarrow> bool" where
  "sector_error e \<equiv> \<exists>l. fails l 1 e"

lemma node_copy_ok:
  assumes "good_cache c xs" "off < 2048"
  shows "\<exists>r c' xs'. node_copy l off n buf c = Some (r, c') \<and> good_cache c' xs' \<and>
    (r = Inr (buf @ disc_range disc 2048 l off n) \<or> (\<exists>e. r = Inl e \<and> sector_error e))"
  using assms
proof (induction n arbitrary: l off buf c xs rule: less_induct)
  case (less n)
  show ?case
  proof (cases "n = 0")
    case True
    with less.prems show ?thesis by (subst node_copy.simps) (auto simp: disc_range_def)
  next
    case n0: False
    from less.prems(1) show ?thesis
    proof (cases rule: cache_read_ok[of c xs l])
      case (err e c')
      with n0 show ?thesis by (subst node_copy.simps) auto
    next
      case (ok idx c' xs')
      define k where "k = min n (2048 - off)"
      have k: "0 < k" "k \<le> n" "off + k \<le> 2048" using n0 less.prems(2) by (auto simp: k_def)
      have chunk: "(if 2048 - off > n then n else 2048 - off) = k" by (simp add: k_def min_def)
      have r: "rdn (disc l) off k = Some (disc_range disc 2048 l off k)"
        using k disc_range_sector[of disc l 0 2048 off k] by (simp add: rdn_in)
      have step: "node_copy l off n buf c = node_copy (l + 1) 0 (n - k) (buf @ disc_range disc 2048 l off k) c'"
        using ok(1,2) n0 k(1) r by (subst node_copy.simps) (simp add: Let_def chunk)
      have "disc_range disc 2048 (l + 1) 0 (n - k) = disc_range disc 2048 l (off + k) (n - k)"
      proof (cases "k = n")
        case False
        then have "off + k = 2048" using less.prems(2) by (auto simp: k_def min_def split: if_splits)
        then show ?thesis using disc_range_next[of 2048 disc l 0 "n - k"] by simp
      qed (simp add: disc_range_def)
      then have "disc_range disc 2048 l off k @ disc_range disc 2048 (l + 1) 0 (n - k) = disc_range disc 2048 l off n"
        using disc_range_add[of disc 2048 l off k "n - k"] k(2) by simp
      with less.IH[of "n - k" c' xs' 0 "l + 1" "buf @ disc_range disc 2048 l off k"] ok(3) k n0 show ?thesis
        unfolding step by simp
    qed
  qed
qed

lemma hfs_catalog:
  "catalog hfs_layout (hfs_read_node ctx) (\<lambda>c. \<exists>xs. good_cache c xs) (hfs_node disc ctx) sector_error (cat_node_size ctx)"
proof
  fix c n node
  assume "\<exists>xs. good_cache c xs" "hfs_node disc ctx n = Some node"
  then obtain xs phys where g: "good_cache c xs" and p: "extent_of ctx (ucast n * ucast (cat_node_size ctx)) (cat_extents ctx) 0 = Some phys"
    "node = disc_range disc 2048 (ucast (phys div 2048)) (unat (phys mod 2048)) (unat (cat_node_size ctx))"
    by (auto simp: hfs_node_def)
  have "unat (phys mod 2048) < 2048" by (simp add: unat_mod)
  from node_copy_ok[OF g this, of "ucast (phys div 2048)" "unat (cat_node_size ctx)" "[]"] p
  show "\<exists>r c'. hfs_read_node ctx c n = Some (r, c') \<and> (\<exists>xs. good_cache c' xs) \<and> (r = Inr node \<or> (\<exists>e. r = Inl e \<and> sector_error e))"
    unfolding hfs_read_node_def by auto
next
  fix e
  assume "sector_error e"
  then show "e \<noteq> ODFS_OK" by (auto dest: fails_err)
next
  fix node off next_off kp rec
  assume "lay_leaf hfs_layout node (unat (cat_node_size ctx)) off next_off = Some (Some (kp, rec))"
  then show "off + 6 < unat (cat_node_size ctx) \<and> be32 node (off + 2) = Some kp" using hfs_leaf_key[of node _ off next_off kp rec] by (simp add: hfs_layout_def)
qed

end

section \<open>The entries of a directory\<close>

text \<open>The files and directories among the records, numbered from \<open>i\<close>, with the number of the next.\<close>

fun hfs_entries :: "u32 \<Rightarrow> u32 \<Rightarrow> nat \<Rightarrow> cat_rec list \<Rightarrow> (nat \<times> nat \<times> odfs_node) list option" where
  "hfs_entries pid nid i [] = Some []"
| "hfs_entries pid nid i (rec # recs) = do {
     n \<leftarrow> hfs_rec_node rec;
     case n of
       None \<Rightarrow> hfs_entries pid nid i recs
     | Some node \<Rightarrow> do {
         es \<leftarrow> hfs_entries pid (nid + 1) (i + 1) recs;
         Some ((i, i + 1, node\<lparr>node_id := nid, parent_id := pid\<rparr>) # es) } }"

lemma hfs_entries_take: "hfs_entries pid nid i recs = Some es \<Longrightarrow> \<exists>j. hfs_entries pid nid i (take k recs) = Some (take j es)"
proof (induction recs arbitrary: nid i es k)
  case (Cons rec recs)
  show ?case
  proof (cases k)
    case 0
    then show ?thesis by (intro exI[of _ 0]) simp
  next
    case (Suc k')
    from Cons.prems obtain n where n: "hfs_rec_node rec = Some n" by (auto simp: bind_eq_Some_conv)
    show ?thesis
    proof (cases n)
      case None
      with n Cons.prems Cons.IH[of nid i es k'] Suc show ?thesis by simp
    next
      case (Some node)
      with n Cons.prems obtain es' where es: "hfs_entries pid (nid + 1) (i + 1) recs = Some es'"
        "es = (i, i + 1, node\<lparr>node_id := nid, parent_id := pid\<rparr>) # es'" by (auto simp: bind_eq_Some_conv)
      from Cons.IH[OF es(1), of k'] obtain j where "hfs_entries pid (nid + 1) (i + 1) (take k' recs) = Some (take j es')" by blast
      with n Some es(2) Suc show ?thesis by (intro exI[of _ "Suc j"]) simp
    qed
  qed
qed simp

text \<open>The callback of the walk does what enumeration does with the entries.\<close>

abbreviation hfs_resume :: "odfs_err \<Rightarrow> 's hfs_readdir_ctx \<Rightarrow> u32" where
  "hfs_resume err rc \<equiv> if err = ODFS_OK then rc_entry_index rc else rc_resume rc"

lemma readdir_cb_step:
  assumes "hfs_rec_node rec = Some (Some node)" "rc_entry_index rc = of_nat i" "i < 2 ^ 32"
  obtains err1 nm names h1 err2 s2 h2 where
    "odfs_namefix_apply (rc_names rc) h (name node) ODFS_NAME_MAX = Some (err1, nm, names, h1)"
    "cb (node\<lparr>node_id := rc_next_id rc, parent_id := node_id dir, name := nm\<rparr>) (rc_cb rc) h1 = (err2, s2, h2)"
    "hfs_readdir_cb dir cb t rec rc h = (
       let rc = rc\<lparr>rc_next_id := rc_next_id rc + 1, rc_names := names\<rparr>; rc1 = rc\<lparr>rc_entry_index := of_nat (i + 1)\<rparr>;
           rc2 = rc1\<lparr>rc_cb := s2, rc_last_err := err2\<rparr> in
       Some (if err1 \<noteq> ODFS_OK then (err1, rc\<lparr>rc_last_err := err1\<rparr>, h1)
             else if i < unat t then (ODFS_OK, rc1, h1)
             else if err2 \<noteq> ODFS_OK then (err2, rc2\<lparr>rc_resume := of_nat (i + 1)\<rparr>, h2) else (ODFS_OK, rc2, h2)))"
proof -
  obtain err1 nm names h1 where nf: "odfs_namefix_apply (rc_names rc) h (name node) ODFS_NAME_MAX = Some (err1, nm, names, h1)"
    using namefix_apply_some by blast
  obtain err2 s2 h2 where cb: "cb (node\<lparr>node_id := rc_next_id rc, parent_id := node_id dir, name := nm\<rparr>) (rc_cb rc) h1 = (err2, s2, h2)"
    by (metis prod_cases3)
  have lt: "of_nat i < t \<longleftrightarrow> i < unat t" using assms(3) by (simp add: word_less_nat_alt unat_u32_of_nat)
  show thesis
    by (rule that[OF nf cb]) (use assms nf cb lt in \<open>auto simp: hfs_readdir_cb_def Let_def\<close>)
qed

lemma readdir_cb_run:
  assumes "hfs_entries (node_id dir) (rc_next_id rc) i recs = Some es" "rc_entry_index rc = of_nat i" "i + length es < 2 ^ 32"
    "rc_last_err rc = ODFS_OK" "rc_resume rc = t"
  shows "\<exists>err rc' h'. cat_run (hfs_readdir_cb dir cb t) recs rc h = Some (err, rc', h') \<and> rc_last_err rc' = err \<and>
    list_run cb t (of_nat (i + length es)) (rc_names rc) h (rc_cb rc) es = Some (err, hfs_resume err rc', rc_cb rc', h')"
  using assms
proof (induction recs arbitrary: rc i es h)
  case Nil
  then show ?case by auto
next
  case (Cons rec recs)
  from Cons.prems(1) obtain n where n: "hfs_rec_node rec = Some n" by (auto simp: bind_eq_Some_conv)
  show ?case
  proof (cases n)
    case None
    with n Cons.prems Cons.IH[of rc i es h] show ?thesis by (simp add: hfs_readdir_cb_def)
  next
    case (Some node)
    with n Cons.prems obtain es' where es: "hfs_entries (node_id dir) (rc_next_id rc + 1) (i + 1) recs = Some es'"
      "es = (i, i + 1, node\<lparr>node_id := rc_next_id rc, parent_id := node_id dir\<rparr>) # es'" by (auto simp: bind_eq_Some_conv)
    have lt: "i < 2 ^ 32" "i + 1 + length es' < 2 ^ 32" using Cons.prems(3) es(2) by simp_all
    show ?thesis
    proof (rule readdir_cb_step[OF n[unfolded Some] Cons.prems(2) lt(1), of h cb dir t], goal_cases)
      case (1 err1 nm names h1 err2 s2 h2)
      let ?rc1 = "rc\<lparr>rc_next_id := rc_next_id rc + 1, rc_names := names, rc_entry_index := of_nat (i + 1)\<rparr>"
      let ?rc2 = "?rc1\<lparr>rc_cb := s2, rc_last_err := err2\<rparr>"
      note one = 1(3)[unfolded Let_def] and nf = 1(1,2)
      consider "err1 \<noteq> ODFS_OK" | "err1 = ODFS_OK" "i < unat t" | "err1 = ODFS_OK" "\<not> i < unat t" "err2 \<noteq> ODFS_OK"
        | "err1 = ODFS_OK" "\<not> i < unat t" "err2 = ODFS_OK" by blast
      then show ?thesis
      proof cases
        case 1
        with one nf(1) Cons.prems(5) es(2) show ?thesis by simp
      next
        case 2
        with one nf(1) Cons.IH[of ?rc1 "i + 1" es' h1] es lt(2) Cons.prems(4,5) show ?thesis by simp
      next
        case 3
        with one nf es(2) show ?thesis by simp
      next
        case 4
        with one nf Cons.IH[of ?rc2 "i + 1" es' h2] es lt(2) Cons.prems(5) show ?thesis by simp
      qed
    qed
  qed
qed

lemma readdir_cb_adv:
  assumes "hfs_entries (node_id dir) (rc_next_id rc) i recs = Some es" "rc_entry_index rc = of_nat i" "i + length es < 2 ^ 32"
    "cat_run (hfs_readdir_cb dir cb t) recs rc h = Some (ODFS_OK, rc', h')"
  shows "adv cb t (rc_names rc) h (rc_cb rc) es = Some (rc_names rc', h', rc_cb rc')"
  using assms
proof (induction recs arbitrary: rc i es h)
  case Nil
  then show ?case by auto
next
  case (Cons rec recs)
  from Cons.prems(1) obtain n where n: "hfs_rec_node rec = Some n" by (auto simp: bind_eq_Some_conv)
  show ?case
  proof (cases n)
    case None
    with n Cons.prems Cons.IH[of rc i es h] show ?thesis by (simp add: hfs_readdir_cb_def)
  next
    case (Some node)
    with n Cons.prems obtain es' where es: "hfs_entries (node_id dir) (rc_next_id rc + 1) (i + 1) recs = Some es'"
      "es = (i, i + 1, node\<lparr>node_id := rc_next_id rc, parent_id := node_id dir\<rparr>) # es'" by (auto simp: bind_eq_Some_conv)
    have lt: "i < 2 ^ 32" "i + 1 + length es' < 2 ^ 32" using Cons.prems(3) es(2) by simp_all
    show ?thesis
    proof (rule readdir_cb_step[OF n[unfolded Some] Cons.prems(2) lt(1), of h cb dir t], goal_cases)
      case (1 err1 nm names h1 err2 s2 h2)
      let ?rc1 = "rc\<lparr>rc_next_id := rc_next_id rc + 1, rc_names := names, rc_entry_index := of_nat (i + 1)\<rparr>"
      let ?rc2 = "?rc1\<lparr>rc_cb := s2, rc_last_err := err2\<rparr>"
      from 1(3)[unfolded Let_def] Cons.prems(4) have "err1 = ODFS_OK" "i < unat t \<or> err2 = ODFS_OK" by (auto split: if_splits)
      with 1(1,2) 1(3)[unfolded Let_def] Cons.prems(4) Cons.IH[of ?rc1 "i + 1" es' h1] Cons.IH[of ?rc2 "i + 1" es' h2] es lt(2)
      show ?thesis by (cases "i < unat t") simp_all
    qed
  qed
qed

section \<open>Enumeration\<close>

text \<open>A volume whose catalog is a tree with the leaves \<open>ls\<close>.\<close>

definition hfs_tree :: "(u32 \<Rightarrow> u8 list) \<Rightarrow> hfs_context \<Rightarrow> leaf list \<Rightarrow> bool" where
  "hfs_tree disc ctx ls \<longleftrightarrow> subtree hfs_layout (hfs_node disc ctx) (cat_node_size ctx) 20 (cat_root_node ctx) ls \<and>
     leaf_chain hfs_layout (hfs_node disc ctx) (cat_node_size ctx) ls \<and> sorted (leaf_keys ls)"

definition tree_recs :: "leaf list \<Rightarrow> u32 \<Rightarrow> cat_rec list" where
  "tree_recs ls cnid = dir_recs cnid (concat (map snd ls))"

lemma hfs_tree_ctx:
  "hfs_node disc (ctx\<lparr>hfs_next_id := n\<rparr>) = hfs_node disc ctx" "hfs_tree disc (ctx\<lparr>hfs_next_id := n\<rparr>) = hfs_tree disc ctx"
proof -
  have e: "extent_of (ctx\<lparr>hfs_next_id := n\<rparr>) off es ext = extent_of ctx off es ext" for off es ext
    by (induction ctx off es ext rule: extent_of.induct) (simp_all add: hfs_ab_to_byte_def Let_def)
  show 1: "hfs_node disc (ctx\<lparr>hfs_next_id := n\<rparr>) = hfs_node disc ctx" by (simp add: hfs_node_def e fun_eq_iff)
  show "hfs_tree disc (ctx\<lparr>hfs_next_id := n\<rparr>) = hfs_tree disc ctx" by (simp add: hfs_tree_def 1 fun_eq_iff)
qed

context iso_media
begin

lemma hfs_readdir_cases:
  assumes g: "good_cache c xs" and t: "hfs_tree disc ctx ls"
    and es: "hfs_entries (node_id dir) (hfs_next_id ctx) 0 (tree_recs ls (lba (extent dir))) = Some es" and len: "length es < 2 ^ 32"
  obtains (run) err res s' n c' xs' h1 h' where
      "hfs_readdir ctx c h dir cb s target = Some ((err, res, s'), ctx\<lparr>hfs_next_id := n\<rparr>, c', h')" "good_cache c' xs'"
      "list_run cb target (of_nat (length es)) odfs_namefix_init h1 s es = Some (err, res, s', h')" "odfs_malloc h = (True, h1)"
  | (fault) err res s' n c' xs' h1 h' j nf where
      "hfs_readdir ctx c h dir cb s target = Some ((err, res, s'), ctx\<lparr>hfs_next_id := n\<rparr>, c', h')" "good_cache c' xs'"
      "sector_error err" "adv cb target odfs_namefix_init h1 s (take j es) = Some (nf, h', s')" "odfs_malloc h = (True, h1)"
  | (nomem) h' where "hfs_readdir ctx c h dir cb s target = Some ((ODFS_ERR_NOMEM, 0, s), ctx, c, h')" "\<not> fst (odfs_malloc h)"
proof -
  let ?rc = "\<lparr>rc_next_id = hfs_next_id ctx, rc_cb = s, rc_entry_index = 0, rc_resume = target, rc_last_err = ODFS_OK,
    rc_names = odfs_namefix_init\<rparr>"
  let ?D = "tree_recs ls (lba (extent dir))" and ?cb = "hfs_readdir_cb dir cb target"
  obtain ok h1 where m: "odfs_malloc h = (ok, h1)" by fastforce
  show thesis
  proof (cases ok)
    case False
    with m have "hfs_readdir ctx c h dir cb s target = Some ((ODFS_ERR_NOMEM, 0, s), ctx, c, h1)"
      by (simp add: hfs_readdir_def hfs_walk_catalog_def walk_catalog_def)
    with m False nomem show thesis by simp
  next
    case True
    from readdir_cb_run[of dir ?rc 0 ?D es target cb h1] es len obtain err rc' h' where
      rn: "cat_run ?cb ?D ?rc h1 = Some (err, rc', h')" "rc_last_err rc' = err"
      "list_run cb target (of_nat (length es)) odfs_namefix_init h1 s es = Some (err, hfs_resume err rc', rc_cb rc', h')" by auto
    have g': "\<exists>xs. good_cache c xs" using g by blast
    from catalog.walk_ok[OF hfs_catalog g', of ctx "cat_root_node ctx" ls h h1 ?cb "lba (extent dir)" ?rc "(err, rc', h')"] t m True rn(1)
    obtain e rc2 c' h2 where w: "hfs_walk_catalog ctx (lba (extent dir)) ?cb ?rc c h = Some (e, rc2, c', h2)"
      "catalog.walked (\<lambda>c. \<exists>xs. good_cache c xs) sector_error ?cb ?D ?rc h1 (err, rc', h') (e, rc2, c', h2)"
      by (auto simp: hfs_tree_def hfs_walk_catalog_def tree_recs_def)
    from w(2) obtain xs' where g2: "good_cache c' xs'" and w2: "(e, rc2, h2) = (err, rc', h') \<or>
        sector_error e \<and> (\<exists>k. cat_run ?cb (take k ?D) ?rc h1 = Some (ODFS_OK, rc2, h2))"
      unfolding catalog.walked_def[OF hfs_catalog] by auto
    have r: "hfs_readdir ctx c h dir cb s target =
        Some (if rc_last_err rc2 \<noteq> ODFS_OK then (rc_last_err rc2, rc_resume rc2, rc_cb rc2) else (e, rc_entry_index rc2, rc_cb rc2),
              ctx\<lparr>hfs_next_id := rc_next_id rc2\<rparr>, c', h2)"
      using w(1) by (simp add: hfs_readdir_def Let_def)
    from w2 show thesis
    proof
      assume "(e, rc2, h2) = (err, rc', h')"
      then have "hfs_readdir ctx c h dir cb s target =
          Some ((err, hfs_resume err rc', rc_cb rc'), ctx\<lparr>hfs_next_id := rc_next_id rc2\<rparr>, c', h')"
        using r rn(2) by (cases "err = ODFS_OK") simp_all
      from run[OF this g2 rn(3)] m True show thesis by simp
    next
      assume "sector_error e \<and> (\<exists>k. cat_run ?cb (take k ?D) ?rc h1 = Some (ODFS_OK, rc2, h2))"
      then obtain k where k: "sector_error e" "cat_run ?cb (take k ?D) ?rc h1 = Some (ODFS_OK, rc2, h2)" by blast
      from hfs_entries_take[OF es, of k] obtain j where j: "hfs_entries (node_id dir) (hfs_next_id ctx) 0 (take k ?D) = Some (take j es)" by blast
      have lj: "0 + length (take j es) < 2 ^ 32" using len by simp
      from readdir_cb_run[of dir ?rc 0 "take k ?D" "take j es" target cb h1] j lj k(2) have "rc_last_err rc2 = ODFS_OK" by auto
      with r have "hfs_readdir ctx c h dir cb s target =
          Some ((e, rc_entry_index rc2, rc_cb rc2), ctx\<lparr>hfs_next_id := rc_next_id rc2\<rparr>, c', h2)" by simp
      moreover from readdir_cb_adv[of dir ?rc 0 "take k ?D" "take j es" cb target h1 rc2 h2] j lj k(2)
      have "adv cb target odfs_namefix_init h1 s (take j es) = Some (rc_names rc2, h2, rc_cb rc2)" by auto
      ultimately show thesis using fault[OF _ g2 k(1)] m True by simp
    qed
  qed
qed

end

end
