(* ===== verification/Hfs_Source.thy ===== *)
theory Hfs_Source
  imports Hfs_Facts
begin

text \<open>
  What an HFS directory lists, and the HFS reader as a source of directories for the layers above.
\<close>

section \<open>The listing\<close>

definition hfs_listing :: "leaf list \<Rightarrow> hfs_context \<Rightarrow> odfs_node \<Rightarrow> heap \<Rightarrow> (nat \<times> nat \<times> odfs_node) list option" where
  "hfs_listing ls ctx dir h = do {
     es \<leftarrow> hfs_entries (node_id dir) (hfs_next_id ctx) 0 (tree_recs ls (lba (extent dir)));
     (outs, nf, h) \<leftarrow> name_run fix_name odfs_namefix_init h (map entry_name es);
     Some (map2 rename_entry es outs) }"

lemma mac_roman_length: "length out < n \<Longrightarrow> length (mac_roman_loop src n out) < n"
  by (induction src n out rule: mac_roman_loop.induct) (auto simp: odfs_utf8_append_def split: option.splits if_splits)

lemma hfs_name_ok: "0 \<notin> set (hfs_name_to_utf8 src ODFS_NAME_MAX) \<and> length (hfs_name_to_utf8 src ODFS_NAME_MAX) < ODFS_NAME_MAX"
proof -
  have c: "hfs_name_char x \<noteq> 0" for x by (auto simp: hfs_name_char_def)
  let ?out = "mac_roman_loop src ODFS_NAME_MAX []"
  have "length ?out < ODFS_NAME_MAX" by (rule mac_roman_length) (simp add: ODFS_NAME_MAX_def)
  then have "length (cstr ?out) < ODFS_NAME_MAX" using length_cstr_le[of ?out] by simp
  moreover have "hfs_name_to_utf8 src ODFS_NAME_MAX = map hfs_name_char (cstr ?out)"
    by (simp add: hfs_name_to_utf8_def odfs_mac_roman_to_utf8_def ODFS_NAME_MAX_def)
  ultimately show ?thesis using c by (auto simp: image_iff)
qed

text \<open>A node as the reader makes it.\<close>

definition hfs_plain :: "odfs_node \<Rightarrow> bool" where
  "hfs_plain n \<longleftrightarrow> 0 \<notin> set (name n) \<and> length (name n) < ODFS_NAME_MAX \<and> amiga_as n = amiga_as zero_node \<and> backend n = ODFS_BACKEND_HFS"

text \<open>A property of the node a record gives, along the branches that give one.\<close>

definition gives :: "('n \<Rightarrow> bool) \<Rightarrow> 'n option option \<Rightarrow> bool" where
  "gives P r \<longleftrightarrow> (\<forall>n. r = Some (Some n) \<longrightarrow> P n)"

lemma gives_intros:
  "gives P (Some None)" "P n \<Longrightarrow> gives P (Some (Some n))" "(\<And>x. m = Some x \<Longrightarrow> gives P (f x)) \<Longrightarrow> gives P (m \<bind> f)"
  "gives P a \<Longrightarrow> gives P b \<Longrightarrow> gives P (if c then a else b)"
  by (auto simp: gives_def bind_eq_Some_conv)

lemma rec_node_fields:
  "gives (\<lambda>n. hfs_rec_name rec = Some (name n) \<and> amiga_as n = amiga_as zero_node \<and> backend n = ODFS_BACKEND_HFS) (hfs_rec_node rec)"
  unfolding hfs_rec_node_def Let_def by (intro gives_intros) simp_all

lemma rec_node_plain:
  assumes "hfs_rec_node rec = Some (Some n)"
  shows "hfs_plain n"
proof -
  have "0 \<notin> set nm \<and> length nm < ODFS_NAME_MAX" if "hfs_rec_name rec = Some nm" for nm
    using that hfs_name_ok by (auto simp: hfs_rec_name_def bind_eq_Some_conv ODFS_NAME_MAX_def split: if_splits)
  with rec_node_fields[of rec] assms show ?thesis by (simp add: gives_def hfs_plain_def)
qed

lemma hfs_entries_plain: "hfs_entries pid nid i recs = Some es \<Longrightarrow> \<forall>e \<in> set es. hfs_plain (snd (snd e))"
proof (induction recs arbitrary: nid i es)
  case (Cons rec recs)
  then show ?case
    using rec_node_plain[of rec] by (fastforce simp: bind_eq_Some_conv hfs_plain_def split: option.splits)
qed simp

text \<open>The numbers of the nodes do not matter to what is seen of them.\<close>

lemma seen_numbers: "seen (n\<lparr>node_id := a, parent_id := b\<rparr>) = seen n"
  by (cases n) (simp add: seen_def)

lemma hfs_entries_seen:
  "hfs_entries pid nid i recs = Some es \<Longrightarrow> \<exists>es'. hfs_entries pid' nid' i recs = Some es' \<and>
     list_all2 (\<lambda>e e'. name (snd (snd e)) = name (snd (snd e')) \<and> seen (snd (snd e)) = seen (snd (snd e'))) es' es"
proof (induction recs arbitrary: nid nid' i es)
  case (Cons rec recs)
  from Cons.prems obtain n where n: "hfs_rec_node rec = Some n" by (auto simp: bind_eq_Some_conv)
  show ?case
  proof (cases n)
    case None
    with n Cons.prems Cons.IH[of nid i es nid'] show ?thesis by simp
  next
    case (Some node)
    with n Cons.prems obtain es1 where es: "hfs_entries pid (nid + 1) (i + 1) recs = Some es1"
      "es = (i, i + 1, node\<lparr>node_id := nid, parent_id := pid\<rparr>) # es1" by (auto simp: bind_eq_Some_conv)
    from Cons.IH[OF es(1), of "nid' + 1"] n Some es(2) show ?thesis by (auto simp: seen_numbers)
  qed
qed simp

section \<open>The reader as a source\<close>

definition hfs_dir_listing :: "leaf list \<Rightarrow> hfs_context \<Rightarrow> dir_key \<Rightarrow> odfs_node list option" where
  "hfs_dir_listing ls ctx key = do {
     L \<leftarrow> hfs_listing ls ctx (key_dir key) heap_plenty;
     if length L < 2 ^ 32 then Some (nodes L) else None }"

definition hfs_inv ::
    "'m odfs_media_ops \<Rightarrow> (u32 \<Rightarrow> u8 list) \<Rightarrow> nat \<Rightarrow> ('m \<Rightarrow> bool) \<Rightarrow> leaf list \<Rightarrow> hfs_context \<Rightarrow> hfs_context \<Rightarrow> 'm odfs_cache \<Rightarrow> bool" where
  "hfs_inv ops disc ss good ls ctx0 ctx c \<longleftrightarrow> hfs_tree disc ctx0 ls \<and> (\<exists>n. ctx = ctx0\<lparr>hfs_next_id := n\<rparr>) \<and>
     (\<exists>xs. disc_media.good_cache ops disc ss good c xs)"

lemma listing_parts:
  assumes "hfs_listing ls ctx dir h = Some L"
  obtains es outs nf h' where "hfs_entries (node_id dir) (hfs_next_id ctx) 0 (tree_recs ls (lba (extent dir))) = Some es"
    "name_run fix_name odfs_namefix_init h (map entry_name es) = Some (outs, nf, h')" "L = map2 rename_entry es outs" "length L = length es"
proof -
  from assms obtain es outs nf h' where e: "hfs_entries (node_id dir) (hfs_next_id ctx) 0 (tree_recs ls (lba (extent dir))) = Some es"
    "name_run fix_name odfs_namefix_init h (map entry_name es) = Some (outs, nf, h')" "L = map2 rename_entry es outs"
    by (auto simp: hfs_listing_def bind_eq_Some_conv)
  have "\<forall>nm \<in> set (map entry_name es). 0 \<notin> set nm \<and> length nm < ODFS_NAME_MAX"
    using hfs_entries_plain[OF e(1)] by (auto simp: hfs_plain_def entry_name_def)
  from nf.run_distinct[OF nf.start_wf this e(2)] have "length outs = length es" by simp
  with e that show thesis by simp
qed

lemma hfs_listing_plain:
  assumes "hfs_listing ls ctx dir h = Some L" "e \<in> set L"
  shows "hfs_plain (snd (snd e))"
proof -
  from assms(1) obtain es outs nf h' where e: "hfs_entries (node_id dir) (hfs_next_id ctx) 0 (tree_recs ls (lba (extent dir))) = Some es"
    "name_run fix_name odfs_namefix_init h (map entry_name es) = Some (outs, nf, h')" "L = map2 rename_entry es outs"
    by (rule listing_parts)
  note p = hfs_entries_plain[OF e(1)]
  have "\<forall>nm \<in> set (map entry_name es). 0 \<notin> set nm \<and> length nm < ODFS_NAME_MAX"
    using p by (auto simp: hfs_plain_def entry_name_def)
  from nf.run_distinct[OF nf.start_wf this e(2)] have o: "\<forall>nm \<in> set outs. 0 \<notin> set nm \<and> length nm < ODFS_NAME_MAX" by simp
  from assms(2) e(3) obtain e0 nm where "e = rename_entry e0 nm" "e0 \<in> set es" "nm \<in> set outs"
    by (force dest: set_zip_leftD set_zip_rightD)
  with p o show ?thesis by (auto simp: hfs_plain_def rename_entry_def split: prod.splits)
qed

lemma hfs_dir_source:
  assumes m: "iso_media ops disc ss good"
  shows "dir_source hfs_backend_ops (hfs_inv ops disc ss good ls ctx0) (hfs_dir_listing ls ctx0) (iso_faults ops good)"
proof
  fix ctx :: hfs_context and c :: "'a odfs_cache" and dir :: odfs_node and ns h s and cb :: "'b dir_iter_fn"
  assume inv: "hfs_inv ops disc ss good ls ctx0 ctx c" and l: "hfs_dir_listing ls ctx0 (dir_key dir) = Some ns"
  from l obtain L where L: "hfs_listing ls ctx0 (key_dir (dir_key dir)) heap_plenty = Some L" "length L < 2 ^ 32" "ns = nodes L"
    by (auto simp: hfs_dir_listing_def bind_eq_Some_conv split: if_splits)
  from L(1) obtain es0 outs nf2 h2 where
    es0: "hfs_entries (node_id (key_dir (dir_key dir))) (hfs_next_id ctx0) 0 (tree_recs ls (lba (extent (key_dir (dir_key dir))))) = Some es0"
    and nr: "name_run fix_name odfs_namefix_init heap_plenty (map entry_name es0) = Some (outs, nf2, h2)"
    and Le: "L = map2 rename_entry es0 outs" "length L = length es0" by (rule listing_parts)
  from inv obtain n xs where i: "hfs_tree disc ctx0 ls" "ctx = ctx0\<lparr>hfs_next_id := n\<rparr>" "disc_media.good_cache ops disc ss good c xs"
    by (auto simp: hfs_inv_def)
  from hfs_entries_seen[OF es0, of "node_id dir" "hfs_next_id ctx"] obtain es where
    es: "hfs_entries (node_id dir) (hfs_next_id ctx) 0 (tree_recs ls (lba (extent dir))) = Some es"
    and a2: "list_all2 (\<lambda>e e'. name (snd (snd e)) = name (snd (snd e')) \<and> seen (snd (snd e)) = seen (snd (snd e'))) es es0"
    by (auto simp: key_dir_extent)
  have len: "length es < 2 ^ 32" using list_all2_lengthD[OF a2] L(2) Le(2) by simp
  have fl: "namefix_errs \<subseteq> iso_faults ops good" by (simp add: iso_faults_def)
  have t: "hfs_tree disc ctx ls" using i(1,2) by (simp add: hfs_tree_ctx)
  have fin: "\<exists>err res s' b' c' h' k. be_readdir hfs_backend_ops ctx c h dir cb s 0 = Some ((err, res, s'), b', c', h') \<and>
      hfs_inv ops disc ss good ls ctx0 b' c' \<and> served (iso_faults ops good) cb ns s err s' k"
    if "hfs_readdir ctx c h dir cb s 0 = Some ((err, res, s'), ctx\<lparr>hfs_next_id := n'\<rparr>, c', h')" "disc_media.good_cache ops disc ss good c' xs'"
      "\<exists>k. served (iso_faults ops good) cb ns s err s' k" for err res s' n' c' h' xs'
    using that i(1,2) by (auto simp: hfs_inv_def hfs_backend_ops_def)
  show "\<exists>err res s' b' c' h' k. be_readdir hfs_backend_ops ctx c h dir cb s 0 = Some ((err, res, s'), b', c', h') \<and>
      hfs_inv ops disc ss good ls ctx0 b' c' \<and> served (iso_faults ops good) cb ns s err s' k"
  proof (rule iso_media.hfs_readdir_cases[OF m i(3) t es len, of h cb s 0], goal_cases)
    case (1 err res s' n' c' xs' h1 h')
    from run_served[OF fl a2 nr refl 1(3)] Le(1) L(3) have "\<exists>k. served (iso_faults ops good) cb ns s err s' k" by simp
    from fin[OF 1(1,2) this] show ?thesis .
  next
    case (2 err res s' n' c' xs' h1 h' j nf)
    from 2(3) obtain sec where f: "disc_media.fails ops good sec 1 err" by blast
    then have er: "err \<noteq> ODFS_OK" "err \<in> iso_faults ops good"
      using disc_media.fails_err[OF iso_media.axioms(1)[OF m, THEN atomic_media.axioms(1)] f] by (auto simp: iso_faults_def)
    from adv_served[OF a2 nr refl 2(4) er] Le(1) L(3) have "\<exists>k. served (iso_faults ops good) cb ns s err s' k" by simp
    from fin[OF 2(1,2) this] show ?thesis .
  next
    case (3 h')
    have "served (iso_faults ops good) cb ns s ODFS_ERR_NOMEM s 0"
      by (rule served.failed) (auto simp: iso_faults_def namefix_errs_def)
    moreover have "ctx = ctx\<lparr>hfs_next_id := hfs_next_id ctx\<rparr>" by simp
    ultimately show ?thesis using fin[of ODFS_ERR_NOMEM 0 s "hfs_next_id ctx" c h' xs] 3(1) i(3) by auto
  qed
next
  fix key ns n
  assume "hfs_dir_listing ls ctx0 key = Some ns" "n \<in> set ns"
  then obtain L e where "hfs_listing ls ctx0 (key_dir key) heap_plenty = Some L" "e \<in> set L" "n = snd (snd e)"
    by (auto simp: hfs_dir_listing_def bind_eq_Some_conv split: if_splits)
  from hfs_listing_plain[OF this(1,2)] this(3) show "node_ok n" by (simp add: hfs_plain_def node_ok_def zero_node_def)
qed

text \<open>Lookup is the enumeration with a callback that compares names, as in the ISO 9660 reader.\<close>

lemma hfs_lookup_iter_eq: "hfs_lookup_iter nm = lookup_cb nm"
  by (simp add: hfs_lookup_iter_def lookup_cb_def fun_eq_iff)

lemma hfs_dir_backend:
  assumes "iso_media ops disc ss good"
  shows "dir_backend hfs_backend_ops (hfs_inv ops disc ss good ls ctx0) (hfs_dir_listing ls ctx0) (iso_faults ops good)"
proof (rule dir_backend.intro[OF hfs_dir_source[OF assms]], unfold_locales)
  fix ctx :: hfs_context and c :: "'a odfs_cache" and dir :: odfs_node and ns h nm
  assume inv: "hfs_inv ops disc ss good ls ctx0 ctx c" and l: "hfs_dir_listing ls ctx0 (dir_key dir) = Some ns"
  from dir_source.readdir_served[OF hfs_dir_source[OF assms] inv l, of h "lookup_cb nm" None] obtain err res s' ctx' c' h' k where
    r: "hfs_readdir ctx c h dir (lookup_cb nm) None 0 = Some ((err, res, s'), ctx', c', h')"
       "hfs_inv ops disc ss good ls ctx0 ctx' c'" "served (iso_faults ops good) (lookup_cb nm) ns None err s' k"
    by (auto simp: hfs_backend_ops_def)
  define r' where "r' = (case s' of Some node \<Rightarrow> if err = ODFS_ERR_EOF \<or> err = ODFS_OK then Inr node else Inl err
           | None \<Rightarrow> if err \<noteq> ODFS_OK then Inl err else Inl ODFS_ERR_NOT_FOUND)"
  have "hfs_lookup ctx c h dir nm = Some (r', ctx', c', h')" using r(1) by (simp add: hfs_lookup_def hfs_lookup_iter_eq r'_def)
  moreover have "lookup_result (iso_faults ops good) ns nm r'"
    using served_lookup[OF r(3) refl] by (auto simp: lookup_result_def r'_def split: option.splits)
  ultimately show "\<exists>r b' c' h'. be_lookup hfs_backend_ops ctx c h dir nm = Some (r, b', c', h') \<and>
      hfs_inv ops disc ss good ls ctx0 b' c' \<and> lookup_result (iso_faults ops good) ns nm r"
    using r(2) by (auto simp: hfs_backend_ops_def)
qed

interpretation hfs_backend: dir_backend hfs_backend_ops
  "hfs_inv file_media_ops (file_disc fm) HOST_SECTOR_SIZE (\<lambda>m. m = fm \<and> file_whole fm) ls ctx0" "hfs_dir_listing ls ctx0"
  "iso_faults file_media_ops (\<lambda>m. m = fm \<and> file_whole fm)"
  for fm ls ctx0
  by (rule hfs_dir_backend[OF file_iso.iso_media_axioms])

interpretation hfs_nodes: catalog hfs_layout "hfs_read_node ctx"
  "\<lambda>c. \<exists>xs. disc_media.good_cache file_media_ops (file_disc fm) HOST_SECTOR_SIZE (\<lambda>m. m = fm \<and> file_whole fm) c xs"
  "hfs_node (file_disc fm) ctx" "\<lambda>e. \<exists>l. disc_media.fails file_media_ops (\<lambda>m. m = fm \<and> file_whole fm) l 1 e" "cat_node_size ctx"
  for fm ctx
  by (rule file_iso.hfs_catalog)

end
