(* ===== verification/Hfs_Props.thy ===== *)
theory Hfs_Props
  imports Hfs_Source
begin

text \<open>
  The properties of the catalog walk and the HFS reader.
\<close>

section \<open>A volume with one directory\<close>

text \<open>The catalog is a sector of four nodes; node 1 is a leaf with one record, the directory \<open>A\<close>, and is linked to \<open>link\<close>.\<close>

definition demo_leaf :: "u8 \<Rightarrow> u8 list" where
  "demo_leaf link = [0, 0, 0, link, 0, 0, 0, 0, 0xFF, 1, 0, 1, 0, 0] @ [7, 0, 0, 0, 0, 2, 1, 0x41] @
     [1, 0, 0, 0, 0, 0, 0, 0, 0, 5, 0, 0, 0, 0, 0, 0, 0, 0, 0, 0, 0, 0] @ zero_bytes 464 @ [0, 44, 0, 14]"

definition demo_hfs :: "u8 \<Rightarrow> file_media_ctx odfs_media" where
  "demo_hfs link = odfs_media_open_image (zero_bytes 512 @ demo_leaf link @ zero_bytes 1024)"

definition demo_vol :: hfs_context where
  "demo_vol = zero_hfs_context\<lparr>alloc_block_size := 512, cat_extents := [\<lparr>start_ab = 0, num_ab = 4\<rparr>], cat_node_size := 512, cat_root_node := 1\<rparr>"

definition demo_folder :: odfs_node where
  "demo_folder = zero_node\<lparr>kind := ODFS_NODE_DIR, extent := \<lparr>lba = 2, extlen = 0\<rparr>\<rparr>"

definition demo_rec :: "u8 \<Rightarrow> cat_rec" where
  "demo_rec link = \<lparr>cr_node = demo_leaf link, cr_key = 14, cr_key_len = 8, cr_data = 22, cr_data_len = 22\<rparr>"

lemma demo_leaf_length [simp]: "length (demo_leaf link) = 512"
  by (simp add: demo_leaf_def)

lemma demo_hfs_disc: "file_disc (mctx (demo_hfs link)) 0 = zero_bytes 512 @ demo_leaf link @ zero_bytes 1024"
  by (simp add: file_disc_def demo_hfs_def odfs_media_open_image_def fread_at_def pad_sector_def HOST_SECTOR_SIZE_def)

lemma demo_vol_fields [simp]: "cat_node_size demo_vol = 512" "cat_root_node demo_vol = 1" "cat_extents demo_vol = [\<lparr>start_ab = 0, num_ab = 4\<rparr>]"
  "alloc_block_size demo_vol = 512" "alloc_block_start demo_vol = 0" "vol_start_512 demo_vol = 0"
  by (simp_all add: demo_vol_def zero_hfs_context_def)

lemma demo_node: "hfs_node (file_disc (mctx (demo_hfs link))) demo_vol 1 = Some (demo_leaf link)"
proof -
  have "disc_range (file_disc (mctx (demo_hfs link))) 2048 0 512 512 = take 512 (drop 512 (file_disc (mctx (demo_hfs link)) 0))"
    using disc_range_sector[of "file_disc (mctx (demo_hfs link))" 0 0 2048 512 512] file_iso.disc_length by simp
  then show ?thesis by (simp add: hfs_node_def hfs_ab_to_byte_def Let_def demo_hfs_disc)
qed

lemma demo_bytes:
  "rd (demo_leaf link) 8 = Some 0xFF" "be16 (demo_leaf link) 10 = Some 1" "be32 (demo_leaf link) 0 = Some (ucast link)"
  "be16 (demo_leaf link) 510 = Some 14" "be16 (demo_leaf link) 508 = Some 44" "rd (demo_leaf link) 14 = Some 7"
  "be32 (demo_leaf link) 16 = Some 2" "rd (demo_leaf link) 20 = Some 1" "rdn (demo_leaf link) 21 (Suc 0) = Some [0x41]"
  "rd (demo_leaf link) 22 = Some 1"
  by (simp_all add: rd_def be16_def be32_def rdn_def demo_leaf_def nth_append)

lemma demo_entry: "leaf_entry hfs_layout (demo_leaf link) 512 0 = Some (2, Some (demo_rec link))"
  by (simp add: leaf_entry_def rec_offset_def demo_bytes hfs_layout_def hfs_leaf_rec_def Let_def word_align_def demo_rec_def del: rd_in)

lemma demo_is_leaf: "is_leaf hfs_layout 512 (demo_leaf link) [(2, Some (demo_rec link))] (ucast link)"
  by (simp add: is_leaf_def demo_bytes NODE_LEAF_def read_record_count_def demo_entry del: rd_in)

lemma demo_tree: "hfs_tree (file_disc (mctx (demo_hfs 0))) demo_vol [(1, [(2, Some (demo_rec 0))])]"
  using demo_is_leaf[of 0] demo_node[of 0] subtree.leaf[where n = 1 and d = 20 and node = "demo_leaf 0"]
  by (simp add: hfs_tree_def leaf_keys_def demo_bytes NODE_LEAF_def del: rd_in)

lemma demo_hfs_cache:
  obtains c where "odfs_cache_init (\<lambda>_ _. 0) heap_plenty (demo_hfs link) 40 = (ODFS_OK, c, heap_plenty)"
    "disc_media.good_cache file_media_ops (file_disc (mctx (demo_hfs link))) HOST_SECTOR_SIZE
      (\<lambda>m. m = mctx (demo_hfs link) \<and> file_whole (mctx (demo_hfs link))) c []"
proof -
  have w: "file_whole (mctx (demo_hfs link))" "\<lparr>mops = file_media_ops, mctx = mctx (demo_hfs link)\<rparr> = demo_hfs link"
    by (simp_all add: demo_hfs_def odfs_media_open_image_def file_whole_def file_ok_def HOST_SECTOR_SIZE_def)
  have "\<exists>c. odfs_cache_init (\<lambda>_ _. 0) heap_plenty (demo_hfs link) 40 = (ODFS_OK, c, heap_plenty)"
    by (rule cache_init_plenty[of _ _ 2048])
      (simp_all add: odfs_media_sector_size_def demo_hfs_def odfs_media_open_image_def file_media_ops_def
        file_sector_size_def HOST_SECTOR_SIZE_def)
  then obtain c where c: "odfs_cache_init (\<lambda>_ _. 0) heap_plenty (demo_hfs link) 40 = (ODFS_OK, c, heap_plenty)" ..
  with that file_atomic.init_good[where m = "mctx (demo_hfs link)", unfolded w(2), OF c] w(1) show thesis by simp
qed

lemma demo_recs: "tree_recs [(1, [(2, Some (demo_rec 0))])] 2 = [demo_rec 0]"
  by (simp add: tree_recs_def dir_recs_def map_filter_simps)

section \<open>Properties\<close>

text \<open>
  C31: On a volume whose catalog is a well formed tree, the walk for a directory passes to its callback exactly the records of the
  directory in the order of the leaves, whatever the shape of the tree, and returns what the callback returns; or the medium refuses a
  sector, and the records passed so far are the first ones.  It always returns.
\<close>

theorem hfs_walk_finds_directory:
  assumes m: "iso_media ops disc ss good" and g: "disc_media.good_cache ops disc ss good c xs" and t: "hfs_tree disc ctx ls"
    and h: "odfs_malloc h = (True, h1)" and run: "cat_run cb (tree_recs ls cnid) s h1 = Some (err, s', h')"
  shows "\<exists>e s2 c' h2 xs'. hfs_walk_catalog ctx cnid cb s c h = Some (e, s2, c', h2) \<and> disc_media.good_cache ops disc ss good c' xs' \<and>
    ((e, s2, h2) = (err, s', h') \<or>
     (\<exists>l. disc_media.fails ops good l 1 e) \<and> (\<exists>k. cat_run cb (take k (tree_recs ls cnid)) s h1 = Some (ODFS_OK, s2, h2)))"
proof -
  note cat = iso_media.hfs_catalog[OF m, of ctx]
  have "\<exists>xs. disc_media.good_cache ops disc ss good c xs" using g by blast
  from catalog.walk_ok[OF cat this, of "cat_root_node ctx" ls h h1 cb cnid s "(err, s', h')"] t h run show ?thesis
    unfolding catalog.walked_def[OF cat] hfs_tree_def hfs_walk_catalog_def tree_recs_def by fastforce
qed

theorem hfs_walk_finds_directory_witness:
  "\<exists>c e s c' h. odfs_cache_init (\<lambda>_ _. 0) heap_plenty (demo_hfs 0) 40 = (ODFS_OK, c, heap_plenty) \<and>
     hfs_walk_catalog demo_vol 2 (\<lambda>rec s h. Some (ODFS_OK, rec # s, h)) [] c heap_plenty = Some (e, s, c', h) \<and>
     ((e, s) = (ODFS_OK, [demo_rec 0]) \<or>
      (\<exists>l. disc_media.fails file_media_ops (\<lambda>m. m = mctx (demo_hfs 0) \<and> file_whole (mctx (demo_hfs 0))) l 1 e))"
proof -
  obtain c where c: "odfs_cache_init (\<lambda>_ _. 0) heap_plenty (demo_hfs 0) 40 = (ODFS_OK, c, heap_plenty)"
    "disc_media.good_cache file_media_ops (file_disc (mctx (demo_hfs 0))) HOST_SECTOR_SIZE
      (\<lambda>m. m = mctx (demo_hfs 0) \<and> file_whole (mctx (demo_hfs 0))) c []"
    by (rule demo_hfs_cache)
  have "cat_run (\<lambda>rec s h. Some (ODFS_OK, rec # s, h)) (tree_recs [(1, [(2, Some (demo_rec 0))])] 2) [] heap_plenty =
      Some (ODFS_OK, [demo_rec 0], heap_plenty)" by (simp add: demo_recs)
  from hfs_walk_finds_directory[OF file_iso.iso_media_axioms c(2) demo_tree heap_plenty_malloc this] c(1) show ?thesis by blast
qed

text \<open>
  C32: Enumeration of an HFS directory.  What the callback sees from entry \<open>t\<close> on, the error code and the offset to resume at are those of the
  listing of the directory: its files and directories in the order of the catalog, with clashing names made different.  The only other
  outcome is a sector that the medium refuses, after a prefix of the listing.
\<close>

theorem hfs_readdir_refines_listing:
  assumes m: "iso_media ops disc ss good" and g: "disc_media.good_cache ops disc ss good c xs" and tree: "hfs_tree disc ctx ls"
    and h: "odfs_malloc h = (True, h1)" and L: "hfs_listing ls ctx dir h1 = Some L" "length L < 2 ^ 32"
  shows "\<exists>err res s' n c' h' xs'. hfs_readdir ctx c h dir (plain f) s t = Some ((err, res, s'), ctx\<lparr>hfs_next_id := n\<rparr>, c', h') \<and>
    disc_media.good_cache ops disc ss good c' xs' \<and>
    ((err, res, s') = cb_fold f (of_nat (length L)) t s L \<or>
     (\<exists>l. disc_media.fails ops good l 1 err) \<and> (\<exists>k. cb_fold f (of_nat (length L)) t s (take k L) = (ODFS_OK, of_nat (length L), s')))"
proof -
  from L(1) obtain es outs nf h' where e: "hfs_entries (node_id dir) (hfs_next_id ctx) 0 (tree_recs ls (lba (extent dir))) = Some es"
    "name_run fix_name odfs_namefix_init h1 (map entry_name es) = Some (outs, nf, h')" "L = map2 rename_entry es outs" "length L = length es"
    by (rule listing_parts)
  have len: "length es < 2 ^ 32" using L(2) e(4) by simp
  show ?thesis
  proof (rule iso_media.hfs_readdir_cases[OF m g tree e(1) len, of h "plain f" s t], goal_cases)
    case (1 err res s' n c' xs' h2 h3)
    with run_cb_fold[OF e(2), of f t "of_nat (length es)" s] h e(3,4) show ?thesis by (fastforce split: prod.splits)
  next
    case (2 err res s' n c' xs' h2 h3 j nf3)
    then have "cb_fold f (of_nat (length L)) t s (take j L) = (ODFS_OK, of_nat (length L), s')"
      using adv_cb_fold[OF e(2), of f t s j nf3 h3 s' "of_nat (length es)"] h e(3,4) by simp
    with 2 show ?thesis by blast
  next
    case (3 h2)
    with h show ?thesis by simp
  qed
qed

lemma demo_hfs_entry:
  obtains node where "hfs_entries 0 0 0 [demo_rec 0] = Some [(0, 1, node)]" "name node = [0x41]" "kind node = ODFS_NODE_DIR" "lba (extent node) = 5"
proof -
  have nm: "hfs_rec_name (demo_rec 0) = Some [0x41]"
    by (simp add: hfs_rec_name_def demo_rec_def demo_bytes hfs_name_to_utf8_def odfs_mac_roman_to_utf8_def ODFS_NAME_MAX_def
        mac_roman_cp_def odfs_utf8_append_def utf8_bytes_def cstr_def hfs_name_char_def del: rd_in)
  have b: "be32 (demo_leaf 0) 28 = Some 5" "be32 (demo_leaf 0) 36 = Some 0"
    by (simp_all add: be32_def rd_def demo_leaf_def nth_append)
  let ?n = "zero_node\<lparr>backend := ODFS_BACKEND_HFS, name := [0x41], kind := ODFS_NODE_DIR,
      extent := \<lparr>lba = 5, extlen = 0\<rparr>, mtime := odfs_timestamp_from_mac_time 0, ctime := odfs_timestamp_from_mac_time 0\<rparr>"
  have "hfs_rec_node (demo_rec 0) = Some (Some (zero_node\<lparr>backend := ODFS_BACKEND_HFS, name := [0x41], kind := ODFS_NODE_DIR,
      extent := \<lparr>lba = 5, extlen = 0\<rparr>, mtime := odfs_timestamp_from_mac_time 0, ctime := odfs_timestamp_from_mac_time 0\<rparr>))"
    using nm b by (simp add: hfs_rec_node_def demo_rec_def demo_bytes HFS_CAT_DIR_def HFS_CAT_FILE_def Let_def del: rd_in)
  then have "hfs_entries 0 0 0 [demo_rec 0] = Some [(0, 1, ?n\<lparr>node_id := 0, parent_id := 0\<rparr>)]" by simp
  then show thesis by (rule that) simp_all
qed

theorem hfs_readdir_refines_listing_witness:
  "\<exists>c err res s c' h n. odfs_cache_init (\<lambda>_ _. 0) heap_plenty (demo_hfs 0) 40 = (ODFS_OK, c, heap_plenty) \<and>
     hfs_readdir demo_vol c heap_plenty demo_folder (plain (\<lambda>e s. (ODFS_OK, name e # s))) [] 0 =
       Some ((err, res, s), demo_vol\<lparr>hfs_next_id := n\<rparr>, c', h) \<and>
     ((err, res, s) = (ODFS_OK, 1, [[0x41]]) \<or>
      (\<exists>l. disc_media.fails file_media_ops (\<lambda>m. m = mctx (demo_hfs 0) \<and> file_whole (mctx (demo_hfs 0))) l 1 err))"
proof -
  obtain c where c: "odfs_cache_init (\<lambda>_ _. 0) heap_plenty (demo_hfs 0) 40 = (ODFS_OK, c, heap_plenty)"
    "disc_media.good_cache file_media_ops (file_disc (mctx (demo_hfs 0))) HOST_SECTOR_SIZE
      (\<lambda>m. m = mctx (demo_hfs 0) \<and> file_whole (mctx (demo_hfs 0))) c []"
    by (rule demo_hfs_cache)
  let ?ls = "[(1, [(2, Some (demo_rec 0))])]"
  obtain node where n: "hfs_entries 0 0 0 [demo_rec 0] = Some [(0, 1, node)]" "name node = [0x41]" by (rule demo_hfs_entry)
  have "map_option fst (name_run fix_name odfs_namefix_init heap_plenty [[0x41]]) = Some [[0x41]]"
    by (simp add: namefix_eval)
  then obtain st h' where "name_run fix_name odfs_namefix_init heap_plenty [[0x41]] = Some ([[0x41]], st, h')" by auto
  then have L: "hfs_listing ?ls demo_vol demo_folder heap_plenty = Some [(0, 1, node\<lparr>name := [0x41]\<rparr>)]"
    using n by (simp add: hfs_listing_def demo_folder_def zero_node_def demo_vol_def zero_hfs_context_def demo_recs entry_name_def
        rename_entry_def del: name_run.simps)
  from hfs_readdir_refines_listing[OF file_iso.iso_media_axioms c(2) demo_tree heap_plenty_malloc L,
      of "\<lambda>e s. (ODFS_OK, name e # s)" "[]" 0] c(1)
  show ?thesis by auto
qed

text \<open>
  C39: The walk does not notice that the leaves of a tree are linked in a circle.  If the root is a leaf linked to itself, and its
  records belong to directories before the one that is looked for, the walk does not return, unless an allocation or the medium fails.
\<close>

theorem hfs_leaf_circle_hangs:
  assumes m: "iso_media ops disc ss good" and g: "disc_media.good_cache ops disc ss good c xs"
    and node: "hfs_node disc ctx (cat_root_node ctx) = Some node" "is_leaf hfs_layout (cat_node_size ctx) node es (cat_root_node ctx)"
      "cat_root_node ctx \<noteq> 0" and below: "sorted (map fst es)" "\<forall>kp \<in> fst ` set es. kp < cnid"
  shows "hfs_walk_catalog ctx cnid cb s c h = None \<or>
    (\<exists>e c' h'. hfs_walk_catalog ctx cnid cb s c h = Some (e, s, c', h') \<and> ((\<exists>l. disc_media.fails ops good l 1 e) \<or> \<not> fst (odfs_malloc h)))"
proof -
  note cat = iso_media.hfs_catalog[OF m, of ctx]
  obtain ok h1 where mal: "odfs_malloc h = (ok, h1)" by fastforce
  have sub: "subtree hfs_layout (hfs_node disc ctx) (cat_node_size ctx) 20 (cat_root_node ctx) [(cat_root_node ctx, es)]"
    by (rule subtree.leaf[where node = node]) (use node(1,2) in \<open>simp_all add: is_leaf_def\<close>)
  from catalog.descend_ok[OF cat sub order.refl, of c cnid] g obtain r c1 xs1 where
    d: "descend hfs_layout (hfs_read_node ctx) (cat_node_size ctx) cnid 20 (cat_root_node ctx) c = Some (r, c1)"
    "disc_media.good_cache ops disc ss good c1 xs1"
    "case r of Inl e \<Rightarrow> \<exists>l. disc_media.fails ops good l 1 e
     | Inr n \<Rightarrow> \<exists>pre es' post. [(cat_root_node ctx, es)] = pre @ (n, es') # post \<and> (\<forall>kp \<in> set (leaf_keys pre). kp < cnid)" by blast
  have here: "n = cat_root_node ctx" if "r = Inr n" for n using d(3) that by (auto simp: Cons_eq_append_conv)
  have "\<exists>e c'. res = (e, s, c', h1) \<and> (\<exists>l. disc_media.fails ops good l 1 e)"
    if "iter (leaf_body hfs_layout (hfs_read_node ctx) (cat_node_size ctx) cnid cb) (c1, cat_root_node ctx, False, s, h1) = Some res" for res
    using catalog.leaf_circle[OF cat _ node below that] d(2) by blast
  with d mal here show ?thesis
    by (cases r; cases ok; cases "iter (leaf_body hfs_layout (hfs_read_node ctx) (cat_node_size ctx) cnid cb) (c1, cat_root_node ctx, False, s, h1)")
      (auto simp: hfs_walk_catalog_def walk_catalog_def)
qed

theorem hfs_leaf_circle_hangs_witness:
  "\<exists>c. odfs_cache_init (\<lambda>_ _. 0) heap_plenty (demo_hfs 1) 40 = (ODFS_OK, c, heap_plenty) \<and>
     (hfs_walk_catalog demo_vol 3 (\<lambda>rec s h. Some (ODFS_OK, rec # s, h)) [] c heap_plenty = None \<or>
      (\<exists>e c' h' l. hfs_walk_catalog demo_vol 3 (\<lambda>rec s h. Some (ODFS_OK, rec # s, h)) [] c heap_plenty = Some (e, [], c', h') \<and>
        disc_media.fails file_media_ops (\<lambda>m. m = mctx (demo_hfs 1) \<and> file_whole (mctx (demo_hfs 1))) l 1 e))"
proof -
  obtain c where c: "odfs_cache_init (\<lambda>_ _. 0) heap_plenty (demo_hfs 1) 40 = (ODFS_OK, c, heap_plenty)"
    "disc_media.good_cache file_media_ops (file_disc (mctx (demo_hfs 1))) HOST_SECTOR_SIZE
      (\<lambda>m. m = mctx (demo_hfs 1) \<and> file_whole (mctx (demo_hfs 1))) c []"
    by (rule demo_hfs_cache)
  have n: "hfs_node (file_disc (mctx (demo_hfs 1))) demo_vol (cat_root_node demo_vol) = Some (demo_leaf 1)" using demo_node[of 1] by simp
  from hfs_leaf_circle_hangs[OF file_iso.iso_media_axioms c(2) n, of "[(2, Some (demo_rec 1))]" 3 "\<lambda>rec s h. Some (ODFS_OK, rec # s, h)" "[]"
      heap_plenty] demo_is_leaf[of 1] c(1)
  show ?thesis by auto
qed

lemma hfs_leaf_rec_fields:
  assumes "hfs_leaf_rec node sz off next_off = Some (Some (kp, Some rec))" "length node = sz"
  shows "cr_node rec = node \<and> cr_key rec = off \<and> off + cr_key_len rec < sz \<and> cr_data rec < sz \<and> 0 < cr_data_len rec \<and>
    cr_data rec + cr_data_len rec = next_off"
  using assms by (auto simp: hfs_leaf_rec_def bind_eq_Some_conv Let_def split: if_splits)

lemma rec_name_in:
  assumes "cr_key rec + cr_key_len rec < length (cr_node rec)"
  shows "\<exists>nm. hfs_rec_name rec = Some nm"
  using assms by (auto simp: hfs_rec_name_def rdn_in)

lemma rec_node_in:
  assumes "cr_key rec + cr_key_len rec < length (cr_node rec)" "cr_data rec + cr_data_len rec \<le> length (cr_node rec)"
  shows "\<exists>n. hfs_rec_node rec = Some n"
proof -
  let ?d = "cr_data rec" and ?b = "cr_node rec"
  obtain nm where nm: "hfs_rec_name rec = Some nm" using rec_name_in[OF assms(1)] by blast
  have "\<exists>v. be32 ?b (?d + i) = Some v" if "i + 4 \<le> cr_data_len rec" for i using be32_in[of "?d + i" ?b] that assms(2) by simp
  then have w: "22 \<le> cr_data_len rec \<Longrightarrow> \<exists>v. be32 ?b (?d + 6) = Some v" "22 \<le> cr_data_len rec \<Longrightarrow> \<exists>v. be32 ?b (?d + 14) = Some v"
    "52 \<le> cr_data_len rec \<Longrightarrow> \<exists>v. be32 ?b (?d + 26) = Some v" "52 \<le> cr_data_len rec \<Longrightarrow> \<exists>v. be32 ?b (?d + 48) = Some v" by simp_all
  have s: "78 \<le> cr_data_len rec \<Longrightarrow> \<exists>v. be16 ?b (?d + 74) = Some v" using be16_in[of "?d + 74" ?b] assms(2) by simp
  have r: "1 \<le> cr_data_len rec \<Longrightarrow> rd ?b ?d = Some (?b ! ?d)" using assms(2) by simp
  show ?thesis
  proof (cases "1 \<le> cr_data_len rec")
    case True
    note un = hfs_rec_node_def[of rec, unfolded Let_def r[OF True] nm bind.bind_lunit]
    consider "?b ! ?d = HFS_CAT_DIR" "22 \<le> cr_data_len rec" | "?b ! ?d = HFS_CAT_FILE" "52 \<le> cr_data_len rec" "78 \<le> cr_data_len rec"
      | "?b ! ?d = HFS_CAT_FILE" "52 \<le> cr_data_len rec" "\<not> 78 \<le> cr_data_len rec"
      | "\<not> (?b ! ?d = HFS_CAT_DIR \<and> 22 \<le> cr_data_len rec)" "\<not> (?b ! ?d = HFS_CAT_FILE \<and> 52 \<le> cr_data_len rec)" by blast
    then show ?thesis
      by cases (use w s in \<open>auto simp: un\<close>)
  next
    case False
    then show ?thesis by (simp add: hfs_rec_node_def)
  qed
qed



end
