(* ===== verification/Hfsplus.thy ===== *)
theory Hfsplus
  imports Hfs
begin

text \<open>
  The HFS+ reader, \<^verbatim>\<open>backends/hfsplus/hfsplus.c\<close>: forks, the search for the volume header, the catalog tree,
  enumeration, lookup, reading, parents.
\<close>

section \<open>Data\<close>

definition HFSPLUS_SIG :: u16 where "HFSPLUS_SIG = 0x482B"
definition HFSX_SIG :: u16 where "HFSX_SIG = 0x4858"
definition HFSPLUS_VH_OFFSET :: u64 where "HFSPLUS_VH_OFFSET = 1024"
definition HFSPLUS_CNID_ROOT :: u32 where "HFSPLUS_CNID_ROOT = 2"
definition HFSPLUS_FOLDER_REC :: u16 where "HFSPLUS_FOLDER_REC = 1"
definition HFSPLUS_FILE_REC :: u16 where "HFSPLUS_FILE_REC = 2"
definition HFSPLUS_FOLDER_THREAD :: u16 where "HFSPLUS_FOLDER_THREAD = 3"

record hfsp_extent =
  start_block :: u32
  block_count :: u32

record hfsp_fork =
  logical_size :: u64
  clump_size :: u32
  fork_blocks :: u32
  fork_extents :: "hfsp_extent list"

record hfsplus_context =
  vol_offset :: u64
  block_size :: u32
  total_blocks :: u32
  hfsp_volume_name :: "u8 list"
  cat_fork :: hfsp_fork
  hp_node_size :: u32
  hp_root_node :: u32
  hp_first_leaf :: u32
  hp_next_id :: u32
  hp_root :: odfs_node

definition be64 :: "u8 list \<Rightarrow> nat \<Rightarrow> u64 option" where
  "be64 p i = do { a \<leftarrow> be32 p i; b \<leftarrow> be32 p (i + 4); Some (push_bit 32 (ucast a) OR ucast b) }"

section \<open>Forks\<close>

fun parse_extents :: "u8 list \<Rightarrow> nat \<Rightarrow> nat \<Rightarrow> hfsp_extent list option" where
  "parse_extents p i 0 = Some []"
| "parse_extents p i (Suc n) = do {
     s \<leftarrow> be32 p i;
     b \<leftarrow> be32 p (i + 4);
     es \<leftarrow> parse_extents p (i + 8) n;
     Some (\<lparr>start_block = s, block_count = b\<rparr> # es) }"

definition hfsp_parse_fork :: "u8 list \<Rightarrow> nat \<Rightarrow> hfsp_fork option" where
  "hfsp_parse_fork p i = do {
     ls \<leftarrow> be64 p i;
     cs \<leftarrow> be32 p (i + 8);
     tb \<leftarrow> be32 p (i + 12);
     es \<leftarrow> parse_extents p (i + 16) 8;
     Some \<lparr>logical_size = ls, clump_size = cs, fork_blocks = tb, fork_extents = es\<rparr> }"

definition hfsp_block_to_byte :: "hfsplus_context \<Rightarrow> u32 \<Rightarrow> u64" where
  "hfsp_block_to_byte ctx block = vol_offset ctx + ucast block * ucast (block_size ctx)"

text \<open>The bytes of one extent; \<open>left\<close> is what is left of it and \<open>len\<close> what is wanted in all.\<close>

function extent_copy ::
    "u64 \<Rightarrow> nat \<Rightarrow> nat \<Rightarrow> u8 list \<Rightarrow> 'm odfs_cache \<Rightarrow> ((odfs_err + u8 list) \<times> 'm odfs_cache) option" where
  "extent_copy phys left len buf c =
     (if \<not> (length buf < len \<and> 0 < left) then Some (Inr buf, c)
      else do {
        let lba_off = unat (phys mod 2048);
        (r, c) \<leftarrow> odfs_cache_read c (ucast (phys div 2048));
        case r of
          Inl err \<Rightarrow> Some (Inl err, c)
        | Inr idx \<Rightarrow> do {
            sector \<leftarrow> cache_data c idx;
            let chunk = min (min (2048 - lba_off) (len - length buf)) left;
            bs \<leftarrow> rdn sector lba_off chunk;
            if chunk = 0 then None
            else extent_copy (phys + of_nat chunk) (left - chunk) len (buf @ bs) c } })"
  by pat_completeness auto
termination
  by (relation "measure (\<lambda>(phys, left, len, buf, c). left)") auto

declare extent_copy.simps [simp del]

text \<open>The extents of a fork; \<open>ext\<close> is where the next one starts in the fork.\<close>

fun fork_copy ::
    "hfsplus_context \<Rightarrow> hfsp_extent list \<Rightarrow> u64 \<Rightarrow> u64 \<Rightarrow> nat \<Rightarrow> u8 list \<Rightarrow> 'm odfs_cache \<Rightarrow>
     ((odfs_err + u8 list) \<times> 'm odfs_cache) option" where
  "fork_copy ctx [] ext offset len buf c = Some (Inr buf, c)"
| "fork_copy ctx (e # es) ext offset len buf c =
     (if \<not> length buf < len then Some (Inr buf, c)
      else let ext_bytes = ucast (block_count e) * ucast (block_size ctx) in
      if ext_bytes = 0 then Some (Inr buf, c)
      else if offset < ext + ext_bytes then do {
        let off_in_ext = offset - ext;
        (r, c) \<leftarrow> extent_copy (hfsp_block_to_byte ctx (start_block e) + off_in_ext) (unat ext_bytes - unat off_in_ext) len buf c;
        case r of
          Inl err \<Rightarrow> Some (Inl err, c)
        | Inr buf' \<Rightarrow> fork_copy ctx es (ext + ext_bytes) (offset + of_nat (length buf' - length buf)) len buf' c }
      else fork_copy ctx es (ext + ext_bytes) offset len buf c)"

definition hfsp_read_fork ::
    "hfsplus_context \<Rightarrow> 'm odfs_cache \<Rightarrow> hfsp_fork \<Rightarrow> u64 \<Rightarrow> nat \<Rightarrow> ((odfs_err + u8 list) \<times> 'm odfs_cache) option" where
  "hfsp_read_fork ctx c fork offset len = do {
     (r, c) \<leftarrow> fork_copy ctx (fork_extents fork) 0 offset len [] c;
     Some (case r of
             Inl err \<Rightarrow> Inl err
           | Inr buf \<Rightarrow> if length buf = len then Inr buf else Inl ODFS_ERR_IO, c) }"

definition hfsp_read_node :: "hfsplus_context \<Rightarrow> 'm odfs_cache read_node" where
  "hfsp_read_node ctx c node_num =
     hfsp_read_fork ctx c (cat_fork ctx) (ucast node_num * ucast (hp_node_size ctx)) (unat (hp_node_size ctx))"

definition hfsp_decode_name :: "u8 list \<Rightarrow> nat \<Rightarrow> u8 list" where
  "hfsp_decode_name uname dst_size =
     (case odfs_ucs2be_to_utf8 uname dst_size of
        Inr out \<Rightarrow> cstr (map (\<lambda>c. if c = 0x3A then 0x2E else c) out)
      | Inl _ \<Rightarrow> [])"

section \<open>Finding the volume header\<close>

definition is_vh_sig :: "u16 \<Rightarrow> bool" where
  "is_vh_sig sig \<longleftrightarrow> sig = HFSPLUS_SIG \<or> sig = HFSX_SIG"

fun sector_scan :: "u8 list \<Rightarrow> nat list \<Rightarrow> nat option option" where
  "sector_scan sector [] = Some None"
| "sector_scan sector (off # offs) = do {
     sig \<leftarrow> be16 sector off;
     if is_vh_sig sig then Some (Some off) else sector_scan sector offs }"

fun vh_scan :: "u32 list \<Rightarrow> 'm odfs_cache \<Rightarrow> ((odfs_err + u64) \<times> 'm odfs_cache) option" where
  "vh_scan [] c = Some (Inl ODFS_ERR_BAD_FORMAT, c)"
| "vh_scan (l # ls) c = do {
     (r, c) \<leftarrow> odfs_cache_read c l;
     case r of
       Inl err \<Rightarrow> vh_scan ls c
     | Inr idx \<Rightarrow> do {
         sector \<leftarrow> cache_data c idx;
         hit \<leftarrow> sector_scan sector [0, 512, 1024, 1536];
         case hit of
           Some off \<Rightarrow> Some (Inr (ucast l * 2048 + of_nat off), c)
         | None \<Rightarrow> vh_scan ls c } }"

definition hfsp_find_vh :: "'m odfs_cache \<Rightarrow> u32 \<Rightarrow> ((odfs_err + u64) \<times> 'm odfs_cache) option" where
  "hfsp_find_vh c ss = do {
     (r, c) \<leftarrow> odfs_cache_read c ss;
     first \<leftarrow> (case r of
                 Inl err \<Rightarrow> Some False
               | Inr idx \<Rightarrow> do {
                   sector \<leftarrow> cache_data c idx;
                   sig \<leftarrow> be16 sector 1024;
                   Some (is_vh_sig sig) });
     if first then Some (Inr (ucast ss * 2048 + 1024), c)
     else vh_scan (if ss < ss + 128 then map (\<lambda>i. ss + of_nat i) [0..<128] else []) c }"

definition hfsp_probe :: "'m odfs_cache \<Rightarrow> u32 \<Rightarrow> (odfs_err \<times> 'm odfs_cache) option" where
  "hfsp_probe c ss = do {
     (r, c) \<leftarrow> hfsp_find_vh c ss;
     Some (case r of Inl err \<Rightarrow> err | Inr _ \<Rightarrow> ODFS_OK, c) }"

section \<open>Mount\<close>

text \<open>The 512 bytes of the volume header.\<close>

definition hfsp_read_vh :: "'m odfs_cache \<Rightarrow> u64 \<Rightarrow> ((odfs_err + u8 list) \<times> 'm odfs_cache) option" where
  "hfsp_read_vh c vh_offset = do {
     let l = (ucast (vh_offset div 2048) :: u32);
     let off = unat (vh_offset mod 2048);
     (r, c) \<leftarrow> odfs_cache_read c l;
     case r of
       Inl err \<Rightarrow> Some (Inl err, c)
     | Inr idx \<Rightarrow> do {
         sector \<leftarrow> cache_data c idx;
         let room = 2048 - off;
         if room \<ge> 512 then do { vh \<leftarrow> rdn sector off 512; Some (Inr vh, c) }
         else do {
           front \<leftarrow> rdn sector off room;
           (r, c) \<leftarrow> odfs_cache_read c (l + 1);
           case r of
             Inl err \<Rightarrow> Some (Inl err, c)
           | Inr idx \<Rightarrow> do {
               sector \<leftarrow> cache_data c idx;
               back \<leftarrow> rdn sector 0 (512 - room);
               Some (Inr (front @ back), c) } } } }"

definition hfsp_read_header :: "hfsplus_context \<Rightarrow> 'm odfs_cache \<Rightarrow> ((odfs_err + hfsplus_context) \<times> 'm odfs_cache) option" where
  "hfsp_read_header ctx c = do {
     (r, c) \<leftarrow> hfsp_read_fork ctx c (cat_fork ctx) 0 512;
     case r of
       Inl err \<Rightarrow> Some (Inl err, c)
     | Inr hdr \<Rightarrow> do {
         t \<leftarrow> rd hdr 8;
         if t \<noteq> NODE_HEADER then Some (Inl ODFS_ERR_BAD_FORMAT, c)
         else do {
           root \<leftarrow> be32 hdr (14 + 2);
           leaf \<leftarrow> be32 hdr (14 + 2 + 4 + 4);
           ns \<leftarrow> be16 hdr (14 + 2 + 4 + 4 + 4 + 4);
           let ctx = ctx\<lparr>hp_root_node := root, hp_first_leaf := leaf, hp_node_size := ucast ns\<rparr>;
           Some (if hp_node_size ctx < 14 \<or> hp_node_size ctx > 32768 then Inl ODFS_ERR_BAD_FORMAT else Inr ctx, c) } } }"

text \<open>The volume's name is in the thread record of the root folder, if it is in the first leaf.\<close>

fun thread_name :: "u8 list \<Rightarrow> u32 \<Rightarrow> nat list \<Rightarrow> u8 list \<Rightarrow> u8 list option" where
  "thread_name node sz [] vn = Some vn"
| "thread_name node sz (r # rs) vn = do {
     roff \<leftarrow> rec_offset node sz r;
     if roff + 10 \<ge> unat sz then thread_name node sz rs vn
     else do {
       parent_cnid \<leftarrow> be32 node (roff + 2);
       namelen \<leftarrow> be16 node (roff + 6);
       keylen \<leftarrow> be16 node roff;
       let data_off = roff + 2 + unat keylen;
       if data_off + 2 \<ge> unat sz then thread_name node sz rs vn
       else do {
         rec_type \<leftarrow> be16 node data_off;
         if rec_type = HFSPLUS_FOLDER_THREAD \<and> parent_cnid = HFSPLUS_CNID_ROOT \<and> data_off + 10 \<le> unat sz then do {
           tnlen \<leftarrow> be16 node (data_off + 8);
           if unat tnlen > 0 \<and> unat tnlen \<le> (unat sz - (data_off + 10)) div 2 then do {
             raw \<leftarrow> rdn node (data_off + 10) (2 * unat tnlen);
             thread_name node sz rs (hfsp_decode_name raw 256) }
           else thread_name node sz rs vn }
         else thread_name node sz rs vn } } }"

definition hfsp_find_name :: "hfsplus_context \<Rightarrow> 'm odfs_cache \<Rightarrow> heap \<Rightarrow> (u8 list \<times> 'm odfs_cache \<times> heap) option" where
  "hfsp_find_name ctx c h =
     (case odfs_malloc h of
        (False, h) \<Rightarrow> Some ([], c, h)
      | (True, h) \<Rightarrow> do {
          (r, c) \<leftarrow> hfsp_read_node ctx c (hp_first_leaf ctx);
          case r of
            Inl err \<Rightarrow> Some ([], c, h)
          | Inr node \<Rightarrow> do {
              t \<leftarrow> rd node 8;
              if t \<noteq> NODE_LEAF then Some ([], c, h)
              else do {
                nrecs \<leftarrow> read_record_count node (hp_node_size ctx);
                case nrecs of
                  None \<Rightarrow> Some ([], c, h)
                | Some nrecs \<Rightarrow> do {
                    vn \<leftarrow> thread_name node (hp_node_size ctx) [0..<nrecs] [];
                    Some (vn, c, h) } } } })"

definition hfsp_mount ::
    "'m odfs_cache \<Rightarrow> heap \<Rightarrow> u32 \<Rightarrow> ((odfs_err + odfs_node \<times> hfsplus_context) \<times> 'm odfs_cache \<times> heap) option" where
  "hfsp_mount c h ss =
     (case odfs_malloc h of
        (False, h) \<Rightarrow> Some (Inl ODFS_ERR_NOMEM, c, h)
      | (True, h) \<Rightarrow> do {
          (r, c) \<leftarrow> hfsp_find_vh c ss;
          case r of
            Inl err \<Rightarrow> Some (Inl err, c, h)
          | Inr vh_offset \<Rightarrow> do {
              (r, c) \<leftarrow> hfsp_read_vh c vh_offset;
              case r of
                Inl err \<Rightarrow> Some (Inl err, c, h)
              | Inr vh \<Rightarrow> do {
                  sig \<leftarrow> be16 vh 0;
                  if \<not> is_vh_sig sig then Some (Inl ODFS_ERR_BAD_FORMAT, c, h)
                  else do {
                    bs \<leftarrow> be32 vh 40;
                    tb \<leftarrow> be32 vh 44;
                    if bs = 0 \<or> bs > 65536 then Some (Inl ODFS_ERR_BAD_FORMAT, c, h)
                    else do {
                      fork \<leftarrow> hfsp_parse_fork vh 272;
                      (r, c) \<leftarrow> hfsp_read_header
                        \<lparr>vol_offset = vh_offset - HFSPLUS_VH_OFFSET, block_size = bs, total_blocks = tb, hfsp_volume_name = [],
                         cat_fork = fork, hp_node_size = 0, hp_root_node = 0, hp_first_leaf = 0, hp_next_id = 1, hp_root = zero_node\<rparr> c;
                      case r of
                        Inl err \<Rightarrow> Some (Inl err, c, h)
                      | Inr ctx \<Rightarrow> do {
                          (vn, c, h) \<leftarrow> hfsp_find_name ctx c h;
                          let vn = (if vn = [] then str_bytes ''HFS+'' else vn);
                          md \<leftarrow> be32 vh 20;
                          let t = odfs_timestamp_from_mac_time md;
                          let root = zero_node\<lparr>backend := ODFS_BACKEND_HFSPLUS, kind := ODFS_NODE_DIR, name := [0x2F],
                                extent := \<lparr>lba = HFSPLUS_CNID_ROOT, extlen = 0\<rparr>, mtime := t, ctime := t\<rparr>;
                          Some (Inr (root, ctx\<lparr>hfsp_volume_name := vn, hp_root := root\<rparr>), c, h) } } } } } })"

section \<open>The catalog\<close>

definition hfsp_index_rec :: "u8 list \<Rightarrow> nat \<Rightarrow> nat \<Rightarrow> (u32 \<times> u32) option option" where
  "hfsp_index_rec node sz roff =
     (if roff + 6 \<ge> sz then Some None
      else do {
        key_parent \<leftarrow> be32 node (roff + 2);
        keylen \<leftarrow> be16 node roff;
        let ptr_off = roff + 2 + unat keylen;
        if ptr_off + 4 > sz then Some None
        else do { ptr \<leftarrow> be32 node ptr_off; Some (Some (key_parent, ptr)) } })"

definition hfsp_leaf_rec :: "u8 list \<Rightarrow> nat \<Rightarrow> nat \<Rightarrow> nat \<Rightarrow> (u32 \<times> cat_rec option) option option" where
  "hfsp_leaf_rec node sz roff next_roff =
     (if roff + 8 \<ge> sz then Some None
      else do {
        keylen \<leftarrow> be16 node roff;
        if 2 + unat keylen > sz - roff then Some None
        else do {
          key_parent \<leftarrow> be32 node (roff + 2);
          let data_off = word_align (roff + 2 + unat keylen);
          let data_len = (if next_roff > data_off then next_roff - data_off else 0);
          Some (Some (key_parent,
            if data_off + 2 > sz \<or> data_len < 2 then None
            else Some \<lparr>cr_node = node, cr_key = roff, cr_key_len = 2 + unat keylen, cr_data = data_off, cr_data_len = data_len\<rparr>)) } })"

definition hfsp_layout :: cat_layout where
  "hfsp_layout = \<lparr>lay_index = hfsp_index_rec, lay_leaf = hfsp_leaf_rec\<rparr>"

definition hfsp_walk_catalog ::
    "hfsplus_context \<Rightarrow> u32 \<Rightarrow> 's cat_cb \<Rightarrow> 's \<Rightarrow> 'm odfs_cache \<Rightarrow> heap \<Rightarrow> ('m odfs_cache, 's) walk_result option" where
  "hfsp_walk_catalog ctx parent_cnid cb s c h =
     walk_catalog hfsp_layout (hfsp_read_node ctx) (hp_node_size ctx) (hp_root_node ctx) parent_cnid cb s c h"

section \<open>Enumeration\<close>

text \<open>Records that are shown: files and folders with a name, names that start with a dot and are long enough excepted.\<close>

definition hfsp_rec_shown :: "cat_rec \<Rightarrow> (u16 \<times> nat) option option" where
  "hfsp_rec_shown rec =
     (if cr_key_len rec < 8 \<or> cr_data_len rec < 2 then Some None
      else do {
        rec_type \<leftarrow> be16 (cr_node rec) (cr_data rec);
        if rec_type \<noteq> HFSPLUS_FOLDER_REC \<and> rec_type \<noteq> HFSPLUS_FILE_REC then Some None
        else do {
          namelen \<leftarrow> be16 (cr_node rec) (cr_key rec + 6);
          if namelen = 0 then Some None
          else do {
            dot \<leftarrow> (if namelen \<ge> 4 \<and> cr_key_len rec \<ge> 10 then do {
                       a \<leftarrow> rd (cr_node rec) (cr_key rec + 8);
                       b \<leftarrow> rd (cr_node rec) (cr_key rec + 9);
                       Some (a = 0 \<and> b = 0x2E) }
                     else Some False);
            Some (if dot then None else Some (rec_type, unat namelen)) } } })"

definition hfsp_rec_name :: "cat_rec \<Rightarrow> nat \<Rightarrow> u8 list option" where
  "hfsp_rec_name rec namelen =
     (if namelen \<le> (cr_key_len rec - 8) div 2 then do {
        raw \<leftarrow> rdn (cr_node rec) (cr_key rec + 8) (2 * namelen);
        Some (hfsp_decode_name raw ODFS_NAME_MAX) }
      else Some [])"

text \<open>What the data of the record say of the node; \<open>None\<close> inside for a record that is too short.\<close>

definition hfsp_rec_fill :: "cat_rec \<Rightarrow> u16 \<Rightarrow> odfs_node \<Rightarrow> odfs_node option option" where
  "hfsp_rec_fill rec rec_type node =
     (if rec_type = HFSPLUS_FOLDER_REC then
        (if cr_data_len rec < 24 then Some None
         else do {
           cnid \<leftarrow> be32 (cr_node rec) (cr_data rec + 8);
           t \<leftarrow> be32 (cr_node rec) (cr_data rec + 16);
           let t = odfs_timestamp_from_mac_time t;
           Some (Some (node\<lparr>kind := ODFS_NODE_DIR, extent := \<lparr>lba = cnid, extlen = 0\<rparr>, mtime := t, ctime := t\<rparr>)) })
      else
        (if cr_data_len rec < 88 then Some None
         else do {
           node \<leftarrow> (if cr_data_len rec \<ge> 168 then do {
                       f \<leftarrow> hfsp_parse_fork (cr_node rec) (cr_data rec + 88);
                       e \<leftarrow> rd (fork_extents f) 0;
                       Some (node\<lparr>kind := ODFS_NODE_FILE, size := logical_size f,
                                  extent := \<lparr>lba = start_block e, extlen = ucast (logical_size f)\<rparr>\<rparr>) }
                     else Some (node\<lparr>kind := ODFS_NODE_FILE\<rparr>));
           t \<leftarrow> be32 (cr_node rec) (cr_data rec + 16);
           let t = odfs_timestamp_from_mac_time t;
           Some (Some (node\<lparr>mtime := t, ctime := t\<rparr>)) }))"

record 's hfsp_readdir_ctx =
  pc_next_id :: u32
  pc_cb :: 's
  pc_entry_index :: int
  pc_resume :: u32
  pc_last_err :: odfs_err
  pc_names :: odfs_namefix_state

definition hfsp_readdir_record_cb :: "odfs_node \<Rightarrow> 's dir_iter_fn \<Rightarrow> int \<Rightarrow> 's hfsp_readdir_ctx cat_cb" where
  "hfsp_readdir_record_cb dir cb skip_to rec rc h = do {
     v \<leftarrow> hfsp_rec_shown rec;
     case v of
       None \<Rightarrow> Some (ODFS_OK, rc, h)
     | Some (rec_type, namelen) \<Rightarrow> do {
         let id = pc_next_id rc;
         let rc = rc\<lparr>pc_next_id := pc_next_id rc + 1\<rparr>;
         nm \<leftarrow> hfsp_rec_name rec namelen;
         if nm = [] then Some (ODFS_OK, rc, h)
         else do {
           (err, nm, names, h) \<leftarrow> odfs_namefix_apply (pc_names rc) h nm ODFS_NAME_MAX;
           let rc = rc\<lparr>pc_names := names\<rparr>;
           if err \<noteq> ODFS_OK then Some (err, rc\<lparr>pc_last_err := err\<rparr>, h)
           else if pc_entry_index rc < skip_to then Some (ODFS_OK, rc\<lparr>pc_entry_index := pc_entry_index rc + 1\<rparr>, h)
           else do {
             n \<leftarrow> hfsp_rec_fill rec rec_type
               (zero_node\<lparr>node_id := id, parent_id := node_id dir, backend := ODFS_BACKEND_HFSPLUS, name := nm\<rparr>);
             case n of
               None \<Rightarrow> Some (ODFS_OK, rc, h)
             | Some node \<Rightarrow>
                 let rc = rc\<lparr>pc_entry_index := pc_entry_index rc + 1\<rparr> in
                 (case cb node (pc_cb rc) h of
                    (err, s, h) \<Rightarrow>
                      let rc = rc\<lparr>pc_cb := s\<rparr> in
                      if err \<noteq> ODFS_OK
                      then Some (err, rc\<lparr>pc_resume := word_of_int (pc_entry_index rc), pc_last_err := err\<rparr>, h)
                      else Some (ODFS_OK, rc, h)) } } } }"

definition hfsp_readdir ::
    "hfsplus_context \<Rightarrow> 'm odfs_cache \<Rightarrow> heap \<Rightarrow> odfs_node \<Rightarrow> 's dir_iter_fn \<Rightarrow> 's \<Rightarrow> u32 \<Rightarrow>
     ('m, hfsplus_context, odfs_err \<times> u32 \<times> 's) be_result" where
  "hfsp_readdir ctx c h dir cb s resume = do {
     (err, rc, c, h) \<leftarrow> hfsp_walk_catalog ctx (lba (extent dir)) (hfsp_readdir_record_cb dir cb (sint resume))
       \<lparr>pc_next_id = hp_next_id ctx, pc_cb = s, pc_entry_index = 0, pc_resume = resume, pc_last_err = ODFS_OK,
        pc_names = odfs_namefix_init\<rparr> c h;
     let ctx = ctx\<lparr>hp_next_id := pc_next_id rc\<rparr>;
     Some (if pc_last_err rc \<noteq> ODFS_OK then (pc_last_err rc, pc_resume rc, pc_cb rc)
           else (err, word_of_int (pc_entry_index rc), pc_cb rc), ctx, c, h) }"

section \<open>Reading and lookup\<close>

definition hfsp_read ::
    "hfsplus_context \<Rightarrow> 'm odfs_cache \<Rightarrow> heap \<Rightarrow> odfs_node \<Rightarrow> u64 \<Rightarrow> u8 list \<Rightarrow> nat \<Rightarrow>
     ('m, hfsplus_context, odfs_err \<times> u8 list \<times> nat) be_result" where
  "hfsp_read ctx c h file offset buf want =
     (if offset \<ge> size file then Some ((ODFS_OK, buf, 0), ctx, c, h)
      else do {
        let want = (if want > unat (size file - offset) then unat (size file - offset) else want);
        let data_start = hfsp_block_to_byte ctx (lba (extent file));
        (err, buf, n, c) \<leftarrow> odfs_cache_read_bytes c 0 (data_start + offset) buf want;
        Some ((err, buf, n), ctx, c, h) })"

definition hfsp_lookup_cb :: "u8 list \<Rightarrow> odfs_node option dir_iter_fn" where
  "hfsp_lookup_cb nm entry s h =
     (if odfs_strcasecmp (name entry) nm = 0 then (ODFS_ERR_EOF, Some entry, h) else (ODFS_OK, s, h))"

definition hfsp_lookup ::
    "hfsplus_context \<Rightarrow> 'm odfs_cache \<Rightarrow> heap \<Rightarrow> odfs_node \<Rightarrow> u8 list \<Rightarrow> ('m, hfsplus_context, odfs_err + odfs_node) be_result" where
  "hfsp_lookup ctx c h dir nm = do {
     ((err, resume, found), ctx, c, h) \<leftarrow> hfsp_readdir ctx c h dir (hfsp_lookup_cb nm) None 0;
     Some (case found of
             Some node \<Rightarrow> if err = ODFS_ERR_EOF \<or> err = ODFS_OK then Inr node else Inl err
           | None \<Rightarrow> if err \<noteq> ODFS_OK then Inl err else Inl ODFS_ERR_NOT_FOUND,
           ctx, c, h) }"

section \<open>Parents\<close>

definition hfsp_thread_record_cb :: "u32 option cat_cb" where
  "hfsp_thread_record_cb rec info h =
     (if cr_data_len rec < 8 then Some (ODFS_OK, info, h)
      else do {
        t \<leftarrow> be16 (cr_node rec) (cr_data rec);
        if t \<noteq> HFSPLUS_FOLDER_THREAD then Some (ODFS_OK, info, h)
        else do {
          p \<leftarrow> be32 (cr_node rec) (cr_data rec + 4);
          Some (ODFS_ERR_EOF, Some p, h) } })"

definition hfsp_read_thread ::
    "hfsplus_context \<Rightarrow> 'm odfs_cache \<Rightarrow> heap \<Rightarrow> u32 \<Rightarrow> ((odfs_err + u32) \<times> 'm odfs_cache \<times> heap) option" where
  "hfsp_read_thread ctx c h cnid = do {
     (err, info, c, h) \<leftarrow> hfsp_walk_catalog ctx cnid hfsp_thread_record_cb None c h;
     Some (case info of
             Some p \<Rightarrow> Inr p
           | None \<Rightarrow> Inl (if err = ODFS_OK \<or> err = ODFS_ERR_EOF then ODFS_ERR_NOT_FOUND else err), c, h) }"

definition hfsp_cnid_match_cb :: "u32 \<Rightarrow> odfs_node option dir_iter_fn" where
  "hfsp_cnid_match_cb want_cnid entry s h =
     (if kind entry = ODFS_NODE_DIR \<and> lba (extent entry) = want_cnid then (ODFS_ERR_EOF, Some entry, h) else (ODFS_OK, s, h))"

definition hfsp_find_child_by_cnid ::
    "hfsplus_context \<Rightarrow> 'm odfs_cache \<Rightarrow> heap \<Rightarrow> odfs_node \<Rightarrow> u32 \<Rightarrow> ('m, hfsplus_context, odfs_err + odfs_node) be_result" where
  "hfsp_find_child_by_cnid ctx c h parent_dir child_cnid = do {
     ((err, resume, found), ctx, c, h) \<leftarrow> hfsp_readdir ctx c h parent_dir (hfsp_cnid_match_cb child_cnid) None 0;
     Some (case found of
             Some node \<Rightarrow> Inr node
           | None \<Rightarrow> Inl (if err = ODFS_OK \<or> err = ODFS_ERR_EOF then ODFS_ERR_NOT_FOUND else err), ctx, c, h) }"

definition hfsp_dir_stub :: "u32 \<Rightarrow> odfs_node" where
  "hfsp_dir_stub cnid = zero_node\<lparr>backend := ODFS_BACKEND_HFSPLUS, kind := ODFS_NODE_DIR, extent := \<lparr>lba = cnid, extlen = 0\<rparr>\<rparr>"

definition hfsp_dir_at :: "hfsplus_context \<Rightarrow> u32 \<Rightarrow> odfs_node" where
  "hfsp_dir_at ctx cnid = (if cnid = HFSPLUS_CNID_ROOT then hp_root ctx else hfsp_dir_stub cnid)"

definition hfsp_resolve_grandparent ::
    "hfsplus_context \<Rightarrow> 'm odfs_cache \<Rightarrow> heap \<Rightarrow> u32 \<Rightarrow> ('m, hfsplus_context, odfs_err + odfs_node) be_result" where
  "hfsp_resolve_grandparent ctx c h gp_cnid =
     (if gp_cnid = HFSPLUS_CNID_ROOT then Some (Inr (hp_root ctx), ctx, c, h)
      else do {
        (r, c, h) \<leftarrow> hfsp_read_thread ctx c h gp_cnid;
        case r of
          Inl err \<Rightarrow> Some (Inl err, ctx, c, h)
        | Inr great \<Rightarrow> hfsp_find_child_by_cnid ctx c h (hfsp_dir_at ctx great) gp_cnid })"

definition hfsp_resolve_parent ::
    "hfsplus_context \<Rightarrow> 'm odfs_cache \<Rightarrow> heap \<Rightarrow> odfs_node \<Rightarrow> bool \<Rightarrow>
     ('m, hfsplus_context, odfs_err + odfs_node \<times> odfs_node option) be_result" where
  "hfsp_resolve_parent ctx c h dir want_gp =
     (if kind dir \<noteq> ODFS_NODE_DIR then Some (Inl ODFS_ERR_NOT_DIR, ctx, c, h)
      else if lba (extent dir) = HFSPLUS_CNID_ROOT then Some (Inl ODFS_ERR_NOT_FOUND, ctx, c, h)
      else do {
        (r, c, h) \<leftarrow> hfsp_read_thread ctx c h (lba (extent dir));
        case r of
          Inl err \<Rightarrow> Some (Inl err, ctx, c, h)
        | Inr parent_cnid \<Rightarrow>
            if parent_cnid = HFSPLUS_CNID_ROOT
            then Some (Inr (hp_root ctx, if want_gp then Some (hp_root ctx) else None), ctx, c, h)
            else do {
              (r, c, h) \<leftarrow> hfsp_read_thread ctx c h parent_cnid;
              case r of
                Inl err \<Rightarrow> Some (Inl err, ctx, c, h)
              | Inr gp_cnid \<Rightarrow> do {
                  (r, ctx, c, h) \<leftarrow> hfsp_find_child_by_cnid ctx c h (hfsp_dir_at ctx gp_cnid) parent_cnid;
                  case r of
                    Inl err \<Rightarrow> Some (Inl err, ctx, c, h)
                  | Inr parent \<Rightarrow>
                      if \<not> want_gp then Some (Inr (parent, None), ctx, c, h)
                      else do {
                        (r, ctx, c, h) \<leftarrow> hfsp_resolve_grandparent ctx c h gp_cnid;
                        case r of
                          Inl err \<Rightarrow> Some (Inl err, ctx, c, h)
                        | Inr gp \<Rightarrow> Some (Inr (parent, Some gp), ctx, c, h) } } } })"

section \<open>The volume\<close>

definition hfsp_get_volume_name :: "hfsplus_context \<Rightarrow> nat \<Rightarrow> u8 list option" where
  "hfsp_get_volume_name ctx buf_size =
     (if buf_size = 0 then None
      else Some (take (if length (hfsp_volume_name ctx) \<ge> buf_size then buf_size - 1 else length (hfsp_volume_name ctx)) (hfsp_volume_name ctx)))"

definition hfsp_get_volume_size :: "hfsplus_context \<Rightarrow> u32" where
  "hfsp_get_volume_size ctx = volume_blocks (ucast (total_blocks ctx) * ucast (block_size ctx))"

definition hfsplus_backend_ops :: "('m, hfsplus_context, 's) odfs_backend_ops" where
  "hfsplus_backend_ops =
     \<lparr>be_name = ''hfsplus'', be_type = ODFS_BACKEND_HFSPLUS, be_flags = 0, be_probe = hfsp_probe, be_mount = hfsp_mount,
      be_readdir = hfsp_readdir, be_read = hfsp_read, be_lookup = hfsp_lookup, be_readlink = None,
      be_resolve_parent = Some hfsp_resolve_parent, be_get_volume_name = Some hfsp_get_volume_name,
      be_get_volume_size = Some hfsp_get_volume_size\<rparr>"

end
