(* ===== verification/Udf.thy ===== *)
theory Udf
  imports Backend Namefix
begin

text \<open>
  The UDF reader (\<^verbatim>\<open>backends/udf/udf.c\<close>, \<^verbatim>\<open>udf.h\<close>): descriptor tags, mounting, file entries, reading through the
  chain of allocation descriptors, directories, symbolic links and parents.

  The code looks at a sector only until its next cache read, so here a cache read gives the sector's
  bytes.  A callback of the directory walk gets the cache and the allocator, since it may read file entries.
\<close>

section \<open>Data\<close>

definition UDF_TAG_PVD :: u16 where "UDF_TAG_PVD = 1"
definition UDF_TAG_AVDP :: u16 where "UDF_TAG_AVDP = 2"
definition UDF_TAG_PD :: u16 where "UDF_TAG_PD = 5"
definition UDF_TAG_LVD :: u16 where "UDF_TAG_LVD = 6"
definition UDF_TAG_TD :: u16 where "UDF_TAG_TD = 8"
definition UDF_TAG_FSD :: u16 where "UDF_TAG_FSD = 256"
definition UDF_TAG_FID :: u16 where "UDF_TAG_FID = 257"
definition UDF_TAG_AED :: u16 where "UDF_TAG_AED = 258"
definition UDF_TAG_FE :: u16 where "UDF_TAG_FE = 261"
definition UDF_TAG_EFE :: u16 where "UDF_TAG_EFE = 266"
definition UDF_AVDP_LBA :: u32 where "UDF_AVDP_LBA = 256"
definition UDF_ICB_FILETYPE_SYMLINK :: u8 where "UDF_ICB_FILETYPE_SYMLINK = 12"
definition UDF_FID_FLAG_DIRECTORY :: u8 where "UDF_FID_FLAG_DIRECTORY = 2"
definition UDF_FID_FLAG_DELETED :: u8 where "UDF_FID_FLAG_DELETED = 4"
definition UDF_FID_FLAG_PARENT :: u8 where "UDF_FID_FLAG_PARENT = 8"
definition UDF_ICB_ALLOC_SHORT :: u16 where "UDF_ICB_ALLOC_SHORT = 0"
definition UDF_ICB_ALLOC_LONG :: u16 where "UDF_ICB_ALLOC_LONG = 1"
definition UDF_ICB_ALLOC_EMBEDDED :: u16 where "UDF_ICB_ALLOC_EMBEDDED = 3"
definition UDF_EXT_RECORDED :: u32 where "UDF_EXT_RECORDED = 0"
definition UDF_EXT_CONTINUATION :: u32 where "UDF_EXT_CONTINUATION = 3"
definition UDF_EXT_LENGTH_MASK :: u32 where "UDF_EXT_LENGTH_MASK = 0x3FFFFFFF"

record udf_tag =
  tag_id :: u16
  tag_version :: u16
  tag_checksum :: u8
  tag_serial :: u16
  tag_crc :: u16
  tag_crc_length :: u16
  tag_location :: u32

record udf_context =
  part_start :: u32
  part_length :: u32
  part_number :: u16
  lv_block_size :: u32
  volume_id :: "u8 list"
  root_icb_lba :: u32
  root_icb_part :: u16
  udf_next_node_id :: u32
  udf_root :: odfs_node

definition zero_udf_context :: udf_context where
  "zero_udf_context = \<lparr>part_start = 0, part_length = 0, part_number = 0, lv_block_size = 0, volume_id = [],
     root_icb_lba = 0, root_icb_part = 0, udf_next_node_id = 0, udf_root = zero_node\<rparr>"

section \<open>Fields\<close>

definition udf_le64 :: "u8 list \<Rightarrow> nat \<Rightarrow> u64 option" where
  "udf_le64 p i = do { lo \<leftarrow> le32 p i; hi \<leftarrow> le32 p (i + 4); Some (ucast lo OR push_bit 32 (ucast hi)) }"

text \<open>The tag, and whether its checksum is right.\<close>

definition udf_read_tag :: "u8 list \<Rightarrow> (bool \<times> udf_tag) option" where
  "udf_read_tag d = do {
     ident \<leftarrow> le16 d 0;
     version \<leftarrow> le16 d 2;
     checksum \<leftarrow> rd d 4;
     serial \<leftarrow> le16 d 6;
     crc \<leftarrow> le16 d 8;
     crc_length \<leftarrow> le16 d 10;
     location \<leftarrow> le32 d 12;
     let s = sum_list (map (\<lambda>i. ucast (d ! i)) (filter (\<lambda>i. i \<noteq> 4) [0..<16]) :: u32 list);
     Some ((ucast s :: u8) = checksum,
       \<lparr>tag_id = ident, tag_version = version, tag_checksum = checksum, tag_serial = serial, tag_crc = crc,
        tag_crc_length = crc_length, tag_location = location\<rparr>) }"

text \<open>Compressed Unicode: the first byte says how the others are encoded.\<close>

definition cs0_text :: "u8 list \<Rightarrow> nat \<Rightarrow> u8 list" where
  "cs0_text src dst_size =
     (if src ! 0 = 16
      then case odfs_ucs2be_to_utf8 (tl src) dst_size of Inr out \<Rightarrow> out | Inl _ \<Rightarrow> []
      else take (dst_size - 1) (tl src))"

definition trim_spaces :: "u8 list \<Rightarrow> u8 list" where
  "trim_spaces s = rev (dropWhile (\<lambda>c. c = 0x20) (rev s))"

definition udf_decode_dstring :: "u8 list \<Rightarrow> nat \<Rightarrow> u8 list" where
  "udf_decode_dstring src dst_size =
     (if src = [] \<or> dst_size = 0 then []
      else let used = unat (last src) in
      if used = 0 \<or> used > length src - 1 then []
      else cstr (trim_spaces (cs0_text (take used src) dst_size)))"

definition udf_decode_cs0 :: "u8 list \<Rightarrow> nat \<Rightarrow> u8 list" where
  "udf_decode_cs0 src dst_size = (if src = [] \<or> dst_size = 0 then [] else cstr (cs0_text src dst_size))"

definition udf_parse_timestamp :: "u8 list \<Rightarrow> nat \<Rightarrow> odfs_timestamp option" where
  "udf_parse_timestamp d i = do {
     tz \<leftarrow> le16 d (i + 2);
     y \<leftarrow> le16 d (i + 4);
     mo \<leftarrow> rd d (i + 6);
     da \<leftarrow> rd d (i + 7);
     ho \<leftarrow> rd d (i + 8);
     mi \<leftarrow> rd d (i + 9);
     se \<leftarrow> rd d (i + 10);
     Some \<lparr>year = sint y, month = mo, day = da, hour = ho, minute = mi, second = se,
       tz_offset = (if sint tz \<ge> -1440 \<and> sint tz \<le> 1440 then sint tz else 0)\<rparr> }"

definition udf_phys_lba :: "udf_context \<Rightarrow> u32 \<Rightarrow> u32" where
  "udf_phys_lba ctx part_lba = part_start ctx + part_lba"

text \<open>A sector through the cache.\<close>

definition read_sector :: "'m odfs_cache \<Rightarrow> u32 \<Rightarrow> ((odfs_err + u8 list) \<times> 'm odfs_cache) option" where
  "read_sector c l = do {
     (r, c) \<leftarrow> odfs_cache_read c l;
     case r of
       Inl err \<Rightarrow> Some (Inl err, c)
     | Inr idx \<Rightarrow> do { d \<leftarrow> cache_data c idx; Some (Inr d, c) } }"

section \<open>Mounting\<close>

definition udf_probe :: "'m odfs_cache \<Rightarrow> u32 \<Rightarrow> (odfs_err \<times> 'm odfs_cache) option" where
  "udf_probe c session_start = do {
     (r, c) \<leftarrow> read_sector c (session_start + UDF_AVDP_LBA);
     case r of
       Inl err \<Rightarrow> Some (err, c)
     | Inr sector \<Rightarrow> do {
         (ok, tag) \<leftarrow> udf_read_tag sector;
         Some (if \<not> ok \<or> tag_id tag \<noteq> UDF_TAG_AVDP then ODFS_ERR_BAD_FORMAT else ODFS_OK, c) } }"

text \<open>What the descriptor sequence has given so far: the context, whether partition and logical volume have been
  seen, and where the file set is.\<close>

record vds_state =
  vs_ctx :: udf_context
  vs_found_pd :: bool
  vs_found_lvd :: bool
  vs_fsd_lba :: u32

text \<open>One descriptor; \<open>None\<close> inside ends the scan.\<close>

definition vds_descriptor :: "u8 list \<Rightarrow> vds_state \<Rightarrow> vds_state option option" where
  "vds_descriptor sector st = do {
     (ok, tag) \<leftarrow> udf_read_tag sector;
     if \<not> ok then Some (Some st)
     else if tag_id tag = UDF_TAG_PVD then do {
       f \<leftarrow> rdn sector 24 32;
       Some (Some (st\<lparr>vs_ctx := (vs_ctx st)\<lparr>volume_id := udf_decode_dstring f 128\<rparr>\<rparr>)) }
     else if tag_id tag = UDF_TAG_PD then do {
       pn \<leftarrow> le16 sector 22;
       ps \<leftarrow> le32 sector 188;
       pl \<leftarrow> le32 sector 192;
       Some (Some (st\<lparr>vs_ctx := (vs_ctx st)\<lparr>part_number := pn, part_start := ps, part_length := pl\<rparr>, vs_found_pd := True\<rparr>)) }
     else if tag_id tag = UDF_TAG_LVD then do {
       bs \<leftarrow> le32 sector 212;
       let ctx = (vs_ctx st)\<lparr>lv_block_size := bs\<rparr>;
       ctx \<leftarrow> (if volume_id ctx = [] then do { f \<leftarrow> rdn sector 84 128; Some (ctx\<lparr>volume_id := udf_decode_dstring f 128\<rparr>) }
                else Some ctx);
       fsd \<leftarrow> le32 sector 252;
       Some (Some (st\<lparr>vs_ctx := ctx, vs_fsd_lba := fsd, vs_found_lvd := True\<rparr>)) }
     else if tag_id tag = UDF_TAG_TD then Some None
     else Some (Some st) }"

fun vds_scan :: "nat \<Rightarrow> u32 \<Rightarrow> vds_state \<Rightarrow> 'm odfs_cache \<Rightarrow> (vds_state \<times> 'm odfs_cache) option" where
  "vds_scan 0 l st c = Some (st, c)"
| "vds_scan (Suc n) l st c = do {
     (r, c) \<leftarrow> read_sector c l;
     case r of
       Inl err \<Rightarrow> vds_scan n (l + 1) st c
     | Inr sector \<Rightarrow> do {
         v \<leftarrow> vds_descriptor sector st;
         case v of
           None \<Rightarrow> Some (st, c)
         | Some st \<Rightarrow> vds_scan n (l + 1) st c } }"

definition udf_root_node :: "u8 list \<Rightarrow> u16 \<Rightarrow> u32 \<Rightarrow> odfs_node option" where
  "udf_root_node sector ident root_phys = do {
     sz \<leftarrow> udf_le64 sector 56;
     t \<leftarrow> udf_parse_timestamp sector (if ident = UDF_TAG_FE then 84 else 108);
     Some (zero_node\<lparr>backend := ODFS_BACKEND_UDF, kind := ODFS_NODE_DIR, name := [0x2F], size := sz, mtime := t, ctime := t,
       extent := \<lparr>lba = root_phys, extlen = ucast sz\<rparr>\<rparr>) }"

text \<open>From the file set descriptor to the root directory.\<close>

definition udf_open_root ::
    "udf_context \<Rightarrow> u32 \<Rightarrow> 'm odfs_cache \<Rightarrow> ((odfs_err + odfs_node \<times> udf_context) \<times> 'm odfs_cache) option" where
  "udf_open_root ctx fsd_lba c = do {
     (r, c) \<leftarrow> read_sector c (udf_phys_lba ctx fsd_lba);
     case r of
       Inl err \<Rightarrow> Some (Inl err, c)
     | Inr sector \<Rightarrow> do {
         (ok, tag) \<leftarrow> udf_read_tag sector;
         if \<not> ok \<or> tag_id tag \<noteq> UDF_TAG_FSD then Some (Inl ODFS_ERR_BAD_FORMAT, c)
         else do {
           icb \<leftarrow> le32 sector 404;
           part \<leftarrow> le16 sector 408;
           let ctx = ctx\<lparr>root_icb_lba := icb, root_icb_part := part\<rparr>;
           let root_phys = udf_phys_lba ctx icb;
           (r, c) \<leftarrow> read_sector c root_phys;
           case r of
             Inl err \<Rightarrow> Some (Inl err, c)
           | Inr sector \<Rightarrow> do {
               (ok, tag) \<leftarrow> udf_read_tag sector;
               if \<not> ok \<or> tag_id tag \<noteq> UDF_TAG_FE \<and> tag_id tag \<noteq> UDF_TAG_EFE then Some (Inl ODFS_ERR_BAD_FORMAT, c)
               else do {
                 root \<leftarrow> udf_root_node sector (tag_id tag) root_phys;
                 Some (Inr (root, ctx\<lparr>udf_root := root\<rparr>), c) } } } } }"

definition udf_mount ::
    "'m odfs_cache \<Rightarrow> heap \<Rightarrow> u32 \<Rightarrow> ((odfs_err + odfs_node \<times> udf_context) \<times> 'm odfs_cache \<times> heap) option" where
  "udf_mount c h session_start =
     (case odfs_malloc h of
        (False, h) \<Rightarrow> Some (Inl ODFS_ERR_NOMEM, c, h)
      | (True, h) \<Rightarrow> do {
          (r, c) \<leftarrow> read_sector c (session_start + UDF_AVDP_LBA);
          case r of
            Inl err \<Rightarrow> Some (Inl err, c, h)
          | Inr sector \<Rightarrow> do {
              (ok, tag) \<leftarrow> udf_read_tag sector;
              if \<not> ok \<or> tag_id tag \<noteq> UDF_TAG_AVDP then Some (Inl ODFS_ERR_BAD_FORMAT, c, h)
              else do {
                mvds_lba \<leftarrow> le32 sector (16 + 4);
                mvds_len \<leftarrow> le32 sector 16;
                (st, c) \<leftarrow> vds_scan (unat (mvds_len div 2048)) mvds_lba
                  \<lparr>vs_ctx = zero_udf_context\<lparr>udf_next_node_id := 1, lv_block_size := 2048\<rparr>,
                   vs_found_pd = False, vs_found_lvd = False, vs_fsd_lba = 0\<rparr> c;
                if \<not> vs_found_pd st \<or> \<not> vs_found_lvd st then Some (Inl ODFS_ERR_BAD_FORMAT, c, h)
                else do {
                  (r, c) \<leftarrow> udf_open_root (vs_ctx st) (vs_fsd_lba st) c;
                  Some (r, c, h) } } } })"

section \<open>File entries\<close>

text \<open>The fields of a file entry or an extended file entry both readers take.\<close>

record udf_icb =
  icb_file_type :: u8
  icb_alloc_type :: u16
  icb_data_size :: u64
  icb_time_off :: nat
  icb_ea_len :: u32
  icb_ad_length :: u32
  icb_ad_base :: u32

definition block_size_of :: "udf_context \<Rightarrow> u32" where
  "block_size_of ctx = (if lv_block_size ctx \<noteq> 0 then lv_block_size ctx else 2048)"

definition udf_parse_icb :: "u8 list \<Rightarrow> u32 \<Rightarrow> (odfs_err + udf_icb) option" where
  "udf_parse_icb sector block_size = do {
     (ok, tag) \<leftarrow> udf_read_tag sector;
     if \<not> ok then Some (Inl ODFS_ERR_CORRUPT)
     else if tag_id tag \<noteq> UDF_TAG_FE \<and> tag_id tag \<noteq> UDF_TAG_EFE then Some (Inl ODFS_ERR_BAD_FORMAT)
     else do {
       let fe = (tag_id tag = UDF_TAG_FE);
       let ad_base = (if fe then 176 else 216 :: u32);
       if block_size < ad_base then Some (Inl ODFS_ERR_CORRUPT)
       else do {
         ft \<leftarrow> rd sector (16 + 11);
         at \<leftarrow> le16 sector (16 + 18);
         sz \<leftarrow> udf_le64 sector 56;
         ea \<leftarrow> le32 sector (if fe then 168 else 208);
         ad \<leftarrow> le32 sector (if fe then 172 else 212);
         Some (Inr \<lparr>icb_file_type = ft, icb_alloc_type = at AND 7, icb_data_size = sz,
           icb_time_off = (if fe then 84 else 108), icb_ea_len = ea, icb_ad_length = ad, icb_ad_base = ad_base\<rparr>) } } }"

text \<open>Where the descriptors start, if they lie inside the block.\<close>

definition icb_ad_offset :: "udf_icb \<Rightarrow> u32 \<Rightarrow> odfs_err + u32" where
  "icb_ad_offset icb block_size =
     (if icb_ea_len icb > block_size - icb_ad_base icb then Inl ODFS_ERR_CORRUPT
      else let ad_offset = icb_ad_base icb + icb_ea_len icb in
      if icb_ad_length icb > block_size - ad_offset then Inl ODFS_ERR_CORRUPT else Inr ad_offset)"

text \<open>The result: size, place of the data, file type, time, and the offset of embedded data.\<close>

definition udf_read_icb_ex ::
    "udf_context \<Rightarrow> 'm odfs_cache \<Rightarrow> u32 \<Rightarrow>
     ((odfs_err + u64 \<times> u32 \<times> u8 \<times> odfs_timestamp \<times> u32) \<times> 'm odfs_cache) option" where
  "udf_read_icb_ex ctx c icb_phys = do {
     (r, c) \<leftarrow> read_sector c icb_phys;
     case r of
       Inl err \<Rightarrow> Some (Inl err, c)
     | Inr sector \<Rightarrow> do {
         let block_size = block_size_of ctx;
         p \<leftarrow> udf_parse_icb sector block_size;
         case p of
           Inl err \<Rightarrow> Some (Inl err, c)
         | Inr icb \<Rightarrow> do {
             t \<leftarrow> udf_parse_timestamp sector (icb_time_off icb);
             case icb_ad_offset icb block_size of
               Inl err \<Rightarrow> Some (Inl err, c)
             | Inr ad_offset \<Rightarrow>
                 if icb_alloc_type icb = UDF_ICB_ALLOC_EMBEDDED
                 then Some (Inr (icb_data_size icb, icb_phys, icb_file_type icb, t, ad_offset), c)
                 else if icb_alloc_type icb = UDF_ICB_ALLOC_SHORT \<or> icb_alloc_type icb = UDF_ICB_ALLOC_LONG then do {
                   let ad_size = (if icb_alloc_type icb = UDF_ICB_ALLOC_SHORT then 8 else 16 :: u32);
                   if icb_ad_length icb < ad_size \<or> ad_offset > block_size - ad_size then Some (Inl ODFS_ERR_CORRUPT, c)
                   else do {
                     pos \<leftarrow> le32 sector (unat (ad_offset + 4));
                     Some (Inr (icb_data_size icb, udf_phys_lba ctx pos, icb_file_type icb, t, 0), c) } }
                 else Some (Inr (icb_data_size icb, 0, icb_file_type icb, t, 0), c) } } }"

definition udf_read_icb ::
    "udf_context \<Rightarrow> 'm odfs_cache \<Rightarrow> u32 \<Rightarrow> ((odfs_err + u64 \<times> u32 \<times> u8 \<times> odfs_timestamp) \<times> 'm odfs_cache) option" where
  "udf_read_icb ctx c icb_phys = do {
     (r, c) \<leftarrow> udf_read_icb_ex ctx c icb_phys;
     Some (case r of Inl err \<Rightarrow> Inl err | Inr (sz, l, ft, t, _) \<Rightarrow> Inr (sz, l, ft, t), c) }"

section \<open>Reading an object\<close>

text \<open>The loop over the allocation descriptors: the current run, the position in it, the file position of the
  current extent, the continuations followed so far, the output and how much of it is done.\<close>

record 'm obj_state =
  ob_run :: "u8 list"
  ob_p :: nat
  ob_pos :: u64
  ob_guard :: nat
  ob_buf :: "u8 list"
  ob_done :: nat
  ob_cache :: "'m odfs_cache"

type_synonym 'm obj_result = "odfs_err \<times> u8 list \<times> nat \<times> 'm odfs_cache"

text \<open>The next run of descriptors.\<close>

definition udf_continuation :: "udf_context \<Rightarrow> u32 \<Rightarrow> 'm obj_state \<Rightarrow> ('m obj_result + 'm obj_state) option" where
  "udf_continuation ctx elba st =
     (if ob_guard st + 1 > 4096 then Some (Inl (ODFS_ERR_CORRUPT, ob_buf st, 0, ob_cache st))
      else do {
        (r, c) \<leftarrow> read_sector (ob_cache st) (udf_phys_lba ctx elba);
        case r of
          Inl err \<Rightarrow> Some (Inl (err, ob_buf st, 0, c))
        | Inr aed \<Rightarrow> do {
            (ok, tag) \<leftarrow> udf_read_tag aed;
            if \<not> ok \<or> tag_id tag \<noteq> UDF_TAG_AED then Some (Inl (ODFS_ERR_CORRUPT, ob_buf st, 0, c))
            else do {
              alen \<leftarrow> le32 aed 20;
              if alen > 2048 \<or> 24 + alen > block_size_of ctx then Some (Inl (ODFS_ERR_CORRUPT, ob_buf st, 0, c))
              else do {
                run \<leftarrow> rdn aed 24 (unat alen);
                Some (Inr (st\<lparr>ob_run := run, ob_p := 0, ob_guard := ob_guard st + 1, ob_cache := c\<rparr>)) } } } })"

text \<open>The part of the file in one extent.\<close>

definition udf_extent_part ::
    "udf_context \<Rightarrow> u64 \<Rightarrow> nat \<Rightarrow> nat \<Rightarrow> u32 \<Rightarrow> u32 \<Rightarrow> u32 \<Rightarrow> 'm obj_state \<Rightarrow> ('m obj_result + 'm obj_state) option" where
  "udf_extent_part ctx file_offset want ad_size etype elen elba st =
     (let ext_end = ob_pos st + ucast elen;
          start_in_file = file_offset + of_nat (ob_done st);
          adv = (\<lambda>st. st\<lparr>ob_pos := ext_end, ob_p := ob_p st + ad_size\<rparr>) in
      if \<not> start_in_file < ext_end then Some (Inr (adv st))
      else
        let skip = (ucast (start_in_file - ob_pos st) :: u32);
            chunk = unat (ext_end - start_in_file);
            chunk = (if chunk > want - ob_done st then want - ob_done st else chunk) in
        if etype = UDF_EXT_RECORDED then do {
          (err, seg, n, c) \<leftarrow> odfs_cache_read_bytes (ob_cache st) (udf_phys_lba ctx elba) (ucast skip)
            (drop (ob_done st) (ob_buf st)) chunk;
          let buf = take (ob_done st) (ob_buf st) @ seg;
          if err \<noteq> ODFS_OK then Some (Inl (err, buf, ob_done st, c))
          else if n < chunk then Some (Inl (ODFS_OK, buf, ob_done st + n, c))
          else Some (Inr (adv (st\<lparr>ob_buf := buf, ob_done := ob_done st + n, ob_cache := c\<rparr>))) }
        else do {
          buf \<leftarrow> wrn (ob_buf st) (ob_done st) (zero_bytes chunk);
          Some (Inr (adv (st\<lparr>ob_buf := buf, ob_done := ob_done st + chunk\<rparr>))) })"

definition udf_object_body ::
    "udf_context \<Rightarrow> u64 \<Rightarrow> nat \<Rightarrow> nat \<Rightarrow> 'm obj_state \<Rightarrow> ('m obj_result + 'm obj_state) option" where
  "udf_object_body ctx file_offset want ad_size st =
     (if \<not> ob_done st < want \<or> ob_p st + ad_size > length (ob_run st)
      then Some (Inl (ODFS_OK, ob_buf st, ob_done st, ob_cache st))
      else do {
        len_field \<leftarrow> le32 (ob_run st) (ob_p st);
        let etype = drop_bit 30 len_field;
        let elen = len_field AND UDF_EXT_LENGTH_MASK;
        elba \<leftarrow> le32 (ob_run st) (ob_p st + 4);
        if etype = UDF_EXT_CONTINUATION then udf_continuation ctx elba st
        else if elen = 0 then Some (Inl (ODFS_OK, ob_buf st, ob_done st, ob_cache st))
        else udf_extent_part ctx file_offset want ad_size etype elen elba st })"

definition udf_read_object ::
    "udf_context \<Rightarrow> 'm odfs_cache \<Rightarrow> u32 \<Rightarrow> u64 \<Rightarrow> u8 list \<Rightarrow> nat \<Rightarrow> 'm obj_result option" where
  "udf_read_object ctx c icb_phys file_offset buf want = do {
     (r, c) \<leftarrow> read_sector c icb_phys;
     case r of
       Inl err \<Rightarrow> Some (err, buf, 0, c)
     | Inr sector \<Rightarrow> do {
         let block_size = block_size_of ctx;
         p \<leftarrow> udf_parse_icb sector block_size;
         case p of
           Inl err \<Rightarrow> Some (err, buf, 0, c)
         | Inr icb \<Rightarrow>
             if block_size > 2048 then Some (ODFS_ERR_UNSUPPORTED, buf, 0, c)
             else (case icb_ad_offset icb block_size of
               Inl err \<Rightarrow> Some (err, buf, 0, c)
             | Inr ad_offset \<Rightarrow>
                 if file_offset \<ge> icb_data_size icb then Some (ODFS_OK, buf, 0, c)
                 else do {
                   let left = unat (icb_data_size icb - file_offset);
                   let want = (if want > left then left else want);
                   if want = 0 then Some (ODFS_OK, buf, 0, c)
                   else if icb_alloc_type icb = UDF_ICB_ALLOC_EMBEDDED then
                     (if ucast ad_offset + icb_data_size icb > ucast block_size then Some (ODFS_ERR_CORRUPT, buf, 0, c)
                      else do {
                        src \<leftarrow> rdn sector (unat ad_offset + unat file_offset) want;
                        buf \<leftarrow> wrn buf 0 src;
                        Some (ODFS_OK, buf, want, c) })
                   else if icb_alloc_type icb \<noteq> UDF_ICB_ALLOC_SHORT \<and> icb_alloc_type icb \<noteq> UDF_ICB_ALLOC_LONG
                   then Some (ODFS_ERR_UNSUPPORTED, buf, 0, c)
                   else do {
                     run \<leftarrow> rdn sector (unat ad_offset) (unat (icb_ad_length icb));
                     iter (udf_object_body ctx file_offset want (if icb_alloc_type icb = UDF_ICB_ALLOC_SHORT then 8 else 16))
                       \<lparr>ob_run = run, ob_p = 0, ob_pos = 0, ob_guard = 0, ob_buf = buf, ob_done = 0, ob_cache = c\<rparr> } }) } }"

definition udf_read_exact ::
    "udf_context \<Rightarrow> 'm odfs_cache \<Rightarrow> u32 \<Rightarrow> u32 \<Rightarrow> nat \<Rightarrow> ((odfs_err + u8 list) \<times> 'm odfs_cache) option" where
  "udf_read_exact ctx c icb_phys offset len = do {
     (err, buf, got, c) \<leftarrow> udf_read_object ctx c icb_phys (ucast offset) (zero_bytes len) len;
     Some (if err \<noteq> ODFS_OK then Inl err else if got \<noteq> len then Inl ODFS_ERR_EOF else Inr buf, c) }"

definition udf_fill_node_from_icb ::
    "udf_context \<Rightarrow> 'm odfs_cache \<Rightarrow> u8 \<Rightarrow> u32 \<Rightarrow> odfs_node \<Rightarrow> ((odfs_err + odfs_node) \<times> 'm odfs_cache) option" where
  "udf_fill_node_from_icb ctx c fid_flags icb_lba node = do {
     let icb_phys = udf_phys_lba ctx icb_lba;
     (r, c) \<leftarrow> udf_read_icb ctx c icb_phys;
     Some (case r of
             Inl err \<Rightarrow> Inl err
           | Inr (fsize, data_lba, ftype, ts) \<Rightarrow>
               Inr (node\<lparr>size := fsize, mtime := ts, ctime := ts, extent := \<lparr>lba = icb_phys, extlen = ucast fsize\<rparr>,
                 kind := (if fid_flags AND UDF_FID_FLAG_DIRECTORY \<noteq> 0 then ODFS_NODE_DIR
                          else if ftype = UDF_ICB_FILETYPE_SYMLINK then ODFS_NODE_SYMLINK else ODFS_NODE_FILE)\<rparr>), c) }"

section \<open>Directories\<close>

record udf_fid_info =
  fi_header :: "u8 list"
  fi_start :: u32
  fi_next :: u32
  fi_length :: u32
  fi_icb_lba :: u32
  fi_impl_len :: u16
  fi_flags :: u8
  fi_name_len :: u8

type_synonym ('m, 's, 'e) walk_fn = "'e \<Rightarrow> 's \<Rightarrow> 'm odfs_cache \<Rightarrow> heap \<Rightarrow> (odfs_err \<times> 's \<times> 'm odfs_cache \<times> heap) option"
type_synonym ('m, 's) fid_state = "u32 \<times> 's \<times> 'm odfs_cache \<times> heap"

text \<open>The descriptor in a header read at an offset; \<open>None\<close> inside if it is none.\<close>

definition udf_fid_at :: "u8 list \<Rightarrow> u32 \<Rightarrow> udf_fid_info option option" where
  "udf_fid_at header offset = do {
     (ok, tag) \<leftarrow> udf_read_tag header;
     if \<not> ok \<or> tag_id tag \<noteq> UDF_TAG_FID then Some None
     else do {
       flags \<leftarrow> rd header 18;
       name_len \<leftarrow> rd header 19;
       icb \<leftarrow> le32 header (20 + 4);
       impl_len \<leftarrow> le16 header 36;
       let len = (38 + ucast impl_len + ucast name_len + 3) AND (NOT 3);
       Some (Some \<lparr>fi_header = header, fi_start = offset, fi_next = offset + len, fi_length = len, fi_icb_lba = icb,
         fi_impl_len = impl_len, fi_flags = flags, fi_name_len = name_len\<rparr>) } }"

definition udf_fid_body ::
    "udf_context \<Rightarrow> odfs_node \<Rightarrow> u32 \<Rightarrow> ('m, 's, udf_fid_info) walk_fn \<Rightarrow> ('m, 's) fid_state \<Rightarrow>
     ((odfs_err \<times> 's \<times> 'm odfs_cache \<times> heap) + ('m, 's) fid_state) option" where
  "udf_fid_body ctx dir dir_size cb st = (case st of (offset, s, c, h) \<Rightarrow>
     if \<not> offset < dir_size \<or> dir_size - offset < 38 then Some (Inl (ODFS_OK, s, c, h))
     else do {
       (r, c) \<leftarrow> udf_read_exact ctx c (lba (extent dir)) offset 38;
       case r of
         Inl err \<Rightarrow> Some (Inl (err, s, c, h))
       | Inr header \<Rightarrow> do {
           v \<leftarrow> udf_fid_at header offset;
           case v of
             None \<Rightarrow> Some (Inl (ODFS_OK, s, c, h))
           | Some fid \<Rightarrow>
               if fi_length fid < 38 \<or> fi_length fid > dir_size - offset then Some (Inl (ODFS_ERR_CORRUPT, s, c, h))
               else do {
                 (err, s, c, h) \<leftarrow> cb fid s c h;
                 Some (if err \<noteq> ODFS_OK then Inl (err, s, c, h) else Inr (fi_next fid, s, c, h)) } } })"

text \<open>The result holds the size of the directory, which is stored before the walk.\<close>

definition udf_walk_fids ::
    "udf_context \<Rightarrow> 'm odfs_cache \<Rightarrow> heap \<Rightarrow> odfs_node \<Rightarrow> ('m, 's, udf_fid_info) walk_fn \<Rightarrow> 's \<Rightarrow>
     (odfs_err \<times> u32 \<times> 's \<times> 'm odfs_cache \<times> heap) option" where
  "udf_walk_fids ctx c h dir cb s = do {
     (r, c) \<leftarrow> udf_read_icb ctx c (lba (extent dir));
     case r of
       Inl err \<Rightarrow> Some (err, 0, s, c, h)
     | Inr (dir_size, _) \<Rightarrow>
         if dir_size > 0xFFFFFFFF then Some (ODFS_ERR_CORRUPT, 0, s, c, h)
         else do {
           let dir_size32 = ucast dir_size;
           (err, s, c, h) \<leftarrow> iter (udf_fid_body ctx dir dir_size32 cb) (0, s, c, h);
           Some (err, dir_size32, s, c, h) } }"

record udf_dir_entry =
  de_node :: odfs_node
  de_start :: u32
  de_next :: u32
  de_icb_lba :: u32
  de_flags :: u8

text \<open>The context of the walk: the node counter of the volume, the names so far and the caller's context.\<close>

record 's udf_dir_walk =
  dw_next_id :: u32
  dw_namefix :: odfs_namefix_state
  dw_arg :: 's

text \<open>The bytes of the descriptor, read again in full when they are more than its header.\<close>

definition udf_fid_bytes ::
    "udf_context \<Rightarrow> odfs_node \<Rightarrow> udf_fid_info \<Rightarrow> 'm odfs_cache \<Rightarrow> heap \<Rightarrow> ((odfs_err + u8 list) \<times> 'm odfs_cache \<times> heap) option" where
  "udf_fid_bytes ctx dir fid c h =
     (if fi_length fid > 38 then
        (case odfs_malloc h of
           (False, h) \<Rightarrow> Some (Inl ODFS_ERR_NOMEM, c, h)
         | (True, h) \<Rightarrow> do {
             (r, c) \<leftarrow> udf_read_exact ctx c (lba (extent dir)) (fi_start fid) (unat (fi_length fid));
             Some (r, c, h) })
      else Some (Inr (fi_header fid), c, h))"

definition udf_decode_dir_entry ::
    "udf_context \<Rightarrow> odfs_node \<Rightarrow> ('m, 's, udf_dir_entry) walk_fn \<Rightarrow> ('m, 's udf_dir_walk, udf_fid_info) walk_fn" where
  "udf_decode_dir_entry ctx dir cb fid w c h = do {
     (r, c, h) \<leftarrow> udf_fid_bytes ctx dir fid c h;
     case r of
       Inl err \<Rightarrow> Some (err, w, c, h)
     | Inr data \<Rightarrow>
         if fi_flags fid AND (UDF_FID_FLAG_DELETED OR UDF_FID_FLAG_PARENT) \<noteq> 0 then Some (ODFS_OK, w, c, h)
         else do {
           let node = zero_node\<lparr>node_id := dw_next_id w, parent_id := node_id dir, backend := ODFS_BACKEND_UDF\<rparr>;
           let w = w\<lparr>dw_next_id := dw_next_id w + 1\<rparr>;
           let name_off = (38 + ucast (fi_impl_len fid) :: u32);
           if name_off > fi_length fid \<or> ucast (fi_name_len fid) > fi_length fid - name_off then Some (ODFS_ERR_CORRUPT, w, c, h)
           else do {
             raw \<leftarrow> rdn data (unat name_off) (unat (fi_name_len fid));
             (err, nm, names, h) \<leftarrow> odfs_namefix_apply (dw_namefix w) h (udf_decode_cs0 raw ODFS_NAME_MAX) ODFS_NAME_MAX;
             let w = w\<lparr>dw_namefix := names\<rparr>;
             if err \<noteq> ODFS_OK then Some (err, w, c, h)
             else do {
               (err, s, c, h) \<leftarrow> cb \<lparr>de_node = node\<lparr>name := nm\<rparr>, de_start = fi_start fid, de_next = fi_next fid,
                   de_icb_lba = fi_icb_lba fid, de_flags = fi_flags fid\<rparr> (dw_arg w) c h;
               Some (err, w\<lparr>dw_arg := s\<rparr>, c, h) } } } }"

definition udf_walk_dir_entries ::
    "udf_context \<Rightarrow> 'm odfs_cache \<Rightarrow> heap \<Rightarrow> odfs_node \<Rightarrow> ('m, 's, udf_dir_entry) walk_fn \<Rightarrow> 's \<Rightarrow>
     (odfs_err \<times> u32 \<times> 's \<times> udf_context \<times> 'm odfs_cache \<times> heap) option" where
  "udf_walk_dir_entries ctx c h dir cb s = do {
     (err, dir_size, w, c, h) \<leftarrow> udf_walk_fids ctx c h dir (udf_decode_dir_entry ctx dir cb)
       \<lparr>dw_next_id = udf_next_node_id ctx, dw_namefix = odfs_namefix_init, dw_arg = s\<rparr>;
     Some (err, dir_size, dw_arg w, ctx\<lparr>udf_next_node_id := dw_next_id w\<rparr>, c, h) }"

text \<open>The context of \<open>udf_readdir_entry\<close>: the resume offset and the caller's context.\<close>

definition udf_readdir_entry ::
    "udf_context \<Rightarrow> u32 \<Rightarrow> 's dir_iter_fn \<Rightarrow> ('m, u32 \<times> 's, udf_dir_entry) walk_fn" where
  "udf_readdir_entry ctx target cb entry rs c h = (case rs of (resume, s) \<Rightarrow>
     if de_start entry < target then Some (ODFS_OK, (resume, s), c, h)
     else do {
       (r, c) \<leftarrow> udf_fill_node_from_icb ctx c (de_flags entry) (de_icb_lba entry) (de_node entry);
       Some (case r of
               Inl _ \<Rightarrow> (ODFS_OK, (resume, s), c, h)
             | Inr node \<Rightarrow>
                 (case cb node s h of
                    (err, s, h) \<Rightarrow> (err, (if err \<noteq> ODFS_OK then de_next entry else resume, s), c, h))) })"

definition udf_readdir ::
    "udf_context \<Rightarrow> 'm odfs_cache \<Rightarrow> heap \<Rightarrow> odfs_node \<Rightarrow> 's dir_iter_fn \<Rightarrow> 's \<Rightarrow> u32 \<Rightarrow>
     ('m, udf_context, odfs_err \<times> u32 \<times> 's) be_result" where
  "udf_readdir ctx c h dir cb s resume = do {
     (err, dir_size, (resume, s), ctx', c, h) \<leftarrow> udf_walk_dir_entries ctx c h dir (udf_readdir_entry ctx resume cb) (resume, s);
     Some ((err, if err \<noteq> ODFS_OK then resume else dir_size, s), ctx', c, h) }"

section \<open>Reading, lookup, links\<close>

definition udf_read ::
    "udf_context \<Rightarrow> 'm odfs_cache \<Rightarrow> heap \<Rightarrow> odfs_node \<Rightarrow> u64 \<Rightarrow> u8 list \<Rightarrow> nat \<Rightarrow>
     ('m, udf_context, odfs_err \<times> u8 list \<times> nat) be_result" where
  "udf_read ctx c h file offset buf want = do {
     (err, buf, n, c) \<leftarrow> udf_read_object ctx c (lba (extent file)) offset buf want;
     Some ((err, buf, n), ctx, c, h) }"

definition udf_lookup_entry :: "udf_context \<Rightarrow> u8 list \<Rightarrow> ('m, odfs_node option, udf_dir_entry) walk_fn" where
  "udf_lookup_entry ctx nm entry found c h =
     (if odfs_strcasecmp (name (de_node entry)) nm \<noteq> 0 then Some (ODFS_OK, found, c, h)
      else do {
        (r, c) \<leftarrow> udf_fill_node_from_icb ctx c (de_flags entry) (de_icb_lba entry) (de_node entry);
        Some (case r of Inl _ \<Rightarrow> (ODFS_OK, found, c, h) | Inr node \<Rightarrow> (ODFS_ERR_EOF, Some node, c, h)) })"

definition udf_lookup ::
    "udf_context \<Rightarrow> 'm odfs_cache \<Rightarrow> heap \<Rightarrow> odfs_node \<Rightarrow> u8 list \<Rightarrow> ('m, udf_context, odfs_err + odfs_node) be_result" where
  "udf_lookup ctx c h dir nm = do {
     (err, _, found, ctx', c, h) \<leftarrow> udf_walk_dir_entries ctx c h dir (udf_lookup_entry ctx nm) None;
     Some (case found of
             Some node \<Rightarrow> Inr node
           | None \<Rightarrow> Inl (if err \<noteq> ODFS_OK then err else ODFS_ERR_NOT_FOUND), ctx', c, h) }"

definition append_component :: "nat \<Rightarrow> u8 list \<Rightarrow> u8 list \<Rightarrow> odfs_err + u8 list" where
  "append_component buf_size cmp out =
     (let slash = (out \<noteq> [] \<and> last out \<noteq> 0x2F) in
      if slash \<and> length out + 1 \<ge> buf_size then Inl ODFS_ERR_NAME_TOO_LONG
      else let out = (if slash then out @ [0x2F] else out) in
      if length out + length cmp \<ge> buf_size then Inl ODFS_ERR_NAME_TOO_LONG else Inr (out @ cmp))"

definition link_component :: "nat \<Rightarrow> u8 \<Rightarrow> u8 list \<Rightarrow> u8 list \<Rightarrow> odfs_err + u8 list" where
  "link_component buf_size ctype ident out =
     (if ctype = 1 \<or> ctype = 2 then (if 1 \<ge> buf_size then Inl ODFS_ERR_NAME_TOO_LONG else Inr [0x2F])
      else if ctype = 3 then append_component buf_size [0x2E, 0x2E] out
      else if ctype = 5 then
        (let cmp = udf_decode_cs0 ident 256 in if cmp = [] then Inr out else append_component buf_size cmp out)
      else Inr out)"

function link_components :: "nat \<Rightarrow> u8 list \<Rightarrow> u8 list \<Rightarrow> odfs_err + u8 list" where
  "link_components buf_size dat out =
     (if length dat < 4 then Inr out
      else let clen = unat (dat ! 1) in
      if 4 + clen > length dat then Inr out
      else (case link_component buf_size (dat ! 0) (take clen (drop 4 dat)) out of
              Inl err \<Rightarrow> Inl err
            | Inr out \<Rightarrow> link_components buf_size (drop (4 + clen) dat) out))"
  by pat_completeness auto
termination
  by (relation "measure (\<lambda>(n, dat, out). length dat)") auto

declare link_components.simps [simp del]

definition udf_readlink ::
    "udf_context \<Rightarrow> 'm odfs_cache \<Rightarrow> heap \<Rightarrow> odfs_node \<Rightarrow> u8 list \<Rightarrow> nat \<Rightarrow> ('m, udf_context, odfs_err + u8 list) be_result" where
  "udf_readlink ctx c h dir nm buf_size = do {
     (r, ctx, c, h) \<leftarrow> udf_lookup ctx c h dir nm;
     case r of
       Inl err \<Rightarrow> Some (Inl err, ctx, c, h)
     | Inr node \<Rightarrow>
         if kind node \<noteq> ODFS_NODE_SYMLINK \<or> size node = 0 \<or> size node > 512 then Some (Inl ODFS_ERR_UNSUPPORTED, ctx, c, h)
         else do {
           ((err, dat, len), ctx, c, h) \<leftarrow> udf_read ctx c h node 0 (zero_bytes 512) (unat (size node));
           let dat = take len dat;
           Some (if err \<noteq> ODFS_OK then Inl err
                 else if len > 0 \<and> dat ! 0 > 5 then
                   (if len \<ge> buf_size then Inl ODFS_ERR_NAME_TOO_LONG else Inr (cstr dat))
                 else (case link_components buf_size dat [] of
                         Inl err \<Rightarrow> Inl err
                       | Inr out \<Rightarrow> if out = [] then Inl ODFS_ERR_UNSUPPORTED else Inr out),
                 ctx, c, h) } }"

section \<open>Parents\<close>

definition udf_parent_fid :: "udf_context \<Rightarrow> ('m, u32 option, udf_fid_info) walk_fn" where
  "udf_parent_fid ctx fid found c h =
     Some (if fi_flags fid AND UDF_FID_FLAG_DELETED = 0 \<and> fi_flags fid AND UDF_FID_FLAG_PARENT \<noteq> 0
           then (ODFS_ERR_EOF, Some (udf_phys_lba ctx (fi_icb_lba fid)), c, h) else (ODFS_OK, found, c, h))"

definition udf_read_parent_icb ::
    "udf_context \<Rightarrow> 'm odfs_cache \<Rightarrow> heap \<Rightarrow> odfs_node \<Rightarrow> ((odfs_err + u32) \<times> 'm odfs_cache \<times> heap) option" where
  "udf_read_parent_icb ctx c h dir = do {
     (err, _, found, c, h) \<leftarrow> udf_walk_fids ctx c h dir (udf_parent_fid ctx) None;
     Some (case found of
             Some l \<Rightarrow> Inr l
           | None \<Rightarrow> Inl (if err \<noteq> ODFS_OK then err else ODFS_ERR_UNSUPPORTED), c, h) }"

definition udf_child_icb_entry :: "udf_context \<Rightarrow> u32 \<Rightarrow> ('m, odfs_node option, udf_dir_entry) walk_fn" where
  "udf_child_icb_entry ctx child_icb entry found c h =
     (if udf_phys_lba ctx (de_icb_lba entry) \<noteq> child_icb then Some (ODFS_OK, found, c, h)
      else do {
        (r, c) \<leftarrow> udf_fill_node_from_icb ctx c (de_flags entry) (de_icb_lba entry) (de_node entry);
        Some (case r of
                Inl _ \<Rightarrow> (ODFS_OK, found, c, h)
              | Inr node \<Rightarrow>
                  if kind node \<noteq> ODFS_NODE_DIR then (ODFS_OK, found, c, h) else (ODFS_ERR_EOF, Some node, c, h)) })"

definition udf_find_child_by_icb ::
    "udf_context \<Rightarrow> 'm odfs_cache \<Rightarrow> heap \<Rightarrow> odfs_node \<Rightarrow> u32 \<Rightarrow> ('m, udf_context, odfs_err + odfs_node) be_result" where
  "udf_find_child_by_icb ctx c h parent_dir child_icb = do {
     (err, _, found, ctx', c, h) \<leftarrow> udf_walk_dir_entries ctx c h parent_dir (udf_child_icb_entry ctx child_icb) None;
     Some (case found of
             Some node \<Rightarrow> Inr node
           | None \<Rightarrow> Inl (if err \<noteq> ODFS_OK then err else ODFS_ERR_NOT_FOUND), ctx', c, h) }"

definition udf_dir_stub :: "u32 \<Rightarrow> odfs_node" where
  "udf_dir_stub icb = zero_node\<lparr>backend := ODFS_BACKEND_UDF, kind := ODFS_NODE_DIR, extent := \<lparr>lba = icb, extlen = 0\<rparr>\<rparr>"

definition udf_dir_at :: "udf_context \<Rightarrow> u32 \<Rightarrow> odfs_node" where
  "udf_dir_at ctx icb = (if icb = lba (extent (udf_root ctx)) then udf_root ctx else udf_dir_stub icb)"

definition udf_resolve_grandparent ::
    "udf_context \<Rightarrow> 'm odfs_cache \<Rightarrow> heap \<Rightarrow> u32 \<Rightarrow> ('m, udf_context, odfs_err + odfs_node) be_result" where
  "udf_resolve_grandparent ctx c h gp_icb =
     (if gp_icb = lba (extent (udf_root ctx)) then Some (Inr (udf_root ctx), ctx, c, h)
      else do {
        (r, c, h) \<leftarrow> udf_read_parent_icb ctx c h (udf_dir_stub gp_icb);
        case r of
          Inl err \<Rightarrow> Some (Inl err, ctx, c, h)
        | Inr ggp_icb \<Rightarrow> udf_find_child_by_icb ctx c h (udf_dir_at ctx ggp_icb) gp_icb })"

definition udf_resolve_parent ::
    "udf_context \<Rightarrow> 'm odfs_cache \<Rightarrow> heap \<Rightarrow> odfs_node \<Rightarrow> bool \<Rightarrow>
     ('m, udf_context, odfs_err + odfs_node \<times> odfs_node option) be_result" where
  "udf_resolve_parent ctx c h dir want_gp =
     (if kind dir \<noteq> ODFS_NODE_DIR then Some (Inl ODFS_ERR_NOT_DIR, ctx, c, h)
      else if lba (extent dir) = lba (extent (udf_root ctx)) then Some (Inl ODFS_ERR_NOT_FOUND, ctx, c, h)
      else do {
        (r, c, h) \<leftarrow> udf_read_parent_icb ctx c h dir;
        case r of
          Inl err \<Rightarrow> Some (Inl err, ctx, c, h)
        | Inr parent_icb \<Rightarrow>
            if parent_icb = lba (extent dir) then Some (Inl ODFS_ERR_NOT_FOUND, ctx, c, h)
            else if parent_icb = lba (extent (udf_root ctx))
            then Some (Inr (udf_root ctx, if want_gp then Some (udf_root ctx) else None), ctx, c, h)
            else do {
              (r, c, h) \<leftarrow> udf_read_parent_icb ctx c h (udf_dir_stub parent_icb);
              case r of
                Inl err \<Rightarrow> Some (Inl err, ctx, c, h)
              | Inr gp_icb \<Rightarrow> do {
                  (r, ctx, c, h) \<leftarrow> udf_find_child_by_icb ctx c h (udf_dir_at ctx gp_icb) parent_icb;
                  case r of
                    Inl err \<Rightarrow> Some (Inl err, ctx, c, h)
                  | Inr parent \<Rightarrow>
                      if \<not> want_gp then Some (Inr (parent, None), ctx, c, h)
                      else do {
                        (r, ctx, c, h) \<leftarrow> udf_resolve_grandparent ctx c h gp_icb;
                        case r of
                          Inl err \<Rightarrow> Some (Inl err, ctx, c, h)
                        | Inr gp \<Rightarrow> Some (Inr (parent, Some gp), ctx, c, h) } } } })"

section \<open>The volume\<close>

text \<open>Without a buffer the length wraps and the copy runs off; that is \<open>None\<close> here.\<close>

definition udf_get_volume_name :: "udf_context \<Rightarrow> nat \<Rightarrow> u8 list option" where
  "udf_get_volume_name ctx buf_size =
     (if buf_size = 0 then None
      else Some (take (if length (volume_id ctx) \<ge> buf_size then buf_size - 1 else length (volume_id ctx)) (volume_id ctx)))"

definition udf_get_volume_size :: "udf_context \<Rightarrow> u32" where
  "udf_get_volume_size ctx =
     (let bytes = (ucast (part_length ctx) * ucast (block_size_of ctx) :: u64);
          blocks = (bytes + 2047) div 2048
      in if blocks > 0xFFFFFFFF then 0xFFFFFFFF else ucast blocks)"

definition udf_backend_ops :: "('m, udf_context, 's) odfs_backend_ops" where
  "udf_backend_ops =
     \<lparr>be_name = ''udf'', be_type = ODFS_BACKEND_UDF, be_flags = 0, be_probe = udf_probe, be_mount = udf_mount,
      be_readdir = udf_readdir, be_read = udf_read, be_lookup = udf_lookup, be_readlink = Some udf_readlink,
      be_resolve_parent = Some udf_resolve_parent, be_get_volume_name = Some udf_get_volume_name,
      be_get_volume_size = Some udf_get_volume_size\<rparr>"

end
