(* ===== verification/Udf_Facts.thy ===== *)
theory Udf_Facts
  imports Udf Iso_Props
begin

text \<open>
  What an object of a UDF volume contains, as a function of the sectors of the disc, and that
  \<open>udf_read_object\<close> reads it through the cache.
\<close>

section \<open>The contents of an object\<close>

text \<open>The descriptors of an allocation extent, if it is one.\<close>

definition aed_run :: "udf_context \<Rightarrow> u8 list \<Rightarrow> u8 list option" where
  "aed_run ctx aed = do {
     (ok, tag) \<leftarrow> udf_read_tag aed;
     alen \<leftarrow> le32 aed 20;
     if \<not> ok \<or> tag_id tag \<noteq> UDF_TAG_AED \<or> alen > 2048 \<or> 24 + alen > block_size_of ctx then None
     else Some (take (unat alen) (drop 24 aed)) }"

text \<open>The extents a run of descriptors of \<open>ad\<close> bytes each leads to (type, length, block), after \<open>k\<close>
  continuations; \<open>False\<close> if a continuation is not usable.\<close>

function udf_extents ::
    "(u32 \<Rightarrow> u8 list) \<Rightarrow> udf_context \<Rightarrow> nat \<Rightarrow> nat \<Rightarrow> u8 list \<Rightarrow> (u32 \<times> u32 \<times> u32) list \<times> bool" where
  "udf_extents disc ctx ad k run =
     (if ad < 8 \<or> length run < ad then ([], True)
      else
        let len_field = the (le32 run 0); elba = the (le32 run 4);
            etype = drop_bit 30 len_field; elen = len_field AND UDF_EXT_LENGTH_MASK in
        if etype = UDF_EXT_CONTINUATION then
          (if k \<ge> 4096 then ([], False)
           else case aed_run ctx (disc (udf_phys_lba ctx elba)) of
                  None \<Rightarrow> ([], False)
                | Some run' \<Rightarrow> udf_extents disc ctx ad (k + 1) run')
        else if elen = 0 then ([], True)
        else (case udf_extents disc ctx ad k (drop ad run) of (es, whole) \<Rightarrow> ((etype, elen, elba) # es, whole)))"
  by pat_completeness auto
termination
  by (relation "measures [\<lambda>(disc, ctx, ad, k, run). 4096 - k, \<lambda>(disc, ctx, ad, k, run). length run]") auto

declare udf_extents.simps [simp del]

definition ext_bytes :: "(u32 \<Rightarrow> u8 list) \<Rightarrow> udf_context \<Rightarrow> u32 \<times> u32 \<times> u32 \<Rightarrow> u8 list" where
  "ext_bytes disc ctx e = (case e of (etype, elen, elba) \<Rightarrow>
     if etype = UDF_EXT_RECORDED then disc_range disc 2048 (udf_phys_lba ctx elba) 0 (unat elen) else zero_bytes (unat elen))"

definition ext_content :: "(u32 \<Rightarrow> u8 list) \<Rightarrow> udf_context \<Rightarrow> (u32 \<times> u32 \<times> u32) list \<Rightarrow> u8 list" where
  "ext_content disc ctx es = concat (map (ext_bytes disc ctx) es)"

text \<open>The object whose file entry is in sector \<open>icb\<close>: its size, and the bytes its descriptors lead to with
  whether the descriptors are whole; errors where the code has them.\<close>

definition icb_body :: "(u32 \<Rightarrow> u8 list) \<Rightarrow> udf_context \<Rightarrow> u8 list \<Rightarrow> udf_icb \<Rightarrow> u32 \<Rightarrow> odfs_err + (u8 list \<times> bool)" where
  "icb_body disc ctx sector icb ad_offset =
     (if icb_alloc_type icb = UDF_ICB_ALLOC_EMBEDDED then
        (if unat ad_offset + unat (icb_data_size icb) > unat (block_size_of ctx) then Inl ODFS_ERR_CORRUPT
         else Inr (take (unat (icb_data_size icb)) (drop (unat ad_offset) sector), True))
      else if icb_alloc_type icb \<noteq> UDF_ICB_ALLOC_SHORT \<and> icb_alloc_type icb \<noteq> UDF_ICB_ALLOC_LONG then Inl ODFS_ERR_UNSUPPORTED
      else case udf_extents disc ctx (if icb_alloc_type icb = UDF_ICB_ALLOC_SHORT then 8 else 16) 0
                  (take (unat (icb_ad_length icb)) (drop (unat ad_offset) sector)) of
             (es, whole) \<Rightarrow> Inr (ext_content disc ctx es, whole))"

definition udf_object :: "(u32 \<Rightarrow> u8 list) \<Rightarrow> udf_context \<Rightarrow> u32 \<Rightarrow> odfs_err + (u64 \<times> (odfs_err + (u8 list \<times> bool)))" where
  "udf_object disc ctx icb_phys =
     (case the (udf_parse_icb (disc icb_phys) (block_size_of ctx)) of
        Inl err \<Rightarrow> Inl err
      | Inr icb \<Rightarrow>
          if block_size_of ctx > 2048 then Inl ODFS_ERR_UNSUPPORTED
          else (case icb_ad_offset icb (block_size_of ctx) of
                  Inl err \<Rightarrow> Inl err
                | Inr ad_offset \<Rightarrow> Inr (icb_data_size icb, icb_body disc ctx (disc icb_phys) icb ad_offset)))"

text \<open>The result of reading \<open>w\<close> bytes at \<open>off\<close> from the bytes the descriptors lead to: what there is of them, unless
  the descriptors break off before the last one wanted.\<close>

definition data_read :: "odfs_err + (u8 list \<times> bool) \<Rightarrow> nat \<Rightarrow> nat \<Rightarrow> u8 list \<Rightarrow> odfs_err \<times> u8 list \<times> nat \<Rightarrow> bool" where
  "data_read body off w buf0 res \<longleftrightarrow> (case res of (err, buf, n) \<Rightarrow> (case body of
     Inl e \<Rightarrow> err = e \<and> n = 0
   | Inr (C, whole) \<Rightarrow>
       if length C - off < w \<and> \<not> whole then err = ODFS_ERR_CORRUPT
       else err = ODFS_OK \<and> n = min w (length C - off) \<and> buf = take n (drop off C) @ drop n buf0))"

definition object_read ::
    "odfs_err + (u64 \<times> (odfs_err + (u8 list \<times> bool))) \<Rightarrow> nat \<Rightarrow> nat \<Rightarrow> u8 list \<Rightarrow> odfs_err \<times> u8 list \<times> nat \<Rightarrow> bool" where
  "object_read obj off want buf0 res \<longleftrightarrow> (case obj of
     Inl e \<Rightarrow> fst res = e \<and> snd (snd res) = 0
   | Inr (sz, body) \<Rightarrow>
       let w = min want (unat sz - off) in
       (if w = 0 then res = (ODFS_OK, buf0, 0) else data_read body off w buf0 res))"

section \<open>Lists and fields\<close>

lemma le32_drop: "p \<le> length run \<Longrightarrow> le32 (drop p run) i = le32 run (p + i)"
  by (auto simp: le32_def rd_def add.assoc)

lemma disc_range_slice:
  assumes "skip + n \<le> len"
  shows "take n (drop skip (disc_range disc ss l 0 len)) = disc_range disc ss l skip n"
  by (rule nth_equalityI) (use assms in \<open>simp_all add: disc_range_def\<close>)

lemma length_ext_bytes [simp]: "length (ext_bytes disc ctx (etype, elen, elba)) = unat elen"
  by (simp add: ext_bytes_def)

lemma ext_content_simps [simp]:
  "ext_content disc ctx [] = []" "ext_content disc ctx (e # es) = ext_bytes disc ctx e @ ext_content disc ctx es"
  "ext_content disc ctx (es @ es') = ext_content disc ctx es @ ext_content disc ctx es'"
  by (simp_all add: ext_content_def)

text \<open>A buffer that holds the first \<open>d\<close> bytes from \<open>off\<close> on, and the next \<open>n\<close> of them stored behind.\<close>

lemma fill_step:
  assumes "buf = take d (drop off C) @ drop d buf0" "d \<le> length C - off" "d + n \<le> length buf0" "off + d + n \<le> length C"
    "src = take n (drop (off + d) C)"
  shows "take d buf @ src @ drop (d + n) buf = take (d + n) (drop off C) @ drop (d + n) buf0"
proof -
  have "length (take d (drop off C)) = d" using assms(2,4) by simp
  then have "take d buf = take d (drop off C)" "drop (d + n) buf = drop (d + n) buf0"
    unfolding assms(1) by (simp_all add: add.commute)
  moreover have "take d (drop off C) @ take n (drop (off + d) C) = take (d + n) (drop off C)"
    by (simp add: take_add add.commute)
  ultimately show ?thesis by (simp add: assms(5) flip: append_assoc)
qed

lemma unat_elen: "unat (len_field AND UDF_EXT_LENGTH_MASK) < 2 ^ 30"
proof -
  have "len_field AND UDF_EXT_LENGTH_MASK = take_bit 30 len_field"
    by (simp add: UDF_EXT_LENGTH_MASK_def take_bit_eq_mask mask_numeral)
  then have "unat (len_field AND UDF_EXT_LENGTH_MASK) = take_bit 30 (unat len_field)" by (simp add: unsigned_take_bit_eq)
  then show ?thesis by (simp only: take_bit_nat_less_exp)
qed

lemma read_tag_some: "16 \<le> length d \<Longrightarrow> \<exists>ok tag. udf_read_tag d = Some (ok, tag)"
  using le16_in[of 0 d] le16_in[of 2 d] le16_in[of 6 d] le16_in[of 8 d] le16_in[of 10 d] le32_in[of 12 d]
  by (auto simp: udf_read_tag_def Let_def)


lemma parse_icb_some: "length d = 2048 \<Longrightarrow> \<exists>r. udf_parse_icb d bs = Some r"
  using read_tag_some[of d] le16_in[of 34 d] le32_in[of 56 d] le32_in[of 60 d] le32_in[of 168 d] le32_in[of 208 d]
    le32_in[of 172 d] le32_in[of 212 d]
  by (auto simp: udf_parse_icb_def udf_le64_def Let_def)

text \<open>The descriptors of a file entry lie inside its block.\<close>

lemma ad_offset_in:
  assumes "udf_parse_icb d bs = Some (Inr icb)" "icb_ad_offset icb bs = Inr ad_offset"
  shows "unat ad_offset + unat (icb_ad_length icb) \<le> unat bs"
proof -
  have "icb_ad_base icb \<le> bs" using assms(1) by (auto simp: udf_parse_icb_def Let_def bind_eq_Some_conv split: prod.splits if_splits)
  then have b: "unat (icb_ad_base icb) \<le> unat bs" by (simp add: word_le_nat_alt)
  have ea: "unat (icb_ea_len icb) \<le> unat bs - unat (icb_ad_base icb)" and ao: "ad_offset = icb_ad_base icb + icb_ea_len icb"
    and l: "icb_ad_length icb \<le> bs - ad_offset"
    using assms(2) b by (auto simp: icb_ad_offset_def Let_def word_le_nat_alt word_less_nat_alt unat_sub split: if_splits)
  have "unat ad_offset = unat (icb_ad_base icb) + unat (icb_ea_len icb)"
    unfolding ao using ea b unat_u32_lt[of bs] by (simp add: unat_u32_add)
  with l ea b show ?thesis by (simp add: word_le_nat_alt unat_sub)
qed

lemma embedded_check:
  assumes "unat (ad :: u32) + unat (sz :: u64) < 2 ^ 64"
  shows "(ucast ad + sz > ucast (bs :: u32)) = (unat ad + unat sz > unat bs)"
  using assms by (simp add: word_less_nat_alt unat_u64_add unat_ucast_u32_u64)

section \<open>The loop over the extents\<close>

context iso_media
begin

lemma ss_2048: "ss = 2048"
  using sector by (simp add: ISO_SECTOR_def)

lemma read_sector_ok:
  assumes "good_cache c xs"
  obtains (err) e c' where "read_sector c l = Some (Inl e, c')" "fails l 1 e" "good_cache c' xs"
  | (ok) c' xs' where "read_sector c l = Some (Inr (disc l), c')" "good_cache c' xs'"
  using assms
proof (cases rule: cache_read_ok[of c xs l])
  case (err e c')
  then show thesis by (intro that(1)) (auto simp: read_sector_def)
next
  case (ok idx c' xs')
  then show thesis by (intro that(2)) (auto simp: read_sector_def)
qed

text \<open>An error of the medium, or of a sector number that does not exist.\<close>

definition io_error :: "odfs_err \<Rightarrow> bool" where
  "io_error e \<longleftrightarrow> e = ODFS_ERR_RANGE \<or> (\<exists>l n. fails l n e)"

lemma io_error_err: "io_error e \<Longrightarrow> e \<noteq> ODFS_OK"
  by (auto simp: io_error_def dest: fails_err)

lemma read_range_ok:
  assumes g: "good_cache c xs" and w: "want \<le> length buf"
  shows "\<exists>err buf' n c' xs'. odfs_cache_read_bytes c start offset buf want = Some (err, buf', n, c') \<and> good_cache c' xs' \<and>
    (io_error err \<or> err = ODFS_OK \<and> n = want \<and> buf' = disc_range disc 2048 start (unat offset) want @ drop want buf)"
proof -
  from read_bytes_ok[OF g w] obtain err buf' n c' where
    r: "odfs_cache_read_bytes c start offset buf want = Some (err, buf', n, c')"
    "if 0 < want \<and> 2 ^ 32 \<le> unat start + unat offset div ss then err = ODFS_ERR_RANGE \<and> buf' = buf \<and> n = want \<and> c' = c
     else bytes_ok start (unat offset) want buf (err, buf', n, c')"
    using ss_2048 by (metis numeral_le_iff semiring_norm(68) semiring_norm(71))
  show ?thesis
  proof (cases "0 < want \<and> 2 ^ 32 \<le> unat start + unat offset div ss")
    case True
    with r g show ?thesis by (auto simp: io_error_def)
  next
    case False
    with r have b: "filled disc ss start (unat offset) n buf'" "length buf' = length buf" "drop want buf' = drop want buf"
      "stopped start (unat offset) want n err" and g': "\<exists>xs'. good_cache c' xs'" by (auto simp: bytes_ok_def)
    have "io_error err \<or> err = ODFS_OK \<and> n = want"
      using b(4) by (auto simp: stopped_def io_error_def split: if_splits)
    moreover have "buf' = disc_range disc 2048 start (unat offset) n @ drop n buf'"
      using b(1) ss_2048 by (metis append_take_drop_id filled_def)
    ultimately show ?thesis using r(1) g' b(3) by metis
  qed
qed

text \<open>Between two descriptors: the extents \<open>es1\<close> lie behind, \<open>es2\<close> are to come.\<close>

definition obj_inv ::
    "udf_context \<Rightarrow> nat \<Rightarrow> nat \<Rightarrow> nat \<Rightarrow> u8 list \<Rightarrow> (u32 \<times> u32 \<times> u32) list \<Rightarrow> bool \<Rightarrow> 'a obj_state \<Rightarrow> bool" where
  "obj_inv ctx ad off want buf0 es whole st \<longleftrightarrow> (\<exists>es1 es2 xs. es = es1 @ es2 \<and>
     udf_extents disc ctx ad (ob_guard st) (drop (ob_p st) (ob_run st)) = (es2, whole) \<and>
     unat (ob_pos st) = length (ext_content disc ctx es1) \<and> ob_done st = min want (unat (ob_pos st) - off) \<and>
     ob_buf st = take (ob_done st) (drop off (ext_content disc ctx es)) @ drop (ob_done st) buf0 \<and>
     unat (ob_pos st) \<le> (ob_guard st * 2048 + ob_p st) * 2 ^ 30 \<and> ob_guard st \<le> 4096 \<and>
     length (ob_run st) \<le> 2048 \<and> ob_p st \<le> length (ob_run st) \<and> good_cache (ob_cache st) xs)"

definition obj_res :: "nat \<Rightarrow> nat \<Rightarrow> u8 list \<Rightarrow> u8 list \<Rightarrow> bool \<Rightarrow> 'a obj_result \<Rightarrow> bool" where
  "obj_res off want buf0 C whole res \<longleftrightarrow> (case res of (err, buf, n, c) \<Rightarrow> (\<exists>xs. good_cache c xs) \<and>
     (io_error err \<or> err = ODFS_ERR_CORRUPT \<and> \<not> whole \<and> length C - off < want \<or>
      err = ODFS_OK \<and> n = min want (length C - off) \<and> (n < want \<longrightarrow> whole) \<and> buf = take n (drop off C) @ drop n buf0))"

text \<open>The loop has enough, or there is nothing more.\<close>

lemma obj_finish:
  assumes inv: "obj_inv ctx ad off want buf0 es whole st"
    and e: "ob_done st = want \<or> udf_extents disc ctx ad (ob_guard st) (drop (ob_p st) (ob_run st)) = ([], True)"
  shows "obj_res off want buf0 (ext_content disc ctx es) whole (ODFS_OK, ob_buf st, ob_done st, ob_cache st)"
proof -
  from inv obtain es1 es2 xs where i: "es = es1 @ es2"
    "udf_extents disc ctx ad (ob_guard st) (drop (ob_p st) (ob_run st)) = (es2, whole)"
    "unat (ob_pos st) = length (ext_content disc ctx es1)" "ob_done st = min want (unat (ob_pos st) - off)"
    "ob_buf st = take (ob_done st) (drop off (ext_content disc ctx es)) @ drop (ob_done st) buf0" "good_cache (ob_cache st) xs"
    by (auto simp: obj_inv_def)
  have "ob_done st = min want (length (ext_content disc ctx es) - off)" "ob_done st < want \<longrightarrow> whole"
    using e i(1-4) by auto
  with i(5,6) show ?thesis by (auto simp: obj_res_def)
qed

lemma continuation_ok:
  assumes inv: "obj_inv ctx ad off want buf0 es whole st" and d: "ob_done st < want" and bs: "block_size_of ctx \<le> 2048"
    and ex: "udf_extents disc ctx ad (ob_guard st) (drop (ob_p st) (ob_run st)) =
      (if ob_guard st \<ge> 4096 then ([], False)
       else case aed_run ctx (disc (udf_phys_lba ctx elba)) of
              None \<Rightarrow> ([], False) | Some run' \<Rightarrow> udf_extents disc ctx ad (ob_guard st + 1) run')"
  shows "\<exists>r. udf_continuation ctx elba st = Some r \<and> (case r of
      Inl res \<Rightarrow> obj_res off want buf0 (ext_content disc ctx es) whole res
    | Inr st' \<Rightarrow> obj_inv ctx ad off want buf0 es whole st' \<and> ob_guard st < ob_guard st' \<and> ob_guard st' \<le> 4096)"
proof -
  from inv obtain es1 es2 xs where i: "es = es1 @ es2"
    "udf_extents disc ctx ad (ob_guard st) (drop (ob_p st) (ob_run st)) = (es2, whole)"
    "unat (ob_pos st) = length (ext_content disc ctx es1)" "ob_done st = min want (unat (ob_pos st) - off)"
    "ob_buf st = take (ob_done st) (drop off (ext_content disc ctx es)) @ drop (ob_done st) buf0"
    "unat (ob_pos st) \<le> (ob_guard st * 2048 + ob_p st) * 2 ^ 30" "ob_guard st \<le> 4096"
    "length (ob_run st) \<le> 2048" "ob_p st \<le> length (ob_run st)" and g: "good_cache (ob_cache st) xs"
    by (auto simp: obj_inv_def)
  have broken: "obj_res off want buf0 (ext_content disc ctx es) whole (ODFS_ERR_CORRUPT, ob_buf st, 0, c)"
    if "(es2, whole) = ([], False)" "good_cache c xs'" for c xs'
    using that i(1,3,4) d by (auto simp: obj_res_def)
  show ?thesis
  proof (cases "ob_guard st \<ge> 4096")
    case True
    with broken[OF _ g] ex i(2) show ?thesis by (simp add: udf_continuation_def)
  next
    case k: False
    let ?d = "disc (udf_phys_lba ctx elba)"
    obtain ok tag alen where t: "udf_read_tag ?d = Some (ok, tag)" "le32 ?d 20 = Some alen"
      using read_tag_some[of ?d] le32_in[of 20 ?d] by auto
    show ?thesis
      using g
    proof (cases rule: read_sector_ok[of "ob_cache st" xs "udf_phys_lba ctx elba"])
      case (err e c')
      with k show ?thesis by (auto simp: udf_continuation_def obj_res_def io_error_def)
    next
      case (ok c' xs')
      show ?thesis
      proof (cases "aed_run ctx ?d")
        case None
        with broken[OF _ ok(2)] ex i(2) k t ok(1) show ?thesis
          by (auto simp: udf_continuation_def aed_run_def rdn_in split: if_splits)
      next
        case (Some run')
        let ?st = "st\<lparr>ob_run := run', ob_p := 0, ob_guard := ob_guard st + 1, ob_cache := c'\<rparr>"
        have a: "alen \<le> 2048" "24 + alen \<le> block_size_of ctx" using Some t by (auto simp: aed_run_def split: if_splits)
        have "unat (24 + alen) = 24 + unat alen" using a(1) by (simp add: unat_u32_add word_le_nat_alt)
        then have len: "24 + unat alen \<le> 2048" using a(2) bs by (simp add: word_le_nat_alt)
        have "udf_continuation ctx elba st = Some (Inr ?st)"
          using Some ok(1) k t len by (auto simp: udf_continuation_def aed_run_def rdn_in split: if_splits)
        moreover have "unat (ob_pos st) \<le> (Suc (ob_guard st) * 2048) * 2 ^ 30"
          by (rule le_trans[OF i(6)]) (use i(8,9) in simp)
        moreover have "length run' \<le> 2048" using Some t by (auto simp: aed_run_def split: if_splits)
        moreover have "udf_extents disc ctx ad (ob_guard st + 1) run' = (es2, whole)" using ex i(2) k Some by simp
        ultimately show ?thesis using i(1,3-5) k ok(2) by (auto simp: obj_inv_def)
      qed
    qed
  qed
qed

lemma extent_part_ok:
  assumes inv: "obj_inv ctx ad (unat offset) want buf0 es whole st" and d: "ob_done st < want"
    and w: "want \<le> length buf0" "unat offset + want < 2 ^ 64" and elen: "unat elen < 2 ^ 30"
    and ad: "8 \<le> ad" "ob_p st + ad \<le> length (ob_run st)"
    and ex: "udf_extents disc ctx ad (ob_guard st) (drop (ob_p st) (ob_run st)) =
      (case udf_extents disc ctx ad (ob_guard st) (drop (ob_p st + ad) (ob_run st)) of (es, whole) \<Rightarrow> ((etype, elen, elba) # es, whole))"
  shows "\<exists>r. udf_extent_part ctx offset want ad etype elen elba st = Some r \<and> (case r of
      Inl res \<Rightarrow> obj_res (unat offset) want buf0 (ext_content disc ctx es) whole res
    | Inr st' \<Rightarrow> obj_inv ctx ad (unat offset) want buf0 es whole st' \<and> ob_guard st' = ob_guard st \<and>
        ob_run st' = ob_run st \<and> ob_p st' = ob_p st + ad)"
proof -
  let ?e = "(etype, elen, elba)" and ?off = "unat offset"
  from inv obtain es1 es2 xs where i: "es = es1 @ ?e # es2"
    "udf_extents disc ctx ad (ob_guard st) (drop (ob_p st + ad) (ob_run st)) = (es2, whole)"
    "unat (ob_pos st) = length (ext_content disc ctx es1)" "ob_done st = min want (unat (ob_pos st) - ?off)"
    "ob_buf st = take (ob_done st) (drop ?off (ext_content disc ctx es)) @ drop (ob_done st) buf0"
    "unat (ob_pos st) \<le> (ob_guard st * 2048 + ob_p st) * 2 ^ 30" "ob_guard st \<le> 4096"
    "length (ob_run st) \<le> 2048" "ob_p st \<le> length (ob_run st)" and g: "good_cache (ob_cache st) xs"
    unfolding obj_inv_def ex by (auto split: prod.splits)
  define pos dn where "pos = unat (ob_pos st)" and "dn = ob_done st"
  define C where "C = ext_content disc ctx es"
  have "(ob_guard st * 2048 + ob_p st) * 2 ^ 30 \<le> (4096 * 2048 + 2048) * 2 ^ 30" using i(7-9) by simp
  then have pos62: "pos < 2 ^ 62" using i(6) by (simp add: pos_def)
  define start where "start = ?off + dn"
  have start: "start = max ?off pos" using d i(4) by (auto simp: start_def dn_def pos_def)
  have ue: "unat (ob_pos st + ucast elen) = pos + unat elen"
    using pos62 elen by (simp add: unat_u64_add unat_ucast_u32_u64 pos_def)
  have us: "unat (offset + of_nat dn) = start"
    using w(2) d by (simp add: unat_u64_add unat_u64_of_nat start_def dn_def)
  have lenC: "length C = pos + unat elen + length (ext_content disc ctx es2)" by (simp add: C_def i(1) i(3) pos_def)
  have bytes: "take n (drop start C) = take n (drop (start - pos) (ext_bytes disc ctx ?e))" if "start + n \<le> pos + unat elen" for n
    using that start by (simp add: C_def i(1) i(3)[folded pos_def, symmetric])
  have next_inv: "obj_inv ctx ad ?off want buf0 es whole
      (st\<lparr>ob_buf := b, ob_done := n, ob_cache := c', ob_pos := ob_pos st + ucast elen, ob_p := ob_p st + ad\<rparr>)"
    if "n = min want (pos + unat elen - ?off)" "b = take n (drop ?off C) @ drop n buf0" "good_cache c' xs'" for n b c' xs'
  proof -
    have "(ob_guard st * 2048 + ob_p st) * 2 ^ 30 + unat elen \<le> (ob_guard st * 2048 + (ob_p st + ad)) * 2 ^ 30"
      using elen ad(1) by simp
    then have "pos + unat elen \<le> (ob_guard st * 2048 + (ob_p st + ad)) * 2 ^ 30" using i(6) unfolding pos_def by linarith
    with that i(1,2,7,8) ad(2) ue show ?thesis unfolding obj_inv_def
      by (intro exI[of _ "es1 @ [?e]"] exI[of _ es2] exI[of _ xs']) (simp add: C_def i(3) pos_def)
  qed
  show ?thesis
  proof (cases "start < pos + unat elen")
    case False
    have eq: "st\<lparr>ob_buf := ob_buf st, ob_done := ob_done st, ob_cache := ob_cache st, ob_pos := ob_pos st + ucast elen,
        ob_p := ob_p st + ad\<rparr> = st\<lparr>ob_pos := ob_pos st + ucast elen, ob_p := ob_p st + ad\<rparr>" by simp
    have "ob_done st = min want (pos + unat elen - ?off)" using False start d i(4) by (auto simp: start_def dn_def pos_def)
    from next_inv[OF this i(5)[folded C_def] g, unfolded eq]
    have "obj_inv ctx ad ?off want buf0 es whole (st\<lparr>ob_pos := ob_pos st + ucast elen, ob_p := ob_p st + ad\<rparr>)" .
    moreover have "\<not> offset + of_nat (ob_done st) < ob_pos st + ucast elen"
      using False us ue by (simp add: word_less_nat_alt dn_def)
    ultimately show ?thesis by (simp add: udf_extent_part_def Let_def)
  next
    case True
    define n where "n = min (want - dn) (pos + unat elen - start)"
    have lt: "offset + of_nat (ob_done st) < ob_pos st + ucast elen" using True us ue by (simp add: word_less_nat_alt dn_def)
    have chunk: "(if unat (ob_pos st + ucast elen - (offset + of_nat (ob_done st))) > want - ob_done st then want - ob_done st
        else unat (ob_pos st + ucast elen - (offset + of_nat (ob_done st)))) = n"
      using lt us ue by (auto simp: n_def dn_def unat_sub word_less_nat_alt word_le_nat_alt min_def)
    have "unat (offset + of_nat (ob_done st) - ob_pos st) = start - pos"
      using us start by (simp add: unat_sub word_le_nat_alt dn_def pos_def)
    moreover have "start - pos < 2 ^ 32" using True elen by simp
    ultimately have skip: "unat (ucast (ucast (offset + of_nat (ob_done st) - ob_pos st) :: u32) :: u64) = start - pos"
      by (simp add: unat_ucast_u32_u64 unat_ucast_u64_u32)
    have n: "start + n \<le> pos + unat elen" "dn + n \<le> want" "dn + n = min want (pos + unat elen - ?off)"
      using True d start by (auto simp: n_def dn_def start_def)
    have buf: "take dn (ob_buf st) @ take n (drop start C) @ drop (dn + n) (ob_buf st) = take (dn + n) (drop ?off C) @ drop (dn + n) buf0"
      by (rule fill_step) (use i(5) n w(1) lenC in \<open>auto simp: start_def dn_def C_def\<close>)
    have lb: "length (ob_buf st) = length buf0" using i(5) n w(1) lenC by (auto simp: start_def dn_def C_def)
    show ?thesis
    proof (cases "etype = UDF_EXT_RECORDED")
      case rec: True
      have "n \<le> length (drop dn (ob_buf st))" using lb n w(1) by simp
      from read_range_ok[OF g this] obtain err seg' n' c' xs' where r:
        "odfs_cache_read_bytes (ob_cache st) (udf_phys_lba ctx elba) (ucast (ucast (offset + of_nat (ob_done st) - ob_pos st) :: u32))
           (drop (ob_done st) (ob_buf st)) n = Some (err, seg', n', c')" "good_cache c' xs'"
        "io_error err \<or> err = ODFS_OK \<and> n' = n \<and>
           seg' = disc_range disc 2048 (udf_phys_lba ctx elba) (start - pos) n @ drop n (drop dn (ob_buf st))"
        unfolding dn_def skip[symmetric] by blast
      note unf = udf_extent_part_def[of ctx offset want ad etype elen elba st, unfolded Let_def chunk]
      from r(3) show ?thesis
      proof
        assume e: "io_error err"
        then show ?thesis using unf lt rec r(1,2) io_error_err[OF e] by (auto simp: obj_res_def)
      next
        assume ok: "err = ODFS_OK \<and> n' = n \<and>
           seg' = disc_range disc 2048 (udf_phys_lba ctx elba) (start - pos) n @ drop n (drop dn (ob_buf st))"
        have "take n (drop start C) = disc_range disc 2048 (udf_phys_lba ctx elba) (start - pos) n"
          unfolding bytes[OF n(1)] using rec n(1) start by (simp add: ext_bytes_def disc_range_slice)
        then have "take dn (ob_buf st) @ seg' = take (dn + n) (drop ?off C) @ drop (dn + n) buf0"
          using buf ok by (simp add: add.commute)
        from next_inv[OF n(3) this r(2)] show ?thesis using unf lt rec r(1) ok by (simp add: dn_def)
      qed
    next
      case zero: False
      have "take n (drop start C) = zero_bytes n"
        unfolding bytes[OF n(1)] using zero n(1) start by (auto simp: ext_bytes_def zero_bytes_def min_def)
      with buf have "wrn (ob_buf st) dn (zero_bytes n) = Some (take (dn + n) (drop ?off C) @ drop (dn + n) buf0)"
        using lb n w(1) by (simp add: wrn_def)
      moreover have "st\<lparr>ob_buf := b, ob_done := k, ob_pos := p, ob_p := q\<rparr> =
          st\<lparr>ob_buf := b, ob_done := k, ob_cache := ob_cache st, ob_pos := p, ob_p := q\<rparr>" for b k p q by simp
      ultimately show ?thesis using next_inv[OF n(3) refl g] zero lt
        by (simp add: udf_extent_part_def[of ctx offset want ad etype elen elba st, unfolded Let_def chunk] dn_def)
    qed
  qed
qed

lemma object_body_ok:
  assumes inv: "obj_inv ctx ad (unat offset) want buf0 es whole st"
    and w: "want \<le> length buf0" "unat offset + want < 2 ^ 64" and ad: "8 \<le> ad" and bs: "block_size_of ctx \<le> 2048"
  shows "\<exists>r. udf_object_body ctx offset want ad st = Some r \<and> (case r of
      Inl res \<Rightarrow> obj_res (unat offset) want buf0 (ext_content disc ctx es) whole res
    | Inr st' \<Rightarrow> obj_inv ctx ad (unat offset) want buf0 es whole st' \<and>
        (st', st) \<in> measures [\<lambda>st. 4096 - ob_guard st, \<lambda>st. length (ob_run st) - ob_p st])"
proof (cases "ob_done st < want \<and> ob_p st + ad \<le> length (ob_run st)")
  case False
  have "ob_done st \<le> want" using inv by (auto simp: obj_inv_def)
  moreover have "udf_extents disc ctx ad (ob_guard st) (drop (ob_p st) (ob_run st)) = ([], True)"
    if "length (ob_run st) < ob_p st + ad"
    using that by (subst udf_extents.simps) auto
  ultimately have "obj_res (unat offset) want buf0 (ext_content disc ctx es) whole (ODFS_OK, ob_buf st, ob_done st, ob_cache st)"
    using False by (intro obj_finish[OF inv]) auto
  with False show ?thesis by (auto simp: udf_object_body_def not_le)
next
  case True
  then have d: "ob_done st < want" and p: "ob_p st + ad \<le> length (ob_run st)" by auto
  obtain len_field elba where f: "le32 (ob_run st) (ob_p st) = Some len_field" "le32 (ob_run st) (ob_p st + 4) = Some elba"
    using le32_in[of "ob_p st" "ob_run st"] le32_in[of "ob_p st + 4" "ob_run st"] p ad by auto
  have nl: "\<not> length (ob_run st) - ob_p st < ad" "\<not> ad < 8" "ob_p st \<le> length (ob_run st)" using p ad by auto
  let ?et = "drop_bit 30 len_field" and ?el = "len_field AND UDF_EXT_LENGTH_MASK"
  have ex: "udf_extents disc ctx ad (ob_guard st) (drop (ob_p st) (ob_run st)) =
     (if ?et = UDF_EXT_CONTINUATION then
        (if ob_guard st \<ge> 4096 then ([], False)
         else case aed_run ctx (disc (udf_phys_lba ctx elba)) of
                None \<Rightarrow> ([], False)
              | Some run' \<Rightarrow> udf_extents disc ctx ad (ob_guard st + 1) run')
      else if ?el = 0 then ([], True)
      else (case udf_extents disc ctx ad (ob_guard st) (drop (ob_p st + ad) (ob_run st)) of (es, whole) \<Rightarrow> ((?et, ?el, elba) # es, whole)))"
    using f nl by (subst udf_extents.simps) (simp add: le32_drop Let_def add.commute)
  show ?thesis
  proof (cases "?et = UDF_EXT_CONTINUATION")
    case c: True
    from continuation_ok[OF inv d bs, of elba] ex c obtain r where r: "udf_continuation ctx elba st = Some r"
      "case r of Inl res \<Rightarrow> obj_res (unat offset) want buf0 (ext_content disc ctx es) whole res
       | Inr st' \<Rightarrow> obj_inv ctx ad (unat offset) want buf0 es whole st' \<and> ob_guard st < ob_guard st' \<and> ob_guard st' \<le> 4096"
      by auto
    then show ?thesis using f c d p by (auto simp: udf_object_body_def Let_def split: sum.splits)
  next
    case c: False
    show ?thesis
    proof (cases "?el = 0")
      case True
      with obj_finish[OF inv] ex c f d p show ?thesis by (auto simp: udf_object_body_def Let_def)
    next
      case False
      from extent_part_ok[OF inv d w unat_elen ad p, of ?et len_field elba] ex c False obtain r where
        r: "udf_extent_part ctx offset want ad ?et ?el elba st = Some r"
        "case r of Inl res \<Rightarrow> obj_res (unat offset) want buf0 (ext_content disc ctx es) whole res
         | Inr st' \<Rightarrow> obj_inv ctx ad (unat offset) want buf0 es whole st' \<and> ob_guard st' = ob_guard st \<and>
             ob_run st' = ob_run st \<and> ob_p st' = ob_p st + ad"
        by auto
      then show ?thesis using f c False d p ad by (auto simp: udf_object_body_def Let_def split: sum.splits)
    qed
  qed
qed

section \<open>Reading an object\<close>

lemma object_loop:
  assumes "udf_extents disc ctx ad 0 run = (es, whole)" "length run \<le> 2048" "good_cache c xs"
    and "want \<le> length buf0" "unat offset + want < 2 ^ 64" "8 \<le> ad" "block_size_of ctx \<le> 2048"
  shows "\<exists>res. iter (udf_object_body ctx offset want ad)
      \<lparr>ob_run = run, ob_p = 0, ob_pos = 0, ob_guard = 0, ob_buf = buf0, ob_done = 0, ob_cache = c\<rparr> = Some res \<and>
    obj_res (unat offset) want buf0 (ext_content disc ctx es) whole res"
proof (rule iter_rule[where I = "obj_inv ctx ad (unat offset) want buf0 es whole"
      and R = "measures [\<lambda>st. 4096 - ob_guard st, \<lambda>st. length (ob_run st) - ob_p st]"])
  show "obj_inv ctx ad (unat offset) want buf0 es whole
      \<lparr>ob_run = run, ob_p = 0, ob_pos = 0, ob_guard = 0, ob_buf = buf0, ob_done = 0, ob_cache = c\<rparr>"
    unfolding obj_inv_def using assms(1-3) by (intro exI[of _ "[]"] exI[of _ es] exI[of _ xs]) simp
qed (use object_body_ok[OF _ assms(4-7)] in auto)

text \<open>What is left of the call when the file entry has been read: \<open>w\<close> bytes are wanted.\<close>

definition object_data ::
    "udf_context \<Rightarrow> 'a odfs_cache \<Rightarrow> u8 list \<Rightarrow> udf_icb \<Rightarrow> u32 \<Rightarrow> u64 \<Rightarrow> u8 list \<Rightarrow> nat \<Rightarrow> 'a obj_result option" where
  "object_data ctx c sector icb ao offset buf w =
     (if icb_alloc_type icb = UDF_ICB_ALLOC_EMBEDDED then
        (if ucast ao + icb_data_size icb > ucast (block_size_of ctx) then Some (ODFS_ERR_CORRUPT, buf, 0, c)
         else do {
           src \<leftarrow> rdn sector (unat ao + unat offset) w;
           buf \<leftarrow> wrn buf 0 src;
           Some (ODFS_OK, buf, w, c) })
      else if icb_alloc_type icb \<noteq> UDF_ICB_ALLOC_SHORT \<and> icb_alloc_type icb \<noteq> UDF_ICB_ALLOC_LONG
      then Some (ODFS_ERR_UNSUPPORTED, buf, 0, c)
      else do {
        run \<leftarrow> rdn sector (unat ao) (unat (icb_ad_length icb));
        iter (udf_object_body ctx offset w (if icb_alloc_type icb = UDF_ICB_ALLOC_SHORT then 8 else 16))
          \<lparr>ob_run = run, ob_p = 0, ob_pos = 0, ob_guard = 0, ob_buf = buf, ob_done = 0, ob_cache = c\<rparr> })"

lemma read_object_unfold:
  assumes "read_sector c icb_phys = Some (Inr (disc icb_phys), c')" "udf_parse_icb (disc icb_phys) (block_size_of ctx) = Some (Inr icb)"
    "block_size_of ctx \<le> 2048" "icb_ad_offset icb (block_size_of ctx) = Inr ao"
    and w_def: "w = min want (unat (icb_data_size icb) - unat offset)"
  shows "udf_read_object ctx c icb_phys offset buf want =
    (if w = 0 then Some (ODFS_OK, buf, 0, c') else object_data ctx c' (disc icb_phys) icb ao offset buf w)"
proof -
  have nb: "(2048 < block_size_of ctx) = False" using assms(3) by (simp add: not_less)
  have want': "(if want > unat (icb_data_size icb - offset) then unat (icb_data_size icb - offset) else want) = w"
    if "\<not> icb_data_size icb \<le> offset"
    using that by (auto simp: w_def unat_sub word_le_nat_alt min_def)
  note unf = udf_read_object_def[of ctx c icb_phys offset buf want, unfolded Let_def]
  show ?thesis
  proof (cases "icb_data_size icb \<le> offset")
    case True
    then have "w = 0" by (simp add: w_def word_le_nat_alt)
    with True show ?thesis using assms by (simp add: unf)
  next
    case False
    show ?thesis
      by (simp only: unf assms(1,2,4) nb want'[OF False] False object_data_def Let_def if_False bind.bind_lunit sum.case prod.case)
  qed
qed

abbreviation data_res :: "odfs_err + (u8 list \<times> bool) \<Rightarrow> nat \<Rightarrow> nat \<Rightarrow> u8 list \<Rightarrow> odfs_err \<times> u8 list \<times> nat \<Rightarrow> bool" where
  "data_res body off w buf0 res \<equiv> io_error (fst res) \<or> data_read body off w buf0 res"

lemma embedded_ok:
  assumes e: "icb_alloc_type icb = UDF_ICB_ALLOC_EMBEDDED" and ao: "unat ao \<le> 2048" and bs: "block_size_of ctx \<le> 2048"
    and g: "good_cache c xs" and sz: "unat (icb_data_size icb) + 2048 < 2 ^ 64"
    and w: "w \<le> length buf" "unat offset + w \<le> unat (icb_data_size icb)"
  shows "\<exists>err buf' n c' xs'. object_data ctx c (disc l) icb ao offset buf w = Some (err, buf', n, c') \<and> good_cache c' xs' \<and>
    data_res (icb_body disc ctx (disc l) icb ao) (unat offset) w buf (err, buf', n)"
proof -
  define S where "S = unat (icb_data_size icb)"
  have chk: "(ucast (block_size_of ctx) < ucast ao + icb_data_size icb) = (unat (block_size_of ctx) < unat ao + S)"
    unfolding S_def by (rule embedded_check) (use ao sz in simp)
  show ?thesis
  proof (cases "unat (block_size_of ctx) < unat ao + S")
    case True
    then show ?thesis using e g chk by (auto simp: object_data_def icb_body_def data_read_def S_def)
  next
    case False
    then have le: "unat ao + S \<le> 2048" using bs by (simp add: word_le_nat_alt)
    let ?C = "take S (drop (unat ao) (disc l))"
    have "take w (drop (unat offset) ?C) = take w (drop (unat ao + unat offset) (disc l))"
      using w(2) by (simp add: drop_take add.commute min_absorb1 flip: S_def)
    moreover have "length ?C = S" using le by simp
    moreover have "object_data ctx c (disc l) icb ao offset buf w =
        Some (ODFS_OK, take w (drop (unat ao + unat offset) (disc l)) @ drop w buf, w, c)"
      using e False chk le w by (simp add: object_data_def rdn_in wrn_def flip: S_def)
    moreover have "icb_body disc ctx (disc l) icb ao = Inr (?C, True)" using e False by (simp add: icb_body_def S_def)
    ultimately show ?thesis using g w(2) by (auto simp: data_read_def simp flip: S_def)
  qed
qed

lemma object_extents_ok:
  assumes r: "icb_alloc_type icb = UDF_ICB_ALLOC_SHORT \<or> icb_alloc_type icb = UDF_ICB_ALLOC_LONG"
    and ao: "unat ao + unat (icb_ad_length icb) \<le> 2048" and bs: "block_size_of ctx \<le> 2048"
    and g: "good_cache c xs" and w: "w \<le> length buf" "unat offset + w < 2 ^ 64"
  shows "\<exists>err buf' n c' xs'. object_data ctx c (disc l) icb ao offset buf w = Some (err, buf', n, c') \<and> good_cache c' xs' \<and>
    data_res (icb_body disc ctx (disc l) icb ao) (unat offset) w buf (err, buf', n)"
proof -
  let ?ad = "if icb_alloc_type icb = UDF_ICB_ALLOC_SHORT then 8 else 16 :: nat"
  let ?run = "take (unat (icb_ad_length icb)) (drop (unat ao) (disc l))"
  have ne: "icb_alloc_type icb \<noteq> UDF_ICB_ALLOC_EMBEDDED"
    using r by (auto simp: UDF_ICB_ALLOC_SHORT_def UDF_ICB_ALLOC_LONG_def UDF_ICB_ALLOC_EMBEDDED_def)
  obtain es whole where es: "udf_extents disc ctx ?ad 0 ?run = (es, whole)" by fastforce
  have pre: "length ?run \<le> 2048" "8 \<le> ?ad" by auto
  from object_loop[OF es pre(1) g w pre(2) bs] obtain err buf' n c' where
    res: "iter (udf_object_body ctx offset w ?ad)
       \<lparr>ob_run = ?run, ob_p = 0, ob_pos = 0, ob_guard = 0, ob_buf = buf, ob_done = 0, ob_cache = c\<rparr> = Some (err, buf', n, c')"
    "obj_res (unat offset) w buf (ext_content disc ctx es) whole (err, buf', n, c')" by auto
  have "object_data ctx c (disc l) icb ao offset buf w = Some (err, buf', n, c')"
    using r ne res(1) ao by (auto simp: object_data_def rdn_in)
  moreover have "icb_body disc ctx (disc l) icb ao = Inr (ext_content disc ctx es, whole)" using r ne es by (auto simp: icb_body_def)
  ultimately show ?thesis using res(2) by (auto simp: obj_res_def data_read_def min_def)
qed

lemma read_object_ok:
  assumes g: "good_cache c xs" and w: "want \<le> length buf"
    and sz: "\<And>sz body. udf_object disc ctx icb_phys = Inr (sz, body) \<Longrightarrow> unat sz + 2048 < 2 ^ 64"
  shows "\<exists>err buf' n c' xs'. udf_read_object ctx c icb_phys offset buf want = Some (err, buf', n, c') \<and> good_cache c' xs' \<and>
    (io_error err \<or> object_read (udf_object disc ctx icb_phys) (unat offset) want buf (err, buf', n))"
  using g
proof (cases rule: read_sector_ok[of c xs icb_phys])
  case (err e c')
  then show ?thesis by (auto simp: udf_read_object_def io_error_def)
next
  case (ok c' xs')
  let ?bs = "block_size_of ctx" and ?d = "disc icb_phys"
  obtain p where p: "udf_parse_icb ?d ?bs = Some p" using parse_icb_some[of ?d] by auto
  show ?thesis
  proof (cases "\<exists>icb ao. p = Inr icb \<and> ?bs \<le> 2048 \<and> icb_ad_offset icb ?bs = Inr ao")
    case False
    then have "\<exists>e. udf_object disc ctx icb_phys = Inl e \<and> udf_read_object ctx c icb_phys offset buf want = Some (e, buf, 0, c')"
      using ok(1) p by (auto simp: udf_object_def udf_read_object_def Let_def not_less split: sum.splits)
    with ok(2) show ?thesis by (auto simp: object_read_def)
  next
    case True
    then obtain icb ao where a: "udf_parse_icb ?d ?bs = Some (Inr icb)" "?bs \<le> 2048" "icb_ad_offset icb ?bs = Inr ao"
      using p by blast
    define body where "body = icb_body disc ctx ?d icb ao"
    have obj: "udf_object disc ctx icb_phys = Inr (icb_data_size icb, body)" using a by (simp add: udf_object_def body_def)
    define w' where "w' = min want (unat (icb_data_size icb) - unat offset)"
    note unf = read_object_unfold[OF ok(1) a w'_def, of buf]
    have in_s: "unat ao + unat (icb_ad_length icb) \<le> 2048"
      using ad_offset_in[OF a(1,3)] a(2) by (simp add: word_le_nat_alt)
    have "\<exists>err buf' n c'' xs''. object_data ctx c' ?d icb ao offset buf w' = Some (err, buf', n, c'') \<and> good_cache c'' xs'' \<and>
        data_res body (unat offset) w' buf (err, buf', n)" if "w' \<noteq> 0"
    proof -
      have le: "w' \<le> length buf" "unat offset + w' \<le> unat (icb_data_size icb)" using that w by (auto simp: w'_def)
      then have lt: "unat offset + w' < 2 ^ 64" using sz[OF obj] by simp
      consider "icb_alloc_type icb = UDF_ICB_ALLOC_EMBEDDED"
        | "icb_alloc_type icb = UDF_ICB_ALLOC_SHORT \<or> icb_alloc_type icb = UDF_ICB_ALLOC_LONG"
        | (other) "icb_alloc_type icb \<notin> {UDF_ICB_ALLOC_EMBEDDED, UDF_ICB_ALLOC_SHORT, UDF_ICB_ALLOC_LONG}" by auto
      then show ?thesis
      proof cases
        case 1
        from embedded_ok[OF this _ a(2) ok(2) sz[OF obj] le] in_s show ?thesis by (simp add: body_def)
      next
        case 2
        from object_extents_ok[OF this in_s a(2) ok(2) le(1) lt] show ?thesis by (simp add: body_def)
      next
        case other
        then show ?thesis using ok(2) by (auto simp: object_data_def body_def icb_body_def data_read_def)
      qed
    qed
    then show ?thesis unfolding unf obj object_read_def using ok(2) by (cases "w' = 0") (auto simp: Let_def simp flip: w'_def)
  qed
qed

end

end
