(* ===== verification/Udf_Props.thy ===== *)
theory Udf_Props
  imports Udf_Facts
begin

text \<open>
  The properties of the UDF reader.
\<close>

section \<open>An image with one file entry\<close>

text \<open>Sector 0 holds the entry of a file of 8 bytes: 5 recorded in block 1, and 3 that are allocated only.\<close>

definition demo_fe :: "u8 list \<Rightarrow> u8 \<Rightarrow> u8 list" where
  "demo_fe sz alloc = [5, 1, 2, 0, 8, 0, 0, 0, 0, 0, 0, 0, 0, 0, 0, 0] @ zero_bytes 18 @ [alloc] @ zero_bytes 21 @ sz @ zero_bytes 108 @
     [16, 0, 0, 0] @ [5, 0, 0, 0, 1, 0, 0, 0] @ [3, 0, 0, 0x40, 0, 0, 0, 0]"

definition demo_udf :: "u8 list \<Rightarrow> u8 \<Rightarrow> file_media_ctx odfs_media" where
  "demo_udf sz alloc = odfs_media_open_image (demo_fe sz alloc @ zero_bytes 1856 @ [0x48, 0x45, 0x4C, 0x4C, 0x4F] @ zero_bytes 2043)"

definition demo_udf_file :: odfs_node where
  "demo_udf_file = zero_node\<lparr>kind := ODFS_NODE_FILE, size := 8, extent := \<lparr>lba = 0, extlen = 8\<rparr>\<rparr>"

lemma demo_fe_length [simp]: "length sz = 8 \<Longrightarrow> length (demo_fe sz alloc) = 192"
  by (simp add: demo_fe_def)

lemma demo_udf_disc: "length sz = 8 \<Longrightarrow> file_disc (mctx (demo_udf sz alloc)) 0 = demo_fe sz alloc @ zero_bytes 1856"
  by (simp add: file_disc_def demo_udf_def odfs_media_open_image_def fread_at_def pad_sector_def HOST_SECTOR_SIZE_def)

lemma demo_udf_data: "length sz = 8 \<Longrightarrow> take 5 (file_disc (mctx (demo_udf sz alloc)) 1) = [0x48, 0x45, 0x4C, 0x4C, 0x4F]"
  by (simp add: file_disc_def demo_udf_def odfs_media_open_image_def fread_at_def pad_sector_def HOST_SECTOR_SIZE_def)

lemma demo_fe_tag:
  assumes "length sz = 8"
  shows "udf_read_tag (demo_fe sz alloc @ xs) = Some (True, \<lparr>tag_id = 261, tag_version = 2, tag_checksum = 8, tag_serial = 0,
    tag_crc = 0, tag_crc_length = 0, tag_location = 0\<rparr>)"
  using assms by (simp add: udf_read_tag_def le16_def le32_def rd_def upt_rec Let_def) (simp add: demo_fe_def)

lemma demo_fe_fields:
  assumes "length sz = 8"
  shows "rd (demo_fe sz alloc @ xs) 27 = Some 0" "le16 (demo_fe sz alloc @ xs) 34 = Some (ucast alloc)"
    "le32 (demo_fe sz alloc @ xs) 56 = le32 sz 0" "le32 (demo_fe sz alloc @ xs) 60 = le32 sz 4"
    "le32 (demo_fe sz alloc @ xs) 168 = Some 0" "le32 (demo_fe sz alloc @ xs) 172 = Some 16"
  using assms by (simp_all add: rd_def le16_def le32_def demo_fe_def nth_append nth_zero_bytes) (simp add: numeral_2_eq_2)

lemma demo_fe_icb:
  assumes "length sz = 8" "udf_le64 sz 0 = Some n"
  shows "udf_parse_icb (demo_fe sz alloc @ xs) 2048 = Some (Inr \<lparr>icb_file_type = 0, icb_alloc_type = ucast alloc AND 7,
    icb_data_size = n, icb_time_off = 84, icb_ea_len = 0, icb_ad_length = 16, icb_ad_base = 176\<rparr>)"
  using assms by (simp add: udf_parse_icb_def demo_fe_tag UDF_TAG_FE_def Let_def demo_fe_fields udf_le64_def del: rd_in)

lemma demo_fe_run: "length sz = 8 \<Longrightarrow> take 16 (drop 176 (demo_fe sz alloc @ xs)) = [5, 0, 0, 0, 1, 0, 0, 0, 3, 0, 0, 0x40, 0, 0, 0, 0]"
  by (simp add: demo_fe_def)

lemma demo_udf_object:
  "udf_object (file_disc (mctx (demo_udf [8, 0, 0, 0, 0, 0, 0, 0] 0))) zero_udf_context 0 =
    Inr (8, Inr ([0x48, 0x45, 0x4C, 0x4C, 0x4F, 0, 0, 0], True))"
proof -
  let ?sz = "[8, 0, 0, 0, 0, 0, 0, 0] :: u8 list"
  let ?D = "file_disc (mctx (demo_udf ?sz 0))"
  have sz: "length ?sz = 8" "udf_le64 ?sz 0 = Some 8" by (simp_all add: udf_le64_def le32_def)
  have bs: "block_size_of zero_udf_context = 2048" by (simp add: block_size_of_def zero_udf_context_def)
  have d: "?D 0 = demo_fe ?sz 0 @ zero_bytes 1856" by (rule demo_udf_disc) simp
  have "udf_extents ?D zero_udf_context 8 0 [5, 0, 0, 0, 1, 0, 0, 0, 3, 0, 0, 0x40, 0, 0, 0, 0] = ([(0, 5, 1), (1, 3, 0)], True)"
    by (subst udf_extents.simps, simp add: le32_def UDF_EXT_LENGTH_MASK_def UDF_EXT_CONTINUATION_def)
      (subst udf_extents.simps, simp add: le32_def UDF_EXT_LENGTH_MASK_def UDF_EXT_CONTINUATION_def, simp add: udf_extents.simps)
  moreover have "ext_content ?D zero_udf_context [(0, 5, 1), (1, 3, 0)] = [0x48, 0x45, 0x4C, 0x4C, 0x4F] @ [0, 0, 0]"
  proof -
    have "disc_range ?D 2048 1 0 5 = take 5 (?D 1)"
      using disc_range_sector[of ?D 1 0 2048 0 5] file_iso.disc_length by simp
    moreover have "zero_bytes 3 = [0, 0, 0]" by (simp add: zero_bytes_def numeral_3_eq_3)
    ultimately show ?thesis using demo_udf_data[OF sz(1), of 0]
      by (simp add: ext_bytes_def UDF_EXT_RECORDED_def udf_phys_lba_def zero_udf_context_def)
  qed
  ultimately show ?thesis
    using demo_fe_icb[OF sz, of 0 "zero_bytes 1856"] demo_fe_run[OF sz(1), of 0 "zero_bytes 1856"]
    by (simp add: udf_object_def bs d icb_ad_offset_def icb_body_def UDF_ICB_ALLOC_EMBEDDED_def UDF_ICB_ALLOC_SHORT_def)
qed

lemma demo_udf_cache:
  assumes "length sz = 8"
  obtains c where "odfs_cache_init (\<lambda>_ _. 0) heap_plenty (demo_udf sz alloc) 40 = (ODFS_OK, c, heap_plenty)"
    "disc_media.good_cache file_media_ops (file_disc (mctx (demo_udf sz alloc))) HOST_SECTOR_SIZE
      (\<lambda>m. m = mctx (demo_udf sz alloc) \<and> file_whole (mctx (demo_udf sz alloc))) c []"
proof -
  have w: "file_whole (mctx (demo_udf sz alloc))" "\<lparr>mops = file_media_ops, mctx = mctx (demo_udf sz alloc)\<rparr> = demo_udf sz alloc"
    using assms by (simp_all add: demo_udf_def odfs_media_open_image_def file_whole_def file_ok_def HOST_SECTOR_SIZE_def)
  have "\<exists>c. odfs_cache_init (\<lambda>_ _. 0) heap_plenty (demo_udf sz alloc) 40 = (ODFS_OK, c, heap_plenty)"
    by (rule cache_init_plenty[of _ _ 2048])
      (simp_all add: odfs_media_sector_size_def demo_udf_def odfs_media_open_image_def file_media_ops_def
        file_sector_size_def HOST_SECTOR_SIZE_def)
  then obtain c where c: "odfs_cache_init (\<lambda>_ _. 0) heap_plenty (demo_udf sz alloc) 40 = (ODFS_OK, c, heap_plenty)" ..
  with that file_atomic.init_good[where m = "mctx (demo_udf sz alloc)", unfolded w(2), OF c] w(1) show thesis by simp
qed

lemma demo_udf_no_fault:
  "length sz = 8 \<Longrightarrow> \<not> disc_media.fails file_media_ops (\<lambda>m. m = mctx (demo_udf sz alloc) \<and> file_whole (mctx (demo_udf sz alloc))) 0 1 e"
proof -
  assume "length sz = 8"
  then have "file_read_sectors (mctx (demo_udf sz alloc)) 0 1 = (e, bs, m') \<Longrightarrow> e = ODFS_OK" for bs m'
    by (auto simp: file_read_sectors_def demo_udf_def odfs_media_open_image_def fread_at_def HOST_SECTOR_SIZE_def Let_def split: if_splits)
  then show ?thesis unfolding file_atomic.fails_def by (auto simp: file_media_ops_def)
qed

section \<open>Properties\<close>

text \<open>
  C30: Reading a file or directory gives its bytes: those its allocation descriptors lead to, through continuations, extents
  that are allocated only read as zeros, cut at its size.  Descriptors that break off before the
  last byte wanted are an error, and so are a malformed file entry and an unknown kind of descriptor.  The only other
  errors are the medium's and that of a sector number that does not exist; the call always returns.
\<close>

theorem udf_read_correct:
  assumes "iso_media ops disc ss good" "disc_media.good_cache ops disc ss good c xs" "want \<le> length buf"
    "\<forall>sz body. udf_object disc ctx (lba (extent file)) = Inr (sz, body) \<longrightarrow> unat sz + 2048 < 2 ^ 64"
  shows "\<exists>err buf' n c' xs'. udf_read ctx c h file offset buf want = Some ((err, buf', n), ctx, c', h) \<and>
    disc_media.good_cache ops disc ss good c' xs' \<and>
    (object_read (udf_object disc ctx (lba (extent file))) (unat offset) want buf (err, buf', n) \<or>
     err = ODFS_ERR_RANGE \<or> (\<exists>l k. disc_media.fails ops good l k err))"
  using iso_media.read_object_ok[OF assms(1-3), of ctx "lba (extent file)" offset] assms(4)
  unfolding iso_media.io_error_def[OF assms(1)] udf_read_def by fastforce

theorem udf_read_correct_witness:
  "\<exists>c err buf n c'. odfs_cache_init (\<lambda>_ _. 0) heap_plenty (demo_udf [8, 0, 0, 0, 0, 0, 0, 0] 0) 40 = (ODFS_OK, c, heap_plenty) \<and>
     udf_read zero_udf_context c heap_plenty demo_udf_file 3 [9, 9, 9, 9, 9, 9] 6 = Some ((err, buf, n), zero_udf_context, c', heap_plenty) \<and>
     ((err, buf, n) = (ODFS_OK, [0x4C, 0x4F, 0, 0, 0, 9], 5) \<or> err = ODFS_ERR_RANGE \<or>
      (\<exists>l k. disc_media.fails file_media_ops (\<lambda>m. m = mctx (demo_udf [8, 0, 0, 0, 0, 0, 0, 0] 0) \<and>
         file_whole (mctx (demo_udf [8, 0, 0, 0, 0, 0, 0, 0] 0))) l k err))"
proof -
  let ?m = "demo_udf [8, 0, 0, 0, 0, 0, 0, 0] 0"
  obtain c where c: "odfs_cache_init (\<lambda>_ _. 0) heap_plenty ?m 40 = (ODFS_OK, c, heap_plenty)"
    "disc_media.good_cache file_media_ops (file_disc (mctx ?m)) HOST_SECTOR_SIZE (\<lambda>m. m = mctx ?m \<and> file_whole (mctx ?m)) c []"
    by (rule demo_udf_cache[of "[8, 0, 0, 0, 0, 0, 0, 0]" 0]) simp
  have l: "lba (extent demo_udf_file) = 0" by (simp add: demo_udf_file_def)
  have "object_read (udf_object (file_disc (mctx ?m)) zero_udf_context 0) 3 6 [9, 9, 9, 9, 9, 9] res \<Longrightarrow>
      res = (ODFS_OK, [0x4C, 0x4F, 0, 0, 0, 9], 5)" for res
    unfolding demo_udf_object by (cases res) (simp add: object_read_def data_read_def)
  with udf_read_correct[OF file_iso.iso_media_axioms c(2), of 6 "[9, 9, 9, 9, 9, 9]" zero_udf_context demo_udf_file heap_plenty 3]
    demo_udf_object c(1)
  show ?thesis unfolding l by fastforce
qed

text \<open>
  C38: The check that embedded data fits its block adds the size of the object in 64 bits.  If the size on the disc is so
  large that the sum wraps, a read behind the block is not refused: it reads outside the sector.
\<close>

theorem udf_embedded_size_wraps:
  assumes "iso_media ops disc ss good" "disc_media.good_cache ops disc ss good c xs"
    and icb: "udf_parse_icb (disc (lba (extent file))) (block_size_of ctx) = Some (Inr icb)" "icb_alloc_type icb = UDF_ICB_ALLOC_EMBEDDED"
      "block_size_of ctx \<le> 2048" "icb_ad_offset icb (block_size_of ctx) = Inr ao"
    and wraps: "2 ^ 64 \<le> unat ao + unat (icb_data_size icb)"
    and w: "0 < want" "offset < icb_data_size icb" "2048 < unat ao + unat offset + min want (unat (icb_data_size icb) - unat offset)"
  shows "udf_read ctx c h file offset buf want = None \<or>
    (\<exists>err c'. udf_read ctx c h file offset buf want = Some ((err, buf, 0), ctx, c', h) \<and>
      disc_media.fails ops good (lba (extent file)) 1 err)"
proof (rule iso_media.read_sector_ok[OF assms(1,2), of "lba (extent file)"], goal_cases)
  case (1 e c')
  then show ?thesis by (auto simp: udf_read_def udf_read_object_def)
next
  case (2 c' xs')
  let ?d = "disc (lba (extent file))"
  note unf = iso_media.read_object_unfold[OF assms(1) 2(1) icb(1,3,4) refl, of offset buf want]
  have ao: "unat ao \<le> unat (block_size_of ctx)"
    using ad_offset_in[OF icb(1,4)] by simp
  have "unat (ucast ao + icb_data_size icb) = unat ao + unat (icb_data_size icb) - 2 ^ 64"
    using wraps unat_u64_lt[of "icb_data_size icb"] unat_u32_lt[of ao] by (simp add: unat_u64_add unat_ucast_u32_u64 mod_if)
  then have "\<not> ucast (block_size_of ctx) < ucast ao + icb_data_size icb"
    using ao unat_u64_lt[of "icb_data_size icb"] by (simp add: word_less_nat_alt unat_ucast_u32_u64)
  moreover have "length ?d = 2048" by (rule iso_media.disc_length[OF assms(1)])
  ultimately show ?thesis using w icb(2) unf
    by (auto simp: udf_read_def iso_media.object_data_def[OF assms(1)] rdn_def word_less_nat_alt)
qed

theorem udf_embedded_size_wraps_witness:
  "\<exists>c. odfs_cache_init (\<lambda>_ _. 0) heap_plenty (demo_udf [0x9C, 0xFF, 0xFF, 0xFF, 0xFF, 0xFF, 0xFF, 0xFF] 3) 40 = (ODFS_OK, c, heap_plenty) \<and>
     udf_read zero_udf_context c heap_plenty demo_udf_file 4096 [0] 1 = None"
proof -
  let ?sz = "[0x9C, 0xFF, 0xFF, 0xFF, 0xFF, 0xFF, 0xFF, 0xFF] :: u8 list"
  let ?m = "demo_udf ?sz 3"
  let ?icb = "\<lparr>icb_file_type = 0, icb_alloc_type = 3, icb_data_size = 0xFFFFFFFFFFFFFF9C, icb_time_off = 84, icb_ea_len = 0,
    icb_ad_length = 16, icb_ad_base = 176\<rparr>"
  have sz: "length ?sz = 8" "udf_le64 ?sz 0 = Some 0xFFFFFFFFFFFFFF9C" by (simp_all add: udf_le64_def le32_def)
  obtain c where c: "odfs_cache_init (\<lambda>_ _. 0) heap_plenty ?m 40 = (ODFS_OK, c, heap_plenty)"
    "disc_media.good_cache file_media_ops (file_disc (mctx ?m)) HOST_SECTOR_SIZE (\<lambda>m. m = mctx ?m \<and> file_whole (mctx ?m)) c []"
    by (rule demo_udf_cache[OF sz(1), of 3])
  have l: "lba (extent demo_udf_file) = 0" and bs: "block_size_of zero_udf_context = 2048"
    by (simp_all add: demo_udf_file_def block_size_of_def zero_udf_context_def)
  have icb: "udf_parse_icb (file_disc (mctx ?m) (lba (extent demo_udf_file))) (block_size_of zero_udf_context) = Some (Inr ?icb)"
    unfolding l bs demo_udf_disc[OF sz(1)] demo_fe_icb[OF sz] by simp
  from udf_embedded_size_wraps[OF file_iso.iso_media_axioms c(2) icb, of 176 1 4096 heap_plenty "[0]"]
    demo_udf_no_fault[OF sz(1), of 3] c(1)
  show ?thesis by (simp add: l bs UDF_ICB_ALLOC_EMBEDDED_def icb_ad_offset_def)
qed

end
