(* ===== verification/Cdda_Text.thy ===== *)
theory Cdda_Text
  imports Backend Text
begin

text \<open>
  The texts the audio backend makes up (\<^verbatim>\<open>backends/cdda/cdda.c\<close>): the disc id, the CDDB file, and the
  decoding and rendering of CD-Text.

  A text under construction is the list of its bytes; its buffer's size is a parameter.  The append
  functions return 0 when the buffer is full; here that is \<open>None\<close>, and the callers give up the text.  A CD-Text pack is
  the list of its 18 bytes.
\<close>

section \<open>Data\<close>

definition CDDA_FRAME_SIZE :: nat where "CDDA_FRAME_SIZE = 2352"
definition CDDA_FRAMES_PER_SEC :: u32 where "CDDA_FRAMES_PER_SEC = 75"
definition CDDA_WAV_HEADER_SIZE :: nat where "CDDA_WAV_HEADER_SIZE = 44"
definition CDDA_AIFF_HEADER_SIZE :: nat where "CDDA_AIFF_HEADER_SIZE = 54"
definition CDDA_READAHEAD_FRAMES :: u32 where "CDDA_READAHEAD_FRAMES = 75"
definition CDDA_MAX_TRACKS :: nat where "CDDA_MAX_TRACKS = 99"

datatype cdda_file_format = CDDA_FILE_FORMAT_WAV | CDDA_FILE_FORMAT_AIFF

record cdda_track =
  trk_number :: u8
  trk_start_lba :: u32
  trk_length_frames :: u32
  trk_data_size :: u64
  trk_file_size :: u64
  trk_title :: "u8 list"

text \<open>Texts and the icon are \<open>None\<close> for NULL; the read-ahead buffer too.  The medium is the one the block cache points to.\<close>

record cdda_context =
  cd_tracks :: "cdda_track list"
  cd_mixed :: bool
  cd_format :: cdda_file_format
  cd_volume_name :: "u8 list"
  cd_album_title :: "u8 list"
  cd_cddb :: "u8 list option"
  cd_cdtext :: "u8 list option"
  cd_icon :: "u8 list option"
  cd_audio :: "u8 list option"
  cd_audio_lba :: u32
  cd_audio_frames :: u32

definition cdda_header_size :: "cdda_file_format \<Rightarrow> nat" where
  "cdda_header_size format = (if format = CDDA_FILE_FORMAT_AIFF then CDDA_AIFF_HEADER_SIZE else CDDA_WAV_HEADER_SIZE)"

section \<open>The disc id\<close>

fun digits_of :: "nat \<Rightarrow> nat list" where
  "digits_of n = (if n < 10 then [n] else digits_of (n div 10) @ [n mod 10])"

declare digits_of.simps [simp del]

definition cdda_sum_digits :: "u32 \<Rightarrow> u32" where
  "cdda_sum_digits v = of_nat (sum_list (digits_of (unat v)))"

definition cdda_track_offset_frames :: "cdda_track \<Rightarrow> u32" where
  "cdda_track_offset_frames trk = trk_start_lba trk + 150"

definition cdda_total_seconds :: "cdda_context \<Rightarrow> u32" where
  "cdda_total_seconds ctx =
     (if cd_tracks ctx = [] then 0
      else
        let first_frames = cdda_track_offset_frames (hd (cd_tracks ctx));
            l = last (cd_tracks ctx);
            leadout_frames = cdda_track_offset_frames l + trk_length_frames l
        in leadout_frames div CDDA_FRAMES_PER_SEC - first_frames div CDDA_FRAMES_PER_SEC)"

definition cdda_disc_id :: "cdda_context \<Rightarrow> u32" where
  "cdda_disc_id ctx =
     (let s = sum_list (map (\<lambda>trk. cdda_sum_digits (cdda_track_offset_frames trk div CDDA_FRAMES_PER_SEC)) (cd_tracks ctx)) in
      push_bit 24 (s mod 255) OR push_bit 8 (cdda_total_seconds ctx) OR of_nat (length (cd_tracks ctx)))"

definition hex_digits :: "u8 list" where "hex_digits = str_bytes ''0123456789abcdef''"

definition cdda_format_hex32 :: "u32 \<Rightarrow> u8 list" where
  "cdda_format_hex32 v = map (\<lambda>i. hex_digits ! unat (drop_bit (4 * (7 - i)) v AND 0x0F)) [0..<8]"

definition cdda_set_volume_name :: "cdda_context \<Rightarrow> cdda_context" where
  "cdda_set_volume_name ctx =
     (if cd_mixed ctx then ctx\<lparr>cd_volume_name := str_bytes ''CDDA''\<rparr>
      else ctx\<lparr>cd_volume_name := str_bytes ''Audio CD ('' @ cdda_format_hex32 (cdda_disc_id ctx) @ str_bytes '')''\<rparr>)"

definition cdda_set_album_volume_name :: "cdda_context \<Rightarrow> cdda_context" where
  "cdda_set_album_volume_name ctx =
     ctx\<lparr>cd_volume_name := map (\<lambda>c. if c = 0x3A \<or> c = 0x2F then 0x2D else c) (take 31 (cd_album_title ctx))\<rparr>"

section \<open>Building texts\<close>

definition cdda_append_bytes :: "nat \<Rightarrow> u8 list \<Rightarrow> u8 list \<Rightarrow> u8 list option" where
  "cdda_append_bytes buf_size src buf =
     (if length buf \<ge> buf_size \<or> length src \<ge> buf_size - length buf then None else Some (buf @ src))"

definition cdda_append_string :: "nat \<Rightarrow> u8 list \<Rightarrow> u8 list \<Rightarrow> u8 list option" where
  "cdda_append_string buf_size str buf = cdda_append_bytes buf_size (cstr str) buf"

definition cdda_append_line :: "nat \<Rightarrow> u8 list \<Rightarrow> u8 list \<Rightarrow> u8 list option" where
  "cdda_append_line buf_size v buf = do {
     buf \<leftarrow> cdda_append_string buf_size v buf;
     cdda_append_string buf_size [0x0A] buf }"

fun append_each :: "nat \<Rightarrow> u8 list \<Rightarrow> u8 list \<Rightarrow> u8 list option" where
  "append_each buf_size [] buf = Some buf"
| "append_each buf_size (c # cs) buf = do { buf \<leftarrow> cdda_append_bytes buf_size [c] buf; append_each buf_size cs buf }"

definition cdda_append_u32 :: "nat \<Rightarrow> u32 \<Rightarrow> nat \<Rightarrow> u8 list \<Rightarrow> u8 list option" where
  "cdda_append_u32 buf_size v min_width buf =
     (let digits = map (\<lambda>d. 0x30 + of_nat d) (digits_of (unat v)) in
      append_each buf_size (replicate (min_width - length digits) 0x30 @ digits) buf)"

definition cdda_append_u32_field :: "nat \<Rightarrow> u8 list \<Rightarrow> u32 \<Rightarrow> u8 list \<Rightarrow> u8 list option" where
  "cdda_append_u32_field buf_size key v buf = do {
     buf \<leftarrow> cdda_append_string buf_size key buf;
     buf \<leftarrow> cdda_append_string buf_size [0x3D] buf;
     buf \<leftarrow> cdda_append_u32 buf_size v 0 buf;
     cdda_append_string buf_size [0x0A] buf }"

definition cdda_append_hex32 :: "nat \<Rightarrow> u32 \<Rightarrow> u8 list \<Rightarrow> u8 list option" where
  "cdda_append_hex32 buf_size v buf = cdda_append_bytes buf_size (cdda_format_hex32 v) buf"

section \<open>The CDDB file\<close>

fun cddb_offsets :: "nat \<Rightarrow> nat \<Rightarrow> cdda_track list \<Rightarrow> u8 list \<Rightarrow> u8 list option" where
  "cddb_offsets n i [] buf = Some buf"
| "cddb_offsets n i (trk # trks) buf = do {
     buf \<leftarrow> cdda_append_string n (str_bytes ''OFFSET'') buf;
     buf \<leftarrow> cdda_append_u32 n (of_nat (i + 1)) 2 buf;
     buf \<leftarrow> cdda_append_string n [0x3D] buf;
     buf \<leftarrow> cdda_append_u32 n (cdda_track_offset_frames trk) 0 buf;
     buf \<leftarrow> cdda_append_string n [0x0A] buf;
     cddb_offsets n (i + 1) trks buf }"

fun cddb_query :: "nat \<Rightarrow> cdda_track list \<Rightarrow> u8 list \<Rightarrow> u8 list option" where
  "cddb_query n [] buf = Some buf"
| "cddb_query n (trk # trks) buf = do {
     buf \<leftarrow> cdda_append_string n [0x20] buf;
     buf \<leftarrow> cdda_append_u32 n (cdda_track_offset_frames trk) 0 buf;
     cddb_query n trks buf }"

definition cddb_text :: "cdda_context \<Rightarrow> nat \<Rightarrow> u8 list option" where
  "cddb_text ctx n = do {
     let trks = cd_tracks ctx;
     let count = of_nat (length trks);
     let disc_id = cdda_disc_id ctx;
     let secs = cdda_total_seconds ctx;
     buf \<leftarrow> cdda_append_string n (str_bytes ''# Generated by ODFileSystem from disc TOC'' @ [0x0A] @ str_bytes ''DISCID='') [];
     buf \<leftarrow> cdda_append_hex32 n disc_id buf;
     buf \<leftarrow> cdda_append_string n [0x0A] buf;
     buf \<leftarrow> cdda_append_u32_field n (str_bytes ''TRACKS'') count buf;
     buf \<leftarrow> cdda_append_u32_field n (str_bytes ''TOTAL_SECONDS'') secs buf;
     buf \<leftarrow> cdda_append_u32_field n (str_bytes ''TOTAL_FRAMES'') (secs * CDDA_FRAMES_PER_SEC) buf;
     buf \<leftarrow> cddb_offsets n 0 trks buf;
     buf \<leftarrow> cdda_append_string n (str_bytes ''QUERY=cddb query '') buf;
     buf \<leftarrow> cdda_append_hex32 n disc_id buf;
     buf \<leftarrow> cdda_append_string n [0x20] buf;
     buf \<leftarrow> cdda_append_u32 n count 0 buf;
     buf \<leftarrow> cddb_query n trks buf;
     buf \<leftarrow> cdda_append_string n [0x20] buf;
     buf \<leftarrow> cdda_append_u32 n secs 0 buf;
     cdda_append_string n [0x0A] buf }"

definition cdda_generate_cddb :: "cdda_context \<Rightarrow> heap \<Rightarrow> cdda_context \<times> heap" where
  "cdda_generate_cddb ctx h =
     (if cd_tracks ctx = [] then (ctx, h)
      else let text_size = 256 + length (cd_tracks ctx) * 48 in
      case odfs_malloc h of
        (False, h) \<Rightarrow> (ctx, h)
      | (True, h) \<Rightarrow>
          (case cddb_text ctx text_size of
             None \<Rightarrow> (ctx, h)
           | Some text \<Rightarrow> (ctx\<lparr>cd_cddb := Some text\<rparr>, h)))"

section \<open>CD-Text\<close>

definition cdda_cdtext_type_name :: "u8 \<Rightarrow> u8 \<Rightarrow> u8 list" where
  "cdda_cdtext_type_name ty track = str_bytes
     (if ty = 0x80 then ''TITLE'' else if ty = 0x81 then ''PERFORMER'' else if ty = 0x82 then ''SONGWRITER''
      else if ty = 0x83 then ''COMPOSER'' else if ty = 0x84 then ''ARRANGER'' else if ty = 0x85 then ''MESSAGE''
      else if ty = 0x86 then ''DISC_ID'' else if ty = 0x87 then ''GENRE'' else if ty = 0x88 then ''TOC_INFO''
      else if ty = 0x89 then ''TOC_INFO2'' else if ty = 0x8E then (if track = 0 then ''UPC_EAN'' else ''ISRC'')
      else if ty = 0x8F then ''SIZE_INFO'' else ''UNKNOWN'')"

definition sanitize_char :: "u8 \<Rightarrow> u8" where
  "sanitize_char c =
     (let c = (if c = 0x0D \<or> c = 0x0A \<or> c = 0x09 then 0x20 else c) in if c < 0x20 \<or> c > 0x7E then 0x3F else c)"

definition cdda_sanitize_ascii :: "nat \<Rightarrow> u8 list \<Rightarrow> u8 list" where
  "cdda_sanitize_ascii dst_size src = map sanitize_char (take (dst_size - 1) src)"

definition HEX_DIGITS :: "u8 list" where "HEX_DIGITS = str_bytes ''0123456789ABCDEF''"

fun cdda_hex_encode :: "nat \<Rightarrow> u8 list \<Rightarrow> u8 list \<Rightarrow> u8 list" where
  "cdda_hex_encode dst_size [] dst = dst"
| "cdda_hex_encode dst_size (b # src) dst =
     (if length dst + 2 < dst_size
      then cdda_hex_encode dst_size src (dst @ [HEX_DIGITS ! unat (drop_bit 4 b), HEX_DIGITS ! unat (b AND 0x0F)])
      else dst)"

definition cdda_append_cdtext_key :: "nat \<Rightarrow> u8 \<Rightarrow> u32 \<Rightarrow> u8 \<Rightarrow> u8 list \<Rightarrow> u8 list option" where
  "cdda_append_cdtext_key n ty track block buf = do {
     buf \<leftarrow> (if block \<noteq> 0 then do {
                buf \<leftarrow> cdda_append_string n (str_bytes ''BLOCK'') buf;
                buf \<leftarrow> cdda_append_u32 n (ucast block) 2 buf;
                cdda_append_string n [0x2E] buf }
              else Some buf);
     buf \<leftarrow> (if track = 0 then cdda_append_string n (str_bytes ''DISC.'') buf
              else do {
                buf \<leftarrow> cdda_append_string n (str_bytes ''TRACK'') buf;
                buf \<leftarrow> cdda_append_u32 n track 2 buf;
                cdda_append_string n [0x2E] buf });
     buf \<leftarrow> cdda_append_string n (cdda_cdtext_type_name ty (ucast track)) buf;
     cdda_append_string n [0x3D] buf }"

text \<open>The strings of a field, separated by zero bytes.\<close>

function append_values :: "nat \<Rightarrow> u8 list \<Rightarrow> nat \<Rightarrow> u8 list \<Rightarrow> u8 list option" where
  "append_values n dat value_count buf =
     (if dat = [] then Some buf
      else do {
        let v = takeWhile (\<lambda>c. c \<noteq> 0) dat;
        let rest = drop (length v + 1) dat;
        if v \<noteq> [] then do {
          buf \<leftarrow> (if value_count > 0 then cdda_append_string n (str_bytes ''; '') buf else Some buf);
          buf \<leftarrow> cdda_append_string n (cdda_sanitize_ascii 256 v) buf;
          append_values n rest (value_count + 1) buf }
        else append_values n rest value_count buf })"
  by pat_completeness auto
termination
  by (relation "measure (\<lambda>(n, dat, k, buf). length dat)") auto

declare append_values.simps [simp del]

definition cdda_append_cdtext_record :: "nat \<Rightarrow> u8 \<Rightarrow> u8 \<Rightarrow> u8 \<Rightarrow> bool \<Rightarrow> u8 list \<Rightarrow> u8 list \<Rightarrow> u8 list option" where
  "cdda_append_cdtext_record n ty track block is_dbcs dat buf = do {
     buf \<leftarrow> cdda_append_cdtext_key n ty (ucast track) block buf;
     if is_dbcs then cdda_append_string n (str_bytes ''<DBCS>'' @ [0x0A]) buf
     else if ty \<ge> 0x80 \<and> ty \<le> 0x85 then do {
       buf \<leftarrow> append_values n dat 0 buf;
       cdda_append_string n [0x0A] buf }
     else if ty = 0x8E then cdda_append_line n (cdda_sanitize_ascii 256 dat) buf
     else cdda_append_line n (cdda_hex_encode 256 dat []) buf }"

text \<open>A title of a single TAB stands for that of the track before; track 0 is the album.\<close>

fun set_title :: "int \<Rightarrow> u8 list \<Rightarrow> cdda_track list \<Rightarrow> cdda_track list" where
  "set_title track title [] = []"
| "set_title track title (trk # trks) =
     (if int (unat (trk_number trk)) = track then trk\<lparr>trk_title := title\<rparr> # trks else trk # set_title track title trks)"

definition cdda_store_track_title :: "cdda_context \<Rightarrow> int \<Rightarrow> u8 list \<Rightarrow> cdda_context" where
  "cdda_store_track_title ctx track title =
     (if track < 0 \<or> title = [] then ctx
      else if track = 0 then
        (if title = [0x09] then ctx else ctx\<lparr>cd_album_title := cdda_sanitize_ascii 32 title\<rparr>)
      else if title = [0x09] then
        (case find (\<lambda>trk. int (unat (trk_number trk)) = track - 1) (cd_tracks ctx) of
           None \<Rightarrow> ctx
         | Some prev \<Rightarrow> ctx\<lparr>cd_tracks := set_title track (trk_title prev) (cd_tracks ctx)\<rparr>)
      else ctx\<lparr>cd_tracks := set_title track (cdda_sanitize_ascii ODFS_AMIGA_COMMENT_MAX title) (cd_tracks ctx)\<rparr>)"

text \<open>Where the walk over the packs stands: the string so far, its track (\<open>-1\<close> before the first), whether its head is missing.\<close>

record 'a pack_walk =
  pw_cur :: "u8 list"
  pw_track :: int
  pw_skip :: bool
  pw_out :: 'a

text \<open>What the head of a pack says about where it starts.\<close>

definition pack_resync :: "u8 list \<Rightarrow> 'a pack_walk \<Rightarrow> 'a pack_walk" where
  "pack_resync pack w =
     (if (pack ! 3) AND 0x0F = 0 then w\<lparr>pw_track := int (unat (pack ! 1)), pw_cur := [], pw_skip := False\<rparr>
      else if pw_track w < 0 then w\<lparr>pw_track := int (unat (pack ! 1)), pw_cur := [], pw_skip := True\<rparr>
      else w)"

definition pack_block :: "u8 list \<Rightarrow> u8" where
  "pack_block pack = drop_bit 4 (pack ! 3) AND 0x07"

definition pack_dbcs :: "u8 list \<Rightarrow> bool" where
  "pack_dbcs pack \<longleftrightarrow> (pack ! 3) AND 0x80 \<noteq> 0"

definition title_char :: "u8 \<Rightarrow> cdda_context pack_walk \<Rightarrow> cdda_context pack_walk" where
  "title_char c w =
     (if c = 0 then
        w\<lparr>pw_out := (if pw_skip w then pw_out w else cdda_store_track_title (pw_out w) (pw_track w) (pw_cur w)),
          pw_track := pw_track w + 1, pw_cur := [], pw_skip := False\<rparr>
      else if length (pw_cur w) + 1 < ODFS_AMIGA_COMMENT_MAX * 2 then w\<lparr>pw_cur := pw_cur w @ [c]\<rparr>
      else w)"

definition title_pack :: "u8 list \<Rightarrow> cdda_context pack_walk \<Rightarrow> cdda_context pack_walk" where
  "title_pack pack w =
     (if pack ! 0 \<noteq> 0x80 \<or> pack_block pack \<noteq> 0 \<or> pack_dbcs pack then w
      else fold title_char (take 12 (drop 4 pack)) (pack_resync pack w))"

definition cdda_extract_track_titles :: "cdda_context \<Rightarrow> u8 list list \<Rightarrow> cdda_context" where
  "cdda_extract_track_titles ctx packs =
     pw_out (fold title_pack packs \<lparr>pw_cur = [], pw_track = -1, pw_skip = False, pw_out = ctx\<rparr>)"

definition string_char :: "nat \<Rightarrow> u8 \<Rightarrow> u8 \<Rightarrow> u8 \<Rightarrow> u8 list pack_walk \<Rightarrow> u8 list pack_walk option" where
  "string_char n ty block c w =
     (if c \<noteq> 0 then Some (if length (pw_cur w) + 1 < 256 then w\<lparr>pw_cur := pw_cur w @ [c]\<rparr> else w)
      else do {
        buf \<leftarrow> (if \<not> pw_skip w \<and> pw_cur w \<noteq> [] then do {
                   buf \<leftarrow> cdda_append_cdtext_key n ty (word_of_int (pw_track w)) block (pw_out w);
                   cdda_append_line n (cdda_sanitize_ascii 256 (pw_cur w)) buf }
                 else Some (pw_out w));
        Some (w\<lparr>pw_out := buf, pw_track := pw_track w + 1, pw_cur := [], pw_skip := False\<rparr>) })"

fun string_chars :: "nat \<Rightarrow> u8 \<Rightarrow> u8 \<Rightarrow> u8 list \<Rightarrow> u8 list pack_walk \<Rightarrow> u8 list pack_walk option" where
  "string_chars n ty block [] w = Some w"
| "string_chars n ty block (c # chs) w = do { w \<leftarrow> string_char n ty block c w; string_chars n ty block chs w }"

fun string_packs :: "nat \<Rightarrow> u8 \<Rightarrow> u8 \<Rightarrow> u8 list list \<Rightarrow> u8 list pack_walk \<Rightarrow> u8 list pack_walk option" where
  "string_packs n ty block [] w = Some w"
| "string_packs n ty block (pack # packs) w =
     (if pack ! 0 \<noteq> ty \<or> pack_block pack \<noteq> block \<or> pack_dbcs pack then string_packs n ty block packs w
      else do {
        w \<leftarrow> string_chars n ty block (take 12 (drop 4 pack)) (pack_resync pack w);
        string_packs n ty block packs w })"

definition cdda_render_cdtext_strings :: "u8 list list \<Rightarrow> u8 \<Rightarrow> u8 \<Rightarrow> nat \<Rightarrow> u8 list \<Rightarrow> u8 list option" where
  "cdda_render_cdtext_strings packs ty block n buf =
     map_option pw_out (string_packs n ty block packs \<lparr>pw_cur = [], pw_track = -1, pw_skip = False, pw_out = buf\<rparr>)"

fun render_all :: "u8 list list \<Rightarrow> (u8 \<times> u8) list \<Rightarrow> nat \<Rightarrow> u8 list \<Rightarrow> u8 list option" where
  "render_all packs [] n buf = Some buf"
| "render_all packs ((ty, block) # tbs) n buf = do {
     buf \<leftarrow> cdda_render_cdtext_strings packs ty block n buf;
     render_all packs tbs n buf }"

text \<open>The field collected from the current run of packs of one kind, if there is one.\<close>

record pack_run =
  run_type :: u8
  run_track :: u8
  run_block :: u8
  run_dbcs :: bool
  run_field :: "u8 list"

definition flush_run :: "nat \<Rightarrow> pack_run option \<Rightarrow> u8 list \<Rightarrow> u8 list option" where
  "flush_run n cur buf =
     (case cur of
        None \<Rightarrow> Some buf
      | Some r \<Rightarrow> cdda_append_cdtext_record n (run_type r) (run_track r) (run_block r) (run_dbcs r) (run_field r) buf)"

fun run_packs :: "nat \<Rightarrow> nat \<Rightarrow> u8 list list \<Rightarrow> pack_run option \<Rightarrow> u8 list \<Rightarrow> u8 list option" where
  "run_packs n field_cap [] cur buf = flush_run n cur buf"
| "run_packs n field_cap (pack # packs) cur buf =
     (if pack ! 0 \<ge> 0x80 \<and> pack ! 0 \<le> 0x85 \<and> \<not> pack_dbcs pack then run_packs n field_cap packs cur buf
      else do {
        let fresh = \<lparr>run_type = pack ! 0, run_track = pack ! 1, run_block = pack_block pack, run_dbcs = pack_dbcs pack, run_field = []\<rparr>;
        let same = (case cur of None \<Rightarrow> False | Some r \<Rightarrow> r\<lparr>run_field := []\<rparr> = fresh);
        buf \<leftarrow> (if same then Some buf else flush_run n cur buf);
        let r = (if same then the cur else fresh);
        run_packs n field_cap packs
          (Some (if length (run_field r) + 12 \<le> field_cap then r\<lparr>run_field := run_field r @ take 12 (drop 4 pack)\<rparr> else r)) buf })"

definition cdtext_packs :: "u8 list \<Rightarrow> u8 list list" where
  "cdtext_packs raw = map (\<lambda>i. take 18 (drop (4 + i * 18) raw)) [0..<(length raw - 4) div 18]"

text \<open>\<open>raw\<close> is what the medium gives for CD-Text, \<open>None\<close> if it has none.\<close>

definition cdda_generate_cdtext :: "cdda_context \<Rightarrow> u8 list option \<Rightarrow> heap \<Rightarrow> cdda_context \<times> heap" where
  "cdda_generate_cdtext ctx raw h =
     (case raw of
        None \<Rightarrow> (ctx, h)
      | Some raw \<Rightarrow>
          if length raw \<le> 4 then (ctx, h)
          else let packs = cdtext_packs raw in
          if packs = [] then (ctx, h)
          else
            let ctx = cdda_extract_track_titles ctx packs;
                (ok1, h) = odfs_malloc h;
                (ok2, h) = odfs_malloc h;
                n = 128 + length raw * 4 in
            if \<not> ok1 \<or> \<not> ok2 then (ctx, h)
            else
              (case do {
                 buf \<leftarrow> cdda_append_string n (str_bytes ''# Generated by ODFileSystem from CD-Text packs'' @ [0x0A]) [];
                 buf \<leftarrow> render_all packs (List.product [0x80, 0x81, 0x82, 0x83, 0x84, 0x85] [0, 1, 2, 3, 4, 5, 6, 7]) n buf;
                 run_packs n (length packs * 12) packs None buf } of
                 None \<Rightarrow> (ctx, h)
               | Some text \<Rightarrow> (ctx\<lparr>cd_cdtext := Some text\<rparr>, h)))"

end
