(* ===== verification/Cdda.thy ===== *)
theory Cdda
  imports Cdda_Text Mount
begin

text \<open>
  The audio backend (\<^verbatim>\<open>backends/cdda/cdda.c\<close>, \<^verbatim>\<open>cdda.h\<close>): the tracks of an audio disc as WAV or AIFF files,
  and up to three files of text and icon data.

  The medium of the context is the one of the block cache.  What \<open>odfs_media_read_cdtext\<close> gives is a
  parameter of the mount operation.  Buffers from \<open>odfs_malloc\<close> and arrays on the stack start out as
  zeros here; the code does not read them before it has filled them.
\<close>

section \<open>Files made up from memory\<close>

definition CDDA_CDDB_NAME :: "u8 list" where "CDDA_CDDB_NAME = str_bytes ''CDDB.txt''"
definition CDDA_CDDB_NODE_ID :: u32 where "CDDA_CDDB_NODE_ID = 0x43444442"
definition CDDA_CDDB_LBA :: u32 where "CDDA_CDDB_LBA = 0xFFFFFFFE"
definition CDDA_CDTEXT_NAME :: "u8 list" where "CDDA_CDTEXT_NAME = str_bytes ''CD-TEXT.txt''"
definition CDDA_CDTEXT_NODE_ID :: u32 where "CDDA_CDTEXT_NODE_ID = 0x43445458"
definition CDDA_CDTEXT_LBA :: u32 where "CDDA_CDTEXT_LBA = 0xFFFFFFFD"
definition CDDA_DISK_ICON_NAME :: "u8 list" where "CDDA_DISK_ICON_NAME = str_bytes ''Disk.info''"
definition CDDA_DISK_ICON_NODE_ID :: u32 where "CDDA_DISK_ICON_NODE_ID = 0x44494E46"
definition CDDA_DISK_ICON_LBA :: u32 where "CDDA_DISK_ICON_LBA = 0xFFFFFFFC"

definition cdda_fill_virtual_node :: "u8 list option \<Rightarrow> u32 \<Rightarrow> u32 \<Rightarrow> u8 list \<Rightarrow> odfs_node option" where
  "cdda_fill_virtual_node dat ident l nm =
     (case dat of
        None \<Rightarrow> None
      | Some bs \<Rightarrow>
          if bs = [] then None
          else if length nm + 1 > ODFS_NAME_MAX then None
          else Some (zero_node\<lparr>node_id := ident, parent_id := 0, backend := ODFS_BACKEND_CDDA, kind := ODFS_NODE_VIRTUAL,
                 size := of_nat (length bs), extent := \<lparr>lba = l, extlen = of_nat (length bs)\<rparr>, name := nm\<rparr>))"

definition cdda_fill_cddb_node :: "cdda_context \<Rightarrow> odfs_node option" where
  "cdda_fill_cddb_node ctx = cdda_fill_virtual_node (cd_cddb ctx) CDDA_CDDB_NODE_ID CDDA_CDDB_LBA CDDA_CDDB_NAME"

definition cdda_fill_cdtext_node :: "cdda_context \<Rightarrow> odfs_node option" where
  "cdda_fill_cdtext_node ctx = cdda_fill_virtual_node (cd_cdtext ctx) CDDA_CDTEXT_NODE_ID CDDA_CDTEXT_LBA CDDA_CDTEXT_NAME"

definition present :: "u8 list option \<Rightarrow> bool" where
  "present dat = (case dat of None \<Rightarrow> False | Some bs \<Rightarrow> bs \<noteq> [])"

definition cdda_fill_disk_icon_node :: "cdda_context \<Rightarrow> odfs_node option" where
  "cdda_fill_disk_icon_node ctx =
     (if cd_mixed ctx \<or> \<not> present (cd_icon ctx) then None
      else cdda_fill_virtual_node (cd_icon ctx) CDDA_DISK_ICON_NODE_ID CDDA_DISK_ICON_LBA CDDA_DISK_ICON_NAME)"

definition cdda_metadata_count :: "cdda_context \<Rightarrow> int" where
  "cdda_metadata_count ctx =
     (if \<not> cd_mixed ctx \<and> present (cd_icon ctx) then 1 else 0) +
     (if present (cd_cddb ctx) then 1 else 0) + (if present (cd_cdtext ctx) then 1 else 0)"

definition cdda_fill_metadata_node :: "cdda_context \<Rightarrow> int \<Rightarrow> odfs_node option" where
  "cdda_fill_metadata_node ctx index =
     (let icon = (\<not> cd_mixed ctx \<and> present (cd_icon ctx)) in
      if icon \<and> index = 0 then cdda_fill_disk_icon_node ctx
      else let index = (if icon then index - 1 else index) in
      if present (cd_cddb ctx) \<and> index = 0 then cdda_fill_cddb_node ctx
      else let index = (if present (cd_cddb ctx) then index - 1 else index) in
      if present (cd_cdtext ctx) \<and> index = 0 then cdda_fill_cdtext_node ctx
      else None)"

section \<open>Headers\<close>

definition CDDA_SAMPLE_RATE :: u32 where "CDDA_SAMPLE_RATE = 44100"
definition CDDA_CHANNELS :: u32 where "CDDA_CHANNELS = 2"
definition CDDA_BITS_PER_SAMPLE :: u32 where "CDDA_BITS_PER_SAMPLE = 16"

definition cdda_write_le16 :: "u16 \<Rightarrow> u8 list" where
  "cdda_write_le16 v = [ucast v, ucast (drop_bit 8 v)]"
definition cdda_write_le32 :: "u32 \<Rightarrow> u8 list" where
  "cdda_write_le32 v = [ucast v, ucast (drop_bit 8 v), ucast (drop_bit 16 v), ucast (drop_bit 24 v)]"
definition cdda_write_be16 :: "u16 \<Rightarrow> u8 list" where
  "cdda_write_be16 v = [ucast (drop_bit 8 v), ucast v]"
definition cdda_write_be32 :: "u32 \<Rightarrow> u8 list" where
  "cdda_write_be32 v = [ucast (drop_bit 24 v), ucast (drop_bit 16 v), ucast (drop_bit 8 v), ucast v]"

definition cdda_build_wav_header :: "u32 \<Rightarrow> u8 list" where
  "cdda_build_wav_header data_size =
     (let byte_rate = CDDA_SAMPLE_RATE * CDDA_CHANNELS * (CDDA_BITS_PER_SAMPLE div 8);
          block_align = (ucast (CDDA_CHANNELS * (CDDA_BITS_PER_SAMPLE div 8)) :: u16)
      in str_bytes ''RIFF'' @ cdda_write_le32 (36 + data_size) @ str_bytes ''WAVE'' @ str_bytes ''fmt '' @
         cdda_write_le32 16 @ cdda_write_le16 1 @ cdda_write_le16 (ucast CDDA_CHANNELS) @
         cdda_write_le32 CDDA_SAMPLE_RATE @ cdda_write_le32 byte_rate @ cdda_write_le16 block_align @
         cdda_write_le16 (ucast CDDA_BITS_PER_SAMPLE) @ str_bytes ''data'' @ cdda_write_le32 data_size)"

definition cdda_build_aiff_header :: "u32 \<Rightarrow> u8 list" where
  "cdda_build_aiff_header data_size =
     (let sample_frames = data_size div (CDDA_CHANNELS * (CDDA_BITS_PER_SAMPLE div 8))
      in str_bytes ''FORM'' @ cdda_write_be32 (46 + data_size) @ str_bytes ''AIFF'' @ str_bytes ''COMM'' @
         cdda_write_be32 18 @ cdda_write_be16 (ucast CDDA_CHANNELS) @ cdda_write_be32 sample_frames @
         cdda_write_be16 (ucast CDDA_BITS_PER_SAMPLE) @ [0x40, 0x0E, 0xAC, 0x44, 0, 0, 0, 0, 0, 0] @
         str_bytes ''SSND'' @ cdda_write_be32 (8 + data_size) @ cdda_write_be32 0 @ cdda_write_be32 0)"

definition cdda_build_header :: "cdda_file_format \<Rightarrow> u32 \<Rightarrow> u8 list" where
  "cdda_build_header format data_size =
     (if format = CDDA_FILE_FORMAT_AIFF then cdda_build_aiff_header data_size else cdda_build_wav_header data_size)"

definition cdda_track_name :: "u8 \<Rightarrow> cdda_file_format \<Rightarrow> u8 list" where
  "cdda_track_name track_num format =
     str_bytes ''Track'' @ [0x30 + track_num div 10, 0x30 + track_num mod 10] @ str_bytes ''.'' @
     (if format = CDDA_FILE_FORMAT_AIFF then str_bytes ''aiff'' else str_bytes ''wav'')"

section \<open>Audio data\<close>

fun cdda_byteswap_samples :: "u8 list \<Rightarrow> u8 list" where
  "cdda_byteswap_samples (a # b # bs) = b # a # cdda_byteswap_samples bs"
| "cdda_byteswap_samples bs = bs"

definition cdda_audio_cache_contains :: "cdda_context \<Rightarrow> u32 \<Rightarrow> bool" where
  "cdda_audio_cache_contains ctx l \<longleftrightarrow>
     cd_audio ctx \<noteq> None \<and> cd_audio_frames ctx \<noteq> 0 \<and> l \<ge> cd_audio_lba ctx \<and> l < cd_audio_lba ctx + cd_audio_frames ctx"

definition has_read_audio :: "'m odfs_cache \<Rightarrow> bool" where
  "has_read_audio c = (case c_media c of None \<Rightarrow> False | Some m \<Rightarrow> read_audio (mops m) \<noteq> None)"

definition media_read_audio :: "'m odfs_cache \<Rightarrow> u32 \<Rightarrow> u32 \<Rightarrow> (odfs_err \<times> u8 list \<times> 'm odfs_cache) option" where
  "media_read_audio c l count = do {
     m \<leftarrow> c_media c;
     (case odfs_media_read_audio m l count of (err, bs, m) \<Rightarrow> Some (err, bs, c\<lparr>c_media := Some m\<rparr>)) }"

definition cdda_fill_audio_cache ::
    "cdda_context \<Rightarrow> 'm odfs_cache \<Rightarrow> cdda_track \<Rightarrow> u32 \<Rightarrow> (odfs_err \<times> cdda_context \<times> 'm odfs_cache) option" where
  "cdda_fill_audio_cache ctx c trk frame_num =
     (case cd_audio ctx of
        None \<Rightarrow> Some (ODFS_ERR_UNSUPPORTED, ctx, c)
      | Some ac \<Rightarrow>
          if \<not> has_read_audio c then Some (ODFS_ERR_UNSUPPORTED, ctx, c)
          else if frame_num \<ge> trk_length_frames trk then Some (ODFS_ERR_RANGE, ctx, c)
          else do {
            let frames = trk_length_frames trk - frame_num;
            let frames = (if frames > CDDA_READAHEAD_FRAMES then CDDA_READAHEAD_FRAMES else frames);
            let start_lba = trk_start_lba trk + frame_num;
            (err, bs, c) \<leftarrow> media_read_audio c start_lba frames;
            ac \<leftarrow> wrn ac 0 bs;
            if err \<noteq> ODFS_OK then Some (err, ctx\<lparr>cd_audio := Some ac, cd_audio_frames := 0\<rparr>, c)
            else do {
              let n = unat frames * CDDA_FRAME_SIZE;
              ac \<leftarrow> (if cd_format ctx = CDDA_FILE_FORMAT_AIFF then do {
                         samples \<leftarrow> rdn ac 0 n;
                         wrn ac 0 (cdda_byteswap_samples samples) }
                       else Some ac);
              Some (ODFS_OK, ctx\<lparr>cd_audio := Some ac, cd_audio_lba := start_lba, cd_audio_frames := frames\<rparr>, c) } })"

section \<open>Mounting\<close>

definition cdda_probe :: "'m odfs_cache \<Rightarrow> u32 \<Rightarrow> (odfs_err \<times> 'm odfs_cache) option" where
  "cdda_probe c session_start = Some (ODFS_ERR_BAD_FORMAT, c)"

text \<open>The audio tracks among the sessions of the table of contents, at most \<open>CDDA_MAX_TRACKS\<close>; \<open>n\<close> is how
  many there are so far.\<close>

fun toc_tracks :: "odfs_toc \<Rightarrow> nat \<Rightarrow> nat list \<Rightarrow> nat \<Rightarrow> cdda_track list option" where
  "toc_tracks toc header_size [] n = Some []"
| "toc_tracks toc header_size (i # is) n =
     (if n \<ge> CDDA_MAX_TRACKS then Some []
      else do {
        s \<leftarrow> rd (toc_sessions toc) i;
        let start = sess_start_lba s;
        if sess_control s AND 4 \<noteq> 0 then toc_tracks toc header_size is n
        else do {
          len \<leftarrow> (if sess_length s = 0 \<and> i + 1 < unat (toc_session_count toc) then do {
                      s' \<leftarrow> rd (toc_sessions toc) (i + 1);
                      Some (sess_start_lba s' - start) }
                    else Some (sess_length s));
          let len = (if len = 0 \<and> toc_leadout_lba toc > start then toc_leadout_lba toc - start else len);
          if len = 0 then toc_tracks toc header_size is n
          else do {
            let dsize = (ucast len * 2352 :: u64);
            trks \<leftarrow> toc_tracks toc header_size is (n + 1);
            Some (\<lparr>trk_number = sess_number s, trk_start_lba = start, trk_length_frames = len, trk_data_size = dsize,
                    trk_file_size = dsize + of_nat header_size, trk_title = []\<rparr> # trks) } } })"

definition cdda_root :: "bool \<Rightarrow> odfs_node" where
  "cdda_root mixed = zero_node\<lparr>backend := ODFS_BACKEND_CDDA, kind := ODFS_NODE_DIR,
     name := (if mixed then str_bytes ''CDDA'' else [0x2F])\<rparr>"

definition cdda_mount_from_toc ::
    "odfs_toc \<Rightarrow> bool \<Rightarrow> odfs_mount_opts option \<Rightarrow> u8 list option \<Rightarrow> heap \<Rightarrow>
     ((odfs_err + odfs_node \<times> cdda_context) \<times> heap) option" where
  "cdda_mount_from_toc toc has_data_session opts raw h =
     (case odfs_malloc h of
        (False, h) \<Rightarrow> Some (Inl ODFS_ERR_NOMEM, h)
      | (True, h) \<Rightarrow> do {
          let format = (case opts of Some o' \<Rightarrow> if prefer_aiff o' then CDDA_FILE_FORMAT_AIFF else CDDA_FILE_FORMAT_WAV
                        | None \<Rightarrow> CDDA_FILE_FORMAT_WAV);
          trks \<leftarrow> toc_tracks toc (cdda_header_size format) [0..<unat (toc_session_count toc)] 0;
          if trks = [] then Some (Inl ODFS_ERR_BAD_FORMAT, h)
          else do {
            let ctx = cdda_set_volume_name
              \<lparr>cd_tracks = trks, cd_mixed = has_data_session, cd_format = format, cd_volume_name = [], cd_album_title = [],
               cd_cddb = None, cd_cdtext = None, cd_icon = None, cd_audio = None, cd_audio_lba = 0, cd_audio_frames = 0\<rparr>;
            let (ok, h) = odfs_malloc h;
            let ctx = ctx\<lparr>cd_audio := (if ok then Some (zero_bytes (unat CDDA_READAHEAD_FRAMES * CDDA_FRAME_SIZE)) else None)\<rparr>;
            let (ctx, h) = cdda_generate_cddb ctx h;
            let (ctx, h) = cdda_generate_cdtext ctx raw h;
            let ctx = (if \<not> cd_mixed ctx \<and> cd_album_title ctx \<noteq> [] then cdda_set_album_volume_name ctx else ctx);
            Some (Inr (cdda_root (cd_mixed ctx), ctx), h) } })"

definition cdda_mount ::
    "'m odfs_cache \<Rightarrow> heap \<Rightarrow> u32 \<Rightarrow> ((odfs_err + odfs_node \<times> cdda_context) \<times> 'm odfs_cache \<times> heap) option" where
  "cdda_mount c h session_start = Some (Inl ODFS_ERR_UNSUPPORTED, c, h)"

section \<open>Enumeration and lookup\<close>

definition cdda_fill_track_node :: "cdda_context \<Rightarrow> nat \<Rightarrow> odfs_node" where
  "cdda_fill_track_node ctx i =
     (let trk = cd_tracks ctx ! i;
          node = zero_node\<lparr>node_id := ucast (trk_number trk), parent_id := 0, backend := ODFS_BACKEND_CDDA,
            kind := ODFS_NODE_VIRTUAL, size := trk_file_size trk,
            extent := \<lparr>lba = of_nat (i + 2), extlen = ucast (trk_file_size trk)\<rparr>,
            name := cdda_track_name (trk_number trk) (cd_format ctx)\<rparr>
      in if trk_title trk \<noteq> []
         then node\<lparr>amiga_as := amiga_as node\<lparr>comment := trk_title trk, has_comment := True\<rparr>\<rparr>
         else node)"

text \<open>One of the two loops of \<open>cdda_readdir\<close>, over the indices it runs through; \<open>Some\<close> is the error of the
  callback and the index it stopped at.\<close>

fun cdda_emit ::
    "(int \<Rightarrow> odfs_node option) \<Rightarrow> int list \<Rightarrow> 's dir_iter_fn \<Rightarrow> 's \<Rightarrow> heap \<Rightarrow> (odfs_err \<times> int) option \<times> 's \<times> heap" where
  "cdda_emit fill [] cb s h = (None, s, h)"
| "cdda_emit fill (i # is) cb s h =
     (case fill i of
        None \<Rightarrow> cdda_emit fill is cb s h
      | Some node \<Rightarrow>
          (case cb node s h of
             (err, s, h) \<Rightarrow> if err \<noteq> ODFS_OK then (Some (err, i), s, h) else cdda_emit fill is cb s h))"

text \<open>The resume offset becomes a signed number; the subtraction may not leave its range.\<close>

definition cdda_readdir ::
    "cdda_context \<Rightarrow> 'm odfs_cache \<Rightarrow> heap \<Rightarrow> odfs_node \<Rightarrow> 's dir_iter_fn \<Rightarrow> 's \<Rightarrow> u32 \<Rightarrow>
     ('m, cdda_context, odfs_err \<times> u32 \<times> 's) be_result" where
  "cdda_readdir ctx c h dir cb s resume =
     (let start = sint resume;
          metadata_count = cdda_metadata_count ctx;
          track_count = int (length (cd_tracks ctx)) in
      case cdda_emit (cdda_fill_metadata_node ctx) [start..metadata_count - 1] cb s h of
        (Some (err, i), s, h) \<Rightarrow> Some ((err, word_of_int i, s), ctx, c, h)
      | (None, s, h) \<Rightarrow>
          if start - metadata_count < - (2 ^ 31) then None
          else
            (case cdda_emit (\<lambda>i. if i < 0 then None else Some (cdda_fill_track_node ctx (nat i)))
                [start - metadata_count..track_count - 1] cb s h of
               (Some (err, i), s, h) \<Rightarrow> Some ((err, word_of_int (metadata_count + i), s), ctx, c, h)
             | (None, s, h) \<Rightarrow> Some ((ODFS_OK, word_of_int (metadata_count + track_count), s), ctx, c, h)))"

fun lookup_track :: "cdda_context \<Rightarrow> u8 list \<Rightarrow> nat list \<Rightarrow> odfs_node option" where
  "lookup_track ctx nm [] = None"
| "lookup_track ctx nm (i # is) =
     (if odfs_strcasecmp nm (cdda_track_name (trk_number (cd_tracks ctx ! i)) (cd_format ctx)) = 0
      then Some (cdda_fill_track_node ctx i) else lookup_track ctx nm is)"

definition cdda_lookup ::
    "cdda_context \<Rightarrow> 'm odfs_cache \<Rightarrow> heap \<Rightarrow> odfs_node \<Rightarrow> u8 list \<Rightarrow> ('m, cdda_context, odfs_err + odfs_node) be_result" where
  "cdda_lookup ctx c h dir nm =
     (let found =
        (if odfs_strcasecmp nm CDDA_CDDB_NAME = 0 then cdda_fill_cddb_node ctx
         else if odfs_strcasecmp nm CDDA_CDTEXT_NAME = 0 then cdda_fill_cdtext_node ctx
         else if odfs_strcasecmp nm CDDA_DISK_ICON_NAME = 0 then cdda_fill_disk_icon_node ctx
         else lookup_track ctx nm [0..<length (cd_tracks ctx)])
      in Some (case found of Some node \<Rightarrow> Inr node | None \<Rightarrow> Inl ODFS_ERR_NOT_FOUND, ctx, c, h))"

section \<open>Reading\<close>

text \<open>A file that lies in memory.\<close>

definition read_memory :: "u8 list option \<Rightarrow> u64 \<Rightarrow> u8 list \<Rightarrow> nat \<Rightarrow> (odfs_err \<times> u8 list \<times> nat) option" where
  "read_memory dat offset buf want =
     (case dat of
        None \<Rightarrow> Some (ODFS_OK, buf, 0)
      | Some bs \<Rightarrow>
          if offset \<ge> of_nat (length bs) then Some (ODFS_OK, buf, 0)
          else do {
            let want = (if offset + of_nat want > of_nat (length bs) then length bs - unat offset else want);
            src \<leftarrow> rdn bs (unat offset) want;
            buf \<leftarrow> wrn buf 0 src;
            Some (ODFS_OK, buf, want) })"

type_synonym 'm audio_state = "cdda_context \<times> 'm odfs_cache \<times> u8 list \<times> nat"
type_synonym 'm audio_result = "(odfs_err \<times> u8 list \<times> nat) \<times> cdda_context \<times> 'm odfs_cache"

text \<open>One turn of the loop over the audio data: through the read-ahead buffer, or frame by frame without one.\<close>

definition cdda_audio_body ::
    "cdda_track \<Rightarrow> u64 \<Rightarrow> nat \<Rightarrow> 'm audio_state \<Rightarrow> ('m audio_result + 'm audio_state) option" where
  "cdda_audio_body trk offset want st = (case st of (ctx, c, buf, done') \<Rightarrow>
     if \<not> done' < want then Some (Inl ((ODFS_OK, buf, done'), ctx, c))
     else
       let audio_pos64 = (offset + of_nat done') - of_nat (cdda_header_size (cd_format ctx)) in
       if audio_pos64 > 0xFFFFFFFF then Some (Inl ((ODFS_ERR_RANGE, buf, 0), ctx, c))
       else
         let audio_pos = (ucast audio_pos64 :: u32);
             frame_num = audio_pos div 2352;
             frame_off = unat (audio_pos mod 2352);
             start_frame = trk_start_lba trk + frame_num in
         if \<not> has_read_audio c then Some (Inl ((ODFS_ERR_UNSUPPORTED, buf, 0), ctx, c))
         else if cd_audio ctx \<noteq> None then do {
           (err, ctx, c) \<leftarrow> (if cdda_audio_cache_contains ctx start_frame then Some (ODFS_OK, ctx, c)
                              else cdda_fill_audio_cache ctx c trk frame_num);
           if err \<noteq> ODFS_OK then Some (Inl ((err, buf, 0), ctx, c))
           else do {
             ac \<leftarrow> cd_audio ctx;
             let cache_off = unat (start_frame - cd_audio_lba ctx) * CDDA_FRAME_SIZE + frame_off;
             let av = unat (cd_audio_frames ctx) * CDDA_FRAME_SIZE - cache_off;
             let chunk = (if av < want - done' then av else want - done');
             src \<leftarrow> rdn ac cache_off chunk;
             buf \<leftarrow> wrn buf done' src;
             Some (Inr (ctx, c, buf, done' + chunk)) } }
         else do {
           (err, bs, c) \<leftarrow> media_read_audio c start_frame 1;
           frame_buf \<leftarrow> wrn (zero_bytes CDDA_FRAME_SIZE) 0 bs;
           if err \<noteq> ODFS_OK then Some (Inl ((err, buf, 0), ctx, c))
           else do {
             let frame_buf = (if cd_format ctx = CDDA_FILE_FORMAT_AIFF then cdda_byteswap_samples frame_buf else frame_buf);
             let av = CDDA_FRAME_SIZE - frame_off;
             let chunk = (if av < want - done' then av else want - done');
             src \<leftarrow> rdn frame_buf frame_off chunk;
             buf \<leftarrow> wrn buf done' src;
             Some (Inr (ctx, c, buf, done' + chunk)) } })"

definition cdda_read_track ::
    "cdda_context \<Rightarrow> 'm odfs_cache \<Rightarrow> cdda_track \<Rightarrow> u64 \<Rightarrow> u8 list \<Rightarrow> nat \<Rightarrow> 'm audio_result option" where
  "cdda_read_track ctx c trk offset buf want =
     (if offset \<ge> trk_file_size trk then Some ((ODFS_OK, buf, 0), ctx, c)
      else do {
        let want = (if offset + of_nat want > trk_file_size trk then unat (trk_file_size trk - offset) else want);
        let header_size = cdda_header_size (cd_format ctx);
        (buf, done') \<leftarrow> (if unat offset < header_size then do {
             let hdr = cdda_build_header (cd_format ctx) (ucast (trk_data_size trk));
             let hdr_avail = header_size - unat offset;
             let chunk = (if hdr_avail < want then hdr_avail else want);
             src \<leftarrow> rdn hdr (unat offset) chunk;
             buf \<leftarrow> wrn buf 0 src;
             Some (buf, chunk) }
           else Some (buf, 0));
        iter (cdda_audio_body trk offset want) (ctx, c, buf, done') })"

definition cdda_read ::
    "cdda_context \<Rightarrow> 'm odfs_cache \<Rightarrow> heap \<Rightarrow> odfs_node \<Rightarrow> u64 \<Rightarrow> u8 list \<Rightarrow> nat \<Rightarrow>
     ('m, cdda_context, odfs_err \<times> u8 list \<times> nat) be_result" where
  "cdda_read ctx c h file offset buf want =
     (if node_id file = CDDA_CDDB_NODE_ID then do { r \<leftarrow> read_memory (cd_cddb ctx) offset buf want; Some (r, ctx, c, h) }
      else if node_id file = CDDA_CDTEXT_NODE_ID then do { r \<leftarrow> read_memory (cd_cdtext ctx) offset buf want; Some (r, ctx, c, h) }
      else if node_id file = CDDA_DISK_ICON_NODE_ID then do { r \<leftarrow> read_memory (cd_icon ctx) offset buf want; Some (r, ctx, c, h) }
      else
        let track_idx = sint (lba (extent file)) - 2 in
        if track_idx < 0 \<or> track_idx \<ge> int (length (cd_tracks ctx)) then Some ((ODFS_ERR_NOT_FOUND, buf, 0), ctx, c, h)
        else do {
          (r, ctx, c) \<leftarrow> cdda_read_track ctx c (cd_tracks ctx ! nat track_idx) offset buf want;
          Some (r, ctx, c, h) })"

section \<open>The volume\<close>

definition cdda_get_volume_name :: "cdda_context \<Rightarrow> nat \<Rightarrow> u8 list option" where
  "cdda_get_volume_name ctx buf_size =
     (if buf_size = 0 then None
      else Some (take (if length (cd_volume_name ctx) \<ge> buf_size then buf_size - 1 else length (cd_volume_name ctx)) (cd_volume_name ctx)))"

definition text_size :: "u8 list option \<Rightarrow> u64" where
  "text_size dat = (case dat of None \<Rightarrow> 0 | Some bs \<Rightarrow> of_nat (length bs))"

definition cdda_get_volume_size :: "cdda_context \<Rightarrow> u32" where
  "cdda_get_volume_size ctx =
     (let bytes = text_size (cd_cddb ctx) + text_size (cd_cdtext ctx) + sum_list (map trk_file_size (cd_tracks ctx));
          blocks = (bytes + 2047) div 2048
      in if blocks > 0xFFFFFFFF then 0xFFFFFFFF else ucast blocks)"

definition cdda_backend_ops :: "('m, cdda_context, 's) odfs_backend_ops" where
  "cdda_backend_ops =
     \<lparr>be_name = ''cdda'', be_type = ODFS_BACKEND_CDDA, be_flags = 0, be_probe = cdda_probe, be_mount = cdda_mount,
      be_readdir = cdda_readdir, be_read = cdda_read, be_lookup = cdda_lookup, be_readlink = None,
      be_resolve_parent = None, be_get_volume_name = Some cdda_get_volume_name, be_get_volume_size = Some cdda_get_volume_size\<rparr>"

end
