(* ===== verification/Cdda_Facts.thy ===== *)
theory Cdda_Facts
  imports Cdda File_Media
begin

text \<open>
  What the audio backend serves.  The locale \<open>audio_media\<close> is what it relies on: a successful audio read
  delivers the frames of the disc.  A track file is its header followed by the samples of its frames,
  and reading gives its bytes, whether they come from the read-ahead buffer or from the medium.
\<close>

section \<open>The medium\<close>

locale audio_media =
  fixes ops :: "'m odfs_media_ops" and frame :: "u32 \<Rightarrow> u8 list" and good :: "'m \<Rightarrow> bool"
  assumes can_read: "read_audio ops \<noteq> None"
    and audio_good: "read_audio ops = Some f \<Longrightarrow> good m \<Longrightarrow> f m l n = (e, bs, m') \<Longrightarrow> good m'"
    and audio_len: "read_audio ops = Some f \<Longrightarrow> good m \<Longrightarrow> f m l n = (e, bs, m') \<Longrightarrow> length bs \<le> unat n * CDDA_FRAME_SIZE"
    and audio_ok: "read_audio ops = Some f \<Longrightarrow> good m \<Longrightarrow> f m l n = (ODFS_OK, bs, m') \<Longrightarrow> bs = disc_sectors frame l (unat n)"
    and frame_len: "length (frame l) = CDDA_FRAME_SIZE"

text \<open>The errors an audio read may give.\<close>

definition audio_faults :: "'m odfs_media_ops \<Rightarrow> ('m \<Rightarrow> bool) \<Rightarrow> odfs_err set" where
  "audio_faults ops good = {e. e \<noteq> ODFS_OK \<and> (\<exists>f m l n bs m'. read_audio ops = Some f \<and> good m \<and> f m l n = (e, bs, m'))}"

section \<open>Frames and samples\<close>

lemma length_byteswap [simp]: "length (cdda_byteswap_samples bs) = length bs"
  by (induction bs rule: cdda_byteswap_samples.induct) auto

lemma byteswap_append: "even (length xs) \<Longrightarrow> cdda_byteswap_samples (xs @ ys) = cdda_byteswap_samples xs @ cdda_byteswap_samples ys"
  by (induction xs rule: cdda_byteswap_samples.induct) auto

lemma byteswap_twice: "cdda_byteswap_samples (cdda_byteswap_samples bs) = bs"
  by (induction bs rule: cdda_byteswap_samples.induct) auto

text \<open>A frame in the byte order of the file format.\<close>

definition file_frame :: "cdda_file_format \<Rightarrow> (u32 \<Rightarrow> u8 list) \<Rightarrow> u32 \<Rightarrow> u8 list" where
  "file_frame fmt frame l = (if fmt = CDDA_FILE_FORMAT_AIFF then cdda_byteswap_samples (frame l) else frame l)"

definition to_file :: "cdda_file_format \<Rightarrow> u8 list \<Rightarrow> u8 list" where
  "to_file fmt bs = (if fmt = CDDA_FILE_FORMAT_AIFF then cdda_byteswap_samples bs else bs)"

lemma length_to_file [simp]: "length (to_file fmt bs) = length bs"
  by (simp add: to_file_def)

lemma to_file_frames:
  assumes "\<And>l. length (frame l) = CDDA_FRAME_SIZE"
  shows "to_file fmt (disc_sectors frame l n) = disc_sectors (file_frame fmt frame) l n"
proof (induction n)
  case 0
  show ?case by (simp add: to_file_def)
next
  case (Suc n)
  have ev: "even (length (disc_sectors frame l n))" using length_disc_sectors[of frame, OF assms] by (simp add: CDDA_FRAME_SIZE_def)
  show ?case using Suc by (simp add: disc_sectors_Suc to_file_def file_frame_def byteswap_append[OF ev] split: if_splits)
qed

lemma length_file_frame: "length (frame l) = CDDA_FRAME_SIZE \<Longrightarrow> length (file_frame fmt frame l) = CDDA_FRAME_SIZE"
  by (simp add: file_frame_def)

text \<open>Two windows on the same bytes of the disc.\<close>

lemma sectors_window:
  assumes len: "\<And>l. length (f l) = ss" and ss: "0 < ss"
    and pos: "unat l * ss + a = unat l' * ss + b" and a: "a + k \<le> n * ss" and b: "b + k \<le> n' * ss"
  shows "take k (drop a (disc_sectors f l n)) = take k (drop b (disc_sectors f l' n'))"
proof (rule nth_equalityI)
  have L: "length (disc_sectors f l n) = n * ss" "length (disc_sectors f l' n') = n' * ss"
    using length_disc_sectors[of f, OF len] by auto
  then show "length (take k (drop a (disc_sectors f l n))) = length (take k (drop b (disc_sectors f l' n')))"
    using a b by simp
  fix i
  assume "i < length (take k (drop a (disc_sectors f l n)))"
  then have i: "i < k" by simp
  have q: "unat l + (a + i) div ss = unat l' + (b + i) div ss"
  proof -
    have "(unat l * ss + (a + i)) div ss = (unat l' * ss + (b + i)) div ss" using pos by (simp add: add.assoc[symmetric])
    then show ?thesis using ss by simp
  qed
  have r: "(a + i) mod ss = (b + i) mod ss"
  proof -
    have "(unat l * ss + (a + i)) mod ss = (unat l' * ss + (b + i)) mod ss" using pos by (simp add: add.assoc[symmetric])
    then show ?thesis by simp
  qed
  have w: "l + of_nat ((a + i) div ss) = l' + of_nat ((b + i) div ss)"
  proof -
    have "(of_nat (unat l + (a + i) div ss) :: u32) = of_nat (unat l' + (b + i) div ss)" using q by simp
    then show ?thesis by simp
  qed
  have "a + i < n * ss" "b + i < n' * ss" using i a b by auto
  then show "take k (drop a (disc_sectors f l n)) ! i = take k (drop b (disc_sectors f l' n')) ! i"
    using i L nth_disc_sectors[of f ss "a + i" n l, OF len] nth_disc_sectors[of f ss "b + i" n' l', OF len] w r
    by (simp add: nth_drop)
qed

section \<open>Track files\<close>

lemma length_le32 [simp]: "length (cdda_write_le32 v) = 4" "length (cdda_write_be32 v) = 4"
  "length (cdda_write_le16 w) = 2" "length (cdda_write_be16 w) = 2"
  by (simp_all add: cdda_write_le32_def cdda_write_be32_def cdda_write_le16_def cdda_write_be16_def)

lemma length_str_bytes [simp]: "length (str_bytes s) = length s"
  by (simp add: str_bytes_def)

lemma length_header: "length (cdda_build_header fmt n) = cdda_header_size fmt"
  by (simp add: cdda_build_header_def cdda_build_aiff_header_def cdda_build_wav_header_def cdda_header_size_def
      CDDA_AIFF_HEADER_SIZE_def CDDA_WAV_HEADER_SIZE_def Let_def)

definition track_samples :: "(u32 \<Rightarrow> u8 list) \<Rightarrow> cdda_file_format \<Rightarrow> cdda_track \<Rightarrow> u8 list" where
  "track_samples frame fmt trk = disc_sectors (file_frame fmt frame) (trk_start_lba trk) (unat (trk_length_frames trk))"

definition track_file :: "(u32 \<Rightarrow> u8 list) \<Rightarrow> cdda_file_format \<Rightarrow> cdda_track \<Rightarrow> u8 list" where
  "track_file frame fmt trk = cdda_build_header fmt (ucast (trk_data_size trk)) @ track_samples frame fmt trk"

text \<open>A track as the table of contents gives it, on a disc of at most 4 GiB of audio.\<close>

definition track_ok :: "cdda_file_format \<Rightarrow> cdda_track \<Rightarrow> bool" where
  "track_ok fmt trk \<longleftrightarrow> unat (trk_start_lba trk) + unat (trk_length_frames trk) < 2 ^ 32 \<and>
     unat (trk_length_frames trk) * CDDA_FRAME_SIZE \<le> 2 ^ 32 \<and>
     trk_data_size trk = ucast (trk_length_frames trk) * 2352 \<and>
     trk_file_size trk = trk_data_size trk + of_nat (cdda_header_size fmt)"

lemma header_size_le: "cdda_header_size fmt \<le> 54"
  by (simp add: cdda_header_size_def CDDA_AIFF_HEADER_SIZE_def CDDA_WAV_HEADER_SIZE_def)

lemma track_sizes:
  assumes "track_ok fmt trk"
  shows "unat (trk_data_size trk) = unat (trk_length_frames trk) * CDDA_FRAME_SIZE"
    "unat (trk_file_size trk) = unat (trk_length_frames trk) * CDDA_FRAME_SIZE + cdda_header_size fmt"
proof -
  have d: "unat (ucast (trk_length_frames trk) * 2352 :: u64) = unat (trk_length_frames trk) * 2352"
    using assms unat_u32_lt[of "trk_length_frames trk"]
    by (simp add: unat_word_ariths track_ok_def CDDA_FRAME_SIZE_def unsigned_ucast_eq take_bit_eq_mod)
  then show ds: "unat (trk_data_size trk) = unat (trk_length_frames trk) * CDDA_FRAME_SIZE"
    using assms by (simp add: track_ok_def CDDA_FRAME_SIZE_def)
  have "unat (trk_file_size trk) = (unat (trk_data_size trk) + cdda_header_size fmt) mod 2 ^ 64"
    using assms by (simp add: track_ok_def unat_word_ariths unat_of_nat mod_add_right_eq)
  also have "\<dots> = unat (trk_data_size trk) + cdda_header_size fmt"
    using ds assms header_size_le[of fmt] by (simp add: track_ok_def)
  finally show "unat (trk_file_size trk) = unat (trk_length_frames trk) * CDDA_FRAME_SIZE + cdda_header_size fmt"
    using ds by simp
qed

lemma length_track_file:
  assumes "\<And>l. length (frame l) = CDDA_FRAME_SIZE" "track_ok fmt trk"
  shows "length (track_file frame fmt trk) = unat (trk_file_size trk)"
  using length_disc_sectors[of "file_frame fmt frame" CDDA_FRAME_SIZE, OF length_file_frame[OF assms(1)]]
  by (simp add: track_file_def track_samples_def length_header track_sizes(2)[OF assms(2)])


section \<open>The read-ahead buffer\<close>

text \<open>The buffer has its size, and the frames it is said to hold are those of the disc.\<close>

definition audio_inv :: "(u32 \<Rightarrow> u8 list) \<Rightarrow> cdda_context \<Rightarrow> bool" where
  "audio_inv frame ctx \<longleftrightarrow> (\<forall>ac. cd_audio ctx = Some ac \<longrightarrow>
     length ac = unat CDDA_READAHEAD_FRAMES * CDDA_FRAME_SIZE \<and>
     unat (cd_audio_frames ctx) \<le> unat CDDA_READAHEAD_FRAMES \<and>
     take (unat (cd_audio_frames ctx) * CDDA_FRAME_SIZE) ac =
       disc_sectors (file_frame (cd_format ctx) frame) (cd_audio_lba ctx) (unat (cd_audio_frames ctx)))"

text \<open>The parts of the context reading does not change.\<close>

definition same_disc :: "cdda_context \<Rightarrow> cdda_context \<Rightarrow> bool" where
  "same_disc ctx ctx' \<longleftrightarrow> ctx' = ctx\<lparr>cd_audio := cd_audio ctx', cd_audio_lba := cd_audio_lba ctx', cd_audio_frames := cd_audio_frames ctx'\<rparr> \<and>
     (cd_audio ctx' = None \<longleftrightarrow> cd_audio ctx = None)"

lemma same_disc_refl [simp]: "same_disc ctx ctx"
  by (simp add: same_disc_def)

lemma same_disc_fields:
  assumes "same_disc ctx ctx'"
  shows "cd_format ctx' = cd_format ctx" "cd_tracks ctx' = cd_tracks ctx" "cd_audio ctx' = None \<longleftrightarrow> cd_audio ctx = None"
proof -
  from assms have e: "ctx' = ctx\<lparr>cd_audio := cd_audio ctx', cd_audio_lba := cd_audio_lba ctx', cd_audio_frames := cd_audio_frames ctx'\<rparr>"
    by (simp add: same_disc_def)
  show "cd_format ctx' = cd_format ctx" by (subst e) simp
  show "cd_tracks ctx' = cd_tracks ctx" by (subst e) simp
  show "cd_audio ctx' = None \<longleftrightarrow> cd_audio ctx = None" using assms by (simp add: same_disc_def)
qed

lemma same_disc_upd:
  assumes "same_disc ctx ctx'" "cd_audio ctx' \<noteq> None"
  shows "same_disc ctx (ctx'\<lparr>cd_audio := Some ac, cd_audio_lba := l, cd_audio_frames := n\<rparr>)"
    "same_disc ctx (ctx'\<lparr>cd_audio := Some ac, cd_audio_frames := n\<rparr>)"
proof -
  from assms have e: "ctx' = ctx\<lparr>cd_audio := cd_audio ctx', cd_audio_lba := cd_audio_lba ctx', cd_audio_frames := cd_audio_frames ctx'\<rparr>"
    and n: "cd_audio ctx \<noteq> None" by (simp_all add: same_disc_def)
  show "same_disc ctx (ctx'\<lparr>cd_audio := Some ac, cd_audio_lba := l, cd_audio_frames := n\<rparr>)"
    unfolding same_disc_def using n by (subst (1) e) simp
  show "same_disc ctx (ctx'\<lparr>cd_audio := Some ac, cd_audio_frames := n\<rparr>)"
    unfolding same_disc_def using n by (subst (1) e) simp
qed

context audio_media
begin

definition good_audio :: "'m odfs_cache \<Rightarrow> bool" where
  "good_audio c \<longleftrightarrow> (\<exists>m. c_media c = Some m \<and> mops m = ops \<and> good (mctx m))"

lemma good_has: "good_audio c \<Longrightarrow> has_read_audio c"
  using can_read by (auto simp: good_audio_def has_read_audio_def)

text \<open>An audio read through the medium: the frames, or one of its errors.\<close>

lemma read_cases:
  assumes "good_audio c"
  obtains (ok) bs c' where "media_read_audio c l n = Some (ODFS_OK, bs, c')" "bs = disc_sectors frame l (unat n)" "good_audio c'"
  | (fail) e bs c' where "media_read_audio c l n = Some (e, bs, c')" "length bs \<le> unat n * CDDA_FRAME_SIZE" "good_audio c'"
      "e \<in> audio_faults ops good" "e \<noteq> ODFS_OK"
proof -
  from assms obtain m where m: "c_media c = Some m" "mops m = ops" "good (mctx m)" by (auto simp: good_audio_def)
  from can_read obtain f where f: "read_audio ops = Some f" by auto
  obtain e bs m' where r: "f (mctx m) l n = (e, bs, m')" by (metis prod_cases3)
  have q: "media_read_audio c l n = Some (e, bs, c\<lparr>c_media := Some (m\<lparr>mctx := m'\<rparr>)\<rparr>)"
    using m f r by (simp add: media_read_audio_def odfs_media_read_audio_def)
  have g: "good_audio (c\<lparr>c_media := Some (m\<lparr>mctx := m'\<rparr>)\<rparr>)" using m audio_good[OF f m(3) r] by (simp add: good_audio_def)
  show thesis
  proof (cases "e = ODFS_OK")
    case True
    then show thesis using ok q g audio_ok[OF f m(3)] r by blast
  next
    case False
    then have "e \<in> audio_faults ops good" unfolding audio_faults_def using f m(3) r by blast
    then show thesis using fail[OF q audio_len[OF f m(3) r] g] False by blast
  qed
qed

lemma frames_len: "length (disc_sectors (file_frame fmt frame) l n) = n * CDDA_FRAME_SIZE"
  by (rule length_disc_sectors) (rule length_file_frame, rule frame_len)

text \<open>Filling the buffer from a frame of the track.\<close>

lemma fill_cases:
  assumes "good_audio c" "audio_inv frame ctx" "cd_audio ctx \<noteq> None" "fn < trk_length_frames trk" "same_disc ctx0 ctx"
  obtains (ok) ctx' c' where "cdda_fill_audio_cache ctx c trk fn = Some (ODFS_OK, ctx', c')" "audio_inv frame ctx'" "good_audio c'"
      "cd_audio_lba ctx' = trk_start_lba trk + fn" "0 < cd_audio_frames ctx'" "same_disc ctx0 ctx'"
  | (fail) e ctx' c' where "cdda_fill_audio_cache ctx c trk fn = Some (e, ctx', c')" "audio_inv frame ctx'" "good_audio c'"
      "e \<in> audio_faults ops good" "e \<noteq> ODFS_OK" "same_disc ctx0 ctx'"
proof -
  from assms(3) obtain ac where ac: "cd_audio ctx = Some ac" by auto
  have la: "length ac = unat CDDA_READAHEAD_FRAMES * CDDA_FRAME_SIZE" using assms(2) ac by (auto simp: audio_inv_def)
  define n where "n = (if trk_length_frames trk - fn > CDDA_READAHEAD_FRAMES then CDDA_READAHEAD_FRAMES else trk_length_frames trk - fn)"
  have "n \<le> CDDA_READAHEAD_FRAMES" by (simp add: n_def not_less)
  then have n: "unat n \<le> unat CDDA_READAHEAD_FRAMES" "0 < n"
    using assms(4) by (auto simp: n_def word_le_nat_alt CDDA_READAHEAD_FRAMES_def word_gt_0)
  have bnd: "unat n * CDDA_FRAME_SIZE \<le> length ac" using n(1) la by simp
  have "\<not> trk_length_frames trk \<le> fn" using assms(4) by simp
  note fill = cdda_fill_audio_cache_def[of ctx c trk fn] ac good_has[OF assms(1)] this
  show thesis
  proof (rule read_cases[OF assms(1), of "trk_start_lba trk + fn" n])
    fix bs c' assume r: "media_read_audio c (trk_start_lba trk + fn) n = Some (ODFS_OK, bs, c')"
      and bs: "bs = disc_sectors frame (trk_start_lba trk + fn) (unat n)" and g: "good_audio c'"
    have lb: "length bs = unat n * CDDA_FRAME_SIZE" using bs length_disc_sectors[of frame, OF frame_len] by simp
    define ac' where "ac' = to_file (cd_format ctx) bs @ drop (length bs) ac"
    have "cdda_fill_audio_cache ctx c trk fn =
        Some (ODFS_OK, ctx\<lparr>cd_audio := Some ac', cd_audio_lba := trk_start_lba trk + fn, cd_audio_frames := n\<rparr>, c')"
      using bnd lb by (simp add: fill r n_def[symmetric] wrn_def rdn_in ac'_def to_file_def Let_def)
    then show thesis
    proof (rule ok)
      show "audio_inv frame (ctx\<lparr>cd_audio := Some ac', cd_audio_lba := trk_start_lba trk + fn, cd_audio_frames := n\<rparr>)"
        using n la lb bnd to_file_frames[of frame, OF frame_len] by (simp add: audio_inv_def ac'_def bs frames_len)
    qed (use g n same_disc_upd[OF assms(5,3)] in auto)
  next
    fix e bs c' assume r: "media_read_audio c (trk_start_lba trk + fn) n = Some (e, bs, c')" "length bs \<le> unat n * CDDA_FRAME_SIZE"
      and g: "good_audio c'" and e: "e \<in> audio_faults ops good" "e \<noteq> ODFS_OK"
    have "cdda_fill_audio_cache ctx c trk fn = Some (e, ctx\<lparr>cd_audio := Some (bs @ drop (length bs) ac), cd_audio_frames := 0\<rparr>, c')"
      using le_trans[OF r(2) bnd] e(2) by (simp add: fill r n_def[symmetric] wrn_def Let_def)
    then show thesis
    proof (rule fail)
      show "audio_inv frame (ctx\<lparr>cd_audio := Some (bs @ drop (length bs) ac), cd_audio_frames := 0\<rparr>)"
        using la le_trans[OF r(2) bnd] by (simp add: audio_inv_def)
    qed (use g e same_disc_upd[OF assms(5,3)] in auto)
  qed
qed


section \<open>The loop\<close>

text \<open>
  \<open>read_so_far\<close> is the invariant: the first \<open>k\<close> bytes of the buffer are those of the file from the offset on,
  the rest is as it was.
\<close>

definition read_so_far ::
    "cdda_context \<Rightarrow> cdda_track \<Rightarrow> nat \<Rightarrow> u8 list \<Rightarrow> nat \<Rightarrow> 'm audio_state \<Rightarrow> bool" where
  "read_so_far ctx0 trk off buf want st \<longleftrightarrow> (case st of (ctx, c, b, k) \<Rightarrow>
     k \<le> want \<and> cdda_header_size (cd_format ctx0) \<le> off + k \<and> same_disc ctx0 ctx \<and> audio_inv frame ctx \<and> good_audio c \<and>
     b = take k (drop off (track_file frame (cd_format ctx0) trk)) @ drop k buf)"

definition read_done ::
    "cdda_context \<Rightarrow> cdda_track \<Rightarrow> nat \<Rightarrow> u8 list \<Rightarrow> nat \<Rightarrow> 'm audio_result \<Rightarrow> bool" where
  "read_done ctx0 trk off buf want res \<longleftrightarrow> (case res of ((err, b, n), ctx, c) \<Rightarrow>
     same_disc ctx0 ctx \<and> audio_inv frame ctx \<and> good_audio c \<and> length b = length buf \<and>
     (err = ODFS_OK \<and> n = want \<and> b = take want (drop off (track_file frame (cd_format ctx0) trk)) @ drop want buf \<or>
      err \<in> audio_faults ops good \<and> err \<noteq> ODFS_OK \<and> n = 0))"

text \<open>Copying the next bytes of the file behind those already there.\<close>

lemma copy_next:
  assumes "b = take k F @ drop k buf" "k + j \<le> length F" "k + j \<le> length buf" "src = take j (drop k F)"
  shows "wrn b k src = Some (take (k + j) F @ drop (k + j) buf)"
  using assms by (simp add: wrn_def take_add) (simp add: add.commute)

text \<open>The bytes of the file at a position behind the header, as part of a run of frames of the disc.\<close>

lemma file_window:
  assumes t: "track_ok fmt trk" and p: "cdda_header_size fmt \<le> p" "p - cdda_header_size fmt + j \<le> unat (trk_length_frames trk) * CDDA_FRAME_SIZE"
    and w: "unat l * CDDA_FRAME_SIZE + a = unat (trk_start_lba trk) * CDDA_FRAME_SIZE + (p - cdda_header_size fmt)" "a + j \<le> n * CDDA_FRAME_SIZE"
  shows "take j (drop p (track_file frame fmt trk)) = take j (drop a (disc_sectors (file_frame fmt frame) l n))"
proof -
  have "drop p (track_file frame fmt trk) = drop (p - cdda_header_size fmt) (track_samples frame fmt trk)"
    using p(1) by (simp add: track_file_def length_header)
  then show ?thesis
    using sectors_window[OF length_file_frame[OF frame_len] _ w(1) w(2) p(2)] by (simp add: track_samples_def CDDA_FRAME_SIZE_def)
qed

text \<open>The position of the next byte in frames, computed in 32 bits.\<close>

lemma audio_pos:
  fixes offset :: u64
  assumes t: "track_ok fmt trk" and k: "cdda_header_size fmt \<le> unat offset + k" "unat offset + k < unat (trk_file_size trk)"
  defines "p \<equiv> unat offset + k - cdda_header_size fmt"
  defines "pos64 \<equiv> offset + of_nat k - of_nat (cdda_header_size fmt) :: u64"
  shows "\<not> pos64 > 0xFFFFFFFF" "unat ((ucast pos64 :: u32) div 2352) = p div CDDA_FRAME_SIZE"
    "unat ((ucast pos64 :: u32) mod 2352) = p mod CDDA_FRAME_SIZE"
    "p < unat (trk_length_frames trk) * CDDA_FRAME_SIZE"
    "unat (trk_start_lba trk + (ucast pos64 :: u32) div 2352) = unat (trk_start_lba trk) + p div CDDA_FRAME_SIZE"
    "(ucast pos64 :: u32) div 2352 < trk_length_frames trk"
proof -
  note sz = track_sizes[OF t]
  show p: "p < unat (trk_length_frames trk) * CDDA_FRAME_SIZE" using k sz(2) by (simp add: p_def)
  have lt: "unat offset + k < 2 ^ 64" using k(2) unsigned_less[of "trk_file_size trk", where ?'a = nat] by simp
  have "offset + of_nat k = of_nat (unat offset + k)" by simp
  then have "pos64 = of_nat p" unfolding pos64_def p_def using k(1) by (simp add: of_nat_diff)
  then have u: "unat pos64 = p" using p lt by (simp add: unat_of_nat p_def)
  have p32: "p < 2 ^ 32" using p t by (simp add: track_ok_def)
  then show "\<not> pos64 > 0xFFFFFFFF" using u by (simp add: word_less_nat_alt)
  have v: "unat (ucast pos64 :: u32) = p" using u p32 by (simp add: unsigned_ucast_eq take_bit_eq_mod)
  then show d: "unat ((ucast pos64 :: u32) div 2352) = p div CDDA_FRAME_SIZE" "unat ((ucast pos64 :: u32) mod 2352) = p mod CDDA_FRAME_SIZE"
    by (simp_all add: unat_div unat_mod CDDA_FRAME_SIZE_def)
  have fl: "p div CDDA_FRAME_SIZE < unat (trk_length_frames trk)" using p by (simp add: div_less_iff_less_mult CDDA_FRAME_SIZE_def)
  then show "(ucast pos64 :: u32) div 2352 < trk_length_frames trk" using d by (simp add: word_less_nat_alt)
  show "unat (trk_start_lba trk + (ucast pos64 :: u32) div 2352) = unat (trk_start_lba trk) + p div CDDA_FRAME_SIZE"
    using d fl t by (simp add: unat_u32_add track_ok_def)
qed


text \<open>A chunk copied from a run of frames \<open>w\<close> in the file's byte order that covers the position.\<close>

lemma chunk_step:
  assumes t: "track_ok (cd_format ctx0) trk" and b: "want \<le> length buf" "unat offset + want \<le> unat (trk_file_size trk)"
    and inv: "read_so_far ctx0 trk (unat offset) buf want (ctx, c, b, k)" and k: "k < want"
    and w: "unat l * CDDA_FRAME_SIZE + a =
      unat (trk_start_lba trk) * CDDA_FRAME_SIZE + (unat offset + k - cdda_header_size (cd_format ctx0))"
      "a < n * CDDA_FRAME_SIZE" "take (n * CDDA_FRAME_SIZE) ac = disc_sectors (file_frame (cd_format ctx0) frame) l n"
      "n * CDDA_FRAME_SIZE \<le> length ac"
    and g: "same_disc ctx0 ctx'" "audio_inv frame ctx'" "good_audio c'"
  defines "j \<equiv> (if n * CDDA_FRAME_SIZE - a < want - k then n * CDDA_FRAME_SIZE - a else want - k)"
  obtains src b' where "rdn ac a j = Some src" "wrn b k src = Some b'" "0 < j"
    "read_so_far ctx0 trk (unat offset) buf want (ctx', c', b', k + j)"
proof -
  let ?fmt = "cd_format ctx0"
  let ?F = "drop (unat offset) (track_file frame ?fmt trk)"
  from inv have h: "cdda_header_size ?fmt \<le> unat offset + k" and be: "b = take k ?F @ drop k buf" by (auto simp: read_so_far_def)
  have j: "0 < j" "k + j \<le> want" "a + j \<le> n * CDDA_FRAME_SIZE" using k w(2) by (auto simp: j_def)
  have lF: "length ?F = unat (trk_file_size trk) - unat offset" by (simp add: length_track_file[of frame, OF frame_len t])
  have r: "rdn ac a j = Some (take j (drop a ac))" using j(3) w(4) by (simp add: rdn_in)
  have "take j (drop a ac) = take j (drop a (take (n * CDDA_FRAME_SIZE) ac))" using j(3) by (simp add: drop_take min_def)
  also have "\<dots> = take j (drop (unat offset + k) (track_file frame ?fmt trk))" unfolding w(3)
  proof (rule file_window[symmetric, OF t h _ w(1) j(3)])
    show "unat offset + k - cdda_header_size ?fmt + j \<le> unat (trk_length_frames trk) * CDDA_FRAME_SIZE"
      using j(2) b(2) h track_sizes(2)[OF t] by simp
  qed
  also have "\<dots> = take j (drop k ?F)" by (simp add: add.commute)
  finally have src: "take j (drop a ac) = take j (drop k ?F)" .
  have "wrn b k (take j (drop a ac)) = Some (take (k + j) ?F @ drop (k + j) buf)"
    by (rule copy_next[OF be _ _ src]) (use j(2) b lF in auto)
  then show thesis using that[OF r _ j(1)] g j h by (simp add: read_so_far_def)
qed

lemma body_step:
  assumes t: "track_ok (cd_format ctx0) trk" and b: "want \<le> length buf" "unat offset + want \<le> unat (trk_file_size trk)"
    and inv: "read_so_far ctx0 trk (unat offset) buf want st"
  shows "\<exists>r. cdda_audio_body trk offset want st = Some r \<and> (case r of
      Inl res \<Rightarrow> read_done ctx0 trk (unat offset) buf want res
    | Inr st' \<Rightarrow> read_so_far ctx0 trk (unat offset) buf want st' \<and> (st', st) \<in> measure (\<lambda>(ctx, c, b, k). want - k))"
proof -
  obtain ctx c bb k where st: "st = (ctx, c, bb, k)" by (metis prod_cases4)
  let ?fmt = "cd_format ctx0"
  let ?F = "drop (unat offset) (track_file frame ?fmt trk)"
  from inv have i: "k \<le> want" "cdda_header_size ?fmt \<le> unat offset + k" "same_disc ctx0 ctx" "audio_inv frame ctx" "good_audio c"
    "bb = take k ?F @ drop k buf" by (auto simp: read_so_far_def st)
  have lF: "length ?F = unat (trk_file_size trk) - unat offset" by (simp add: length_track_file[of frame, OF frame_len t])
  have lb: "length bb = length buf" using i(1) b lF by (simp add: i(6))
  note sd = same_disc_fields[OF i(3)]
  show ?thesis
  proof (cases "k < want")
    case False
    then show ?thesis using i b lb by (auto simp: st cdda_audio_body_def read_done_def)
  next
    case True
    define pos64 where "pos64 = offset + of_nat k - of_nat (cdda_header_size ?fmt)"
    define fn where "fn = (ucast pos64 :: u32) div 2352"
    define fo where "fo = unat ((ucast pos64 :: u32) mod 2352)"
    define sf where "sf = trk_start_lba trk + fn"
    define p where "p = unat offset + k - cdda_header_size ?fmt"
    have "unat offset + k < unat (trk_file_size trk)" using True b(2) by simp
    note ap = audio_pos[OF t i(2) this, folded pos64_def p_def, folded fn_def, folded sf_def fo_def]
    have fo: "fo < CDDA_FRAME_SIZE" and pe: "p = p div CDDA_FRAME_SIZE * CDDA_FRAME_SIZE + fo" by (simp_all add: ap(3) CDDA_FRAME_SIZE_def)
    have at: "unat sf * CDDA_FRAME_SIZE + fo = unat (trk_start_lba trk) * CDDA_FRAME_SIZE + p"
      using pe by (simp add: ap(5) distrib_right)
    note body = cdda_audio_body_def st sd(1) Let_def pos64_def[symmetric] fn_def[symmetric] fo_def[symmetric] sf_def[symmetric]
    show ?thesis
    proof (cases "cd_audio ctx")
      case None
      show ?thesis
      proof (rule read_cases[OF i(5), of sf 1])
        fix bs c' assume r: "media_read_audio c sf 1 = Some (ODFS_OK, bs, c')" "bs = disc_sectors frame sf (unat (1 :: u32))" "good_audio c'"
        then have bs: "bs = frame sf" by simp
        have tk: "take (1 * CDDA_FRAME_SIZE) (to_file ?fmt bs) = disc_sectors (file_frame ?fmt frame) sf 1"
          using frame_len by (simp add: bs to_file_def file_frame_def)
        have wz: "wrn (zero_bytes CDDA_FRAME_SIZE) 0 bs = Some bs" by (simp add: wrn_def bs frame_len)
        show ?thesis
        proof (rule chunk_step[OF t b inv[unfolded st] True at[unfolded p_def] _ tk _ i(3,4) r(3)], goal_cases)
          case (3 src b')
          then show ?thesis using True ap(1) None good_has[OF i(5)] r(1) wz by (auto simp: body to_file_def read_so_far_def)
        qed (use fo frame_len in \<open>simp_all add: bs\<close>)
      next
        fix e bs c' assume r: "media_read_audio c sf 1 = Some (e, bs, c')" "length bs \<le> unat (1 :: u32) * CDDA_FRAME_SIZE"
          "good_audio c'" "e \<in> audio_faults ops good" "e \<noteq> ODFS_OK"
        then have "\<exists>z. wrn (zero_bytes CDDA_FRAME_SIZE) 0 bs = Some z" by (simp add: wrn_def)
        then show ?thesis using True ap(1) None good_has[OF i(5)] r i lb by (auto simp: body read_done_def)
      qed
    next
      case (Some ac0)
      have use: ?thesis
        if f: "(if cdda_audio_cache_contains ctx sf then Some (ODFS_OK, ctx, c) else cdda_fill_audio_cache ctx c trk fn) = Some (ODFS_OK, ctx', c')"
          and g: "audio_inv frame ctx'" "good_audio c'" "same_disc ctx0 ctx'"
          and w: "unat (cd_audio_lba ctx') \<le> unat sf" "unat sf < unat (cd_audio_lba ctx') + unat (cd_audio_frames ctx')" for ctx' c'
      proof -
        obtain ac where ac: "cd_audio ctx' = Some ac" using same_disc_fields(3)[OF g(3)] sd(3) Some by (cases "cd_audio ctx'") auto
        define n where "n = unat (cd_audio_frames ctx')"
        have ai: "take (n * CDDA_FRAME_SIZE) ac = disc_sectors (file_frame ?fmt frame) (cd_audio_lba ctx') n" "n * CDDA_FRAME_SIZE \<le> length ac"
          using g(1) ac same_disc_fields(1)[OF g(3)] by (auto simp: audio_inv_def n_def)
        define a where "a = unat (sf - cd_audio_lba ctx') * CDDA_FRAME_SIZE + fo"
        have d: "unat (sf - cd_audio_lba ctx') = unat sf - unat (cd_audio_lba ctx')" using w(1) by (simp add: unat_sub_if')
        have al: "a < n * CDDA_FRAME_SIZE"
        proof -
          have "Suc (unat sf - unat (cd_audio_lba ctx')) \<le> n" using w by (simp add: n_def)
          then have "Suc (unat sf - unat (cd_audio_lba ctx')) * CDDA_FRAME_SIZE \<le> n * CDDA_FRAME_SIZE" by (rule mult_le_mono1)
          then show ?thesis using fo by (simp add: a_def d)
        qed
        have at': "unat (cd_audio_lba ctx') * CDDA_FRAME_SIZE + a = unat (trk_start_lba trk) * CDDA_FRAME_SIZE + p"
          using at w(1) by (simp add: a_def d add.assoc[symmetric] distrib_right[symmetric])
        show ?thesis
        proof (rule chunk_step[OF t b inv[unfolded st] True at'[unfolded p_def] al ai g(3,1,2)], goal_cases)
          case (1 src b')
          then show ?thesis using True ap(1) Some good_has[OF i(5)] f ac same_disc_fields(1)[OF g(3)]
            by (auto simp: body n_def a_def read_so_far_def)
        qed
      qed
      show ?thesis
      proof (cases "cdda_audio_cache_contains ctx sf")
        case True
        then have "cd_audio_lba ctx \<le> sf" "sf < cd_audio_lba ctx + cd_audio_frames ctx" by (auto simp: cdda_audio_cache_contains_def)
        then have "unat (cd_audio_lba ctx) \<le> unat sf" "unat sf < (unat (cd_audio_lba ctx) + unat (cd_audio_frames ctx)) mod 2 ^ 32"
          by (simp_all add: word_le_nat_alt word_less_nat_alt unat_u32_add)
        moreover have "(unat (cd_audio_lba ctx) + unat (cd_audio_frames ctx)) mod 2 ^ 32 \<le> unat (cd_audio_lba ctx) + unat (cd_audio_frames ctx)" by simp
        ultimately show ?thesis using use[of ctx c] True i by (meson le_trans not_le)
      next
        case False
        show ?thesis
        proof (rule fill_cases[OF i(5,4) _ ap(6) i(3)])
          show "cd_audio ctx \<noteq> None" using Some by simp
        next
          fix ctx' c' assume r: "cdda_fill_audio_cache ctx c trk fn = Some (ODFS_OK, ctx', c')" "audio_inv frame ctx'" "good_audio c'"
            "cd_audio_lba ctx' = trk_start_lba trk + fn" "0 < cd_audio_frames ctx'" "same_disc ctx0 ctx'"
          then show ?thesis using use[of ctx' c'] False by (simp add: sf_def[symmetric] unat_gt_0)
        next
          fix e ctx' c' assume r: "cdda_fill_audio_cache ctx c trk fn = Some (e, ctx', c')" "audio_inv frame ctx'" "good_audio c'"
            "e \<in> audio_faults ops good" "e \<noteq> ODFS_OK" "same_disc ctx0 ctx'"
          then show ?thesis using True ap(1) Some good_has[OF i(5)] False lb by (auto simp: body read_done_def)
        qed
      qed
    qed
  qed
qed


text \<open>Reading a track: the bytes of its file, cut at its end, or an error of the medium and nothing.\<close>

lemma read_track_correct:
  assumes t: "track_ok (cd_format ctx) trk" and inv: "audio_inv frame ctx" "good_audio c"
    and w: "unat offset + want < 2 ^ 64" "want \<le> length buf"
  defines "n \<equiv> min want (unat (trk_file_size trk) - unat offset)"
  shows "\<exists>res. cdda_read_track ctx c trk offset buf want = Some res \<and> read_done ctx trk (unat offset) buf n res"
proof (cases "offset \<ge> trk_file_size trk")
  case True
  then have "n = 0" by (simp add: n_def word_le_nat_alt)
  with True inv show ?thesis by (simp add: cdda_read_track_def read_done_def)
next
  case False
  let ?fmt = "cd_format ctx"
  let ?h = "cdda_header_size ?fmt"
  have lt: "unat offset < unat (trk_file_size trk)" using False by (simp add: word_le_nat_alt)
  have sum: "unat (offset + of_nat want) = unat offset + want"
    using w(1) by (simp add: unat_word_ariths unat_of_nat mod_add_right_eq)
  have want: "(if offset + of_nat want > trk_file_size trk then unat (trk_file_size trk - offset) else want) = n"
    using sum lt by (auto simp: n_def word_less_nat_alt unat_sub_if')
  have nb: "n \<le> length buf" "unat offset + n \<le> unat (trk_file_size trk)" using w(2) lt by (auto simp: n_def)
  let ?F = "drop (unat offset) (track_file frame ?fmt trk)"
  define k where "k = (if unat offset < ?h then min (?h - unat offset) n else 0)"
  have k: "k \<le> n" by (simp add: k_def)
  define hd where "hd = take k ?F @ drop k buf"
  have start: "(if unat offset < ?h then do {
             let hdr = cdda_build_header ?fmt (ucast (trk_data_size trk));
             let hdr_avail = ?h - unat offset;
             let chunk = (if hdr_avail < n then hdr_avail else n);
             src \<leftarrow> rdn hdr (unat offset) chunk;
             b \<leftarrow> wrn buf 0 src;
             Some (b, chunk) }
           else Some (buf, 0)) = Some (hd, k)"
  proof (cases "unat offset < ?h")
    case True
    let ?hdr = "cdda_build_header ?fmt (ucast (trk_data_size trk))"
    have kk: "(if ?h - unat offset < n then ?h - unat offset else n) = k" using True by (simp add: k_def min_def)
    have hk: "unat offset + k \<le> ?h" using True by (simp add: k_def)
    have "take k ?F = take k (drop (unat offset) ?hdr)" using hk by (simp add: track_file_def length_header)
    moreover have "rdn ?hdr (unat offset) k = Some (take k (drop (unat offset) ?hdr))" using hk by (simp add: rdn_in length_header)
    moreover have "wrn buf 0 (take k (drop (unat offset) ?hdr)) = Some (take k (drop (unat offset) ?hdr) @ drop k buf)"
      using hk k nb by (simp add: wrn_def length_header)
    ultimately show ?thesis using True by (simp add: hd_def kk Let_def)
  qed (simp add: hd_def k_def)
  have eq: "cdda_read_track ctx c trk offset buf want = iter (cdda_audio_body trk offset n) (ctx, c, hd, k)"
    using False start by (simp add: cdda_read_track_def want Let_def)
  have "\<exists>res. iter (cdda_audio_body trk offset n) (ctx, c, hd, k) = Some res \<and> read_done ctx trk (unat offset) buf n res"
  proof (cases "?h \<le> unat offset + k")
    case True
    then have "read_so_far ctx trk (unat offset) buf n (ctx, c, hd, k)" using inv k by (simp add: read_so_far_def hd_def)
    then show ?thesis
      by (rule iter_rule[OF wf_measure[of "\<lambda>(ctx, c, b, k). n - k"]]) (rule body_step[OF t nb])
  next
    case False
    then have "k = n" by (auto simp: k_def min_def split: if_splits)
    moreover have "length ?F = unat (trk_file_size trk) - unat offset" by (simp add: length_track_file[of frame, OF frame_len t])
    ultimately show ?thesis using inv nb
      by (subst iter.simps) (simp add: cdda_audio_body_def read_done_def hd_def)
  qed
  then show ?thesis using eq by simp
qed

end

section \<open>Image files\<close>

text \<open>The frame \<open>l\<close> of an image, padded with zeros where there is none.\<close>

definition file_audio :: "file_media_ctx \<Rightarrow> u32 \<Rightarrow> u8 list" where
  "file_audio fm l = take HOST_AUDIO_FRAME_SIZE (snd (audio_read_frame fm l) @ replicate HOST_AUDIO_FRAME_SIZE 0)"

lemma audio_frame_length:
  assumes "audio_read_frame fm l = (e, bs)"
  shows "length bs \<le> HOST_AUDIO_FRAME_SIZE" "e = ODFS_OK \<Longrightarrow> length bs = HOST_AUDIO_FRAME_SIZE"
  using assms by (auto simp: audio_read_frame_def Let_def fread_at_def split: option.splits if_splits)

lemma audio_loop_ok:
  assumes "audio_read_loop fm l n = (e, bs)"
  shows "length bs \<le> n * HOST_AUDIO_FRAME_SIZE \<and> (e = ODFS_OK \<longrightarrow> bs = disc_sectors (file_audio fm) l n)"
  using assms
proof (induction n arbitrary: l e bs)
  case (Suc n)
  obtain e1 b1 where s: "audio_read_frame fm l = (e1, b1)" by force
  obtain e2 b2 where r: "audio_read_loop fm (l + 1) n = (e2, b2)" by force
  note len = audio_frame_length[OF s]
  show ?case
  proof (cases "e1 = ODFS_OK")
    case True
    have "file_audio fm l = b1" using True s len by (simp add: file_audio_def)
    with True s r Suc.IH[OF r] Suc.prems len show ?thesis by (auto simp: disc_sectors_Cons)
  qed (use s Suc.prems len in auto)
qed simp

interpretation file_audio: audio_media file_media_ops "file_audio fm" "\<lambda>m. m = fm" for fm
proof unfold_locales
  show "length (file_audio fm l) = CDDA_FRAME_SIZE" for l
    by (simp add: file_audio_def CDDA_FRAME_SIZE_def HOST_AUDIO_FRAME_SIZE_def)
  fix f m l n e bs m'
  assume "read_audio file_media_ops = Some f" "m = fm" and r: "f m l n = (e, bs, m')"
  then have r: "file_read_audio fm l n = (e, bs, m')" by (simp add: file_media_ops_def)
  then show "m' = fm" by (auto simp: file_read_audio_def split: if_splits prod.splits)
  show "length bs \<le> unat n * CDDA_FRAME_SIZE"
    using r by (auto simp: file_read_audio_def CDDA_FRAME_SIZE_def HOST_AUDIO_FRAME_SIZE_def dest: audio_loop_ok split: if_splits prod.splits)
next
  fix f m l n bs m'
  assume "read_audio file_media_ops = Some f" "m = fm" "f m l n = (ODFS_OK, bs, m')"
  then show "bs = disc_sectors (file_audio fm) l (unat n)"
    by (auto simp: file_media_ops_def file_read_audio_def dest!: audio_loop_ok split: if_splits prod.splits)
qed (simp add: file_media_ops_def)

end
