(* ===== verification/Cdda_Dir.thy ===== *)
theory Cdda_Dir
  imports Cdda_Facts Dir_Source Text_Facts
begin

text \<open>
  The directory of an audio disc: the list of its entries, the enumeration as a fold over it, and what a
  lookup finds there.
\<close>

section \<open>The entries\<close>

definition cdda_metadata :: "cdda_context \<Rightarrow> odfs_node list" where
  "cdda_metadata ctx = map the (filter (\<lambda>n. n \<noteq> None)
     [cdda_fill_disk_icon_node ctx, cdda_fill_cddb_node ctx, cdda_fill_cdtext_node ctx])"

definition cdda_entries :: "cdda_context \<Rightarrow> odfs_node list" where
  "cdda_entries ctx = cdda_metadata ctx @ map (cdda_fill_track_node ctx) [0..<length (cd_tracks ctx)]"

text \<open>What enumerating entries does: the callback's error, if any, and the index it stopped at.\<close>

fun cdda_fold :: "'s dir_iter_fn \<Rightarrow> nat \<Rightarrow> odfs_node list \<Rightarrow> 's \<Rightarrow> heap \<Rightarrow> odfs_err \<times> nat \<times> 's \<times> heap" where
  "cdda_fold cb i [] s h = (ODFS_OK, i, s, h)"
| "cdda_fold cb i (n # ns) s h =
     (case cb n s h of (err, s, h) \<Rightarrow> if err \<noteq> ODFS_OK then (err, i, s, h) else cdda_fold cb (i + 1) ns s h)"

lemma fold_append:
  "cdda_fold cb i (xs @ ys) s h = (case cdda_fold cb i xs s h of
     (err, j, s, h) \<Rightarrow> if err \<noteq> ODFS_OK then (err, j, s, h) else cdda_fold cb (i + length xs) ys s h)"
  by (induction xs arbitrary: i s h) (auto split: prod.splits)

lemma fold_index: "cdda_fold cb i ns s h = (ODFS_OK, j, s', h') \<Longrightarrow> j = i + length ns"
  by (induction ns arbitrary: i s h) (fastforce split: prod.splits if_splits)+

lemmas fill_nodes = cdda_fill_disk_icon_node_def cdda_fill_cddb_node_def cdda_fill_cdtext_node_def cdda_fill_virtual_node_def

lemmas cdda_names = CDDA_CDDB_NAME_def CDDA_CDTEXT_NAME_def CDDA_DISK_ICON_NAME_def str_bytes_def

lemma fill_present:
  "cdda_fill_cddb_node ctx \<noteq> None \<longleftrightarrow> present (cd_cddb ctx)"
  "cdda_fill_cdtext_node ctx \<noteq> None \<longleftrightarrow> present (cd_cdtext ctx)"
  "cdda_fill_disk_icon_node ctx \<noteq> None \<longleftrightarrow> \<not> cd_mixed ctx \<and> present (cd_icon ctx)"
  by (auto simp: fill_nodes present_def cdda_names ODFS_NAME_MAX_def split: option.splits)

lemma length_metadata: "int (length (cdda_metadata ctx)) = cdda_metadata_count ctx"
  using fill_present[of ctx] by (auto simp: cdda_metadata_def cdda_metadata_count_def)

lemma fill_metadata: "i < length (cdda_metadata ctx) \<Longrightarrow> cdda_fill_metadata_node ctx (int i) = Some (cdda_metadata ctx ! i)"
  using fill_present[of ctx]
  by (auto simp: cdda_metadata_def cdda_fill_metadata_node_def Let_def nth_Cons less_Suc_eq split: nat.splits if_splits)

section \<open>Enumeration\<close>

text \<open>The signed value of a small number.\<close>

lemma sint_small:
  assumes "unat (r :: u32) < 2 ^ 31"
  shows "sint r = int (unat r)"
proof -
  have "int (unat r) < int (2 ^ 31)" using assms by (simp only: of_nat_less_iff)
  then have "uint r < 2 ^ 31" by (simp only: uint_nat of_nat_power of_nat_numeral)
  have "sint r = signed_take_bit (LENGTH(32) - Suc 0) (uint r)" by (rule sint_uint)
  also have "\<dots> = uint r"
  proof (rule signed_take_bit_int_eq_self)
    show "- (2 ^ (LENGTH(32) - Suc 0)) \<le> uint r" using uint_ge_0[of r] by (rule order_trans[rotated]) simp
    show "uint r < 2 ^ (LENGTH(32) - Suc 0)" using \<open>uint r < 2 ^ 31\<close> by simp
  qed
  finally show ?thesis by (simp only: uint_nat)
qed

lemma emit_fold:
  assumes "\<And>i. a \<le> i \<Longrightarrow> i < length xs \<Longrightarrow> fill (int i) = Some (xs ! i)" "a \<le> length xs"
  shows "cdda_emit fill [int a..int (length xs) - 1] cb s h = (case cdda_fold cb (a + d) (drop a xs) s h of
    (err, i, s, h) \<Rightarrow> (if err = ODFS_OK then None else Some (err, int i - int d), s, h))"
  using assms
proof (induction "length xs - a" arbitrary: a s h)
  case 0
  then show ?case by simp
next
  case (Suc m)
  then have a: "a < length xs" by simp
  have u: "[int a..int (length xs) - 1] = int a # [int (Suc a)..int (length xs) - 1]" using a by (subst upto.simps) (simp add: add.commute)
  have f: "fill (int a) = Some (xs ! a)" using Suc.prems(1) a by simp
  obtain err s1 h1 where c: "cb (xs ! a) s h = (err, s1, h1)" by (metis prod_cases3)
  have IH: "cdda_emit fill [int (Suc a)..int (length xs) - 1] cb s1 h1 = (case cdda_fold cb (Suc a + d) (drop (Suc a) xs) s1 h1 of
    (err, i, s, h) \<Rightarrow> (if err = ODFS_OK then None else Some (err, int i - int d), s, h))"
    by (rule Suc.hyps(1)) (use Suc a in auto)
  have d: "drop a xs = xs ! a # drop (Suc a) xs" using a by (simp add: Cons_nth_drop_Suc)
  show ?case unfolding u d using f c IH by simp
qed

lemma emit_none: "(\<And>i. i \<in> set is \<Longrightarrow> fill i = None) \<Longrightarrow> cdda_emit fill (is @ js) cb s h = cdda_emit fill js cb s h"
  by (induction "is") auto

text \<open>The second loop, from an index that may be negative.\<close>

lemma emit_tracks:
  assumes "start \<le> int (length ns)"
  shows "cdda_emit (\<lambda>i. if i < 0 then None else Some (ns ! nat i)) [start..int (length ns) - 1] cb s h =
    (case cdda_fold cb (nat start + d) (drop (nat start) ns) s h of
      (err, i, s, h) \<Rightarrow> (if err = ODFS_OK then None else Some (err, int i - int d), s, h))"
proof -
  let ?f = "\<lambda>i. if i < 0 then None else Some (ns ! nat i)"
  have pos: "cdda_emit ?f [int a..int (length ns) - 1] cb s h =
    (case cdda_fold cb (a + d) (drop a ns) s h of
      (err, i, s, h) \<Rightarrow> (if err = ODFS_OK then None else Some (err, int i - int d), s, h))" if "a \<le> length ns" for a
    by (rule emit_fold) (use that in auto)
  show ?thesis
  proof (cases "0 \<le> start")
    case True
    then show ?thesis using pos[of "nat start"] assms by simp
  next
    case False
    then have "[start..int (length ns) - 1] = [start..- 1] @ [0..int (length ns) - 1]"
      using upto_split1[of start 0 "int (length ns) - 1"] by (cases ns) simp_all
    moreover have "cdda_emit ?f ([start..- 1] @ [0..int (length ns) - 1]) cb s h = cdda_emit ?f [0..int (length ns) - 1] cb s h"
      by (rule emit_none) auto
    ultimately show ?thesis using pos[of 0] False by simp
  qed
qed

lemma readdir_fold:
  assumes r: "unat r \<le> length (cdda_entries ctx)" and n: "length (cd_tracks ctx) \<le> CDDA_MAX_TRACKS"
  shows "cdda_readdir ctx c h dir cb s r =
    (case cdda_fold cb (unat r) (drop (unat r) (cdda_entries ctx)) s h of
      (err, i, s, h) \<Rightarrow> Some ((err, of_nat i, s), ctx, c, h))"
proof -
  define ms where "ms = cdda_metadata ctx"
  define ts where "ts = map (cdda_fill_track_node ctx) [0..<length (cd_tracks ctx)]"
  have es: "cdda_entries ctx = ms @ ts" by (simp add: cdda_entries_def ms_def ts_def)
  have lm: "cdda_metadata_count ctx = int (length ms)" by (simp add: length_metadata ms_def)
  have "length ms \<le> 3" by (simp add: ms_def cdda_metadata_def)
  then have "length (cdda_entries ctx) \<le> 102" using n by (simp add: es ts_def CDDA_MAX_TRACKS_def)
  then have "unat r < 2 ^ 31" using r by simp
  then have st: "sint r = int (unat r)" by (rule sint_small)
  define R where "R = unat r"
  note st = st[folded R_def] and r = r[folded R_def]
  have first: "cdda_emit (cdda_fill_metadata_node ctx) [int R..int (length ms) - 1] cb s h =
    (case cdda_fold cb R (drop R ms) s h of
      (err, i, s, h) \<Rightarrow> (if err = ODFS_OK then None else Some (err, int i), s, h))"
  proof (cases "R \<le> length ms")
    case True
    then show ?thesis using emit_fold[of "R" ms "cdda_fill_metadata_node ctx" cb s h 0] fill_metadata by (simp add: ms_def split: prod.splits)
  next
    case False
    then show ?thesis by simp
  qed
  have fill: "(\<lambda>i. if i < 0 then None else Some (cdda_fill_track_node ctx (nat i))) i =
      (\<lambda>i. if i < 0 then None else Some (ts ! nat i)) i" if "i < int (length ts)" for i
    using that by (auto simp: ts_def nat_less_iff)
  have cong: "(\<And>i. i \<in> set is \<Longrightarrow> f i = g i) \<Longrightarrow> cdda_emit f is cb s h = cdda_emit g is cb s h" for f g "is" s h
    by (induction "is" arbitrary: s h) (auto split: option.splits prod.splits)
  have second: "cdda_emit (\<lambda>i. if i < 0 then None else Some (cdda_fill_track_node ctx (nat i)))
      [int R - int (length ms)..int (length (cd_tracks ctx)) - 1] cb s h =
    (case cdda_fold cb (max R (length ms)) (drop (R - length ms) ts) s h of
      (err, i, s, h) \<Rightarrow> (if err = ODFS_OK then None else Some (err, int i - int (length ms)), s, h))" for s h
  proof -
    have lt: "length (cd_tracks ctx) = length ts" by (simp add: ts_def)
    have "int R - int (length ms) \<le> int (length ts)" using r by (simp add: es)
    from emit_tracks[OF this, of cb s h "length ms"]
    have "cdda_emit (\<lambda>i. if i < 0 then None else Some (ts ! nat i)) [int R - int (length ms)..int (length ts) - 1] cb s h =
      (case cdda_fold cb (max R (length ms)) (drop (R - length ms) ts) s h of
        (err, i, s, h) \<Rightarrow> (if err = ODFS_OK then None else Some (err, int i - int (length ms)), s, h))"
      by (simp add: nat_diff_distrib' max_def)
    moreover have "cdda_emit (\<lambda>i. if i < 0 then None else Some (cdda_fill_track_node ctx (nat i))) [int R - int (length ms)..int (length ts) - 1] cb s h =
      cdda_emit (\<lambda>i. if i < 0 then None else Some (ts ! nat i)) [int R - int (length ms)..int (length ts) - 1] cb s h"
      by (rule cong) (rule fill, simp)
    ultimately show ?thesis by (simp add: lt)
  qed
  obtain e1 i1 s1 h1 where f1: "cdda_fold cb R (drop R ms) s h = (e1, i1, s1, h1)" by (metis prod_cases4)
  obtain e2 i2 s2 h2 where f2: "cdda_fold cb (max R (length ms)) (drop (R - length ms) ts) s1 h1 = (e2, i2, s2, h2)" by (metis prod_cases4)
  have ok: "\<not> int R - int (length ms) < - (2 ^ 31)" using \<open>length ms \<le> 3\<close> by simp
  have i2: "e2 = ODFS_OK \<Longrightarrow> i2 = length ms + length ts"
    using fold_index f2 r by (fastforce simp: es max_def)
  have mx: "R + (length ms - R) = max R (length ms)" by simp
  have all: "cdda_fold cb R (drop R (cdda_entries ctx)) s h =
      (if e1 \<noteq> ODFS_OK then (e1, i1, s1, h1) else (e2, i2, s2, h2))"
    using f1 f2 mx by (simp add: es fold_append)
  have lt: "length ts = length (cd_tracks ctx)" by (simp add: ts_def)
  show ?thesis
    unfolding cdda_readdir_def Let_def R_def[symmetric] st lm first f1 all using ok second[of s1 h1] f2 i2
    by (auto simp: lt)
qed


section \<open>Lookup\<close>

text \<open>The names of an audio disc begin with different letters, or differ in the second.\<close>

lemma track_name_ok: "n < 100 \<Longrightarrow> 0 \<notin> set (cdda_track_name n fmt)" "length (cdda_track_name n fmt) < 16"
proof -
  show "length (cdda_track_name n fmt) < 16" by (simp add: cdda_track_name_def)
  assume n: "n < 100"
  have "unat (n div 10) < 10" "unat (n mod 10) < 10"
    using n by (auto simp: unat_div unat_mod word_less_nat_alt div_less_iff_less_mult)
  then have "unat (0x30 + n div 10) = 48 + unat (n div 10)" "unat (0x30 + n mod 10) = 48 + unat (n mod 10)"
    by (auto simp: unat_word_ariths)
  then have "0x30 + n div 10 \<noteq> 0" "0x30 + n mod 10 \<noteq> 0" by (auto simp: unat_eq_0[symmetric])
  then show "0 \<notin> set (cdda_track_name n fmt)" by (auto simp: cdda_track_name_def str_bytes_def)
qed

lemma virtual_name: "cdda_fill_virtual_node dat ident l nm = Some node \<Longrightarrow> name node = nm"
  by (auto simp: cdda_fill_virtual_node_def split: option.splits if_splits)

lemma metadata_names:
  "cdda_fill_cddb_node ctx = Some n \<Longrightarrow> name n = CDDA_CDDB_NAME"
  "cdda_fill_cdtext_node ctx = Some n \<Longrightarrow> name n = CDDA_CDTEXT_NAME"
  "cdda_fill_disk_icon_node ctx = Some n \<Longrightarrow> name n = CDDA_DISK_ICON_NAME"
  by (auto simp: cdda_fill_cddb_node_def cdda_fill_cdtext_node_def cdda_fill_disk_icon_node_def dest: virtual_name split: if_splits)

lemma track_node_name: "name (cdda_fill_track_node ctx i) = cdda_track_name (trk_number (cd_tracks ctx ! i)) (cd_format ctx)"
  by (simp add: cdda_fill_track_node_def Let_def)

definition listed_as :: "u8 list \<Rightarrow> odfs_node \<Rightarrow> bool" where
  "listed_as nm n \<longleftrightarrow> odfs_strcasecmp nm (name n) = 0"

lemma lookup_track_find:
  "lookup_track ctx nm is = find (listed_as nm) (map (cdda_fill_track_node ctx) is)"
  by (induction "is") (auto simp: listed_as_def track_node_name)

lemma fold_names:
  "hd (fold_name (cdda_track_name n fmt)) = 0x74" "hd (fold_name CDDA_CDDB_NAME) = 0x63"
  "hd (fold_name CDDA_CDTEXT_NAME) = 0x63" "hd (fold_name CDDA_DISK_ICON_NAME) = 0x64"
  "fold_name CDDA_CDDB_NAME ! 2 = 0x64" "fold_name CDDA_CDTEXT_NAME ! 2 = 0x2D"
  by (simp_all add: cdda_track_name_def cdda_names odfs_ascii_tolower_def)


lemma lookup_find:
  assumes nm: "0 \<notin> set nm" and tr: "\<And>t. t \<in> set (cd_tracks ctx) \<Longrightarrow> trk_number t < 100"
  shows "cdda_lookup ctx c h dir nm =
    Some (case find (listed_as nm) (cdda_entries ctx) of Some node \<Rightarrow> Inr node | None \<Rightarrow> Inl ODFS_ERR_NOT_FOUND, ctx, c, h)"
proof -
  have nz: "0 \<notin> set CDDA_CDDB_NAME" "0 \<notin> set CDDA_CDTEXT_NAME" "0 \<notin> set CDDA_DISK_ICON_NAME" by (auto simp: cdda_names)
  note eq = strcasecmp_0_iff[OF nm nz(1)] strcasecmp_0_iff[OF nm nz(2)] strcasecmp_0_iff[OF nm nz(3)]
  define tn where "tn = map (cdda_fill_track_node ctx) [0..<length (cd_tracks ctx)]"
  have tl: "listed_as nm n \<Longrightarrow> hd (fold_name nm) = 0x74" if "n \<in> set tn" for n
  proof -
    from that obtain i where i: "i < length (cd_tracks ctx)" "n = cdda_fill_track_node ctx i" by (auto simp: tn_def)
    have "trk_number (cd_tracks ctx ! i) < 100" using tr i(1) by simp
    note z = track_name_ok(1)[OF this, of "cd_format ctx"]
    show "listed_as nm n \<Longrightarrow> hd (fold_name nm) = 0x74"
      by (simp add: listed_as_def i(2) track_node_name strcasecmp_0_iff[OF nm z] fold_names)
  qed
  then have none: "find (listed_as nm) tn = None" if "hd (fold_name nm) \<noteq> 0x74" using that by (auto simp: find_None_iff)
  have meta: "find (listed_as nm) (cdda_metadata ctx) =
      (if fold_name nm = fold_name CDDA_CDDB_NAME then cdda_fill_cddb_node ctx
       else if fold_name nm = fold_name CDDA_CDTEXT_NAME then cdda_fill_cdtext_node ctx
       else if fold_name nm = fold_name CDDA_DISK_ICON_NAME then cdda_fill_disk_icon_node ctx else None)"
    using metadata_names[of ctx] fold_names(2-6)
    by (cases "cdda_fill_cddb_node ctx"; cases "cdda_fill_cdtext_node ctx"; cases "cdda_fill_disk_icon_node ctx")
      (auto simp: cdda_metadata_def listed_as_def eq)
  have app: "find P (xs @ ys) = (case find P xs of None \<Rightarrow> find P ys | Some x \<Rightarrow> Some x)" for P and xs ys :: "odfs_node list"
    by (induction xs) auto
  have "(if odfs_strcasecmp nm CDDA_CDDB_NAME = 0 then cdda_fill_cddb_node ctx
         else if odfs_strcasecmp nm CDDA_CDTEXT_NAME = 0 then cdda_fill_cdtext_node ctx
         else if odfs_strcasecmp nm CDDA_DISK_ICON_NAME = 0 then cdda_fill_disk_icon_node ctx
         else lookup_track ctx nm [0..<length (cd_tracks ctx)]) = find (listed_as nm) (cdda_entries ctx)"
    unfolding cdda_entries_def app meta eq lookup_track_find tn_def[symmetric]
    using none fold_names(2-4) by (auto split: option.splits)
  then show ?thesis by (simp only: cdda_lookup_def Let_def)
qed

section \<open>Well-formed entries\<close>

text \<open>
  A context as mounting makes it: track numbers have two digits, titles fit the comment of a node, and the
  files made up from memory are smaller than 4 GiB.
\<close>

definition cdda_ok :: "cdda_context \<Rightarrow> bool" where
  "cdda_ok ctx \<longleftrightarrow> length (cd_tracks ctx) \<le> CDDA_MAX_TRACKS \<and>
     (\<forall>t \<in> set (cd_tracks ctx). trk_number t < 100 \<and> 0 \<notin> set (trk_title t) \<and> length (trk_title t) < ODFS_AMIGA_COMMENT_MAX)"

text \<open>What kind of entry a node is and whether its fields are those of the object it stands for.\<close>

definition cdda_typed :: "cdda_context \<Rightarrow> odfs_node \<Rightarrow> bool" where
  "cdda_typed ctx n \<longleftrightarrow> node_ok n \<and> backend n = ODFS_BACKEND_CDDA \<and> kind n = ODFS_NODE_VIRTUAL \<and> parent_id n = 0 \<and>
     extlen (extent n) = ucast (size n) \<and>
     ((\<exists>i < length (cd_tracks ctx). lba (extent n) = of_nat (i + 2) \<and> node_id n = ucast (trk_number (cd_tracks ctx ! i)) \<and>
         size n = trk_file_size (cd_tracks ctx ! i)) \<or>
      (\<exists>(ident, l, dat) \<in> {(CDDA_CDDB_NODE_ID, CDDA_CDDB_LBA, cd_cddb ctx), (CDDA_CDTEXT_NODE_ID, CDDA_CDTEXT_LBA, cd_cdtext ctx),
          (CDDA_DISK_ICON_NODE_ID, CDDA_DISK_ICON_LBA, cd_icon ctx)}.
         \<exists>bs. dat = Some bs \<and> bs \<noteq> [] \<and> node_id n = ident \<and> lba (extent n) = l \<and> size n = of_nat (length bs)))"

lemma track_typed:
  assumes "cdda_ok ctx" "i < length (cd_tracks ctx)"
  shows "cdda_typed ctx (cdda_fill_track_node ctx i)"
proof -
  let ?t = "cd_tracks ctx ! i"
  have t: "trk_number ?t < 100" "0 \<notin> set (trk_title ?t)" "length (trk_title ?t) < ODFS_AMIGA_COMMENT_MAX"
    using assms by (auto simp: cdda_ok_def)
  have "node_ok (cdda_fill_track_node ctx i)"
    using t track_name_ok(1)[OF t(1), of "cd_format ctx"] track_name_ok(2)[of "trk_number ?t" "cd_format ctx"]
    by (auto simp: node_ok_def cdda_fill_track_node_def Let_def zero_node_def ODFS_NAME_MAX_def)
  moreover have "lba (extent (cdda_fill_track_node ctx i)) = of_nat (i + 2)" "node_id (cdda_fill_track_node ctx i) = ucast (trk_number ?t)"
    "size (cdda_fill_track_node ctx i) = trk_file_size ?t" by (simp_all add: cdda_fill_track_node_def Let_def)
  ultimately show ?thesis using assms(2)
    unfolding cdda_typed_def by (auto simp: cdda_fill_track_node_def Let_def zero_node_def)
qed

lemma ucast_len: "(ucast (of_nat n :: u64) :: u32) = of_nat n"
  by (simp add: word_unat_eq_iff unsigned_ucast_eq unsigned_of_nat)

lemma virtual_typed:
  assumes "cdda_fill_virtual_node dat ident l nm = Some n" "0 \<notin> set nm"
  shows "node_ok n \<and> backend n = ODFS_BACKEND_CDDA \<and> kind n = ODFS_NODE_VIRTUAL \<and> parent_id n = 0 \<and> extlen (extent n) = ucast (size n) \<and>
    (\<exists>bs. dat = Some bs \<and> bs \<noteq> [] \<and> node_id n = ident \<and> lba (extent n) = l \<and> size n = of_nat (length bs))"
  using assms by (auto simp: cdda_fill_virtual_node_def node_ok_def zero_node_def ucast_len split: option.splits if_splits)

lemma metadata_typed: "n \<in> set (cdda_metadata ctx) \<Longrightarrow> cdda_typed ctx n"
proof -
  assume "n \<in> set (cdda_metadata ctx)"
  then consider "cdda_fill_disk_icon_node ctx = Some n" | "cdda_fill_cddb_node ctx = Some n" | "cdda_fill_cdtext_node ctx = Some n"
    by (auto simp: cdda_metadata_def split: if_splits)
  then obtain dat ident l nm where v: "cdda_fill_virtual_node dat ident l nm = Some n" "0 \<notin> set nm"
      "(ident, l, dat) \<in> {(CDDA_CDDB_NODE_ID, CDDA_CDDB_LBA, cd_cddb ctx), (CDDA_CDTEXT_NODE_ID, CDDA_CDTEXT_LBA, cd_cdtext ctx),
          (CDDA_DISK_ICON_NODE_ID, CDDA_DISK_ICON_LBA, cd_icon ctx)}"
  proof cases
    case 1
    then show thesis by (intro that[of "cd_icon ctx" CDDA_DISK_ICON_NODE_ID CDDA_DISK_ICON_LBA CDDA_DISK_ICON_NAME])
        (auto simp: cdda_fill_disk_icon_node_def cdda_names split: if_splits)
  next
    case 2
    then show thesis by (intro that[of "cd_cddb ctx" CDDA_CDDB_NODE_ID CDDA_CDDB_LBA CDDA_CDDB_NAME])
        (auto simp: cdda_fill_cddb_node_def cdda_names)
  next
    case 3
    then show thesis by (intro that[of "cd_cdtext ctx" CDDA_CDTEXT_NODE_ID CDDA_CDTEXT_LBA CDDA_CDTEXT_NAME])
        (auto simp: cdda_fill_cdtext_node_def cdda_names)
  qed
  from virtual_typed[OF v(1,2)] v(3) show "cdda_typed ctx n" unfolding cdda_typed_def by blast
qed

lemma entries_typed: "cdda_ok ctx \<Longrightarrow> n \<in> set (cdda_entries ctx) \<Longrightarrow> cdda_typed ctx n"
  by (auto simp: cdda_entries_def metadata_typed track_typed)

end
