(* ===== verification/Cdda_Props.thy ===== *)
theory Cdda_Props
  imports Cdda_Dir Catalog
begin

text \<open>
  Properties of the audio backend: what mounting establishes, what a track file contains, what is listed
  and looked up, and the headers.
\<close>

section \<open>Mounting\<close>

definition sizes_ok :: "cdda_file_format \<Rightarrow> cdda_track \<Rightarrow> bool" where
  "sizes_ok fmt t \<longleftrightarrow> trk_length_frames t \<noteq> 0 \<and> trk_data_size t = ucast (trk_length_frames t) * 2352 \<and>
     trk_file_size t = trk_data_size t + of_nat (cdda_header_size fmt)"

lemma toc_step:
  assumes "toc_tracks toc hs (i # is) n = Some trks" "n < CDDA_MAX_TRACKS"
  obtains "toc_tracks toc hs is n = Some trks"
  | l trks' where "i < length (toc_sessions toc)" "l \<noteq> 0" "toc_tracks toc hs is (n + 1) = Some trks'"
    "trks = \<lparr>trk_number = sess_number (toc_sessions toc ! i), trk_start_lba = sess_start_lba (toc_sessions toc ! i),
       trk_length_frames = l, trk_data_size = ucast l * 2352, trk_file_size = ucast l * 2352 + of_nat hs, trk_title = []\<rparr> # trks'"
  using assms by (auto simp: bind_eq_Some_conv Let_def split: if_splits)

lemma toc_tracks_ok:
  assumes "toc_tracks toc (cdda_header_size fmt) is n = Some trks" "n \<le> CDDA_MAX_TRACKS"
  shows "n + length trks \<le> CDDA_MAX_TRACKS \<and> (\<forall>t \<in> set trks. sizes_ok fmt t \<and> trk_title t = [] \<and>
      (\<exists>s \<in> set (toc_sessions toc). trk_number t = sess_number s))"
  using assms
proof (induction "is" arbitrary: n trks)
  case Nil
  then show ?case by simp
next
  case (Cons i "is")
  show ?case
  proof (cases "n < CDDA_MAX_TRACKS")
    case False
    with Cons.prems show ?thesis by simp
  next
    case True
    from Cons.prems(1) True show ?thesis
    proof (rule toc_step)
      fix l trks' assume "i < length (toc_sessions toc)" "l \<noteq> 0" "toc_tracks toc (cdda_header_size fmt) is (n + 1) = Some trks'"
        "trks = \<lparr>trk_number = sess_number (toc_sessions toc ! i), trk_start_lba = sess_start_lba (toc_sessions toc ! i),
           trk_length_frames = l, trk_data_size = ucast l * 2352,
           trk_file_size = ucast l * 2352 + of_nat (cdda_header_size fmt), trk_title = []\<rparr> # trks'"
      with Cons.IH[of "n + 1" trks'] True show ?thesis by (auto simp: sizes_ok_def)
    qed (use Cons in auto)
  qed
qed

text \<open>CD-Text changes titles only, and gives titles that fit.\<close>

definition untitled :: "cdda_track \<Rightarrow> cdda_track" where
  "untitled t = t\<lparr>trk_title := []\<rparr>"

definition title_ok :: "cdda_track \<Rightarrow> bool" where
  "title_ok t \<longleftrightarrow> 0 \<notin> set (trk_title t) \<and> length (trk_title t) < ODFS_AMIGA_COMMENT_MAX"

text \<open>What the texts leave of the context.\<close>

definition same_audio :: "cdda_context \<Rightarrow> cdda_context \<Rightarrow> bool" where
  "same_audio ctx ctx' \<longleftrightarrow> cd_format ctx' = cd_format ctx \<and> cd_audio ctx' = cd_audio ctx \<and> cd_audio_lba ctx' = cd_audio_lba ctx \<and>
     cd_audio_frames ctx' = cd_audio_frames ctx \<and> map untitled (cd_tracks ctx') = map untitled (cd_tracks ctx) \<and>
     ((\<forall>t \<in> set (cd_tracks ctx). title_ok t) \<longrightarrow> (\<forall>t \<in> set (cd_tracks ctx'). title_ok t))"

lemma same_audio_refl [simp]: "same_audio ctx ctx"
  by (simp add: same_audio_def)

lemma same_audio_trans: "same_audio a b \<Longrightarrow> same_audio b d \<Longrightarrow> same_audio a d"
  by (auto simp: same_audio_def)

lemma sanitize_ok: "0 \<notin> set (cdda_sanitize_ascii n src)" "0 < n \<Longrightarrow> length (cdda_sanitize_ascii n src) < n"
proof -
  have "sanitize_char c \<noteq> 0" for c by (cases "c = 0") (simp_all add: sanitize_char_def Let_def)
  then show "0 \<notin> set (cdda_sanitize_ascii n src)" by (auto simp: cdda_sanitize_ascii_def eq_commute[of 0])
qed (simp add: cdda_sanitize_ascii_def)

lemma set_title_ok:
  "map untitled (set_title k ti trks) = map untitled trks"
  "t \<in> set (set_title k ti trks) \<Longrightarrow> t \<in> set trks \<or> trk_title t = ti"
  by (induction trks) (auto simp: untitled_def split: if_splits)

lemma store_same: "same_audio ctx (cdda_store_track_title ctx k ti)"
proof -
  have put: "same_audio ctx (ctx\<lparr>cd_tracks := set_title k ti' (cd_tracks ctx)\<rparr>)"
    if "(\<forall>t \<in> set (cd_tracks ctx). title_ok t) \<longrightarrow> 0 \<notin> set ti' \<and> length ti' < ODFS_AMIGA_COMMENT_MAX" for ti'
    using that set_title_ok[where k = k and ti = ti' and trks = "cd_tracks ctx"] by (auto simp: same_audio_def title_ok_def)
  have alb: "same_audio ctx (ctx\<lparr>cd_album_title := a\<rparr>)" for a by (simp add: same_audio_def)
  have "ODFS_AMIGA_COMMENT_MAX > 0" by (simp add: ODFS_AMIGA_COMMENT_MAX_def)
  then show ?thesis
    by (auto simp: cdda_store_track_title_def alb find_Some_iff title_ok_def intro!: put sanitize_ok split: option.splits)
qed

lemma title_pack_same: "same_audio (pw_out w) (pw_out (title_pack pack w))"
proof -
  have c: "same_audio ctx (pw_out w) \<Longrightarrow> same_audio ctx (pw_out (title_char c w))" for ctx w and c :: u8
    by (auto simp: title_char_def intro: same_audio_trans[OF _ store_same])
  have "same_audio ctx (pw_out w) \<Longrightarrow> same_audio ctx (pw_out (fold title_char cs w))" for ctx w and cs :: "u8 list"
    by (induction cs arbitrary: w) (auto intro: c)
  then show ?thesis by (auto simp: title_pack_def pack_resync_def)
qed

lemma titles_same: "same_audio ctx (cdda_extract_track_titles ctx packs)"
proof -
  have "same_audio ctx (pw_out w) \<Longrightarrow> same_audio ctx (pw_out (fold title_pack ps w))" for w ps
    by (induction ps arbitrary: w) (auto intro: same_audio_trans[OF _ title_pack_same])
  then show ?thesis by (simp add: cdda_extract_track_titles_def)
qed

lemma texts_same:
  "same_audio ctx (cdda_set_volume_name ctx)" "same_audio ctx (cdda_set_album_volume_name ctx)"
  "cdda_generate_cddb ctx h = (ctx', h') \<Longrightarrow> same_audio ctx ctx'"
  by (auto simp: same_audio_def cdda_set_volume_name_def cdda_set_album_volume_name_def cdda_generate_cddb_def Let_def
      split: if_splits prod.splits bool.splits option.splits)

lemma cdtext_same: "cdda_generate_cdtext ctx raw h = (ctx', h') \<Longrightarrow> same_audio ctx ctx'"
proof -
  assume a: "cdda_generate_cdtext ctx raw h = (ctx', h')"
  then consider "ctx' = ctx" | packs where "ctx' = cdda_extract_track_titles ctx packs"
    | packs t where "ctx' = (cdda_extract_track_titles ctx packs)\<lparr>cd_cdtext := t\<rparr>"
    by (auto simp: cdda_generate_cdtext_def Let_def split: option.splits if_splits prod.splits)
  then show "same_audio ctx ctx'"
  proof cases
    case (3 packs t)
    then show ?thesis using titles_same[of ctx packs] by (simp add: same_audio_def)
  qed (use titles_same in auto)
qed

text \<open>Mounting, step by step.\<close>

lemma mount_cases:
  assumes "cdda_mount_from_toc toc mixed opts raw h = Some (Inr (root, ctx), h')"
  obtains trks ctx0 fmt where "toc_tracks toc (cdda_header_size fmt) [0..<unat (toc_session_count toc)] 0 = Some trks" "trks \<noteq> []"
    "cd_tracks ctx0 = trks" "cd_format ctx0 = fmt" "cd_audio_frames ctx0 = 0"
    "\<forall>ac. cd_audio ctx0 = Some ac \<longrightarrow> length ac = unat CDDA_READAHEAD_FRAMES * CDDA_FRAME_SIZE" "same_audio ctx0 ctx"
proof -
  let ?fmt = "case opts of Some o' \<Rightarrow> if prefer_aiff o' then CDDA_FILE_FORMAT_AIFF else CDDA_FILE_FORMAT_WAV | None \<Rightarrow> CDDA_FILE_FORMAT_WAV"
  obtain ok0 h0 where m0: "odfs_malloc h = (ok0, h0)" by fastforce
  obtain trks where t: "toc_tracks toc (cdda_header_size ?fmt) [0..<unat (toc_session_count toc)] 0 = Some trks" "trks \<noteq> []" and o0: "ok0"
    using assms m0 by (cases ok0) (auto simp: cdda_mount_from_toc_def bind_eq_Some_conv Let_def split: if_splits)
  define ctx1 where "ctx1 = cdda_set_volume_name
      \<lparr>cd_tracks = trks, cd_mixed = mixed, cd_format = ?fmt, cd_volume_name = [], cd_album_title = [],
       cd_cddb = None, cd_cdtext = None, cd_icon = None, cd_audio = None, cd_audio_lba = 0, cd_audio_frames = 0\<rparr>"
  obtain ok h1 where m1: "odfs_malloc h0 = (ok, h1)" by fastforce
  define ctx2 where "ctx2 = ctx1\<lparr>cd_audio := (if ok then Some (zero_bytes (unat CDDA_READAHEAD_FRAMES * CDDA_FRAME_SIZE)) else None)\<rparr>"
  obtain ctx3 h3 where c3: "cdda_generate_cddb ctx2 h1 = (ctx3, h3)" by fastforce
  obtain ctx4 h4 where c4: "cdda_generate_cdtext ctx3 raw h3 = (ctx4, h4)" by fastforce
  have "ctx = (if \<not> cd_mixed ctx4 \<and> cd_album_title ctx4 \<noteq> [] then cdda_set_album_volume_name ctx4 else ctx4)"
    using assms m0 o0 t m1 c3 c4 by (simp add: cdda_mount_from_toc_def Let_def ctx1_def[symmetric] ctx2_def[symmetric])
  then have "same_audio ctx4 ctx" using texts_same(2) by simp
  then have "same_audio ctx2 ctx" using same_audio_trans[OF texts_same(3)[OF c3]] cdtext_same[OF c4] same_audio_trans by blast
  then show thesis
    by (intro that[OF t, of ctx2]) (simp_all add: ctx2_def ctx1_def cdda_set_volume_name_def)
qed


section \<open>A small disc\<close>

text \<open>An image of two frames of audio, its track, and a mounted disc with one text.\<close>

definition demo_audio :: file_media_ctx where
  "demo_audio = \<lparr>fm_file = zero_bytes 4704, fm_sector_count = 2, fm_is_cue = True, fm_has_audio = True, fm_disc_title = [],
     fm_disc_performer = [], fm_tracks = [\<lparr>ct_start_lba = 0, ct_sector_count = 2, ct_raw_sector_size = 2352, ct_data_offset = 0,
       ct_file_offset = 0, ct_number = 1, ct_is_audio = True, ct_title = [], ct_performer = []\<rparr>]\<rparr>"

definition demo_audio_cache :: "file_media_ctx odfs_cache" where
  "demo_audio_cache = zero_cache\<lparr>c_media := Some \<lparr>mops = file_media_ops, mctx = demo_audio\<rparr>\<rparr>"

definition demo_toc :: odfs_toc where
  "demo_toc = \<lparr>toc_first_session = 1, toc_last_session = 1, toc_session_count = 1, toc_leadout_lba = 2,
     toc_sessions = [\<lparr>sess_number = 1, sess_control = 0, sess_start_lba = 0, sess_length = 0\<rparr>]\<rparr>"

definition demo_track :: cdda_track where
  "demo_track = \<lparr>trk_number = 1, trk_start_lba = 0, trk_length_frames = 2, trk_data_size = 4704, trk_file_size = 4748,
     trk_title = str_bytes ''Song''\<rparr>"

definition demo_cd :: cdda_context where
  "demo_cd = \<lparr>cd_tracks = [demo_track], cd_mixed = False, cd_format = CDDA_FILE_FORMAT_WAV, cd_volume_name = str_bytes ''Audio CD'',
     cd_album_title = [], cd_cddb = Some (str_bytes ''DISCID''), cd_cdtext = None, cd_icon = None, cd_audio = None,
     cd_audio_lba = 0, cd_audio_frames = 0\<rparr>"

lemma demo_cd_ok: "cdda_ok demo_cd" "audio_inv frame demo_cd" "track_ok CDDA_FILE_FORMAT_WAV demo_track"
  by (simp_all add: cdda_ok_def demo_cd_def demo_track_def audio_inv_def CDDA_MAX_TRACKS_def ODFS_AMIGA_COMMENT_MAX_def str_bytes_def
      track_ok_def CDDA_FRAME_SIZE_def cdda_header_size_def CDDA_WAV_HEADER_SIZE_def)

section \<open>Properties\<close>

text \<open>
  C34: Mounting an audio disc from a table of contents whose track numbers have two digits gives a context
  with at least one and at most 99 tracks, whose file sizes are those of header and samples, whose titles
  (from CD-Text or none) fit the comment field, and whose read-ahead buffer is consistent with any disc.
\<close>

theorem cdda_mount_establishes:
  assumes m: "cdda_mount_from_toc toc mixed opts raw h = Some (Inr (root, ctx), h')"
    and num: "\<forall>s \<in> set (toc_sessions toc). sess_number s < 100"
  shows "cd_tracks ctx \<noteq> [] \<and> cdda_ok ctx \<and> audio_inv frame ctx \<and> (\<forall>t \<in> set (cd_tracks ctx). sizes_ok (cd_format ctx) t)"
proof -
  from m obtain trks ctx0 where t: "toc_tracks toc (cdda_header_size (cd_format ctx0)) [0..<unat (toc_session_count toc)] 0 = Some trks" "trks \<noteq> []"
    and c0: "cd_tracks ctx0 = trks" "cd_audio_frames ctx0 = 0"
      "\<forall>ac. cd_audio ctx0 = Some ac \<longrightarrow> length ac = unat CDDA_READAHEAD_FRAMES * CDDA_FRAME_SIZE" and sa: "same_audio ctx0 ctx"
    by (rule mount_cases) blast
  note ok = toc_tracks_ok[OF t(1)]
  have un: "map untitled (cd_tracks ctx) = map untitled trks" and f: "cd_format ctx = cd_format ctx0" using sa c0 by (auto simp: same_audio_def)
  have len: "length (cd_tracks ctx) = length trks" using arg_cong[OF un, of length] by simp
  have ti: "\<forall>t \<in> set (cd_tracks ctx). title_ok t"
    using sa ok c0(1) by (auto simp: same_audio_def title_ok_def ODFS_AMIGA_COMMENT_MAX_def)
  have tr: "sizes_ok (cd_format ctx) t \<and> trk_number t < 100" if "t \<in> set (cd_tracks ctx)" for t
  proof -
    have "untitled t \<in> untitled ` set trks" using that un by (metis image_eqI image_set)
    then obtain t' where t': "t' \<in> set trks" "untitled t = untitled t'" by auto
    have eq: "trk_number t = trk_number t'" "sizes_ok fmt t = sizes_ok fmt t'" for fmt
      using arg_cong[OF t'(2), of trk_number] arg_cong[OF t'(2), of "sizes_ok fmt"] by (simp_all add: untitled_def sizes_ok_def)
    then show ?thesis using ok t'(1) num f by auto
  qed
  have "audio_inv frame ctx" using sa c0 by (simp add: audio_inv_def same_audio_def)
  moreover have "cdda_ok ctx" using ti tr ok len by (auto simp: cdda_ok_def title_ok_def)
  ultimately show ?thesis using tr t(2) len by auto
qed

theorem cdda_mount_establishes_witness:
  "\<exists>root ctx h'. cdda_mount_from_toc demo_toc False None None (\<lambda>n. n = 0) = Some (Inr (root, ctx), h') \<and>
    list_all (\<lambda>s. sess_number s < 100) (toc_sessions demo_toc) \<and>
    cd_tracks ctx \<noteq> [] \<and> cdda_ok ctx \<and> audio_inv (file_audio demo_audio) ctx \<and> list_all (sizes_ok (cd_format ctx)) (cd_tracks ctx)"
proof -
  have num: "\<forall>s \<in> set (toc_sessions demo_toc). sess_number s < 100" by (simp add: demo_toc_def)
  obtain root ctx h' where m: "cdda_mount_from_toc demo_toc False None None (\<lambda>n. n = 0) = Some (Inr (root, ctx), h')"
    by (simp add: cdda_mount_from_toc_def demo_toc_def odfs_malloc_def CDDA_MAX_TRACKS_def rd_def Let_def split_def)
  show ?thesis using m num cdda_mount_establishes[OF m num] unfolding list_all_iff by blast
qed

text \<open>
  C33: Reading a track file gives its bytes, the header followed by the samples of the frames of the track in
  the byte order of the format, cut at the end of the file, wherever they come from; or the call
  fails with an error of the medium and delivers nothing.  It always returns, and keeps the buffer consistent.
\<close>

theorem cdda_read_correct:
  assumes media: "audio_media ops frame good" "c_media c = Some m" "mops m = ops" "good (mctx m)"
    and ctx: "cdda_ok ctx" "audio_inv frame ctx" "i < length (cd_tracks ctx)" "track_ok (cd_format ctx) (cd_tracks ctx ! i)"
    and want: "unat offset + want < 2 ^ 64" "want \<le> length buf"
  defines "F \<equiv> track_file frame (cd_format ctx) (cd_tracks ctx ! i)"
  shows "\<exists>err b n ctx' c'. cdda_read ctx c h (cdda_fill_track_node ctx i) offset buf want = Some ((err, b, n), ctx', c', h) \<and>
    same_disc ctx ctx' \<and> audio_inv frame ctx' \<and>
    (err = ODFS_OK \<and> n = min want (length F - unat offset) \<and> b = take n (drop (unat offset) F) @ drop n buf \<or>
     err \<in> audio_faults ops good \<and> n = 0)"
proof -
  let ?t = "cd_tracks ctx ! i"
  have g: "audio_media.good_audio ops good c" using media by (auto simp: audio_media.good_audio_def[OF media(1)])
  have len: "length F = unat (trk_file_size ?t)"
    unfolding F_def by (rule length_track_file[OF audio_media.frame_len[OF media(1)] ctx(4)])
  have i: "i < 99" using ctx(1,3) by (auto simp: cdda_ok_def CDDA_MAX_TRACKS_def)
  have u: "unat (of_nat (i + 2) :: u32) = i + 2" by (simp only: unat_u32_of_nat) (use i in simp)
  have "sint (of_nat (i + 2) :: u32) = int (unat (of_nat (i + 2) :: u32))" by (rule sint_small, simp only: u) (use i in simp)
  then have "sint (of_nat (i + 2) :: u32) = int (i + 2)" by (simp only: u)
  then have idx: "sint (lba (extent (cdda_fill_track_node ctx i))) - 2 = int i"
    by (simp add: cdda_fill_track_node_def Let_def)
  have "unat (ucast (trk_number ?t) :: u32) \<le> unat (trk_number ?t)" by (simp add: unsigned_ucast_eq take_bit_eq_mod)
  then have "unat (ucast (trk_number ?t) :: u32) < 256" by (rule le_less_trans) (use unsigned_less[of "trk_number ?t", where ?'a = nat] in simp)
  then have id: "node_id (cdda_fill_track_node ctx i) \<noteq> v" if "256 \<le> unat v" for v
    using that by (auto simp: cdda_fill_track_node_def Let_def)
  from audio_media.read_track_correct[OF media(1) ctx(4,2) g want] obtain res where
    res: "cdda_read_track ctx c ?t offset buf want = Some res"
    and dn: "audio_media.read_done ops frame good ctx ?t (unat offset) buf (min want (unat (trk_file_size ?t) - unat offset)) res" by blast
  obtain err b n ctx' c' where r: "res = ((err, b, n), ctx', c')" by (metis prod_cases3)
  have "cdda_read ctx c h (cdda_fill_track_node ctx i) offset buf want = Some ((err, b, n), ctx', c', h)"
    using res r ctx(3) id[of CDDA_CDDB_NODE_ID] id[of CDDA_CDTEXT_NODE_ID] id[of CDDA_DISK_ICON_NODE_ID]
    by (simp add: cdda_read_def Let_def idx CDDA_CDDB_NODE_ID_def CDDA_CDTEXT_NODE_ID_def CDDA_DISK_ICON_NODE_ID_def)
  then show ?thesis using dn r len by (auto simp: audio_media.read_done_def[OF media(1)] F_def[symmetric])
qed


theorem cdda_read_correct_witness:
  "c_media demo_audio_cache = Some \<lparr>mops = file_media_ops, mctx = demo_audio\<rparr> \<and> track_ok (cd_format demo_cd) (cd_tracks demo_cd ! 0) \<and>
   (\<exists>err b n ctx' c'. cdda_read demo_cd demo_audio_cache heap_plenty (cdda_fill_track_node demo_cd 0) 40 (zero_bytes 100) 100 =
      Some ((err, b, n), ctx', c', heap_plenty) \<and> same_disc demo_cd ctx' \<and> audio_inv (file_audio demo_audio) ctx' \<and>
      (err = ODFS_OK \<and> n = min 100 (length (track_file (file_audio demo_audio) CDDA_FILE_FORMAT_WAV demo_track) - unat (40 :: u64)) \<and>
       b = take n (drop (unat (40 :: u64)) (track_file (file_audio demo_audio) CDDA_FILE_FORMAT_WAV demo_track)) @ drop n (zero_bytes 100) \<or>
       err \<in> audio_faults file_media_ops (\<lambda>m. m = demo_audio) \<and> n = 0))"
proof -
  have m: "c_media demo_audio_cache = Some \<lparr>mops = file_media_ops, mctx = demo_audio\<rparr>" by (simp add: demo_audio_cache_def)
  have t: "cd_tracks demo_cd ! 0 = demo_track" "cd_format demo_cd = CDDA_FILE_FORMAT_WAV" "0 < length (cd_tracks demo_cd)" by (simp_all add: demo_cd_def)
  have ok: "track_ok (cd_format demo_cd) (cd_tracks demo_cd ! 0)" using demo_cd_ok(3) by (simp add: t)
  have w: "unat (40 :: u64) + 100 < 2 ^ 64" "100 \<le> length (zero_bytes 100)" by simp_all
  from cdda_read_correct[OF file_audio.audio_media_axioms m _ _ demo_cd_ok(1,2) t(3) ok w, where h = heap_plenty] m ok t show ?thesis by simp
qed



text \<open>
  C36: Every entry of an audio disc is a virtual node of the backend with a terminated name and comment that
  fit their fields, an extent that names the track or the text it stands for, and that object's size; no
  two entries have the same extent.  A lookup gives the first entry with the name, in any case, or reports that there is none.
\<close>

theorem cdda_nodes_typed:
  assumes "cdda_ok ctx" "0 \<notin> set nm"
  shows "(\<forall>n \<in> set (cdda_entries ctx). cdda_typed ctx n) \<and> distinct (map (\<lambda>n. lba (extent n)) (cdda_entries ctx)) \<and>
    cdda_lookup ctx c h dir nm =
      Some (case find (\<lambda>n. odfs_strcasecmp nm (name n) = 0) (cdda_entries ctx) of
              Some node \<Rightarrow> Inr node | None \<Rightarrow> Inl ODFS_ERR_NOT_FOUND, ctx, c, h)"
proof (intro conjI)
  show "\<forall>n \<in> set (cdda_entries ctx). cdda_typed ctx n" using entries_typed[OF assms(1)] by blast
  have "trk_number t < 100" if "t \<in> set (cd_tracks ctx)" for t using assms(1) that by (auto simp: cdda_ok_def)
  from lookup_find[OF assms(2) this]
  show "cdda_lookup ctx c h dir nm =
      Some (case find (\<lambda>n. odfs_strcasecmp nm (name n) = 0) (cdda_entries ctx) of
              Some node \<Rightarrow> Inr node | None \<Rightarrow> Inl ODFS_ERR_NOT_FOUND, ctx, c, h)"
    by (simp add: listed_as_def[abs_def])
  have n: "length (cd_tracks ctx) \<le> 99" using assms(1) by (simp add: cdda_ok_def CDDA_MAX_TRACKS_def)
  have vl: "cdda_fill_virtual_node dat ident l nm' = Some node \<Longrightarrow> lba (extent node) = l" for dat ident l nm' node
    by (auto simp: cdda_fill_virtual_node_def split: option.splits if_splits)
  have lbas: "cdda_fill_cddb_node ctx = Some node \<Longrightarrow> lba (extent node) = CDDA_CDDB_LBA"
    "cdda_fill_cdtext_node ctx = Some node \<Longrightarrow> lba (extent node) = CDDA_CDTEXT_LBA"
    "cdda_fill_disk_icon_node ctx = Some node \<Longrightarrow> lba (extent node) = CDDA_DISK_ICON_LBA" for node
    by (auto simp: cdda_fill_cddb_node_def cdda_fill_cdtext_node_def cdda_fill_disk_icon_node_def dest: vl split: if_splits)
  have ul: "unat (of_nat (i + 2) :: u32) = i + 2" if "i < 99" for i by (simp only: unat_u32_of_nat) (use that in simp)
  let ?T = "map (\<lambda>n. lba (extent n)) (map (cdda_fill_track_node ctx) [0..<length (cd_tracks ctx)])"
  have T: "?T = map (\<lambda>i. of_nat (i + 2)) [0..<length (cd_tracks ctx)]" by (simp add: cdda_fill_track_node_def Let_def)
  have "inj_on (\<lambda>i. of_nat (i + 2) :: u32) {..<99}" by (rule inj_onI) (metis ul lessThan_iff add_right_cancel)
  then have "inj_on (\<lambda>i. of_nat (i + 2) :: u32) (set [0..<length (cd_tracks ctx)])" by (rule inj_on_subset) (use n in auto)
  then have dT: "distinct ?T" unfolding T distinct_map by simp
  have small: "unat l < 200" if "l \<in> set ?T" for l
    using that unfolding T set_map using ul n by (auto simp del: of_nat_add)
  let ?M = "map (\<lambda>n. lba (extent n)) (cdda_metadata ctx)"
  have "set ?M \<subseteq> {CDDA_CDDB_LBA, CDDA_CDTEXT_LBA, CDDA_DISK_ICON_LBA}" using lbas by (auto simp: cdda_metadata_def split: if_splits)
  then have "\<not> unat l < 200" if "l \<in> set ?M" for l using that by (auto simp: CDDA_CDDB_LBA_def CDDA_CDTEXT_LBA_def CDDA_DISK_ICON_LBA_def)
  moreover have "distinct ?M" using lbas
    by (cases "cdda_fill_cddb_node ctx"; cases "cdda_fill_cdtext_node ctx"; cases "cdda_fill_disk_icon_node ctx")
      (auto simp: cdda_metadata_def CDDA_CDDB_LBA_def CDDA_CDTEXT_LBA_def CDDA_DISK_ICON_LBA_def)
  ultimately show "distinct (map (\<lambda>n. lba (extent n)) (cdda_entries ctx))"
    using dT small unfolding cdda_entries_def map_append distinct_append by blast
qed


theorem cdda_nodes_typed_witness:
  "cdda_ok demo_cd \<and> 0 \<notin> set (str_bytes ''track01.WAV'') \<and> list_all (cdda_typed demo_cd) (cdda_entries demo_cd) \<and>
   distinct (map (\<lambda>n. lba (extent n)) (cdda_entries demo_cd)) \<and>
   cdda_lookup demo_cd demo_audio_cache heap_plenty zero_node (str_bytes ''track01.WAV'') =
      Some (case find (\<lambda>n. odfs_strcasecmp (str_bytes ''track01.WAV'') (name n) = 0) (cdda_entries demo_cd) of
              Some node \<Rightarrow> Inr node | None \<Rightarrow> Inl ODFS_ERR_NOT_FOUND, demo_cd, demo_audio_cache, heap_plenty)"
proof -
  have nm: "0 \<notin> set (str_bytes ''track01.WAV'')" by (simp add: str_bytes_def)
  from cdda_nodes_typed[OF demo_cd_ok(1) nm, of demo_audio_cache heap_plenty zero_node] demo_cd_ok(1) nm show ?thesis
    unfolding list_all_iff by blast
qed

section \<open>Headers\<close>

lemma word_bytes32:
  "ucast (ucast v :: u8) OR push_bit 8 (ucast (ucast (drop_bit 8 v) :: u8)) OR push_bit 16 (ucast (ucast (drop_bit 16 v) :: u8)) OR
     push_bit 24 (ucast (ucast (drop_bit 24 v) :: u8)) = (v :: u32)" (is "?l = v")
proof (rule bit_word_eqI)
  fix n assume n: "n < LENGTH(32)"
  have "bit ?l n \<longleftrightarrow> n < 8 \<and> bit v n \<or> 8 \<le> n \<and> n < 16 \<and> bit v n \<or> 16 \<le> n \<and> n < 24 \<and> bit v n \<or> 24 \<le> n \<and> n < 32 \<and> bit v n"
    using n by (auto simp: bit_simps)
  then show "bit ?l n \<longleftrightarrow> bit v n" using n by auto
qed

lemma word_bytes16: "ucast (ucast w :: u8) OR push_bit 8 (ucast (ucast (drop_bit 8 w) :: u8)) = (w :: u16)" (is "?l = w")
proof (rule bit_word_eqI)
  fix n assume n: "n < LENGTH(16)"
  have "bit ?l n \<longleftrightarrow> n < 8 \<and> bit w n \<or> 8 \<le> n \<and> n < 16 \<and> bit w n" using n by (auto simp: bit_simps)
  then show "bit ?l n \<longleftrightarrow> bit w n" using n by auto
qed

lemma field_read:
  "length p = i \<Longrightarrow> le32 (p @ cdda_write_le32 v @ q) i = Some v" "length p = i \<Longrightarrow> be32 (p @ cdda_write_be32 v @ q) i = Some v"
  "length p = i \<Longrightarrow> le16 (p @ cdda_write_le16 w @ q) i = Some w" "length p = i \<Longrightarrow> be16 (p @ cdda_write_be16 w @ q) i = Some w"
  using word_bytes32[of v] word_bytes16[of w]
  by (simp_all add: le32_def be32_def le16_def be16_def cdda_write_le32_def cdda_write_be32_def cdda_write_le16_def cdda_write_be16_def
      nth_append or.assoc or.commute or.left_commute)

text \<open>A field at its place in a header.\<close>

lemma field_at:
  "take 4 (drop i d) = cdda_write_le32 v \<Longrightarrow> le32 d i = Some v" "take 4 (drop i d) = cdda_write_be32 v \<Longrightarrow> be32 d i = Some v"
  "take 2 (drop i d) = cdda_write_le16 w \<Longrightarrow> le16 d i = Some w" "take 2 (drop i d) = cdda_write_be16 w \<Longrightarrow> be16 d i = Some w"
proof -
  have split: "d = take i d @ f @ drop n (drop i d)" "length (take i d) = i" if "take n (drop i d) = f" "f \<noteq> []" for n f
    using that by (metis append_take_drop_id) (use that in \<open>cases "i < length d"; auto\<close>)
  show "take 4 (drop i d) = cdda_write_le32 v \<Longrightarrow> le32 d i = Some v"
    by (subst split(1)) (assumption | rule field_read split(2) | simp add: cdda_write_le32_def)+
  show "take 4 (drop i d) = cdda_write_be32 v \<Longrightarrow> be32 d i = Some v"
    by (subst split(1)) (assumption | rule field_read split(2) | simp add: cdda_write_be32_def)+
  show "take 2 (drop i d) = cdda_write_le16 w \<Longrightarrow> le16 d i = Some w"
    by (subst split(1)) (assumption | rule field_read split(2) | simp add: cdda_write_le16_def)+
  show "take 2 (drop i d) = cdda_write_be16 w \<Longrightarrow> be16 d i = Some w"
    by (subst split(1)) (assumption | rule field_read split(2) | simp add: cdda_write_be16_def)+
qed


end
