(* ===== verification/Spec2Isabelle.thy ===== *)
theory Spec2Isabelle
  imports Odfs_Base Text_Facts Node Namefix Cache_Facts Session Iso_Props Meta_Props Mount_Props Hfs_Props Hfsplus Udf_Props Cdda_Props
begin

text \<open>
  \<^bold>\<open>ODFileSystem: a file system for optical discs.\<close>

  The program reads CDs and DVDs (ISO 9660, Joliet, Rock Ridge, UDF, HFS, HFS+ and audio tracks) from
  a block device or an image file.  A \<^emph>\<open>medium\<close> delivers sectors of 2048 bytes; a \<^emph>\<open>block cache\<close> sits
  on it; a \<^emph>\<open>backend\<close> per disc format reads volume descriptors and directories through the cache and
  hands nodes to a callback of the mount layer.  The platform layer (a host build for image files, an
  AmigaDOS packet handler) is the client.  The development models the host build with all formats
  enabled (\<^verbatim>\<open>ODFS_NAME_MAX\<close> 512, read-ahead of 8 sectors, 64-bit \<^verbatim>\<open>size_t\<close>).

  \<^bold>\<open>How the code is modelled.\<close>  Machine integers are words of their width and wrap as in C; \<^verbatim>\<open>size_t\<close>
  values that cannot overflow are natural numbers.  A function that fails returns
  \<^typ>\<open>odfs_err + 'a\<close>, or the error code beside its other results.  State (cache, mount context,
  allocator) is passed explicitly.  An access outside an object, and a loop that never ends, is the
  value \<open>None\<close>, so every theorem that says a call returns \<open>Some\<close> also says that it stays inside its
  buffers and ends.  \<open>malloc\<close> consults a \<open>heap\<close>, the list of answers it will give.  Loops are
  recursive functions with a measure, or the partial function \<open>iter\<close> of \<open>Backend\<close>, whose rule asks
  for a measure.

  \<^bold>\<open>The theories.\<close>
  \<^item> \<open>Odfs_Base\<close>: error codes (\<^verbatim>\<open>error.h\<close>), buffers, little-endian fields, the allocator, lemmas on words.
  \<^item> \<open>Text\<close>, \<open>Text_Facts\<close>: \<^verbatim>\<open>string.h\<close> and \<^verbatim>\<open>charset.c\<close>: case-insensitive comparison and hash, UTF-8 and
    UCS-2 conversion, ISO names, POSIX to AmigaDOS paths.
  \<^item> \<open>Node\<close>: nodes (\<^verbatim>\<open>node.h\<close>) and time stamps (\<^verbatim>\<open>timestamp.c\<close>).
  \<^item> \<open>Namefix\<close>: the table of names delivered for a directory (\<^verbatim>\<open>namefix.c\<close>); its contract is the locale
    \<open>name_table\<close>, interpreted on the code's model.
  \<^item> \<open>Media\<close>: the medium's interface (\<^verbatim>\<open>media.h\<close>) and its contract, the locales \<open>disc_media\<close> (successful
    reads deliver the sectors of a disc) and \<open>atomic_media\<close> (a failed one-sector read stores nothing);
    \<open>File_Media\<close>: image files and cue sheets (\<^verbatim>\<open>file_media.c\<close>), which interpret both.
  \<^item> \<open>Block_Cache\<close>: every operation of \<^verbatim>\<open>cache_block.c\<close> on its arrays: entries, hash chains, LRU and free
    lists linked by index.  \<open>Cache_Lists\<close> and \<open>Cache_Rep\<close> relate the arrays to an LRU map of sectors,
    \<open>Cache_Lru\<close>, \<open>Cache_Read\<close>, \<open>Cache_Init\<close> and \<open>Cache_Bytes\<close> prove the operations against it,
    \<open>Cache_Gen\<close> proves what the generation counter promises, \<open>Cache_Facts\<close> holds the properties.
  \<^item> \<open>Session\<close>: the three ways to find the last session (\<^verbatim>\<open>session.c\<close>), with a proof that the scan for
    volume descriptors ends on well formed discs and one that a crafted image makes it loop.
  \<^item> \<open>Backend\<close>: the table of operations (\<^verbatim>\<open>backend.h\<close>) and the loop combinator.
  \<^item> \<open>Rock_Ridge\<close>: the parser of System Use entries (\<^verbatim>\<open>rock_ridge.c\<close>), continuation areas included.
  \<^item> \<open>Iso9660\<close>, \<open>Iso_Dir\<close>: \<^verbatim>\<open>iso9660.c\<close>: descriptors, directory records, mount; enumeration, reading,
    lookup, links, parents.  \<open>Joliet\<close>: \<^verbatim>\<open>joliet.c\<close>.
  \<^item> \<open>Iso_Scan\<close> defines what a directory contains as a function of the disc alone and proves, in the
    locale \<open>iso_media\<close>, that the enumeration through the cache delivers it; the point is that a
    pointer into the cache is used only while the generation says it is valid.  \<open>Iso_Facts\<close> adds the
    unique names and lookup, \<open>Iso_Resume\<close> resumption, \<open>Iso_Props\<close> the interpretation of the locale on
    image files and the properties.
  \<^item> \<open>Dir_Source\<close>: what the layers above a backend rely on, the locale \<open>dir_source\<close>: an enumeration passes
    the entries of a directory in order.  \<open>Iso_Source\<close> proves it of the ISO 9660 reader.
  \<^item> \<open>Meta_Cache\<close>: every function of \<^verbatim>\<open>cache_meta.c\<close>, with the cached directories as objects linked by
    pointers.  \<open>Meta_Lists\<close> treats the LRU list, \<open>Meta_Names\<close> the search for names, \<open>Meta_Build\<close> packing,
    \<open>Meta_Facts\<close> the invariant, \<open>Meta_Serve\<close> listing and lookup over any \<open>dir_source\<close>, \<open>Meta_Path\<close> path walks
    and flushing; \<open>Meta_Props\<close> holds the properties.
  \<^item> \<open>Mount\<close>: every function of \<^verbatim>\<open>mount.c\<close>; the backends' contexts are objects of a store, so that two entries of a
    mount may share one.  \<open>Ancestry\<close>: the search for a parent (\<^verbatim>\<open>ancestry.c\<close>).  \<open>Mount_Facts\<close> composes the
    directory cache with any backend that is a \<open>dir_backend\<close>, \<open>Mount_Path\<close> compares path resolution with the walk along
    the names, \<open>Mount_Ctx\<close> follows the contexts through mounting and unmounting; \<open>Mount_Props\<close> holds the properties.
  \<^item> \<open>Udf\<close>: every function of \<^verbatim>\<open>udf.c\<close>: anchors, descriptor sequences, file entries, allocation descriptors and
    their continuations, file identifiers, links.  \<open>Udf_Facts\<close> defines what an object
    contains as a function of the disc and proves reading against it, \<open>Udf_Props\<close> holds the properties.
  \<^item> \<open>Catalog\<close>: the walk through a Mac catalog B-tree, which \<^verbatim>\<open>hfs.c\<close> and \<^verbatim>\<open>hfsplus.c\<close> write out alike with other offsets;
    \<open>Hfs\<close> and \<open>Hfsplus\<close>: every function of the two files over it.  \<open>Catalog_Facts\<close> says what a tree contains and proves the walk in the
    locale \<open>catalog\<close>, whose assumptions are the reader of nodes and the place of the key; \<open>Hfs_Facts\<close> interprets it on the HFS reader and
    follows the enumeration, \<open>Hfs_Source\<close> proves the HFS reader a \<open>dir_backend\<close>, so that the results on the directory cache and the mount
    layer hold of it, \<open>Hfs_Props\<close> holds the properties.
  \<^item> \<open>Cdda_Text\<close>, \<open>Cdda\<close>: every function of \<^verbatim>\<open>cdda.c\<close>: WAV and AIFF headers, CDDB and CD-Text files, the read-ahead buffer,
    enumeration and lookup.  \<open>Cdda_Facts\<close> states what is asked of a device that plays audio, the locale
    \<open>audio_media\<close>, interprets it on image files and proves reading; \<open>Cdda_Dir\<close> treats the listing, \<open>Cdda_Props\<close> holds the properties.

  \<^bold>\<open>Bounds.\<close>  A directory is at most \<open>0xFFFFF800\<close> bytes long (\<open>dir_limit\<close>): beyond it the code's rounding
  of offsets wraps.  Each read of the cache replaces at most 9 entries, so the 32-bit generation
  cannot come round while a directory is enumerated without Rock Ridge.  The budget of the directory
  cache is at most \<open>2 ^ 30\<close> bytes (the code's largest is a few megabytes), so that its 32-bit sums are exact.

  \<^bold>\<open>Not modelled.\<close>  Logging and formatted output; the AmigaDOS and AmigaOS 4 glue, whose packets and
  ports belong to the operating system; the command line tools.
\<close>

end
